(* ===== verification/Rss_Prelude.thy ===== *)
theory Rss_Prelude
  imports Main "HOL-Library.Word"
begin

text \<open>
  Shared vocabulary of the development: machine types, the outcomes a C++ member function can
  have, the state-and-error computations in which the stateful code is written, a small
  Hoare-style calculus for them, and the byte lemmas the codecs use.

  \<^item> A byte (\<^verbatim>\<open>char\<close>, \<^verbatim>\<open>int8_t\<close>) is an \<^typ>\<open>8 word\<close>, read as a signed value with \<^const>\<open>sint\<close>
    where the source does arithmetic on a plain \<^verbatim>\<open>char\<close> (x86: \<^verbatim>\<open>char\<close> is signed);
    \<^verbatim>\<open>int16_t\<close>, \<^verbatim>\<open>int32_t\<close>, \<^verbatim>\<open>int64_t\<close> are words of that width, and a \<^verbatim>\<open>double\<close> is its
    64-bit IEEE-754 image, because the code only moves the image around with \<^verbatim>\<open>memcpy\<close>.
  \<^item> An outcome is \<open>Inr\<close> of the result for \<^verbatim>\<open>ERROR_SUCCESS\<close> or \<open>Inl\<close> of an error: an error code
    returned by the code, a failed \<^verbatim>\<open>rss_assert\<close>, an escaping C++ exception, or an access that
    the C++ standard leaves undefined (a dangling pointer, an index outside an allocation).
\<close>

unbundle bit_operations_syntax

named_theorems comp_simps \<open>one-step execution of the computations\<close>
named_theorems hoare_rules \<open>the rules of the calculus, one per operation\<close>

type_synonym byte = "8 word"
type_synonym i16 = "16 word"
type_synonym i32 = "32 word"
type_synonym i64 = "64 word"
type_synonym dbl = "64 word"

section \<open>Error codes and outcomes\<close>

text \<open>The macros of \<^verbatim>\<open>rss_core_error.hpp\<close>, one constructor per code, and their numbers.\<close>

datatype rss_code =
    ERROR_ST_SET_EPOLL | ERROR_ST_INITIALIZE | ERROR_ST_OPEN_SOCKET
  | ERROR_ST_CREATE_LISTEN_THREAD | ERROR_ST_CREATE_CYCLE_THREAD
  | ERROR_SOCKET_CREATE | ERROR_SOCKET_SETREUSE | ERROR_SOCKET_BIND | ERROR_SOCKET_LISTEN
  | ERROR_SOCKET_CLOSED | ERROR_SOCKET_GET_PEER_NAME | ERROR_SOCKET_GET_PEER_IP
  | ERROR_SOCKET_READ | ERROR_SOCKET_READ_FULLY | ERROR_SOCKET_WRITE | ERROR_SOCKET_WAIT
  | ERROR_SOCKET_TIMEOUT
  | ERROR_RTMP_PLAIN_REQUIRED | ERROR_RTMP_CHUNK_START | ERROR_RTMP_MSG_INVLIAD_SIZE
  | ERROR_RTMP_AMF0_DECODE | ERROR_RTMP_AMF0_INVALID | ERROR_RTMP_REQ_CONNECT
  | ERROR_RTMP_REQ_TCURL | ERROR_RTMP_MESSAGE_DECODE | ERROR_RTMP_MESSAGE_ENCODE
  | ERROR_RTMP_AMF0_ENCODE | ERROR_RTMP_CHUNK_SIZE
  | ERROR_SYSTEM_STREAM_INIT | ERROR_SYSTEM_PACKET_INVALID | ERROR_SYSTEM_CLIENT_INVALID
  | ERROR_SYSTEM_ASSERT_FAILED

fun code_number :: "rss_code \<Rightarrow> int" where
  "code_number ERROR_ST_SET_EPOLL = 100"
| "code_number ERROR_ST_INITIALIZE = 101"
| "code_number ERROR_ST_OPEN_SOCKET = 102"
| "code_number ERROR_ST_CREATE_LISTEN_THREAD = 103"
| "code_number ERROR_ST_CREATE_CYCLE_THREAD = 104"
| "code_number ERROR_SOCKET_CREATE = 200"
| "code_number ERROR_SOCKET_SETREUSE = 201"
| "code_number ERROR_SOCKET_BIND = 202"
| "code_number ERROR_SOCKET_LISTEN = 203"
| "code_number ERROR_SOCKET_CLOSED = 204"
| "code_number ERROR_SOCKET_GET_PEER_NAME = 205"
| "code_number ERROR_SOCKET_GET_PEER_IP = 206"
| "code_number ERROR_SOCKET_READ = 207"
| "code_number ERROR_SOCKET_READ_FULLY = 208"
| "code_number ERROR_SOCKET_WRITE = 209"
| "code_number ERROR_SOCKET_WAIT = 210"
| "code_number ERROR_SOCKET_TIMEOUT = 211"
| "code_number ERROR_RTMP_PLAIN_REQUIRED = 300"
| "code_number ERROR_RTMP_CHUNK_START = 301"
| "code_number ERROR_RTMP_MSG_INVLIAD_SIZE = 302"
| "code_number ERROR_RTMP_AMF0_DECODE = 303"
| "code_number ERROR_RTMP_AMF0_INVALID = 304"
| "code_number ERROR_RTMP_REQ_CONNECT = 305"
| "code_number ERROR_RTMP_REQ_TCURL = 306"
| "code_number ERROR_RTMP_MESSAGE_DECODE = 307"
| "code_number ERROR_RTMP_MESSAGE_ENCODE = 308"
| "code_number ERROR_RTMP_AMF0_ENCODE = 309"
| "code_number ERROR_RTMP_CHUNK_SIZE = 310"
| "code_number ERROR_SYSTEM_STREAM_INIT = 400"
| "code_number ERROR_SYSTEM_PACKET_INVALID = 401"
| "code_number ERROR_SYSTEM_CLIENT_INVALID = 402"
| "code_number ERROR_SYSTEM_ASSERT_FAILED = 403"

text \<open>The code numbers do not clash, and none of them is \<^verbatim>\<open>ERROR_SUCCESS\<close> (0).\<close>

lemma code_number_pos: "100 \<le> code_number c"
  by (cases c) simp_all

lemma code_number_inject: "code_number c = code_number d \<longleftrightarrow> c = d"
  by (cases c; cases d) simp_all

datatype rss_error =
    Code rss_code   \<comment> \<open>the function returned this error code\<close>
  | AssertFailed    \<comment> \<open>\<^verbatim>\<open>rss_assert\<close> aborted the process\<close>
  | CppException    \<comment> \<open>an exception of the C++ library escaped\<close>
  | Undefined       \<comment> \<open>undefined behaviour\<close>
  | OutOfFuel       \<comment> \<open>the model's fuel ran out (shown never to happen)\<close>

type_synonym 'a res = "rss_error + 'a"
type_synonym ('s, 'a) comp = "'s \<Rightarrow> 'a res \<times> 's"

text \<open>A graceful error is one that the code reports by an error code.\<close>

fun graceful :: "rss_error \<Rightarrow> bool" where
  "graceful (Code _) = True"
| "graceful _ = False"

section \<open>Computations\<close>

text \<open>
  A computation takes the state and returns an outcome and the state after it, also when the
  outcome is an error: what a member function changed before it returned an error code stays
  changed.
\<close>

definition return :: "'a \<Rightarrow> ('s, 'a) comp" where
  "return x s = (Inr x, s)"

definition fail :: "rss_error \<Rightarrow> ('s, 'a) comp" where
  "fail e s = (Inl e, s)"

definition bind :: "('s, 'a) comp \<Rightarrow> ('a \<Rightarrow> ('s, 'b) comp) \<Rightarrow> ('s, 'b) comp" where
  "bind m f s = (case m s of (Inl e, s') \<Rightarrow> (Inl e, s') | (Inr x, s') \<Rightarrow> f x s')"

definition get :: "('s \<Rightarrow> 'a) \<Rightarrow> ('s, 'a) comp" where
  "get f s = (Inr (f s), s)"

definition modify :: "('s \<Rightarrow> 's) \<Rightarrow> ('s, unit) comp" where
  "modify f s = (Inr (), f s)"

definition assert :: "bool \<Rightarrow> ('s, unit) comp" where
  "assert b = (if b then return () else fail AssertFailed)"

text \<open>Return error code \<open>c\<close> unless the condition holds in the current state.\<close>

definition ensure :: "('s \<Rightarrow> bool) \<Rightarrow> rss_code \<Rightarrow> ('s, unit) comp" where
  "ensure f c s = (if f s then (Inr (), s) else (Inl (Code c), s))"

text \<open>Lift an outcome that needs no state.\<close>

definition lift_res :: "'a res \<Rightarrow> ('s, 'a) comp" where
  "lift_res r s = (r, s)"

lemma comp_basic [simp, comp_simps]:
  "return x s = (Inr x, s)"
  "fail e s = (Inl e, s)"
  "get f s = (Inr (f s), s)"
  "modify g s = (Inr (), g s)"
  "lift_res r s = (r, s)"
  by (simp_all add: return_def fail_def get_def modify_def lift_res_def)

lemma assert_simps [simp, comp_simps]:
  "assert True = return ()"
  "assert False = fail AssertFailed"
  by (simp_all add: assert_def)

lemma ensure_simps [simp, comp_simps]:
  "f s \<Longrightarrow> ensure f c s = (Inr (), s)"
  "\<not> f s \<Longrightarrow> ensure f c s = (Inl (Code c), s)"
  by (simp_all add: ensure_def)

lemma bind_Inr [simp, comp_simps]: "m s = (Inr x, s') \<Longrightarrow> bind m f s = f x s'"
  by (simp add: bind_def)

lemma bind_Inl [simp, comp_simps]: "m s = (Inl e, s') \<Longrightarrow> bind m f s = (Inl e, s')"
  by (simp add: bind_def)

text \<open>
  These need no premise, so that the simplifier also steps through Boolean results.
\<close>

lemma bind_step [simp, comp_simps]:
  "bind (get f) g s = g (f s) s"
  "bind (modify h) g' s = g' () (h s)"
  "bind (fail e) g'' s = (Inl e, s)"
  by (simp_all add: bind_def)

lemma bind_return [simp]: "bind (return x) f = f x"
  by (simp add: bind_def fun_eq_iff)

lemma bind_return_right [simp]: "bind m return = m"
  by (auto simp: bind_def fun_eq_iff split: prod.split sum.split)

lemma bind_assoc: "bind (bind m f) g = bind m (\<lambda>x. bind (f x) g)"
  by (auto simp: bind_def fun_eq_iff split: prod.split sum.split)

lemma bind_cases:
  assumes "bind m f s = (r, t)"
  obtains (error) e where "m s = (Inl e, t)" "r = Inl e"
    | (step) x s' where "m s = (Inr x, s')" "f x s' = (r, t)"
  using assms by (auto simp: bind_def split: prod.splits sum.splits)

section \<open>A Hoare calculus for computations\<close>

text \<open>
  \<open>hoare P m Q E\<close>: from a state with \<open>P\<close>, the computation \<open>m\<close> either succeeds with a result and
  a state in \<open>Q\<close>, or ends with an error and a state in \<open>E\<close>. It is total: there is no third case.
\<close>

definition hoare ::
  "('s \<Rightarrow> bool) \<Rightarrow> ('s, 'a) comp \<Rightarrow> ('a \<Rightarrow> 's \<Rightarrow> bool) \<Rightarrow> (rss_error \<Rightarrow> 's \<Rightarrow> bool) \<Rightarrow> bool" where
  "hoare P m Q E \<longleftrightarrow> (\<forall>s. P s \<longrightarrow> (case m s of (Inl e, s') \<Rightarrow> E e s' | (Inr x, s') \<Rightarrow> Q x s'))"

lemma hoareI:
  assumes "\<And>s e s'. P s \<Longrightarrow> m s = (Inl e, s') \<Longrightarrow> E e s'"
    and "\<And>s x s'. P s \<Longrightarrow> m s = (Inr x, s') \<Longrightarrow> Q x s'"
  shows "hoare P m Q E"
  using assms by (auto simp: hoare_def split: prod.split sum.split)

lemma hoareD:
  "hoare P m Q E \<Longrightarrow> P s \<Longrightarrow> case m s of (Inl e, s') \<Rightarrow> E e s' | (Inr x, s') \<Rightarrow> Q x s'"
  by (simp add: hoare_def)

lemma hoareD_Inr: "hoare P m Q E \<Longrightarrow> P s \<Longrightarrow> m s = (Inr x, s') \<Longrightarrow> Q x s'"
  by (auto simp: hoare_def split: prod.splits sum.splits)

lemma hoareD_Inl: "hoare P m Q E \<Longrightarrow> P s \<Longrightarrow> m s = (Inl e, s') \<Longrightarrow> E e s'"
  by (auto simp: hoare_def split: prod.splits sum.splits)

lemma hoare_bind [hoare_rules]:
  assumes "hoare P m R E" and "\<And>x. hoare (R x) (f x) Q E"
  shows "hoare P (bind m f) Q E"
proof (rule hoareI)
  fix s e s' assume "P s" and "bind m f s = (Inl e, s')"
  then show "E e s'"
    using assms by (auto elim!: bind_cases dest: hoareD_Inr hoareD_Inl)
next
  fix s x s' assume "P s" and "bind m f s = (Inr x, s')"
  then show "Q x s'"
    using assms by (auto elim!: bind_cases dest: hoareD_Inr)
qed

lemma hoare_weaken:
  assumes "hoare P' m Q' E'" and "\<And>s. P s \<Longrightarrow> P' s"
    and "\<And>x s. Q' x s \<Longrightarrow> Q x s" and "\<And>e s. E' e s \<Longrightarrow> E e s"
  shows "hoare P m Q E"
proof (rule hoareI)
  show "E e s'" if "P s" "m s = (Inl e, s')" for s e s'
    using assms(1) that by (auto intro!: assms(4) dest: assms(2) hoareD_Inl)
  show "Q x s'" if "P s" "m s = (Inr x, s')" for s x s'
    using assms(1) that by (auto intro!: assms(3) dest: assms(2) hoareD_Inr)
qed

lemma hoare_pre: "hoare P' m Q E \<Longrightarrow> (\<And>s. P s \<Longrightarrow> P' s) \<Longrightarrow> hoare P m Q E"
  by (rule hoare_weaken)

lemma hoare_return [hoare_rules]: "hoare (Q x) (return x) Q E"
  by (simp add: hoare_def)

lemma hoare_fail [hoare_rules]: "hoare (E e) (fail e) Q E"
  by (simp add: hoare_def)

lemma hoare_get [hoare_rules]: "hoare (\<lambda>s. Q (f s) s) (get f) Q E"
  by (simp add: hoare_def)

lemma hoare_modify [hoare_rules]: "hoare (\<lambda>s. Q () (f s)) (modify f) Q E"
  by (simp add: hoare_def)

lemma hoare_ensure [hoare_rules]:
  "hoare (\<lambda>s. if f s then Q () s else E (Code c) s) (ensure f c) Q E"
  by (simp add: hoare_def ensure_def)

lemma hoare_if [hoare_rules]:
  "(b \<Longrightarrow> hoare P m Q E) \<Longrightarrow> (\<not> b \<Longrightarrow> hoare R n Q E) \<Longrightarrow>
   hoare (\<lambda>s. if b then P s else R s) (if b then m else n) Q E"
  by (simp add: hoare_def)

section \<open>What results look like\<close>

text \<open>Every result of the computation satisfies the predicate.\<close>

definition yields :: "('a \<Rightarrow> bool) \<Rightarrow> ('s, 'a) comp \<Rightarrow> bool" where
  "yields P m \<longleftrightarrow> (\<forall>s x s'. m s = (Inr x, s') \<longrightarrow> P x)"

lemma yieldsD: "yields P m \<Longrightarrow> m s = (Inr x, s') \<Longrightarrow> P x"
  unfolding yields_def by blast

lemma yields_bind: "yields Q m \<Longrightarrow> (\<And>x. Q x \<Longrightarrow> yields P (f x)) \<Longrightarrow> yields P (bind m f)"
  unfolding yields_def by (blast elim: bind_cases)

lemma yields_after: "(\<And>x. yields P (f x)) \<Longrightarrow> yields P (bind m f)"
  unfolding yields_def by (blast elim: bind_cases)

lemma yields_basic: "P x \<Longrightarrow> yields P (return x)" "yields P (fail e)"
  by (simp_all add: yields_def)

lemma yields_if: "(b \<Longrightarrow> yields P m) \<Longrightarrow> (\<not> b \<Longrightarrow> yields P n) \<Longrightarrow> yields P (if b then m else n)"
  by simp

section \<open>Fuel\<close>

text \<open>
  \<open>fuel_le m m'\<close>: the computation \<open>m'\<close> does what \<open>m\<close> does wherever \<open>m\<close> does not run out of fuel.
\<close>

definition fuel_le :: "('s, 'a) comp \<Rightarrow> ('s, 'a) comp \<Rightarrow> bool" where
  "fuel_le m m' \<longleftrightarrow> (\<forall>s. fst (m s) \<noteq> Inl OutOfFuel \<longrightarrow> m' s = m s)"

lemma fuel_leD: "fuel_le m m' \<Longrightarrow> fst (m s) \<noteq> Inl OutOfFuel \<Longrightarrow> m' s = m s"
  by (simp add: fuel_le_def)

lemma fuel_le_refl [simp, intro]: "fuel_le m m"
  by (simp add: fuel_le_def)

lemma fuel_le_trans: "fuel_le m m' \<Longrightarrow> fuel_le m' m'' \<Longrightarrow> fuel_le m m''"
  by (simp add: fuel_le_def)

lemma fuel_le_out [simp, intro]: "fuel_le (fail OutOfFuel) m"
  by (simp add: fuel_le_def)

lemma fuel_le_bind [intro]:
  assumes "fuel_le m m'" and "\<And>x. fuel_le (f x) (f' x)"
  shows "fuel_le (bind m f) (bind m' f')"
  unfolding fuel_le_def
proof (intro allI impI)
  fix s assume out: "fst (bind m f s) \<noteq> Inl OutOfFuel"
  obtain r s' where m: "m s = (r, s')" by (cases "m s")
  with out have "r \<noteq> Inl OutOfFuel" by auto
  with m have m': "m' s = (r, s')"
    using fuel_leD [OF assms(1), of s] by simp
  show "bind m' f' s = bind m f s"
  proof (cases r)
    case (Inl e)
    with m m' show ?thesis by simp
  next
    case (Inr x)
    with m m' out fuel_leD [OF assms(2)] show ?thesis by simp
  qed
qed

lemma fuel_le_if [intro]:
  "(b \<Longrightarrow> fuel_le m m') \<Longrightarrow> (\<not> b \<Longrightarrow> fuel_le n n') \<Longrightarrow>
   fuel_le (if b then m else n) (if b then m' else n')"
  by simp

section \<open>Bytes of machine integers\<close>

text \<open>
  \<open>byte_at k v\<close> is the byte \<^verbatim>\<open>((char*)&v)[k]\<close> of an integer on the little-endian x86 target
  of the Makefile: byte 0 is the least significant one.
\<close>

definition byte_at :: "nat \<Rightarrow> 'a::len word \<Rightarrow> byte" where
  "byte_at k v = ucast (drop_bit (8 * k) v)"

text \<open>The integer whose bytes, from byte 0 up, are the given list.\<close>

fun of_bytes :: "byte list \<Rightarrow> 'a::len word" where
  "of_bytes [] = 0"
| "of_bytes (b # bs) = ucast b OR push_bit 8 (of_bytes bs)"

lemma bit_byte_at: "bit (byte_at k v) n \<longleftrightarrow> n < 8 \<and> bit v (8 * k + n)"
  for v :: "'a::len word"
  by (auto simp: byte_at_def bit_simps dest: bit_imp_le_length)

lemma bit_of_bytes:
  "bit (of_bytes bs :: 'a::len word) n \<longleftrightarrow>
     n < LENGTH('a) \<and> n div 8 < length bs \<and> bit (bs ! (n div 8)) (n mod 8)"
proof (induction bs arbitrary: n)
  case Nil
  then show ?case by simp
next
  case (Cons b bs)
  show ?case
  proof (cases "n < 8")
    case True
    then show ?thesis by (auto simp: bit_simps)
  next
    case False
    then have "n div 8 = Suc ((n - 8) div 8)" and "(n - 8) mod 8 = n mod 8"
      by (auto simp: le_div_geq le_mod_geq)
    with False show ?thesis
      by (auto simp: bit_simps Cons.IH dest: bit_imp_le_length)
  qed
qed

lemma of_bytes_all_bytes:
  assumes "LENGTH('a) = 8 * k"
  shows "of_bytes (map (\<lambda>i. byte_at i v) [0..<k]) = (v :: 'a::len word)"
proof (rule bit_word_eqI)
  fix n assume n: "n < LENGTH('a)"
  with assms have "n div 8 < k" by auto
  then show "bit (of_bytes (map (\<lambda>i. byte_at i v) [0..<k]) :: 'a word) n = bit v n"
    using n by (simp add: bit_of_bytes bit_byte_at)
qed

lemma byte_at_of_bytes:
  assumes "k < length bs" and "8 * k + 8 \<le> LENGTH('a)"
  shows "byte_at k (of_bytes bs :: 'a::len word) = bs ! k"
proof (rule bit_word_eqI)
  fix n assume "n < LENGTH(8)"
  then show "bit (byte_at k (of_bytes bs :: 'a word)) n = bit (bs ! k) n"
    using assms by (auto simp: bit_byte_at bit_of_bytes)
qed

lemma of_bytes_i16: "of_bytes [byte_at 0 v, byte_at 1 v] = (v :: i16)"
  using of_bytes_all_bytes [of 2 v] by (simp add: eval_nat_numeral)

lemma of_bytes_i32: "of_bytes [byte_at 0 v, byte_at 1 v, byte_at 2 v, byte_at 3 v] = (v :: i32)"
  using of_bytes_all_bytes [of 4 v] by (simp add: eval_nat_numeral)

lemma of_bytes_i64:
  "of_bytes [byte_at 0 v, byte_at 1 v, byte_at 2 v, byte_at 3 v,
             byte_at 4 v, byte_at 5 v, byte_at 6 v, byte_at 7 v] = (v :: i64)"
  using of_bytes_all_bytes [of 8 v] by (simp add: eval_nat_numeral)

text \<open>Three bytes with a zero top byte, as the RTMP headers carry them: the value modulo \<open>2 ^ 24\<close>.\<close>

lemma of_bytes_u24:
  "of_bytes [byte_at 0 v, byte_at 1 v, byte_at 2 v, 0] = take_bit 24 (v :: i32)"
proof (rule bit_word_eqI)
  fix n assume "n < LENGTH(32)"
  then have "n div 8 = 0 \<or> n div 8 = 1 \<or> n div 8 = 2 \<or> n div 8 = 3" by auto
  then show "bit (of_bytes [byte_at 0 v, byte_at 1 v, byte_at 2 v, 0] :: i32) n
      = bit (take_bit 24 v) n"
    using \<open>n < LENGTH(32)\<close> by (auto simp: bit_of_bytes bit_byte_at bit_simps)
qed

section \<open>Strings as bytes\<close>

definition byte_of_char :: "char \<Rightarrow> byte" where
  "byte_of_char c = word_of_nat (of_char c)"

definition char_of_byte :: "byte \<Rightarrow> char" where
  "char_of_byte b = char_of (unat b)"

definition bytes_of_string :: "string \<Rightarrow> byte list" where
  "bytes_of_string s = map byte_of_char s"

definition string_of_bytes :: "byte list \<Rightarrow> string" where
  "string_of_bytes bs = map char_of_byte bs"

lemma char_of_byte_of_char [simp]: "char_of_byte (byte_of_char c) = c"
proof -
  have "of_char c < (256::nat)" by simp
  then have "unat (word_of_nat (of_char c) :: byte) = of_char c"
    by (subst unat_of_nat) simp
  then show ?thesis by (simp add: byte_of_char_def char_of_byte_def)
qed

lemma string_of_bytes_of_string [simp]: "string_of_bytes (bytes_of_string s) = s"
  by (simp add: string_of_bytes_def bytes_of_string_def comp_def)

lemma length_bytes_of_string [simp]: "length (bytes_of_string s) = length s"
  by (simp add: bytes_of_string_def)

lemma length_string_of_bytes [simp]: "length (string_of_bytes bs) = length bs"
  by (simp add: string_of_bytes_def)

section \<open>Integer conversions\<close>

text \<open>A \<^verbatim>\<open>size_t\<close> passed where an \<^verbatim>\<open>int\<close> is expected keeps its low 32 bits, read as signed.\<close>

definition int_of_size :: "nat \<Rightarrow> int" where
  "int_of_size n = sint (word_of_nat n :: i32)"

lemma sint_of_nat_small: "n < 2 ^ (LENGTH('a) - 1) \<Longrightarrow> sint (word_of_nat n :: 'a::len word) = int n"
proof -
  assume n: "n < 2 ^ (LENGTH('a) - 1)"
  then have "int n < int (2 ^ (LENGTH('a) - 1))"
    by (simp only: of_nat_less_iff)
  then have "signed_take_bit (LENGTH('a) - 1) (int n) = int n"
    by (intro signed_take_bit_int_eq_self order_trans [of "- (2 ^ (LENGTH('a) - 1))" 0 "int n"]) simp_all
  then have "sint (word_of_int (int n) :: 'a word) = int n"
    by (simp only: sint_sbintrunc')
  then show ?thesis by simp
qed

text \<open>Unsigned values that a signed type takes for negative ones.\<close>

lemma sint_wrapped:
  assumes "2 ^ 15 \<le> n" and "n < 2 ^ 16"
  shows "sint (word_of_nat n :: i16) \<le> 0"
proof -
  have "sint (word_of_nat n :: i16) = (int n + 2 ^ 15) mod 2 ^ 16 - 2 ^ 15"
    by transfer (simp add: signed_take_bit_eq_take_bit_shift take_bit_eq_mod)
  also have "(int n + 2 ^ 15) mod 2 ^ 16 = int n + 2 ^ 15 - 2 ^ 16"
    using assms by (simp add: mod_pos_geq mod_pos_pos_trivial)
  finally show ?thesis using assms by simp
qed

lemma sint_byte_high:
  fixes y :: byte
  assumes "128 \<le> y"
  shows "sint y = uint y - 256"
proof -
  have "sint y = (uint y + 2 ^ 7) mod 2 ^ 8 - 2 ^ 7"
    by (simp add: sint_uint signed_take_bit_eq_take_bit_shift take_bit_eq_mod)
  moreover have "128 \<le> uint y" "uint y < 256" using assms uint_lt2p [of y] by (simp_all add: word_le_def)
  ultimately show ?thesis by (simp add: mod_pos_geq mod_pos_pos_trivial)
qed

lemma int_of_size_small: "n < 2 ^ 31 \<Longrightarrow> int_of_size n = int n"
  by (simp add: int_of_size_def sint_of_nat_small)

section \<open>Sums over finite tables\<close>

definition tab_sum :: "('v \<Rightarrow> nat) \<Rightarrow> ('k \<rightharpoonup> 'v) \<Rightarrow> nat" where
  "tab_sum f t = (\<Sum>k\<in>dom t. f (the (t k)))"

lemma tab_sum_empty [simp]: "tab_sum f Map.empty = 0"
  by (simp add: tab_sum_def)

lemma tab_sum_remove:
  assumes "finite (dom t)" and "t k = Some x"
  shows "tab_sum f t = f x + tab_sum f (t(k := None))"
proof -
  have "tab_sum f t = f (the (t k)) + (\<Sum>j\<in>dom t - {k}. f (the (t j)))"
    unfolding tab_sum_def using assms by (intro sum.remove) auto
  also have "(\<Sum>j\<in>dom t - {k}. f (the (t j))) = tab_sum f (t(k := None))"
    unfolding tab_sum_def by (intro sum.cong) auto
  finally show ?thesis using assms(2) by simp
qed

lemma tab_sum_insert:
  assumes "finite (dom t)" and "t k = None"
  shows "tab_sum f (t(k \<mapsto> y)) = f y + tab_sum f t"
  using tab_sum_remove [of "t(k \<mapsto> y)" k y f] assms by (simp add: fun_upd_idem)

lemma tab_sum_update:
  assumes "finite (dom t)" and "t k = Some x"
  shows "tab_sum f (t(k \<mapsto> y)) + f x = tab_sum f t + f y"
  using tab_sum_remove [of "t(k \<mapsto> y)" k y f] tab_sum_remove [of t k x f] assms by simp

lemma tab_sum_member:
  assumes "finite (dom t)" and "t k = Some x"
  shows "f x \<le> tab_sum f t"
  using tab_sum_remove [OF assms] by simp

end
