(* ===== verification/St_Io.thy ===== *)
theory St_Io
  imports Rss_Prelude
begin

text \<open>
  The blocking I/O calls of the state-threads library that the server uses
  (\<^verbatim>\<open>objs/st-1.9/io.c\<close>): \<^verbatim>\<open>st_read\<close>, \<^verbatim>\<open>st_readv_resid\<close>, \<^verbatim>\<open>st_read_fully\<close>, \<^verbatim>\<open>st_writev_resid\<close>,
  \<^verbatim>\<open>st_write\<close>, \<^verbatim>\<open>st_writev\<close> and \<^verbatim>\<open>st_netfd_poll\<close>. The kernel is the parameter: a descriptor's state
  holds the results its future system calls will have, the bytes it has accepted so far, and
  \<^verbatim>\<open>errno\<close>. The lemmas reduce the retry loops to a byte stream: a successful full read delivers
  exactly the next bytes of the stream, a successful write sends exactly the given bytes in order.

  \<^verbatim>\<open>errno\<close> is one variable of the process: while a thread waits in \<^verbatim>\<open>st_poll\<close> the other threads
  run, so a wait that ends with the descriptor ready leaves an arbitrary value in it.
\<close>

datatype st_errno = ENONE | EINTR | EAGAIN | ETIME | EBADF | ECONNRESET | EIO
  | EINVAL | EDEADLK | EBUSY | EPERM | ENOENT | EEXIST | EMFILE | ENOMEM | EINPROGRESS | EADDRINUSE

text \<open>What the next \<^verbatim>\<open>read\<close>/\<^verbatim>\<open>readv\<close>, \<^verbatim>\<open>write\<close>/\<^verbatim>\<open>writev\<close> and \<^verbatim>\<open>st_poll\<close> calls will do.\<close>

datatype rd_event = RdBytes "byte list" | RdFail st_errno
datatype wr_event = WrCount nat | WrFail st_errno
datatype poll_event = PollReady st_errno | PollTimeout | PollFail st_errno | PollNval

record st_net =
  net_rd :: "rd_event list"
  net_wr :: "wr_event list"
  net_poll :: "poll_event list"
  net_sent :: "byte list"
  net_errno :: st_errno

abbreviation ST_UTIME_NO_TIMEOUT :: int where "ST_UTIME_NO_TIMEOUT \<equiv> -1"

section \<open>System calls\<close>

text \<open>
  \<^verbatim>\<open>read\<close> for at most \<open>n\<close> bytes: \<open>None\<close> is \<open>-1\<close> with \<^verbatim>\<open>errno\<close> set, \<open>Some []\<close> is end of file, also
  after the last listed event. Bytes that do not fit stay for the next call.
\<close>

fun sys_read :: "nat \<Rightarrow> st_net \<Rightarrow> byte list option \<times> st_net" where
  "sys_read n net =
     (case net_rd net of
        [] \<Rightarrow> (Some [], net)
      | RdFail e # r \<Rightarrow> (None, net\<lparr>net_rd := r, net_errno := e\<rparr>)
      | RdBytes bs # r \<Rightarrow>
          if length bs \<le> n then (Some bs, net\<lparr>net_rd := r\<rparr>)
          else (Some (take n bs), net\<lparr>net_rd := RdBytes (drop n bs) # r\<rparr>))"

text \<open>\<^verbatim>\<open>write\<close>: the number of bytes the kernel took; after the last listed event it takes all.\<close>

fun sys_write :: "byte list \<Rightarrow> st_net \<Rightarrow> nat option \<times> st_net" where
  "sys_write bs net =
     (case net_wr net of
        [] \<Rightarrow> (Some (length bs), net\<lparr>net_sent := net_sent net @ bs\<rparr>)
      | WrFail e # r \<Rightarrow> (None, net\<lparr>net_wr := r, net_errno := e\<rparr>)
      | WrCount k # r \<Rightarrow>
          (Some (min k (length bs)), net\<lparr>net_wr := r, net_sent := net_sent net @ take k bs\<rparr>))"

text \<open>
  \<^verbatim>\<open>st_netfd_poll\<close>: \<open>True\<close> for 0 (ready), \<open>False\<close> for \<open>-1\<close>. Without a timeout the wait cannot time
  out.
\<close>

fun st_netfd_poll :: "int \<Rightarrow> st_net \<Rightarrow> bool \<times> st_net" where
  "st_netfd_poll timeout net =
     (case net_poll net of
        [] \<Rightarrow> (True, net)
      | PollReady e # r \<Rightarrow> (True, net\<lparr>net_poll := r, net_errno := e\<rparr>)
      | PollTimeout # r \<Rightarrow>
          if timeout = ST_UTIME_NO_TIMEOUT then (True, net\<lparr>net_poll := r\<rparr>)
          else (False, net\<lparr>net_poll := r, net_errno := ETIME\<rparr>)
      | PollFail e # r \<Rightarrow> (False, net\<lparr>net_poll := r, net_errno := e\<rparr>)
      | PollNval # r \<Rightarrow> (False, net\<lparr>net_poll := r, net_errno := EBADF\<rparr>))"

lemma poll_keeps:
  "st_netfd_poll t net = (r, net') \<Longrightarrow>
     net_rd net' = net_rd net \<and> net_wr net' = net_wr net \<and> net_sent net' = net_sent net"
  by (auto split: list.splits poll_event.splits if_splits)

lemma sys_read_fail: "sys_read n net = (None, net') \<Longrightarrow> length (net_rd net') < length (net_rd net)"
  by (auto split: list.splits rd_event.splits if_splits)

lemma sys_read_some:
  "sys_read n net = (Some bs, net') \<Longrightarrow> bs \<noteq> [] \<Longrightarrow> 0 < length bs \<and> length bs \<le> n"
  by (auto split: list.splits rd_event.splits if_splits)

lemma diff_length_less: "bs \<noteq> [] \<Longrightarrow> length bs \<le> n \<Longrightarrow> n - length bs < n"
  by (cases bs) auto

lemma sys_write_fail: "sys_write bs net = (None, net') \<Longrightarrow> length (net_wr net') < length (net_wr net)"
  by (auto split: list.splits wr_event.splits if_splits)

lemma sys_write_partial:
  "sys_write bs net = (Some n, net') \<Longrightarrow>
     n \<le> length bs \<and> net_sent net' = net_sent net @ take n bs \<and>
     (length (net_wr net') < length (net_wr net) \<or> n = length bs \<and> net_wr net' = net_wr net)"
  by (auto split: list.splits wr_event.splits if_splits simp: min_def)

text \<open>The same facts in the orientation of the termination goals.\<close>

lemmas poll_keeps' = poll_keeps [OF sym]
lemmas sys_read_fail' = sys_read_fail [OF sym]
lemmas sys_read_some' = sys_read_some [OF sym]
lemmas sys_write_fail' = sys_write_fail [OF sym]
lemmas sys_write_partial' = sys_write_partial [OF sym]

declare st_netfd_poll.simps [simp del] sys_read.simps [simp del] sys_write.simps [simp del]

section \<open>Reading\<close>

function st_read :: "nat \<Rightarrow> int \<Rightarrow> st_net \<Rightarrow> byte list option \<times> st_net" where
  "st_read nbyte timeout net =
     (case sys_read nbyte net of
        (Some bs, net') \<Rightarrow> (Some bs, net')
      | (None, net') \<Rightarrow>
          if net_errno net' = EINTR then st_read nbyte timeout net'
          else if net_errno net' \<noteq> EAGAIN then (None, net')
          else
            (case st_netfd_poll timeout net' of
               (False, net'') \<Rightarrow> (None, net'')
             | (True, net'') \<Rightarrow> st_read nbyte timeout net''))"
  by pat_completeness auto
termination
  by (relation "measure (\<lambda>(n, t, net). length (net_rd net))")
    (auto dest!: sys_read_fail' poll_keeps')

declare st_read.simps [simp del]

text \<open>
  The inner loop of the \<^verbatim>\<open>_resid\<close> functions: skip \<open>n\<close> transferred bytes over the vector of
  remaining lengths.
\<close>

fun iov_advance :: "nat \<Rightarrow> nat list \<Rightarrow> nat list" where
  "iov_advance n [] = []"
| "iov_advance n (l # ls) =
     (if l \<le> n then (if n - l = 0 then ls else iov_advance (n - l) ls) else (l - n) # ls)"

lemma iov_advance_sum: "sum_list (iov_advance n ls) = sum_list ls - n"
  by (induction n ls rule: iov_advance.induct) auto

lemma iov_advance_length: "length (iov_advance n ls) \<le> length ls"
  by (induction n ls rule: iov_advance.induct) auto

text \<open>
  \<^verbatim>\<open>st_readv_resid\<close>: the vector is given by the lengths of its buffers; the result is the bytes
  stored so far, the vector that is left, and whether the return value is 0 (\<open>True\<close>) or \<open>-1\<close>.
\<close>

function st_readv_resid ::
  "nat list \<Rightarrow> byte list \<Rightarrow> int \<Rightarrow> st_net \<Rightarrow> (bool \<times> byte list \<times> nat list) \<times> st_net" where
  "st_readv_resid iov got timeout net =
     (if iov = [] then ((True, got, iov), net)
      else
        (case sys_read (sum_list iov) net of
           (None, net') \<Rightarrow>
             if net_errno net' = EINTR then st_readv_resid iov got timeout net'
             else if net_errno net' \<noteq> EAGAIN then ((False, got, iov), net')
             else
               (case st_netfd_poll timeout net' of
                  (False, net'') \<Rightarrow> ((False, got, iov), net'')
                | (True, net'') \<Rightarrow> st_readv_resid iov got timeout net'')
         | (Some bs, net') \<Rightarrow>
             if bs = [] then ((True, got, iov), net')
             else if iov_advance (length bs) iov = []
               then ((True, got @ bs, []), net')
             else
               (case st_netfd_poll timeout net' of
                  (False, net'') \<Rightarrow> ((False, got @ bs, iov_advance (length bs) iov), net'')
                | (True, net'') \<Rightarrow>
                    st_readv_resid (iov_advance (length bs) iov) (got @ bs) timeout net'')))"
  by pat_completeness auto
termination
  by (relation "measures [\<lambda>(iov, got, t, net). sum_list iov, \<lambda>(iov, got, t, net). length (net_rd net)]")
    (auto dest!: sys_read_fail' poll_keeps' sys_read_some' simp: iov_advance_sum diff_length_less)

declare st_readv_resid.simps [simp del]

definition st_read_resid :: "nat \<Rightarrow> int \<Rightarrow> st_net \<Rightarrow> (bool \<times> byte list \<times> nat) \<times> st_net" where
  "st_read_resid resid timeout net =
     (case st_readv_resid [resid] [] timeout net of
        ((rv, got, iov), net') \<Rightarrow> ((rv, got, sum_list iov), net'))"

text \<open>\<^verbatim>\<open>st_read_fully\<close>: \<open>Some bs\<close> with fewer bytes than asked for means end of file.\<close>

definition st_read_fully :: "nat \<Rightarrow> int \<Rightarrow> st_net \<Rightarrow> byte list option \<times> st_net" where
  "st_read_fully nbyte timeout net =
     (case st_read_resid nbyte timeout net of
        ((rv, got, resid), net') \<Rightarrow> (if rv then Some got else None, net'))"

section \<open>Writing\<close>

fun iov_skip :: "nat \<Rightarrow> byte list list \<Rightarrow> byte list list" where
  "iov_skip n [] = []"
| "iov_skip n (v # vs) =
     (if length v \<le> n then (if n - length v = 0 then vs else iov_skip (n - length v) vs)
      else drop n v # vs)"

definition iov_weight :: "byte list list \<Rightarrow> nat" where
  "iov_weight iov = sum_list (map (\<lambda>v. Suc (length v)) iov)"

lemma iov_skip_concat: "concat (iov_skip n vs) = drop n (concat vs)"
  by (induction n vs rule: iov_skip.induct) auto

lemma iov_skip_weight: "iov_weight (iov_skip n vs) \<le> iov_weight vs"
  by (induction n vs rule: iov_skip.induct) (auto simp: iov_weight_def)

lemma iov_skip_all: "vs \<noteq> [] \<Longrightarrow> iov_weight (iov_skip (length (concat vs)) vs) < iov_weight vs"
  using iov_skip_weight [of "length (concat (tl vs))" "tl vs"]
  by (cases vs) (auto simp: iov_weight_def)

function st_writev_resid :: "byte list list \<Rightarrow> int \<Rightarrow> st_net \<Rightarrow> (bool \<times> byte list list) \<times> st_net" where
  "st_writev_resid iov timeout net =
     (if iov = [] then ((True, iov), net)
      else
        (case sys_write (concat iov) net of
           (None, net') \<Rightarrow>
             if net_errno net' = EINTR then st_writev_resid iov timeout net'
             else if net_errno net' \<noteq> EAGAIN then ((False, iov), net')
             else
               (case st_netfd_poll timeout net' of
                  (False, net'') \<Rightarrow> ((False, iov), net'')
                | (True, net'') \<Rightarrow> st_writev_resid iov timeout net'')
         | (Some n, net') \<Rightarrow>
             if iov_skip n iov = [] then ((True, []), net')
             else
               (case st_netfd_poll timeout net' of
                  (False, net'') \<Rightarrow> ((False, iov_skip n iov), net'')
                | (True, net'') \<Rightarrow> st_writev_resid (iov_skip n iov) timeout net'')))"
  by pat_completeness auto
termination
  by (relation "measure (\<lambda>(iov, t, net). iov_weight iov + length (net_wr net))")
    (auto dest!: sys_write_fail' poll_keeps' dest!: sys_write_partial'
      intro: add_le_less_mono add_less_le_mono iov_skip_weight iov_skip_all)

declare st_writev_resid.simps [simp del]

definition st_write_resid :: "byte list \<Rightarrow> int \<Rightarrow> st_net \<Rightarrow> (bool \<times> nat) \<times> st_net" where
  "st_write_resid buf timeout net =
     (case st_writev_resid [buf] timeout net of
        ((rv, iov), net') \<Rightarrow> ((rv, length (concat iov)), net'))"

definition st_write :: "byte list \<Rightarrow> int \<Rightarrow> st_net \<Rightarrow> nat option \<times> st_net" where
  "st_write buf timeout net =
     (case st_write_resid buf timeout net of
        ((rv, resid), net') \<Rightarrow> (if rv then Some (length buf - resid) else None, net'))"

text \<open>
  The search for the next unwritten vector in \<^verbatim>\<open>st_writev\<close>: unlike the loop above it also passes
  over empty vectors.
\<close>

fun iov_seek :: "nat \<Rightarrow> byte list list \<Rightarrow> byte list list" where
  "iov_seek n [] = []"
| "iov_seek n (v # vs) = (if length v \<le> n then iov_seek (n - length v) vs else drop n v # vs)"

lemma iov_seek_concat: "concat (iov_seek n vs) = drop n (concat vs)"
  by (induction n vs rule: iov_seek.induct) auto

text \<open>
  \<^verbatim>\<open>st_writev\<close>: \<open>tmp\<close> is \<^verbatim>\<open>tmp_iov\<close>, whose total length is \<^verbatim>\<open>nleft\<close>; after a partial write it is
  recomputed from the original vector. The copy is on the stack up to 16 vectors and else allocated: \<open>alloc\<close> is
  the success of \<^verbatim>\<open>calloc\<close>. A later copy is no longer than the first, so it needs no allocation of its own.
\<close>

abbreviation LOCAL_MAXIOV :: nat where "LOCAL_MAXIOV \<equiv> 16"

function st_writev_loop :: "bool \<Rightarrow> byte list list \<Rightarrow> byte list list \<Rightarrow> int \<Rightarrow> st_net \<Rightarrow> bool \<times> st_net" where
  "st_writev_loop alloc iov tmp timeout net =
     (let nleft = length (concat tmp) in
      if nleft = 0 then (True, net)
      else if length tmp = 1 then
        (case st_write (hd tmp) timeout net of (r, net') \<Rightarrow> (r = Some nleft, net'))
      else
        (case sys_write (concat tmp) net of
           (None, net') \<Rightarrow>
             if net_errno net' = EINTR then st_writev_loop alloc iov tmp timeout net'
             else if net_errno net' \<noteq> EAGAIN then (False, net')
             else
               (case st_netfd_poll timeout net' of
                  (False, net'') \<Rightarrow> (False, net'')
                | (True, net'') \<Rightarrow> st_writev_loop alloc iov tmp timeout net'')
         | (Some n, net') \<Rightarrow>
             if n = nleft then (True, net')
             else if \<not> alloc \<and> LOCAL_MAXIOV < length (iov_seek (length (concat iov) - (nleft - n)) iov) then (False, net')
             else
               (case st_netfd_poll timeout net' of
                  (False, net'') \<Rightarrow> (False, net'')
                | (True, net'') \<Rightarrow>
                    st_writev_loop alloc iov (iov_seek (length (concat iov) - (nleft - n)) iov)
                      timeout net'')))"
  by pat_completeness auto
termination
  by (relation "measure (\<lambda>(al, iov, tmp, t, net). length (concat tmp) + length (net_wr net))")
    (auto dest!: sys_write_fail' poll_keeps' sys_write_partial' simp: iov_seek_concat)

declare st_writev_loop.simps [simp del]

definition st_writev :: "bool \<Rightarrow> byte list list \<Rightarrow> int \<Rightarrow> st_net \<Rightarrow> nat option \<times> st_net" where
  "st_writev alloc iov timeout net =
     (case st_writev_loop alloc iov iov timeout net of
        (ok, net') \<Rightarrow> (if ok then Some (length (concat iov)) else None, net'))"

section \<open>The byte stream of a descriptor\<close>

text \<open>The bytes that the future reads will deliver, in order.\<close>

fun rd_event_bytes :: "rd_event \<Rightarrow> byte list" where
  "rd_event_bytes (RdBytes bs) = bs"
| "rd_event_bytes (RdFail e) = []"

definition net_in :: "st_net \<Rightarrow> byte list" where
  "net_in net = concat (map rd_event_bytes (net_rd net))"

lemma sys_read_stream:
  "sys_read n net = (r, net') \<Longrightarrow>
     net_in net = (case r of None \<Rightarrow> [] | Some bs \<Rightarrow> bs) @ net_in net' \<and>
     (\<forall>bs. r = Some bs \<longrightarrow> length bs \<le> n) \<and> net_sent net' = net_sent net \<and> net_wr net' = net_wr net"
  by (auto simp: net_in_def sys_read.simps split: list.splits rd_event.splits if_splits)

lemma poll_stream: "st_netfd_poll t net = (r, net') \<Longrightarrow> net_in net' = net_in net"
  by (simp add: net_in_def poll_keeps)

text \<open>
  \<^verbatim>\<open>st_read\<close> takes the bytes it returns off the front of the stream; a failing call takes none.
\<close>

lemma st_read_stream:
  "st_read n t net = (r, net') \<Longrightarrow>
     net_in net = (case r of None \<Rightarrow> [] | Some bs \<Rightarrow> bs) @ net_in net' \<and>
     (\<forall>bs. r = Some bs \<longrightarrow> length bs \<le> n) \<and> net_sent net' = net_sent net \<and> net_wr net' = net_wr net"
proof (induction n t net arbitrary: r net' rule: st_read.induct)
  case (1 n t net)
  obtain r1 net1 where sys: "sys_read n net = (r1, net1)" by fastforce
  show ?case
  proof (cases r1)
    case (Some bs)
    with 1(3) sys show ?thesis by (simp add: st_read.simps sys_read_stream)
  next
    case None
    obtain p net2 where poll: "st_netfd_poll t net1 = (p, net2)" by fastforce
    note facts = sys_read_stream [OF sys] poll_stream [OF poll] poll_keeps [OF poll]
    show ?thesis
      using 1(1) [OF sys [symmetric] None] 1(2) [OF sys [symmetric] None _ _ poll [symmetric]] 1(3)
        sys None poll facts
      by (subst (asm) (3) st_read.simps) (auto split: if_splits bool.splits)
  qed
qed

lemma st_readv_resid_stream:
  "st_readv_resid iov got t net = ((ok, got', iov'), net') \<Longrightarrow>
     \<exists>bs. got' = got @ bs \<and> net_in net = bs @ net_in net' \<and>
        length bs + sum_list iov' = sum_list iov \<and>
        net_sent net' = net_sent net \<and> net_wr net' = net_wr net"
proof (induction iov got t net arbitrary: ok got' iov' net' rule: st_readv_resid.induct)
  case (1 iov got t net)
  show ?case
  proof (cases "iov = []")
    case True
    with 1(4) show ?thesis by (simp add: st_readv_resid.simps)
  next
    case False
    obtain r1 net1 where sys: "sys_read (sum_list iov) net = (r1, net1)" by fastforce
    obtain p net2 where poll: "st_netfd_poll t net1 = (p, net2)" by fastforce
    note facts = sys_read_stream [OF sys] poll_stream [OF poll] poll_keeps [OF poll]
    show ?thesis
    proof (cases r1)
      case None
      show ?thesis
        using 1(1) [OF False sys [symmetric] None]
          1(2) [OF False sys [symmetric] None _ _ poll [symmetric]] 1(4) sys None poll facts False
        by (subst (asm) (3) st_readv_resid.simps) (auto split: if_splits bool.splits)
    next
      case (Some bs)
      have sum: "length bs + sum_list (iov_advance (length bs) iov) = sum_list iov"
        using facts(1) Some by (simp add: iov_advance_sum)
      show ?thesis
        using 1(3) [OF False sys [symmetric] Some _ _ poll [symmetric]] 1(4) sys Some poll facts False sum
        by (subst (asm) (2) st_readv_resid.simps) (fastforce split: if_splits bool.splits)
    qed
  qed
qed

lemma st_read_fully_stream:
  "st_read_fully n t net = (Some bs, net') \<Longrightarrow>
     net_in net = bs @ net_in net' \<and> length bs \<le> n \<and> net_sent net' = net_sent net \<and> net_wr net' = net_wr net"
  by (auto simp: st_read_fully_def st_read_resid_def split: prod.splits if_splits
      dest!: st_readv_resid_stream)

text \<open>
  A descriptor on which nothing goes wrong: reads deliver some bytes or ask to be retried, and
  every wait ends with the descriptor ready.
\<close>

fun rd_event_fair :: "rd_event \<Rightarrow> bool" where
  "rd_event_fair (RdBytes bs) = (bs \<noteq> [])"
| "rd_event_fair (RdFail e) = (e = EINTR \<or> e = EAGAIN)"

fun poll_event_ready :: "poll_event \<Rightarrow> bool" where
  "poll_event_ready (PollReady e) = True"
| "poll_event_ready _ = False"

definition net_fair :: "st_net \<Rightarrow> bool" where
  "net_fair net \<longleftrightarrow> list_all rd_event_fair (net_rd net) \<and> list_all poll_event_ready (net_poll net)"

lemma sys_read_fair:
  "net_fair net \<Longrightarrow> sys_read n net = (r, net') \<Longrightarrow> 0 < n \<Longrightarrow> n \<le> length (net_in net) \<Longrightarrow>
     net_fair net' \<and> (r = None \<longrightarrow> net_errno net' = EINTR \<or> net_errno net' = EAGAIN) \<and> r \<noteq> Some []"
  by (auto simp: net_fair_def net_in_def sys_read.simps split: list.splits rd_event.splits if_splits)

lemma poll_fair: "net_fair net \<Longrightarrow> st_netfd_poll t net = (r, net') \<Longrightarrow> r \<and> net_fair net'"
  by (auto simp: net_fair_def st_netfd_poll.simps split: list.splits poll_event.splits if_splits)

lemma st_readv_resid_fair:
  "net_fair net \<Longrightarrow> 0 < l \<Longrightarrow> l \<le> length (net_in net) \<Longrightarrow>
     \<exists>net'. st_readv_resid [l] got t net = ((True, got @ take l (net_in net), []), net') \<and>
       net_in net' = drop l (net_in net) \<and> net_fair net'"
proof (induction "[l]" got t net arbitrary: l rule: st_readv_resid.induct)
  case (1 got t net)
  obtain r1 net1 where sys: "sys_read l net = (r1, net1)" by fastforce
  obtain p net2 where poll: "st_netfd_poll t net1 = (p, net2)" by fastforce
  from sys have sys': "sys_read (sum_list [l]) net = (r1, net1)" by simp
  note facts = sys_read_stream [OF sys] poll_stream [OF poll]
  from sys_read_fair [OF 1(4) sys 1(5,6)] have fair1: "net_fair net1"
    and retry: "r1 = None \<longrightarrow> net_errno net1 = EINTR \<or> net_errno net1 = EAGAIN"
    and some: "r1 \<noteq> Some []" by auto
  from poll_fair [OF fair1 poll] have fair2: "p = True" "net_fair net2" by auto
  show ?case
  proof (cases r1)
    case None
    show ?thesis
      using 1(1) [OF _ sys' [symmetric] None _ fair1 1(5)] 1(5,6) retry
        1(2) [OF _ sys' [symmetric] None _ _ poll [symmetric] fair2(1) fair2(2) 1(5)]
        sys None poll facts fair2
      by (subst st_readv_resid.simps) (auto split: if_splits bool.splits)
  next
    case (Some bs)
    with some facts have bs: "bs \<noteq> []" "length bs \<le> l" "net_in net = bs @ net_in net2" by auto
    show ?thesis
    proof (cases "length bs = l")
      case True
      with bs sys Some facts fair1 show ?thesis by (subst st_readv_resid.simps) auto
    next
      case False
      with bs have adv: "iov_advance (length bs) [l] = [l - length bs]" by simp
      have "l - length bs \<le> length (net_in net2)" "0 < l - length bs" using bs 1(6) False by auto
      then show ?thesis
        using 1(3) [OF _ sys' [symmetric] Some bs(1) _ poll [symmetric] fair2(1) adv fair2(2)]
          adv sys Some poll bs fair2 False
        by (subst st_readv_resid.simps) auto
    qed
  qed
qed

text \<open>
  Whatever segments the bytes arrive in, and however often the reads have to be retried, a full
  read of available bytes succeeds with exactly the next bytes of the stream.
\<close>

lemma st_read_fully_exact:
  assumes "net_fair net" and "0 < n" and "n \<le> length (net_in net)"
  shows "\<exists>net'. st_read_fully n t net = (Some (take n (net_in net)), net') \<and>
    net_in net' = drop n (net_in net) \<and> net_fair net'"
  using st_readv_resid_fair [OF assms, of "[]" t]
  by (auto simp: st_read_fully_def st_read_resid_def)

text \<open>
  Writing: what the kernel has accepted grows by the written bytes in order, and by a prefix of
  them when the call fails.
\<close>

lemma st_writev_resid_sent:
  "st_writev_resid iov t net = ((ok, iov'), net') \<Longrightarrow>
     \<exists>k. net_sent net' = net_sent net @ take k (concat iov) \<and> concat iov' = drop k (concat iov) \<and>
       (ok \<longrightarrow> iov' = []) \<and> net_rd net' = net_rd net"
proof (induction iov t net arbitrary: ok iov' net' rule: st_writev_resid.induct)
  case (1 iov t net)
  show ?case
  proof (cases "iov = []")
    case True
    with 1(4) show ?thesis by (simp add: st_writev_resid.simps)
  next
    case False
    obtain r1 net1 where sys: "sys_write (concat iov) net = (r1, net1)" by fastforce
    obtain p net2 where poll: "st_netfd_poll t net1 = (p, net2)" by fastforce
    have rd: "net_rd net1 = net_rd net"
      using sys by (auto simp: sys_write.simps split: list.splits wr_event.splits)
    show ?thesis
    proof (cases r1)
      case None
      have sent: "net_sent net1 = net_sent net"
        using sys None by (auto simp: sys_write.simps split: list.splits wr_event.splits)
      show ?thesis
        using 1(1) [OF False sys [symmetric] None]
          1(2) [OF False sys [symmetric] None _ _ poll [symmetric]] 1(4) sys None poll False
          sent rd poll_keeps [OF poll]
        by (subst (asm) (3) st_writev_resid.simps) (auto split: if_splits bool.splits intro: exI [of _ 0])
    next
      case (Some n)
      have step: "n \<le> length (concat iov)" "net_sent net1 = net_sent net @ take n (concat iov)"
        using sys_write_partial sys Some by blast+
      have compose: "take n xs @ take k (drop n xs) = take (n + k) xs"
        "drop k (drop n xs) = drop (n + k) xs" for k and xs :: "byte list"
        by (simp only: take_add) (simp add: add.commute)
      show ?thesis
      proof (cases "p \<and> iov_skip n iov \<noteq> []")
        case True
        then have rec: "st_writev_resid (iov_skip n iov) t net2 = ((ok, iov'), net')"
          using 1(4) sys Some poll False by (subst (asm) st_writev_resid.simps) simp
        obtain k where "net_sent net' = net_sent net2 @ take k (drop n (concat iov))"
          "concat iov' = drop k (drop n (concat iov))" "ok \<longrightarrow> iov' = []" "net_rd net' = net_rd net2"
          using 1(3) [OF False sys [symmetric] Some _ poll [symmetric]] True rec
          by (auto simp: iov_skip_concat)
        then show ?thesis
          using step rd poll_keeps [OF poll] by (intro exI [of _ "n + k"]) (simp add: compose ac_simps)
      next
        case last: False
        have "iov' = iov_skip n iov" "net_sent net' = net_sent net1" "ok \<longrightarrow> iov' = []"
          "net_rd net' = net_rd net1"
          using 1(4) sys Some poll False last poll_keeps [OF poll]
          by (subst (asm) st_writev_resid.simps; auto split: if_splits)+
        then show ?thesis
          using step rd by (intro exI [of _ n]) (simp add: iov_skip_concat)
      qed
    qed
  qed
qed

text \<open>Writing leaves what can be read, and a descriptor on which nothing goes wrong stays one.\<close>

lemma poll_suffix: "st_netfd_poll t net = (r, net') \<Longrightarrow> set (net_poll net') \<subseteq> set (net_poll net)"
  by (auto simp: st_netfd_poll.simps split: list.splits poll_event.splits if_splits)

lemma sys_write_poll: "sys_write bs net = (r, net') \<Longrightarrow> net_poll net' = net_poll net"
  by (auto simp: sys_write.simps split: list.splits wr_event.splits)

lemma st_writev_resid_poll:
  "st_writev_resid iov t net = (r, net') \<Longrightarrow> set (net_poll net') \<subseteq> set (net_poll net)"
proof (induction iov t net arbitrary: r net' rule: st_writev_resid.induct)
  case (1 iov t net)
  obtain r1 net1 where sys: "sys_write (concat iov) net = (r1, net1)" by fastforce
  obtain p net2 where poll: "st_netfd_poll t net1 = (p, net2)" by fastforce
  note sub = sys_write_poll [OF sys] poll_suffix [OF poll]
  show ?case
  proof (cases "iov = []")
    case True
    with 1(4) show ?thesis by (simp add: st_writev_resid.simps)
  next
    case False
    show ?thesis
      using 1(4) sub 1(1) [OF False sys [symmetric]] 1(2) [OF False sys [symmetric] _ _ _ poll [symmetric]]
        1(3) [OF False sys [symmetric] _ _ poll [symmetric]] False sys poll
      by (subst (asm) st_writev_resid.simps) (fastforce split: option.splits if_splits bool.splits)
  qed
qed

lemma st_write_sent:
  assumes "st_write buf t net = (r, net')"
  shows "(case r of Some n \<Rightarrow> n = length buf \<and> net_sent net' = net_sent net @ buf
          | None \<Rightarrow> \<exists>k. net_sent net' = net_sent net @ take k buf)
     \<and> net_rd net' = net_rd net"
proof -
  obtain ok iov net1 where resid: "st_writev_resid [buf] t net = ((ok, iov), net1)"
    by (metis prod.collapse)
  with assms have "net' = net1" "r = (if ok then Some (length buf - length (concat iov)) else None)"
    by (auto simp: st_write_def st_write_resid_def)
  with st_writev_resid_sent [OF resid] show ?thesis by auto
qed

lemma st_write_fair: "st_write buf t net = (r, net') \<Longrightarrow> net_fair net \<Longrightarrow> net_fair net'"
  using st_write_sent [of buf t net r net']
  by (auto simp: st_write_def st_write_resid_def net_fair_def list_all_iff split: prod.splits
      dest!: st_writev_resid_poll)

text \<open>
  When the kernel refuses a write only to have it retried, and every wait ends with the descriptor ready, a write
  succeeds.
\<close>

fun wr_event_fair :: "wr_event \<Rightarrow> bool" where
  "wr_event_fair (WrCount k) = True"
| "wr_event_fair (WrFail e) = (e = EINTR \<or> e = EAGAIN)"

definition net_takes :: "st_net \<Rightarrow> bool" where
  "net_takes net \<longleftrightarrow> list_all wr_event_fair (net_wr net) \<and> list_all poll_event_ready (net_poll net)"

lemma sys_write_takes:
  "net_takes net \<Longrightarrow> sys_write bs net = (r, net') \<Longrightarrow>
     net_takes net' \<and> (r = None \<longrightarrow> net_errno net' = EINTR \<or> net_errno net' = EAGAIN)"
  by (auto simp: net_takes_def sys_write.simps split: list.splits wr_event.splits if_splits)

lemma poll_takes: "net_takes net \<Longrightarrow> st_netfd_poll t net = (r, net') \<Longrightarrow> r \<and> net_takes net'"
  by (auto simp: net_takes_def st_netfd_poll.simps split: list.splits poll_event.splits if_splits)

lemma st_writev_resid_takes:
  "net_takes net \<Longrightarrow> \<exists>net'. st_writev_resid iov t net = ((True, []), net')"
proof (induction iov t net rule: st_writev_resid.induct)
  case (1 iov t net)
  show ?case
  proof (cases "iov = []")
    case True
    then show ?thesis by (simp add: st_writev_resid.simps)
  next
    case False
    obtain r1 net1 where sys: "sys_write (concat iov) net = (r1, net1)" by fastforce
    obtain p net2 where poll: "st_netfd_poll t net1 = (p, net2)" by fastforce
    note fair1 = sys_write_takes [OF 1(4) sys]
    have fair2: "p = True" "net_takes net2" using poll_takes [OF _ poll] fair1 by auto
    show ?thesis
    proof (cases r1)
      case None
      show ?thesis
        using 1(1) [OF False sys [symmetric] None] 1(2) [OF False sys [symmetric] None _ _ poll [symmetric] fair2(1)]
          sys None poll False fair1 fair2
        by (subst st_writev_resid.simps) (auto split: if_splits)
    next
      case (Some n)
      then show ?thesis
        using 1(3) [OF False sys [symmetric] Some _ poll [symmetric] fair2(1)] sys poll False fair2
        by (subst st_writev_resid.simps) auto
    qed
  qed
qed

lemma st_write_takes: "net_takes net \<Longrightarrow> \<exists>net'. st_write buf t net = (Some (length buf), net')"
  using st_writev_resid_takes [of net "[buf]" t] by (auto simp: st_write_def st_write_resid_def)

lemma st_writev_loop_sent:
  "st_writev_loop alloc iov tmp t net = (ok, net') \<Longrightarrow> concat tmp = drop d (concat iov) \<Longrightarrow>
     d \<le> length (concat iov) \<Longrightarrow>
     (if ok then net_sent net' = net_sent net @ concat tmp
      else \<exists>k. net_sent net' = net_sent net @ take k (concat tmp)) \<and> net_rd net' = net_rd net"
proof (induction alloc iov tmp t net arbitrary: ok net' d rule: st_writev_loop.induct)
  case (1 alloc iov tmp t net)
  let ?left = "length (concat tmp)"
  show ?case
  proof (cases "?left = 0 \<or> length tmp = 1")
    case True
    then show ?thesis
    proof
      assume "?left = 0"
      with 1(4) show ?thesis by (subst (asm) st_writev_loop.simps) simp
    next
      assume "length tmp = 1"
      then obtain v where tmp: "tmp = [v]" by (cases tmp) auto
      obtain r net1 where wr: "st_write v t net = (r, net1)" by fastforce
      show ?thesis
        using 1(4) st_write_sent [OF wr] wr tmp
        by (subst (asm) st_writev_loop.simps)
          (auto simp: Let_def split: if_splits option.splits intro: exI [of _ "length v"])
    qed
  next
    case False
    then have guard: "?left \<noteq> 0" "length tmp \<noteq> 1" by auto
    obtain r1 net1 where sys: "sys_write (concat tmp) net = (r1, net1)" by fastforce
    obtain p net2 where poll: "st_netfd_poll t net1 = (p, net2)" by fastforce
    have rd: "net_rd net1 = net_rd net"
      using sys by (auto simp: sys_write.simps split: list.splits wr_event.splits)
    show ?thesis
    proof (cases r1)
      case None
      have sent: "net_sent net1 = net_sent net"
        using sys None by (auto simp: sys_write.simps split: list.splits wr_event.splits)
      show ?thesis
        using 1(1) [OF refl guard sys [symmetric] None, of ok net' d]
          1(2) [OF refl guard sys [symmetric] None _ _ poll [symmetric], of ok net' d]
          1(4-6) sys None poll guard sent rd poll_keeps [OF poll]
        by (subst (asm) (3) st_writev_loop.simps)
          (auto simp: Let_def split: if_splits bool.splits intro: exI [of _ 0])
    next
      case (Some n)
      have step: "n \<le> ?left" "net_sent net1 = net_sent net @ take n (concat tmp)"
        using sys_write_partial sys Some by blast+
      let ?tmp' = "iov_seek (length (concat iov) - (?left - n)) iov"
      have seek: "length (concat iov) - (?left - n) = d + n" "d + n \<le> length (concat iov)"
        using 1(5,6) step(1) by auto
      have tmp': "concat ?tmp' = drop n (concat tmp)"
        using 1(5) seek by (simp add: iov_seek_concat add.commute)
      show ?thesis
      proof (cases "p \<and> n \<noteq> ?left \<and> (alloc \<or> length ?tmp' \<le> LOCAL_MAXIOV)")
        case True
        then have rec: "st_writev_loop alloc iov ?tmp' t net2 = (ok, net')"
          using 1(4) sys Some poll guard by (subst (asm) st_writev_loop.simps) (auto simp: Let_def split: if_splits)
        have seek': "concat ?tmp' = drop (d + n) (concat iov)"
          using seek by (simp add: iov_seek_concat)
        show ?thesis
          using 1(3) [OF refl guard sys [symmetric] Some _ _ poll [symmetric] _ rec seek' seek(2)]
            True step rd poll_keeps [OF poll] unfolding tmp'
          by (auto split: if_splits) (metis take_add)+
      next
        case last: False
        show ?thesis
          using 1(4) sys Some poll guard last poll_keeps [OF poll] step rd
          by (subst (asm) st_writev_loop.simps) (auto simp: Let_def split: if_splits)
      qed
    qed
  qed
qed

lemma st_writev_sent:
  assumes "st_writev alloc iov t net = (r, net')"
  shows "(case r of Some n \<Rightarrow> n = length (concat iov) \<and> net_sent net' = net_sent net @ concat iov
          | None \<Rightarrow> \<exists>k. net_sent net' = net_sent net @ take k (concat iov))
     \<and> net_rd net' = net_rd net"
proof -
  obtain ok net1 where loop: "st_writev_loop alloc iov iov t net = (ok, net1)" by fastforce
  with assms have "net' = net1" "r = (if ok then Some (length (concat iov)) else None)"
    by (auto simp: st_writev_def)
  with st_writev_loop_sent [OF loop, of 0] show ?thesis by auto
qed

end
