(* ===== verification/St_Vp.thy ===== *)
theory St_Vp
  imports St_Io
begin

text \<open>
  The data of the thread library (\<^verbatim>\<open>objs/st-1.9/common.h\<close>): threads, poll requests, the virtual
  processor with its queues, and the operations on the queues. A circular list is a list of the
  objects linked into it. A thread is known by its stack, on which its object lives.
\<close>

type_synonym tid = nat
type_synonym st_utime = "64 word"

definition ST_UTIME_NO_TIMEOUT :: st_utime where
  "ST_UTIME_NO_TIMEOUT = -1"

abbreviation ST_KEYS_MAX :: nat where "ST_KEYS_MAX \<equiv> 16"

text \<open>\<^verbatim>\<open>_ST_ST_RUNNING\<close> to \<^verbatim>\<open>_ST_ST_SUSPENDED\<close>.\<close>

datatype st_state = RUNNING | RUNNABLE | IO_WAIT | LOCK_WAIT | COND_WAIT | SLEEPING | ZOMBIE | SUSPENDED

text \<open>The bits of \<^verbatim>\<open>pollfd.events\<close> and \<^verbatim>\<open>revents\<close>; other bits are \<open>POLLOTHER\<close>.\<close>

datatype poll_flag = POLLIN | POLLOUT | POLLPRI | POLLERR | POLLHUP | POLLNVAL | POLLOTHER nat

type_synonym poll_bits = "poll_flag set"

record pollfd =
  pd_fd :: int
  pd_events :: poll_bits
  pd_revents :: poll_bits

text \<open>The poll request of a thread: \<^verbatim>\<open>_st_pollq_t\<close> on the stack of the thread in \<^verbatim>\<open>st_poll\<close>.\<close>

record st_pollq =
  pq_pds :: "pollfd list"
  pq_on_ioq :: bool

text \<open>
  Where a thread goes on when it gets the processor: the saved context. \<open>In_user\<close> is code outside
  the library; the other values name the place behind \<^verbatim>\<open>_ST_SWITCH_CONTEXT\<close>, with the
  variables that are live there.
\<close>

datatype st_context =
    In_user
  | In_idle
  | In_poll
  | In_usleep
  | In_cond nat
  | In_join nat tid
  | In_lock nat
  | In_exit
  | In_gone

text \<open>
  \<^verbatim>\<open>struct _st_thread\<close>; the flags are one field each. \<open>t_pollq\<close> and \<open>t_joined\<close> are on the stack of the
  thread: its poll request, and the variable that the last \<^verbatim>\<open>st_thread_join\<close> was given as \<^verbatim>\<open>retvalp\<close>.
\<close>

record st_thread =
  t_state :: st_state
  t_primordial :: bool
  t_idle_thread :: bool
  t_on_sleepq :: bool
  t_interrupt :: bool
  t_timedout :: bool
  t_retval :: int
  t_due :: st_utime
  t_left :: "tid option"
  t_right :: "tid option"
  t_heap_index :: nat
  t_private_data :: "nat \<Rightarrow> int"
  t_term :: "nat option"
  t_pollq :: st_pollq
  t_joined :: int
  t_context :: st_context

definition thread_zero :: st_thread where
  "thread_zero = \<lparr>t_state = RUNNING, t_primordial = False, t_idle_thread = False, t_on_sleepq = False,
     t_interrupt = False, t_timedout = False, t_retval = 0, t_due = 0, t_left = None, t_right = None,
     t_heap_index = 0, t_private_data = (\<lambda>_. 0), t_term = None,
     t_pollq = \<lparr>pq_pds = [], pq_on_ioq = False\<rparr>, t_joined = 0, t_context = In_user\<rparr>"

record st_mutex =
  mx_owner :: "tid option"
  mx_wait_q :: "tid list"

text \<open>
  \<^verbatim>\<open>struct _epoll_fd_data\<close> and \<^verbatim>\<open>struct _st_epolldata\<close>. \<open>ep_interest\<close> is what the kernel holds for the
  epoll descriptor: the descriptors registered with it and the events asked for.
\<close>

record epoll_fd_data =
  rd_ref_cnt :: int
  wr_ref_cnt :: int
  ex_ref_cnt :: int
  ep_revents :: poll_bits

record st_epolldata =
  fd_data :: "int \<Rightarrow> epoll_fd_data"
  fd_data_size :: nat
  evtlist_size :: nat
  evtlist_cnt :: int
  fd_hint :: nat
  ep_pid :: int
  ep_interest :: "int \<Rightarrow> poll_bits option"

text \<open>
  \<^verbatim>\<open>_st_vp_t\<close> and the other variables of the library. The poll requests on the I/O queue are named
  by their threads. \<open>conds\<close> and \<open>mutexes\<close> are the condition variables and mutexes that exist,
  \<open>free_stacks\<close> the list \<^verbatim>\<open>_st_free_stacks\<close> with the sizes, \<open>next_obj\<close> the next unused
  name of an object. \<open>destroyed\<close> collects the calls of the destructors of thread-specific data.
\<close>

record st_vp =
  idle_thread :: tid
  last_clock :: st_utime
  run_q :: "tid list"
  io_q :: "tid list"
  zombie_q :: "tid list"
  thread_q :: "tid list"
  sleep_q :: "tid option"
  sleepq_size :: nat
  threads :: "tid \<Rightarrow> st_thread"
  this_thread :: tid
  active_count :: int
  pagesize :: nat
  curr_time :: int
  last_tset :: st_utime
  conds :: "nat \<Rightarrow> tid list option"
  mutexes :: "nat \<Rightarrow> st_mutex option"
  free_stacks :: "(tid \<times> int) list"
  stack_size :: "tid \<Rightarrow> int"
  next_obj :: nat
  key_max :: nat
  destructors :: "nat \<Rightarrow> bool"
  destroyed :: "(nat \<times> int) list"
  ep :: st_epolldata
  vp_errno :: st_errno

text \<open>
  An operation gives a result and the new state. \<open>None\<close> is a null pointer that is dereferenced or an
  \<^verbatim>\<open>ST_ASSERT\<close> that fails.
\<close>

type_synonym 'a st_op = "st_vp \<Rightarrow> ('a \<times> st_vp) option"

definition upd :: "tid \<Rightarrow> (st_thread \<Rightarrow> st_thread) \<Rightarrow> st_vp \<Rightarrow> st_vp" where
  "upd a f s = s\<lparr>threads := (threads s)(a := f (threads s a))\<rparr>"

definition update_thread :: "(st_thread \<Rightarrow> st_thread) \<Rightarrow> st_vp \<Rightarrow> st_vp" where
  "update_thread f s = upd (this_thread s) f s"

end
