(* ===== verification/St_Heap.thy ===== *)
theory St_Heap
  imports Rss_Prelude "HOL-Library.Tree_Multiset"
begin

text \<open>
  The timeout heap of the scheduler as a tree (\<^verbatim>\<open>docs/timeout_heap.txt\<close>): the nodes are numbered from 1, the
  children of node \<open>n\<close> are \<open>2n\<close> and \<open>2n + 1\<close>, and the binary digits of a number are the way to its node.
  Here are the operations that \<^verbatim>\<open>heap_insert\<close> and \<^verbatim>\<open>heap_delete\<close> perform, on trees, and what they do to
  the elements, the numbering and the order; the pointers are in \<open>St_Sleepq\<close>.
\<close>

section \<open>Numbers and ways\<close>

text \<open>The number of binary digits, counted by halving, and the digits below the leading one.\<close>

fun bit_count :: "nat \<Rightarrow> nat" where
  "bit_count n = (if n = 0 then 0 else Suc (bit_count (n div 2)))"

declare bit_count.simps [simp del]

definition heap_path :: "nat \<Rightarrow> bool list" where
  "heap_path n = map (bit n) (rev [0..<bit_count n - 1])"

definition node_num :: "nat \<Rightarrow> bool list \<Rightarrow> nat" where
  "node_num n p = foldl (\<lambda>i b. 2 * i + of_bool b) n p"

lemma node_num_simps [simp]:
  "node_num n [] = n" "node_num n (b # p) = node_num (2 * n + of_bool b) p"
  "node_num n (p @ [b]) = 2 * node_num n p + of_bool b"
  by (simp_all add: node_num_def)

lemma node_num_pos: "0 < n \<Longrightarrow> 0 < node_num n p"
  by (induction p arbitrary: n) auto

lemma bit_count_0 [simp]: "bit_count 0 = 0"
  by (simp add: bit_count.simps)

lemma bit_count_double: "0 < n \<Longrightarrow> bit_count (2 * n + of_bool b) = Suc (bit_count n)"
  by (subst bit_count.simps) auto

lemma bit_count_pos: "0 < n \<Longrightarrow> 0 < bit_count n"
  by (subst bit_count.simps) simp

lemma heap_path_1 [simp]: "heap_path (Suc 0) = []"
  by (simp add: heap_path_def bit_count.simps [of "Suc 0"])

lemma heap_path_double:
  assumes "0 < n"
  shows "heap_path (2 * n + of_bool b) = heap_path n @ [b]"
proof -
  obtain k where k: "bit_count n = Suc k" using bit_count_pos [OF assms] gr0_implies_Suc by blast
  have "[0..<Suc k] = 0 # map Suc [0..<k]" by (simp add: upt_conv_Cons map_Suc_upt del: upt_Suc)
  moreover have "bit (2 * n + of_bool b) (Suc i) = bit n i" for i by (simp add: bit_Suc)
  ultimately show ?thesis
    by (simp add: heap_path_def bit_count_double [OF assms] k rev_map o_def bit_0)
qed

lemma heap_path_node_num: "0 < n \<Longrightarrow> heap_path (node_num n p) = heap_path n @ p"
  by (induction p rule: rev_induct) (simp_all add: heap_path_double node_num_pos)

lemma node_num_heap_path: "0 < n \<Longrightarrow> node_num 1 (heap_path n) = n"
proof (induction n rule: less_induct)
  case (less n)
  show ?case
  proof (cases "n = 1")
    case False
    then have "n = 2 * (n div 2) + of_bool (odd n)" "0 < n div 2" "n div 2 < n"
      using less.prems by (auto simp: odd_two_times_div_two_succ)
    then show ?thesis using less.IH [of "n div 2"] heap_path_double [of "n div 2" "odd n"] by simp
  qed simp
qed

lemma heap_path_inverse: "heap_path (node_num 1 p) = p"
  using heap_path_node_num [of 1 p] by simp

section \<open>Trees by position\<close>

fun subtree_at :: "'a tree \<Rightarrow> bool list \<Rightarrow> 'a tree" where
  "subtree_at t [] = t"
| "subtree_at Leaf (b # p) = Leaf"
| "subtree_at (Node l x r) (b # p) = subtree_at (if b then r else l) p"

fun reaches :: "'a tree \<Rightarrow> bool list \<Rightarrow> bool" where
  "reaches t [] = True"
| "reaches Leaf (b # p) = False"
| "reaches (Node l x r) (b # p) = reaches (if b then r else l) p"

text \<open>A heap of \<open>n\<close> elements occupies the numbers 1 to \<open>n\<close>.\<close>

definition left_adjusted :: "nat \<Rightarrow> 'a tree \<Rightarrow> bool" where
  "left_adjusted n t \<longleftrightarrow> (\<forall>p. subtree_at t p \<noteq> Leaf \<longleftrightarrow> node_num 1 p \<le> n)"

text \<open>Every element knows its number.\<close>

fun indexed :: "('a \<Rightarrow> nat) \<Rightarrow> nat \<Rightarrow> 'a tree \<Rightarrow> bool" where
  "indexed h n Leaf = True"
| "indexed h n (Node l x r) = (h x = n \<and> indexed h (2 * n) l \<and> indexed h (2 * n + 1) r)"

text \<open>No element is before its parent.\<close>

fun heap_ordered :: "('a \<Rightarrow> 'k::linorder) \<Rightarrow> 'a tree \<Rightarrow> bool" where
  "heap_ordered key Leaf = True"
| "heap_ordered key (Node l x r) =
     ((\<forall>y \<in> set_tree l \<union> set_tree r. key x \<le> key y) \<and> heap_ordered key l \<and> heap_ordered key r)"

text \<open>No node has a right child only.\<close>

fun left_first :: "'a tree \<Rightarrow> bool" where
  "left_first Leaf = True"
| "left_first (Node l x r) = ((l = Leaf \<longrightarrow> r = Leaf) \<and> left_first l \<and> left_first r)"

lemma subtree_at_Leaf [simp]: "subtree_at Leaf p = Leaf"
  by (cases p) simp_all

lemma subtree_at_snoc:
  "subtree_at t (p @ [b]) = (case subtree_at t p of Leaf \<Rightarrow> Leaf | Node l x r \<Rightarrow> if b then r else l)"
  by (induction t p rule: subtree_at.induct) (auto split: tree.split)

lemma reaches_subtree: "subtree_at t p \<noteq> Leaf \<Longrightarrow> reaches t p"
  by (induction t p rule: subtree_at.induct) auto

lemma reaches_snoc: "reaches t (p @ [b]) \<longleftrightarrow> subtree_at t p \<noteq> Leaf"
proof (induction t p rule: subtree_at.induct)
  case (1 t)
  then show ?case by (cases t) auto
qed auto

lemma set_subtree: "set_tree (subtree_at t p) \<subseteq> set_tree t"
  by (induction t p rule: subtree_at.induct) auto

lemma left_adjusted_reaches:
  assumes "left_adjusted n t" and "m \<le> Suc n" and "0 < m"
  shows "reaches t (heap_path m)"
proof (cases "heap_path m" rule: rev_cases)
  case (snoc p b)
  have "node_num 1 (p @ [b]) = m" using node_num_heap_path [OF assms(3)] snoc by simp
  then have "node_num 1 p \<le> n" using assms(2) node_num_pos [of 1 p] by auto
  then show ?thesis using assms(1) snoc by (simp add: left_adjusted_def reaches_snoc)
qed simp

lemma indexed_position:
  assumes "indexed h n t" and "x \<in> set_tree t" and "0 < n"
  shows "\<exists>l r p. h x = node_num n p \<and> subtree_at t p = Node l x r"
  using assms
proof (induction h n t rule: indexed.induct)
  case (2 h n l y r)
  consider "x = y" | "x \<in> set_tree l" | "x \<in> set_tree r" using 2 by auto
  then show ?case
  proof cases
    case 1
    then show ?thesis using 2 by (intro exI [of _ l] exI [of _ r] exI [of _ "[]"]) simp
  next
    case 2
    with "2.IH"(1) "2.prems" obtain l' r' p where "h x = node_num (2 * n) p" "subtree_at l p = Node l' x r'"
      by auto
    then show ?thesis by (intro exI [of _ l'] exI [of _ r'] exI [of _ "False # p"]) simp
  next
    case 3
    with "2.IH"(2) "2.prems" obtain l' r' p where "h x = node_num (2 * n + 1) p" "subtree_at r p = Node l' x r'"
      by auto
    then show ?thesis by (intro exI [of _ l'] exI [of _ r'] exI [of _ "True # p"]) simp
  qed
qed simp

lemma indexed_at:
  assumes "indexed h 1 t" and "x \<in> set_tree t"
  shows "\<exists>l r. subtree_at t (heap_path (h x)) = Node l x r"
  using indexed_position [OF assms] by (auto simp: heap_path_inverse [simplified])

lemma indexed_subtree: "indexed h n t \<Longrightarrow> indexed h (node_num n p) (subtree_at t p)"
  by (induction t p arbitrary: n rule: subtree_at.induct) auto

lemma indexed_cong: "\<forall>x \<in> set_tree t. h x = h' x \<Longrightarrow> indexed h n t = indexed h' n t"
  by (induction t arbitrary: n) auto

lemma heap_ordered_subtree: "heap_ordered key t \<Longrightarrow> heap_ordered key (subtree_at t p)"
  by (induction t p rule: subtree_at.induct) auto

lemma heap_ordered_cong: "\<forall>x \<in> set_tree t. key x = key' x \<Longrightarrow> heap_ordered key t = heap_ordered key' t"
  by (induction t) auto

lemma heap_ordered_root: "heap_ordered key (Node l x r) \<Longrightarrow> y \<in> set_tree (Node l x r) \<Longrightarrow> key x \<le> key y"
  by auto

section \<open>The operations\<close>

text \<open>
  Carrying an element down a way: where it is earlier than the element it meets it takes that one's place
  and the other is carried on. What arrives is put into the subtree at the end with \<open>g\<close>.
\<close>

fun tree_put :: "('a \<Rightarrow> 'k::linorder) \<Rightarrow> ('a \<Rightarrow> 'a tree \<Rightarrow> 'a tree) \<Rightarrow> bool list \<Rightarrow> 'a \<Rightarrow> 'a tree \<Rightarrow> 'a tree" where
  "tree_put key g [] x t = g x t"
| "tree_put key g (b # p) x Leaf = Leaf"
| "tree_put key g (b # p) x (Node l y r) =
     (let u = (if key x < key y then x else y); v = (if key x < key y then y else x) in
      if b then Node l u (tree_put key g p v r) else Node (tree_put key g p v l) u r)"

text \<open>Sinking an element below two heaps: the earlier child moves up, the right one of two equal children.\<close>

function tree_sift :: "('a \<Rightarrow> 'k::linorder) \<Rightarrow> 'a \<Rightarrow> 'a tree \<Rightarrow> 'a tree \<Rightarrow> 'a tree" where
  "tree_sift key z Leaf r = Node Leaf z r"
| "tree_sift key z (Node a y b) Leaf =
     (if key y < key z then Node (tree_sift key z a b) y Leaf else Node (Node a y b) z Leaf)"
| "tree_sift key z (Node a y b) (Node c w d) =
     (if key y < key w
      then (if key y < key z then Node (tree_sift key z a b) y (Node c w d) else Node (Node a y b) z (Node c w d))
      else (if key w < key z then Node (Node a y b) w (tree_sift key z c d) else Node (Node a y b) z (Node c w d)))"
  by pat_completeness auto
termination by (relation "measure (\<lambda>(key, z, l, r). size l + size r)") auto

fun tree_cut :: "bool list \<Rightarrow> 'a tree \<Rightarrow> 'a tree" where
  "tree_cut [] t = Leaf"
| "tree_cut (b # p) Leaf = Leaf"
| "tree_cut (b # p) (Node l x r) = (if b then Node l x (tree_cut p r) else Node (tree_cut p l) x r)"

abbreviation put_leaf :: "'a \<Rightarrow> 'a tree \<Rightarrow> 'a tree" where
  "put_leaf x t \<equiv> Node Leaf x Leaf"

definition put_sift :: "('a \<Rightarrow> 'k::linorder) \<Rightarrow> 'a \<Rightarrow> 'a tree \<Rightarrow> 'a tree" where
  "put_sift key x t = (case t of Leaf \<Rightarrow> Leaf | Node l y r \<Rightarrow> tree_sift key x l r)"

section \<open>Elements, positions and order after each operation\<close>

lemma mset_sift: "mset_tree (tree_sift key z l r) = add_mset z (mset_tree l + mset_tree r)"
  by (induction key z l r rule: tree_sift.induct) auto

lemma set_sift: "set_tree (tree_sift key z l r) = insert z (set_tree l \<union> set_tree r)"
  by (metis mset_sift set_mset_tree set_mset_add_mset_insert set_mset_union)

lemma heap_sift:
  assumes "heap_ordered key l" and "heap_ordered key r" and "left_first (Node l z r)"
  shows "heap_ordered key (tree_sift key z l r)"
  using assms
proof (induction key z l r rule: tree_sift.induct)
  case (2 key z a y b)
  then show ?case by (auto simp: set_sift not_less intro: order.trans [of "key z" "key y"])
next
  case (3 key z a y b c w d)
  then show ?case
    by (auto simp: set_sift not_less intro: order.trans [of "key z" "key y"] order.trans [of "key z" "key w"]
        order.trans [of "key y" "key w"] order.trans [of "key w" "key y"])
qed auto

text \<open>The shape of the tree does not depend on the elements.\<close>

lemma shape_sift: "map_tree (\<lambda>_. ()) (tree_sift key z l r) = map_tree (\<lambda>_. ()) (Node l z r)"
  by (induction key z l r rule: tree_sift.induct) auto

lemma shape_subtree: "map_tree f (subtree_at t p) = subtree_at (map_tree f t) p"
  by (induction t p rule: subtree_at.induct) auto

lemma shape_Leaf: "subtree_at (map_tree f t) p = Leaf \<longleftrightarrow> subtree_at t p = Leaf"
  by (metis shape_subtree tree.map_disc_iff)

lemma shape_positions:
  assumes "map_tree f t = map_tree f t'"
  shows "subtree_at t p = Leaf \<longleftrightarrow> subtree_at t' p = Leaf"
  using shape_Leaf [of f t p] shape_Leaf [of f t' p] assms by simp

lemma shape_put:
  assumes "reaches t p"
    and "\<And>z. map_tree (\<lambda>_. ()) (g z (subtree_at t p)) = map_tree (\<lambda>_. ()) (subtree_at t p)"
  shows "map_tree (\<lambda>_. ()) (tree_put key g p x t) = map_tree (\<lambda>_. ()) t"
  using assms by (induction key g p x t rule: tree_put.induct) (auto simp: Let_def)

lemma positions_put_leaf:
  assumes "reaches t p" and "subtree_at t p = Leaf"
  shows "subtree_at (tree_put key put_leaf p x t) q = Leaf \<longleftrightarrow> subtree_at t q = Leaf \<and> q \<noteq> p"
  using assms
proof (induction t p arbitrary: q x rule: subtree_at.induct)
  case (1 t)
  then show ?case by (cases q) auto
next
  case (3 l y r b p)
  then show ?case by (cases b; cases q) (auto simp: Let_def)
qed auto

lemma positions_cut:
  assumes "reaches t p" and "\<And>b. subtree_at t (p @ [b]) = Leaf"
  shows "subtree_at (tree_cut p t) q = Leaf \<longleftrightarrow> subtree_at t q = Leaf \<or> q = p"
  using assms
proof (induction p t arbitrary: q rule: tree_cut.induct)
  case (1 t)
  have "subtree_at t (b # q) = Leaf" for b q
    using "1.prems"(2) [of b] by (cases t) auto
  then show ?case by (cases q) auto
next
  case (3 b p l x r)
  then show ?case by (cases q) auto
qed auto

lemma left_first_positions:
  assumes "\<And>p. subtree_at t (p @ [True]) \<noteq> Leaf \<Longrightarrow> subtree_at t (p @ [False]) \<noteq> Leaf"
  shows "left_first t"
  using assms
proof (induction t)
  case (Node l x r)
  have "left_first l"
    using Node.prems [of "False # _"] by (intro Node.IH(1)) auto
  moreover have "left_first r"
    using Node.prems [of "True # _"] by (intro Node.IH(2)) auto
  ultimately show ?case using Node.prems [of "[]"] by auto
qed simp

lemma left_adjusted_left_first: "left_adjusted n t \<Longrightarrow> left_first t"
  by (rule left_first_positions) (simp add: left_adjusted_def)

lemma left_first_subtree: "left_first t \<Longrightarrow> left_first (subtree_at t p)"
  by (induction t p rule: subtree_at.induct) auto

lemma mset_put:
  assumes "reaches t p" and "\<And>z. mset_tree (g z (subtree_at t p)) + D = add_mset z (mset_tree (subtree_at t p))"
  shows "mset_tree (tree_put key g p x t) + D = add_mset x (mset_tree t)"
  using assms
proof (induction key g p x t rule: tree_put.induct)
  case (3 key g b p x l y r)
  then show ?case by (cases b) (auto simp: Let_def ac_simps)
qed auto

lemma set_put:
  assumes "reaches t p" and "\<And>z. set_tree (g z (subtree_at t p)) \<subseteq> insert z (set_tree (subtree_at t p))"
  shows "set_tree (tree_put key g p x t) \<subseteq> insert x (set_tree t)"
  using assms
proof (induction t p arbitrary: x rule: subtree_at.induct)
  case (3 l y r b p)
  let ?v = "if key x < key y then y else x" and ?c = "if b then r else l"
  have "set_tree (tree_put key g p ?v ?c) \<subseteq> insert ?v (set_tree ?c)"
    using "3.prems" by (intro "3.IH") auto
  then show ?case by (cases b; cases "key x < key y") auto
qed auto

lemma heap_put:
  assumes "reaches t p" and "heap_ordered key t"
    and "\<And>z. set_tree (g z (subtree_at t p)) \<subseteq> insert z (set_tree (subtree_at t p))"
    and "\<And>z. heap_ordered key (g z (subtree_at t p))"
  shows "heap_ordered key (tree_put key g p x t)"
  using assms
proof (induction t p arbitrary: x rule: subtree_at.induct)
  case (3 l y r b p)
  let ?u = "if key x < key y then x else y" and ?v = "if key x < key y then y else x" and ?c = "if b then r else l"
  have heap: "heap_ordered key (tree_put key g p ?v ?c)"
    using "3.prems" by (intro "3.IH") auto
  have "set_tree (tree_put key g p ?v ?c) \<subseteq> insert ?v (set_tree ?c)"
    using "3.prems" by (intro set_put) auto
  moreover have "key ?u \<le> key w" if "w \<in> insert ?v (set_tree l \<union> set_tree r)" for w
  proof -
    have "key y \<le> key w" if "w \<in> set_tree l \<union> set_tree r" using that "3.prems"(2) by auto
    then show ?thesis using that by (cases "key x < key y") (auto intro: order.trans less_imp_le)
  qed
  ultimately have "\<forall>w \<in> set_tree (tree_put key g p ?v ?c) \<union> set_tree l \<union> set_tree r. key ?u \<le> key w"
    by (cases b) (auto split: if_splits)
  then show ?case using heap "3.prems"(2) by (cases b) (auto simp: Let_def split: if_splits)
qed auto

lemma mset_cut: "reaches t p \<Longrightarrow> mset_tree (tree_cut p t) + mset_tree (subtree_at t p) = mset_tree t"
  by (induction p t rule: tree_cut.induct) (auto simp: ac_simps)

lemma set_cut: "set_tree (tree_cut p t) \<subseteq> set_tree t"
  by (induction p t rule: tree_cut.induct) auto

lemma heap_cut: "heap_ordered key t \<Longrightarrow> heap_ordered key (tree_cut p t)"
proof (induction p t rule: tree_cut.induct)
  case (3 b p l x r)
  then show ?case using set_cut [of p l] set_cut [of p r] by (cases b) auto
qed auto

section \<open>Adding and removing an element\<close>

definition tree_insert :: "('a \<Rightarrow> 'k::linorder) \<Rightarrow> nat \<Rightarrow> 'a \<Rightarrow> 'a tree \<Rightarrow> 'a tree" where
  "tree_insert key n x t = tree_put key put_leaf (heap_path (Suc n)) x t"

text \<open>The last element takes the place of the one that is removed.\<close>

definition tree_delete :: "('a \<Rightarrow> 'k::linorder) \<Rightarrow> ('a \<Rightarrow> nat) \<Rightarrow> nat \<Rightarrow> 'a \<Rightarrow> 'a tree \<Rightarrow> 'a tree" where
  "tree_delete key h n x t =
     (case subtree_at t (heap_path n) of
        Leaf \<Rightarrow> t
      | Node _ y _ \<Rightarrow>
          if y = x then tree_cut (heap_path n) t
          else tree_put key (put_sift key) (heap_path (h x)) y (tree_cut (heap_path n) t))"

lemma node_num_eq: "0 < n \<Longrightarrow> node_num (Suc 0) p = n \<longleftrightarrow> p = heap_path n"
  using node_num_heap_path heap_path_inverse by (metis One_nat_def)

lemma left_adjusted_first: "left_adjusted n t \<Longrightarrow> 0 < m \<Longrightarrow> subtree_at t (heap_path m) = Leaf \<longleftrightarrow> n < m"
  using node_num_heap_path [of m] unfolding left_adjusted_def by (metis not_le)

lemma left_adjusted_empty: "left_adjusted n t \<Longrightarrow> t = Leaf \<longleftrightarrow> n = 0"
  using left_adjusted_first [of n t 1] by auto

lemma left_adjusted_last:
  assumes "left_adjusted n t" and "0 < n"
  shows "\<exists>y. subtree_at t (heap_path n) = Node Leaf y Leaf"
proof -
  obtain l y r where node: "subtree_at t (heap_path n) = Node l y r"
    using left_adjusted_first [OF assms] by (cases "subtree_at t (heap_path n)") auto
  have "subtree_at t (heap_path n @ [b]) = Leaf" for b
    using left_adjusted_first [OF assms(1), of "2 * n + of_bool b"] heap_path_double [OF assms(2), of b] assms(2)
    by auto
  from this [of True] this [of False] show ?thesis using node by (simp add: subtree_at_snoc)
qed

lemma next_free:
  assumes "left_adjusted n t"
  shows "reaches t (heap_path (Suc n))" and "subtree_at t (heap_path (Suc n)) = Leaf"
  using left_adjusted_reaches [OF assms, of "Suc n"] left_adjusted_first [OF assms, of "Suc n"] by auto

lemma mset_insert: "left_adjusted n t \<Longrightarrow> mset_tree (tree_insert key n x t) = add_mset x (mset_tree t)"
  using mset_put [OF next_free(1), of n t put_leaf "{#}" key x] next_free(2) [of n t] by (simp add: tree_insert_def)

lemma left_adjusted_insert:
  assumes "left_adjusted n t"
  shows "left_adjusted (Suc n) (tree_insert key n x t)"
proof -
  have "node_num 1 p \<le> Suc n \<longleftrightarrow> node_num 1 p \<le> n \<or> p = heap_path (Suc n)" for p
    using node_num_eq [of "Suc n" p] by (auto simp: le_Suc_eq)
  then show ?thesis
    using assms by (auto simp: left_adjusted_def tree_insert_def positions_put_leaf [OF next_free [OF assms]])
qed

lemma heap_insert: "left_adjusted n t \<Longrightarrow> heap_ordered key t \<Longrightarrow> heap_ordered key (tree_insert key n x t)"
  using heap_put [OF next_free(1), of n t key put_leaf] by (simp add: tree_insert_def)

text \<open>Without its last element a heap is a heap.\<close>

lemma left_adjusted_cut:
  assumes adjusted: "left_adjusted n t" and n: "0 < n" and last: "subtree_at t (heap_path n) = Node Leaf y Leaf"
  shows "left_adjusted (n - 1) (tree_cut (heap_path n) t)"
    and "add_mset y (mset_tree (tree_cut (heap_path n) t)) = mset_tree t"
proof -
  have reach: "reaches t (heap_path n)" using reaches_subtree [of t "heap_path n"] last by simp
  then show "add_mset y (mset_tree (tree_cut (heap_path n) t)) = mset_tree t" using mset_cut [OF reach] last by simp
  have "subtree_at t (heap_path n @ [b]) = Leaf" for b using last by (simp add: subtree_at_snoc)
  note cut = positions_cut [OF reach this]
  have "node_num 1 p \<le> n - 1 \<longleftrightarrow> node_num 1 p \<le> n \<and> p \<noteq> heap_path n" for p
    using node_num_eq [OF n, of p] n by (auto simp: le_less)
  then show "left_adjusted (n - 1) (tree_cut (heap_path n) t)" using adjusted cut by (auto simp: left_adjusted_def)
qed

lemma indexed_cut: "indexed h n t \<Longrightarrow> indexed h n (tree_cut p t)"
  by (induction p t arbitrary: n rule: tree_cut.induct) auto

lemma put_sift_Node [simp]: "put_sift key x (Node l y r) = tree_sift key x l r"
  by (simp add: put_sift_def)

lemma tree_delete_ok:
  assumes adjusted: "left_adjusted n t" and h: "indexed h 1 t" and x: "x \<in> set_tree t"
    and heap: "heap_ordered key t"
  shows "add_mset x (mset_tree (tree_delete key h n x t)) = mset_tree t"
    and "left_adjusted (n - 1) (tree_delete key h n x t)"
    and "heap_ordered key (tree_delete key h n x t)"
proof -
  have n: "0 < n" using left_adjusted_empty [OF adjusted] x by (cases t) auto
  obtain y where last: "subtree_at t (heap_path n) = Node Leaf y Leaf"
    using left_adjusted_last [OF adjusted n] by blast
  let ?c = "tree_cut (heap_path n) t"
  note cut = left_adjusted_cut [OF adjusted n last] indexed_cut [OF h, of "heap_path n"] heap_cut [OF heap, of "heap_path n"]
  have goal: "add_mset x (mset_tree (tree_delete key h n x t)) = mset_tree t \<and>
    left_adjusted (n - 1) (tree_delete key h n x t) \<and> heap_ordered key (tree_delete key h n x t)"
  proof (cases "y = x")
    case False
    then have "x \<in> set_tree ?c" using arg_cong [OF cut(2), of set_mset] x by auto
    with indexed_at [OF cut(3)] obtain l r where at: "subtree_at ?c (heap_path (h x)) = Node l x r" by blast
    let ?p = "heap_path (h x)"
    have reach: "reaches ?c ?p" using reaches_subtree [of ?c ?p] at by simp
    have sub: "heap_ordered key l" "heap_ordered key r" "left_first (Node l z r)" for z
      using heap_ordered_subtree [OF cut(4), of ?p] left_first_subtree [OF left_adjusted_left_first [OF cut(1)], of ?p]
      by (auto simp: at)
    have "mset_tree (tree_put key (put_sift key) ?p y ?c) + {#x#} = add_mset y (mset_tree ?c)"
      by (rule mset_put [OF reach]) (simp add: at mset_sift)
    moreover have "heap_ordered key (tree_put key (put_sift key) ?p y ?c)"
      by (rule heap_put [OF reach cut(4)]) (auto simp: at set_sift intro: heap_sift [OF sub])
    moreover have "left_adjusted (n - 1) (tree_put key (put_sift key) ?p y ?c)"
      using cut(1) shape_positions [OF shape_put [OF reach, of "put_sift key" key y]]
      by (simp add: left_adjusted_def at shape_sift)
    ultimately show ?thesis using False cut(2) by (simp add: tree_delete_def last)
  qed (use cut last in \<open>simp add: tree_delete_def\<close>)
  then show "add_mset x (mset_tree (tree_delete key h n x t)) = mset_tree t"
    and "left_adjusted (n - 1) (tree_delete key h n x t)" and "heap_ordered key (tree_delete key h n x t)" by blast+
qed

end
