(* ===== verification/St_Sleepq.thy ===== *)
theory St_Sleepq
  imports St_Vp St_Heap
begin

text \<open>
  The sleep queue of \<^verbatim>\<open>sched.c\<close>: the timeout heap with its pointers. \<^verbatim>\<open>_st_thread_t **p\<close> is a place
  that holds a pointer: \<^verbatim>\<open>_ST_SLEEPQ\<close> or the left or right link of a thread. A null pointer that is
  dereferenced gives \<open>None\<close>.
\<close>

section \<open>The operations\<close>

datatype link = SleepqLink | LeftLink tid | RightLink tid

fun read_link :: "st_vp \<Rightarrow> link \<Rightarrow> tid option" where
  "read_link s SleepqLink = sleep_q s"
| "read_link s (LeftLink a) = t_left (threads s a)"
| "read_link s (RightLink a) = t_right (threads s a)"

fun write_link :: "link \<Rightarrow> tid option \<Rightarrow> st_vp \<Rightarrow> st_vp" where
  "write_link SleepqLink v s = s\<lparr>sleep_q := v\<rparr>"
| "write_link (LeftLink a) v s = upd a (\<lambda>t. t\<lparr>t_left := v\<rparr>) s"
| "write_link (RightLink a) v s = upd a (\<lambda>t. t\<lparr>t_right := v\<rparr>) s"

text \<open>\<^verbatim>\<open>p = bit ? &((*p)->right) : &((*p)->left)\<close>\<close>

definition down_link :: "bool \<Rightarrow> tid \<Rightarrow> link" where
  "down_link b y = (if b then RightLink y else LeftLink y)"

text \<open>
  The loop of \<^verbatim>\<open>heap_insert\<close> over the bits of the target: it ends with the thread that is still to be placed,
  the place and its index.
\<close>

fun heap_insert_loop :: "bool list \<Rightarrow> tid \<Rightarrow> link \<Rightarrow> nat \<Rightarrow> st_vp \<Rightarrow> (tid \<times> link \<times> nat \<times> st_vp) option" where
  "heap_insert_loop [] thread p index s = Some (thread, p, index, s)"
| "heap_insert_loop (b # bs) thread p index s =
     (case read_link s p of
        None \<Rightarrow> None
      | Some t \<Rightarrow>
          if t_due (threads s thread) < t_due (threads s t)
          then heap_insert_loop bs t (down_link b thread) (2 * index + of_bool b)
                 (write_link p (Some thread)
                   (upd thread (\<lambda>th. th\<lparr>t_left := t_left (threads s t), t_right := t_right (threads s t),
                      t_heap_index := index\<rparr>) s))
          else heap_insert_loop bs thread (down_link b t) (2 * index + of_bool b) s)"

definition heap_place :: "tid \<Rightarrow> link \<Rightarrow> nat \<Rightarrow> st_vp \<Rightarrow> st_vp" where
  "heap_place thread p index s =
     upd thread (\<lambda>th. th\<lparr>t_left := None, t_right := None\<rparr>)
       (write_link p (Some thread) (upd thread (\<lambda>th. th\<lparr>t_heap_index := index\<rparr>) s))"

definition heap_insert_at :: "tid \<Rightarrow> st_vp \<Rightarrow> (link \<times> st_vp) option" where
  "heap_insert_at thread s =
     (case heap_insert_loop (heap_path (t_heap_index (threads s thread))) thread SleepqLink 1 s of
        None \<Rightarrow> None
      | Some (th, p, index, s1) \<Rightarrow> Some (p, heap_place th p index s1))"

text \<open>The walk to the last element, and the loop that reestablishes the heap invariant below \<open>t\<close>.\<close>

fun heap_walk :: "bool list \<Rightarrow> link \<Rightarrow> st_vp \<Rightarrow> link option" where
  "heap_walk [] p s = Some p"
| "heap_walk (b # bs) p s = (case read_link s p of None \<Rightarrow> None | Some y \<Rightarrow> heap_walk bs (down_link b y) s)"

definition younger_child :: "tid \<Rightarrow> st_vp \<Rightarrow> tid option" where
  "younger_child t s =
     (case t_left (threads s t) of
        None \<Rightarrow> None
      | Some l \<Rightarrow>
          (case t_right (threads s t) of
             None \<Rightarrow> Some l
           | Some r \<Rightarrow> Some (if t_due (threads s l) < t_due (threads s r) then l else r)))"

definition swap_down :: "tid \<Rightarrow> tid \<Rightarrow> link \<Rightarrow> st_vp \<Rightarrow> link \<times> st_vp" where
  "swap_down t y p s =
     (let tl = t_left (threads s y); tr = t_right (threads s y);
          i = t_heap_index (threads s t); j = t_heap_index (threads s y);
          s1 = write_link p (Some y) s;
          (p', s2) =
            (if Some y = t_left (threads s1 t)
             then (LeftLink y, upd y (\<lambda>th. th\<lparr>t_left := Some t, t_right := t_right (threads s1 t)\<rparr>) s1)
             else (RightLink y, upd y (\<lambda>th. th\<lparr>t_left := t_left (threads s1 t), t_right := Some t\<rparr>) s1)) in
      (p', upd y (\<lambda>th. th\<lparr>t_heap_index := i\<rparr>)
             (upd t (\<lambda>th. th\<lparr>t_left := tl, t_right := tr, t_heap_index := j\<rparr>) s2)))"

fun heap_sift_loop :: "nat \<Rightarrow> tid \<Rightarrow> link \<Rightarrow> st_vp \<Rightarrow> st_vp option" where
  "heap_sift_loop 0 t p s = None"
| "heap_sift_loop (Suc n) t p s =
     (case younger_child t s of
        None \<Rightarrow> Some s
      | Some y \<Rightarrow>
          if t_due (threads s y) < t_due (threads s t)
          then (case swap_down t y p s of (p', s') \<Rightarrow> heap_sift_loop n t p' s')
          else Some s)"

definition heap_delete :: "tid \<Rightarrow> st_vp \<Rightarrow> st_vp option" where
  "heap_delete thread s =
     (case heap_walk (heap_path (sleepq_size s)) SleepqLink s of
        None \<Rightarrow> None
      | Some p \<Rightarrow>
          (case read_link s p of
             None \<Rightarrow> None
           | Some t \<Rightarrow>
               let s1 = (write_link p None s)\<lparr>sleepq_size := sleepq_size s - 1\<rparr>;
                   unlink = (\<lambda>s'. upd thread (\<lambda>th. th\<lparr>t_left := None, t_right := None\<rparr>) s') in
               if t = thread then Some (unlink s1)
               else
                 (case heap_insert_at t (upd t (\<lambda>th. th\<lparr>t_heap_index := t_heap_index (threads s1 thread)\<rparr>) s1) of
                    None \<Rightarrow> None
                  | Some (p', s2) \<Rightarrow>
                      (case read_link s2 p' of
                         None \<Rightarrow> None
                       | Some t' \<Rightarrow>
                           let s3 = upd t' (\<lambda>th. th\<lparr>t_left := t_left (threads s2 thread),
                                      t_right := t_right (threads s2 thread)\<rparr>) s2 in
                           (case heap_sift_loop (Suc (sleepq_size s)) t' p' s3 of
                              None \<Rightarrow> None
                            | Some s4 \<Rightarrow> Some (unlink s4))))))"

definition st_add_sleep_q :: "tid \<Rightarrow> st_utime \<Rightarrow> st_vp \<Rightarrow> st_vp option" where
  "st_add_sleep_q thread timeout s =
     (let s1 = upd thread (\<lambda>th. th\<lparr>t_due := last_clock s + timeout, t_on_sleepq := True,
                 t_heap_index := Suc (sleepq_size s)\<rparr>) (s\<lparr>sleepq_size := Suc (sleepq_size s)\<rparr>) in
      map_option snd (heap_insert_at thread s1))"

definition st_del_sleep_q :: "tid \<Rightarrow> st_vp \<Rightarrow> st_vp option" where
  "st_del_sleep_q thread s = map_option (upd thread (\<lambda>th. th\<lparr>t_on_sleepq := False\<rparr>)) (heap_delete thread s)"

end
