(* ===== verification/St_Sleepq_Correct.thy ===== *)
theory St_Sleepq_Correct
  imports St_Sleepq
begin

text \<open>
  The sleep queue is right: on a well-formed heap no null pointer is met, the pointer operations do what
  \<^const>\<open>tree_insert\<close> and \<^const>\<open>tree_delete\<close> do to the tree, every thread knows its place, and the
  root is the thread that is due first. Upper layers see the queue as the set of its threads
  (\<open>sleepq_holds\<close>).
\<close>

section \<open>Trees in the links\<close>

fun is_tree :: "st_vp \<Rightarrow> tid option \<Rightarrow> tid tree \<Rightarrow> bool" where
  "is_tree s q Leaf = (q = None)"
| "is_tree s q (Node l x r) =
     (q = Some x \<and> is_tree s (t_left (threads s x)) l \<and> is_tree s (t_right (threads s x)) r)"

abbreviation due_of :: "st_vp \<Rightarrow> tid \<Rightarrow> st_utime" where
  "due_of s a \<equiv> t_due (threads s a)"

abbreviation index_of :: "st_vp \<Rightarrow> tid \<Rightarrow> nat" where
  "index_of s a \<equiv> t_heap_index (threads s a)"

fun link_owner :: "link \<Rightarrow> tid set" where
  "link_owner SleepqLink = {}"
| "link_owner (LeftLink a) = {a}"
| "link_owner (RightLink a) = {a}"

text \<open>What the heap operations never touch: everything of a thread but its links and its index.\<close>

definition core :: "st_thread \<Rightarrow> st_thread" where
  "core t = t\<lparr>t_left := None, t_right := None, t_heap_index := 0\<rparr>"

definition vp_rest :: "st_vp \<Rightarrow> st_vp" where
  "vp_rest s = s\<lparr>threads := (\<lambda>_. thread_zero), sleep_q := None\<rparr>"

text \<open>
  Between the two states only the threads of \<open>A\<close> and the pointer at \<open>p\<close> have changed, and
  of these threads only the links and the index.
\<close>

definition heap_frame :: "tid set \<Rightarrow> link \<Rightarrow> st_vp \<Rightarrow> st_vp \<Rightarrow> bool" where
  "heap_frame A p s s' \<longleftrightarrow>
     (\<forall>a. a \<notin> A \<longrightarrow> threads s' a = threads (write_link p (read_link s' p) s) a) \<and>
     sleep_q s' = sleep_q (write_link p (read_link s' p) s) \<and>
     vp_rest s' = vp_rest s \<and>
     (\<forall>a. core (threads s' a) = core (threads s a))"

lemma core_selects [simp]:
  "t_due (core t) = t_due t" "t_state (core t) = t_state t" "t_on_sleepq (core t) = t_on_sleepq t"
  "t_interrupt (core t) = t_interrupt t" "t_timedout (core t) = t_timedout t" "t_context (core t) = t_context t"
  by (simp_all add: core_def)

lemma core_due: "core t = core t' \<Longrightarrow> t_due t = t_due t'"
  by (drule arg_cong [where f = t_due]) simp

lemma frame_due: "heap_frame A p s s' \<Longrightarrow> due_of s' a = due_of s a"
  by (auto simp: heap_frame_def intro: core_due)

lemma core_updates [simp]:
  "core (t\<lparr>t_left := l\<rparr>) = core t" "core (t\<lparr>t_right := r\<rparr>) = core t" "core (t\<lparr>t_heap_index := i\<rparr>) = core t"
  by (simp_all add: core_def)

lemma write_link_core [simp]: "core (threads (write_link p v s) a) = core (threads s a)"
  by (cases p) (simp_all add: upd_def)

lemma write_link_other: "a \<notin> link_owner p \<Longrightarrow> threads (write_link p v s) a = threads s a"
  by (cases p) (simp_all add: upd_def)

lemma read_write_link [simp]: "read_link (write_link p v s) p = v"
  by (cases p) (simp_all add: upd_def)

lemma frame_other: "heap_frame A p s s' \<Longrightarrow> a \<notin> A \<Longrightarrow> a \<notin> link_owner p \<Longrightarrow> threads s' a = threads s a"
  by (simp add: heap_frame_def write_link_other)

lemma is_tree_cong:
  assumes "\<And>a. a \<in> set_tree t \<Longrightarrow> threads s' a = threads s a"
  shows "is_tree s' q t = is_tree s q t"
  using assms by (induction t arbitrary: q) auto

lemma frame_tree:
  assumes "heap_frame A p s s'" and "set_tree t \<inter> A = {}" and "set_tree t \<inter> link_owner p = {}"
  shows "is_tree s' q t = is_tree s q t" and "indexed (index_of s') n t = indexed (index_of s) n t"
proof -
  have same: "threads s' a = threads s a" if "a \<in> set_tree t" for a
    using frame_other [OF assms(1)] assms(2,3) that by blast
  then show "is_tree s' q t = is_tree s q t" by (rule is_tree_cong)
  show "indexed (index_of s') n t = indexed (index_of s) n t" by (rule indexed_cong) (simp add: same)
qed

lemma frame_mono: "heap_frame A p s s' \<Longrightarrow> A \<subseteq> B \<Longrightarrow> heap_frame B p s s'"
  by (auto simp: heap_frame_def)

text \<open>A child has been rebuilt below \<open>u\<close>: the tree below \<open>u\<close> is the tree with the new child.\<close>

lemma rebuilt_child:
  assumes "heap_frame A (down_link b u) s s'" and "u \<notin> A" and "set_tree other \<inter> insert u A = {}"
    and "is_tree s (read_link s (down_link (\<not> b) u)) other" and "indexed (index_of s) (2 * i + of_bool (\<not> b)) other"
    and "is_tree s' (read_link s' (down_link b u)) c" and "indexed (index_of s') (2 * i + of_bool b) c"
    and "index_of s u = i"
  shows "is_tree s' (Some u) (if b then Node other u c else Node c u other)"
    and "indexed (index_of s') i (if b then Node other u c else Node c u other)"
proof -
  have owner: "link_owner (down_link b u) = {u}" by (simp add: down_link_def)
  have u: "threads s' u = threads (write_link (down_link b u) (read_link s' (down_link b u)) s) u"
    using assms(1,2) by (simp add: heap_frame_def)
  have u': "read_link s' (down_link (\<not> b) u) = read_link s (down_link (\<not> b) u)"
    by (cases b; simp add: down_link_def; subst u; simp add: down_link_def upd_def)
  have u'': "index_of s' u = index_of s u"
    by (subst u) (cases b; simp add: down_link_def upd_def)
  have o: "is_tree s' q other = is_tree s q other" "indexed (index_of s') n other = indexed (index_of s) n other" for q n
    using frame_tree [OF assms(1), of other] assms(3) owner by auto
  show "is_tree s' (Some u) (if b then Node other u c else Node c u other)"
    using assms(4,6) u' by (cases b) (auto simp: o down_link_def)
  show "indexed (index_of s') i (if b then Node other u c else Node c u other)"
    using assms(5,7,8) u'' by (cases b) (auto simp: o)
qed

section \<open>Placing a thread\<close>

text \<open>
  What a continuation of the insertion loop may rely on and has to do: \<open>z\<close> arrives at the place \<open>p\<close>
  with index \<open>i\<close>, where the subtree \<open>sub\<close> is, and is put into it with \<open>g\<close>.
\<close>

definition finishes ::
  "(tid \<Rightarrow> link \<Rightarrow> nat \<Rightarrow> st_vp \<Rightarrow> st_vp option) \<Rightarrow> (tid \<Rightarrow> tid tree \<Rightarrow> tid tree) \<Rightarrow> tid tree \<Rightarrow> nat \<Rightarrow>
   (tid \<Rightarrow> st_thread) \<Rightarrow> bool"
where
  "finishes k g sub i ths \<longleftrightarrow>
     (\<forall>z p s. z \<notin> set_tree sub \<longrightarrow> link_owner p \<inter> insert z (set_tree sub) = {} \<longrightarrow>
        is_tree s (read_link s p) sub \<longrightarrow> (\<forall>a \<in> set_tree sub. threads s a = ths a) \<longrightarrow>
        (\<forall>a. core (threads s a) = core (ths a)) \<longrightarrow>
        (\<exists>s'. k z p i s = Some s' \<and> is_tree s' (read_link s' p) (g z sub) \<and>
           indexed (index_of s') i (g z sub) \<and> set_tree (g z sub) \<subseteq> insert z (set_tree sub) \<and>
           heap_frame (insert z (set_tree sub)) p s s'))"

definition insert_then ::
  "(tid \<Rightarrow> link \<Rightarrow> nat \<Rightarrow> st_vp \<Rightarrow> st_vp option) \<Rightarrow> bool list \<Rightarrow> tid \<Rightarrow> link \<Rightarrow> nat \<Rightarrow> st_vp \<Rightarrow> st_vp option"
where
  "insert_then k path x p i s =
     (case heap_insert_loop path x p i s of None \<Rightarrow> None | Some (z, p', i', s') \<Rightarrow> k z p' i' s')"

text \<open>The step of the loop that exchanges the carried thread with the one it meets.\<close>

definition exchange :: "tid \<Rightarrow> tid \<Rightarrow> link \<Rightarrow> nat \<Rightarrow> st_vp \<Rightarrow> st_vp" where
  "exchange x y p i s =
     write_link p (Some x) (upd x (\<lambda>th. th\<lparr>t_left := t_left (threads s y), t_right := t_right (threads s y),
       t_heap_index := i\<rparr>) s)"

lemma exchange_frame: "heap_frame {x} p s (exchange x y p i s)"
  by (cases p) (auto simp: heap_frame_def exchange_def upd_def core_def vp_rest_def)

lemma exchange_x:
  assumes "x \<notin> link_owner p"
  shows "t_left (threads (exchange x y p i s) x) = t_left (threads s y)"
    and "t_right (threads (exchange x y p i s) x) = t_right (threads s y)"
    and "index_of (exchange x y p i s) x = i" and "read_link (exchange x y p i s) p = Some x"
  using assms by (cases p; simp add: exchange_def upd_def)+

lemma frame_read:
  assumes "heap_frame B q s1 s2" and "link_owner p \<inter> B = {}" and "link_owner p \<inter> link_owner q = {}"
    and "q \<noteq> SleepqLink"
  shows "read_link s2 p = read_link s1 p"
proof -
  have "sleep_q s2 = sleep_q s1" using assms(1,4) by (cases q) (auto simp: heap_frame_def upd_def)
  then show ?thesis using frame_other [OF assms(1)] assms(2,3) by (cases p) auto
qed

lemma frame_trans:
  assumes A: "heap_frame A p s s1" and B: "heap_frame B q s1 s2" and sub: "A \<subseteq> C" "B \<subseteq> C" "link_owner q \<subseteq> C"
    and p: "link_owner p \<inter> C = {}" and q: "q \<noteq> SleepqLink"
  shows "heap_frame C p s s2"
proof -
  have read: "read_link s2 p = read_link s1 p"
    by (rule frame_read [OF B _ _ q]) (use p sub in blast)+
  have "threads s2 a = threads s1 a" if "a \<notin> C" for a
    using frame_other [OF B] that sub by blast
  moreover have "sleep_q s2 = sleep_q s1" using B q by (cases q) (auto simp: heap_frame_def upd_def)
  moreover have "vp_rest s2 = vp_rest s" using A B by (simp add: heap_frame_def)
  ultimately show ?thesis using A B sub read unfolding heap_frame_def by auto
qed

lemma insert_then_Cons:
  "insert_then k (b # bs) x p i s =
     (case read_link s p of
        None \<Rightarrow> None
      | Some y \<Rightarrow>
          if due_of s x < due_of s y
          then insert_then k bs y (down_link b x) (2 * i + of_bool b) (exchange x y p i s)
          else insert_then k bs x (down_link b y) (2 * i + of_bool b) s)"
  by (simp add: insert_then_def exchange_def split: option.split)

lemma down_link_simps [simp]: "link_owner (down_link b y) = {y}" "down_link b y \<noteq> SleepqLink"
  by (simp_all add: down_link_def)

lemma finishes_cong:
  assumes "finishes k g sub i ths" and "\<And>a. a \<in> set_tree sub \<Longrightarrow> ths' a = ths a" and "\<And>a. core (ths' a) = core (ths a)"
  shows "finishes k g sub i ths'"
  using assms unfolding finishes_def by simp

lemma write_read_link: "write_link p (read_link s p) s = s"
  by (cases p) (simp_all add: upd_def)

lemma frame_refl: "heap_frame A p s s"
  by (simp add: heap_frame_def write_read_link)

lemma insert_then_tree:
  assumes "is_tree s (read_link s p) t" and "distinct (inorder t)" and "x \<notin> set_tree t"
    and "link_owner p \<inter> insert x (set_tree t) = {}" and "reaches t path" and "indexed (index_of s) i t"
    and "finishes k g (subtree_at t path) (node_num i path) (threads s)"
  shows "\<exists>s'. insert_then k path x p i s = Some s' \<and>
    is_tree s' (read_link s' p) (tree_put (due_of s) g path x t) \<and>
    indexed (index_of s') i (tree_put (due_of s) g path x t) \<and>
    set_tree (tree_put (due_of s) g path x t) \<subseteq> insert x (set_tree t) \<and>
    heap_frame (insert x (set_tree t)) p s s'"
  using assms
proof (induction path arbitrary: s p t x i)
  case Nil
  then show ?case unfolding insert_then_def finishes_def by simp
next
  case (Cons b path)
  obtain l y r where t: "t = Node l y r" using Cons.prems(5) by (cases t) auto
  let ?c = "if b then r else l" and ?o = "if b then l else r"
  have y: "read_link s p = Some y" using Cons.prems(1) t by simp
  have sets: "set_tree ?c \<inter> set_tree ?o = {}" "y \<notin> set_tree ?c" "y \<notin> set_tree ?o" "x \<noteq> y" "x \<notin> set_tree ?c"
      "x \<notin> set_tree ?o" "distinct (inorder ?c)" "set_tree t = insert y (set_tree ?c \<union> set_tree ?o)"
      "reaches ?c path" "link_owner p \<inter> insert x (insert y (set_tree ?c \<union> set_tree ?o)) = {}"
    using Cons.prems(2-5) t by (cases b; auto)+
  have trees: "is_tree s (read_link s (down_link b y)) ?c" "is_tree s (read_link s (down_link (\<not> b) y)) ?o"
      "indexed (index_of s) (2 * i + of_bool b) ?c" "indexed (index_of s) (2 * i + of_bool (\<not> b)) ?o" "index_of s y = i"
    using Cons.prems(1,6) t by (auto simp: down_link_def)
  have fin: "finishes k g (subtree_at ?c path) (node_num (2 * i + of_bool b) path) (threads s)"
    using Cons.prems(7) t by simp
  show ?case
  proof (cases "due_of s x < due_of s y")
    case True
    define s1 where "s1 = exchange x y p i s"
    have F: "heap_frame {x} p s s1" unfolding s1_def by (rule exchange_frame)
    have xp: "x \<notin> link_owner p" using sets(10) by auto
    have x1: "read_link s1 (down_link b' x) = read_link s (down_link b' y)" for b'
      using exchange_x(1,2) [OF xp, of y i s] by (cases b') (simp_all add: s1_def down_link_def)
    have keep: "is_tree s1 q u = is_tree s q u" "indexed (index_of s1) n u = indexed (index_of s) n u"
      if "set_tree u \<subseteq> set_tree ?c \<union> set_tree ?o" for q u n
    proof -
      have "set_tree u \<inter> {x} = {}" using that sets(5,6) by blast
      moreover have "set_tree u \<inter> link_owner p = {}" using that sets(10) by blast
      ultimately show "is_tree s1 q u = is_tree s q u" "indexed (index_of s1) n u = indexed (index_of s) n u"
        by (rule frame_tree [OF F])+
    qed
    have fin1: "finishes k g (subtree_at ?c path) (node_num (2 * i + of_bool b) path) (threads s1)"
    proof (rule finishes_cong [OF fin])
      show "threads s1 a = threads s a" if "a \<in> set_tree (subtree_at ?c path)" for a
      proof (rule frame_other [OF F])
        have "a \<in> set_tree ?c" using that set_subtree [of ?c path] by (rule subsetD [rotated])
        then show "a \<notin> {x}" "a \<notin> link_owner p" using sets(5,10) by auto
      qed
    qed (use F in \<open>simp add: heap_frame_def\<close>)
    have due1: "due_of s1 = due_of s" using frame_due [OF F] by auto
    obtain s2 where s2: "insert_then k path y (down_link b x) (2 * i + of_bool b) s1 = Some s2"
        "is_tree s2 (read_link s2 (down_link b x)) (tree_put (due_of s) g path y ?c)"
        "indexed (index_of s2) (2 * i + of_bool b) (tree_put (due_of s) g path y ?c)"
        "set_tree (tree_put (due_of s) g path y ?c) \<subseteq> insert y (set_tree ?c)"
        "heap_frame (insert y (set_tree ?c)) (down_link b x) s1 s2"
      using Cons.IH [of s1 "down_link b x" ?c y "2 * i + of_bool b"] sets trees keep x1 fin1 due1 by auto
    note new = rebuilt_child [OF s2(5) _ _ _ _ s2(2,3), where other = ?o]
    have "is_tree s2 (Some x) (if b then Node ?o x (tree_put (due_of s) g path y ?c) else Node (tree_put (due_of s) g path y ?c) x ?o)"
      "indexed (index_of s2) i (if b then Node ?o x (tree_put (due_of s) g path y ?c) else Node (tree_put (due_of s) g path y ?c) x ?o)"
      by (rule new; use sets trees keep x1 exchange_x(3) [OF xp, of y i s] in \<open>auto simp: s1_def\<close>)+
    moreover have "read_link s2 p = Some x"
      using frame_read [OF s2(5), of p] exchange_x(4) [OF xp, of y i s] sets(10) by (auto simp: s1_def)
    moreover have "heap_frame (insert x (set_tree t)) p s s2"
      by (rule frame_trans [OF F s2(5)]) (use sets in auto)
    ultimately show ?thesis using s2(1,4) True t y sets(8)
      by (cases b) (auto simp: insert_then_Cons s1_def [symmetric])
  next
    case False
    obtain s2 where s2: "insert_then k path x (down_link b y) (2 * i + of_bool b) s = Some s2"
        "is_tree s2 (read_link s2 (down_link b y)) (tree_put (due_of s) g path x ?c)"
        "indexed (index_of s2) (2 * i + of_bool b) (tree_put (due_of s) g path x ?c)"
        "set_tree (tree_put (due_of s) g path x ?c) \<subseteq> insert x (set_tree ?c)"
        "heap_frame (insert x (set_tree ?c)) (down_link b y) s s2"
      using Cons.IH [of s "down_link b y" ?c x "2 * i + of_bool b"] sets trees fin by auto
    note new = rebuilt_child [OF s2(5) _ _ _ _ s2(2,3), where other = ?o]
    have "is_tree s2 (Some y) (if b then Node ?o y (tree_put (due_of s) g path x ?c) else Node (tree_put (due_of s) g path x ?c) y ?o)"
      "indexed (index_of s2) i (if b then Node ?o y (tree_put (due_of s) g path x ?c) else Node (tree_put (due_of s) g path x ?c) y ?o)"
      by (rule new; use sets trees in auto)+
    moreover have "read_link s2 p = Some y"
      using frame_read [OF s2(5), of p] y sets(10) by auto
    moreover have "heap_frame (insert x (set_tree t)) p s s2"
      by (rule frame_trans [OF _ s2(5), of "{}"]) (use sets y frame_refl in auto)
    ultimately show ?thesis using s2(1,4) False t y sets(8) by (cases b) (auto simp: insert_then_Cons)
  qed
qed

section \<open>Sinking a thread\<close>

lemma swap_down_ok:
  assumes "read_link s (down_link b t) = Some y" and "b \<longrightarrow> t_left (threads s t) \<noteq> Some y"
    and "t \<noteq> y" and "link_owner p \<inter> {t, y} = {}"
  shows "\<exists>s1. swap_down t y p s = (down_link b y, s1) \<and>
    t_left (threads s1 t) = t_left (threads s y) \<and> t_right (threads s1 t) = t_right (threads s y) \<and>
    index_of s1 t = index_of s y \<and> index_of s1 y = index_of s t \<and>
    read_link s1 (down_link b y) = Some t \<and>
    read_link s1 (down_link (\<not> b) y) = read_link s (down_link (\<not> b) t) \<and>
    read_link s1 p = Some y \<and> heap_frame {t, y} p s s1"
proof -
  have "threads (write_link p (Some y) s) t = threads s t"
    using assms(4) by (intro write_link_other) auto
  then show ?thesis
    using assms by (cases b; cases p)
      (auto simp: swap_down_def down_link_def Let_def heap_frame_def upd_def core_def vp_rest_def)
qed

lemma younger_child_tree:
  assumes "is_tree s (Some t) (Node l t r)" and "left_first (Node l t r)" and "distinct (inorder (Node l t r))"
  shows "younger_child t s = None \<Longrightarrow> tree_sift (due_of s) t l r = Node l t r"
    and "younger_child t s = Some y \<Longrightarrow> \<not> due_of s y < due_of s t \<Longrightarrow> tree_sift (due_of s) t l r = Node l t r"
    and "younger_child t s = Some y \<Longrightarrow> due_of s y < due_of s t \<Longrightarrow>
      \<exists>b a d. (if b then r else l) = Node a y d \<and> (b \<longrightarrow> t_left (threads s t) \<noteq> Some y) \<and>
        tree_sift (due_of s) t l r =
          (if b then Node l y (tree_sift (due_of s) t a d) else Node (tree_sift (due_of s) t a d) y r)"
proof -
  show "younger_child t s = None \<Longrightarrow> tree_sift (due_of s) t l r = Node l t r"
    using assms by (cases l; cases r) (auto simp: younger_child_def)
  show "younger_child t s = Some y \<Longrightarrow> \<not> due_of s y < due_of s t \<Longrightarrow> tree_sift (due_of s) t l r = Node l t r"
    using assms by (cases l; cases r) (auto simp: younger_child_def split: if_splits)
  assume y: "younger_child t s = Some y" and less: "due_of s y < due_of s t"
  obtain a w d where l: "l = Node a w d" using assms y by (cases l) (auto simp: younger_child_def)
  show "\<exists>b a d. (if b then r else l) = Node a y d \<and> (b \<longrightarrow> t_left (threads s t) \<noteq> Some y) \<and>
        tree_sift (due_of s) t l r =
          (if b then Node l y (tree_sift (due_of s) t a d) else Node (tree_sift (due_of s) t a d) y r)"
  proof (cases "y = w")
    case True
    then show ?thesis using assms y less l
      by (intro exI [of _ False] exI [of _ a] exI [of _ d])
        (cases r; auto simp: younger_child_def split: if_splits)
  next
    case False
    then obtain a' d' where "r = Node a' y d'" "\<not> due_of s w < due_of s y"
      using assms y l by (cases r) (auto simp: younger_child_def split: if_splits)
    then show ?thesis using assms less l False
      by (intro exI [of _ True] exI [of _ a'] exI [of _ d']) auto
  qed
qed

lemma heap_sift_tree:
  assumes "is_tree s (read_link s p) (Node l t r)" and "distinct (inorder (Node l t r))"
    and "link_owner p \<inter> set_tree (Node l t r) = {}" and "left_first (Node l t r)"
    and "indexed (index_of s) i (Node l t r)" and "size l + size r < n"
  shows "\<exists>s'. heap_sift_loop n t p s = Some s' \<and> is_tree s' (read_link s' p) (tree_sift (due_of s) t l r) \<and>
    indexed (index_of s') i (tree_sift (due_of s) t l r) \<and> heap_frame (set_tree (Node l t r)) p s s'"
  using assms
proof (induction n arbitrary: s p l r i)
  case (Suc n)
  have p: "read_link s p = Some t" using Suc.prems(1) by simp
  have tree: "is_tree s (Some t) (Node l t r)" using Suc.prems(1) p by simp
  note child = younger_child_tree [OF tree Suc.prems(4,2)]
  show ?case
  proof (cases "\<exists>y. younger_child t s = Some y \<and> due_of s y < due_of s t")
    case False
    then have "heap_sift_loop (Suc n) t p s = Some s" by (auto split: option.split)
    moreover have "tree_sift (due_of s) t l r = Node l t r" using False child(1,2) by (cases "younger_child t s") auto
    ultimately show ?thesis using Suc.prems(1,5) frame_refl by auto
  next
    case True
    then obtain y where y: "younger_child t s = Some y" "due_of s y < due_of s t" by blast
    from child(3) [OF y] obtain b a d where c: "(if b then r else l) = Node a y d" "b \<longrightarrow> t_left (threads s t) \<noteq> Some y"
      and sift: "tree_sift (due_of s) t l r =
          (if b then Node l y (tree_sift (due_of s) t a d) else Node (tree_sift (due_of s) t a d) y r)" by blast
    let ?o = "if b then l else r"
    have sets: "set_tree (Node l t r) = insert t (insert y (set_tree a \<union> set_tree d \<union> set_tree ?o))"
        "t \<noteq> y" "t \<notin> set_tree a \<union> set_tree d \<union> set_tree ?o" "y \<notin> set_tree a \<union> set_tree d \<union> set_tree ?o"
        "(set_tree a \<union> set_tree d) \<inter> set_tree ?o = {}" "distinct (inorder (Node a t d))"
        "left_first (Node a t d)" "size a + size d < n"
      using Suc.prems(2,4,6) c(1) by (cases b; auto)+
    have trees: "read_link s (down_link b t) = Some y" "is_tree s (t_left (threads s y)) a" "is_tree s (t_right (threads s y)) d"
        "is_tree s (read_link s (down_link (\<not> b) t)) ?o" "indexed (index_of s) (2 * (2 * i + of_bool b)) a"
        "indexed (index_of s) (2 * (2 * i + of_bool b) + 1) d" "index_of s y = 2 * i + of_bool b" "index_of s t = i"
        "indexed (index_of s) (2 * i + of_bool (\<not> b)) ?o"
      using tree Suc.prems(5) c(1) by (cases b; auto simp: down_link_def)+
    have own: "link_owner p \<inter> {t, y} = {}" using Suc.prems(3) sets(1) by blast
    obtain s1 where s1: "swap_down t y p s = (down_link b y, s1)"
        "t_left (threads s1 t) = t_left (threads s y)" "t_right (threads s1 t) = t_right (threads s y)"
        "index_of s1 t = index_of s y" "index_of s1 y = index_of s t" "read_link s1 (down_link b y) = Some t"
        "read_link s1 (down_link (\<not> b) y) = read_link s (down_link (\<not> b) t)" "read_link s1 p = Some y"
        "heap_frame {t, y} p s s1"
      using swap_down_ok [OF trees(1) c(2) sets(2) own] by blast
    have keep: "is_tree s1 q u = is_tree s q u" "indexed (index_of s1) m u = indexed (index_of s) m u"
      if "u \<in> {a, d, ?o}" for q u m
    proof -
      have "set_tree u \<inter> {t, y} = {}" using that sets(3,4) by (cases b; auto)
      moreover have "set_tree u \<inter> link_owner p = {}" using that Suc.prems(3) sets(1) by (cases b; auto)
      ultimately show "is_tree s1 q u = is_tree s q u" "indexed (index_of s1) m u = indexed (index_of s) m u"
        by (rule frame_tree [OF s1(9)])+
    qed
    have due1: "due_of s1 = due_of s" using frame_due [OF s1(9)] by auto
    have sub: "is_tree s1 (read_link s1 (down_link b y)) (Node a t d)" "indexed (index_of s1) (2 * i + of_bool b) (Node a t d)"
      "link_owner (down_link b y) \<inter> set_tree (Node a t d) = {}"
      using s1 trees keep sets by auto
    obtain s2 where s2: "heap_sift_loop n t (down_link b y) s1 = Some s2"
        "is_tree s2 (read_link s2 (down_link b y)) (tree_sift (due_of s) t a d)"
        "indexed (index_of s2) (2 * i + of_bool b) (tree_sift (due_of s) t a d)"
        "heap_frame (set_tree (Node a t d)) (down_link b y) s1 s2"
      using Suc.IH [OF sub(1) sets(6) sub(3) sets(7) sub(2) sets(8)] due1 by auto
    note new = rebuilt_child [OF s2(4) _ _ _ _ s2(2,3), where other = ?o]
    have "is_tree s2 (Some y) (if b then Node ?o y (tree_sift (due_of s) t a d) else Node (tree_sift (due_of s) t a d) y ?o)"
      "indexed (index_of s2) i (if b then Node ?o y (tree_sift (due_of s) t a d) else Node (tree_sift (due_of s) t a d) y ?o)"
      by (rule new; use sets trees keep s1 in auto)+
    moreover have "read_link s2 p = Some y"
      using frame_read [OF s2(4), of p] s1(8) Suc.prems(3) unfolding sets(1) by auto
    moreover have "heap_frame (set_tree (Node l t r)) p s s2"
      by (rule frame_trans [OF s1(9) s2(4)]) (use sets(1) Suc.prems(3) in auto)
    moreover have "heap_sift_loop (Suc n) t p s = Some s2" using y s1(1) s2(1) by simp
    ultimately show ?thesis using sift by (cases b) auto
  qed
qed simp

section \<open>The sleep queue as a set of threads\<close>

definition sleepq_tree :: "st_vp \<Rightarrow> tid tree \<Rightarrow> bool" where
  "sleepq_tree s t \<longleftrightarrow> is_tree s (sleep_q s) t \<and> distinct (inorder t) \<and> left_adjusted (sleepq_size s) t \<and>
     indexed (index_of s) 1 t \<and> heap_ordered (due_of s) t"

text \<open>The sleep queue is well formed and holds exactly the threads of \<open>A\<close>.\<close>

definition sleepq_holds :: "st_vp \<Rightarrow> tid set \<Rightarrow> bool" where
  "sleepq_holds s A \<longleftrightarrow> (\<exists>t. sleepq_tree s t \<and> set_tree t = A)"

text \<open>Nothing but the sleep queue has changed, and of thread \<open>x\<close> what \<open>f\<close> says.\<close>

definition sleepq_change :: "tid \<Rightarrow> (st_thread \<Rightarrow> st_thread) \<Rightarrow> st_vp \<Rightarrow> st_vp \<Rightarrow> bool" where
  "sleepq_change x f s s' \<longleftrightarrow> (vp_rest s')\<lparr>sleepq_size := 0\<rparr> = (vp_rest s)\<lparr>sleepq_size := 0\<rparr> \<and>
     (\<forall>a. core (threads s' a) = core ((if a = x then f else id) (threads s a)))"

lemma mset_distinct:
  assumes "mset_tree t = mset_tree t'"
  shows "distinct (inorder t) = distinct (inorder t')" and "set_tree t = set_tree t'"
  using assms by (metis mset_inorder mset_eq_imp_distinct_iff) (metis assms set_mset_tree)

lemma finishes_place: "finishes (\<lambda>z p i s. Some (heap_place z p i s)) put_leaf Leaf i ths"
  unfolding finishes_def
proof (intro allI impI)
  fix z p s
  assume "link_owner p \<inter> insert z (set_tree Leaf) = {}" "is_tree s (read_link s p) Leaf"
  then show "\<exists>s'. Some (heap_place z p i s) = Some s' \<and> is_tree s' (read_link s' p) (Node Leaf z Leaf) \<and>
     indexed (index_of s') i (Node Leaf z Leaf) \<and> set_tree (Node Leaf z Leaf) \<subseteq> insert z (set_tree Leaf) \<and>
     heap_frame (insert z (set_tree Leaf)) p s s'"
    by (cases p) (auto simp: heap_place_def heap_frame_def upd_def core_def vp_rest_def)
qed

lemma heap_insert_at_then:
  "map_option snd (heap_insert_at x s) =
     insert_then (\<lambda>z p i s. Some (heap_place z p i s)) (heap_path (index_of s x)) x SleepqLink 1 s"
  by (simp add: heap_insert_at_def insert_then_def split: option.split)

lemma frame_size: "heap_frame A p s s' \<Longrightarrow> sleepq_size s' = sleepq_size s"
proof -
  assume "heap_frame A p s s'"
  then have "sleepq_size (vp_rest s') = sleepq_size (vp_rest s)" by (simp add: heap_frame_def)
  then show "sleepq_size s' = sleepq_size s" by (simp add: vp_rest_def)
qed

lemma tree_same:
  assumes "\<And>a. a \<in> set_tree t \<Longrightarrow> threads s' a = threads s a"
  shows "is_tree s' q t = is_tree s q t" and "indexed (index_of s') n t = indexed (index_of s) n t"
    and "heap_ordered (due_of s') t = heap_ordered (due_of s) t"
  by (rule is_tree_cong indexed_cong heap_ordered_cong; simp add: assms)+

lemma add_sleep_q_ok:
  assumes "sleepq_holds s A" and "x \<notin> A"
  shows "\<exists>s'. st_add_sleep_q x timeout s = Some s' \<and> sleepq_holds s' (insert x A) \<and>
    sleepq_change x (\<lambda>t. t\<lparr>t_due := last_clock s + timeout, t_on_sleepq := True\<rparr>) s s'"
proof -
  obtain t where t: "is_tree s (sleep_q s) t" "distinct (inorder t)" "left_adjusted (sleepq_size s) t"
      "indexed (index_of s) 1 t" "heap_ordered (due_of s) t" "set_tree t = A"
    using assms(1) by (auto simp: sleepq_holds_def sleepq_tree_def)
  define s1 where "s1 = upd x (\<lambda>th. th\<lparr>t_due := last_clock s + timeout, t_on_sleepq := True,
                 t_heap_index := Suc (sleepq_size s)\<rparr>) (s\<lparr>sleepq_size := Suc (sleepq_size s)\<rparr>)"
  have x: "x \<notin> set_tree t" using assms(2) t(6) by simp
  have same: "threads s1 a = threads s a" if "a \<in> set_tree t" for a using that x by (auto simp: s1_def upd_def)
  have "sleep_q s1 = sleep_q s" by (simp add: s1_def upd_def)
  then have s1: "is_tree s1 (sleep_q s1) t" "indexed (index_of s1) 1 t" "heap_ordered (due_of s1) t"
    using tree_same [OF same] t by auto
  let ?p = "heap_path (Suc (sleepq_size s))"
  note free = next_free [OF t(3)]
  obtain s' where s': "insert_then (\<lambda>z p i s. Some (heap_place z p i s)) ?p x SleepqLink 1 s1 = Some s'"
      "is_tree s' (sleep_q s') (tree_insert (due_of s1) (sleepq_size s) x t)"
      "indexed (index_of s') 1 (tree_insert (due_of s1) (sleepq_size s) x t)"
      "heap_frame (insert x (set_tree t)) SleepqLink s1 s'"
    using insert_then_tree [of s1 SleepqLink t x ?p 1 "\<lambda>z p i s. Some (heap_place z p i s)" put_leaf]
      s1 t(2) x free finishes_place by (auto simp: tree_insert_def)
  let ?t = "tree_insert (due_of s1) (sleepq_size s) x t"
  have run: "st_add_sleep_q x timeout s = Some s'"
    using s'(1) by (simp add: st_add_sleep_q_def s1_def [symmetric] heap_insert_at_then) (simp add: s1_def upd_def)
  have m: "mset_tree ?t = add_mset x (mset_tree t)" by (rule mset_insert [OF t(3)])
  have "mset (inorder ?t) = mset (x # inorder t)" using m by (simp add: mset_inorder)
  then have "distinct (inorder ?t)" using mset_eq_imp_distinct_iff t(2) x by fastforce
  moreover have "set_tree ?t = insert x A" using arg_cong [OF m, of set_mset] t(6) by simp
  moreover have "heap_ordered (due_of s') ?t"
    using heap_insert [OF t(3) s1(3), of x] heap_ordered_cong [of ?t "due_of s'" "due_of s1"] frame_due [OF s'(4)] by simp
  moreover have "sleepq_size s' = Suc (sleepq_size s)"
    using frame_size [OF s'(4)] by (simp add: s1_def upd_def)
  moreover have "sleepq_change x (\<lambda>t. t\<lparr>t_due := last_clock s + timeout, t_on_sleepq := True\<rparr>) s s'"
    using s'(4) by (auto simp: sleepq_change_def heap_frame_def s1_def upd_def core_def vp_rest_def)
  ultimately show ?thesis using run s'(2,3) left_adjusted_insert [OF t(3)]
    unfolding sleepq_holds_def sleepq_tree_def by auto
qed

section \<open>Removing a thread\<close>

lemma index_write_link [simp]: "index_of (write_link p v s) a = index_of s a"
  by (cases p) (simp_all add: upd_def)

lemma frame_write_link: "heap_frame A p s (write_link p v s)"
  by (cases p) (auto simp: heap_frame_def upd_def vp_rest_def core_def)

lemma rest_write_link [simp]: "vp_rest (write_link p v s) = vp_rest s"
  by (cases p) (simp_all add: upd_def vp_rest_def)

lemma heap_walk_tree:
  assumes "is_tree s (read_link s p) t" and "distinct (inorder t)" and "link_owner p \<inter> set_tree t = {}"
    and "reaches t path" and "indexed (index_of s) i t"
  shows "\<exists>p'. heap_walk path p s = Some p' \<and> is_tree s (read_link s p') (subtree_at t path) \<and>
    is_tree (write_link p' None s) (read_link (write_link p' None s) p) (tree_cut path t) \<and>
    heap_frame (set_tree t) p s (write_link p' None s)"
  using assms
proof (induction path arbitrary: p t i)
  case Nil
  then show ?case using frame_write_link by auto
next
  case (Cons b path)
  obtain l y r where t: "t = Node l y r" using Cons.prems(4) by (cases t) auto
  let ?c = "if b then r else l" and ?o = "if b then l else r"
  have y: "read_link s p = Some y" using Cons.prems(1) t by simp
  have sets: "set_tree ?c \<inter> set_tree ?o = {}" "y \<notin> set_tree ?c" "y \<notin> set_tree ?o" "distinct (inorder ?c)"
      "set_tree t = insert y (set_tree ?c \<union> set_tree ?o)" "reaches ?c path"
      "link_owner p \<inter> insert y (set_tree ?c \<union> set_tree ?o) = {}"
    using Cons.prems(2-4) t by (cases b; auto)+
  have trees: "is_tree s (read_link s (down_link b y)) ?c" "is_tree s (read_link s (down_link (\<not> b) y)) ?o"
      "indexed (index_of s) (2 * i + of_bool b) ?c" "indexed (index_of s) (2 * i + of_bool (\<not> b)) ?o" "index_of s y = i"
    using Cons.prems(1,5) t by (auto simp: down_link_def)
  have own: "link_owner (down_link b y) \<inter> set_tree ?c = {}" using sets(2) by simp
  obtain p' where p': "heap_walk path (down_link b y) s = Some p'" "is_tree s (read_link s p') (subtree_at ?c path)"
      "is_tree (write_link p' None s) (read_link (write_link p' None s) (down_link b y)) (tree_cut path ?c)"
      "heap_frame (set_tree ?c) (down_link b y) s (write_link p' None s)"
    using Cons.IH [OF trees(1) sets(4) own sets(6) trees(3)] by blast
  have idx: "indexed (index_of (write_link p' None s)) (2 * i + of_bool b) (tree_cut path ?c)"
    using indexed_cut [OF trees(3)] by simp
  note new = rebuilt_child [OF p'(4) _ _ _ _ p'(3) idx, where other = ?o]
  have "is_tree (write_link p' None s) (Some y)
      (if b then Node ?o y (tree_cut path ?c) else Node (tree_cut path ?c) y ?o)"
    by (rule new; use sets trees in auto)
  moreover have "read_link (write_link p' None s) p = Some y"
    using frame_read [OF p'(4), of p] y sets(7) by auto
  moreover have "heap_frame (set_tree t) p s (write_link p' None s)"
    by (rule frame_trans [OF frame_refl p'(4), of "{}"]) (use sets(5,7) in auto)
  ultimately show ?case using p'(1,2) t y by (cases b) auto
qed

lemma write_link_twice:
  "threads s1 a = threads (write_link p u s) a \<Longrightarrow> threads (write_link p v s1) a = threads (write_link p v s) a"
  by (cases p) (auto simp: upd_def split: if_splits)

lemma frame_trans_same:
  assumes "heap_frame A p s s1" and "heap_frame B p s1 s2" and "A \<union> B \<subseteq> C"
  shows "heap_frame C p s s2"
proof -
  have "threads s2 a = threads (write_link p (read_link s2 p) s) a" if "a \<notin> C" for a
  proof -
    have "threads s1 a = threads (write_link p (read_link s1 p) s) a"
      "threads s2 a = threads (write_link p (read_link s2 p) s1) a"
      using assms that by (auto simp: heap_frame_def)
    then show ?thesis by (metis write_link_twice)
  qed
  moreover have "sleep_q s2 = sleep_q (write_link p (read_link s2 p) s)"
    using assms(1,2) by (cases p) (auto simp: heap_frame_def upd_def)
  ultimately show ?thesis using assms(1,2) unfolding heap_frame_def by auto
qed

text \<open>What \<^verbatim>\<open>heap_delete\<close> does once the last element has arrived at the place of \<open>thread\<close>.\<close>

definition sift_then :: "nat \<Rightarrow> tid \<Rightarrow> tid \<Rightarrow> link \<Rightarrow> nat \<Rightarrow> st_vp \<Rightarrow> st_vp option" where
  "sift_then n thread z p i s =
     (let s2 = heap_place z p i s in
      case read_link s2 p of
        None \<Rightarrow> None
      | Some t' \<Rightarrow>
          heap_sift_loop n t' p (upd t' (\<lambda>th. th\<lparr>t_left := t_left (threads s2 thread),
             t_right := t_right (threads s2 thread)\<rparr>) s2))"

lemma heap_place_then:
  fixes s :: st_vp and i :: nat
  assumes "z \<notin> link_owner p" and "x \<noteq> z" and "x \<notin> link_owner p"
  defines "s3 \<equiv> upd z (\<lambda>th. th\<lparr>t_left := t_left (threads s x), t_right := t_right (threads s x)\<rparr>) (heap_place z p i s)"
  shows "sift_then n x z p i s = heap_sift_loop n z p s3" and "read_link s3 p = Some z" and "heap_frame {z} p s s3"
    and "t_left (threads s3 z) = t_left (threads s x)" and "t_right (threads s3 z) = t_right (threads s x)"
    and "index_of s3 z = i"
  using assms(1-3) unfolding s3_def
  by (cases p; auto simp: sift_then_def heap_place_def heap_frame_def upd_def core_def vp_rest_def Let_def)+

lemma finishes_sift:
  assumes "left_first (Node l x r)" and "distinct (inorder (Node l x r))" and "size l + size r < n"
    and "indexed (\<lambda>a. t_heap_index (ths a)) i (Node l x r)"
  shows "finishes (sift_then n x) (put_sift (\<lambda>a. t_due (ths a))) (Node l x r) i ths"
  unfolding finishes_def
proof (intro allI impI)
  fix z p s
  let ?sub = "Node l x r"
  assume z: "z \<notin> set_tree ?sub" and own: "link_owner p \<inter> insert z (set_tree ?sub) = {}"
    and tree: "is_tree s (read_link s p) ?sub" and same: "\<forall>a \<in> set_tree ?sub. threads s a = ths a"
    and cores: "\<forall>a. core (threads s a) = core (ths a)"
  define s3 where "s3 = upd z (\<lambda>th. th\<lparr>t_left := t_left (threads s x), t_right := t_right (threads s x)\<rparr>) (heap_place z p i s)"
  have "z \<notin> link_owner p" "x \<noteq> z" "x \<notin> link_owner p" using z own by auto
  note s3 = heap_place_then [OF this, where s = s and i = i, folded s3_def]
  have lr: "set_tree u \<inter> {z} = {}" "set_tree u \<inter> link_owner p = {}" "indexed (index_of s) m u = indexed (\<lambda>a. t_heap_index (ths a)) m u"
    if "u \<in> {l, r}" for u m
    using that z own same by (auto intro!: indexed_cong)
  have keep: "is_tree s3 q u = is_tree s q u" "indexed (index_of s3) m u = indexed (index_of s) m u" if "u \<in> {l, r}" for q u m
    using frame_tree [OF s3(3) lr(1,2) [OF that]] by blast+
  have due3: "due_of s3 = (\<lambda>a. t_due (ths a))" using frame_due [OF s3(3)] cores core_due by metis
  have tree3: "is_tree s3 (read_link s3 p) (Node l z r)" "indexed (index_of s3) i (Node l z r)"
    using s3(2,4-6) keep tree lr(3) assms(4) by auto
  have rest3: "distinct (inorder (Node l z r))" "link_owner p \<inter> set_tree (Node l z r) = {}" "left_first (Node l z r)"
    using assms(1,2) z own by auto
  obtain s' where s': "heap_sift_loop n z p s3 = Some s'" "is_tree s' (read_link s' p) (tree_sift (\<lambda>a. t_due (ths a)) z l r)"
      "indexed (index_of s') i (tree_sift (\<lambda>a. t_due (ths a)) z l r)" "heap_frame (set_tree (Node l z r)) p s3 s'"
    using heap_sift_tree [OF tree3(1) rest3 tree3(2) assms(3)] due3 by auto
  have "heap_frame (insert z (set_tree ?sub)) p s s'"
    by (rule frame_trans_same [OF s3(3) s'(4)]) auto
  then show "\<exists>s'. sift_then n x z p i s = Some s' \<and> is_tree s' (read_link s' p) (put_sift (\<lambda>a. t_due (ths a)) z ?sub) \<and>
     indexed (index_of s') i (put_sift (\<lambda>a. t_due (ths a)) z ?sub) \<and>
     set_tree (put_sift (\<lambda>a. t_due (ths a)) z ?sub) \<subseteq> insert z (set_tree ?sub) \<and>
     heap_frame (insert z (set_tree ?sub)) p s s'"
    using s3(1) s' by (auto simp: set_sift)
qed

definition heap_unlink :: "tid \<Rightarrow> st_vp \<Rightarrow> st_vp" where
  "heap_unlink x s = upd x (\<lambda>th. th\<lparr>t_left := None, t_right := None\<rparr>) s"

lemma heap_delete_then:
  assumes "heap_walk (heap_path (sleepq_size s)) SleepqLink s = Some p" and "read_link s p = Some y"
  defines "s1 \<equiv> (write_link p None s)\<lparr>sleepq_size := sleepq_size s - 1\<rparr>"
  shows "heap_delete x s =
    (if y = x then Some (heap_unlink x s1)
     else map_option (heap_unlink x) (insert_then (sift_then (Suc (sleepq_size s)) x) (heap_path (index_of s1 x))
       y SleepqLink 1 (upd y (\<lambda>th. th\<lparr>t_heap_index := index_of s1 x\<rparr>) s1)))"
  using assms
  by (simp add: heap_delete_def heap_insert_at_def insert_then_def sift_then_def heap_unlink_def Let_def upd_def
      split: option.split)

lemma size_subtree: "size (subtree_at t p) \<le> size t"
  by (induction t p rule: subtree_at.induct) auto

lemma distinct_subtree: "distinct (inorder t) \<Longrightarrow> distinct (inorder (subtree_at t p))"
  by (induction t p rule: subtree_at.induct) auto

lemma left_adjusted_size: "left_adjusted n t \<Longrightarrow> size t = n"
proof (induction n arbitrary: t)
  case 0
  then show ?case using left_adjusted_empty by auto
next
  case (Suc n)
  obtain y where last: "subtree_at t (heap_path (Suc n)) = Node Leaf y Leaf"
    using left_adjusted_last [OF Suc.prems] by auto
  note cut = left_adjusted_cut [OF Suc.prems _ last]
  have "size t = Suc (size (tree_cut (heap_path (Suc n)) t))"
    using arg_cong [OF cut(2), of size] by (simp add: size_mset_tree)
  then show ?case using Suc.IH cut(1) by simp
qed

text \<open>The last element, cut off, is put in the place of \<open>x\<close>.\<close>

lemma heap_delete_moved:
  assumes c: "is_tree s (sleep_q s) c" and distc: "distinct (inorder c)" and adj: "left_adjusted m c"
    and idx: "indexed (index_of s) 1 c" and xc: "x \<in> set_tree c" and y: "y \<notin> set_tree c" and n: "m < n"
  shows "\<exists>s'. insert_then (sift_then (Suc n) x) (heap_path (index_of s x)) y SleepqLink 1
      (upd y (\<lambda>th. th\<lparr>t_heap_index := index_of s x\<rparr>) s) = Some s' \<and>
    is_tree s' (sleep_q s') (tree_put (due_of s) (put_sift (due_of s)) (heap_path (index_of s x)) y c) \<and>
    indexed (index_of s') 1 (tree_put (due_of s) (put_sift (due_of s)) (heap_path (index_of s x)) y c) \<and>
    sleepq_size s' = sleepq_size s \<and> (\<forall>a. core (threads s' a) = core (threads s a)) \<and> vp_rest s' = vp_rest s"
proof -
  let ?p = "heap_path (index_of s x)"
  define s2 where "s2 = upd y (\<lambda>th. th\<lparr>t_heap_index := index_of s x\<rparr>) s"
  have same: "threads s2 a = threads s a" if "a \<in> set_tree c" for a using that y by (auto simp: s2_def upd_def)
  have c2: "is_tree s2 (sleep_q s2) c" "indexed (index_of s2) 1 c"
    using tree_same(1,2) [OF same] c idx by (simp_all add: s2_def upd_def)
  have core2: "core (threads s2 a) = core (threads s a)" for a by (auto simp: s2_def upd_def)
  then have due2: "due_of s2 = due_of s" using core_due by blast
  have i2x: "index_of s2 x = index_of s x" using same [OF xc] by simp
  obtain l r where at: "subtree_at c ?p = Node l x r" using indexed_at [OF c2(2) xc] i2x by auto
  have sub: "left_first (Node l x r)" "distinct (inorder (Node l x r))" "indexed (index_of s2) (node_num 1 ?p) (Node l x r)"
    using left_first_subtree [OF left_adjusted_left_first [OF adj], of ?p] distinct_subtree [OF distc, of ?p]
      indexed_subtree [OF c2(2), of ?p] by (simp_all only: at)
  have "size l + size r < Suc n"
    using size_subtree [of c ?p] at left_adjusted_size [OF adj] n by simp
  note fin = finishes_sift [OF sub(1,2) this, of "threads s2", OF sub(3)]
  have reach: "reaches c ?p" using reaches_subtree [of c] at by simp
  let ?t = "tree_put (due_of s) (put_sift (due_of s)) ?p y c"
  obtain s3 where s3: "insert_then (sift_then (Suc n) x) ?p y SleepqLink 1 s2 = Some s3"
      "is_tree s3 (sleep_q s3) ?t" "indexed (index_of s3) 1 ?t" "heap_frame (insert y (set_tree c)) SleepqLink s2 s3"
    using insert_then_tree [of s2 SleepqLink c y ?p 1 "sift_then (Suc n) x" "put_sift (due_of s2)"]
      c2 distc y reach fin at due2 by auto
  have "vp_rest s3 = vp_rest s" "\<forall>a. core (threads s3 a) = core (threads s a)"
    using s3(4) core2 by (simp_all add: heap_frame_def) (simp add: s2_def upd_def vp_rest_def)
  then show ?thesis using s3 frame_size [OF s3(4)] by (simp add: s2_def) (simp add: upd_def)
qed

lemma heap_delete_ok:
  assumes t: "sleepq_tree s t" and x: "x \<in> set_tree t"
  shows "\<exists>s'. heap_delete x s = Some s' \<and> sleepq_tree s' (tree_delete (due_of s) (index_of s) (sleepq_size s) x t) \<and>
    sleepq_change x id s s'"
proof -
  let ?n = "sleepq_size s" and ?t = "tree_delete (due_of s) (index_of s) (sleepq_size s) x t"
  have tree: "is_tree s (sleep_q s) t" and dist: "distinct (inorder t)" and adj: "left_adjusted ?n t"
    and idx: "indexed (index_of s) 1 t" and heap: "heap_ordered (due_of s) t"
    using t by (simp_all add: sleepq_tree_def)
  have n: "0 < ?n" using left_adjusted_empty [OF adj] x by (cases t) auto
  obtain y where last: "subtree_at t (heap_path ?n) = Node Leaf y Leaf" using left_adjusted_last [OF adj n] by blast
  let ?c = "tree_cut (heap_path ?n) t"
  note cut = left_adjusted_cut [OF adj n last]
  have reach: "reaches t (heap_path ?n)" using reaches_subtree [of t] last by simp
  obtain p where p: "heap_walk (heap_path ?n) SleepqLink s = Some p" "read_link s p = Some y"
      "is_tree (write_link p None s) (sleep_q (write_link p None s)) ?c"
    using heap_walk_tree [of s SleepqLink t "heap_path ?n" 1] tree dist reach idx last by auto
  define s1 where "s1 = (write_link p None s)\<lparr>sleepq_size := ?n - 1\<rparr>"
  have s1: "threads s1 = threads (write_link p None s)" "sleep_q s1 = sleep_q (write_link p None s)"
    "sleepq_size s1 = ?n - 1" by (simp_all add: s1_def)
  note run = heap_delete_then [OF p(1,2), of x, folded s1_def]
  have idx1: "index_of s1 = index_of s" and core1: "core (threads s1 a) = core (threads s a)" for a
    by (simp_all add: s1(1))
  have rest1: "(vp_rest s1)\<lparr>sleepq_size := 0\<rparr> = (vp_rest s)\<lparr>sleepq_size := 0\<rparr>"
    using arg_cong [OF rest_write_link [of p None s], of "\<lambda>u. u\<lparr>sleepq_size := 0\<rparr>"] by (simp add: s1_def vp_rest_def)
  have c1: "is_tree s1 (sleep_q s1) ?c" using p(3) is_tree_cong [of ?c s1 "write_link p None s"] s1 by simp
  have m: "add_mset y (mset_tree ?c) = mset_tree t" by (rule cut(2))
  have dc: "distinct (y # inorder ?c)"
    using dist mset_eq_imp_distinct_iff [of "y # inorder ?c" "inorder t"] m by (simp add: mset_inorder)
  have y: "y \<notin> set_tree ?c" and distc: "distinct (inorder ?c)" using dc by auto
  note result = tree_delete_ok [OF adj idx x heap]
  have x': "x \<notin> set_tree ?t" and dist': "distinct (inorder ?t)"
    using dist mset_eq_imp_distinct_iff [of "x # inorder ?t" "inorder t"] result(1) by (simp_all add: mset_inorder)
  have unlinked: "is_tree (heap_unlink x u) q v = is_tree u q v" if "x \<notin> set_tree v" for u q v
    using that by (intro is_tree_cong) (auto simp: heap_unlink_def upd_def)
  have unlinked': "index_of (heap_unlink x u) = index_of u" "due_of (heap_unlink x u) = due_of u"
    "sleepq_size (heap_unlink x u) = sleepq_size u" "sleep_q (heap_unlink x u) = sleep_q u"
    "core (threads (heap_unlink x u) a) = core (threads u a)" "vp_rest (heap_unlink x u) = vp_rest u" for u a
    by (auto simp: heap_unlink_def upd_def vp_rest_def core_def)
  have *: "\<exists>s2. heap_delete x s = Some (heap_unlink x s2) \<and> is_tree s2 (sleep_q s2) ?t \<and> indexed (index_of s2) 1 ?t \<and>
    sleepq_size s2 = ?n - 1 \<and> (\<forall>a. core (threads s2 a) = core (threads s a)) \<and>
    (vp_rest s2)\<lparr>sleepq_size := 0\<rparr> = (vp_rest s)\<lparr>sleepq_size := 0\<rparr>"
  proof (cases "y = x")
    case True
    then have "?t = ?c" by (simp add: tree_delete_def last)
    then show ?thesis using True run c1 s1(3) core1 rest1 idx1 indexed_cut [OF idx, of "heap_path ?n"] by auto
  next
    case False
    have eq: "?t = tree_put (due_of s) (put_sift (due_of s)) (heap_path (index_of s x)) y ?c"
      using False by (simp add: tree_delete_def last)
    have "x \<in> set_tree ?c" using arg_cong [OF m, of set_mset] x False by auto
    moreover have "indexed (index_of s1) 1 ?c" using indexed_cut [OF idx, of "heap_path ?n"] idx1 by simp
    moreover have "due_of s1 = due_of s" using core1 core_due by blast
    moreover have "?n - 1 < ?n" using n by simp
    ultimately obtain s3 where s3: "insert_then (sift_then (Suc ?n) x) (heap_path (index_of s1 x)) y SleepqLink 1
          (upd y (\<lambda>th. th\<lparr>t_heap_index := index_of s1 x\<rparr>) s1) = Some s3"
        "is_tree s3 (sleep_q s3) ?t" "indexed (index_of s3) 1 ?t" "sleepq_size s3 = sleepq_size s1"
        "\<forall>a. core (threads s3 a) = core (threads s1 a)" "vp_rest s3 = vp_rest s1"
      using heap_delete_moved [OF c1 distc cut(1) _ _ y, of x ?n] eq fun_cong [OF idx1, of x] by auto
    then show ?thesis using run False core1 rest1 s1(3) by auto
  qed
  then obtain s2 where s2: "heap_delete x s = Some (heap_unlink x s2)" "is_tree s2 (sleep_q s2) ?t" "indexed (index_of s2) 1 ?t"
    "sleepq_size s2 = ?n - 1" "\<forall>a. core (threads s2 a) = core (threads s a)"
    "(vp_rest s2)\<lparr>sleepq_size := 0\<rparr> = (vp_rest s)\<lparr>sleepq_size := 0\<rparr>" by blast
  have "due_of s2 = due_of s" using s2(5) core_due by blast
  then have "sleepq_tree (heap_unlink x s2) ?t"
    using s2 result(2,3) dist' x' by (simp add: sleepq_tree_def unlinked unlinked')
  moreover have "sleepq_change x id s (heap_unlink x s2)"
    using s2(5,6) by (simp add: sleepq_change_def unlinked')
  ultimately show ?thesis using s2(1) by blast
qed

lemma core_off: "core t = core t' \<Longrightarrow> core (t\<lparr>t_on_sleepq := False\<rparr>) = core (t'\<lparr>t_on_sleepq := False\<rparr>)"
  by (cases t; cases t') (simp add: core_def)

lemma del_sleep_q_ok:
  assumes "sleepq_holds s A" and "x \<in> A"
  shows "\<exists>s'. st_del_sleep_q x s = Some s' \<and> sleepq_holds s' (A - {x}) \<and>
    sleepq_change x (\<lambda>t. t\<lparr>t_on_sleepq := False\<rparr>) s s'"
proof -
  obtain t where t: "sleepq_tree s t" "set_tree t = A" using assms(1) by (auto simp: sleepq_holds_def)
  let ?t = "tree_delete (due_of s) (index_of s) (sleepq_size s) x t"
  obtain s1 where s1: "heap_delete x s = Some s1" "sleepq_tree s1 ?t" "sleepq_change x id s s1"
    using heap_delete_ok [OF t(1)] assms(2) t(2) by auto
  define s' where "s' = upd x (\<lambda>th. th\<lparr>t_on_sleepq := False\<rparr>) s1"
  have m: "add_mset x (mset_tree ?t) = mset_tree t"
    using tree_delete_ok(1) [of "sleepq_size s" t "index_of s" x "due_of s"] t assms(2) by (simp add: sleepq_tree_def)
  have "distinct (x # inorder ?t)"
    using t(1) m mset_eq_imp_distinct_iff [of "x # inorder ?t" "inorder t"] by (simp add: mset_inorder sleepq_tree_def)
  then have x: "x \<notin> set_tree ?t" by simp
  then have "set_tree ?t = A - {x}" using arg_cong [OF m, of set_mset] t(2) by auto
  moreover have "sleepq_tree s' ?t"
  proof -
    have "threads s' a = threads s1 a" if "a \<in> set_tree ?t" for a using that x by (auto simp: s'_def upd_def)
    note tree_same [OF this]
    then show ?thesis using s1(2) by (simp add: sleepq_tree_def) (simp add: s'_def upd_def)
  qed
  moreover have "sleepq_change x (\<lambda>t. t\<lparr>t_on_sleepq := False\<rparr>) s s'"
  proof -
    have core: "core (threads s1 a) = core (threads s a)" for a using s1(3) by (simp add: sleepq_change_def)
    have "core (threads s' a) = core ((if a = x then \<lambda>t. t\<lparr>t_on_sleepq := False\<rparr> else id) (threads s a))" for a
      using core_off [OF core [of x]] core [of a] by (auto simp: s'_def upd_def)
    moreover have "vp_rest s' = vp_rest s1" by (simp add: s'_def upd_def vp_rest_def)
    ultimately show ?thesis using s1(3) unfolding sleepq_change_def by simp
  qed
  ultimately show ?thesis using s1(1) unfolding sleepq_holds_def st_del_sleep_q_def s'_def by auto
qed

lemma sleepq_first:
  assumes "sleepq_holds s A"
  shows "sleep_q s = None \<longleftrightarrow> A = {}" and "sleep_q s = Some x \<Longrightarrow> x \<in> A"
    and "sleep_q s = Some x \<Longrightarrow> a \<in> A \<Longrightarrow> due_of s x \<le> due_of s a"
proof -
  obtain t where "is_tree s (sleep_q s) t" "heap_ordered (due_of s) t" "set_tree t = A"
    using assms by (auto simp: sleepq_holds_def sleepq_tree_def)
  then show "sleep_q s = None \<longleftrightarrow> A = {}" "sleep_q s = Some x \<Longrightarrow> x \<in> A"
    "sleep_q s = Some x \<Longrightarrow> a \<in> A \<Longrightarrow> due_of s x \<le> due_of s a"
    by (cases t; auto)+
qed

lemma sleepq_holds_card: "sleepq_holds s A \<Longrightarrow> finite A \<and> card A = sleepq_size s"
proof -
  assume "sleepq_holds s A"
  then obtain t where t: "distinct (inorder t)" "left_adjusted (sleepq_size s) t" "set_tree t = A"
    by (auto simp: sleepq_holds_def sleepq_tree_def)
  then show ?thesis
    using distinct_card [OF t(1)] left_adjusted_size [OF t(2)] by (auto simp: length_inorder)
qed

text \<open>The sleep queue depends on the links, the index and the due time of the threads only.\<close>

definition same_links :: "st_thread \<Rightarrow> st_thread \<Rightarrow> bool" where
  "same_links t t' \<longleftrightarrow> t_left t = t_left t' \<and> t_right t = t_right t' \<and> t_heap_index t = t_heap_index t' \<and> t_due t = t_due t'"

lemma sleepq_holds_cong:
  assumes "\<And>a. a \<in> A \<Longrightarrow> same_links (threads s' a) (threads s a)" and "sleep_q s' = sleep_q s"
    and "sleepq_size s' = sleepq_size s"
  shows "sleepq_holds s A \<Longrightarrow> sleepq_holds s' A"
proof -
  have "is_tree s' q t = is_tree s q t" if "set_tree t \<subseteq> A" for q t
    using that assms(1) by (induction t arbitrary: q) (auto simp: same_links_def)
  moreover have "indexed (index_of s') n t = indexed (index_of s) n t" if "set_tree t \<subseteq> A" for n t
    by (rule indexed_cong) (use that assms(1) in \<open>auto simp: same_links_def\<close>)
  moreover have "heap_ordered (due_of s') t = heap_ordered (due_of s) t" if "set_tree t \<subseteq> A" for t
    by (rule heap_ordered_cong) (use that assms(1) in \<open>auto simp: same_links_def\<close>)
  ultimately show "sleepq_holds s A \<Longrightarrow> sleepq_holds s' A"
    using assms(2,3) unfolding sleepq_holds_def sleepq_tree_def by fastforce
qed

lemma sleepq_holds_empty: "sleep_q s = None \<Longrightarrow> sleepq_size s = 0 \<Longrightarrow> sleepq_holds s {}"
  unfolding sleepq_holds_def sleepq_tree_def
  by (intro exI [of _ Leaf]) (auto simp: left_adjusted_def node_num_pos intro!: node_num_pos)

end
