(* ===== verification/St_Threads.thy ===== *)
theory St_Threads
  imports St_Sleepq_Correct
begin

text \<open>
  The queues of the virtual processor and the invariant of the thread library: every thread is on
  exactly the queues its state says, and waits where its saved context says. The lemmas say how
  the parts of the invariant change when one thread changes.
\<close>

section \<open>Making threads runnable\<close>

definition set_state :: "tid \<Rightarrow> st_state \<Rightarrow> st_vp \<Rightarrow> st_vp" where
  "set_state a st s = upd a (\<lambda>t. t\<lparr>t_state := st\<rparr>) s"

definition set_context :: "tid \<Rightarrow> st_context \<Rightarrow> st_vp \<Rightarrow> st_vp" where
  "set_context a c s = upd a (\<lambda>t. t\<lparr>t_context := c\<rparr>) s"

text \<open>\<^verbatim>\<open>_ST_ADD_RUNQ\<close> with the new state, as it stands in all places that wake a thread.\<close>

definition make_runnable :: "tid \<Rightarrow> st_vp \<Rightarrow> st_vp" where
  "make_runnable a s = (set_state a RUNNABLE s)\<lparr>run_q := run_q s @ [a]\<rparr>"

definition leave_sleep_q :: "tid \<Rightarrow> st_vp \<Rightarrow> st_vp option" where
  "leave_sleep_q a s = (if t_on_sleepq (threads s a) then st_del_sleep_q a s else Some s)"

definition wake_up :: "tid \<Rightarrow> st_vp \<Rightarrow> st_vp option" where
  "wake_up a s = map_option (make_runnable a) (leave_sleep_q a s)"

section \<open>The invariant\<close>

definition live :: "st_vp \<Rightarrow> tid set" where
  "live s = set (thread_q s)"

definition view :: "st_vp \<Rightarrow> tid \<Rightarrow> st_thread" where
  "view s a = core (threads s a)"

definition exactly :: "'a list \<Rightarrow> 'a set \<Rightarrow> bool" where
  "exactly q A \<longleftrightarrow> distinct q \<and> set q = A"

fun waits_cond :: "st_context \<Rightarrow> nat option" where
  "waits_cond (In_cond c) = Some c"
| "waits_cond (In_join c a) = Some c"
| "waits_cond _ = None"

fun waits_mutex :: "st_context \<Rightarrow> nat option" where
  "waits_mutex (In_lock m) = Some m"
| "waits_mutex _ = None"

lemma waits_mutex_In_lock: "waits_mutex c = Some m \<longleftrightarrow> c = In_lock m"
  by (cases c) auto

text \<open>The states a thread can be in at each place, besides running and being on the run queue.\<close>

fun waiting_states :: "st_context \<Rightarrow> st_state set" where
  "waiting_states In_user = {}"
| "waiting_states In_idle = {}"
| "waiting_states In_poll = {IO_WAIT}"
| "waiting_states In_usleep = {SLEEPING, SUSPENDED}"
| "waiting_states (In_cond c) = {COND_WAIT}"
| "waiting_states (In_join c a) = {COND_WAIT}"
| "waiting_states (In_lock m) = {LOCK_WAIT}"
| "waiting_states In_exit = {ZOMBIE}"
| "waiting_states In_gone = {}"

definition fits :: "st_thread \<Rightarrow> bool" where
  "fits t \<longleftrightarrow> t_state t \<in> {RUNNING, RUNNABLE} \<union> waiting_states (t_context t) \<and>
     (t_on_sleepq t \<longrightarrow> t_state t \<in> {IO_WAIT, COND_WAIT, SLEEPING}) \<and>
     (t_state t = SLEEPING \<longrightarrow> t_on_sleepq t) \<and>
     (t_idle_thread t \<longleftrightarrow> t_context t = In_idle) \<and> t_context t \<noteq> In_gone"

definition on_run :: "st_thread \<Rightarrow> bool" where
  "on_run t \<longleftrightarrow> t_state t = RUNNABLE \<and> \<not> t_idle_thread t"

definition on_io :: "st_thread \<Rightarrow> bool" where
  "on_io t \<longleftrightarrow> t_context t = In_poll \<and> pq_on_ioq (t_pollq t)"

definition threads_fit :: "tid option \<Rightarrow> tid \<Rightarrow> tid set \<Rightarrow> (tid \<Rightarrow> st_thread) \<Rightarrow> bool" where
  "threads_fit r idle L v \<longleftrightarrow> idle \<in> L \<and>
     (\<forall>a \<in> L. fits (v a) \<and> (t_state (v a) = RUNNING \<longleftrightarrow> r = Some a) \<and> (t_idle_thread (v a) \<longleftrightarrow> a = idle))"

definition queue_fits :: "(st_thread \<Rightarrow> bool) \<Rightarrow> tid set \<Rightarrow> (tid \<Rightarrow> st_thread) \<Rightarrow> tid list \<Rightarrow> bool" where
  "queue_fits P L v q \<longleftrightarrow> exactly q {a \<in> L. P (v a)}"

text \<open>Nobody waits on an object that does not exist.\<close>

definition cond_q :: "(nat \<Rightarrow> tid list option) \<Rightarrow> nat \<Rightarrow> tid list" where
  "cond_q cs c = (case cs c of None \<Rightarrow> [] | Some q \<Rightarrow> q)"

definition conds_fit :: "tid set \<Rightarrow> (tid \<Rightarrow> st_thread) \<Rightarrow> (nat \<Rightarrow> tid list option) \<Rightarrow> bool" where
  "conds_fit L v cs \<longleftrightarrow> (\<forall>c. queue_fits (\<lambda>t. waits_cond (t_context t) = Some c) L v (cond_q cs c))"

text \<open>
  A thread that still waits for a mutex finds it taken; one that waits no more either was given it
  or was interrupted.
\<close>

definition handed :: "tid \<Rightarrow> st_thread \<Rightarrow> st_mutex \<Rightarrow> bool" where
  "handed a t mx \<longleftrightarrow>
     (if t_state t = LOCK_WAIT then mx_owner mx \<noteq> None else mx_owner mx = Some a \<or> t_interrupt t)"

definition mutex_fits :: "nat \<Rightarrow> tid set \<Rightarrow> (tid \<Rightarrow> st_thread) \<Rightarrow> st_mutex \<Rightarrow> bool" where
  "mutex_fits m L v mx \<longleftrightarrow> queue_fits (\<lambda>t. t_context t = In_lock m) L v (mx_wait_q mx) \<and>
     (\<forall>a \<in> L. t_context (v a) = In_lock m \<longrightarrow> handed a (v a) mx)"

definition mutex_at :: "(nat \<Rightarrow> st_mutex option) \<Rightarrow> nat \<Rightarrow> st_mutex" where
  "mutex_at ms m = (case ms m of None \<Rightarrow> \<lparr>mx_owner = None, mx_wait_q = []\<rparr> | Some mx \<Rightarrow> mx)"

definition mutexes_fit :: "tid set \<Rightarrow> (tid \<Rightarrow> st_thread) \<Rightarrow> (nat \<Rightarrow> st_mutex option) \<Rightarrow> bool" where
  "mutexes_fit L v ms \<longleftrightarrow> (\<forall>m. mutex_fits m L v (mutex_at ms m))"

text \<open>No stack of a live thread is on the list of free stacks, and new names are new.\<close>

definition stacks_fit :: "tid list \<Rightarrow> tid list \<Rightarrow> nat \<Rightarrow> bool" where
  "stacks_fit q fs n \<longleftrightarrow> distinct q \<and> distinct fs \<and> set q \<inter> set fs = {} \<and> (\<forall>a \<in> set q \<union> set fs. a < n)"

definition sleepers :: "tid set \<Rightarrow> (tid \<Rightarrow> st_thread) \<Rightarrow> tid set" where
  "sleepers L v = {a \<in> L. t_on_sleepq (v a)}"

text \<open>\<open>r\<close> is the thread that has the processor, if any.\<close>

definition vp_inv :: "tid option \<Rightarrow> st_vp \<Rightarrow> bool" where
  "vp_inv r s \<longleftrightarrow>
     threads_fit r (idle_thread s) (live s) (view s) \<and>
     queue_fits on_run (live s) (view s) (run_q s) \<and>
     queue_fits on_io (live s) (view s) (io_q s) \<and>
     queue_fits (\<lambda>t. t_state t = ZOMBIE) (live s) (view s) (zombie_q s) \<and>
     conds_fit (live s) (view s) (conds s) \<and> mutexes_fit (live s) (view s) (mutexes s) \<and>
     sleepq_holds s (sleepers (live s) (view s)) \<and>
     stacks_fit (thread_q s) (map fst (free_stacks s)) (next_obj s)"

section \<open>The view after an update\<close>

lemma core_update [simp]:
  "core (t\<lparr>t_state := a\<rparr>) = (core t)\<lparr>t_state := a\<rparr>" "core (t\<lparr>t_context := b\<rparr>) = (core t)\<lparr>t_context := b\<rparr>"
  "core (t\<lparr>t_interrupt := c\<rparr>) = (core t)\<lparr>t_interrupt := c\<rparr>" "core (t\<lparr>t_timedout := d\<rparr>) = (core t)\<lparr>t_timedout := d\<rparr>"
  "core (t\<lparr>t_on_sleepq := e\<rparr>) = (core t)\<lparr>t_on_sleepq := e\<rparr>" "core (t\<lparr>t_pollq := f\<rparr>) = (core t)\<lparr>t_pollq := f\<rparr>"
  "core (t\<lparr>t_retval := g\<rparr>) = (core t)\<lparr>t_retval := g\<rparr>" "core (t\<lparr>t_private_data := h\<rparr>) = (core t)\<lparr>t_private_data := h\<rparr>"
  "core (t\<lparr>t_term := i\<rparr>) = (core t)\<lparr>t_term := i\<rparr>" "core (t\<lparr>t_due := j\<rparr>) = (core t)\<lparr>t_due := j\<rparr>"
  "core (t\<lparr>t_joined := k\<rparr>) = (core t)\<lparr>t_joined := k\<rparr>"
  by (cases t; simp add: core_def)+

lemma core_select [simp]:
  "t_pollq (core t) = t_pollq t" "t_idle_thread (core t) = t_idle_thread t" "t_term (core t) = t_term t"
  "t_retval (core t) = t_retval t" "t_private_data (core t) = t_private_data t" "core (core t) = core t"
  by (simp_all add: core_def)

lemma view_upd [simp]: "view (upd x f s) = (view s)(x := core (f (threads s x)))"
  by (auto simp: view_def upd_def)

lemma view_sleepq_change: "sleepq_change x f s s' \<Longrightarrow> view s' = (view s)(x := core (f (threads s x)))"
  by (auto simp: sleepq_change_def view_def)

lemma sleepq_change_same:
  assumes "sleepq_change x f s s'"
  shows "idle_thread s' = idle_thread s" "last_clock s' = last_clock s" "run_q s' = run_q s" "io_q s' = io_q s"
    "zombie_q s' = zombie_q s" "thread_q s' = thread_q s" "this_thread s' = this_thread s"
    "active_count s' = active_count s" "conds s' = conds s" "mutexes s' = mutexes s"
    "free_stacks s' = free_stacks s" "next_obj s' = next_obj s" "ep s' = ep s" "vp_errno s' = vp_errno s"
    "key_max s' = key_max s" "destructors s' = destructors s" "destroyed s' = destroyed s" "pagesize s' = pagesize s"
    "curr_time s' = curr_time s" "last_tset s' = last_tset s" "live s' = live s" "stack_size s' = stack_size s"
proof -
  have eq: "(vp_rest s')\<lparr>sleepq_size := 0\<rparr> = (vp_rest s)\<lparr>sleepq_size := 0\<rparr>" using assms by (simp add: sleepq_change_def)
  show "idle_thread s' = idle_thread s" using arg_cong [OF eq, of idle_thread] by (simp add: vp_rest_def)
  show "last_clock s' = last_clock s" using arg_cong [OF eq, of last_clock] by (simp add: vp_rest_def)
  show "run_q s' = run_q s" using arg_cong [OF eq, of run_q] by (simp add: vp_rest_def)
  show "io_q s' = io_q s" using arg_cong [OF eq, of io_q] by (simp add: vp_rest_def)
  show "zombie_q s' = zombie_q s" using arg_cong [OF eq, of zombie_q] by (simp add: vp_rest_def)
  show *: "thread_q s' = thread_q s" using arg_cong [OF eq, of thread_q] by (simp add: vp_rest_def)
  show "this_thread s' = this_thread s" using arg_cong [OF eq, of this_thread] by (simp add: vp_rest_def)
  show "active_count s' = active_count s" using arg_cong [OF eq, of active_count] by (simp add: vp_rest_def)
  show "conds s' = conds s" using arg_cong [OF eq, of conds] by (simp add: vp_rest_def)
  show "mutexes s' = mutexes s" using arg_cong [OF eq, of mutexes] by (simp add: vp_rest_def)
  show "free_stacks s' = free_stacks s" using arg_cong [OF eq, of free_stacks] by (simp add: vp_rest_def)
  show "next_obj s' = next_obj s" using arg_cong [OF eq, of next_obj] by (simp add: vp_rest_def)
  show "ep s' = ep s" using arg_cong [OF eq, of ep] by (simp add: vp_rest_def)
  show "vp_errno s' = vp_errno s" using arg_cong [OF eq, of vp_errno] by (simp add: vp_rest_def)
  show "key_max s' = key_max s" using arg_cong [OF eq, of key_max] by (simp add: vp_rest_def)
  show "destructors s' = destructors s" using arg_cong [OF eq, of destructors] by (simp add: vp_rest_def)
  show "destroyed s' = destroyed s" using arg_cong [OF eq, of destroyed] by (simp add: vp_rest_def)
  show "pagesize s' = pagesize s" using arg_cong [OF eq, of pagesize] by (simp add: vp_rest_def)
  show "curr_time s' = curr_time s" using arg_cong [OF eq, of curr_time] by (simp add: vp_rest_def)
  show "last_tset s' = last_tset s" using arg_cong [OF eq, of last_tset] by (simp add: vp_rest_def)
  show "live s' = live s" by (simp add: live_def *)
  show "stack_size s' = stack_size s" using arg_cong [OF eq, of stack_size] by (simp add: vp_rest_def)
qed

section \<open>The parts of the invariant when one thread changes\<close>

lemma queue_same: "P t' = P (v x) \<Longrightarrow> queue_fits P L (v(x := t')) q = queue_fits P L v q"
proof -
  assume "P t' = P (v x)"
  then have "{a \<in> L. P ((v(x := t')) a)} = {a \<in> L. P (v a)}" by auto
  then show ?thesis by (simp add: queue_fits_def)
qed

lemma queue_append:
  "queue_fits P L v q \<Longrightarrow> \<not> P (v x) \<Longrightarrow> P t' \<Longrightarrow> x \<in> L \<Longrightarrow> queue_fits P L (v(x := t')) (q @ [x])"
  by (auto simp: queue_fits_def exactly_def)

lemma queue_remove: "queue_fits P L v q \<Longrightarrow> \<not> P t' \<Longrightarrow> queue_fits P L (v(x := t')) (remove1 x q)"
  by (auto simp: queue_fits_def exactly_def)

lemma cond_q_update [simp]: "cond_q (cs(c \<mapsto> q)) d = (if d = c then q else cond_q cs d)"
  by (simp add: cond_q_def)

lemma cond_q_Some [simp]: "cs c = Some q \<Longrightarrow> cond_q cs c = q"
  by (simp add: cond_q_def)

lemma mutex_at_update [simp]: "mutex_at (ms(m \<mapsto> mx)) n = (if n = m then mx else mutex_at ms n)"
  by (simp add: mutex_at_def)

lemma mutex_at_Some [simp]: "ms m = Some mx \<Longrightarrow> mutex_at ms m = mx"
  by (simp add: mutex_at_def)

lemma conds_same:
  "waits_cond (t_context t') = waits_cond (t_context (v x)) \<Longrightarrow> conds_fit L (v(x := t')) cs = conds_fit L v cs"
  unfolding conds_fit_def by (intro all_cong1 queue_same) auto

lemma conds_append:
  assumes "conds_fit L v cs" and "cs c = Some q" and "waits_cond (t_context (v x)) = None"
    and "waits_cond (t_context t') = Some c" and "x \<in> L"
  shows "conds_fit L (v(x := t')) (cs(c \<mapsto> q @ [x]))"
  unfolding conds_fit_def
proof
  fix d
  have "queue_fits (\<lambda>t. waits_cond (t_context t) = Some d) L v (cond_q cs d)" using assms(1) by (simp add: conds_fit_def)
  then show "queue_fits (\<lambda>t. waits_cond (t_context t) = Some d) L (v(x := t')) (cond_q (cs(c \<mapsto> q @ [x])) d)"
    using assms by (cases "d = c") (auto simp: queue_append queue_same)
qed

lemma conds_remove:
  assumes "conds_fit L v cs" and "cs c = Some q" and "waits_cond (t_context (v x)) = Some c"
    and "waits_cond (t_context t') = None"
  shows "conds_fit L (v(x := t')) (cs(c \<mapsto> remove1 x q))"
  unfolding conds_fit_def
proof
  fix d
  have "queue_fits (\<lambda>t. waits_cond (t_context t) = Some d) L v (cond_q cs d)" using assms(1) by (simp add: conds_fit_def)
  then show "queue_fits (\<lambda>t. waits_cond (t_context t) = Some d) L (v(x := t')) (cond_q (cs(c \<mapsto> remove1 x q)) d)"
    using assms by (cases "d = c") (auto simp: queue_remove queue_same)
qed

lemma mutex_update:
  assumes "mutex_fits m L v mx" and "t_context t' = In_lock m \<longleftrightarrow> t_context (v x) = In_lock m"
    and "t_context t' = In_lock m \<Longrightarrow> handed x t' mx"
  shows "mutex_fits m L (v(x := t')) mx"
  using assms queue_same [of "\<lambda>t. t_context t = In_lock m" t' v x L] by (auto simp: mutex_fits_def)

lemma mutexes_update:
  assumes "mutexes_fit L v ms" and "waits_mutex (t_context t') = waits_mutex (t_context (v x))"
    and "\<And>m. t_context t' = In_lock m \<Longrightarrow> handed x t' (mutex_at ms m)"
  shows "mutexes_fit L (v(x := t')) ms"
proof -
  have "t_context t' = In_lock m \<longleftrightarrow> t_context (v x) = In_lock m" for m
    using assms(2) by (metis waits_mutex_In_lock)
  then show ?thesis using assms(1,3) unfolding mutexes_fit_def by (blast intro: mutex_update)
qed

lemma mutexes_same:
  "mutexes_fit L v ms \<Longrightarrow> waits_mutex (t_context t') = None \<Longrightarrow> waits_mutex (t_context (v x)) = None \<Longrightarrow>
   mutexes_fit L (v(x := t')) ms"
  by (rule mutexes_update) (auto simp: waits_mutex_In_lock [symmetric])

lemma threads_update:
  assumes "threads_fit r idle L v" and "fits t'" and "t_idle_thread t' = t_idle_thread (v x)"
    and "r' = (if t_state t' = RUNNING then Some x else if r = Some x then None else r)"
    and "t_state t' = RUNNING \<longrightarrow> r = None \<or> r = Some x" and "x \<in> L"
  shows "threads_fit r' idle L (v(x := t'))"
  using assms unfolding threads_fit_def by (auto split: if_splits)

lemma sleepers_same: "t_on_sleepq t' = t_on_sleepq (v x) \<Longrightarrow> sleepers L (v(x := t')) = sleepers L v"
  by (auto simp: sleepers_def)

lemma sleepers_on: "t_on_sleepq t' \<Longrightarrow> x \<in> L \<Longrightarrow> sleepers L (v(x := t')) = insert x (sleepers L v)"
  by (auto simp: sleepers_def)

lemma sleepers_off: "\<not> t_on_sleepq t' \<Longrightarrow> sleepers L (v(x := t')) = sleepers L v - {x}"
  by (auto simp: sleepers_def)

lemma sleepq_holds_upd:
  assumes "same_links (f (threads s x)) (threads s x)"
  shows "sleepq_holds (upd x f s) A = sleepq_holds s A"
proof -
  have "same_links (threads (upd x f s) a) (threads s a)" "same_links (threads s a) (threads (upd x f s) a)" for a
    using assms by (auto simp: upd_def same_links_def)
  then show ?thesis
    using sleepq_holds_cong [of A "upd x f s" s] sleepq_holds_cong [of A s "upd x f s"] by (auto simp: upd_def)
qed

lemma sleepq_holds_same [simp]:
  "sleepq_holds (s\<lparr>run_q := q\<rparr>) A = sleepq_holds s A" "sleepq_holds (s\<lparr>io_q := q\<rparr>) A = sleepq_holds s A"
  "sleepq_holds (s\<lparr>zombie_q := q\<rparr>) A = sleepq_holds s A" "sleepq_holds (s\<lparr>this_thread := a\<rparr>) A = sleepq_holds s A"
  "sleepq_holds (s\<lparr>conds := cs\<rparr>) A = sleepq_holds s A" "sleepq_holds (s\<lparr>mutexes := ms\<rparr>) A = sleepq_holds s A"
  "sleepq_holds (s\<lparr>vp_errno := e\<rparr>) A = sleepq_holds s A" "sleepq_holds (s\<lparr>ep := p\<rparr>) A = sleepq_holds s A"
  "sleepq_holds (s\<lparr>last_clock := c\<rparr>) A = sleepq_holds s A" "sleepq_holds (s\<lparr>active_count := n\<rparr>) A = sleepq_holds s A"
  "sleepq_holds (s\<lparr>thread_q := q\<rparr>) A = sleepq_holds s A" "sleepq_holds (s\<lparr>free_stacks := fs\<rparr>) A = sleepq_holds s A"
  "sleepq_holds (s\<lparr>next_obj := n'\<rparr>) A = sleepq_holds s A" "sleepq_holds (s\<lparr>destroyed := d\<rparr>) A = sleepq_holds s A"
  "sleepq_holds (s\<lparr>stack_size := z\<rparr>) A = sleepq_holds s A" "sleepq_holds (s\<lparr>curr_time := ct\<rparr>) A = sleepq_holds s A"
  "sleepq_holds (s\<lparr>last_tset := lt\<rparr>) A = sleepq_holds s A"
  by (rule iffI; erule sleepq_holds_cong [rotated -1]; simp add: same_links_def)+

lemma same_links_update [simp]:
  "same_links (t\<lparr>t_state := a\<rparr>) t" "same_links (t\<lparr>t_context := b\<rparr>) t" "same_links (t\<lparr>t_interrupt := c\<rparr>) t"
  "same_links (t\<lparr>t_timedout := d\<rparr>) t" "same_links (t\<lparr>t_pollq := f\<rparr>) t" "same_links (t\<lparr>t_retval := g\<rparr>) t"
  "same_links (t\<lparr>t_private_data := h\<rparr>) t" "same_links (t\<lparr>t_term := i\<rparr>) t"
  "same_links (t\<lparr>t_joined := k\<rparr>) t"
  by (simp_all add: same_links_def)

section \<open>Waking a thread\<close>

text \<open>Everything is as before but the run queue, the sleep queue and the thread objects.\<close>

definition same_outside :: "st_vp \<Rightarrow> st_vp \<Rightarrow> bool" where
  "same_outside s s' \<longleftrightarrow> idle_thread s' = idle_thread s \<and> last_clock s' = last_clock s \<and> io_q s' = io_q s \<and>
     zombie_q s' = zombie_q s \<and> thread_q s' = thread_q s \<and> this_thread s' = this_thread s \<and>
     active_count s' = active_count s \<and> conds s' = conds s \<and> mutexes s' = mutexes s \<and>
     free_stacks s' = free_stacks s \<and> next_obj s' = next_obj s \<and> ep s' = ep s \<and> vp_errno s' = vp_errno s \<and>
     key_max s' = key_max s \<and> destructors s' = destructors s \<and> destroyed s' = destroyed s \<and> live s' = live s \<and>
     pagesize s' = pagesize s"

definition woken :: "st_thread \<Rightarrow> st_thread" where
  "woken t = t\<lparr>t_on_sleepq := False, t_state := RUNNABLE\<rparr>"

definition wakes :: "tid list \<Rightarrow> st_vp \<Rightarrow> st_vp \<Rightarrow> bool" where
  "wakes xs s s' \<longleftrightarrow> view s' = (\<lambda>a. if a \<in> set xs then woken (view s a) else view s a) \<and>
     run_q s' = run_q s @ xs \<and> same_outside s s'"

lemma same_outside_refl: "same_outside s s"
  by (simp add: same_outside_def)

lemma same_outside_trans: "same_outside s s1 \<Longrightarrow> same_outside s1 s2 \<Longrightarrow> same_outside s s2"
  by (simp add: same_outside_def)

lemma woken_woken [simp]: "woken (woken t) = woken t"
  by (cases t) (simp add: woken_def)

lemma wakes_Nil: "wakes [] s s"
  by (simp add: wakes_def same_outside_def)

lemma wakes_append: "wakes xs s s1 \<Longrightarrow> wakes ys s1 s2 \<Longrightarrow> wakes (xs @ ys) s s2"
  by (auto simp: wakes_def intro: same_outside_trans)

lemma same_outside_make_runnable: "same_outside s (make_runnable x s)"
  by (simp add: same_outside_def make_runnable_def set_state_def upd_def live_def)

lemma leave_sleep_q_ok:
  assumes "sleepq_holds s (sleepers (live s) (view s))" and "x \<in> live s"
  shows "\<exists>s'. leave_sleep_q x s = Some s' \<and> sleepq_holds s' (sleepers (live s) (view s) - {x}) \<and>
    view s' = (view s)(x := (view s x)\<lparr>t_on_sleepq := False\<rparr>) \<and> same_outside s s' \<and> run_q s' = run_q s"
proof (cases "t_on_sleepq (view s x)")
  case True
  then have "x \<in> sleepers (live s) (view s)" using assms(2) by (simp add: sleepers_def)
  from del_sleep_q_ok [OF assms(1) this] obtain s' where s': "st_del_sleep_q x s = Some s'"
    "sleepq_holds s' (sleepers (live s) (view s) - {x})" "sleepq_change x (\<lambda>t. t\<lparr>t_on_sleepq := False\<rparr>) s s'" by blast
  then show ?thesis
    using True sleepq_change_same [OF s'(3)] view_sleepq_change [OF s'(3)]
    by (simp add: leave_sleep_q_def same_outside_def view_def)
next
  case False
  then have "x \<notin> sleepers (live s) (view s)" by (simp add: sleepers_def)
  moreover have "view s = (view s)(x := (view s x)\<lparr>t_on_sleepq := False\<rparr>)"
    using False by (auto simp: fun_eq_iff)
  ultimately show ?thesis
    using False assms(1) by (auto simp: leave_sleep_q_def same_outside_refl view_def)
qed

text \<open>The invariant when a waiting thread is woken, with its flag of a timeout set or not.\<close>

lemma woken_fits:
  assumes inv: "vp_inv r s" and x: "x \<in> live s"
    and state: "t_state (view s x) \<in> {IO_WAIT, LOCK_WAIT, COND_WAIT, SLEEPING, SUSPENDED}"
    and lock: "\<And>m. t_context (view s x) = In_lock m \<Longrightarrow> mx_owner (mutex_at (mutexes s) m) = Some x \<or> t_interrupt (view s x)"
    and view: "view s' = (view s)(x := woken ((view s x)\<lparr>t_timedout := b\<rparr>))"
    and run: "run_q s' = run_q s @ [x]" and sleep: "sleepq_holds s' (sleepers (live s) (view s) - {x})"
    and out: "same_outside s s'"
  shows "vp_inv r s'"
proof -
  let ?v = "view s" and ?L = "live s" and ?t = "woken ((view s x)\<lparr>t_timedout := b\<rparr>)"
  have fit: "threads_fit r (idle_thread s) ?L ?v" "queue_fits on_run ?L ?v (run_q s)" "queue_fits on_io ?L ?v (io_q s)"
      "queue_fits (\<lambda>t. t_state t = ZOMBIE) ?L ?v (zombie_q s)" "conds_fit ?L ?v (conds s)" "mutexes_fit ?L ?v (mutexes s)"
    using inv by (simp_all add: vp_inv_def)
  have fx: "fits (view s x)" "r \<noteq> Some x" using fit(1) x state by (auto simp: threads_fit_def)
  have no_idle: "\<not> t_idle_thread (view s x)" using fx(1) state by (auto simp: fits_def)
  have ok: "fits ?t" using fx(1) state by (auto simp: fits_def woken_def)
  have "threads_fit r (idle_thread s) ?L (?v(x := ?t))"
    by (rule threads_update [OF fit(1) ok _ _ _ x]) (use fx(2) in \<open>auto simp: woken_def\<close>)
  moreover have "queue_fits on_run ?L (?v(x := ?t)) (run_q s @ [x])"
    by (rule queue_append [OF fit(2) _ _ x]) (use state no_idle in \<open>auto simp: on_run_def woken_def\<close>)
  moreover have "queue_fits on_io ?L (?v(x := ?t)) (io_q s)"
    using fit(3) by (subst queue_same) (auto simp: on_io_def woken_def)
  moreover have "queue_fits (\<lambda>t. t_state t = ZOMBIE) ?L (?v(x := ?t)) (zombie_q s)"
    using fit(4) state by (subst queue_same) (auto simp: woken_def)
  moreover have "conds_fit ?L (?v(x := ?t)) (conds s)"
    using fit(5) by (subst conds_same) (auto simp: woken_def)
  moreover have "mutexes_fit ?L (?v(x := ?t)) (mutexes s)"
    by (rule mutexes_update [OF fit(6)]) (use lock in \<open>auto simp: woken_def handed_def\<close>)
  moreover have "sleepq_holds s' (sleepers ?L (?v(x := ?t)))"
    using sleep sleepers_off [of ?t ?L ?v x] by (simp add: woken_def)
  moreover have "stacks_fit (thread_q s') (map fst (free_stacks s')) (next_obj s')"
    using inv out by (simp add: vp_inv_def same_outside_def)
  ultimately show ?thesis using out view run unfolding vp_inv_def same_outside_def by metis
qed

lemma wake_up_ok:
  assumes inv: "vp_inv r s" and x: "x \<in> live s"
    and state: "t_state (view s x) \<in> {IO_WAIT, LOCK_WAIT, COND_WAIT, SLEEPING, SUSPENDED}"
    and lock: "\<And>m. t_context (view s x) = In_lock m \<Longrightarrow> mx_owner (mutex_at (mutexes s) m) = Some x \<or> t_interrupt (view s x)"
  shows "\<exists>s'. wake_up x s = Some s' \<and> vp_inv r s' \<and> wakes [x] s s'"
proof -
  obtain s1 where s1: "leave_sleep_q x s = Some s1" "sleepq_holds s1 (sleepers (live s) (view s) - {x})"
      "view s1 = (view s)(x := (view s x)\<lparr>t_on_sleepq := False\<rparr>)" "same_outside s s1" "run_q s1 = run_q s"
    using leave_sleep_q_ok [of s x] inv x by (auto simp: vp_inv_def)
  define s' where "s' = make_runnable x s1"
  have view: "view s' = (view s)(x := woken (view s x))"
    using s1(3) by (auto simp: s'_def make_runnable_def set_state_def woken_def view_def upd_def fun_eq_iff)
  have out: "same_outside s s'"
    using same_outside_trans [OF s1(4) same_outside_make_runnable] by (simp add: s'_def)
  have run: "run_q s' = run_q s @ [x]" using s1(5) by (simp add: s'_def make_runnable_def set_state_def upd_def)
  have "sleepq_holds s' (sleepers (live s) (view s) - {x})"
    using s1(2) by (simp add: s'_def make_runnable_def set_state_def sleepq_holds_upd)
  moreover have "view s' = (view s)(x := woken ((view s x)\<lparr>t_timedout := t_timedout (view s x)\<rparr>))"
    using view by simp
  ultimately have "vp_inv r s'" using woken_fits [OF inv x state lock _ run _ out] by blast
  moreover have "wakes [x] s s'" using view run out by (auto simp: wakes_def)
  ultimately show ?thesis using s1(1) by (simp add: wake_up_def s'_def)
qed

end
