(* ===== verification/St_Event.thy ===== *)
theory St_Event
  imports St_Threads
begin

text \<open>
  The epoll event system (\<^verbatim>\<open>event.c\<close>), which the server selects. The kernel's part is a parameter: which
  registrations it refuses, what \<^verbatim>\<open>epoll_wait\<close> reports. What it registered is in \<open>ep_interest\<close>.
\<close>

section \<open>The kernel\<close>

record st_os =
  os_add_fails :: "int \<Rightarrow> st_errno option"
  os_realloc_ok :: bool
  os_pid :: int
  os_epoll_create_ok :: bool

datatype ctl_op = EPOLL_CTL_ADD | EPOLL_CTL_MOD | EPOLL_CTL_DEL

text \<open>
  \<^verbatim>\<open>epoll_ctl\<close>: adding a descriptor may be refused for reasons of the system, and fails for one that is
  registered; changing and deleting fail for one that is not. Which descriptors are refused (\<open>os_add_fails\<close>), and whether memory
  can be had (\<open>os_realloc_ok\<close>), is fixed for a call and, where a run is spoken of, for the run; changing and deleting what is
  registered is taken to succeed.
\<close>

fun epoll_ctl :: "st_os \<Rightarrow> ctl_op \<Rightarrow> int \<Rightarrow> poll_bits \<Rightarrow> st_epolldata \<Rightarrow> st_errno option \<times> st_epolldata" where
  "epoll_ctl os EPOLL_CTL_ADD fd ev e =
     (case os_add_fails os fd of
        Some err \<Rightarrow> (Some err, e)
      | None \<Rightarrow> if ep_interest e fd \<noteq> None then (Some EEXIST, e)
                else (None, e\<lparr>ep_interest := (ep_interest e)(fd \<mapsto> ev)\<rparr>))"
| "epoll_ctl os EPOLL_CTL_MOD fd ev e =
     (if ep_interest e fd = None then (Some ENOENT, e) else (None, e\<lparr>ep_interest := (ep_interest e)(fd \<mapsto> ev)\<rparr>))"
| "epoll_ctl os EPOLL_CTL_DEL fd ev e =
     (if ep_interest e fd = None then (Some ENOENT, e) else (None, e\<lparr>ep_interest := (ep_interest e)(fd := None)\<rparr>))"

section \<open>The data of the event system\<close>

text \<open>\<^verbatim>\<open>_ST_EPOLL_EVENTS\<close>\<close>

definition epoll_events :: "st_epolldata \<Rightarrow> int \<Rightarrow> poll_bits" where
  "epoll_events e fd =
     (if rd_ref_cnt (fd_data e fd) \<noteq> 0 then {POLLIN} else {}) \<union>
     (if wr_ref_cnt (fd_data e fd) \<noteq> 0 then {POLLOUT} else {}) \<union>
     (if ex_ref_cnt (fd_data e fd) \<noteq> 0 then {POLLPRI} else {})"

definition upd_fd :: "int \<Rightarrow> (epoll_fd_data \<Rightarrow> epoll_fd_data) \<Rightarrow> st_epolldata \<Rightarrow> st_epolldata" where
  "upd_fd fd f e = e\<lparr>fd_data := (fd_data e)(fd := f (fd_data e fd))\<rparr>"

text \<open>The reference counts of a descriptor go up or down by one for every event asked for.\<close>

definition count_events :: "int \<Rightarrow> poll_bits \<Rightarrow> epoll_fd_data \<Rightarrow> epoll_fd_data" where
  "count_events d ev x =
     x\<lparr>rd_ref_cnt := rd_ref_cnt x + (if POLLIN \<in> ev then d else 0),
       wr_ref_cnt := wr_ref_cnt x + (if POLLOUT \<in> ev then d else 0),
       ex_ref_cnt := ex_ref_cnt x + (if POLLPRI \<in> ev then d else 0)\<rparr>"

definition fd_data_zero :: epoll_fd_data where
  "fd_data_zero = \<lparr>rd_ref_cnt = 0, wr_ref_cnt = 0, ex_ref_cnt = 0, ep_revents = {}\<rparr>"

abbreviation ST_EPOLL_EVTLIST_SIZE :: nat where "ST_EPOLL_EVTLIST_SIZE \<equiv> 4096"

text \<open>
  \<^verbatim>\<open>_st_epoll_init\<close>, with the results of \<^verbatim>\<open>st_getfdlimit\<close>, \<^verbatim>\<open>epoll_create\<close> and of the three allocations.
\<close>

definition epoll_init :: "int \<Rightarrow> bool \<Rightarrow> bool \<Rightarrow> bool \<Rightarrow> bool \<Rightarrow> int \<Rightarrow> st_epolldata option" where
  "epoll_init fdlim calloc_ok create_ok fd_data_ok evtlist_ok pid =
     (if \<not> calloc_ok then None
      else
        let hint = (if 0 < fdlim \<and> fdlim < int ST_EPOLL_EVTLIST_SIZE then nat fdlim else ST_EPOLL_EVTLIST_SIZE) in
        if \<not> create_ok \<or> \<not> fd_data_ok \<or> \<not> evtlist_ok then None
        else Some \<lparr>fd_data = (\<lambda>_. fd_data_zero), fd_data_size = hint, evtlist_size = hint, evtlist_cnt = 0,
               fd_hint = hint, ep_pid = pid, ep_interest = (\<lambda>_. None)\<rparr>)"

text \<open>
  \<^verbatim>\<open>while (maxfd >= n) n <<= 1\<close>, for a positive \<open>n\<close>. The source shifts an \<^verbatim>\<open>int\<close>, which does not overflow for descriptors below \<open>2 ^ 30\<close>.
\<close>

function grow :: "nat \<Rightarrow> nat \<Rightarrow> nat" where
  "grow n m = (if n = 0 \<or> m < n then n else grow (2 * n) m)"
  by pat_completeness auto
termination by (relation "measure (\<lambda>(n, m). Suc m - n)") auto

declare grow.simps [simp del]

definition epoll_fd_data_expand :: "st_os \<Rightarrow> int \<Rightarrow> st_epolldata \<Rightarrow> bool \<times> st_epolldata" where
  "epoll_fd_data_expand os maxfd e =
     (if \<not> os_realloc_ok os then (False, e)
      else
        let n = grow (fd_data_size e) (nat maxfd) in
        (True, e\<lparr>fd_data := (\<lambda>fd. if int (fd_data_size e) \<le> fd \<and> fd < int n then fd_data_zero else fd_data e fd),
                 fd_data_size := n\<rparr>))"

definition epoll_evtlist_expand :: "st_os \<Rightarrow> st_epolldata \<Rightarrow> st_epolldata" where
  "epoll_evtlist_expand os e =
     (if os_realloc_ok os then e\<lparr>evtlist_size := grow (evtlist_size e) (nat (evtlist_cnt e) - 1)\<rparr> else e)"

section \<open>Adding and deleting descriptor sets\<close>

definition pollset_del_one :: "st_os \<Rightarrow> pollfd \<Rightarrow> st_epolldata \<Rightarrow> st_epolldata" where
  "pollset_del_one os pd e =
     (let fd = pd_fd pd; old_events = epoll_events e fd;
          e1 = upd_fd fd (count_events (-1) (pd_events pd)) e;
          events = epoll_events e1 fd in
      if events \<noteq> old_events \<and> ep_revents (fd_data e1 fd) = {}
      then
        let op = (if events \<noteq> {} then EPOLL_CTL_MOD else EPOLL_CTL_DEL) in
        (case epoll_ctl os op fd events e1 of
           (rv, e2) \<Rightarrow> if rv = None \<and> op = EPOLL_CTL_DEL then e2\<lparr>evtlist_cnt := evtlist_cnt e2 - 1\<rparr> else e2)
      else e1)"

definition epoll_pollset_del :: "st_os \<Rightarrow> pollfd list \<Rightarrow> st_epolldata \<Rightarrow> st_epolldata" where
  "epoll_pollset_del os pds e = fold (pollset_del_one os) pds e"

fun pollset_check :: "st_os \<Rightarrow> pollfd list \<Rightarrow> st_epolldata \<Rightarrow> st_errno option \<times> st_epolldata" where
  "pollset_check os [] e = (None, e)"
| "pollset_check os (pd # pds) e =
     (if pd_fd pd < 0 \<or> pd_events pd = {} \<or> \<not> pd_events pd \<subseteq> {POLLIN, POLLOUT, POLLPRI} then (Some EINVAL, e)
      else if int (fd_data_size e) \<le> pd_fd pd
      then (case epoll_fd_data_expand os (pd_fd pd) e of
              (ok, e') \<Rightarrow> if ok then pollset_check os pds e' else (Some ENOMEM, e'))
      else pollset_check os pds e)"

text \<open>One turn of the second loop: whether it went on, and the new data.\<close>

definition pollset_add_one :: "st_os \<Rightarrow> pollfd \<Rightarrow> st_epolldata \<Rightarrow> st_errno option \<times> st_epolldata" where
  "pollset_add_one os pd e =
     (let fd = pd_fd pd; old_events = epoll_events e fd;
          e1 = upd_fd fd (count_events 1 (pd_events pd)) e;
          events = epoll_events e1 fd in
      if events \<noteq> old_events
      then
        let op = (if old_events \<noteq> {} then EPOLL_CTL_MOD else EPOLL_CTL_ADD) in
        (case epoll_ctl os op fd events e1 of
           (rv, e2) \<Rightarrow>
             if rv \<noteq> None \<and> (op \<noteq> EPOLL_CTL_ADD \<or> rv \<noteq> Some EEXIST) then (rv, e2)
             else if op = EPOLL_CTL_ADD
             then let e3 = e2\<lparr>evtlist_cnt := evtlist_cnt e2 + 1\<rparr> in
                  (None, if int (evtlist_size e3) < evtlist_cnt e3 then epoll_evtlist_expand os e3 else e3)
             else (None, e2))
      else (None, e1))"

fun pollset_add_loop :: "st_os \<Rightarrow> pollfd list \<Rightarrow> nat \<Rightarrow> st_epolldata \<Rightarrow> (nat \<times> st_errno) option \<times> st_epolldata" where
  "pollset_add_loop os [] i e = (None, e)"
| "pollset_add_loop os (pd # pds) i e =
     (case pollset_add_one os pd e of
        (Some err, e') \<Rightarrow> (Some (i, err), e')
      | (None, e') \<Rightarrow> pollset_add_loop os pds (Suc i) e')"

definition epoll_pollset_add :: "st_os \<Rightarrow> pollfd list \<Rightarrow> st_epolldata \<Rightarrow> st_errno option \<times> st_epolldata" where
  "epoll_pollset_add os pds e =
     (case pollset_check os pds e of
        (Some err, e1) \<Rightarrow> (Some err, e1)
      | (None, e1) \<Rightarrow>
          (case pollset_add_loop os pds 0 e1 of
             (Some (i, err), e2) \<Rightarrow> (Some err, epoll_pollset_del os (take (Suc i) pds) e2)
           | (None, e2) \<Rightarrow> (None, e2)))"

definition epoll_fd_new :: "st_os \<Rightarrow> int \<Rightarrow> st_epolldata \<Rightarrow> bool \<times> st_epolldata" where
  "epoll_fd_new os osfd e = (if int (fd_data_size e) \<le> osfd then epoll_fd_data_expand os osfd e else (True, e))"

definition epoll_fd_close :: "int \<Rightarrow> st_epolldata \<Rightarrow> st_errno option" where
  "epoll_fd_close osfd e =
     (if rd_ref_cnt (fd_data e osfd) \<noteq> 0 \<or> wr_ref_cnt (fd_data e osfd) \<noteq> 0 \<or> ex_ref_cnt (fd_data e osfd) \<noteq> 0
      then Some EBUSY else None)"

section \<open>Dispatching\<close>

text \<open>The time to wait, in ms: \<^verbatim>\<open>(int) (min_timeout / 1000)\<close>, \<open>-1\<close> for ever.\<close>

definition min_timeout :: "st_vp \<Rightarrow> tid \<Rightarrow> st_utime" where
  "min_timeout s a =
     (if t_due (threads s a) \<le> last_clock s then 0 else t_due (threads s a) - last_clock s)"

definition epoll_timeout :: "st_vp \<Rightarrow> int" where
  "epoll_timeout s =
     (case sleep_q s of
        None \<Rightarrow> -1
      | Some a \<Rightarrow> sint (ucast (min_timeout s a div 1000) :: i32))"

text \<open>After a fork the epoll set is built anew from the I/O queue.\<close>

definition ep_change :: "(st_epolldata \<Rightarrow> st_epolldata) \<Rightarrow> st_vp \<Rightarrow> st_vp" where
  "ep_change f s = s\<lparr>ep := f (ep s)\<rparr>"

definition epoll_reinit :: "st_os \<Rightarrow> st_vp \<Rightarrow> bool \<times> st_vp" where
  "epoll_reinit os s =
     (if ep_pid (ep s) = os_pid os then (True, s)
      else if \<not> os_epoll_create_ok os then (False, s)
      else
        let e = (ep s)\<lparr>ep_interest := (\<lambda>_. None), ep_pid := os_pid os,
              fd_data := (\<lambda>fd. if 0 \<le> fd \<and> fd < int (fd_data_size (ep s)) then fd_data_zero else fd_data (ep s) fd),
              evtlist_cnt := 0\<rparr> in
        (True, s\<lparr>ep := fold (\<lambda>a e. snd (epoll_pollset_add os (pq_pds (t_pollq (threads s a))) e)) (io_q s) e\<rparr>))"

text \<open>The reports of \<^verbatim>\<open>epoll_wait\<close> are noted with the descriptors; an error stands for all events.\<close>

definition note_event :: "int \<times> poll_bits \<Rightarrow> st_epolldata \<Rightarrow> st_epolldata" where
  "note_event ev e =
     (case ev of (fd, bits) \<Rightarrow>
        upd_fd fd (\<lambda>x. x\<lparr>ep_revents := (if bits \<inter> {POLLERR, POLLHUP} \<noteq> {} then bits \<union> epoll_events e fd else bits)\<rparr>) e)"

definition fired :: "st_epolldata \<Rightarrow> int \<Rightarrow> poll_bits" where
  "fired e fd = ep_revents (fd_data e fd)"

definition poll_result :: "st_epolldata \<Rightarrow> pollfd \<Rightarrow> pollfd" where
  "poll_result e pd =
     pd\<lparr>pd_revents :=
       (pd_events pd \<inter> fired e (pd_fd pd) \<inter> {POLLIN, POLLOUT, POLLPRI}) \<union> (fired e (pd_fd pd) \<inter> {POLLERR, POLLHUP})\<rparr>"

definition notify_one :: "st_os \<Rightarrow> tid \<Rightarrow> st_vp \<Rightarrow> st_vp option" where
  "notify_one os a s =
     (let pds = map (poll_result (ep s)) (pq_pds (t_pollq (threads s a)));
          notify = (\<exists>pd \<in> set pds. pd_revents pd \<noteq> {});
          s1 = upd a (\<lambda>t. t\<lparr>t_pollq := (t_pollq t)\<lparr>pq_pds := pds\<rparr>\<rparr>) s in
      if notify
      then wake_up a (ep_change (epoll_pollset_del os pds)
             (upd a (\<lambda>t. t\<lparr>t_pollq := (t_pollq t)\<lparr>pq_on_ioq := False\<rparr>\<rparr>) (s1\<lparr>io_q := remove1 a (io_q s1)\<rparr>)))
      else Some s1)"

fun notify_all :: "st_os \<Rightarrow> tid list \<Rightarrow> st_vp \<Rightarrow> st_vp option" where
  "notify_all os [] s = Some s"
| "notify_all os (a # as) s = (case notify_one os a s of None \<Rightarrow> None | Some s' \<Rightarrow> notify_all os as s')"

text \<open>The descriptors that fired are changed or deleted at the end.\<close>

definition settle_event :: "st_os \<Rightarrow> int \<times> poll_bits \<Rightarrow> st_epolldata \<Rightarrow> st_epolldata" where
  "settle_event os ev e =
     (let fd = fst ev; e1 = upd_fd fd (\<lambda>x. x\<lparr>ep_revents := {}\<rparr>) e;
          events = epoll_events e1 fd;
          op = (if events \<noteq> {} then EPOLL_CTL_MOD else EPOLL_CTL_DEL) in
      (case epoll_ctl os op fd events e1 of
         (rv, e2) \<Rightarrow> if rv = None \<and> op = EPOLL_CTL_DEL then e2\<lparr>evtlist_cnt := evtlist_cnt e2 - 1\<rparr> else e2))"

definition epoll_dispatch :: "st_os \<Rightarrow> (int \<times> poll_bits) list \<Rightarrow> st_vp \<Rightarrow> st_vp option" where
  "epoll_dispatch os evs s =
     (case epoll_reinit os s of
        (False, s1) \<Rightarrow> Some s1
      | (True, s1) \<Rightarrow>
          if evs = [] then Some s1
          else
            (case notify_all os (io_q s1) (ep_change (fold note_event evs) s1) of
               None \<Rightarrow> None
             | Some s2 \<Rightarrow> Some (ep_change (fold (settle_event os) evs) s2)))"

end
