(* ===== verification/St_Sched.thy ===== *)
theory St_Sched
  imports St_Event "HOL-Library.Signed_Division"
begin

text \<open>
  The scheduler and the synchronisation objects (\<^verbatim>\<open>sched.c\<close>, \<^verbatim>\<open>sync.c\<close>), the thread-specific data
  (\<^verbatim>\<open>key.c\<close>) and the stacks (\<^verbatim>\<open>stk.c\<close>). A call either returns or gives the processor to another
  thread; then the saved context says what is left to do, and \<open>resume\<close> does it when the thread has
  the processor again. Allocations, clocks and the kernel are parameters.
\<close>

datatype st_outcome = Returned int | Switched | Exited

definition me :: "st_vp \<Rightarrow> st_thread" where
  "me s = threads s (this_thread s)"

definition returns :: "int \<Rightarrow> st_outcome st_op" where
  "returns v s = Some (Returned v, s)"

definition fails :: "st_errno \<Rightarrow> st_outcome st_op" where
  "fails e s = Some (Returned (-1), s\<lparr>vp_errno := e\<rparr>)"

text \<open>The end of an interrupted call: the flag is cleared.\<close>

definition fails_interrupted :: "st_outcome st_op" where
  "fails_interrupted s = fails EINTR (update_thread (\<lambda>t. t\<lparr>t_interrupt := False\<rparr>) s)"

section \<open>Switching\<close>

text \<open>\<^verbatim>\<open>_st_vp_schedule\<close> with \<^verbatim>\<open>_ST_RESTORE_CONTEXT\<close>: the head of the run queue gets the processor, or the idle thread.\<close>

definition st_vp_schedule :: "st_vp \<Rightarrow> st_vp option" where
  "st_vp_schedule s =
     (let (a, s1) = (case run_q s of [] \<Rightarrow> (idle_thread s, s) | a # q \<Rightarrow> (a, s\<lparr>run_q := q\<rparr>)) in
      if t_state (threads s1 a) \<noteq> RUNNABLE then None
      else Some ((set_state a RUNNING s1)\<lparr>this_thread := a\<rparr>))"

text \<open>\<^verbatim>\<open>_ST_SWITCH_CONTEXT\<close>\<close>

definition switch_context :: "st_context \<Rightarrow> st_outcome st_op" where
  "switch_context c s = map_option (Pair Switched) (st_vp_schedule (set_context (this_thread s) c s))"

definition sleep_unless_forever :: "st_utime \<Rightarrow> st_vp \<Rightarrow> st_vp option" where
  "sleep_unless_forever timeout s =
     (if timeout \<noteq> ST_UTIME_NO_TIMEOUT then st_add_sleep_q (this_thread s) timeout s else Some s)"

section \<open>Polling and sleeping\<close>

definition st_poll_vp :: "st_os \<Rightarrow> pollfd list \<Rightarrow> st_utime \<Rightarrow> st_outcome st_op" where
  "st_poll_vp os pds timeout s =
     (if t_interrupt (me s) then fails_interrupted s
      else
        (case epoll_pollset_add os pds (ep s) of
           (Some err, e) \<Rightarrow> fails err (s\<lparr>ep := e\<rparr>)
         | (None, e) \<Rightarrow>
             let s1 = update_thread (\<lambda>t. t\<lparr>t_pollq := \<lparr>pq_pds = pds, pq_on_ioq = True\<rparr>\<rparr>)
                        (s\<lparr>ep := e, io_q := io_q s @ [this_thread s]\<rparr>) in
             (case sleep_unless_forever timeout s1 of
                None \<Rightarrow> None
              | Some s2 \<Rightarrow> switch_context In_poll (set_state (this_thread s) IO_WAIT s2))))"

definition finish_poll :: "st_os \<Rightarrow> st_outcome st_op" where
  "finish_poll os s =
     (let pq = t_pollq (me s);
          (n, s1) =
            (if pq_on_ioq pq
             then (0, s\<lparr>io_q := remove1 (this_thread s) (io_q s), ep := epoll_pollset_del os (pq_pds pq) (ep s)\<rparr>)
             else (int (length (filter (\<lambda>pd. pd_revents pd \<noteq> {}) (pq_pds pq))), s)) in
      if t_interrupt (me s1) then fails_interrupted s1 else returns n s1)"

definition st_usleep :: "st_utime \<Rightarrow> st_outcome st_op" where
  "st_usleep usecs s =
     (if t_interrupt (me s) then fails_interrupted s
      else
        (case (if usecs \<noteq> ST_UTIME_NO_TIMEOUT
               then st_add_sleep_q (this_thread s) usecs (set_state (this_thread s) SLEEPING s)
               else Some (set_state (this_thread s) SUSPENDED s)) of
           None \<Rightarrow> None
         | Some s1 \<Rightarrow> switch_context In_usleep s1))"

definition finish_usleep :: "st_outcome st_op" where
  "finish_usleep s = (if t_interrupt (me s) then fails_interrupted s else returns 0 s)"

definition st_sleep :: "int \<Rightarrow> st_outcome st_op" where
  "st_sleep secs s = st_usleep (if 0 \<le> secs then word_of_int secs * 1000000 else ST_UTIME_NO_TIMEOUT) s"

section \<open>Condition variables\<close>

definition st_cond_new :: "bool \<Rightarrow> st_vp \<Rightarrow> nat option \<times> st_vp" where
  "st_cond_new mem_ok s =
     (if mem_ok then (Some (next_obj s), s\<lparr>conds := (conds s)(next_obj s \<mapsto> []), next_obj := Suc (next_obj s)\<rparr>)
      else (None, s))"

definition st_cond_destroy :: "nat \<Rightarrow> st_outcome st_op" where
  "st_cond_destroy c s =
     (case conds s c of
        None \<Rightarrow> None
      | Some q \<Rightarrow> if q \<noteq> [] then fails EBUSY s else returns 0 (s\<lparr>conds := (conds s)(c := None)\<rparr>))"

definition st_cond_timedwait :: "nat \<Rightarrow> st_utime \<Rightarrow> st_context \<Rightarrow> st_outcome st_op" where
  "st_cond_timedwait c timeout after s =
     (if t_interrupt (me s) then fails_interrupted s
      else
        (case conds s c of
           None \<Rightarrow> None
         | Some q \<Rightarrow>
             (case sleep_unless_forever timeout
                     ((set_state (this_thread s) COND_WAIT s)\<lparr>conds := (conds s)(c \<mapsto> q @ [this_thread s])\<rparr>) of
                None \<Rightarrow> None
              | Some s1 \<Rightarrow> switch_context after s1)))"

text \<open>The result is \<open>0\<close> or \<open>-1\<close>.\<close>

definition finish_cond :: "nat \<Rightarrow> st_outcome st_op" where
  "finish_cond c s =
     (case conds s c of
        None \<Rightarrow> None
      | Some q \<Rightarrow>
          let s1 = s\<lparr>conds := (conds s)(c \<mapsto> remove1 (this_thread s) q)\<rparr>;
              (rv, s2) = (if t_timedout (me s1)
                          then (-1, (update_thread (\<lambda>t. t\<lparr>t_timedout := False\<rparr>) s1)\<lparr>vp_errno := ETIME\<rparr>)
                          else (0, s1)) in
          if t_interrupt (me s2) then fails_interrupted s2 else returns rv s2)"

definition st_cond_wait :: "nat \<Rightarrow> st_outcome st_op" where
  "st_cond_wait c = st_cond_timedwait c ST_UTIME_NO_TIMEOUT (In_cond c)"

fun cond_signal_loop :: "bool \<Rightarrow> tid list \<Rightarrow> st_vp \<Rightarrow> st_vp option" where
  "cond_signal_loop broadcast [] s = Some s"
| "cond_signal_loop broadcast (a # q) s =
     (if t_state (threads s a) = COND_WAIT
      then
        (case wake_up a s of
           None \<Rightarrow> None
         | Some s1 \<Rightarrow> if broadcast then cond_signal_loop broadcast q s1 else Some s1)
      else cond_signal_loop broadcast q s)"

definition cond_signal :: "nat \<Rightarrow> bool \<Rightarrow> st_vp \<Rightarrow> st_vp option" where
  "cond_signal c broadcast s = (case conds s c of None \<Rightarrow> None | Some q \<Rightarrow> cond_signal_loop broadcast q s)"

definition st_cond_signal :: "nat \<Rightarrow> st_outcome st_op" where
  "st_cond_signal c s = map_option (Pair (Returned 0)) (cond_signal c False s)"

definition st_cond_broadcast :: "nat \<Rightarrow> st_outcome st_op" where
  "st_cond_broadcast c s = map_option (Pair (Returned 0)) (cond_signal c True s)"

section \<open>Mutexes\<close>

definition st_mutex_new :: "bool \<Rightarrow> st_vp \<Rightarrow> nat option \<times> st_vp" where
  "st_mutex_new mem_ok s =
     (if mem_ok
      then (Some (next_obj s), s\<lparr>mutexes := (mutexes s)(next_obj s \<mapsto> \<lparr>mx_owner = None, mx_wait_q = []\<rparr>),
                                 next_obj := Suc (next_obj s)\<rparr>)
      else (None, s))"

definition st_mutex_destroy :: "nat \<Rightarrow> st_outcome st_op" where
  "st_mutex_destroy m s =
     (case mutexes s m of
        None \<Rightarrow> None
      | Some mx \<Rightarrow>
          if mx_owner mx \<noteq> None \<or> mx_wait_q mx \<noteq> [] then fails EBUSY s
          else returns 0 (s\<lparr>mutexes := (mutexes s)(m := None)\<rparr>))"

definition st_mutex_lock :: "nat \<Rightarrow> st_outcome st_op" where
  "st_mutex_lock m s =
     (if t_interrupt (me s) then fails_interrupted s
      else
        (case mutexes s m of
           None \<Rightarrow> None
         | Some mx \<Rightarrow>
             if mx_owner mx = None
             then returns 0 (s\<lparr>mutexes := (mutexes s)(m \<mapsto> mx\<lparr>mx_owner := Some (this_thread s)\<rparr>)\<rparr>)
             else if mx_owner mx = Some (this_thread s) then fails EDEADLK s
             else switch_context (In_lock m)
               ((set_state (this_thread s) LOCK_WAIT s)
                 \<lparr>mutexes := (mutexes s)(m \<mapsto> mx\<lparr>mx_wait_q := mx_wait_q mx @ [this_thread s]\<rparr>)\<rparr>)))"

definition finish_lock :: "nat \<Rightarrow> st_outcome st_op" where
  "finish_lock m s =
     (case mutexes s m of
        None \<Rightarrow> None
      | Some mx \<Rightarrow>
          let s1 = s\<lparr>mutexes := (mutexes s)(m \<mapsto> mx\<lparr>mx_wait_q := remove1 (this_thread s) (mx_wait_q mx)\<rparr>)\<rparr> in
          if t_interrupt (me s1) \<and> mx_owner mx \<noteq> Some (this_thread s) then fails_interrupted s1
          else returns 0 s1)"

text \<open>The first thread of the queue that still waits.\<close>

definition st_mutex_unlock :: "nat \<Rightarrow> st_outcome st_op" where
  "st_mutex_unlock m s =
     (case mutexes s m of
        None \<Rightarrow> None
      | Some mx \<Rightarrow>
          if mx_owner mx \<noteq> Some (this_thread s) then fails EPERM s
          else
            let next = find (\<lambda>a. t_state (threads s a) = LOCK_WAIT) (mx_wait_q mx);
                s1 = s\<lparr>mutexes := (mutexes s)(m \<mapsto> mx\<lparr>mx_owner := next\<rparr>)\<rparr> in
            returns 0 (case next of None \<Rightarrow> s1 | Some a \<Rightarrow> make_runnable a s1))"

definition st_mutex_trylock :: "nat \<Rightarrow> st_outcome st_op" where
  "st_mutex_trylock m s =
     (case mutexes s m of
        None \<Rightarrow> None
      | Some mx \<Rightarrow>
          if mx_owner mx \<noteq> None then fails EBUSY s
          else returns 0 (s\<lparr>mutexes := (mutexes s)(m \<mapsto> mx\<lparr>mx_owner := Some (this_thread s)\<rparr>)\<rparr>))"

section \<open>Thread-specific data\<close>

text \<open>A destructor is known by whether it is there; its calls are collected, the last first.\<close>

definition st_key_create :: "bool \<Rightarrow> st_vp \<Rightarrow> nat option \<times> st_vp" where
  "st_key_create destructor s =
     (if ST_KEYS_MAX \<le> key_max s then (None, s\<lparr>vp_errno := EAGAIN\<rparr>)
      else (Some (key_max s), s\<lparr>key_max := Suc (key_max s), destructors := (destructors s)(key_max s := destructor)\<rparr>))"

definition destroy_data :: "tid \<Rightarrow> nat \<Rightarrow> st_vp \<Rightarrow> st_vp" where
  "destroy_data a key s =
     (let x = t_private_data (threads s a) key in
      if x \<noteq> 0 \<and> destructors s key then s\<lparr>destroyed := (key, x) # destroyed s\<rparr> else s)"

definition st_thread_setspecific :: "int \<Rightarrow> int \<Rightarrow> st_outcome st_op" where
  "st_thread_setspecific key x s =
     (if key < 0 \<or> int (key_max s) \<le> key then fails EINVAL s
      else
        returns 0
          (if x \<noteq> t_private_data (me s) (nat key)
           then update_thread (\<lambda>t. t\<lparr>t_private_data := (t_private_data t)(nat key := x)\<rparr>)
                  (destroy_data (this_thread s) (nat key) s)
           else s))"

definition st_thread_getspecific :: "int \<Rightarrow> st_vp \<Rightarrow> int" where
  "st_thread_getspecific key s = (if key < 0 \<or> int (key_max s) \<le> key then 0 else t_private_data (me s) (nat key))"

definition cleanup_key :: "tid \<Rightarrow> nat \<Rightarrow> st_vp \<Rightarrow> st_vp" where
  "cleanup_key a key s =
     (if t_private_data (threads s a) key \<noteq> 0 \<and> destructors s key
      then upd a (\<lambda>t. t\<lparr>t_private_data := (t_private_data t)(key := 0)\<rparr>) (destroy_data a key s)
      else s)"

definition st_thread_cleanup :: "tid \<Rightarrow> st_vp \<Rightarrow> st_vp" where
  "st_thread_cleanup a s = fold (cleanup_key a) [0..<key_max s] s"

section \<open>Stacks\<close>

text \<open>
  \<^verbatim>\<open>_st_stack_new\<close>: the first free stack that is big enough, or a new one. \<^verbatim>\<open>_st_stack_free\<close> links the
  stack in before the last one of the list.
\<close>

definition st_stack_new :: "bool \<Rightarrow> int \<Rightarrow> st_vp \<Rightarrow> tid option \<times> st_vp" where
  "st_stack_new mem_ok size_wanted s =
     (case find (\<lambda>ts. size_wanted \<le> snd ts) (free_stacks s) of
        Some ts \<Rightarrow> (Some (fst ts), s\<lparr>free_stacks := remove1 ts (free_stacks s)\<rparr>)
      | None \<Rightarrow>
          if mem_ok
          then (Some (next_obj s), s\<lparr>next_obj := Suc (next_obj s), stack_size := (stack_size s)(next_obj s := size_wanted)\<rparr>)
          else (None, s))"

definition st_stack_free :: "tid \<Rightarrow> st_vp \<Rightarrow> st_vp" where
  "st_stack_free a s =
     (let fs = free_stacks s; ts = (a, stack_size s a) in
      s\<lparr>free_stacks := (if fs = [] then [ts] else butlast fs @ [ts, last fs])\<rparr>)"

section \<open>Threads\<close>

definition st_thread_create :: "bool \<Rightarrow> bool \<Rightarrow> bool \<Rightarrow> int \<Rightarrow> st_vp \<Rightarrow> tid option \<times> st_vp" where
  "st_thread_create mem_ok cond_ok joinable stk_size s =
     (let wanted = (if stk_size = 0 then 64 * 1024 else stk_size);
          wanted = ((wanted + int (pagesize s) - 1) sdiv int (pagesize s)) * int (pagesize s) in
      (case st_stack_new mem_ok wanted s of
         (None, s1) \<Rightarrow> (None, s1)
       | (Some a, s1) \<Rightarrow>
           let s2 = upd a (\<lambda>_. thread_zero) s1;
               (term_ok, s3) = (if joinable
                 then (case st_cond_new cond_ok s2 of
                         (None, s3) \<Rightarrow> (False, st_stack_free a s3)
                       | (Some c, s3) \<Rightarrow> (True, upd a (\<lambda>t. t\<lparr>t_term := Some c\<rparr>) s3))
                 else (True, s2)) in
           if \<not> term_ok then (None, s3)
           else (Some a, (make_runnable a (s3\<lparr>active_count := active_count s3 + 1\<rparr>))\<lparr>thread_q := thread_q s3 @ [a]\<rparr>)))"

text \<open>The last part of \<^verbatim>\<open>st_thread_exit\<close>, from which the thread does not come back.\<close>

definition leave_for_good :: "st_outcome st_op" where
  "leave_for_good s =
     (let a = this_thread s; s1 = s\<lparr>thread_q := remove1 a (thread_q s)\<rparr> in
      switch_context In_gone (if t_primordial (me s1) then s1 else st_stack_free a s1))"

text \<open>A joinable thread is at \<open>In_exit\<close> from the moment it is a zombie; the signal does not look at it.\<close>

definition st_thread_exit :: "int \<Rightarrow> st_outcome st_op" where
  "st_thread_exit retval s =
     (let a = this_thread s;
          s1 = st_thread_cleanup a (update_thread (\<lambda>t. t\<lparr>t_retval := retval\<rparr>) s);
          s2 = s1\<lparr>active_count := active_count s1 - 1\<rparr> in
      (case t_term (me s2) of
         Some c \<Rightarrow>
           (case cond_signal c False ((set_context a In_exit (set_state a ZOMBIE s2))\<lparr>zombie_q := zombie_q s2 @ [a]\<rparr>) of
              None \<Rightarrow> None
            | Some s3 \<Rightarrow> switch_context In_exit s3)
       | None \<Rightarrow> leave_for_good s2))"

definition finish_exit :: "st_outcome st_op" where
  "finish_exit s =
     (case t_term (me s) of
        None \<Rightarrow> None
      | Some c \<Rightarrow>
          (case st_cond_destroy c s of
             None \<Rightarrow> None
           | Some (_, s1) \<Rightarrow> leave_for_good (update_thread (\<lambda>t. t\<lparr>t_term := None\<rparr>) s1)))"

text \<open>\<^verbatim>\<open>st_thread_join\<close> from its loop on.\<close>

definition join_loop :: "nat \<Rightarrow> tid \<Rightarrow> st_outcome st_op" where
  "join_loop term a s =
     (if t_state (threads s a) \<noteq> ZOMBIE then st_cond_timedwait term ST_UTIME_NO_TIMEOUT (In_join term a) s
      else
        let s1 = update_thread (\<lambda>t. t\<lparr>t_joined := t_retval (threads s a)\<rparr>) s in
        returns 0 (make_runnable a (s1\<lparr>zombie_q := remove1 a (zombie_q s1)\<rparr>)))"

definition st_thread_join :: "tid \<Rightarrow> st_outcome st_op" where
  "st_thread_join a s =
     (case t_term (threads s a) of
        None \<Rightarrow> fails EINVAL s
      | Some term \<Rightarrow>
          if this_thread s = a then fails EDEADLK s
          else
            (case conds s term of
               None \<Rightarrow> None
             | Some q \<Rightarrow> if q \<noteq> [] then fails EINVAL s else join_loop term a s))"

definition finish_join :: "nat \<Rightarrow> tid \<Rightarrow> st_outcome st_op" where
  "finish_join term a s =
     (case finish_cond term s of
        None \<Rightarrow> None
      | Some (rv, s1) \<Rightarrow> if rv \<noteq> Returned 0 then Some (Returned (-1), s1) else join_loop term a s1)"

definition st_thread_interrupt :: "tid \<Rightarrow> st_outcome st_op" where
  "st_thread_interrupt a s =
     (if t_state (threads s a) = ZOMBIE then returns 0 s
      else
        let s1 = upd a (\<lambda>t. t\<lparr>t_interrupt := True\<rparr>) s in
        if t_state (threads s1 a) = RUNNING \<or> t_state (threads s1 a) = RUNNABLE then returns 0 s1
        else map_option (Pair (Returned 0)) (wake_up a s1))"

section \<open>Time and the idle thread\<close>

definition st_timecache_set :: "int \<Rightarrow> st_utime \<Rightarrow> bool \<Rightarrow> st_vp \<Rightarrow> int \<times> st_vp" where
  "st_timecache_set time_now now on s =
     ((if curr_time s \<noteq> 0 then 1 else 0),
      if on then s\<lparr>curr_time := time_now, last_tset := now\<rparr> else s\<lparr>curr_time := 0\<rparr>)"

definition st_time :: "int \<Rightarrow> st_vp \<Rightarrow> int" where
  "st_time time_now s = (if curr_time s \<noteq> 0 then curr_time s else time_now)"

definition st_utime_last_clock :: "st_vp \<Rightarrow> st_utime" where
  "st_utime_last_clock s = last_clock s"

text \<open>What the loop of \<^verbatim>\<open>_st_vp_check_clock\<close> does with an expired thread, and the loop.\<close>

definition expire :: "tid \<Rightarrow> st_vp \<Rightarrow> st_vp option" where
  "expire a s =
     (case st_del_sleep_q a s of
        None \<Rightarrow> None
      | Some s1 \<Rightarrow>
          let s2 = (if t_state (threads s1 a) = COND_WAIT then upd a (\<lambda>t. t\<lparr>t_timedout := True\<rparr>) s1 else s1) in
          if t_idle_thread (threads s2 a) then None else Some (make_runnable a s2))"

partial_function (option) check_clock_loop :: "st_utime \<Rightarrow> st_vp \<Rightarrow> st_vp option" where
  "check_clock_loop now s =
     (case sleep_q s of
        None \<Rightarrow> Some s
      | Some a \<Rightarrow>
          if \<not> t_on_sleepq (threads s a) then None
          else if now < t_due (threads s a) then Some s
          else (case expire a s of None \<Rightarrow> None | Some s1 \<Rightarrow> check_clock_loop now s1))"

definition st_vp_check_clock :: "st_utime \<Rightarrow> int \<Rightarrow> st_vp \<Rightarrow> st_vp option" where
  "st_vp_check_clock now time_now s =
     (let s1 = s\<lparr>last_clock := now\<rparr>;
          s2 = (if curr_time s1 \<noteq> 0 \<and> 999000 < now - last_tset s1
                then s1\<lparr>curr_time := time_now, last_tset := now\<rparr> else s1) in
      check_clock_loop now s2)"

text \<open>One turn of \<^verbatim>\<open>_st_idle_thread_start\<close>.\<close>

definition idle_turn :: "st_os \<Rightarrow> (int \<times> poll_bits) list \<Rightarrow> st_utime \<Rightarrow> int \<Rightarrow> st_outcome st_op" where
  "idle_turn os evs now time_now s =
     (if active_count s \<le> 0 then Some (Exited, s)
      else
        (case epoll_dispatch os evs s of
           None \<Rightarrow> None
         | Some s1 \<Rightarrow>
             (case st_vp_check_clock now time_now s1 of
                None \<Rightarrow> None
              | Some s2 \<Rightarrow> switch_context In_idle (set_state (this_thread s2) RUNNABLE s2))))"

section \<open>The thread library as a machine\<close>

text \<open>What the outside contributes when a thread goes on: the kernel's reports and the clocks.\<close>

record st_input =
  in_events :: "(int \<times> poll_bits) list"
  in_utime :: st_utime
  in_time :: int

definition resume :: "st_os \<Rightarrow> st_input \<Rightarrow> st_outcome st_op" where
  "resume os i s =
     (let s1 = set_context (this_thread s) In_user s in
      (case t_context (me s) of
         In_user \<Rightarrow> None
       | In_idle \<Rightarrow> idle_turn os (in_events i) (in_utime i) (in_time i) s
       | In_poll \<Rightarrow> finish_poll os s1
       | In_usleep \<Rightarrow> finish_usleep s1
       | In_cond c \<Rightarrow> finish_cond c s1
       | In_join c a \<Rightarrow> finish_join c a s1
       | In_lock m \<Rightarrow> finish_lock m s1
       | In_exit \<Rightarrow> finish_exit s1
       | In_gone \<Rightarrow> None))"

datatype st_call =
    Poll "pollfd list" st_utime
  | Usleep st_utime
  | Cond_new bool
  | Cond_destroy nat
  | Cond_timedwait nat st_utime
  | Cond_signal nat
  | Cond_broadcast nat
  | Mutex_new bool
  | Mutex_destroy nat
  | Mutex_lock nat
  | Mutex_unlock nat
  | Mutex_trylock nat
  | Key_create bool
  | Setspecific int int
  | Thread_create bool bool bool int
  | Thread_exit int
  | Thread_join tid
  | Thread_interrupt tid

definition handle :: "nat option \<times> st_vp \<Rightarrow> (st_outcome \<times> st_vp) option" where
  "handle r = Some (Returned (case fst r of None \<Rightarrow> -1 | Some n \<Rightarrow> int n), snd r)"

fun execute :: "st_os \<Rightarrow> st_call \<Rightarrow> st_outcome st_op" where
  "execute os (Poll pds timeout) s = st_poll_vp os pds timeout s"
| "execute os (Usleep usecs) s = st_usleep usecs s"
| "execute os (Cond_new mem_ok) s = handle (st_cond_new mem_ok s)"
| "execute os (Cond_destroy c) s = st_cond_destroy c s"
| "execute os (Cond_timedwait c timeout) s = st_cond_timedwait c timeout (In_cond c) s"
| "execute os (Cond_signal c) s = st_cond_signal c s"
| "execute os (Cond_broadcast c) s = st_cond_broadcast c s"
| "execute os (Mutex_new mem_ok) s = handle (st_mutex_new mem_ok s)"
| "execute os (Mutex_destroy m) s = st_mutex_destroy m s"
| "execute os (Mutex_lock m) s = st_mutex_lock m s"
| "execute os (Mutex_unlock m) s = st_mutex_unlock m s"
| "execute os (Mutex_trylock m) s = st_mutex_trylock m s"
| "execute os (Key_create d) s = handle (st_key_create d s)"
| "execute os (Setspecific key x) s = st_thread_setspecific key x s"
| "execute os (Thread_create mem_ok cond_ok joinable stk_size) s = handle (st_thread_create mem_ok cond_ok joinable stk_size s)"
| "execute os (Thread_exit v) s = st_thread_exit v s"
| "execute os (Thread_join a) s = st_thread_join a s"
| "execute os (Thread_interrupt a) s = st_thread_interrupt a s"

text \<open>\<^verbatim>\<open>st_init\<close>, from the zeroed variables of the library.\<close>

definition vp_start :: st_vp where
  "vp_start = \<lparr>idle_thread = 0, last_clock = 0, run_q = [], io_q = [], zombie_q = [], thread_q = [],
     sleep_q = None, sleepq_size = 0, threads = (\<lambda>_. thread_zero), this_thread = 0, active_count = 0,
     pagesize = 0, curr_time = 0, last_tset = 0, conds = (\<lambda>_. None), mutexes = (\<lambda>_. None),
     free_stacks = [], stack_size = (\<lambda>_. 0), next_obj = 0, key_max = 0, destructors = (\<lambda>_. False),
     destroyed = [], ep = \<lparr>fd_data = (\<lambda>_. fd_data_zero), fd_data_size = 0, evtlist_size = 0,
       evtlist_cnt = 0, fd_hint = 0, ep_pid = 0, ep_interest = (\<lambda>_. None)\<rparr>, vp_errno = ENONE\<rparr>"

definition st_init :: "bool \<Rightarrow> st_epolldata option \<Rightarrow> nat \<Rightarrow> st_utime \<Rightarrow> bool \<Rightarrow> bool \<Rightarrow> st_vp \<Rightarrow> int \<times> st_vp" where
  "st_init io_ok epoll page_size now stack_ok calloc_ok s =
     (if active_count s \<noteq> 0 then (0, s)
      else if \<not> io_ok then (-1, s)
      else
        let s1 = s\<lparr>idle_thread := 0, last_clock := 0, run_q := [], io_q := [], zombie_q := [], thread_q := [],
                   sleep_q := None, sleepq_size := 0, pagesize := 0\<rparr> in
        (case epoll of
           None \<Rightarrow> (-1, s1)
         | Some e \<Rightarrow>
             (case st_thread_create stack_ok True False 0 (s1\<lparr>ep := e, pagesize := page_size, last_clock := now\<rparr>) of
                (None, s2) \<Rightarrow> (-1, s2)
              | (Some a, s2) \<Rightarrow>
                  let s3 = (upd a (\<lambda>t. t\<lparr>t_primordial := False, t_idle_thread := True, t_on_sleepq := False,
                              t_interrupt := False, t_timedout := False, t_context := In_idle\<rparr>) s2)
                             \<lparr>idle_thread := a, active_count := active_count s2 - 1, run_q := remove1 a (run_q s2)\<rparr> in
                  if \<not> calloc_ok then (-1, s3)
                  else
                    let p = next_obj s3 in
                    (0, (upd p (\<lambda>_. thread_zero\<lparr>t_state := RUNNING, t_primordial := True\<rparr>) s3)
                          \<lparr>this_thread := p, next_obj := Suc p, active_count := active_count s3 + 1,
                           thread_q := thread_q s3 @ [p]\<rparr>))))"

end
