(* ===== verification/St_Event_Correct.thy ===== *)
theory St_Event_Correct
  imports St_Event
begin

text \<open>
  The epoll event system is right: the reference counts count the requests on the I/O queue, the kernel
  is registered for exactly the events that are asked for, and dispatching wakes exactly the threads
  one of whose events was reported.
\<close>

section \<open>Requests\<close>

type_synonym requests = "poll_flag \<Rightarrow> int \<Rightarrow> nat"

text \<open>How many requests ask for an event on a descriptor.\<close>

definition reqs :: "pollfd list \<Rightarrow> requests" where
  "reqs pds f fd = length (filter (\<lambda>pd. pd_fd pd = fd \<and> f \<in> pd_events pd) pds)"

definition also_reqs :: "pollfd list \<Rightarrow> requests \<Rightarrow> requests" where
  "also_reqs pds N = (\<lambda>f fd. reqs pds f fd + N f fd)"

definition asked :: "requests \<Rightarrow> int \<Rightarrow> poll_bits" where
  "asked N fd = {f. f \<in> {POLLIN, POLLOUT, POLLPRI} \<and> N f fd \<noteq> 0}"

definition wanted :: "requests \<Rightarrow> int \<Rightarrow> poll_bits option" where
  "wanted N fd = (if asked N fd = {} then None else Some (asked N fd))"

definition counts_fit :: "requests \<Rightarrow> st_epolldata \<Rightarrow> bool" where
  "counts_fit N e \<longleftrightarrow> (\<forall>fd. rd_ref_cnt (fd_data e fd) = int (N POLLIN fd) \<and>
     wr_ref_cnt (fd_data e fd) = int (N POLLOUT fd) \<and> ex_ref_cnt (fd_data e fd) = int (N POLLPRI fd))"

text \<open>
  The counts are those of \<open>N\<close>, and but for the descriptors of \<open>F\<close>, which have fired, the kernel is
  registered for \<open>M\<close>. The kernel's entries are counted.
\<close>

definition ep_fits :: "int set \<Rightarrow> requests \<Rightarrow> requests \<Rightarrow> st_epolldata \<Rightarrow> bool" where
  "ep_fits F N M e \<longleftrightarrow> counts_fit N e \<and>
     (\<forall>fd. fd \<notin> F \<longrightarrow> fired e fd = {} \<and> ep_interest e fd = wanted M fd) \<and>
     (\<forall>fd \<in> F. fired e fd \<noteq> {} \<and> ep_interest e fd \<noteq> None) \<and>
     finite (dom (ep_interest e)) \<and> evtlist_cnt e = int (card (dom (ep_interest e)))"

text \<open>Every request is within the array, which is not empty.\<close>

definition in_array :: "requests \<Rightarrow> st_epolldata \<Rightarrow> bool" where
  "in_array N e \<longleftrightarrow> 0 < fd_data_size e \<and>
     (\<forall>f fd. f \<in> {POLLIN, POLLOUT, POLLPRI} \<and> N f fd \<noteq> 0 \<longrightarrow> 0 \<le> fd \<and> fd < int (fd_data_size e))"

lemma reqs_Nil [simp]: "reqs [] f fd = 0"
  by (simp add: reqs_def)

lemma reqs_Cons: "reqs (pd # pds) f fd = (if pd_fd pd = fd \<and> f \<in> pd_events pd then 1 else 0) + reqs pds f fd"
  by (simp add: reqs_def)

lemma reqs_append: "reqs (pds @ pds') f fd = reqs pds f fd + reqs pds' f fd"
  by (simp add: reqs_def)

lemma also_reqs_Nil [simp]: "also_reqs [] N = N"
  by (simp add: also_reqs_def)

lemma also_reqs_Cons: "also_reqs (pd # pds) N = also_reqs [pd] (also_reqs pds N)"
  by (auto simp: also_reqs_def reqs_Cons fun_eq_iff)

lemma also_reqs_swap: "also_reqs pds (also_reqs pds' N) = also_reqs pds' (also_reqs pds N)"
  by (auto simp: also_reqs_def fun_eq_iff)

lemma also_reqs_append: "also_reqs (pds @ pds') N = also_reqs pds (also_reqs pds' N)"
  by (auto simp: also_reqs_def reqs_append fun_eq_iff)

lemma also_reqs_one: "also_reqs [pd] N f fd = (if pd_fd pd = fd \<and> f \<in> pd_events pd then Suc (N f fd) else N f fd)"
  by (simp add: also_reqs_def reqs_Cons)

lemma asked_other: "fd \<noteq> pd_fd pd \<Longrightarrow> asked (also_reqs [pd] N) fd = asked N fd"
  by (auto simp: asked_def also_reqs_one)

lemma asked_mono: "asked N fd \<subseteq> asked (also_reqs pds N) fd"
  by (auto simp: asked_def also_reqs_def)

lemma wanted_other: "fd \<noteq> pd_fd pd \<Longrightarrow> wanted (also_reqs [pd] N) fd = wanted N fd"
  by (simp add: wanted_def asked_other)

lemma events_asked: "counts_fit N e \<Longrightarrow> epoll_events e fd = asked N fd"
  by (auto simp: counts_fit_def epoll_events_def asked_def)

lemma counts_add: "counts_fit N e \<Longrightarrow> counts_fit (also_reqs [pd] N) (upd_fd (pd_fd pd) (count_events 1 (pd_events pd)) e)"
  by (auto simp: counts_fit_def upd_fd_def count_events_def also_reqs_one)

lemma counts_del: "counts_fit (also_reqs [pd] N) e \<Longrightarrow> counts_fit N (upd_fd (pd_fd pd) (count_events (-1) (pd_events pd)) e)"
  by (auto simp: counts_fit_def upd_fd_def count_events_def also_reqs_one split: if_splits)

lemma upd_fd_simps [simp]:
  "ep_interest (upd_fd fd f e) = ep_interest e" "evtlist_cnt (upd_fd fd f e) = evtlist_cnt e"
  "fd_data_size (upd_fd fd f e) = fd_data_size e" "evtlist_size (upd_fd fd f e) = evtlist_size e"
  "fd_data (upd_fd fd f e) = (fd_data e)(fd := f (fd_data e fd))"
  by (simp_all add: upd_fd_def)

lemma count_events_revents [simp]: "ep_revents (count_events d ev x) = ep_revents x"
  by (simp add: count_events_def)

lemma fired_upd_fd [simp]: "fired (upd_fd fd (count_events d ev) e) fd' = fired e fd'"
  by (simp add: fired_def)

lemma counts_fit_same: "fd_data e' = fd_data e \<Longrightarrow> counts_fit N e' = counts_fit N e"
  by (simp add: counts_fit_def)

lemma fired_same: "fd_data e' = fd_data e \<Longrightarrow> fired e' = fired e"
  by (simp add: fired_def fun_eq_iff)

lemma asked_finite [simp]: "finite (asked N fd)"
  by (simp add: asked_def)

text \<open>Everything fits but the kernel's entry of one descriptor, which is then put right.\<close>

definition fits_but :: "int \<Rightarrow> int set \<Rightarrow> requests \<Rightarrow> requests \<Rightarrow> st_epolldata \<Rightarrow> bool" where
  "fits_but fd0 F N M e \<longleftrightarrow> counts_fit N e \<and> fired e fd0 = {} \<and>
     (\<forall>fd. fd \<noteq> fd0 \<longrightarrow> fd \<notin> F \<longrightarrow> fired e fd = {} \<and> ep_interest e fd = wanted M fd) \<and>
     (\<forall>fd \<in> F. fd \<noteq> fd0 \<longrightarrow> fired e fd \<noteq> {} \<and> ep_interest e fd \<noteq> None) \<and>
     finite (dom (ep_interest e)) \<and> evtlist_cnt e = int (card (dom (ep_interest e)))"

lemma ep_register:
  assumes but: "fits_but fd0 F N M e1" and e2: "fd_data e2 = fd_data e1"
    "ep_interest e2 = (ep_interest e1)(fd0 := wanted M fd0)"
    "evtlist_cnt e2 = evtlist_cnt e1 + of_bool (wanted M fd0 \<noteq> None) - of_bool (ep_interest e1 fd0 \<noteq> None)"
  shows "ep_fits (F - {fd0}) N M e2"
proof -
  let ?d = "dom (ep_interest e1)"
  have fin: "finite ?d" and cnt: "evtlist_cnt e1 = int (card ?d)" using but by (simp_all add: fits_but_def)
  have dom: "dom (ep_interest e2) = (if wanted M fd0 = None then ?d - {fd0} else insert fd0 ?d)"
    using e2(2) by auto
  have "int (card (dom (ep_interest e2))) = evtlist_cnt e2"
  proof (cases "fd0 \<in> ?d")
    case True
    then have "card ?d = Suc (card (?d - {fd0}))" "ep_interest e1 fd0 \<noteq> None" "insert fd0 ?d = ?d"
      using card.remove [OF fin True] by auto
    then show ?thesis using dom e2(3) cnt by (cases "wanted M fd0") simp_all
  next
    case False
    then have "card (insert fd0 ?d) = Suc (card ?d)" "ep_interest e1 fd0 = None" "?d - {fd0} = ?d"
      using fin by auto
    then show ?thesis using dom e2(3) cnt by (cases "wanted M fd0") simp_all
  qed
  then show ?thesis
    using but fin dom e2(1,2) counts_fit_same [OF e2(1)] fired_same [OF e2(1)]
    by (simp add: ep_fits_def fits_but_def)
qed

section \<open>Deleting\<close>

lemma del_one_ok:
  assumes fits: "ep_fits F (also_reqs [pd] N) (also_reqs [pd] M) e"
    and same: "asked (also_reqs [pd] M) (pd_fd pd) = asked (also_reqs [pd] N) (pd_fd pd)" "asked M (pd_fd pd) = asked N (pd_fd pd)"
  shows "ep_fits F N M (pollset_del_one os pd e)"
proof -
  let ?fd = "pd_fd pd"
  define e1 where "e1 = upd_fd ?fd (count_events (-1) (pd_events pd)) e"
  have c: "counts_fit (also_reqs [pd] N) e" "counts_fit N e1"
    using fits counts_del by (auto simp: ep_fits_def e1_def)
  have ev: "epoll_events e ?fd = asked (also_reqs [pd] N) ?fd" "epoll_events e1 ?fd = asked N ?fd"
    using c by (simp_all add: events_asked)
  have int1: "ep_interest e1 = ep_interest e" "evtlist_cnt e1 = evtlist_cnt e" "fired e1 = fired e"
    by (simp_all add: e1_def fun_eq_iff)
  show ?thesis
  proof (cases "asked N ?fd \<noteq> asked (also_reqs [pd] N) ?fd \<and> fired e ?fd = {}")
    case True
    have notF: "?fd \<notin> F" using True fits by (auto simp: ep_fits_def)
    moreover have "asked (also_reqs [pd] N) ?fd \<noteq> {}" using True asked_mono [of N ?fd "[pd]"] by blast
    ultimately have fd: "ep_interest e ?fd = Some (asked (also_reqs [pd] N) ?fd)"
      using fits same(1) by (simp add: ep_fits_def wanted_def)
    have "fits_but ?fd F N M e1"
      using fits c(2) int1 True notF by (auto simp: fits_but_def ep_fits_def wanted_other)
    moreover define e2 where "e2 = pollset_del_one os pd e"
    moreover have "fd_data e2 = fd_data e1" "ep_interest e2 = (ep_interest e1)(?fd := wanted M ?fd)"
      "evtlist_cnt e2 = evtlist_cnt e1 + of_bool (wanted M ?fd \<noteq> None) - of_bool (ep_interest e1 ?fd \<noteq> None)"
      using True ev fd int1 same(2)
      by (simp_all add: e2_def pollset_del_one_def e1_def [symmetric] Let_def fired_def [symmetric] wanted_def)
    ultimately have "ep_fits (F - {?fd}) N M (pollset_del_one os pd e)" using ep_register by blast
    then show ?thesis using notF by simp
  next
    case False
    have "pollset_del_one os pd e = e1"
      using False ev int1 by (auto simp: pollset_del_one_def e1_def [symmetric] Let_def fired_def)
    moreover have "wanted (also_reqs [pd] M) fd = wanted M fd" if "fd \<notin> F" for fd
      using False fits same that by (cases "fd = ?fd") (auto simp: ep_fits_def wanted_def asked_other)
    ultimately show ?thesis using fits c(2) int1 by (auto simp: ep_fits_def)
  qed
qed

lemma del_one_size [simp]: "fd_data_size (pollset_del_one os pd e) = fd_data_size e"
  by (auto simp: pollset_del_one_def Let_def upd_fd_def split: prod.split if_splits)

lemma pollset_del_ok:
  "ep_fits F (also_reqs pds N) (also_reqs pds N) e \<Longrightarrow> ep_fits F N N (epoll_pollset_del os pds e)"
proof (induction pds arbitrary: e)
  case (Cons pd pds)
  have "ep_fits F (also_reqs [pd] (also_reqs pds N)) (also_reqs [pd] (also_reqs pds N)) e"
    using Cons.prems by (simp add: also_reqs_Cons [of pd pds])
  then have "ep_fits F (also_reqs pds N) (also_reqs pds N) (pollset_del_one os pd e)" by (rule del_one_ok) simp_all
  then show ?case using Cons.IH by (simp add: epoll_pollset_del_def)
qed (simp add: epoll_pollset_del_def)

lemma pollset_del_size: "fd_data_size (epoll_pollset_del os pds e) = fd_data_size e"
  by (induction pds arbitrary: e) (simp_all add: epoll_pollset_del_def)

section \<open>Adding\<close>

text \<open>What \<^verbatim>\<open>st_poll\<close> is called with, and a kernel that reports \<open>EEXIST\<close> for registered descriptors only.\<close>

definition valid_pd :: "pollfd \<Rightarrow> bool" where
  "valid_pd pd \<longleftrightarrow> 0 \<le> pd_fd pd \<and> pd_events pd \<noteq> {} \<and> pd_events pd \<subseteq> {POLLIN, POLLOUT, POLLPRI}"

definition os_ok :: "st_os \<Rightarrow> bool" where
  "os_ok os \<longleftrightarrow> (\<forall>fd. os_add_fails os fd \<noteq> Some EEXIST)"

lemma asked_one: "valid_pd pd \<Longrightarrow> asked (also_reqs [pd] N) (pd_fd pd) = asked N (pd_fd pd) \<union> pd_events pd"
  by (auto simp: valid_pd_def asked_def also_reqs_one)

lemma evtlist_expand_same [simp]:
  "fd_data (epoll_evtlist_expand os e) = fd_data e" "ep_interest (epoll_evtlist_expand os e) = ep_interest e"
  "evtlist_cnt (epoll_evtlist_expand os e) = evtlist_cnt e" "fd_data_size (epoll_evtlist_expand os e) = fd_data_size e"
  by (simp_all add: epoll_evtlist_expand_def)

lemma add_one_ok:
  assumes fits: "ep_fits {} N N e" and pd: "valid_pd pd" and os: "os_ok os"
    and run: "pollset_add_one os pd e = (r, e')"
  shows "r = None \<Longrightarrow> ep_fits {} (also_reqs [pd] N) (also_reqs [pd] N) e'"
    and "r \<noteq> None \<Longrightarrow> ep_fits {} (also_reqs [pd] N) N e' \<and> asked N (pd_fd pd) = {}"
    and "fd_data_size e' = fd_data_size e"
proof -
  let ?fd = "pd_fd pd" and ?N = "also_reqs [pd] N"
  define e1 where "e1 = upd_fd ?fd (count_events 1 (pd_events pd)) e"
  have c: "counts_fit N e" "counts_fit ?N e1" using fits counts_add by (auto simp: ep_fits_def e1_def)
  have ev: "epoll_events e ?fd = asked N ?fd" "epoll_events e1 ?fd = asked ?N ?fd" using c by (simp_all add: events_asked)
  have e1: "ep_interest e1 = ep_interest e" "evtlist_cnt e1 = evtlist_cnt e" "fired e1 = fired e" "fd_data_size e1 = fd_data_size e"
    by (simp_all add: e1_def fun_eq_iff)
  have int: "ep_interest e ?fd = wanted N ?fd" "fired e ?fd = {}" using fits by (simp_all add: ep_fits_def)
  have some: "wanted ?N ?fd = Some (asked ?N ?fd)" using asked_one [OF pd] pd by (auto simp: wanted_def valid_pd_def)
  have but: "fits_but ?fd {} ?N ?N e1" using fits c(2) e1 by (auto simp: fits_but_def ep_fits_def wanted_other)
  note defs = pollset_add_one_def e1_def [symmetric] Let_def ev e1(1,2) int(1)
  have "(r = None \<longrightarrow> ep_fits {} ?N ?N e') \<and> (r \<noteq> None \<longrightarrow> ep_fits {} ?N N e' \<and> asked N ?fd = {}) \<and> fd_data_size e' = fd_data_size e"
  proof (cases "asked ?N ?fd = asked N ?fd")
    case True
    then have "r = None" "e' = e1" using run by (auto simp: defs)
    moreover have "wanted ?N fd = wanted N fd" for fd
      using True by (cases "fd = ?fd") (auto simp: wanted_def asked_other)
    ultimately show ?thesis using fits c(2) e1 by (auto simp: ep_fits_def)
  next
    case changed: False
    show ?thesis
    proof (cases "asked N ?fd = {}")
      case True
      show ?thesis
      proof (cases "os_add_fails os ?fd")
        case None
        then have r: "r = None" "fd_data e' = fd_data e1" "ep_interest e' = (ep_interest e1)(?fd := wanted ?N ?fd)"
            "evtlist_cnt e' = evtlist_cnt e1 + 1" "fd_data_size e' = fd_data_size e"
          using run True changed e1(4) some by (auto simp: defs wanted_def split: if_splits)
        have "ep_fits ({} - {?fd}) ?N ?N e'"
          by (rule ep_register [OF but r(2,3)]) (use r(4) e1(1) int(1) True some in \<open>simp add: wanted_def\<close>)
        then show ?thesis using r by simp
      next
        case (Some err)
        moreover have "err \<noteq> EEXIST" using os Some by (auto simp: os_ok_def)
        ultimately have "r = Some err" "e' = e1" using run True changed by (auto simp: defs wanted_def)
        then show ?thesis using True fits c(2) e1 by (auto simp: ep_fits_def)
      qed
    next
      case False
      then have r: "r = None" "fd_data e' = fd_data e1" "ep_interest e' = (ep_interest e1)(?fd := wanted ?N ?fd)"
          "evtlist_cnt e' = evtlist_cnt e1" "fd_data_size e' = fd_data_size e"
        using run changed e1(4) some by (auto simp: defs wanted_def)
      have "ep_fits ({} - {?fd}) ?N ?N e'"
        by (rule ep_register [OF but r(2,3)]) (use r(4) e1(1) int(1) False some in \<open>simp add: wanted_def\<close>)
      then show ?thesis using r by simp
    qed
  qed
  then show "r = None \<Longrightarrow> ep_fits {} ?N ?N e'" "r \<noteq> None \<Longrightarrow> ep_fits {} ?N N e' \<and> asked N ?fd = {}"
    "fd_data_size e' = fd_data_size e" by blast+
qed

text \<open>Undoing a partial addition whose last registration was refused.\<close>

lemma del_last_ok:
  assumes fits: "ep_fits {} (also_reqs [pd] N) N e" and none: "asked N (pd_fd pd) = {}" and pd: "valid_pd pd"
  shows "ep_fits {} N N (pollset_del_one os pd e)"
proof -
  let ?fd = "pd_fd pd"
  define e1 where "e1 = upd_fd ?fd (count_events (-1) (pd_events pd)) e"
  have c: "counts_fit (also_reqs [pd] N) e" "counts_fit N e1" using fits counts_del by (auto simp: ep_fits_def e1_def)
  have ev: "epoll_events e ?fd = asked (also_reqs [pd] N) ?fd" "epoll_events e1 ?fd = asked N ?fd"
    using c by (simp_all add: events_asked)
  have e1: "ep_interest e1 = ep_interest e" "evtlist_cnt e1 = evtlist_cnt e" "fired e1 = fired e"
    by (simp_all add: e1_def fun_eq_iff)
  have "ep_interest e ?fd = None" "fired e ?fd = {}" using fits none by (simp_all add: ep_fits_def wanted_def)
  then have "pollset_del_one os pd e = e1"
    using ev e1 none by (auto simp: pollset_del_one_def e1_def [symmetric] Let_def)
  then show ?thesis using fits c(2) e1 by (auto simp: ep_fits_def)
qed

lemma unroll_ok:
  assumes "ep_fits {} (also_reqs (pds @ [pd]) N) (also_reqs pds N) e" and "asked (also_reqs pds N) (pd_fd pd) = {}"
    and "\<forall>x \<in> set (pds @ [pd]). valid_pd x"
  shows "ep_fits {} N N (epoll_pollset_del os (pds @ [pd]) e)"
  using assms
proof (induction pds arbitrary: e)
  case Nil
  then show ?case using del_last_ok by (simp add: epoll_pollset_del_def)
next
  case (Cons x pds)
  let ?M = "also_reqs pds N"
  have eq: "also_reqs (x # pds @ [pd]) N = also_reqs [x] (also_reqs [pd] ?M)" "also_reqs (x # pds) N = also_reqs [x] ?M"
    "also_reqs (pds @ [pd]) N = also_reqs [pd] ?M"
    by (auto simp: also_reqs_def reqs_Cons reqs_append fun_eq_iff)
  have x: "valid_pd x" using Cons.prems(3) by simp
  have ne: "pd_fd x \<noteq> pd_fd pd" using Cons.prems(2) asked_one [OF x, of ?M] x by (auto simp: eq(2) valid_pd_def)
  have none: "asked ?M (pd_fd pd) = {}" using Cons.prems(2) asked_mono [of ?M "pd_fd pd" "[x]"] by (auto simp: eq(2))
  have "ep_fits {} (also_reqs [pd] ?M) ?M (pollset_del_one os x e)"
    by (rule del_one_ok) (use Cons.prems(1) ne in \<open>simp_all add: eq asked_other asked_one [OF x]\<close>)
  then show ?case using Cons.IH [of "pollset_del_one os x e"] none Cons.prems(3) by (simp add: eq(3) epoll_pollset_del_def)
qed

lemma add_loop_ok:
  assumes "ep_fits {} (also_reqs done N) (also_reqs done N) e" and "\<forall>pd \<in> set pds. valid_pd pd" and "os_ok os"
    and "pollset_add_loop os pds (length done) e = (r, e')"
  shows "fd_data_size e' = fd_data_size e \<and>
    (case r of
       None \<Rightarrow> ep_fits {} (also_reqs (done @ pds) N) (also_reqs (done @ pds) N) e'
     | Some (i, err) \<Rightarrow> \<exists>pre pd post. done @ pds = pre @ pd # post \<and> i = length pre \<and>
         ep_fits {} (also_reqs (pre @ [pd]) N) (also_reqs pre N) e' \<and> asked (also_reqs pre N) (pd_fd pd) = {})"
  using assms
proof (induction pds arbitrary: "done" e)
  case (Cons pd pds)
  obtain r1 e1 where one: "pollset_add_one os pd e = (r1, e1)" by fastforce
  have pd: "valid_pd pd" using Cons.prems(2) by simp
  note step = add_one_ok [OF Cons.prems(1) pd Cons.prems(3) one]
  have eq: "also_reqs [pd] (also_reqs done N) = also_reqs (done @ [pd]) N"
    by (auto simp: also_reqs_def reqs_Cons reqs_append fun_eq_iff)
  show ?case
  proof (cases r1)
    case None
    then have "ep_fits {} (also_reqs (done @ [pd]) N) (also_reqs (done @ [pd]) N) e1" using step(1) eq by simp
    then show ?thesis
      using Cons.IH [of "done @ [pd]" e1] Cons.prems(2-4) one None step(3) by (cases r) auto
  next
    case (Some err)
    then have "r = Some (length done, err)" "e' = e1" using Cons.prems(4) one by auto
    then show ?thesis using step(2,3) Some eq by auto
  qed
qed simp

lemma grow_ge: "0 < n \<Longrightarrow> m < grow n m \<and> n \<le> grow n m"
proof (induction n m rule: grow.induct)
  case (1 n m)
  then show ?case by (subst (1 2) grow.simps) (auto intro: order_trans [of n "2 * n"])
qed

lemma check_ok:
  assumes "ep_fits {} N N e" and "in_array N e" and "pollset_check os pds e = (r, e')"
  shows "ep_fits {} N N e' \<and> in_array N e' \<and> fd_data_size e \<le> fd_data_size e' \<and>
    (r = None \<longrightarrow> (\<forall>pd \<in> set pds. valid_pd pd \<and> pd_fd pd < int (fd_data_size e')))"
  using assms
proof (induction pds arbitrary: e)
  case (Cons pd pds)
  show ?case
  proof (cases "pd_fd pd < 0 \<or> pd_events pd = {} \<or> \<not> pd_events pd \<subseteq> {POLLIN, POLLOUT, POLLPRI}")
    case True
    then show ?thesis using Cons.prems by auto
  next
    case False
    then have valid: "valid_pd pd" by (auto simp: valid_pd_def)
    show ?thesis
    proof (cases "int (fd_data_size e) \<le> pd_fd pd \<and> \<not> os_realloc_ok os")
      case True
      then show ?thesis using Cons.prems False by (auto simp: epoll_fd_data_expand_def)
    next
      case room: False
      define e1 where "e1 = (if int (fd_data_size e) \<le> pd_fd pd then snd (epoll_fd_data_expand os (pd_fd pd) e) else e)"
      have run: "pollset_check os pds e1 = (r, e')"
        using Cons.prems(3) False room by (auto simp: e1_def epoll_fd_data_expand_def Let_def split: if_splits)
      have size: "fd_data_size e \<le> fd_data_size e1" "pd_fd pd < int (fd_data_size e1)"
        using grow_ge [of "fd_data_size e" "nat (pd_fd pd)"] room Cons.prems(2) False
        by (auto simp: e1_def epoll_fd_data_expand_def Let_def in_array_def)
      have zero: "N f fd = 0" if "int (fd_data_size e) \<le> fd" "f \<in> {POLLIN, POLLOUT, POLLPRI}" for f fd
        using Cons.prems(2) that unfolding in_array_def by (meson not_less)
      have data: "counts_fit N e1" "fired e1 = fired e"
        using Cons.prems(1) zero
        by (auto simp: e1_def epoll_fd_data_expand_def Let_def counts_fit_def ep_fits_def in_array_def fd_data_zero_def fired_def fun_eq_iff)
      have "ep_interest e1 = ep_interest e" "evtlist_cnt e1 = evtlist_cnt e"
        by (simp_all add: e1_def epoll_fd_data_expand_def Let_def)
      then have "ep_fits {} N N e1" using Cons.prems(1) data by (auto simp: ep_fits_def)
      moreover have "in_array N e1" using Cons.prems(2) size(1) by (force simp: in_array_def)
      ultimately have "ep_fits {} N N e' \<and> in_array N e' \<and> fd_data_size e1 \<le> fd_data_size e' \<and>
          (r = None \<longrightarrow> (\<forall>pd \<in> set pds. valid_pd pd \<and> pd_fd pd < int (fd_data_size e')))"
        using Cons.IH run by blast
      then show ?thesis using size valid by auto
    qed
  qed
qed simp

theorem pollset_add_ok:
  assumes fits: "ep_fits {} N N e" "in_array N e" and os: "os_ok os" and run: "epoll_pollset_add os pds e = (r, e')"
  shows "if r = None then ep_fits {} (also_reqs pds N) (also_reqs pds N) e' \<and> in_array (also_reqs pds N) e' \<and>
      (\<forall>pd \<in> set pds. valid_pd pd) else ep_fits {} N N e' \<and> in_array N e'"
proof -
  obtain r1 e1 where check: "pollset_check os pds e = (r1, e1)" by fastforce
  note c = check_ok [OF fits check]
  show ?thesis
  proof (cases r1)
    case None
    obtain r2 e2 where loop: "pollset_add_loop os pds 0 e1 = (r2, e2)" by fastforce
    have valid: "\<forall>pd \<in> set pds. valid_pd pd" using c None by blast
    have l: "fd_data_size e2 = fd_data_size e1 \<and> (case r2 of
       None \<Rightarrow> ep_fits {} (also_reqs pds N) (also_reqs pds N) e2
     | Some (i, err) \<Rightarrow> \<exists>pre pd post. pds = pre @ pd # post \<and> i = length pre \<and>
         ep_fits {} (also_reqs (pre @ [pd]) N) (also_reqs pre N) e2 \<and> asked (also_reqs pre N) (pd_fd pd) = {})"
      using add_loop_ok [of "[]" N e1 pds os r2 e2] c loop valid os by (cases r2) auto
    show ?thesis
    proof (cases r2)
      case None2: None
      have "in_array (also_reqs pds N) e2"
        using c None l by (force simp: in_array_def also_reqs_def reqs_def filter_empty_conv valid_pd_def)
      then show ?thesis using run check None loop None2 l valid by (simp add: epoll_pollset_add_def)
    next
      case (Some f)
      obtain i err where f: "f = (i, err)" by fastforce
      obtain pre pd post where p: "pds = pre @ pd # post" "i = length pre"
          "ep_fits {} (also_reqs (pre @ [pd]) N) (also_reqs pre N) e2" "asked (also_reqs pre N) (pd_fd pd) = {}"
        using l Some f by auto
      have "ep_fits {} N N (epoll_pollset_del os (pre @ [pd]) e2)"
        by (rule unroll_ok [OF p(3,4)]) (use valid p(1) in auto)
      moreover have "in_array N (epoll_pollset_del os (pre @ [pd]) e2)"
        using c l by (simp add: in_array_def pollset_del_size)
      ultimately show ?thesis using run check None loop Some f p(1,2) by (auto simp: epoll_pollset_add_def)
    qed
  next
    case (Some err)
    then show ?thesis using run check c by (auto simp: epoll_pollset_add_def)
  qed
qed

section \<open>Dispatching\<close>

definition pds_of :: "st_vp \<Rightarrow> tid \<Rightarrow> pollfd list" where
  "pds_of s a = pq_pds (t_pollq (view s a))"

text \<open>The requests of the threads on the I/O queue.\<close>

definition io_reqs :: "st_vp \<Rightarrow> requests" where
  "io_reqs s = reqs (concat (map (pds_of s) (io_q s)))"

definition polls_fit :: "st_vp \<Rightarrow> bool" where
  "polls_fit s \<longleftrightarrow> (\<forall>a \<in> live s. t_state (view s a) = IO_WAIT \<longrightarrow> pq_on_ioq (t_pollq (view s a)))"

definition ev_inv :: "st_vp \<Rightarrow> bool" where
  "ev_inv s \<longleftrightarrow> ep_fits {} (io_reqs s) (io_reqs s) (ep s) \<and> in_array (io_reqs s) (ep s) \<and> polls_fit s"

text \<open>Whether a thread on the I/O queue has something to be told.\<close>

definition hit :: "st_epolldata \<Rightarrow> pollfd list \<Rightarrow> bool" where
  "hit e pds \<longleftrightarrow> (\<exists>pd \<in> set pds. pd_revents (poll_result e pd) \<noteq> {})"

definition answered :: "st_epolldata \<Rightarrow> st_thread \<Rightarrow> st_thread" where
  "answered e t = t\<lparr>t_pollq := (t_pollq t)\<lparr>pq_pds := map (poll_result e) (pq_pds (t_pollq t))\<rparr>\<rparr>"

definition taken_off :: "st_thread \<Rightarrow> st_thread" where
  "taken_off t = t\<lparr>t_pollq := (t_pollq t)\<lparr>pq_on_ioq := False\<rparr>\<rparr>"

lemma poll_result_simps [simp]: "pd_fd (poll_result e pd) = pd_fd pd" "pd_events (poll_result e pd) = pd_events pd"
  by (simp_all add: poll_result_def)

lemma reqs_results: "reqs (map (poll_result e) pds) = reqs pds"
  by (auto simp: reqs_def fun_eq_iff filter_map o_def)

lemma reqs_remove1:
  "a \<in> set q \<Longrightarrow> reqs (concat (map p q)) = also_reqs (p a) (reqs (concat (map p (remove1 a q))))"
  by (induction q) (auto simp: reqs_append also_reqs_def fun_eq_iff)

lemma reqs_concat_cong:
  "(\<And>a. a \<in> set q \<Longrightarrow> reqs (p a) = reqs (p' a)) \<Longrightarrow> reqs (concat (map p q)) = reqs (concat (map p' q))"
  by (induction q) (auto simp: reqs_append fun_eq_iff)

lemma fired_del [simp]: "fired (epoll_pollset_del os pds e) = fired e"
proof -
  have ctl: "fd_data (snd (epoll_ctl os op fd ev e)) = fd_data e" for op fd ev e
    by (cases op) (auto split: option.split)
  have "fd_data (pollset_del_one os pd e) = fd_data (upd_fd (pd_fd pd) (count_events (- 1) (pd_events pd)) e)" for pd e
    using ctl by (simp add: pollset_del_one_def Let_def split_beta)
  then have "fired (pollset_del_one os pd e) = fired e" for pd e by (simp add: fired_def fun_eq_iff)
  then show ?thesis by (induction pds arbitrary: e) (simp_all add: epoll_pollset_del_def)
qed

lemma poll_result_fired: "fired e' = fired e \<Longrightarrow> poll_result e' = poll_result e"
  by (simp add: poll_result_def fun_eq_iff)

lemma taken_off_simps [simp]:
  "t_state (taken_off t) = t_state t" "t_context (taken_off t) = t_context t" "t_on_sleepq (taken_off t) = t_on_sleepq t"
  "t_idle_thread (taken_off t) = t_idle_thread t" "t_interrupt (taken_off t) = t_interrupt t"
  "pq_on_ioq (t_pollq (taken_off t)) = False" "pq_pds (t_pollq (taken_off t)) = pq_pds (t_pollq t)" "fits (taken_off t) = fits t"
  by (simp_all add: taken_off_def fits_def)

lemma answered_simps [simp]:
  "t_state (answered e t) = t_state t" "t_context (answered e t) = t_context t" "t_on_sleepq (answered e t) = t_on_sleepq t"
  "t_idle_thread (answered e t) = t_idle_thread t" "t_interrupt (answered e t) = t_interrupt t"
  "pq_on_ioq (t_pollq (answered e t)) = pq_on_ioq (t_pollq t)"
  "pq_pds (t_pollq (answered e t)) = map (poll_result e) (pq_pds (t_pollq t))" "fits (answered e t) = fits t"
  by (simp_all add: answered_def fits_def)

text \<open>
  A change of the poll request of a thread that is not waiting in a queue of the request: only the I/O queue
  is concerned.
\<close>

lemma vp_inv_pollq:
  assumes inv: "vp_inv r s" and x: "x \<in> live s" and view: "view s' = (view s)(x := t')"
    and t': "t' = (view s x)\<lparr>t_pollq := pq\<rparr>" and io: "queue_fits on_io (live s) ((view s)(x := t')) (io_q s')"
    and same: "idle_thread s' = idle_thread s" "thread_q s' = thread_q s" "run_q s' = run_q s" "zombie_q s' = zombie_q s"
      "conds s' = conds s" "mutexes s' = mutexes s" "free_stacks s' = free_stacks s" "next_obj s' = next_obj s"
    and sleep: "sleepq_holds s' (sleepers (live s) (view s))"
  shows "vp_inv r s'"
proof -
  have fit: "threads_fit r (idle_thread s) (live s) (view s)" "mutexes_fit (live s) (view s) (mutexes s)"
    "conds_fit (live s) (view s) (conds s)" "queue_fits on_run (live s) (view s) (run_q s)"
    "queue_fits (\<lambda>t. t_state t = ZOMBIE) (live s) (view s) (zombie_q s)"
    using inv by (simp_all add: vp_inv_def)
  have "fits (view s x)" using fit(1) x by (simp add: threads_fit_def)
  then have ok: "fits t'" by (simp add: t' fits_def)
  have "threads_fit r (idle_thread s) (live s) ((view s)(x := t'))"
    by (rule threads_update [OF fit(1) ok _ _ _ x]) (use fit(1) x t' in \<open>auto simp: threads_fit_def\<close>)
  moreover have "mutexes_fit (live s) ((view s)(x := t')) (mutexes s)"
    by (rule mutexes_update [OF fit(2)])
      (use fit(2) x t' in \<open>auto simp: mutexes_fit_def mutex_fits_def handed_def split: if_splits\<close>)
  moreover have "sleepers (live s) ((view s)(x := t')) = sleepers (live s) (view s)"
    by (rule sleepers_same) (simp add: t')
  moreover have "live s' = live s" using same(2) by (simp add: live_def)
  ultimately show ?thesis
    using inv io same sleep fit(3-5) by (simp add: vp_inv_def view queue_same conds_same t' on_run_def)
qed

lemma pds_of_fields [simp]: "pds_of (s\<lparr>ep := e\<rparr>) = pds_of s" "pds_of (s\<lparr>run_q := q\<rparr>) = pds_of s" "pds_of (s\<lparr>io_q := q\<rparr>) = pds_of s"
  by (simp_all add: pds_of_def view_def fun_eq_iff)

text \<open>What dispatching leaves alone.\<close>

definition same_but_io :: "st_vp \<Rightarrow> st_vp \<Rightarrow> bool" where
  "same_but_io s s' \<longleftrightarrow> idle_thread s' = idle_thread s \<and> last_clock s' = last_clock s \<and> zombie_q s' = zombie_q s \<and>
     thread_q s' = thread_q s \<and> this_thread s' = this_thread s \<and> active_count s' = active_count s \<and>
     conds s' = conds s \<and> mutexes s' = mutexes s \<and> free_stacks s' = free_stacks s \<and> next_obj s' = next_obj s \<and>
     live s' = live s \<and> fd_data_size (ep s') = fd_data_size (ep s) \<and> pagesize s' = pagesize s"

lemma same_but_io_trans: "same_but_io s s1 \<Longrightarrow> same_but_io s1 s2 \<Longrightarrow> same_but_io s s2"
  by (simp add: same_but_io_def)

lemma view_fields [simp]:
  "view (s\<lparr>io_q := q\<rparr>) = view s" "view (s\<lparr>ep := e\<rparr>) = view s" "view (s\<lparr>run_q := q\<rparr>) = view s"
  "live (s\<lparr>io_q := q\<rparr>) = live s" "live (s\<lparr>ep := e\<rparr>) = live s" "live (s\<lparr>run_q := q\<rparr>) = live s" "live (upd a f s) = live s"
  by (simp_all add: view_def live_def fun_eq_iff upd_def)

lemma notify_one_ok:
  assumes inv: "vp_inv r s" and a: "a \<in> set (io_q s)" and st: "t_state (view s a) = IO_WAIT"
    and fits: "ep_fits F (io_reqs s) (io_reqs s) (ep s)"
  defines "e \<equiv> ep s"
  shows "\<exists>s'. notify_one os a s = Some s' \<and> vp_inv r s' \<and> ep_fits F (io_reqs s') (io_reqs s') (ep s') \<and>
    fired (ep s') = fired e \<and> same_but_io s s' \<and>
    (if hit e (pds_of s a)
     then view s' = (view s)(a := woken (taken_off (answered e (view s a)))) \<and> run_q s' = run_q s @ [a] \<and>
       io_q s' = remove1 a (io_q s)
     else view s' = (view s)(a := answered e (view s a)) \<and> run_q s' = run_q s \<and> io_q s' = io_q s)"
proof -
  let ?pds = "map (poll_result e) (pq_pds (t_pollq (threads s a)))"
  have ioq: "queue_fits on_io (live s) (view s) (io_q s)" using inv by (simp add: vp_inv_def)
  have x: "a \<in> live s" "on_io (view s a)" using ioq a by (auto simp: queue_fits_def exactly_def)
  define s1 where "s1 = upd a (\<lambda>t. t\<lparr>t_pollq := (t_pollq t)\<lparr>pq_pds := ?pds\<rparr>\<rparr>) s"
  have view1: "view s1 = (view s)(a := answered e (view s a))"
    by (auto simp: s1_def answered_def view_def fun_eq_iff)
  have sleep1: "sleepq_holds s1 (sleepers (live s) (view s))"
    using inv by (simp add: s1_def vp_inv_def sleepq_holds_upd)
  have same1: "io_q s1 = io_q s" "run_q s1 = run_q s" "ep s1 = e" "same_but_io s s1"
    by (simp_all add: s1_def upd_def e_def same_but_io_def live_def)
  have inv1: "vp_inv r s1"
    by (rule vp_inv_pollq [OF inv x(1) view1 _ _ _ _ _ _ _ _ _ _ sleep1])
      (use ioq in \<open>simp_all add: answered_def s1_def upd_def, subst queue_same, simp_all add: on_io_def\<close>)
  have reqs1: "io_reqs s1 = io_reqs s"
    unfolding io_reqs_def same1(1) by (rule reqs_concat_cong) (simp add: pds_of_def view1 reqs_results)
  have hits: "hit e (pds_of s a) \<longleftrightarrow> (\<exists>pd \<in> set ?pds. pd_revents pd \<noteq> {})"
    by (simp add: hit_def pds_of_def view_def)
  show ?thesis
  proof (cases "hit e (pds_of s a)")
    case False
    then have "notify_one os a s = Some s1" using hits by (simp add: notify_one_def s1_def e_def Let_def)
    then show ?thesis using False inv1 same1 view1 fits reqs1 by (auto simp: e_def)
  next
    case True
    define s2 where "s2 = upd a (\<lambda>t. t\<lparr>t_pollq := (t_pollq t)\<lparr>pq_on_ioq := False\<rparr>\<rparr>) (s1\<lparr>io_q := remove1 a (io_q s1)\<rparr>)"
    define s3 where "s3 = ep_change (epoll_pollset_del os ?pds) s2"
    have run: "notify_one os a s = wake_up a s3"
      using True hits by (simp add: notify_one_def s1_def s2_def s3_def e_def Let_def)
    have view2: "view s2 = (view s1)(a := taken_off (view s1 a))"
      by (auto simp: s2_def taken_off_def view_def fun_eq_iff upd_def)
    have sleep2: "sleepq_holds s2 (sleepers (live s1) (view s1))"
      using inv1 by (simp add: s2_def vp_inv_def sleepq_holds_upd)
    have ioq1: "queue_fits on_io (live s1) (view s1) (io_q s1)" using inv1 by (simp add: vp_inv_def)
    have live1: "live s1 = live s" using same1(4) by (simp add: same_but_io_def)
    have "queue_fits on_io (live s1) ((view s1)(a := taken_off (view s1 a))) (remove1 a (io_q s1))"
      by (rule queue_remove [OF ioq1]) (simp add: on_io_def)
    then have inv2: "vp_inv r s2"
      using x(1) by (intro vp_inv_pollq [OF inv1 _ view2 _ _ _ _ _ _ _ _ _ _ sleep2]) (simp_all add: live1 taken_off_def s2_def upd_def)
    have inv3: "vp_inv r s3" using inv2 by (simp add: s3_def ep_change_def vp_inv_def)
    have st3: "view s3 a = taken_off (answered e (view s a))" "live s3 = live s" using view2 view1
      by (simp_all add: s3_def ep_change_def live1 s2_def)
    have ctx: "t_context (view s3 a) = In_poll" using x(2) st3 by (simp add: on_io_def)
    obtain s' where s': "wake_up a s3 = Some s'" "vp_inv r s'" "wakes [a] s3 s'"
      using wake_up_ok [OF inv3, of a] x(1) st st3 ctx by auto
    have view': "view s' = (view s)(a := woken (taken_off (answered e (view s a))))"
      using s'(3) view1 view2 by (auto simp: wakes_def s3_def ep_change_def fun_eq_iff)
    have io': "io_q s' = remove1 a (io_q s)" "run_q s' = run_q s @ [a]" "ep s' = epoll_pollset_del os ?pds e"
      using s'(3) same1 by (simp_all add: wakes_def same_outside_def s3_def s2_def ep_change_def upd_def)
    have dist: "distinct (io_q s)" using ioq by (simp add: queue_fits_def exactly_def)
    have "io_reqs s' = reqs (concat (map (pds_of s) (remove1 a (io_q s))))"
      unfolding io_reqs_def io'(1) by (rule reqs_concat_cong) (use dist in \<open>auto simp: pds_of_def view'\<close>)
    moreover have "io_reqs s = also_reqs ?pds (reqs (concat (map (pds_of s) (remove1 a (io_q s)))))"
      using reqs_remove1 [OF a, of "pds_of s"] reqs_results [of e "pds_of s a"]
      by (simp add: io_reqs_def also_reqs_def pds_of_def view_def)
    ultimately have "ep_fits F (io_reqs s') (io_reqs s') (ep s')"
      using pollset_del_ok [of F ?pds "io_reqs s'" e os] fits io'(3) by (simp add: e_def)
    moreover have "same_but_io s s'"
      using s'(3) same1(4) io'(3)
      by (simp add: same_but_io_def wakes_def same_outside_def s3_def s2_def ep_change_def upd_def live_def pollset_del_size e_def)
    ultimately show ?thesis using run s'(1,2) view' io' True by simp
  qed
qed

definition notified :: "st_epolldata \<Rightarrow> st_vp \<Rightarrow> tid list \<Rightarrow> tid list" where
  "notified e s as = filter (\<lambda>a. hit e (pds_of s a)) as"

lemma filter_remove: "distinct q \<Longrightarrow> filter (\<lambda>b. b \<notin> set xs) (remove1 a q) = filter (\<lambda>b. b \<notin> insert a (set xs)) q"
  by (induction q) (auto intro: filter_cong)

lemma hit_fired: "fired e' = fired e \<Longrightarrow> hit e' = hit e"
  using poll_result_fired [of e' e] by (auto simp: hit_def fun_eq_iff)

lemma answered_fired: "fired e' = fired e \<Longrightarrow> answered e' = answered e"
  using poll_result_fired [of e' e] by (simp only: answered_def fun_eq_iff) simp

lemma notify_all_ok:
  assumes "vp_inv r s" and "distinct as" and "\<forall>a \<in> set as. a \<in> set (io_q s) \<and> t_state (view s a) = IO_WAIT"
    and "ep_fits F (io_reqs s) (io_reqs s) (ep s)" and "fired (ep s) = fired e"
  shows "\<exists>s'. notify_all os as s = Some s' \<and> vp_inv r s' \<and> ep_fits F (io_reqs s') (io_reqs s') (ep s') \<and>
    same_but_io s s' \<and> run_q s' = run_q s @ notified e s as \<and>
    io_q s' = filter (\<lambda>a. a \<notin> set (notified e s as)) (io_q s) \<and>
    view s' = (\<lambda>a. if a \<in> set (notified e s as) then woken (taken_off (answered e (view s a)))
                    else if a \<in> set as then answered e (view s a) else view s a)"
  using assms
proof (induction as arbitrary: s)
  case Nil
  then show ?case by (auto simp: notified_def same_but_io_def)
next
  case (Cons a as)
  have dist: "distinct (io_q s)" using Cons.prems(1) by (simp add: vp_inv_def queue_fits_def exactly_def)
  have res: "poll_result (ep s) = poll_result e" "hit (ep s) = hit e" "answered (ep s) = answered e"
    by (rule poll_result_fired hit_fired answered_fired, rule Cons.prems(5))+
  obtain s1 where s1: "notify_one os a s = Some s1" "vp_inv r s1" "ep_fits F (io_reqs s1) (io_reqs s1) (ep s1)"
      "fired (ep s1) = fired e" "same_but_io s s1"
    and step: "if hit e (pds_of s a)
       then view s1 = (view s)(a := woken (taken_off (answered e (view s a)))) \<and> run_q s1 = run_q s @ [a] \<and>
         io_q s1 = remove1 a (io_q s)
       else view s1 = (view s)(a := answered e (view s a)) \<and> run_q s1 = run_q s \<and> io_q s1 = io_q s"
    using notify_one_ok [OF Cons.prems(1) _ _ Cons.prems(4), of a os] Cons.prems(3,5) res by auto
  have other: "view s1 b = view s b" if "b \<noteq> a" for b using step that by (auto split: if_splits)
  have pre: "\<forall>b \<in> set as. b \<in> set (io_q s1) \<and> t_state (view s1 b) = IO_WAIT"
    using Cons.prems(2,3) step other by (auto split: if_splits)
  have same: "notified e s1 as = notified e s as"
    unfolding notified_def
  proof (rule filter_cong [OF refl])
    fix b assume "b \<in> set as"
    then have "view s1 b = view s b" using Cons.prems(2) by (intro other) auto
    then show "hit e (pds_of s1 b) = hit e (pds_of s b)" by (simp add: pds_of_def)
  qed
  obtain s' where s': "notify_all os as s1 = Some s'" "vp_inv r s'" "ep_fits F (io_reqs s') (io_reqs s') (ep s')"
      "same_but_io s1 s'" "run_q s' = run_q s1 @ notified e s as"
      "io_q s' = filter (\<lambda>a. a \<notin> set (notified e s as)) (io_q s1)"
      "view s' = (\<lambda>a. if a \<in> set (notified e s as) then woken (taken_off (answered e (view s1 a)))
                    else if a \<in> set as then answered e (view s1 a) else view s1 a)"
    using Cons.IH [OF s1(2) _ pre s1(3,4)] Cons.prems(2) unfolding same by auto
  have new: "notified e s (a # as) = (if hit e (pds_of s a) then a # notified e s as else notified e s as)"
    by (simp add: notified_def)
  have a: "a \<notin> set as" "a \<notin> set (notified e s as)" using Cons.prems(2) by (auto simp: notified_def)
  have "view s' = (\<lambda>b. if b \<in> set (notified e s (a # as)) then woken (taken_off (answered e (view s b)))
                    else if b \<in> set (a # as) then answered e (view s b) else view s b)"
  proof
    fix b
    show "view s' b = (if b \<in> set (notified e s (a # as)) then woken (taken_off (answered e (view s b)))
                    else if b \<in> set (a # as) then answered e (view s b) else view s b)"
      using step a other [of b] by (cases "b = a") (auto simp: s'(7) new split: if_splits)
  qed
  moreover have "io_q s' = filter (\<lambda>b. b \<notin> set (notified e s (a # as))) (io_q s)"
    using step dist by (auto simp: s'(6) new filter_remove)
  ultimately show ?case
    using s1(1,5) s'(1-5) step same_but_io_trans by (auto simp: new split: if_splits)
qed

text \<open>Noting the reports.\<close>

definition reports :: "(int \<times> poll_bits) list \<Rightarrow> requests \<Rightarrow> int \<Rightarrow> poll_bits" where
  "reports evs N fd =
     (case map_of evs fd of
        None \<Rightarrow> {}
      | Some bits \<Rightarrow> if bits \<inter> {POLLERR, POLLHUP} \<noteq> {} then bits \<union> asked N fd else bits)"

lemma note_event_simps:
  "ep_interest (note_event ev e) = ep_interest e" "evtlist_cnt (note_event ev e) = evtlist_cnt e"
  "fd_data_size (note_event ev e) = fd_data_size e" "counts_fit N (note_event ev e) = counts_fit N e"
  by (auto simp: note_event_def counts_fit_def split: prod.split)

lemma note_events:
  assumes "counts_fit N e" and "distinct (map fst evs)"
  defines "e' \<equiv> fold note_event evs e"
  shows "ep_interest e' = ep_interest e \<and> evtlist_cnt e' = evtlist_cnt e \<and> fd_data_size e' = fd_data_size e \<and>
    counts_fit N e' \<and> fired e' = (\<lambda>fd. if fd \<in> fst ` set evs then reports evs N fd else fired e fd)"
  using assms(1,2) unfolding e'_def
proof (induction evs arbitrary: e)
  case (Cons ev evs)
  obtain fd bits where ev: "ev = (fd, bits)" by fastforce
  have "fired (note_event ev e) = (fired e)(fd := reports [ev] N fd)"
    using events_asked [OF Cons.prems(1)] by (auto simp: ev note_event_def fired_def reports_def fun_eq_iff)
  then show ?case
    using Cons.IH [of "note_event ev e"] Cons.prems
    by (auto simp: note_event_simps fun_eq_iff reports_def ev image_iff split: option.splits)
qed simp

lemma note_events_fit:
  assumes fits: "ep_fits {} N N e" and dist: "distinct (map fst evs)"
    and ok: "\<forall>(fd, bits) \<in> set evs. bits \<noteq> {} \<and> ep_interest e fd \<noteq> None"
  shows "ep_fits (fst ` set evs) N N (fold note_event evs e)"
proof -
  have "counts_fit N e" using fits by (simp add: ep_fits_def)
  note n = note_events [OF this dist]
  have "reports evs N fd \<noteq> {}" if fd: "fd \<in> fst ` set evs" for fd
  proof -
    obtain bits where "(fd, bits) \<in> set evs" using fd by force
    then show ?thesis using ok dist by (auto simp: reports_def)
  qed
  then show ?thesis using n fits ok by (auto simp: ep_fits_def split: prod.splits)
qed

text \<open>Settling the descriptors that fired.\<close>

lemma settle_event_ok:
  assumes fits: "ep_fits F N N e" and fd: "fst ev \<in> F"
  shows "ep_fits (F - {fst ev}) N N (settle_event os ev e)" and "fd_data_size (settle_event os ev e) = fd_data_size e"
proof -
  let ?fd = "fst ev"
  define e1 where "e1 = upd_fd ?fd (\<lambda>x. x\<lparr>ep_revents := {}\<rparr>) e"
  have c: "counts_fit N e1" using fits by (auto simp: ep_fits_def counts_fit_def e1_def)
  have ev: "epoll_events e1 ?fd = asked N ?fd" using events_asked [OF c] .
  have e1: "ep_interest e1 = ep_interest e" "evtlist_cnt e1 = evtlist_cnt e" "fired e1 = (fired e)(?fd := {})"
    "fd_data_size e1 = fd_data_size e"
    by (auto simp: e1_def fired_def fun_eq_iff)
  have int: "ep_interest e ?fd \<noteq> None" using fits fd by (auto simp: ep_fits_def)
  have but: "fits_but ?fd F N N e1" using fits c e1 by (auto simp: fits_but_def ep_fits_def)
  have r: "fd_data (settle_event os ev e) = fd_data e1"
    "ep_interest (settle_event os ev e) = (ep_interest e1)(?fd := wanted N ?fd)"
    "evtlist_cnt (settle_event os ev e) = evtlist_cnt e1 + of_bool (wanted N ?fd \<noteq> None) - of_bool (ep_interest e1 ?fd \<noteq> None)"
    "fd_data_size (settle_event os ev e) = fd_data_size e1"
    using int e1 by (auto simp: settle_event_def e1_def [symmetric] Let_def ev wanted_def)
  show "ep_fits (F - {?fd}) N N (settle_event os ev e)" by (rule ep_register [OF but r(1,2,3)])
  show "fd_data_size (settle_event os ev e) = fd_data_size e" using r(4) e1(4) by simp
qed

lemma settle_events_ok:
  assumes "ep_fits (fst ` set evs) N N e" and "distinct (map fst evs)"
  shows "ep_fits {} N N (fold (settle_event os) evs e) \<and> fd_data_size (fold (settle_event os) evs e) = fd_data_size e"
  using assms
proof (induction evs arbitrary: e)
  case (Cons ev evs)
  have "ep_fits (fst ` set (ev # evs) - {fst ev}) N N (settle_event os ev e)"
    using settle_event_ok(1) [OF Cons.prems(1), of ev os] by simp
  moreover have "fst ` set (ev # evs) - {fst ev} = fst ` set evs" using Cons.prems(2) by (auto simp: image_iff)
  ultimately show ?case using Cons.IH [of "settle_event os ev e"] settle_event_ok(2) [OF Cons.prems(1), of ev os] Cons.prems(2)
    by simp
qed simp

text \<open>
  Dispatching, when no thread is runnable and the process has not forked: exactly the threads one of whose
  requests was reported become runnable, in the order in which they wait; their requests are
  answered; the others go on waiting and the kernel is registered for just what they ask for.
\<close>

definition reports_ok :: "(int \<times> poll_bits) list \<Rightarrow> st_vp \<Rightarrow> bool" where
  "reports_ok evs s \<longleftrightarrow> distinct (map fst evs) \<and> (\<forall>(fd, bits) \<in> set evs. bits \<noteq> {} \<and> ep_interest (ep s) fd \<noteq> None)"

definition told :: "(int \<times> poll_bits) list \<Rightarrow> requests \<Rightarrow> pollfd \<Rightarrow> poll_bits" where
  "told evs N pd = (pd_events pd \<inter> reports evs N (pd_fd pd) \<inter> {POLLIN, POLLOUT, POLLPRI}) \<union>
     (reports evs N (pd_fd pd) \<inter> {POLLERR, POLLHUP})"

lemma epoll_dispatch_ok:
  assumes inv: "vp_inv r s" and ev: "ev_inv s" and idle: "run_q s = []" and r: "r = Some (idle_thread s)"
    and pid: "ep_pid (ep s) = os_pid os" and evs: "reports_ok evs s"
  shows "\<exists>s'. epoll_dispatch os evs s = Some s' \<and> vp_inv r s' \<and> ev_inv s' \<and> same_but_io s s' \<and>
    run_q s' = filter (\<lambda>a. \<exists>pd \<in> set (pds_of s a). told evs (io_reqs s) pd \<noteq> {}) (io_q s) \<and>
    io_q s' = filter (\<lambda>a. a \<notin> set (run_q s')) (io_q s) \<and>
    (\<forall>a \<in> set (run_q s'). map pd_revents (pds_of s' a) = map (told evs (io_reqs s)) (pds_of s a)) \<and>
    (\<forall>a. a \<notin> set (io_q s) \<longrightarrow> view s' a = view s a) \<and>
    (\<forall>a. \<exists>pq. view s' a = (if a \<in> set (run_q s') then woken (view s a) else view s a)\<lparr>t_pollq := pq\<rparr>)"
proof (cases "evs = []")
  case True
  have "\<not> (\<exists>pd \<in> set (pds_of s a). told [] (io_reqs s) pd \<noteq> {})" for a by (simp add: told_def reports_def)
  moreover have "epoll_dispatch os evs s = Some s" using True pid by (simp add: epoll_dispatch_def epoll_reinit_def)
  moreover have "\<exists>pq. view s a = (view s a)\<lparr>t_pollq := pq\<rparr>" for a
    by (rule exI [of _ "t_pollq (view s a)"]) simp
  ultimately show ?thesis using True inv ev idle by (simp add: same_but_io_def)
next
  case False
  define N where "N = io_reqs s"
  define e where "e = fold note_event evs (ep s)"
  define s1 where "s1 = ep_change (fold note_event evs) s"
  have s1: "ep s1 = e" "view s1 = view s" "io_q s1 = io_q s" "run_q s1 = []" "vp_inv r s1" "pds_of s1 = pds_of s" "io_reqs s1 = N"
    "idle_thread s1 = idle_thread s"
    using inv idle by (simp_all add: s1_def e_def ep_change_def vp_inv_def pds_of_def io_reqs_def N_def fun_eq_iff)
  have fits: "ep_fits {} N N (ep s)" and array: "in_array N (ep s)" and polls: "polls_fit s"
    using ev by (simp_all add: ev_inv_def N_def)
  have dist: "distinct (map fst evs)" and ok: "\<forall>(fd, bits) \<in> set evs. bits \<noteq> {} \<and> ep_interest (ep s) fd \<noteq> None"
    using evs by (simp_all add: reports_ok_def)
  have counts: "counts_fit N (ep s)" using fits by (simp add: ep_fits_def)
  have fitsF: "ep_fits (fst ` set evs) N N e" using note_events_fit [OF fits dist ok] by (simp add: e_def)
  have fe: "fired e = reports evs N"
    using note_events [OF counts dist] fits by (auto simp: e_def ep_fits_def reports_def fun_eq_iff map_of_eq_None_iff [THEN iffD2])
  have told: "pd_revents (poll_result e pd) = told evs N pd" for pd by (simp add: poll_result_def told_def fe)
  have ioq: "exactly (io_q s) {a \<in> live s. on_io (view s a)}" using inv by (simp add: vp_inv_def queue_fits_def)
  have waiting: "t_state (view s a) = IO_WAIT" if "a \<in> set (io_q s)" for a
  proof -
    have a: "a \<in> live s" "t_context (view s a) = In_poll" using ioq that by (auto simp: exactly_def on_io_def)
    have "a \<notin> {a \<in> live s. on_run (view s a)}" using inv idle by (simp add: vp_inv_def queue_fits_def exactly_def)
    then show ?thesis using inv a r by (auto simp: vp_inv_def threads_fit_def fits_def on_run_def)
  qed
  obtain s2 where s2: "notify_all os (io_q s) s1 = Some s2" "vp_inv r s2" "ep_fits (fst ` set evs) (io_reqs s2) (io_reqs s2) (ep s2)"
      "same_but_io s1 s2" "run_q s2 = notified e s1 (io_q s)" "io_q s2 = filter (\<lambda>a. a \<notin> set (notified e s1 (io_q s))) (io_q s)"
      "view s2 = (\<lambda>a. if a \<in> set (notified e s1 (io_q s)) then woken (taken_off (answered e (view s a)))
                    else if a \<in> set (io_q s) then answered e (view s a) else view s a)"
  proof -
    have d: "distinct (io_q s)" using ioq by (simp add: exactly_def)
    have w: "\<forall>a \<in> set (io_q s). a \<in> set (io_q s1) \<and> t_state (view s1 a) = IO_WAIT" using waiting s1(2,3) by simp
    have f: "ep_fits (fst ` set evs) (io_reqs s1) (io_reqs s1) (ep s1)" using fitsF s1(1,7) by simp
    note n = notify_all_ok [OF s1(5) d w f arg_cong [OF s1(1), of fired], of os, unfolded s1(2,3,4) append_Nil]
    then show thesis using that by blast
  qed
  let ?W = "notified e s1 (io_q s)"
  have W: "?W = filter (\<lambda>a. \<exists>pd \<in> set (pds_of s a). told evs N pd \<noteq> {}) (io_q s)"
    by (simp add: notified_def hit_def s1(6) told)
  define s' where "s' = ep_change (fold (settle_event os) evs) s2"
  have run: "epoll_dispatch os evs s = Some s'"
    using False pid s2(1) s1(3) by (simp add: epoll_dispatch_def epoll_reinit_def s'_def s1_def [symmetric])
  have s': "view s' = view s2" "io_q s' = io_q s2" "run_q s' = ?W" "live s' = live s" "io_reqs s' = io_reqs s2"
    "idle_thread s' = idle_thread s"
    using s2(4,5) s1(8) by (simp_all add: s'_def ep_change_def same_but_io_def s1_def io_reqs_def pds_of_def fun_eq_iff)
  note settled = settle_events_ok [OF s2(3) dist, of os]
  have vp: "vp_inv r s'" using s2(2) by (simp add: s'_def ep_change_def vp_inv_def)
  have same: "same_but_io s s'"
    using s2(4) settled note_events [OF counts dist] by (simp add: same_but_io_def s'_def s1_def ep_change_def)
  have sub: "set ?W \<subseteq> set (io_q s)" by (auto simp: notified_def)
  have less: "io_reqs s' f fd \<le> N f fd" for f fd
  proof -
    have "io_reqs s' = reqs (concat (map (pds_of s) (io_q s')))"
      unfolding io_reqs_def
      by (rule reqs_concat_cong) (use sub in \<open>auto simp: pds_of_def s' s2(6,7) reqs_results\<close>)
    moreover have "reqs (concat (map p (filter P q))) f fd \<le> reqs (concat (map p q)) f fd" for p :: "tid \<Rightarrow> pollfd list" and P q
      by (induction q) (auto simp: reqs_append)
    ultimately show ?thesis unfolding N_def io_reqs_def s'(2) s2(6) by simp
  qed
  have "in_array (io_reqs s') (ep s')"
    using array same less le_zero_eq unfolding in_array_def same_but_io_def by metis
  moreover have "ep_fits {} (io_reqs s') (io_reqs s') (ep s')" using settled s'(5) by (simp add: s'_def ep_change_def)
  moreover have "polls_fit s'" using polls by (auto simp: polls_fit_def s' s2(7) woken_def)
  ultimately have "ev_inv s'" by (simp add: ev_inv_def)
  moreover have "\<forall>a \<in> set ?W. map pd_revents (pds_of s' a) = map (told evs N) (pds_of s a)"
    by (simp add: pds_of_def s' s2(7) woken_def o_def told)
  moreover have "view s' a = view s a" if "a \<notin> set (io_q s)" for a using that sub by (auto simp: s' s2(7))
  moreover have "\<exists>pq. view s' a = (if a \<in> set ?W then woken (view s a) else view s a)\<lparr>t_pollq := pq\<rparr>" for a
  proof (cases "a \<in> set ?W")
    case True
    then have "view s' a = (woken (view s a))\<lparr>t_pollq := t_pollq (taken_off (answered e (view s a)))\<rparr>"
      by (simp add: s'(1) s2(7) woken_def taken_off_def answered_def)
    then show ?thesis using True by auto
  next
    case False
    have "view s' a = (view s a)\<lparr>t_pollq := if a \<in> set (io_q s) then t_pollq (answered e (view s a)) else t_pollq (view s a)\<rparr>"
      using False by (simp add: s'(1) s2(7) answered_def)
    then show ?thesis using False by (metis (full_types))
  qed
  ultimately show ?thesis using run vp same s'(3) s2(6) s'(2) unfolding N_def [symmetric] by (simp add: W)
qed

end
