(* ===== verification/St_Sched_Inv.thy ===== *)
theory St_Sched_Inv
  imports St_Sched St_Event_Correct
begin

text \<open>
  The invariant of the whole thread library, and that waking threads, switching and the changes that
  concern one thread keep it.
\<close>

section \<open>The invariant\<close>

text \<open>
  The termination variable of a joinable thread exists and belongs to that thread alone; a thread
  that is gone has none, and its object still says that it is running.
\<close>

definition terms_fit :: "tid set \<Rightarrow> (tid \<Rightarrow> st_thread) \<Rightarrow> (nat \<Rightarrow> tid list option) \<Rightarrow> bool" where
  "terms_fit L v cs \<longleftrightarrow>
     (\<forall>a \<in> L. \<forall>c. t_term (v a) = Some c \<longrightarrow> cs c \<noteq> None) \<and>
     inj_on (\<lambda>a. t_term (v a)) {a \<in> L. t_term (v a) \<noteq> None} \<and>
     (\<forall>a \<in> L. t_context (v a) = In_exit \<longrightarrow> t_term (v a) \<noteq> None) \<and>
     (\<forall>a. a \<notin> L \<longrightarrow> t_term (v a) = None \<and> t_state (v a) = RUNNING)"

definition names_fit :: "st_vp \<Rightarrow> bool" where
  "names_fit s \<longleftrightarrow> (\<forall>n. conds s n \<noteq> None \<or> mutexes s n \<noteq> None \<longrightarrow> n < next_obj s) \<and> 0 < pagesize s"

definition st_fits :: "tid option \<Rightarrow> st_vp \<Rightarrow> bool" where
  "st_fits r s \<longleftrightarrow> vp_inv r s \<and> ev_inv s \<and> terms_fit (live s) (view s) (conds s) \<and> names_fit s"

text \<open>Between two steps: some thread has the processor, and the idle thread only if no other can go on.\<close>

definition st_inv :: "st_vp \<Rightarrow> bool" where
  "st_inv s \<longleftrightarrow> st_fits (Some (this_thread s)) s \<and> this_thread s \<in> live s \<and>
     (this_thread s = idle_thread s \<longrightarrow> run_q s = [])"

definition runs_user :: "st_vp \<Rightarrow> bool" where
  "runs_user s \<longleftrightarrow> t_context (view s (this_thread s)) = In_user"

lemma view_me: "view s (this_thread s) = core (me s)"
  by (simp add: view_def me_def)

lemma view_select:
  "t_state (view s a) = t_state (threads s a)" "t_context (view s a) = t_context (threads s a)"
  "t_on_sleepq (view s a) = t_on_sleepq (threads s a)" "t_idle_thread (view s a) = t_idle_thread (threads s a)"
  "t_interrupt (view s a) = t_interrupt (threads s a)" "t_timedout (view s a) = t_timedout (threads s a)"
  "t_term (view s a) = t_term (threads s a)" "t_pollq (view s a) = t_pollq (threads s a)"
  "t_due (view s a) = t_due (threads s a)" "t_retval (view s a) = t_retval (threads s a)"
  "t_private_data (view s a) = t_private_data (threads s a)" "t_primordial (view s a) = t_primordial (threads s a)"
  "t_joined (view s a) = t_joined (threads s a)"
  by (simp_all add: view_def core_def)

lemma view_state_simps [simp]:
  "view (s\<lparr>this_thread := a\<rparr>) = view s" "view (s\<lparr>vp_errno := e\<rparr>) = view s" "view (s\<lparr>conds := cs\<rparr>) = view s"
  "view (s\<lparr>mutexes := ms\<rparr>) = view s" "view (s\<lparr>zombie_q := q\<rparr>) = view s" "view (s\<lparr>thread_q := q\<rparr>) = view s"
  "view (s\<lparr>active_count := n\<rparr>) = view s" "view (s\<lparr>next_obj := k\<rparr>) = view s" "view (s\<lparr>free_stacks := fs\<rparr>) = view s"
  "view (s\<lparr>stack_size := z\<rparr>) = view s" "view (s\<lparr>last_clock := c\<rparr>) = view s" "view (s\<lparr>curr_time := i\<rparr>) = view s"
  "view (s\<lparr>last_tset := c\<rparr>) = view s" "view (s\<lparr>key_max := k\<rparr>) = view s" "view (s\<lparr>destructors := ds\<rparr>) = view s"
  "view (s\<lparr>destroyed := dd\<rparr>) = view s"
  by (simp_all add: view_def fun_eq_iff)

lemma live_state_simps [simp]:
  "live (s\<lparr>this_thread := a\<rparr>) = live s" "live (s\<lparr>vp_errno := e\<rparr>) = live s" "live (s\<lparr>conds := cs\<rparr>) = live s"
  "live (s\<lparr>mutexes := ms\<rparr>) = live s" "live (s\<lparr>zombie_q := q\<rparr>) = live s" "live (s\<lparr>thread_q := q\<rparr>) = set q"
  "live (s\<lparr>active_count := n\<rparr>) = live s" "live (s\<lparr>next_obj := k\<rparr>) = live s" "live (s\<lparr>free_stacks := fs\<rparr>) = live s"
  "live (s\<lparr>stack_size := z\<rparr>) = live s" "live (s\<lparr>last_clock := c\<rparr>) = live s" "live (s\<lparr>curr_time := i\<rparr>) = live s"
  "live (s\<lparr>last_tset := c\<rparr>) = live s" "live (s\<lparr>key_max := k\<rparr>) = live s" "live (s\<lparr>destructors := ds\<rparr>) = live s"
  "live (s\<lparr>destroyed := dd\<rparr>) = live s"
  by (simp_all add: live_def)

lemma upd_select [simp]:
  "idle_thread (upd a f s) = idle_thread s" "run_q (upd a f s) = run_q s" "io_q (upd a f s) = io_q s"
  "zombie_q (upd a f s) = zombie_q s" "thread_q (upd a f s) = thread_q s" "this_thread (upd a f s) = this_thread s"
  "conds (upd a f s) = conds s" "mutexes (upd a f s) = mutexes s" "free_stacks (upd a f s) = free_stacks s"
  "next_obj (upd a f s) = next_obj s" "ep (upd a f s) = ep s" "active_count (upd a f s) = active_count s"
  "last_clock (upd a f s) = last_clock s" "stack_size (upd a f s) = stack_size s" "pagesize (upd a f s) = pagesize s"
  "key_max (upd a f s) = key_max s" "destructors (upd a f s) = destructors s" "destroyed (upd a f s) = destroyed s"
  "vp_errno (upd a f s) = vp_errno s" "sleep_q (upd a f s) = sleep_q s"
  by (simp_all add: upd_def)

section \<open>Parts that look at other fields only\<close>

lemma io_reqs_cong: "io_q s' = io_q s \<Longrightarrow> (\<And>a. a \<in> set (io_q s) \<Longrightarrow> t_pollq (view s' a) = t_pollq (view s a)) \<Longrightarrow> io_reqs s' = io_reqs s"
  using reqs_concat_cong [of "io_q s" "pds_of s'" "pds_of s"] by (simp add: io_reqs_def pds_of_def)

lemma ev_inv_cong:
  assumes "ev_inv s" and "ep s' = ep s" and "io_q s' = io_q s" and "\<And>a. a \<in> set (io_q s) \<Longrightarrow> t_pollq (view s' a) = t_pollq (view s a)"
    and "\<And>a. a \<in> live s' \<Longrightarrow> t_state (view s' a) = IO_WAIT \<Longrightarrow> a \<in> live s \<and> t_state (view s a) = IO_WAIT \<and> t_pollq (view s' a) = t_pollq (view s a)"
  shows "ev_inv s'"
  using assms io_reqs_cong [of s' s] by (auto simp: ev_inv_def polls_fit_def)

text \<open>The other fields of the state do not matter.\<close>

lemma st_fits_cong:
  assumes "st_fits r s" and "view s' = view s" and "live s' = live s" and "thread_q s' = thread_q s"
    and "idle_thread s' = idle_thread s" "run_q s' = run_q s" "io_q s' = io_q s" "zombie_q s' = zombie_q s"
    "conds s' = conds s" "mutexes s' = mutexes s" "free_stacks s' = free_stacks s" "next_obj s' = next_obj s"
    "ep s' = ep s" "pagesize s' = pagesize s" "sleepq_holds s' = sleepq_holds s"
  shows "st_fits r s'"
proof -
  have "ev_inv s'" by (rule ev_inv_cong [of s]) (use assms in \<open>auto simp: st_fits_def\<close>)
  then show ?thesis using assms by (simp add: st_fits_def vp_inv_def names_fit_def)
qed

lemma terms_fit_cong:
  assumes "terms_fit L v cs" and "\<And>a. t_term (v' a) = t_term (v a)"
    and "\<And>a. a \<in> L \<Longrightarrow> t_context (v' a) = In_exit \<Longrightarrow> t_context (v a) = In_exit"
    and "\<And>a. a \<notin> L \<Longrightarrow> t_state (v' a) = t_state (v a)"
  shows "terms_fit L v' cs"
  using assms(1,3,4) unfolding terms_fit_def by (simp add: assms(2))

lemma terms_fit_same:
  assumes "terms_fit L v cs" and "t_term t' = t_term (v x)" and "t_context t' = In_exit \<longrightarrow> t_context (v x) = In_exit"
    and "x \<in> L"
  shows "terms_fit L (v(x := t')) cs"
  by (rule terms_fit_cong [OF assms(1)]) (use assms(2-4) in \<open>auto split: if_splits\<close>)

lemma terms_fit_conds:
  assumes "terms_fit L v cs" and "\<And>c. cs c \<noteq> None \<Longrightarrow> cs' c \<noteq> None"
  shows "terms_fit L v cs'"
  using assms unfolding terms_fit_def by blast

section \<open>Waking\<close>

lemma wakes_fit:
  assumes fit: "st_fits r s" and vp: "vp_inv r s'" and out: "same_outside s s'" and page: "pagesize s' = pagesize s"
    and view: "\<And>a. view s' a = view s a \<or> (\<exists>b. a \<in> live s \<and> view s' a = woken ((view s a)\<lparr>t_timedout := b\<rparr>))"
  shows "st_fits r s'"
proof -
  have same: "t_pollq (view s' a) = t_pollq (view s a)" "t_term (view s' a) = t_term (view s a)"
    "t_context (view s' a) = t_context (view s a)" for a
    using view [of a] by (auto simp: woken_def)
  have wait: "t_state (view s a) = IO_WAIT" if "t_state (view s' a) = IO_WAIT" for a
    using view [of a] that by (auto simp: woken_def)
  have ev: "ev_inv s'"
    by (rule ev_inv_cong [of s]) (use fit out same wait in \<open>simp_all add: st_fits_def same_outside_def\<close>)
  have dead: "view s' a = view s a" if "a \<notin> live s" for a using view [of a] that by auto
  have "terms_fit (live s) (view s) (conds s)" using fit by (simp add: st_fits_def)
  then have "terms_fit (live s) (view s') (conds s)" by (rule terms_fit_cong) (simp_all add: same dead)
  then show ?thesis using fit vp ev out page by (simp add: st_fits_def names_fit_def same_outside_def)
qed

lemma wake_up_fits:
  assumes fit: "st_fits r s" and x: "x \<in> live s"
    and state: "t_state (view s x) \<in> {IO_WAIT, LOCK_WAIT, COND_WAIT, SLEEPING, SUSPENDED}"
    and lock: "\<And>m. t_context (view s x) = In_lock m \<Longrightarrow> mx_owner (mutex_at (mutexes s) m) = Some x \<or> t_interrupt (view s x)"
  shows "\<exists>s'. wake_up x s = Some s' \<and> st_fits r s' \<and> wakes [x] s s'"
proof -
  have "vp_inv r s" using fit by (simp add: st_fits_def)
  from wake_up_ok [OF this x state lock] obtain s' where s': "wake_up x s = Some s'" "vp_inv r s'" "wakes [x] s s'" by blast
  have "st_fits r s'"
  proof (rule wakes_fit [OF fit s'(2)])
    show "same_outside s s'" "pagesize s' = pagesize s" using s'(3) by (simp_all add: wakes_def same_outside_def)
    fix a
    have "\<exists>b. woken (view s x) = woken ((view s x)\<lparr>t_timedout := b\<rparr>)"
      by (rule exI [of _ "t_timedout (view s x)"]) simp
    then show "view s' a = view s a \<or> (\<exists>b. a \<in> live s \<and> view s' a = woken ((view s a)\<lparr>t_timedout := b\<rparr>))"
      using s'(3) x by (cases "a = x") (auto simp: wakes_def)
  qed
  then show ?thesis using s' by blast
qed

section \<open>One thread changes\<close>

lemma terms_fit_update:
  assumes "terms_fit L v cs" and "t_term t' = t_term (v x)" and "t_context t' = In_exit \<longrightarrow> t_term t' \<noteq> None" and "x \<in> L"
  shows "terms_fit L (v(x := t')) cs"
proof -
  have same: "t_term ((v(x := t')) a) = t_term (v a)" for a using assms(2) by simp
  have dead: "(v(x := t')) a = v a" if "a \<notin> L" for a using that assms(4) by auto
  have exits: "t_term (v a) \<noteq> None" if "a \<in> L" "t_context ((v(x := t')) a) = In_exit" for a
    using assms that by (cases "a = x") (auto simp: terms_fit_def)
  have gone: "t_term (v a) = None \<and> t_state ((v(x := t')) a) = RUNNING" if "a \<notin> L" for a
    using assms(1) dead [OF that] that by (simp add: terms_fit_def)
  show ?thesis using assms(1) exits gone unfolding terms_fit_def same by blast
qed

lemma st_fits_step:
  assumes fit: "st_fits r s" and x: "x \<in> live s" and view: "view s' = (view s)(x := t')"
    and t': "fits t'" "t_idle_thread t' = t_idle_thread (view s x)" "t_term t' = t_term (view s x)"
      "t_context t' = In_exit \<longrightarrow> t_term t' \<noteq> None"
    and r': "r' = (if t_state t' = RUNNING then Some x else if r = Some x then None else r)"
      "t_state t' = RUNNING \<longrightarrow> r = None \<or> r = Some x"
    and same: "idle_thread s' = idle_thread s" "thread_q s' = thread_q s" "free_stacks s' = free_stacks s"
      "next_obj s' = next_obj s" "pagesize s' = pagesize s"
    and queues: "queue_fits on_run (live s) ((view s)(x := t')) (run_q s')"
      "queue_fits on_io (live s) ((view s)(x := t')) (io_q s')"
      "queue_fits (\<lambda>t. t_state t = ZOMBIE) (live s) ((view s)(x := t')) (zombie_q s')"
    and objs: "conds_fit (live s) ((view s)(x := t')) (conds s')" "mutexes_fit (live s) ((view s)(x := t')) (mutexes s')"
      "\<And>n. conds s' n \<noteq> None \<longleftrightarrow> conds s n \<noteq> None" "\<And>n. mutexes s' n \<noteq> None \<longleftrightarrow> mutexes s n \<noteq> None"
    and sleep: "sleepq_holds s' (sleepers (live s) ((view s)(x := t')))" and ev: "ev_inv s'"
  shows "st_fits r' s'"
proof -
  have live: "live s' = live s" using same(2) by (simp add: live_def)
  have "threads_fit r (idle_thread s) (live s) (view s)" using fit by (simp add: st_fits_def vp_inv_def)
  from threads_update [OF this t'(1,2) r' x]
  have "threads_fit r' (idle_thread s) (live s) ((view s)(x := t'))" .
  moreover have "terms_fit (live s) ((view s)(x := t')) (conds s')"
  proof (rule terms_fit_conds)
    show "terms_fit (live s) ((view s)(x := t')) (conds s)"
      by (rule terms_fit_update [where v = "view s" and x = x, OF _ t'(3,4) x]) (use fit in \<open>simp add: st_fits_def\<close>)
  qed (use objs(3) in blast)
  ultimately show ?thesis
    using fit queues objs sleep ev same unfolding st_fits_def vp_inv_def names_fit_def live view by simp
qed

section \<open>Switching\<close>

lemma fit_parts:
  assumes "st_fits r s"
  shows "threads_fit r (idle_thread s) (live s) (view s)" "queue_fits on_run (live s) (view s) (run_q s)"
    "queue_fits on_io (live s) (view s) (io_q s)" "queue_fits (\<lambda>t. t_state t = ZOMBIE) (live s) (view s) (zombie_q s)"
    "conds_fit (live s) (view s) (conds s)" "mutexes_fit (live s) (view s) (mutexes s)"
    "sleepq_holds s (sleepers (live s) (view s))" "stacks_fit (thread_q s) (map fst (free_stacks s)) (next_obj s)"
    "ev_inv s" "terms_fit (live s) (view s) (conds s)" "names_fit s"
  using assms by (simp_all add: st_fits_def vp_inv_def)

lemma mutexes_handed:
  "mutexes_fit L v ms \<Longrightarrow> a \<in> L \<Longrightarrow> t_context (v a) = In_lock m \<Longrightarrow> handed a (v a) (mutex_at ms m)"
  by (simp add: mutexes_fit_def mutex_fits_def)

text \<open>The thread that gets the processor, and what is left of the run queue.\<close>

definition next_thread :: "st_vp \<Rightarrow> tid" where
  "next_thread s = (case run_q s of [] \<Rightarrow> idle_thread s | a # q \<Rightarrow> a)"

definition same_objects :: "st_vp \<Rightarrow> st_vp \<Rightarrow> bool" where
  "same_objects s s' \<longleftrightarrow> io_q s' = io_q s \<and> zombie_q s' = zombie_q s \<and> thread_q s' = thread_q s \<and>
     conds s' = conds s \<and> mutexes s' = mutexes s \<and> active_count s' = active_count s \<and> last_clock s' = last_clock s \<and>
     idle_thread s' = idle_thread s \<and> ep s' = ep s \<and> free_stacks s' = free_stacks s \<and> next_obj s' = next_obj s \<and>
     destroyed s' = destroyed s"

lemma schedule_ok:
  assumes fit: "st_fits None s"
  shows "\<exists>s'. st_vp_schedule s = Some s' \<and> st_inv s' \<and> this_thread s' = next_thread s \<and> run_q s' = tl (run_q s) \<and>
    view s' = (view s)(next_thread s := (view s (next_thread s))\<lparr>t_state := RUNNING\<rparr>) \<and> same_objects s s'"
proof -
  note parts = fit_parts [OF fit]
  define a where "a = next_thread s"
  have idle: "idle_thread s \<in> live s" "fits (view s (idle_thread s))" "t_state (view s (idle_thread s)) \<noteq> RUNNING"
      "t_idle_thread (view s (idle_thread s))"
    using parts(1) by (auto simp: threads_fit_def)
  have run: "set (run_q s) = {a \<in> live s. on_run (view s a)}" "distinct (run_q s)"
    using parts(2) by (auto simp: queue_fits_def exactly_def)
  have "a \<in> live s \<and> t_state (view s a) = RUNNABLE"
  proof (cases "run_q s")
    case Nil
    have "t_context (view s (idle_thread s)) = In_idle" using idle(2,4) by (simp add: fits_def)
    then show ?thesis using Nil idle(1-3) by (simp add: a_def next_thread_def fits_def)
  next
    case (Cons b q)
    then have "b \<in> {a \<in> live s. on_run (view s a)}" using run(1) by (metis list.set_intros(1))
    then show ?thesis using Cons by (simp add: a_def next_thread_def on_run_def)
  qed
  then have a: "a \<in> live s" "t_state (view s a) = RUNNABLE" by blast+
  define s' where "s' = (upd a (\<lambda>t. t\<lparr>t_state := RUNNING\<rparr>) (s\<lparr>run_q := tl (run_q s)\<rparr>))\<lparr>this_thread := a\<rparr>"
  have res: "st_vp_schedule s = Some s'"
  proof (cases "run_q s")
    case Nil
    then have eq: "s\<lparr>run_q := tl (run_q s)\<rparr> = s" by (cases s) simp
    have "s' = (upd a (\<lambda>t. t\<lparr>t_state := RUNNING\<rparr>) s)\<lparr>this_thread := a\<rparr>" unfolding s'_def eq ..
    then show ?thesis using Nil a(2) by (simp add: st_vp_schedule_def a_def next_thread_def view_select set_state_def)
  next
    case (Cons b q)
    then show ?thesis using a(2) by (simp add: st_vp_schedule_def s'_def a_def next_thread_def view_select set_state_def)
  qed
  let ?t = "(view s a)\<lparr>t_state := RUNNING\<rparr>"
  have view: "view s' = (view s)(a := ?t)" by (auto simp: s'_def view_def fun_eq_iff)
  have same: "same_objects s s'" by (simp add: same_objects_def s'_def)
  have "st_fits (Some a) s'"
  proof (rule st_fits_step [OF fit a(1) view])
    have "fits (view s a)" using parts(1) a(1) by (simp add: threads_fit_def)
    then show "fits ?t" using a(2) by (auto simp: fits_def)
    show "t_context ?t = In_exit \<longrightarrow> t_term ?t \<noteq> None" using parts(10) a(1) by (simp add: terms_fit_def)
    show "queue_fits on_run (live s) ((view s)(a := ?t)) (run_q s')"
    proof (cases "run_q s")
      case Nil
      then have "\<not> on_run (view s a)" using run(1) a(1) by auto
      then show ?thesis using parts(2) Nil by (subst queue_same) (simp_all add: on_run_def s'_def)
    next
      case (Cons b q)
      then have "a = b" by (simp add: a_def next_thread_def)
      then show ?thesis using queue_remove [OF parts(2), of ?t a] Cons by (simp add: on_run_def s'_def)
    qed
    show "queue_fits on_io (live s) ((view s)(a := ?t)) (io_q s')"
      using parts(3) by (subst queue_same) (simp_all add: on_io_def s'_def)
    show "queue_fits (\<lambda>t. t_state t = ZOMBIE) (live s) ((view s)(a := ?t)) (zombie_q s')"
      using parts(4) a(2) by (subst queue_same) (simp_all add: s'_def)
    show "conds_fit (live s) ((view s)(a := ?t)) (conds s')" using parts(5) by (subst conds_same) (simp_all add: s'_def)
    show "mutexes_fit (live s) ((view s)(a := ?t)) (mutexes s')"
    proof -
      have "handed a ?t (mutex_at (mutexes s) m)" if "t_context ?t = In_lock m" for m
        using mutexes_handed [OF parts(6) a(1), of m] that a(2) by (simp add: handed_def)
      then have "mutexes_fit (live s) ((view s)(a := ?t)) (mutexes s)" by (intro mutexes_update [OF parts(6)]) simp_all
      then show ?thesis by (simp add: s'_def)
    qed
    have "sleepers (live s) ((view s)(a := ?t)) = sleepers (live s) (view s)" by (rule sleepers_same) simp
    then show "sleepq_holds s' (sleepers (live s) ((view s)(a := ?t)))" using parts(7) by (simp add: s'_def sleepq_holds_upd)
    show "ev_inv s'"
      by (rule ev_inv_cong [OF parts(9)]) (simp_all add: view, simp_all add: s'_def live_def split: if_splits)
  qed (simp_all add: s'_def)
  moreover have "this_thread s' = idle_thread s' \<longrightarrow> run_q s' = []"
  proof (cases "run_q s")
    case (Cons b q)
    then have "\<not> t_idle_thread (view s b)" using run(1) by (auto simp: on_run_def)
    then show ?thesis using Cons idle by (auto simp: s'_def a_def next_thread_def)
  qed (simp add: s'_def)
  ultimately have "st_inv s'" using a(1) by (simp add: st_inv_def s'_def)
  then show ?thesis using res view same by (simp add: s'_def a_def)
qed

end
