(* ===== verification/St_Sched_Ops.thy ===== *)
theory St_Sched_Ops
  imports St_Sched_Inv
begin

text \<open>
  Every operation of the thread library keeps the invariant, and none dereferences a null pointer or
  fails an assertion.
\<close>

section \<open>Results\<close>

definition goes_well :: "st_vp \<Rightarrow> (st_outcome \<times> st_vp) option \<Rightarrow> bool" where
  "goes_well s r \<longleftrightarrow> (\<exists>out s'. r = Some (out, s') \<and> st_inv s' \<and>
     (\<forall>v. out = Returned v \<longrightarrow> this_thread s' = this_thread s \<and> runs_user s'))"

definition returns_well :: "st_vp \<Rightarrow> (st_outcome \<times> st_vp) option \<Rightarrow> bool" where
  "returns_well s r \<longleftrightarrow> (\<exists>v s'. r = Some (Returned v, s') \<and> st_inv s' \<and> runs_user s' \<and> this_thread s' = this_thread s)"

lemma returns_well_goes: "returns_well s r \<Longrightarrow> goes_well s r"
  by (auto simp: returns_well_def goes_well_def)

lemma returns_well_returns: "st_inv s' \<Longrightarrow> runs_user s' \<Longrightarrow> this_thread s' = this_thread s \<Longrightarrow> returns_well s (returns v s')"
  by (simp add: returns_well_def returns_def)

lemma view_set_context [simp]: "view (set_context a c s) = (view s)(a := (view s a)\<lparr>t_context := c\<rparr>)"
  by (auto simp: set_context_def view_def fun_eq_iff)

lemma view_set_state [simp]: "view (set_state a st s) = (view s)(a := (view s a)\<lparr>t_state := st\<rparr>)"
  by (auto simp: set_state_def view_def fun_eq_iff)

lemma set_select [simp]:
  "idle_thread (set_context a c s) = idle_thread s" "run_q (set_context a c s) = run_q s" "io_q (set_context a c s) = io_q s"
  "zombie_q (set_context a c s) = zombie_q s" "thread_q (set_context a c s) = thread_q s"
  "this_thread (set_context a c s) = this_thread s" "conds (set_context a c s) = conds s" "mutexes (set_context a c s) = mutexes s"
  "free_stacks (set_context a c s) = free_stacks s" "next_obj (set_context a c s) = next_obj s" "ep (set_context a c s) = ep s"
  "pagesize (set_context a c s) = pagesize s" "live (set_context a c s) = live s" "active_count (set_context a c s) = active_count s"
  "sleepq_holds (set_context a c s) A = sleepq_holds s A"
  "idle_thread (set_state a st s) = idle_thread s" "run_q (set_state a st s) = run_q s" "io_q (set_state a st s) = io_q s"
  "zombie_q (set_state a st s) = zombie_q s" "thread_q (set_state a st s) = thread_q s"
  "this_thread (set_state a st s) = this_thread s" "conds (set_state a st s) = conds s" "mutexes (set_state a st s) = mutexes s"
  "free_stacks (set_state a st s) = free_stacks s" "next_obj (set_state a st s) = next_obj s" "ep (set_state a st s) = ep s"
  "pagesize (set_state a st s) = pagesize s" "live (set_state a st s) = live s" "active_count (set_state a st s) = active_count s"
  "sleepq_holds (set_state a st s) A = sleepq_holds s A"
  by (simp_all add: set_context_def set_state_def sleepq_holds_upd)

lemma goes_well_switch:
  assumes "st_fits None (set_context (this_thread s1) c s1)"
  shows "goes_well s (switch_context c s1)"
  using schedule_ok [OF assms] by (auto simp: goes_well_def switch_context_def)

text \<open>The thread that has the processor.\<close>

lemma running:
  assumes "st_inv s"
  shows "this_thread s \<in> live s" "t_state (view s (this_thread s)) = RUNNING" "fits (view s (this_thread s))"
    "\<not> t_on_sleepq (view s (this_thread s))" "t_idle_thread (view s (this_thread s)) \<longleftrightarrow> this_thread s = idle_thread s"
    "t_idle_thread (view s (this_thread s)) \<longleftrightarrow> t_context (view s (this_thread s)) = In_idle"
    "st_fits (Some (this_thread s)) s"
proof -
  let ?a = "this_thread s"
  have fit: "st_fits (Some ?a) s" and live: "?a \<in> live s" using assms by (simp_all add: st_inv_def)
  note t = fit_parts(1) [OF fit]
  have "fits (view s ?a)" "t_state (view s ?a) = RUNNING" "t_idle_thread (view s ?a) \<longleftrightarrow> ?a = idle_thread s"
    using t live by (simp_all add: threads_fit_def)
  moreover from this have "\<not> t_on_sleepq (view s ?a)" "t_idle_thread (view s ?a) \<longleftrightarrow> t_context (view s ?a) = In_idle"
    by (auto simp: fits_def)
  ultimately show "?a \<in> live s" "t_state (view s ?a) = RUNNING" "fits (view s ?a)" "\<not> t_on_sleepq (view s ?a)"
    "t_idle_thread (view s ?a) \<longleftrightarrow> ?a = idle_thread s" "t_idle_thread (view s ?a) \<longleftrightarrow> t_context (view s ?a) = In_idle"
    "st_fits (Some ?a) s"
    using fit live by blast+
qed

lemma not_idle: "st_inv s \<Longrightarrow> t_context (view s (this_thread s)) \<noteq> In_idle \<Longrightarrow>
    \<not> t_idle_thread (view s (this_thread s)) \<and> this_thread s \<noteq> idle_thread s"
  using running by blast

section \<open>The running thread changes\<close>

lemma me_step:
  assumes inv: "st_inv s" and busy: "t_context (view s (this_thread s)) \<noteq> In_idle"
    and view: "view s' = (view s)(this_thread s := t')"
    and t': "t_state t' = RUNNING" "t_context t' = In_user" "\<not> t_on_sleepq t'"
      "t_idle_thread t' = t_idle_thread (view s (this_thread s))" "t_term t' = t_term (view s (this_thread s))"
    and same: "this_thread s' = this_thread s" "idle_thread s' = idle_thread s" "thread_q s' = thread_q s"
      "free_stacks s' = free_stacks s" "next_obj s' = next_obj s" "pagesize s' = pagesize s" "run_q s' = run_q s" "zombie_q s' = zombie_q s"
    and queues: "queue_fits on_io (live s) ((view s)(this_thread s := t')) (io_q s')"
      "conds_fit (live s) ((view s)(this_thread s := t')) (conds s')" "mutexes_fit (live s) ((view s)(this_thread s := t')) (mutexes s')"
      "\<And>n. conds s' n \<noteq> None \<longleftrightarrow> conds s n \<noteq> None" "\<And>n. mutexes s' n \<noteq> None \<longleftrightarrow> mutexes s n \<noteq> None"
    and sleep: "sleepq_holds s' = sleepq_holds s" and ev: "ev_inv s'"
  shows "st_inv s' \<and> runs_user s'"
proof -
  let ?a = "this_thread s"
  note run = running [OF inv]
  note idle = not_idle [OF inv busy]
  note parts = fit_parts [OF run(7)]
  have "st_fits (Some ?a) s'"
  proof (rule st_fits_step [OF run(7,1) view _ _ _ _ _ _ same(2-6) _ queues(1) _ queues(2-5) _ ev])
    show "fits t'" using t' idle by (simp add: fits_def)
    show "queue_fits on_run (live s) ((view s)(?a := t')) (run_q s')"
      using parts(2) run(2) t' by (subst queue_same) (simp_all add: on_run_def same)
    show "queue_fits (\<lambda>t. t_state t = ZOMBIE) (live s) ((view s)(?a := t')) (zombie_q s')"
      using parts(4) run(2) t' by (subst queue_same) (simp_all add: same)
    have "sleepers (live s) ((view s)(?a := t')) = sleepers (live s) (view s)" by (rule sleepers_same) (simp add: run(4) t')
    then show "sleepq_holds s' (sleepers (live s) ((view s)(?a := t')))" using parts(7) by (simp add: sleep)
  qed (use t' in simp_all)
  moreover have "live s' = live s" using same(3) by (simp add: live_def)
  ultimately show ?thesis using idle same run(1) t'(2) by (simp add: st_inv_def runs_user_def view)
qed

lemma poll_same: "t_pollq t' = t_pollq (view s x) \<Longrightarrow> t_state t' \<noteq> IO_WAIT \<Longrightarrow> x \<in> live s \<Longrightarrow> ev_inv s \<Longrightarrow> view s' = (view s)(x := t') \<Longrightarrow>
    ep s' = ep s \<Longrightarrow> io_q s' = io_q s \<Longrightarrow> live s' = live s \<Longrightarrow> ev_inv s'"
  by (rule ev_inv_cong [of s]) (auto split: if_splits)

text \<open>A change of the flags or of the data of a thread that is running user code.\<close>

lemma user_step:
  assumes inv: "st_inv s" and user: "runs_user s"
    and view: "view s' = (view s)(this_thread s := t')"
    and t': "t_state t' = RUNNING" "t_context t' = In_user" "\<not> t_on_sleepq t'"
      "t_idle_thread t' = t_idle_thread (view s (this_thread s))" "t_term t' = t_term (view s (this_thread s))"
      "t_pollq t' = t_pollq (view s (this_thread s))"
    and same: "same_objects s s'" "this_thread s' = this_thread s" "pagesize s' = pagesize s" "run_q s' = run_q s"
      "sleepq_holds s' = sleepq_holds s"
  shows "st_inv s' \<and> runs_user s'"
proof -
  note run = running [OF inv]
  note parts = fit_parts [OF run(7)]
  have ctx: "t_context (view s (this_thread s)) = In_user" using user by (simp add: runs_user_def)
  have objs: "idle_thread s' = idle_thread s" "thread_q s' = thread_q s" "free_stacks s' = free_stacks s"
    "next_obj s' = next_obj s" "zombie_q s' = zombie_q s" "io_q s' = io_q s" "conds s' = conds s" "mutexes s' = mutexes s" "ep s' = ep s"
    using same(1) by (simp_all add: same_objects_def)
  show ?thesis
  proof (rule me_step [OF inv _ view t'(1-5) same(2) objs(1-4) same(3,4) objs(5)])
    show "queue_fits on_io (live s) ((view s)(this_thread s := t')) (io_q s')"
      using parts(3) t'(2) ctx by (subst queue_same) (simp_all add: on_io_def objs)
    show "conds_fit (live s) ((view s)(this_thread s := t')) (conds s')"
      using parts(5) t'(2) ctx by (subst conds_same) (simp_all add: objs)
    show "mutexes_fit (live s) ((view s)(this_thread s := t')) (mutexes s')"
      unfolding objs by (rule mutexes_same [OF parts(6)]) (simp_all add: t'(2) ctx)
    show "ev_inv s'"
      by (rule poll_same [OF t'(6) _ run(1) parts(9) view]) (simp_all add: objs live_def t'(1))
  qed (simp_all add: ctx objs same(5))
qed

lemma user_view_same:
  assumes inv: "st_inv s" and user: "runs_user s" and view: "view s' = view s"
    and same: "same_objects s s'" "this_thread s' = this_thread s" "pagesize s' = pagesize s" "run_q s' = run_q s"
      "sleepq_holds s' = sleepq_holds s"
  shows "st_inv s' \<and> runs_user s'"
  by (rule user_step [OF inv user, of s' "view s (this_thread s)"])
    (use running [OF inv] user assms in \<open>simp_all add: runs_user_def\<close>)

lemma view_update_thread: "view (update_thread f s) = (view s)(this_thread s := core (f (threads s (this_thread s))))"
  by (simp add: update_thread_def)

lemma errno_same:
  assumes "st_inv s" and "runs_user s"
  shows "st_inv (s\<lparr>vp_errno := e\<rparr>) \<and> runs_user (s\<lparr>vp_errno := e\<rparr>)"
  by (rule user_view_same [OF assms]) (simp_all add: same_objects_def fun_eq_iff)

lemma user_update:
  assumes inv: "st_inv s" and user: "runs_user s"
    and same: "same_links (f (me s)) (me s)" "t_state (f (me s)) = t_state (me s)" "t_context (f (me s)) = t_context (me s)"
      "t_on_sleepq (f (me s)) = t_on_sleepq (me s)" "t_idle_thread (f (me s)) = t_idle_thread (me s)"
      "t_term (f (me s)) = t_term (me s)" "t_pollq (f (me s)) = t_pollq (me s)"
  shows "st_inv (update_thread f s) \<and> runs_user (update_thread f s) \<and> this_thread (update_thread f s) = this_thread s"
proof -
  have "st_inv (update_thread f s) \<and> runs_user (update_thread f s)"
    by (rule user_step [OF inv user view_update_thread])
      (use running [OF inv] user same in \<open>simp_all add: update_thread_def runs_user_def same_objects_def fun_eq_iff
        sleepq_holds_upd view_select me_def core_def\<close>)
  then show ?thesis by (simp add: update_thread_def)
qed

lemma returns_well_fails:
  assumes "st_inv s'" and "runs_user s'" and "this_thread s' = this_thread s"
  shows "returns_well s (fails e s')"
proof -
  have "st_inv (s'\<lparr>vp_errno := e\<rparr>) \<and> runs_user (s'\<lparr>vp_errno := e\<rparr>)" by (rule errno_same [OF assms(1,2)])
  then show ?thesis using assms(3) by (simp add: returns_well_def fails_def)
qed

lemma returns_well_interrupted:
  assumes "st_inv s'" and "runs_user s'" and "this_thread s' = this_thread s"
  shows "returns_well s (fails_interrupted s')"
  using user_update [OF assms(1,2), of "\<lambda>t. t\<lparr>t_interrupt := False\<rparr>"] returns_well_fails [of _ s EINTR] assms(3)
  by (simp add: fails_interrupted_def)

section \<open>The running thread waits\<close>

lemma block_step:
  assumes inv: "st_inv s" and busy: "t_context (view s (this_thread s)) = In_user"
    and view: "view s1 = (view s)(this_thread s := t')"
    and t': "t_state t' \<notin> {RUNNING, RUNNABLE}" "fits t'" "\<not> t_idle_thread t'" "t_term t' = t_term (view s (this_thread s))"
      "t_context t' = In_exit \<longrightarrow> t_term t' \<noteq> None"
    and same: "idle_thread s1 = idle_thread s" "thread_q s1 = thread_q s"
      "free_stacks s1 = free_stacks s" "next_obj s1 = next_obj s" "pagesize s1 = pagesize s" "run_q s1 = run_q s"
    and queues: "queue_fits on_io (live s) ((view s)(this_thread s := t')) (io_q s1)"
      "queue_fits (\<lambda>t. t_state t = ZOMBIE) (live s) ((view s)(this_thread s := t')) (zombie_q s1)"
      "conds_fit (live s) ((view s)(this_thread s := t')) (conds s1)" "mutexes_fit (live s) ((view s)(this_thread s := t')) (mutexes s1)"
      "\<And>n. conds s1 n \<noteq> None \<longleftrightarrow> conds s n \<noteq> None" "\<And>n. mutexes s1 n \<noteq> None \<longleftrightarrow> mutexes s n \<noteq> None"
    and sleep: "sleepq_holds s1 (sleepers (live s) ((view s)(this_thread s := t')))" and ev: "ev_inv s1"
  shows "st_fits None s1"
proof -
  note run = running [OF inv]
  have idle: "\<not> t_idle_thread (view s (this_thread s))" using not_idle [OF inv] busy by simp
  note parts = fit_parts [OF run(7)]
  show ?thesis
  proof (rule st_fits_step [OF run(7,1) view t'(2) _ t'(4,5) _ _ same(1-5) _ queues sleep ev])
    show "queue_fits on_run (live s) ((view s)(this_thread s := t')) (run_q s1)"
      using parts(2) run(2) t' by (subst queue_same) (simp_all add: on_run_def same)
  qed (use t' idle in simp_all)
qed

text \<open>Going onto the sleep queue.\<close>

definition asleep :: "bool \<Rightarrow> st_utime \<Rightarrow> st_thread \<Rightarrow> st_thread" where
  "asleep b due t = (if b then t\<lparr>t_due := due, t_on_sleepq := True\<rparr> else t)"

lemma asleep_simps [simp]:
  "t_state (asleep b due t) = t_state t" "t_context (asleep b due t) = t_context t" "t_idle_thread (asleep b due t) = t_idle_thread t"
  "t_term (asleep b due t) = t_term t" "t_pollq (asleep b due t) = t_pollq t" "t_on_sleepq (asleep b due t) = (b \<or> t_on_sleepq t)"
  "t_interrupt (asleep b due t) = t_interrupt t"
  by (simp_all add: asleep_def)

lemma sleep_unless_forever_ok:
  assumes "sleepq_holds s A" and "this_thread s \<notin> A"
  shows "\<exists>s'. sleep_unless_forever timeout s = Some s' \<and>
    sleepq_holds s' (if timeout \<noteq> ST_UTIME_NO_TIMEOUT then insert (this_thread s) A else A) \<and>
    view s' = (view s)(this_thread s := asleep (timeout \<noteq> ST_UTIME_NO_TIMEOUT) (last_clock s + timeout) (view s (this_thread s))) \<and>
    same_objects s s' \<and> this_thread s' = this_thread s \<and> pagesize s' = pagesize s \<and> run_q s' = run_q s"
proof (cases "timeout = ST_UTIME_NO_TIMEOUT")
  case True
  then show ?thesis using assms by (simp add: sleep_unless_forever_def same_objects_def asleep_def)
next
  case False
  from add_sleep_q_ok [OF assms, of timeout] obtain s' where s': "st_add_sleep_q (this_thread s) timeout s = Some s'"
      "sleepq_holds s' (insert (this_thread s) A)"
      "sleepq_change (this_thread s) (\<lambda>t. t\<lparr>t_due := last_clock s + timeout, t_on_sleepq := True\<rparr>) s s'" by blast
  then show ?thesis
    using False sleepq_change_same [OF s'(3)] view_sleepq_change [OF s'(3)]
    by (simp add: sleep_unless_forever_def same_objects_def asleep_def view_def)
qed

lemma sleepers_asleep:
  "x \<in> L \<Longrightarrow> \<not> t_on_sleepq (v x) \<Longrightarrow> t_on_sleepq t' = b \<Longrightarrow>
   sleepers L (v(x := t')) = (if b then insert x (sleepers L v) else sleepers L v)"
  by (auto simp: sleepers_def)

lemma me_sleeper: "st_inv s \<Longrightarrow> this_thread s \<notin> sleepers (live s) (view s)"
  using running by (simp add: sleepers_def)

section \<open>Sleeping\<close>

lemma view_me_select: "runs_user s \<Longrightarrow> t_context (view s (this_thread s)) = In_user"
  by (simp add: runs_user_def)

text \<open>A wait that concerns the thread's state, its context and the sleep queue only.\<close>

lemma plain_wait:
  assumes inv: "st_inv s" and user: "runs_user s"
    and s1: "view s1 = (view s)(this_thread s := t')" "same_objects s s1" "pagesize s1 = pagesize s" "run_q s1 = run_q s"
    and t': "t_state t' \<notin> {RUNNING, RUNNABLE, IO_WAIT, ZOMBIE}" "fits t'" "\<not> t_idle_thread t'"
      "t_term t' = t_term (view s (this_thread s))" "t_context t' = In_usleep"
    and sleep: "sleepq_holds s1 (sleepers (live s) ((view s)(this_thread s := t')))"
  shows "st_fits None s1"
proof -
  note run = running [OF inv]
  note parts = fit_parts [OF run(7)]
  have ctx: "t_context (view s (this_thread s)) = In_user" using user by (simp add: runs_user_def)
  have objs: "idle_thread s1 = idle_thread s" "thread_q s1 = thread_q s" "free_stacks s1 = free_stacks s"
    "next_obj s1 = next_obj s" "zombie_q s1 = zombie_q s" "io_q s1 = io_q s" "conds s1 = conds s" "mutexes s1 = mutexes s" "ep s1 = ep s"
    using s1(2) by (simp_all add: same_objects_def)
  show ?thesis
  proof (rule block_step [OF inv ctx s1(1) _ t'(2-4) _ objs(1-4) s1(3,4) _ _ _ _ _ _ sleep])
    show "queue_fits on_io (live s) ((view s)(this_thread s := t')) (io_q s1)"
      using parts(3) t'(5) ctx by (subst queue_same) (simp_all add: on_io_def objs)
    show "queue_fits (\<lambda>t. t_state t = ZOMBIE) (live s) ((view s)(this_thread s := t')) (zombie_q s1)"
      using parts(4) t'(1) run(2) by (subst queue_same) (simp_all add: objs)
    show "conds_fit (live s) ((view s)(this_thread s := t')) (conds s1)"
      using parts(5) t'(5) ctx by (subst conds_same) (simp_all add: objs)
    show "mutexes_fit (live s) ((view s)(this_thread s := t')) (mutexes s1)"
      unfolding objs by (rule mutexes_same [OF parts(6)]) (simp_all add: t'(5) ctx)
    have io: "this_thread s \<notin> set (io_q s)" using parts(3) ctx by (auto simp: queue_fits_def exactly_def on_io_def)
    show "ev_inv s1"
      by (rule ev_inv_cong [OF parts(9)]) (use io t'(1) in \<open>auto simp: objs live_def s1(1) split: if_splits\<close>)
  qed (use t' in \<open>simp_all add: objs\<close>)
qed

theorem usleep_ok:
  assumes inv: "st_inv s" and user: "runs_user s"
  shows "goes_well s (st_usleep usecs s)"
proof (cases "t_interrupt (me s)")
  case True
  then show ?thesis using returns_well_interrupted [OF inv user] by (simp add: st_usleep_def returns_well_goes)
next
  case False
  let ?a = "this_thread s" and ?b = "usecs \<noteq> ST_UTIME_NO_TIMEOUT"
  let ?st = "if ?b then SLEEPING else SUSPENDED"
  note run = running [OF inv]
  note parts = fit_parts [OF run(7)]
  let ?s0 = "set_state ?a ?st s"
  have "sleepq_holds ?s0 (sleepers (live s) (view s))" using parts(7) by simp
  from sleep_unless_forever_ok [OF this, of usecs, unfolded set_select, OF me_sleeper [OF inv]]
  obtain s1 where s1: "sleep_unless_forever usecs ?s0 = Some s1"
      "sleepq_holds s1 (if ?b then insert ?a (sleepers (live s) (view s)) else sleepers (live s) (view s))"
      "view s1 = (view ?s0)(?a := asleep ?b (last_clock ?s0 + usecs) (view ?s0 ?a))"
      "same_objects ?s0 s1" "this_thread s1 = ?a" "pagesize s1 = pagesize s" "run_q s1 = run_q s"
    by blast
  let ?t = "(asleep ?b (last_clock ?s0 + usecs) ((view s ?a)\<lparr>t_state := ?st\<rparr>))\<lparr>t_context := In_usleep\<rparr>"
  have res: "st_usleep usecs s = switch_context In_usleep s1"
    using False s1(1) by (simp add: st_usleep_def sleep_unless_forever_def split: if_splits)
  have idle: "\<not> t_idle_thread (view s ?a)" using not_idle [OF inv] user by (simp add: runs_user_def)
  have "st_fits None (set_context ?a In_usleep s1)"
  proof (rule plain_wait [OF inv user])
    show "view (set_context ?a In_usleep s1) = (view s)(?a := ?t)" by (simp add: s1(3))
    show "same_objects s (set_context ?a In_usleep s1)" using s1(4) by (simp add: same_objects_def set_context_def set_state_def)
    show "fits ?t" using idle by (simp add: fits_def run(4))
    have "sleepers (live s) ((view s)(?a := ?t)) = (if ?b then insert ?a (sleepers (live s) (view s)) else sleepers (live s) (view s))"
      by (rule sleepers_asleep) (use run(1,4) in simp_all)
    then show "sleepq_holds (set_context ?a In_usleep s1) (sleepers (live s) ((view s)(?a := ?t)))"
      using s1(2) by simp
  qed (use idle s1 in auto)
  then show ?thesis using goes_well_switch [of s1 In_usleep s] s1(5) by (simp add: res)
qed

lemma finish_usleep_ok:
  assumes inv: "st_inv s" and ctx: "t_context (view s (this_thread s)) = In_usleep"
  shows "returns_well s (finish_usleep (set_context (this_thread s) In_user s))"
proof -
  let ?s = "set_context (this_thread s) In_user s" and ?t = "(view s (this_thread s))\<lparr>t_context := In_user\<rparr>"
  note run = running [OF inv]
  note parts = fit_parts [OF run(7)]
  have "st_inv ?s \<and> runs_user ?s"
  proof (rule me_step [OF inv, of ?s ?t])
    show "queue_fits on_io (live s) ((view s)(this_thread s := ?t)) (io_q ?s)"
      using parts(3) ctx by (subst queue_same) (simp_all add: on_io_def)
    show "conds_fit (live s) ((view s)(this_thread s := ?t)) (conds ?s)"
      using parts(5) ctx by (subst conds_same) simp_all
    show "mutexes_fit (live s) ((view s)(this_thread s := ?t)) (mutexes ?s)"
      by (simp, rule mutexes_same [OF parts(6)]) (simp_all add: ctx)
    show "ev_inv ?s" by (rule poll_same [of ?t s "this_thread s", OF _ _ run(1) parts(9)]) (simp_all add: run(2))
  qed (simp_all add: ctx run fun_eq_iff)
  then show ?thesis using returns_well_interrupted [of ?s s] returns_well_returns [of ?s s] by (simp add: finish_usleep_def)
qed

section \<open>Condition variables\<close>

text \<open>A running thread is on no queue.\<close>

lemma running_elsewhere:
  assumes inv: "st_inv s" and user: "runs_user s"
  shows "this_thread s \<notin> set (io_q s)" "this_thread s \<notin> set (run_q s)" "this_thread s \<notin> set (zombie_q s)"
    "conds s c = Some q \<Longrightarrow> this_thread s \<notin> set q" "mutexes s m = Some mx \<Longrightarrow> this_thread s \<notin> set (mx_wait_q mx)"
proof -
  note run = running [OF inv]
  note parts = fit_parts [OF run(7)]
  have ctx: "t_context (view s (this_thread s)) = In_user" using user by (simp add: runs_user_def)
  show "this_thread s \<notin> set (io_q s)" "this_thread s \<notin> set (run_q s)" "this_thread s \<notin> set (zombie_q s)"
    using parts(2-4) ctx run(2) by (auto simp: queue_fits_def exactly_def on_io_def on_run_def)
  show "this_thread s \<notin> set q" if "conds s c = Some q"
  proof -
    have "queue_fits (\<lambda>t. waits_cond (t_context t) = Some c) (live s) (view s) (cond_q (conds s) c)"
      using parts(5) by (simp add: conds_fit_def)
    then show ?thesis using ctx that by (auto simp: queue_fits_def exactly_def)
  qed
  show "this_thread s \<notin> set (mx_wait_q mx)" if "mutexes s m = Some mx"
  proof -
    have "mutex_fits m (live s) (view s) (mutex_at (mutexes s) m)" using parts(6) by (simp add: mutexes_fit_def)
    then show ?thesis using ctx that by (auto simp: mutex_fits_def queue_fits_def exactly_def)
  qed
qed

theorem cond_timedwait_ok:
  assumes inv: "st_inv s" and user: "runs_user s" and c: "conds s c = Some q" and after: "waits_cond after = Some c"
  shows "goes_well s (st_cond_timedwait c timeout after s)"
proof (cases "t_interrupt (me s)")
  case True
  then show ?thesis using returns_well_interrupted [OF inv user] by (simp add: st_cond_timedwait_def returns_well_goes)
next
  case False
  let ?a = "this_thread s" and ?b = "timeout \<noteq> ST_UTIME_NO_TIMEOUT"
  note run = running [OF inv]
  note parts = fit_parts [OF run(7)]
  have ctx: "t_context (view s ?a) = In_user" using user by (simp add: runs_user_def)
  have after': "after \<notin> {In_user, In_idle, In_poll, In_exit}" "waits_mutex after = None" "COND_WAIT \<in> waiting_states after"
    "after \<noteq> In_gone"
    using after by (cases after; simp)+
  define s0 where "s0 = (set_state ?a COND_WAIT s)\<lparr>conds := (conds s)(c \<mapsto> q @ [?a])\<rparr>"
  have s0: "this_thread s0 = ?a" "live s0 = live s" "view s0 = (view s)(?a := (view s ?a)\<lparr>t_state := COND_WAIT\<rparr>)"
    by (simp_all add: s0_def)
  have "sleepq_holds s0 (sleepers (live s) (view s))" using parts(7) by (simp add: s0_def)
  from sleep_unless_forever_ok [OF this, of timeout, unfolded s0(1), OF me_sleeper [OF inv]]
  obtain s1 where s1: "sleep_unless_forever timeout s0 = Some s1"
      "sleepq_holds s1 (if ?b then insert ?a (sleepers (live s) (view s)) else sleepers (live s) (view s))"
      "view s1 = (view s0)(?a := asleep ?b (last_clock s0 + timeout) (view s0 ?a))"
      "same_objects s0 s1" "this_thread s1 = ?a" "pagesize s1 = pagesize s0" "run_q s1 = run_q s0"
    by blast
  let ?t = "(asleep ?b (last_clock s0 + timeout) ((view s ?a)\<lparr>t_state := COND_WAIT\<rparr>))\<lparr>t_context := after\<rparr>"
  define s2 where "s2 = set_context ?a after s1"
  have res: "st_cond_timedwait c timeout after s = switch_context after s1"
    using False s1(1) c by (simp add: st_cond_timedwait_def s0_def)
  have idle: "\<not> t_idle_thread (view s ?a)" using not_idle [OF inv] ctx by simp
  have objs: "idle_thread s2 = idle_thread s" "thread_q s2 = thread_q s" "free_stacks s2 = free_stacks s" "next_obj s2 = next_obj s"
    "pagesize s2 = pagesize s" "run_q s2 = run_q s" "io_q s2 = io_q s" "zombie_q s2 = zombie_q s"
    "conds s2 = (conds s)(c \<mapsto> q @ [?a])" "mutexes s2 = mutexes s" "ep s2 = ep s"
    using s1(4,6,7) by (simp_all add: same_objects_def s2_def s0_def)
  have view2: "view s2 = (view s)(?a := ?t)" by (simp add: s2_def s1(3) s0(3))
  have "st_fits None s2"
  proof (rule block_step [OF inv ctx view2 _ _ _ _ _ objs(1-6)])
    show "fits ?t" using idle after' by (simp add: fits_def run(4))
    show "queue_fits on_io (live s) ((view s)(?a := ?t)) (io_q s2)"
      using parts(3) ctx after' by (subst queue_same) (simp_all add: on_io_def objs)
    show "queue_fits (\<lambda>t. t_state t = ZOMBIE) (live s) ((view s)(?a := ?t)) (zombie_q s2)"
      using parts(4) run(2) by (subst queue_same) (simp_all add: objs)
    show "conds_fit (live s) ((view s)(?a := ?t)) (conds s2)"
      unfolding objs by (rule conds_append [OF parts(5) c]) (simp_all add: ctx after run(1))
    show "mutexes_fit (live s) ((view s)(?a := ?t)) (mutexes s2)"
      unfolding objs by (rule mutexes_same [OF parts(6)]) (simp_all add: after' ctx)
    have "sleepers (live s) ((view s)(?a := ?t)) = (if ?b then insert ?a (sleepers (live s) (view s)) else sleepers (live s) (view s))"
      by (rule sleepers_asleep) (use run(1,4) in simp_all)
    then show "sleepq_holds s2 (sleepers (live s) ((view s)(?a := ?t)))" using s1(2) by (simp add: s2_def)
    show "ev_inv s2"
      by (rule ev_inv_cong [OF parts(9)])
        (use running_elsewhere(1) [OF inv user] in \<open>auto simp: objs live_def view2 split: if_splits\<close>)
  qed (use idle after' c in \<open>simp_all add: objs\<close>)
  then show ?thesis using goes_well_switch [of s1 after s] s1(5) by (simp add: res s2_def)
qed

lemma waiting_cond:
  assumes inv: "st_inv s" and ctx: "waits_cond (t_context (view s (this_thread s))) = Some c"
  obtains q where "conds s c = Some q" "this_thread s \<in> set q"
proof -
  note run = running [OF inv]
  have "queue_fits (\<lambda>t. waits_cond (t_context t) = Some c) (live s) (view s) (cond_q (conds s) c)"
    using fit_parts(5) [OF run(7)] by (simp add: conds_fit_def)
  then have "this_thread s \<in> set (cond_q (conds s) c)" using ctx run(1) by (auto simp: queue_fits_def exactly_def)
  then show ?thesis using that by (cases "conds s c") (auto simp: cond_q_def)
qed

text \<open>The thread leaves the queue; then the flag of the timeout is cleared, if it is set.\<close>

lemma finish_cond_ok:
  assumes inv: "st_inv s" and ctx: "waits_cond (t_context (view s (this_thread s))) = Some c"
  shows "returns_well s (finish_cond c (set_context (this_thread s) In_user s))"
    and "finish_cond c (set_context (this_thread s) In_user s) = Some (out, s') \<Longrightarrow> conds s' c \<noteq> None"
proof -
  let ?a = "this_thread s"
  note run = running [OF inv]
  note parts = fit_parts [OF run(7)]
  obtain q where q: "conds s c = Some q" "?a \<in> set q" using waiting_cond [OF inv ctx] .
  have ctx': "t_context (view s ?a) \<notin> {In_idle, In_poll}" "waits_mutex (t_context (view s ?a)) = None"
    using ctx by (cases "t_context (view s ?a)"; simp)+
  let ?t = "(view s ?a)\<lparr>t_context := In_user\<rparr>"
  define s1 where "s1 = (set_context ?a In_user s)\<lparr>conds := (conds s)(c \<mapsto> remove1 ?a q)\<rparr>"
  have view1: "view s1 = (view s)(?a := ?t)" by (simp add: s1_def)
  have "st_inv s1 \<and> runs_user s1"
  proof (rule me_step [OF inv _ view1])
    show "queue_fits on_io (live s) ((view s)(?a := ?t)) (io_q s1)"
      using parts(3) ctx' by (subst queue_same) (simp_all add: on_io_def s1_def)
    show "conds_fit (live s) ((view s)(?a := ?t)) (conds s1)"
      unfolding s1_def by (simp, rule conds_remove [OF parts(5) q(1)]) (simp_all add: ctx)
    show "mutexes_fit (live s) ((view s)(?a := ?t)) (mutexes s1)"
      unfolding s1_def by (simp, rule mutexes_same [OF parts(6)]) (simp_all add: ctx')
    show "ev_inv s1" by (rule poll_same [of ?t s ?a, OF _ _ run(1) parts(9) view1]) (simp_all add: run(2) s1_def)
  qed (use ctx' q in \<open>simp_all add: run s1_def fun_eq_iff\<close>)
  then have s1: "st_inv s1" "runs_user s1" "this_thread s1 = ?a" by (simp_all add: s1_def)
  define s2 where "s2 = (if t_timedout (me s1) then (update_thread (\<lambda>t. t\<lparr>t_timedout := False\<rparr>) s1)\<lparr>vp_errno := ETIME\<rparr> else s1)"
  have "st_inv s2 \<and> runs_user s2 \<and> this_thread s2 = ?a"
    using user_update [OF s1(1,2), of "\<lambda>t. t\<lparr>t_timedout := False\<rparr>"] errno_same s1 by (simp add: s2_def)
  moreover have "finish_cond c (set_context ?a In_user s) =
      (if t_interrupt (me s2) then fails_interrupted s2 else returns (if t_timedout (me s1) then -1 else 0) s2)"
    using q(1) by (simp add: finish_cond_def s1_def [symmetric] s2_def Let_def)
  ultimately show "returns_well s (finish_cond c (set_context ?a In_user s))"
    and "finish_cond c (set_context ?a In_user s) = Some (out, s') \<Longrightarrow> conds s' c \<noteq> None"
    using returns_well_interrupted [of s2 s] returns_well_returns [of s2 s]
    by (auto simp: fails_interrupted_def fails_def returns_def update_thread_def s2_def s1_def split: if_splits)
qed

section \<open>Signals\<close>

definition cond_waiters :: "st_vp \<Rightarrow> nat \<Rightarrow> tid list" where
  "cond_waiters s c = filter (\<lambda>a. t_state (view s a) = COND_WAIT) (cond_q (conds s) c)"

lemma signal_loop_ok:
  assumes "st_fits r s" and "distinct q" and "\<forall>a \<in> set q. a \<in> live s \<and> waits_cond (t_context (view s a)) = Some c"
  shows "\<exists>s'. cond_signal_loop b q s = Some s' \<and> st_fits r s' \<and>
    wakes ((if b then id else take 1) (filter (\<lambda>a. t_state (view s a) = COND_WAIT) q)) s s'"
  using assms
proof (induction q arbitrary: s)
  case Nil
  then show ?case using wakes_Nil by simp
next
  case (Cons a q)
  have a: "a \<in> live s" "waits_cond (t_context (view s a)) = Some c" using Cons.prems(3) by auto
  show ?case
  proof (cases "t_state (view s a) = COND_WAIT")
    case False
    then show ?thesis using Cons by (simp add: view_select)
  next
    case True
    have "t_state (view s a) \<in> {IO_WAIT, LOCK_WAIT, COND_WAIT, SLEEPING, SUSPENDED}" using True by simp
    moreover have "t_context (view s a) \<noteq> In_lock m" for m using a(2) by auto
    ultimately obtain s1 where s1: "wake_up a s = Some s1" "st_fits r s1" "wakes [a] s s1"
      using wake_up_fits [OF Cons.prems(1) a(1)] by blast
    have view1: "view s1 b = view s b" if "b \<in> set q" for b using s1(3) that Cons.prems(2) by (auto simp: wakes_def)
    have live1: "live s1 = live s" using s1(3) by (simp add: wakes_def same_outside_def)
    have pre: "\<forall>b \<in> set q. b \<in> live s1 \<and> waits_cond (t_context (view s1 b)) = Some c"
      using Cons.prems(3) view1 live1 by simp
    have eq: "filter (\<lambda>b. t_state (view s1 b) = COND_WAIT) q = filter (\<lambda>b. t_state (view s b) = COND_WAIT) q"
      by (rule filter_cong) (simp_all add: view1)
    show ?thesis
    proof (cases b)
      case True
      then obtain s' where s': "cond_signal_loop b q s1 = Some s'" "st_fits r s'"
          "wakes (filter (\<lambda>b. t_state (view s b) = COND_WAIT) q) s1 s'"
        using Cons.IH [OF s1(2) _ pre] Cons.prems(2) eq by auto
      then show ?thesis
        using s1(1) wakes_append [OF s1(3) s'(3)] True \<open>t_state (view s a) = COND_WAIT\<close> by (simp add: view_select)
    next
      case False
      then show ?thesis using s1 \<open>t_state (view s a) = COND_WAIT\<close> by (simp add: view_select)
    qed
  qed
qed

theorem cond_signal_fits:
  assumes fit: "st_fits r s" and c: "conds s c = Some q"
  shows "\<exists>s'. cond_signal c b s = Some s' \<and> st_fits r s' \<and> wakes ((if b then id else take 1) (cond_waiters s c)) s s'"
proof -
  have "queue_fits (\<lambda>t. waits_cond (t_context t) = Some c) (live s) (view s) (cond_q (conds s) c)"
    using fit_parts(5) [OF fit] by (simp add: conds_fit_def)
  then have "distinct q" "\<forall>a \<in> set q. a \<in> live s \<and> waits_cond (t_context (view s a)) = Some c"
    using c by (auto simp: queue_fits_def exactly_def)
  from signal_loop_ok [OF fit this, of b] show ?thesis using c by (simp add: cond_signal_def cond_waiters_def)
qed

lemma wakes_inv:
  assumes inv: "st_inv s" and user: "runs_user s" and fit: "st_fits (Some (this_thread s)) s'" and wakes: "wakes ws s s'"
  shows "st_inv s' \<and> runs_user s' \<and> this_thread s' = this_thread s"
proof -
  have same: "this_thread s' = this_thread s" "idle_thread s' = idle_thread s" "live s' = live s"
    using wakes by (simp_all add: wakes_def same_outside_def)
  have "t_context (view s' a) = t_context (view s a)" for a using wakes by (simp add: wakes_def woken_def)
  then show ?thesis
    using not_idle [OF inv] running(1) [OF inv] user fit same by (simp add: st_inv_def runs_user_def)
qed

theorem signal_ok:
  assumes inv: "st_inv s" and user: "runs_user s" and c: "conds s c = Some q"
  shows "\<exists>s'. cond_signal c b s = Some s' \<and> st_inv s' \<and> runs_user s' \<and> this_thread s' = this_thread s \<and>
    wakes ((if b then id else take 1) (cond_waiters s c)) s s'"
proof -
  obtain s' where s': "cond_signal c b s = Some s'" "st_fits (Some (this_thread s)) s'"
      "wakes ((if b then id else take 1) (cond_waiters s c)) s s'"
    using cond_signal_fits [OF running(7) [OF inv] c] by blast
  then show ?thesis using wakes_inv [OF inv user s'(2,3)] by blast
qed

section \<open>New and destroyed objects\<close>

lemma objs_step:
  assumes inv: "st_inv s" and user: "runs_user s"
    and same: "view s' = view s" "this_thread s' = this_thread s" "idle_thread s' = idle_thread s" "thread_q s' = thread_q s"
      "free_stacks s' = free_stacks s" "pagesize s' = pagesize s" "run_q s' = run_q s" "zombie_q s' = zombie_q s" "io_q s' = io_q s"
      "ep s' = ep s" "sleepq_holds s' = sleepq_holds s"
    and names: "next_obj s \<le> next_obj s'"
    and objs: "conds_fit (live s) (view s) (conds s')" "mutexes_fit (live s) (view s) (mutexes s')"
      "terms_fit (live s) (view s) (conds s')"
      "\<And>n. conds s' n \<noteq> None \<or> mutexes s' n \<noteq> None \<Longrightarrow> n < next_obj s'"
  shows "st_inv s' \<and> runs_user s'"
proof -
  note run = running [OF inv]
  note parts = fit_parts [OF run(7)]
  have live: "live s' = live s" using same by (simp add: live_def)
  have ev: "ev_inv s'" by (rule ev_inv_cong [OF parts(9)]) (simp_all add: same live)
  have stacks: "stacks_fit (thread_q s') (map fst (free_stacks s')) (next_obj s')"
    using parts(8) names by (auto simp: same stacks_fit_def intro: less_le_trans)
  have nf: "names_fit s'" using parts(11) objs(4) by (simp add: names_fit_def same)
  have "st_fits (Some (this_thread s)) s'"
    using parts ev stacks objs nf unfolding st_fits_def vp_inv_def live same by blast
  then show ?thesis using inv user live same by (simp add: st_inv_def runs_user_def)
qed

lemma conds_fit_empty: "conds_fit L v cs \<Longrightarrow> cond_q cs c = [] \<Longrightarrow> cond_q cs' c = [] \<Longrightarrow> (\<And>d. d \<noteq> c \<Longrightarrow> cs' d = cs d) \<Longrightarrow> conds_fit L v cs'"
  unfolding conds_fit_def by (metis cond_q_def)

lemma mutexes_fit_empty: "mutexes_fit L v ms \<Longrightarrow> mutex_at ms m = mutex_at ms' m \<Longrightarrow> (\<And>d. d \<noteq> m \<Longrightarrow> ms' d = ms d) \<Longrightarrow> mutexes_fit L v ms'"
  unfolding mutexes_fit_def by (metis mutex_at_def)

lemma fresh_names:
  assumes "st_inv s"
  shows "conds s (next_obj s) = None" "mutexes s (next_obj s) = None"
  using fit_parts(11) [OF running(7) [OF assms]] by (auto simp: names_fit_def)

lemma cond_new_ok:
  assumes inv: "st_inv s" and user: "runs_user s" and run: "st_cond_new mem_ok s = (r, s')"
  shows "st_inv s' \<and> runs_user s' \<and> this_thread s' = this_thread s"
proof (cases mem_ok)
  case True
  note parts = fit_parts [OF running(7) [OF inv]]
  have s': "s' = s\<lparr>conds := (conds s)(next_obj s \<mapsto> []), next_obj := Suc (next_obj s)\<rparr>"
    using run True by (simp add: st_cond_new_def)
  have "st_inv s' \<and> runs_user s'"
  proof (rule objs_step [OF inv user])
    show "conds_fit (live s) (view s) (conds s')"
      by (rule conds_fit_empty [OF parts(5), of "next_obj s"]) (use fresh_names [OF inv] in \<open>simp_all add: s' cond_q_def\<close>)
    show "terms_fit (live s) (view s) (conds s')" by (rule terms_fit_conds [OF parts(10)]) (simp add: s')
    show "n < next_obj s'" if "conds s' n \<noteq> None \<or> mutexes s' n \<noteq> None" for n
    proof (cases "n = next_obj s")
      case False
      then have "conds s n \<noteq> None \<or> mutexes s n \<noteq> None" using that by (simp add: s')
      then have "n < next_obj s" using parts(11) unfolding names_fit_def by blast
      then show ?thesis by (simp add: s')
    qed (simp add: s')
  qed (use parts(6) in \<open>simp_all add: s' fun_eq_iff\<close>)
  then show ?thesis by (simp add: s')
next
  case False
  then show ?thesis using run inv user by (simp add: st_cond_new_def)
qed

lemma mutex_new_ok:
  assumes inv: "st_inv s" and user: "runs_user s" and run: "st_mutex_new mem_ok s = (r, s')"
  shows "st_inv s' \<and> runs_user s' \<and> this_thread s' = this_thread s"
proof (cases mem_ok)
  case True
  note parts = fit_parts [OF running(7) [OF inv]]
  have s': "s' = s\<lparr>mutexes := (mutexes s)(next_obj s \<mapsto> \<lparr>mx_owner = None, mx_wait_q = []\<rparr>), next_obj := Suc (next_obj s)\<rparr>"
    using run True by (simp add: st_mutex_new_def)
  have "st_inv s' \<and> runs_user s'"
  proof (rule objs_step [OF inv user])
    show "mutexes_fit (live s) (view s) (mutexes s')"
      by (rule mutexes_fit_empty [OF parts(6), of "next_obj s"]) (use fresh_names [OF inv] in \<open>simp_all add: s' mutex_at_def\<close>)
    show "n < next_obj s'" if "conds s' n \<noteq> None \<or> mutexes s' n \<noteq> None" for n
    proof (cases "n = next_obj s")
      case False
      then have "conds s n \<noteq> None \<or> mutexes s n \<noteq> None" using that by (simp add: s')
      then have "n < next_obj s" using parts(11) unfolding names_fit_def by blast
      then show ?thesis by (simp add: s')
    qed (simp add: s')
  qed (use parts(5,10) in \<open>simp_all add: s' fun_eq_iff\<close>)
  then show ?thesis by (simp add: s')
next
  case False
  then show ?thesis using run inv user by (simp add: st_mutex_new_def)
qed

text \<open>The termination variables belong to the library.\<close>

definition terms_of :: "st_vp \<Rightarrow> nat set" where
  "terms_of s = {c. \<exists>a \<in> live s. t_term (view s a) = Some c}"

lemma cond_destroy_ok:
  assumes inv: "st_inv s" and user: "runs_user s" and c: "conds s c = Some q" "c \<notin> terms_of s"
  shows "returns_well s (st_cond_destroy c s)"
proof (cases "q = []")
  case True
  note parts = fit_parts [OF running(7) [OF inv]]
  let ?s = "s\<lparr>conds := (conds s)(c := None)\<rparr>"
  have "st_inv ?s \<and> runs_user ?s"
  proof (rule objs_step [OF inv user])
    show "conds_fit (live s) (view s) (conds ?s)"
      by (rule conds_fit_empty [OF parts(5), of c]) (use True c in \<open>simp_all add: cond_q_def\<close>)
    have "\<forall>a \<in> live s. t_term (view s a) \<noteq> Some c" using c(2) by (auto simp: terms_of_def)
    then show "terms_fit (live s) (view s) (conds ?s)" using parts(10) by (auto simp: terms_fit_def)
    show "n < next_obj ?s" if "conds ?s n \<noteq> None \<or> mutexes ?s n \<noteq> None" for n
      using parts(11) that unfolding names_fit_def by (auto split: if_splits)
  qed (use parts(6) in \<open>simp_all add: fun_eq_iff\<close>)
  then show ?thesis using True c by (simp add: st_cond_destroy_def returns_well_returns)
next
  case False
  then show ?thesis using c returns_well_fails [OF inv user] by (simp add: st_cond_destroy_def)
qed

lemma mutex_destroy_ok:
  assumes inv: "st_inv s" and user: "runs_user s" and m: "mutexes s m = Some mx"
  shows "returns_well s (st_mutex_destroy m s)"
proof (cases "mx_owner mx = None \<and> mx_wait_q mx = []")
  case True
  note parts = fit_parts [OF running(7) [OF inv]]
  let ?s = "s\<lparr>mutexes := (mutexes s)(m := None)\<rparr>"
  have "mx = \<lparr>mx_owner = None, mx_wait_q = []\<rparr>" using True by (cases mx) simp
  then have "st_inv ?s \<and> runs_user ?s"
    by (intro objs_step [OF inv user])
      (use parts(5,10,11) m in \<open>auto simp: fun_eq_iff names_fit_def mutex_at_def intro!: mutexes_fit_empty [OF parts(6), of m] split: if_splits\<close>)
  then show ?thesis using True m by (simp add: st_mutex_destroy_def returns_well_returns)
next
  case False
  then show ?thesis using m returns_well_fails [OF inv user] by (simp add: st_mutex_destroy_def)
qed

section \<open>Mutexes\<close>

lemma mutexes_owner:
  assumes fit: "mutexes_fit L v ms" and m: "ms m = Some mx"
    and handed: "\<And>a. a \<in> L \<Longrightarrow> t_context (v a) = In_lock m \<Longrightarrow> handed a (v a) (mx\<lparr>mx_owner := x\<rparr>)"
  shows "mutexes_fit L v (ms(m \<mapsto> mx\<lparr>mx_owner := x\<rparr>))"
  unfolding mutexes_fit_def
proof
  fix n
  have "mutex_fits n L v (mutex_at ms n)" using fit by (simp add: mutexes_fit_def)
  then show "mutex_fits n L v (mutex_at (ms(m \<mapsto> mx\<lparr>mx_owner := x\<rparr>)) n)"
    using m handed by (cases "n = m") (simp_all add: mutex_fits_def)
qed

lemma mutexes_append:
  assumes fit: "mutexes_fit L v ms" and m: "ms m = Some mx" "mx_owner mx \<noteq> None" and x: "x \<in> L"
    and t': "t_context t' = In_lock m" "t_state t' = LOCK_WAIT" "waits_mutex (t_context (v x)) = None"
  shows "mutexes_fit L (v(x := t')) (ms(m \<mapsto> mx\<lparr>mx_wait_q := mx_wait_q mx @ [x]\<rparr>))"
  unfolding mutexes_fit_def
proof
  fix n
  have n: "mutex_fits n L v (mutex_at ms n)" using fit by (simp add: mutexes_fit_def)
  have ctx: "t_context (v x) \<noteq> In_lock k" for k using t'(3) by (auto simp: waits_mutex_In_lock [symmetric])
  show "mutex_fits n L (v(x := t')) (mutex_at (ms(m \<mapsto> mx\<lparr>mx_wait_q := mx_wait_q mx @ [x]\<rparr>)) n)"
  proof (cases "n = m")
    case True
    have q: "queue_fits (\<lambda>t. t_context t = In_lock m) L v (mx_wait_q mx)" using n True m by (simp add: mutex_fits_def)
    have "queue_fits (\<lambda>t. t_context t = In_lock m) L (v(x := t')) (mx_wait_q mx @ [x])"
      by (rule queue_append [OF q _ t'(1) x]) (rule ctx)
    then show ?thesis using n True m t' by (auto simp: mutex_fits_def handed_def)
  next
    case False
    then show ?thesis using mutex_update [OF n, of t' x] ctx [of n] t' by simp
  qed
qed

lemma mutexes_remove:
  assumes fit: "mutexes_fit L v ms" and m: "ms m = Some mx" and ctx: "t_context (v x) = In_lock m" and t': "waits_mutex (t_context t') = None"
  shows "mutexes_fit L (v(x := t')) (ms(m \<mapsto> mx\<lparr>mx_wait_q := remove1 x (mx_wait_q mx)\<rparr>))"
  unfolding mutexes_fit_def
proof
  fix n
  have n: "mutex_fits n L v (mutex_at ms n)" using fit by (simp add: mutexes_fit_def)
  have t'': "t_context t' \<noteq> In_lock k" for k using t' by (auto simp: waits_mutex_In_lock [symmetric])
  show "mutex_fits n L (v(x := t')) (mutex_at (ms(m \<mapsto> mx\<lparr>mx_wait_q := remove1 x (mx_wait_q mx)\<rparr>)) n)"
  proof (cases "n = m")
    case True
    have q: "queue_fits (\<lambda>t. t_context t = In_lock m) L v (mx_wait_q mx)" using n True m by (simp add: mutex_fits_def)
    have "queue_fits (\<lambda>t. t_context t = In_lock m) L (v(x := t')) (remove1 x (mx_wait_q mx))"
      by (rule queue_remove [OF q]) (rule t'')
    then show ?thesis using n True m t'' by (auto simp: mutex_fits_def handed_def)
  next
    case False
    then show ?thesis using mutex_update [OF n, of t' x] ctx t'' [of n] by simp
  qed
qed

lemma owner_ok:
  assumes inv: "st_inv s" and user: "runs_user s" and m: "mutexes s m = Some mx"
    and handed: "\<And>a. a \<in> live s \<Longrightarrow> t_context (view s a) = In_lock m \<Longrightarrow> handed a (view s a) (mx\<lparr>mx_owner := x\<rparr>)"
  shows "st_inv (s\<lparr>mutexes := (mutexes s)(m \<mapsto> mx\<lparr>mx_owner := x\<rparr>)\<rparr>) \<and> runs_user (s\<lparr>mutexes := (mutexes s)(m \<mapsto> mx\<lparr>mx_owner := x\<rparr>)\<rparr>)"
proof -
  note parts = fit_parts [OF running(7) [OF inv]]
  let ?s = "s\<lparr>mutexes := (mutexes s)(m \<mapsto> mx\<lparr>mx_owner := x\<rparr>)\<rparr>"
  show ?thesis
  proof (rule objs_step [OF inv user])
    show "mutexes_fit (live s) (view s) (mutexes ?s)" using mutexes_owner [OF parts(6) m handed] by simp
    show "n < next_obj ?s" if "conds ?s n \<noteq> None \<or> mutexes ?s n \<noteq> None" for n
      using parts(11) that m unfolding names_fit_def by (auto split: if_splits)
  qed (use parts(5,10) in \<open>simp_all add: fun_eq_iff\<close>)
qed

lemma free_mutex_handed:
  assumes inv: "st_inv s" and m: "mutexes s m = Some mx" and owner: "mx_owner mx = None"
    and a: "a \<in> live s" "t_context (view s a) = In_lock m"
  shows "handed a (view s a) (mx\<lparr>mx_owner := x\<rparr>)"
  using mutexes_handed [OF fit_parts(6) [OF running(7) [OF inv]] a] m owner by (simp add: handed_def split: if_splits)

theorem mutex_trylock_ok:
  assumes inv: "st_inv s" and user: "runs_user s" and m: "mutexes s m = Some mx"
  shows "returns_well s (st_mutex_trylock m s)"
proof (cases "mx_owner mx = None")
  case True
  then show ?thesis
    using owner_ok [OF inv user m free_mutex_handed [OF inv m True]] m by (simp add: st_mutex_trylock_def returns_well_returns)
next
  case False
  then show ?thesis using m returns_well_fails [OF inv user] by (simp add: st_mutex_trylock_def)
qed

theorem mutex_lock_ok:
  assumes inv: "st_inv s" and user: "runs_user s" and m: "mutexes s m = Some mx"
  shows "goes_well s (st_mutex_lock m s)"
proof -
  let ?a = "this_thread s"
  note run = running [OF inv]
  note parts = fit_parts [OF run(7)]
  have ctx: "t_context (view s ?a) = In_user" using user by (simp add: runs_user_def)
  consider "t_interrupt (me s)" | "\<not> t_interrupt (me s)" "mx_owner mx = None" | "\<not> t_interrupt (me s)" "mx_owner mx = Some ?a"
    | "\<not> t_interrupt (me s)" "mx_owner mx \<noteq> None" "mx_owner mx \<noteq> Some ?a"
    by blast
  then show ?thesis
  proof cases
    case 1
    then show ?thesis using returns_well_interrupted [OF inv user] by (simp add: st_mutex_lock_def returns_well_goes)
  next
    case 2
    then show ?thesis
      using owner_ok [OF inv user m free_mutex_handed [OF inv m 2(2)]] m
      by (simp add: st_mutex_lock_def returns_well_returns returns_well_goes)
  next
    case 3
    then show ?thesis using returns_well_fails [OF inv user] m by (simp add: st_mutex_lock_def returns_well_goes)
  next
    case 4
    let ?t = "(view s ?a)\<lparr>t_state := LOCK_WAIT, t_context := In_lock m\<rparr>"
    define s1 where "s1 = (set_state ?a LOCK_WAIT s)\<lparr>mutexes := (mutexes s)(m \<mapsto> mx\<lparr>mx_wait_q := mx_wait_q mx @ [?a]\<rparr>)\<rparr>"
    define s2 where "s2 = set_context ?a (In_lock m) s1"
    have idle: "\<not> t_idle_thread (view s ?a)" using not_idle [OF inv] ctx by simp
    have view2: "view s2 = (view s)(?a := ?t)" by (simp add: s2_def s1_def)
    have objs: "idle_thread s2 = idle_thread s" "thread_q s2 = thread_q s" "free_stacks s2 = free_stacks s" "next_obj s2 = next_obj s"
      "pagesize s2 = pagesize s" "run_q s2 = run_q s" "io_q s2 = io_q s" "zombie_q s2 = zombie_q s" "conds s2 = conds s"
      "mutexes s2 = (mutexes s)(m \<mapsto> mx\<lparr>mx_wait_q := mx_wait_q mx @ [?a]\<rparr>)" "ep s2 = ep s"
      by (simp_all add: s2_def s1_def)
    have "st_fits None s2"
    proof (rule block_step [OF inv ctx view2 _ _ _ _ _ objs(1-6)])
      show "fits ?t" using idle by (simp add: fits_def run(4))
      show "queue_fits on_io (live s) ((view s)(?a := ?t)) (io_q s2)"
        using parts(3) ctx by (subst queue_same) (simp_all add: on_io_def objs)
      show "queue_fits (\<lambda>t. t_state t = ZOMBIE) (live s) ((view s)(?a := ?t)) (zombie_q s2)"
        using parts(4) run(2) by (subst queue_same) (simp_all add: objs)
      show "conds_fit (live s) ((view s)(?a := ?t)) (conds s2)"
        using parts(5) ctx by (subst conds_same) (simp_all add: objs)
      show "mutexes_fit (live s) ((view s)(?a := ?t)) (mutexes s2)"
        unfolding objs by (rule mutexes_append [OF parts(6) m 4(2) run(1)]) (simp_all add: ctx)
      have "sleepers (live s) ((view s)(?a := ?t)) = sleepers (live s) (view s)" by (rule sleepers_same) simp
      then show "sleepq_holds s2 (sleepers (live s) ((view s)(?a := ?t)))" using parts(7) by (simp add: s2_def s1_def)
      show "ev_inv s2"
        by (rule ev_inv_cong [OF parts(9)])
          (use running_elsewhere(1) [OF inv user] in \<open>auto simp: objs live_def view2 split: if_splits\<close>)
    qed (use idle m in \<open>simp_all add: objs\<close>)
    moreover have "st_mutex_lock m s = switch_context (In_lock m) s1" using 4 m by (auto simp: st_mutex_lock_def s1_def)
    moreover have "this_thread s1 = ?a" by (simp add: s1_def)
    ultimately show ?thesis using goes_well_switch [of s1 "In_lock m" s] by (simp add: s2_def)
  qed
qed

lemma waiting_mutex:
  assumes inv: "st_inv s" and ctx: "t_context (view s (this_thread s)) = In_lock m"
  obtains mx where "mutexes s m = Some mx" "this_thread s \<in> set (mx_wait_q mx)"
proof -
  note run = running [OF inv]
  have "mutex_fits m (live s) (view s) (mutex_at (mutexes s) m)"
    using fit_parts(6) [OF run(7)] by (simp add: mutexes_fit_def)
  then have "this_thread s \<in> set (mx_wait_q (mutex_at (mutexes s) m))"
    using ctx run(1) by (auto simp: mutex_fits_def queue_fits_def exactly_def)
  then show ?thesis using that by (cases "mutexes s m") (auto simp: mutex_at_def)
qed

text \<open>A thread that comes back from waiting for a mutex and was not interrupted owns it.\<close>

lemma finish_lock_ok:
  assumes inv: "st_inv s" and ctx: "t_context (view s (this_thread s)) = In_lock m"
  shows "returns_well s (finish_lock m (set_context (this_thread s) In_user s))"
proof -
  let ?a = "this_thread s"
  note run = running [OF inv]
  note parts = fit_parts [OF run(7)]
  obtain mx where m: "mutexes s m = Some mx" "?a \<in> set (mx_wait_q mx)" using waiting_mutex [OF inv ctx] .
  let ?t = "(view s ?a)\<lparr>t_context := In_user\<rparr>"
  define s1 where "s1 = (set_context ?a In_user s)\<lparr>mutexes := (mutexes s)(m \<mapsto> mx\<lparr>mx_wait_q := remove1 ?a (mx_wait_q mx)\<rparr>)\<rparr>"
  have view1: "view s1 = (view s)(?a := ?t)" by (simp add: s1_def)
  have "st_inv s1 \<and> runs_user s1"
  proof (rule me_step [OF inv _ view1])
    show "queue_fits on_io (live s) ((view s)(?a := ?t)) (io_q s1)"
      using parts(3) ctx by (subst queue_same) (simp_all add: on_io_def s1_def)
    show "conds_fit (live s) ((view s)(?a := ?t)) (conds s1)"
      using parts(5) ctx by (subst conds_same) (simp_all add: s1_def)
    show "mutexes_fit (live s) ((view s)(?a := ?t)) (mutexes s1)"
      unfolding s1_def by (simp, rule mutexes_remove [OF parts(6) m(1)]) (simp_all add: ctx)
    show "ev_inv s1" by (rule poll_same [of ?t s ?a, OF _ _ run(1) parts(9) view1]) (simp_all add: run(2) s1_def)
  qed (use ctx m in \<open>simp_all add: run s1_def fun_eq_iff\<close>)
  then have s1: "st_inv s1" "runs_user s1" "this_thread s1 = ?a" by (simp_all add: s1_def)
  have "finish_lock m (set_context ?a In_user s) =
      (if t_interrupt (me s1) \<and> mx_owner mx \<noteq> Some ?a then fails_interrupted s1 else returns 0 s1)"
    using m(1) by (simp add: finish_lock_def s1_def [symmetric] Let_def)
  then show ?thesis using returns_well_interrupted [of s1 s] returns_well_returns [of s1 s] s1 by simp
qed

theorem mutex_unlock_ok:
  assumes inv: "st_inv s" and user: "runs_user s" and m: "mutexes s m = Some mx"
  shows "returns_well s (st_mutex_unlock m s)"
proof (cases "mx_owner mx = Some (this_thread s)")
  case False
  then show ?thesis using m returns_well_fails [OF inv user] by (simp add: st_mutex_unlock_def)
next
  case True
  let ?nxt = "find (\<lambda>a. t_state (threads s a) = LOCK_WAIT) (mx_wait_q mx)"
  note run = running [OF inv]
  note parts = fit_parts [OF run(7)]
  have ctx: "t_context (view s (this_thread s)) = In_user" using user by (simp add: runs_user_def)
  define s1 where "s1 = s\<lparr>mutexes := (mutexes s)(m \<mapsto> mx\<lparr>mx_owner := ?nxt\<rparr>)\<rparr>"
  have q: "queue_fits (\<lambda>t. t_context t = In_lock m) (live s) (view s) (mx_wait_q mx)"
    using parts(6) m by (metis mutex_at_Some mutex_fits_def mutexes_fit_def)
  have "handed a (view s a) (mx\<lparr>mx_owner := ?nxt\<rparr>)" if a: "a \<in> live s" "t_context (view s a) = In_lock m" for a
  proof -
    have "a \<in> set (mx_wait_q mx)" using q a by (auto simp: queue_fits_def exactly_def)
    then have "t_state (view s a) = LOCK_WAIT \<Longrightarrow> ?nxt \<noteq> None" by (auto simp: find_None_iff view_select)
    moreover have "a \<noteq> this_thread s" using a ctx by auto
    ultimately show ?thesis using mutexes_handed [OF parts(6) a] m True by (auto simp: handed_def split: if_splits)
  qed
  then have s1: "st_inv s1" "runs_user s1" "this_thread s1 = this_thread s" "view s1 = view s" "live s1 = live s"
    using owner_ok [OF inv user m] by (simp_all add: s1_def)
  show ?thesis
  proof (cases ?nxt)
    case None
    then show ?thesis using True m s1 by (simp add: st_mutex_unlock_def s1_def returns_well_returns)
  next
    case (Some a)
    then have "a \<in> set (mx_wait_q mx)" "t_state (view s a) = LOCK_WAIT"
      by (auto simp: find_Some_iff view_select)
    then have a: "a \<in> live s1" "t_context (view s1 a) = In_lock m" "t_state (view s1 a) = LOCK_WAIT"
      using q s1(4,5) by (auto simp: queue_fits_def exactly_def)
    have own: "mx_owner (mutex_at (mutexes s1) m) = Some a" by (simp add: s1_def Some)
    obtain s' where s': "wake_up a s1 = Some s'" "st_fits (Some (this_thread s1)) s'" "wakes [a] s1 s'"
      using wake_up_fits [OF running(7) [OF s1(1)] a(1)] a own by auto
    have "fits (view s1 a)" using fit_parts(1) [OF running(7) [OF s1(1)]] a(1) by (simp add: threads_fit_def)
    then have "\<not> t_on_sleepq (threads s1 a)" using a(3) by (auto simp: fits_def view_select)
    then have "s' = make_runnable a s1" using s'(1) by (simp add: wake_up_def leave_sleep_q_def)
    then have "st_mutex_unlock m s = returns 0 s'"
      using True m Some by (simp add: st_mutex_unlock_def s1_def)
    then show ?thesis using wakes_inv [OF s1(1,2) s'(2,3)] s1(3) by (simp add: returns_well_returns)
  qed
qed

section \<open>Polling\<close>

lemma reqs_append_me: "reqs (concat (map p (q @ [x]))) = also_reqs (p x) (reqs (concat (map p q)))"
  by (auto simp: also_reqs_def reqs_append fun_eq_iff)

text \<open>The requests of \<open>st_poll\<close> are registered before the thread waits, or it does not wait.\<close>

theorem poll_ok:
  assumes inv: "st_inv s" and user: "runs_user s" and os: "os_ok os"
  shows "goes_well s (st_poll_vp os pds timeout s)"
proof (cases "t_interrupt (me s)")
  case True
  then show ?thesis using returns_well_interrupted [OF inv user] by (simp add: st_poll_vp_def returns_well_goes)
next
  case False
  let ?a = "this_thread s" and ?b = "timeout \<noteq> ST_UTIME_NO_TIMEOUT"
  note run = running [OF inv]
  note parts = fit_parts [OF run(7)]
  have ctx: "t_context (view s ?a) = In_user" using user by (simp add: runs_user_def)
  have ev: "ep_fits {} (io_reqs s) (io_reqs s) (ep s)" "in_array (io_reqs s) (ep s)" "polls_fit s"
    using parts(9) by (simp_all add: ev_inv_def)
  obtain r e where add: "epoll_pollset_add os pds (ep s) = (r, e)" by fastforce
  note added = pollset_add_ok [OF ev(1,2) os add]
  show ?thesis
  proof (cases r)
    case (Some err)
    let ?s = "s\<lparr>ep := e\<rparr>"
    have "io_reqs ?s = io_reqs s" by (rule io_reqs_cong) simp_all
    then have ev': "ev_inv ?s" using added Some ev(3) by (simp add: ev_inv_def polls_fit_def)
    have "st_fits (Some ?a) ?s" using parts ev' unfolding st_fits_def vp_inv_def names_fit_def by simp
    then have "st_inv ?s" "runs_user ?s" using inv user by (simp_all add: st_inv_def runs_user_def)
    then show ?thesis
      using returns_well_fails [of ?s s err] False add Some by (simp add: st_poll_vp_def returns_well_goes)
  next
    case None
    let ?pq = "\<lparr>pq_pds = pds, pq_on_ioq = True\<rparr>"
    define s0 where "s0 = update_thread (\<lambda>t. t\<lparr>t_pollq := ?pq\<rparr>) (s\<lparr>ep := e, io_q := io_q s @ [?a]\<rparr>)"
    have s0: "this_thread s0 = ?a" "live s0 = live s" "view s0 = (view s)(?a := (view s ?a)\<lparr>t_pollq := ?pq\<rparr>)"
      by (simp_all add: s0_def update_thread_def view_def)
    have "sleepq_holds s0 (sleepers (live s) (view s))" using parts(7) by (simp add: s0_def update_thread_def sleepq_holds_upd)
    from sleep_unless_forever_ok [OF this, of timeout, unfolded s0(1), OF me_sleeper [OF inv]]
    obtain s1 where s1: "sleep_unless_forever timeout s0 = Some s1"
        "sleepq_holds s1 (if ?b then insert ?a (sleepers (live s) (view s)) else sleepers (live s) (view s))"
        "view s1 = (view s0)(?a := asleep ?b (last_clock s0 + timeout) (view s0 ?a))"
        "same_objects s0 s1" "this_thread s1 = ?a" "pagesize s1 = pagesize s0" "run_q s1 = run_q s0"
      by blast
    let ?t = "(asleep ?b (last_clock s0 + timeout) ((view s ?a)\<lparr>t_pollq := ?pq\<rparr>))\<lparr>t_state := IO_WAIT, t_context := In_poll\<rparr>"
    define s2 where "s2 = set_context ?a In_poll (set_state ?a IO_WAIT s1)"
    have res: "st_poll_vp os pds timeout s = switch_context In_poll (set_state ?a IO_WAIT s1)"
      using False s1(1) add None by (simp add: st_poll_vp_def s0_def)
    have idle: "\<not> t_idle_thread (view s ?a)" using not_idle [OF inv] ctx by simp
    have objs: "idle_thread s2 = idle_thread s" "thread_q s2 = thread_q s" "free_stacks s2 = free_stacks s" "next_obj s2 = next_obj s"
      "pagesize s2 = pagesize s" "run_q s2 = run_q s" "io_q s2 = io_q s @ [?a]" "zombie_q s2 = zombie_q s"
      "conds s2 = conds s" "mutexes s2 = mutexes s" "ep s2 = e"
      using s1(4,6,7) by (simp_all add: same_objects_def s2_def s0_def update_thread_def)
    have view2: "view s2 = (view s)(?a := ?t)" by (simp add: s2_def s1(3) s0(3))
    have notin: "?a \<notin> set (io_q s)" using running_elsewhere(1) [OF inv user] .
    have "st_fits None s2"
    proof (rule block_step [OF inv ctx view2 _ _ _ _ _ objs(1-6)])
      show "fits ?t" using idle by (simp add: fits_def run(4))
      show "queue_fits on_io (live s) ((view s)(?a := ?t)) (io_q s2)"
        unfolding objs by (rule queue_append [OF parts(3) _ _ run(1)]) (simp_all add: on_io_def ctx)
      show "queue_fits (\<lambda>t. t_state t = ZOMBIE) (live s) ((view s)(?a := ?t)) (zombie_q s2)"
        using parts(4) run(2) by (subst queue_same) (simp_all add: objs)
      show "conds_fit (live s) ((view s)(?a := ?t)) (conds s2)"
        using parts(5) ctx by (subst conds_same) (simp_all add: objs)
      show "mutexes_fit (live s) ((view s)(?a := ?t)) (mutexes s2)"
        unfolding objs by (rule mutexes_same [OF parts(6)]) (simp_all add: ctx)
      have "sleepers (live s) ((view s)(?a := ?t)) = (if ?b then insert ?a (sleepers (live s) (view s)) else sleepers (live s) (view s))"
        by (rule sleepers_asleep) (use run(1,4) in simp_all)
      then show "sleepq_holds s2 (sleepers (live s) ((view s)(?a := ?t)))" using s1(2) by (simp add: s2_def)
      have "io_reqs s2 = also_reqs (pds_of s2 ?a) (reqs (concat (map (pds_of s2) (io_q s))))"
        unfolding io_reqs_def objs by (rule reqs_append_me)
      moreover have "reqs (concat (map (pds_of s2) (io_q s))) = io_reqs s"
        unfolding io_reqs_def by (rule reqs_concat_cong) (use notin in \<open>auto simp: pds_of_def view2\<close>)
      moreover have "pds_of s2 ?a = pds" by (simp add: pds_of_def view2)
      ultimately have "io_reqs s2 = also_reqs pds (io_reqs s)" by simp
      moreover have "polls_fit s2" using ev(3) by (simp add: polls_fit_def view2 live_def objs)
      ultimately show "ev_inv s2" using added None by (simp add: ev_inv_def objs)
    qed (use idle in \<open>simp_all add: objs\<close>)
    then show ?thesis using goes_well_switch [of "set_state ?a IO_WAIT s1" In_poll s] s1(5) by (simp add: res s2_def)
  qed
qed

lemma finish_poll_ok:
  assumes inv: "st_inv s" and ctx: "t_context (view s (this_thread s)) = In_poll"
  shows "returns_well s (finish_poll os (set_context (this_thread s) In_user s))"
proof -
  let ?a = "this_thread s"
  note run = running [OF inv]
  note parts = fit_parts [OF run(7)]
  let ?t = "(view s ?a)\<lparr>t_context := In_user\<rparr>" and ?pq = "t_pollq (view s ?a)"
  have pq: "t_pollq (threads s ?a) = ?pq" by (simp add: view_select)
  have ev: "ep_fits {} (io_reqs s) (io_reqs s) (ep s)" "in_array (io_reqs s) (ep s)" "polls_fit s"
    using parts(9) by (simp_all add: ev_inv_def)
  define s1 where "s1 = (if pq_on_ioq ?pq
    then (set_context ?a In_user s)\<lparr>io_q := remove1 ?a (io_q s), ep := epoll_pollset_del os (pq_pds ?pq) (ep s)\<rparr>
    else set_context ?a In_user s)"
  have view1: "view s1 = (view s)(?a := ?t)" by (simp add: s1_def)
  have live1: "live s1 = live s" by (simp add: s1_def)
  have "st_inv s1 \<and> runs_user s1"
  proof (rule me_step [OF inv _ view1])
    show "queue_fits on_io (live s) ((view s)(?a := ?t)) (io_q s1)"
      using queue_remove [OF parts(3), of ?t ?a] parts(3) ctx
      by (cases "pq_on_ioq ?pq") (simp_all add: s1_def on_io_def queue_same)
    show "conds_fit (live s) ((view s)(?a := ?t)) (conds s1)"
      using parts(5) ctx by (subst conds_same) (simp_all add: s1_def)
    show "mutexes_fit (live s) ((view s)(?a := ?t)) (mutexes s1)"
      by (simp add: s1_def, rule mutexes_same [OF parts(6)]) (simp_all add: ctx)
    show "ev_inv s1"
    proof (cases "pq_on_ioq ?pq")
      case False
      then show ?thesis by (intro poll_same [of ?t s ?a, OF _ _ run(1) parts(9) view1]) (simp_all add: run(2) s1_def)
    next
      case True
      have a: "?a \<in> set (io_q s)" using parts(3) run(1) ctx True by (auto simp: queue_fits_def exactly_def on_io_def)
      have "io_reqs s = also_reqs (pq_pds ?pq) (io_reqs s1)"
        using reqs_remove1 [OF a, of "pds_of s"] reqs_concat_cong [of "io_q s1" "pds_of s1" "pds_of s"] True
        by (simp add: io_reqs_def pds_of_def view1 s1_def)
      then have fits: "ep_fits {} (io_reqs s1) (io_reqs s1) (ep s1)" and le: "io_reqs s1 f fd \<le> io_reqs s f fd" for f fd
        using pollset_del_ok [of "{}" "pq_pds ?pq" "io_reqs s1" "ep s" os] ev(1) True
        by (simp_all add: s1_def also_reqs_def)
      have "fd_data_size (ep s1) = fd_data_size (ep s)" using True by (simp add: s1_def pollset_del_size)
      then have "in_array (io_reqs s1) (ep s1)" using ev(2) le le_zero_eq unfolding in_array_def by metis
      moreover have "polls_fit s1" using ev(3) run(2) by (simp add: polls_fit_def view1 live1)
      ultimately show ?thesis using fits by (simp add: ev_inv_def)
    qed
  qed (use ctx in \<open>simp_all add: run s1_def fun_eq_iff\<close>)
  then have s1: "st_inv s1" "runs_user s1" "this_thread s1 = ?a" by (simp_all add: s1_def)
  have "\<exists>n. finish_poll os (set_context ?a In_user s) = (if t_interrupt (me s1) then fails_interrupted s1 else returns n s1)"
    by (auto simp: finish_poll_def s1_def Let_def me_def set_context_def upd_def pq)
  then show ?thesis using returns_well_interrupted [of s1 s] returns_well_returns [of s1 s] s1 by auto
qed

end
