(* ===== verification/St_Thread_Ops.thy ===== *)
theory St_Thread_Ops
  imports St_Sched_Ops
begin

text \<open>
  Threads that come and go, the clock and the idle thread keep the invariant; so does every step of
  the library.
\<close>

section \<open>Parts that look at the live threads only\<close>

lemma queue_cong: "(\<And>a. a \<in> L \<Longrightarrow> v' a = v a) \<Longrightarrow> queue_fits P L v' q = queue_fits P L v q"
proof -
  assume "\<And>a. a \<in> L \<Longrightarrow> v' a = v a"
  then have "{a \<in> L. P (v' a)} = {a \<in> L. P (v a)}" by auto
  then show ?thesis by (simp add: queue_fits_def)
qed

lemma live_cong:
  assumes "\<And>a. a \<in> L \<Longrightarrow> v' a = v a"
  shows "threads_fit r i L v' = threads_fit r i L v" "conds_fit L v' cs = conds_fit L v cs"
    "mutexes_fit L v' ms = mutexes_fit L v ms" "sleepers L v' = sleepers L v"
  using assms queue_cong [of L v' v]
  by (simp_all add: threads_fit_def conds_fit_def mutexes_fit_def mutex_fits_def sleepers_def cong: conj_cong)

section \<open>A thread is added or taken away\<close>

lemma queue_insert:
  "queue_fits P L v q \<Longrightarrow> a \<notin> L \<Longrightarrow> queue_fits P (insert a L) v (if P (v a) then q @ [a] else q)"
  by (auto simp: queue_fits_def exactly_def)

lemma queue_delete: "queue_fits P L v q \<Longrightarrow> \<not> P (v a) \<Longrightarrow> queue_fits P (L - {a}) v q"
  by (auto simp: queue_fits_def exactly_def)

lemma conds_insert: "conds_fit L v cs \<Longrightarrow> a \<notin> L \<Longrightarrow> waits_cond (t_context (v a)) = None \<Longrightarrow> conds_fit (insert a L) v cs"
  unfolding conds_fit_def
proof
  fix c assume "\<forall>c. queue_fits (\<lambda>t. waits_cond (t_context t) = Some c) L v (cond_q cs c)" "a \<notin> L"
    "waits_cond (t_context (v a)) = None"
  then show "queue_fits (\<lambda>t. waits_cond (t_context t) = Some c) (insert a L) v (cond_q cs c)"
    using queue_insert [of "\<lambda>t. waits_cond (t_context t) = Some c" L v "cond_q cs c" a] by simp
qed

lemma conds_delete: "conds_fit L v cs \<Longrightarrow> waits_cond (t_context (v a)) = None \<Longrightarrow> conds_fit (L - {a}) v cs"
  unfolding conds_fit_def by (auto intro: queue_delete)

lemma mutexes_insert:
  assumes "mutexes_fit L v ms" and "a \<notin> L" and "waits_mutex (t_context (v a)) = None"
  shows "mutexes_fit (insert a L) v ms"
  unfolding mutexes_fit_def
proof
  fix m
  have ctx: "t_context (v a) \<noteq> In_lock m" using assms(3) by auto
  have fits: "mutex_fits m L v (mutex_at ms m)" using assms(1) by (simp add: mutexes_fit_def)
  then have "queue_fits (\<lambda>t. t_context t = In_lock m) (insert a L) v (mx_wait_q (mutex_at ms m))"
    using queue_insert [of "\<lambda>t. t_context t = In_lock m" L v "mx_wait_q (mutex_at ms m)" a] assms(2) ctx
    by (simp add: mutex_fits_def)
  then show "mutex_fits m (insert a L) v (mutex_at ms m)" using fits ctx by (simp add: mutex_fits_def)
qed

lemma mutexes_delete: "mutexes_fit L v ms \<Longrightarrow> waits_mutex (t_context (v a)) = None \<Longrightarrow> mutexes_fit (L - {a}) v ms"
  unfolding mutexes_fit_def mutex_fits_def by (auto intro!: queue_delete)

section \<open>Thread-specific data\<close>

lemma key_create_ok:
  assumes inv: "st_inv s" and user: "runs_user s" and run: "st_key_create d s = (r, s')"
  shows "st_inv s' \<and> runs_user s' \<and> this_thread s' = this_thread s"
proof (cases "ST_KEYS_MAX \<le> key_max s")
  case True
  then show ?thesis using run errno_same [OF inv user] by (auto simp: st_key_create_def)
next
  case False
  then have s': "s' = s\<lparr>key_max := Suc (key_max s), destructors := (destructors s)(key_max s := d)\<rparr>"
    using run by (simp add: st_key_create_def)
  have sq: "sleepq_holds s' = sleepq_holds s"
    by (intro ext iffI; erule sleepq_holds_cong [rotated -1]) (simp_all add: s' same_links_def)
  have "st_inv s' \<and> runs_user s'"
    by (rule user_view_same [OF inv user _ _ _ _ _ sq]) (simp_all add: s' same_objects_def)
  then show ?thesis by (simp add: s')
qed

lemma destroyed_same:
  assumes "st_inv s" and "runs_user s"
  shows "st_inv (s\<lparr>destroyed := d\<rparr>) \<and> runs_user (s\<lparr>destroyed := d\<rparr>)"
proof -
  note run = running [OF assms(1)]
  have "st_fits (Some (this_thread s)) (s\<lparr>destroyed := d\<rparr>)"
    by (rule st_fits_cong [OF run(7)]) (simp_all add: fun_eq_iff)
  then show ?thesis using assms by (simp add: st_inv_def runs_user_def)
qed

lemma destroy_data_ok:
  assumes "st_inv s" and "runs_user s"
  shows "st_inv (destroy_data a key s) \<and> runs_user (destroy_data a key s) \<and> this_thread (destroy_data a key s) = this_thread s \<and>
    key_max (destroy_data a key s) = key_max s"
  using assms destroyed_same [OF assms] by (simp add: destroy_data_def Let_def)

lemma setspecific_ok:
  assumes inv: "st_inv s" and user: "runs_user s"
  shows "returns_well s (st_thread_setspecific key x s)"
proof -
  have "returns_well s (fails EINVAL s)" using returns_well_fails [OF inv user] by simp
  moreover have "returns_well s (returns 0 s)" using returns_well_returns [OF inv user] by simp
  moreover have "returns_well s (returns 0 (update_thread (\<lambda>t. t\<lparr>t_private_data := (t_private_data t)(nat key := x)\<rparr>)
      (destroy_data (this_thread s) (nat key) s)))"
    using destroy_data_ok [OF inv user, of "this_thread s" "nat key"]
      user_update [of "destroy_data (this_thread s) (nat key) s" "\<lambda>t. t\<lparr>t_private_data := (t_private_data t)(nat key := x)\<rparr>"]
    by (intro returns_well_returns) simp_all
  ultimately show ?thesis by (simp add: st_thread_setspecific_def)
qed

lemma cleanup_key_ok:
  assumes "st_inv s" and "runs_user s"
  shows "st_inv (cleanup_key (this_thread s) key s) \<and> runs_user (cleanup_key (this_thread s) key s) \<and>
    this_thread (cleanup_key (this_thread s) key s) = this_thread s"
proof -
  have "upd (this_thread s) f (destroy_data (this_thread s) key s) = update_thread f (destroy_data (this_thread s) key s)" for f
    using destroy_data_ok [OF assms] by (simp add: update_thread_def)
  then show ?thesis
    using assms destroy_data_ok [OF assms, of "this_thread s" key]
      user_update [of "destroy_data (this_thread s) key s" "\<lambda>t. t\<lparr>t_private_data := (t_private_data t)(key := 0)\<rparr>"]
    by (simp add: cleanup_key_def)
qed

lemma cleanup_same: "thread_q (cleanup_key a key s) = thread_q s" "active_count (cleanup_key a key s) = active_count s"
  "t_term (threads (cleanup_key a key s) b) = t_term (threads s b)" "idle_thread (cleanup_key a key s) = idle_thread s"
  "conds (cleanup_key a key s) = conds s"
  by (simp_all add: cleanup_key_def destroy_data_def Let_def upd_def)

lemma cleanup_ok:
  assumes "st_inv s" and "runs_user s"
  defines "s' \<equiv> st_thread_cleanup (this_thread s) s"
  shows "st_inv s' \<and> runs_user s' \<and> this_thread s' = this_thread s"
proof -
  have "st_inv (fold (cleanup_key (this_thread s)) ks s1) \<and> runs_user (fold (cleanup_key (this_thread s)) ks s1) \<and>
      this_thread (fold (cleanup_key (this_thread s)) ks s1) = this_thread s"
    if "st_inv s1" "runs_user s1" "this_thread s1 = this_thread s" for ks s1
    using that
  proof (induction ks arbitrary: s1)
    case (Cons k ks)
    then show ?case using cleanup_key_ok [OF Cons.prems(1,2), of k] by simp
  qed simp
  then show ?thesis using assms by (simp add: s'_def st_thread_cleanup_def)
qed

section \<open>Creating a thread\<close>

lemma map_fst_remove1: "distinct (map fst xs) \<Longrightarrow> x \<in> set xs \<Longrightarrow> map fst (remove1 x xs) = remove1 (fst x) (map fst xs)"
  by (induction xs) (auto simp: rev_image_eqI)

text \<open>A stack that is handed out is that of no live thread and is not free any more.\<close>

lemma stack_new_ok:
  assumes stacks: "stacks_fit (thread_q s) (map fst (free_stacks s)) (next_obj s)" and run: "st_stack_new mem_ok z s = (Some a, s1)"
  shows "a \<notin> live s" "stacks_fit (thread_q s @ [a]) (map fst (free_stacks s1)) (next_obj s1)" "next_obj s \<le> next_obj s1"
    "view s1 = view s" "threads s1 = threads s" "same_objects (s\<lparr>free_stacks := [], next_obj := 0\<rparr>) (s1\<lparr>free_stacks := [], next_obj := 0\<rparr>)"
    "this_thread s1 = this_thread s" "pagesize s1 = pagesize s" "run_q s1 = run_q s" "sleepq_holds s1 = sleepq_holds s"
proof -
  have "a \<notin> live s \<and> stacks_fit (thread_q s @ [a]) (map fst (free_stacks s1)) (next_obj s1) \<and> next_obj s \<le> next_obj s1"
  proof (cases "find (\<lambda>ts. z \<le> snd ts) (free_stacks s)")
    case (Some ts)
    then have ts: "ts \<in> set (free_stacks s)" by (auto simp: find_Some_iff)
    have r: "a = fst ts" "s1 = s\<lparr>free_stacks := remove1 ts (free_stacks s)\<rparr>"
      using run Some by (auto simp: st_stack_new_def)
    have dist: "distinct (map fst (free_stacks s))" using stacks by (simp add: stacks_fit_def)
    have "fst ts \<in> set (map fst (free_stacks s))" using ts by simp
    then show ?thesis
      using stacks dist map_fst_remove1 [OF dist ts] set_remove1_eq [OF dist, of "fst ts"] unfolding stacks_fit_def live_def r
      by auto
  next
    case None
    then have "mem_ok" "a = next_obj s" "next_obj s1 = Suc (next_obj s)" "free_stacks s1 = free_stacks s"
      using run by (auto simp: st_stack_new_def split: if_splits)
    then show ?thesis using stacks by (auto simp: stacks_fit_def live_def less_Suc_eq)
  qed
  then show "a \<notin> live s" "stacks_fit (thread_q s @ [a]) (map fst (free_stacks s1)) (next_obj s1)" "next_obj s \<le> next_obj s1"
    by blast+
  show "view s1 = view s" "threads s1 = threads s" "same_objects (s\<lparr>free_stacks := [], next_obj := 0\<rparr>) (s1\<lparr>free_stacks := [], next_obj := 0\<rparr>)"
    "this_thread s1 = this_thread s" "pagesize s1 = pagesize s" "run_q s1 = run_q s" "sleepq_holds s1 = sleepq_holds s"
    using run by (auto simp: st_stack_new_def same_objects_def fun_eq_iff split: option.splits if_splits)
qed

lemma stack_free_ok:
  assumes "stacks_fit q (map fst (free_stacks s)) n" and "a \<notin> set q" and "a \<notin> set (map fst (free_stacks s))" and "a < n"
  shows "stacks_fit q (map fst (free_stacks (st_stack_free a s))) n"
proof (cases "free_stacks s = []")
  case True
  then show ?thesis using assms by (auto simp: stacks_fit_def st_stack_free_def Let_def)
next
  case False
  let ?f = "map fst (free_stacks s)"
  have "?f = map fst (butlast (free_stacks s)) @ [fst (last (free_stacks s))]"
    using False by (metis append_butlast_last_id list.simps(8,9) map_append)
  then show ?thesis using False assms by (auto simp: stacks_fit_def st_stack_free_def Let_def)
qed

text \<open>Changes that leave the live threads as they are.\<close>

lemma dead_step:
  assumes inv: "st_inv s" and user: "runs_user s"
    and view: "\<And>b. b \<in> live s \<Longrightarrow> view s' b = view s b"
    and same: "this_thread s' = this_thread s" "idle_thread s' = idle_thread s" "thread_q s' = thread_q s"
      "pagesize s' = pagesize s" "run_q s' = run_q s" "zombie_q s' = zombie_q s" "io_q s' = io_q s" "ep s' = ep s"
      "conds s' = conds s" "mutexes s' = mutexes s"
    and sleep: "sleepq_holds s' (sleepers (live s) (view s))" and names: "next_obj s \<le> next_obj s'"
    and stacks: "stacks_fit (thread_q s) (map fst (free_stacks s')) (next_obj s')"
    and terms: "terms_fit (live s) (view s') (conds s)"
  shows "st_inv s' \<and> runs_user s'"
proof -
  note run = running [OF inv]
  note parts = fit_parts [OF run(7)]
  have live: "live s' = live s" using same by (simp add: live_def)
  have cong: "threads_fit r i (live s) (view s') = threads_fit r i (live s) (view s)"
    "conds_fit (live s) (view s') cs = conds_fit (live s) (view s) cs"
    "mutexes_fit (live s) (view s') ms = mutexes_fit (live s) (view s) ms"
    "sleepers (live s) (view s') = sleepers (live s) (view s)" "queue_fits P (live s) (view s') q = queue_fits P (live s) (view s) q" for r i cs ms P q
    using live_cong [of "live s" "view s'" "view s"] queue_cong [of "live s" "view s'" "view s"] view by blast+
  have io: "a \<in> live s" if "a \<in> set (io_q s)" for a using parts(3) that by (auto simp: queue_fits_def exactly_def)
  have ev: "ev_inv s'" by (rule ev_inv_cong [OF parts(9)]) (use view io in \<open>simp_all add: same live\<close>)
  have nf: "names_fit s'" using parts(11) names by (auto simp: names_fit_def same intro: less_le_trans)
  have "st_fits (Some (this_thread s)) s'"
    using parts ev stacks nf sleep terms unfolding st_fits_def vp_inv_def live same cong by blast
  then show ?thesis using inv user live same run(1) by (simp add: st_inv_def runs_user_def view)
qed

text \<open>A fresh runnable thread.\<close>

definition new_thread :: "nat option \<Rightarrow> st_thread" where
  "new_thread tv = thread_zero\<lparr>t_state := RUNNABLE, t_term := tv\<rparr>"

lemma insert_step:
  assumes inv: "st_inv s" and user: "runs_user s" and a: "a \<notin> live s"
    and view: "view s' = (view s)(a := new_thread tv)"
    and same: "this_thread s' = this_thread s" "idle_thread s' = idle_thread s" "thread_q s' = thread_q s @ [a]"
      "pagesize s' = pagesize s" "run_q s' = run_q s @ [a]" "zombie_q s' = zombie_q s" "io_q s' = io_q s" "ep s' = ep s"
      "mutexes s' = mutexes s"
    and sleep: "sleepq_holds s' (sleepers (live s) (view s))" and names: "names_fit s'"
    and stacks: "stacks_fit (thread_q s') (map fst (free_stacks s')) (next_obj s')"
    and conds: "conds_fit (live s) (view s) (conds s')" "\<And>c. conds s c \<noteq> None \<Longrightarrow> conds s' c \<noteq> None"
    and terms: "\<And>c. tv = Some c \<Longrightarrow> conds s c = None \<and> conds s' c \<noteq> None"
  shows "st_inv s' \<and> runs_user s'"
proof -
  note run = running [OF inv]
  note parts = fit_parts [OF run(7)]
  let ?v = "(view s)(a := new_thread tv)" and ?L = "insert a (live s)"
  have live: "live s' = ?L" using same(3) by (simp add: live_def)
  have va: "?v a = new_thread tv" by simp
  have new: "t_state (new_thread tv) = RUNNABLE" "t_context (new_thread tv) = In_user" "\<not> t_idle_thread (new_thread tv)"
    "t_on_sleepq (new_thread tv) = False" "fits (new_thread tv)" "t_term (new_thread tv) = tv"
    by (simp_all add: new_thread_def thread_zero_def fits_def)
  have vL: "?v b = view s b" if "b \<in> live s" for b using that a by auto
  note cong = live_cong [of "live s" ?v "view s", OF vL] queue_cong [of "live s" ?v "view s", OF vL]
  have idle: "idle_thread s \<in> live s" using parts(1) by (simp add: threads_fit_def)
  have "threads_fit (Some (this_thread s)) (idle_thread s) ?L ?v"
    using parts(1) new a idle run(1) by (auto simp: threads_fit_def)
  moreover have "queue_fits on_run ?L ?v (run_q s')"
    using queue_insert [of on_run "live s" ?v "run_q s" a] parts(2) a new by (simp add: cong same on_run_def)
  moreover have "queue_fits on_io ?L ?v (io_q s')"
    using queue_insert [of on_io "live s" ?v "io_q s" a] parts(3) a new by (simp add: cong same on_io_def)
  moreover have "queue_fits (\<lambda>t. t_state t = ZOMBIE) ?L ?v (zombie_q s')"
    using queue_insert [of "\<lambda>t. t_state t = ZOMBIE" "live s" ?v "zombie_q s" a] parts(4) a new by (simp add: cong same)
  moreover have "conds_fit ?L ?v (conds s')"
    by (rule conds_insert) (use conds(1) a new in \<open>simp_all add: cong\<close>)
  moreover have "mutexes_fit ?L ?v (mutexes s')"
    by (rule mutexes_insert) (use parts(6) a new in \<open>simp_all add: cong same\<close>)
  moreover have "sleepers ?L ?v = sleepers (live s) (view s)" using a new by (auto simp: sleepers_def)
  moreover have "terms_fit ?L ?v (conds s')"
  proof -
    have fresh: "t_term (view s b) \<noteq> Some c" if "b \<in> live s" "tv = Some c" for b c
      using parts(10) terms that unfolding terms_fit_def by blast
    have "inj_on (\<lambda>b. t_term (?v b)) {b \<in> ?L. t_term (?v b) \<noteq> None}"
    proof (rule inj_onI)
      fix x y assume xy: "x \<in> {b \<in> ?L. t_term (?v b) \<noteq> None}" "y \<in> {b \<in> ?L. t_term (?v b) \<noteq> None}" "t_term (?v x) = t_term (?v y)"
      have inj: "inj_on (\<lambda>b. t_term (view s b)) {b \<in> live s. t_term (view s b) \<noteq> None}" using parts(10) by (simp add: terms_fit_def)
      show "x = y"
      proof (cases "x = a \<or> y = a")
        case True
        then show ?thesis using xy new(6) fresh by (cases tv) (auto split: if_splits)
      next
        case False
        then show ?thesis using inj_onD [OF inj, of x y] xy by auto
      qed
    qed
    moreover have "\<forall>b \<in> ?L. \<forall>c. t_term (?v b) = Some c \<longrightarrow> conds s' c \<noteq> None"
      using parts(10) conds(2) terms new(6) vL unfolding terms_fit_def by (metis fun_upd_apply insert_iff)
    moreover have "\<forall>b \<in> ?L. t_context (?v b) = In_exit \<longrightarrow> t_term (?v b) \<noteq> None"
      using parts(10) new(2) vL unfolding terms_fit_def by (metis fun_upd_apply insert_iff st_context.distinct(13))
    moreover have "\<forall>b. b \<notin> ?L \<longrightarrow> t_term (?v b) = None \<and> t_state (?v b) = RUNNING"
      using parts(10) unfolding terms_fit_def by simp
    ultimately show ?thesis unfolding terms_fit_def by blast
  qed
  moreover have "ev_inv s'"
  proof (rule ev_inv_cong [OF parts(9)])
    show "t_pollq (view s' b) = t_pollq (view s b)" if "b \<in> set (io_q s)" for b
      using that parts(3) a by (auto simp: view queue_fits_def exactly_def)
    show "b \<in> live s \<and> t_state (view s b) = IO_WAIT \<and> t_pollq (view s' b) = t_pollq (view s b)"
      if "b \<in> live s'" "t_state (view s' b) = IO_WAIT" for b
      using that new(1) by (auto simp: view live split: if_splits)
  qed (simp_all add: same)
  ultimately have "st_fits (Some (this_thread s)) s'"
    using stacks names sleep unfolding st_fits_def vp_inv_def live view same(2) by simp
  moreover have "this_thread s \<noteq> idle_thread s" using not_idle [OF inv] user by (simp add: runs_user_def)
  moreover have "view s' (this_thread s) = view s (this_thread s)" using run(1) a by (auto simp: view)
  ultimately show ?thesis using run(1) user same by (simp add: st_inv_def runs_user_def live)
qed

lemma view_fresh: "threads s' = (threads s)(a := t) \<Longrightarrow> view s' = (view s)(a := core t)"
  by (auto simp: view_def)

lemma core_zero [simp]: "core thread_zero = thread_zero"
  by (simp add: core_def thread_zero_def)

lemma sleepq_holds_upd_other:
  assumes "a \<notin> A" and "sleep_q s' = sleep_q s" and "sleepq_size s' = sleepq_size s" and "\<And>b. b \<noteq> a \<Longrightarrow> threads s' b = threads s b"
  shows "sleepq_holds s A \<Longrightarrow> sleepq_holds s' A"
proof (rule sleepq_holds_cong [of A s' s])
  show "same_links (threads s' b) (threads s b)" if "b \<in> A" for b
    using assms(1,4) that by (cases "b = a") (simp_all add: same_links_def)
qed (use assms(2,3) in simp_all)

lemma dead_zero_ok:
  assumes inv: "st_inv s" and a: "a \<notin> live s"
  shows "terms_fit (live s) ((view s)(a := thread_zero)) (conds s)"
proof (rule terms_fit_cong)
  show terms: "terms_fit (live s) (view s) (conds s)" using fit_parts(10) [OF running(7) [OF inv]] .
  have dead: "t_term (view s a) = None \<and> t_state (view s a) = RUNNING" using terms a by (simp add: terms_fit_def)
  show "t_term (((view s)(a := thread_zero)) b) = t_term (view s b)" for b using dead by (simp add: thread_zero_def)
  show "t_state (((view s)(a := thread_zero)) b) = t_state (view s b)" for b using dead by (simp add: thread_zero_def)
  show "t_context (view s b) = In_exit" if "b \<in> live s" "t_context (((view s)(a := thread_zero)) b) = In_exit" for b
    using that a by (cases "b = a") simp_all
qed

text \<open>Without the new thread, the state is the old one but for the stacks.\<close>

theorem thread_create_ok:
  assumes inv: "st_inv s" and user: "runs_user s" and run: "st_thread_create mem_ok cond_ok joinable z s = (r, s')"
  shows "st_inv s' \<and> runs_user s' \<and> this_thread s' = this_thread s"
    and "r = Some a \<Longrightarrow> a \<notin> live s \<and> run_q s' = run_q s @ [a] \<and> view s' = (view s)(a := new_thread (t_term (view s' a))) \<and>
      (joinable \<longleftrightarrow> t_term (view s' a) \<noteq> None) \<and> active_count s' = active_count s + 1"
proof -
  note rn = running [OF inv]
  note parts = fit_parts [OF rn(7)]
  let ?z = "if z = 0 then 64 * 1024 else z"
  let ?w = "((?z + int (pagesize s) - 1) sdiv int (pagesize s)) * int (pagesize s)"
  obtain ra s1 where new: "st_stack_new mem_ok ?w s = (ra, s1)" by fastforce
  have "(st_inv s' \<and> runs_user s' \<and> this_thread s' = this_thread s) \<and>
    (\<forall>a. r = Some a \<longrightarrow> a \<notin> live s \<and> run_q s' = run_q s @ [a] \<and> view s' = (view s)(a := new_thread (t_term (view s' a))) \<and>
      (joinable \<longleftrightarrow> t_term (view s' a) \<noteq> None) \<and> active_count s' = active_count s + 1)"
  proof (cases ra)
    case None
    then have "s1 = s" using new by (auto simp: st_stack_new_def split: option.splits if_splits)
    then show ?thesis using run new None inv user by (simp add: st_thread_create_def Let_def)
  next
    case (Some a)
    note st = stack_new_ok [OF parts(8) new [unfolded Some]]
    have objs: "io_q s1 = io_q s" "zombie_q s1 = zombie_q s" "thread_q s1 = thread_q s" "conds s1 = conds s" "mutexes s1 = mutexes s"
      "active_count s1 = active_count s" "idle_thread s1 = idle_thread s" "ep s1 = ep s"
      using st(6) by (simp_all add: same_objects_def)
    have notin: "a \<notin> sleepers (live s) (view s)" using st(1) by (simp add: sleepers_def)
    define s2 where "s2 = upd a (\<lambda>_. thread_zero) s1"
    have sleep2: "sleepq_holds s2 (sleepers (live s) (view s))"
      using parts(7) st(10) sleepq_holds_upd_other [OF notin, of s2 s1] by (simp add: s2_def upd_def)
    have view2: "view s2 = (view s)(a := thread_zero)" by (simp add: s2_def st(4))
    have names: "n < next_obj s1" if "conds s n \<noteq> None \<or> mutexes s n \<noteq> None" for n
      using parts(11) st(3) that unfolding names_fit_def by (meson less_le_trans)
    have page: "0 < pagesize s" using parts(11) by (simp add: names_fit_def)
    have made: ?thesis if mk: "r = Some a" and s': "s' = (make_runnable a (u\<lparr>active_count := active_count u + 1\<rparr>))\<lparr>thread_q := thread_q u @ [a]\<rparr>"
        and u: "view u = (view s2)(a := thread_zero\<lparr>t_term := tv\<rparr>)" "sleepq_holds u (sleepers (live s) (view s))"
          "same_objects (s2\<lparr>conds := cs, next_obj := k\<rparr>) u" "this_thread u = this_thread s" "pagesize u = pagesize s" "run_q u = run_q s"
        and k: "next_obj s1 \<le> k" and cs: "conds_fit (live s) (view s) cs" "\<And>c. conds s c \<noteq> None \<Longrightarrow> cs c \<noteq> None"
          "\<And>n. cs n \<noteq> None \<Longrightarrow> n < k" "\<And>c. tv = Some c \<Longrightarrow> conds s c = None \<and> cs c \<noteq> None"
        and tv: "joinable \<longleftrightarrow> tv \<noteq> None" for u tv cs k
    proof -
      have o3: "io_q u = io_q s" "zombie_q u = zombie_q s" "thread_q u = thread_q s" "conds u = cs" "mutexes u = mutexes s"
        "active_count u = active_count s" "idle_thread u = idle_thread s" "ep u = ep s" "free_stacks u = free_stacks s1" "next_obj u = k"
        using u(3) objs by (simp_all add: same_objects_def s2_def)
      have view': "view s' = (view s)(a := new_thread tv)"
        by (simp add: s' make_runnable_def u(1) view2 new_thread_def thread_zero_def)
      have "st_inv s' \<and> runs_user s'"
      proof (rule insert_step [OF inv user st(1) view'])
        show "sleepq_holds s' (sleepers (live s) (view s))"
          using u(2) by (simp add: s' make_runnable_def)
        have "n < k" if "mutexes s n \<noteq> None" for n using names [of n] k that by auto
        then show "names_fit s'" using cs(3) page by (auto simp: names_fit_def s' make_runnable_def o3 u)
        show "stacks_fit (thread_q s') (map fst (free_stacks s')) (next_obj s')"
          using st(2) k by (auto simp: s' make_runnable_def o3 stacks_fit_def intro: less_le_trans)
      qed (use cs u o3 in \<open>simp_all add: s' make_runnable_def\<close>)
      moreover have "this_thread s' = this_thread s" "run_q s' = run_q s @ [a]" "active_count s' = active_count s + 1"
        by (simp_all add: s' make_runnable_def u o3)
      moreover have "t_term (view s' a) = tv" by (simp add: view' new_thread_def)
      ultimately show ?thesis using mk view' tv st(1) by simp
    qed
    show ?thesis
    proof (cases "joinable")
      case False
      have "?thesis" if "True"
        by (rule made [where u = s2 and tv = None and cs = "conds s" and k = "next_obj s1"])
          (use run new Some False view2 sleep2 st objs parts(5) names in
            \<open>auto simp: st_thread_create_def Let_def s2_def same_objects_def thread_zero_def\<close>)
      then show ?thesis by simp
    next
      case True
      show ?thesis
      proof (cases cond_ok)
        case False
        then have r: "r = None" "s' = st_stack_free a s2"
          using run new Some True by (simp_all add: st_thread_create_def Let_def s2_def st_cond_new_def)
        have "st_inv s' \<and> runs_user s'"
        proof (rule dead_step [OF inv user])
          show "view s' b = view s b" if "b \<in> live s" for b
            using that st(1) by (auto simp: r st_stack_free_def Let_def view2)
          show "sleepq_holds s' (sleepers (live s) (view s))" using sleep2 by (simp add: r st_stack_free_def Let_def)
          have "stacks_fit (thread_q s) (map fst (free_stacks (st_stack_free a s2))) (next_obj s1)"
            by (rule stack_free_ok) (use st(1,2) in \<open>auto simp: s2_def stacks_fit_def live_def\<close>)
          then show "stacks_fit (thread_q s) (map fst (free_stacks s')) (next_obj s')"
            by (simp add: r st_stack_free_def Let_def s2_def)
          show "terms_fit (live s) (view s') (conds s)"
            using dead_zero_ok [OF inv st(1)] by (simp add: r st_stack_free_def Let_def view2)
        qed (use st objs in \<open>simp_all add: r st_stack_free_def Let_def s2_def\<close>)
        then show ?thesis using r st(7) by (simp add: st_stack_free_def Let_def s2_def)
      next
        case cond: True
        define s3 where "s3 = upd a (\<lambda>t. t\<lparr>t_term := Some (next_obj s1)\<rparr>)
          (s2\<lparr>conds := (conds s)(next_obj s1 \<mapsto> []), next_obj := Suc (next_obj s1)\<rparr>)"
        have fresh: "conds s (next_obj s1) = None" using names [of "next_obj s1"] by (cases "conds s (next_obj s1)") auto
        show ?thesis
        proof (rule made [where u = s3 and tv = "Some (next_obj s1)" and cs = "(conds s)(next_obj s1 \<mapsto> [])" and k = "Suc (next_obj s1)"])
          show "r = Some a" "s' = (make_runnable a (s3\<lparr>active_count := active_count s3 + 1\<rparr>))\<lparr>thread_q := thread_q s3 @ [a]\<rparr>"
            using run new Some True cond by (simp_all add: st_thread_create_def Let_def s2_def [symmetric] st_cond_new_def s3_def objs)
              (simp_all add: s2_def objs)
          show "view s3 = (view s2)(a := thread_zero\<lparr>t_term := Some (next_obj s1)\<rparr>)"
            by (auto simp: s3_def s2_def upd_def view_def fun_eq_iff)
          show "sleepq_holds s3 (sleepers (live s) (view s))" using sleep2 by (simp add: s3_def sleepq_holds_upd)
          show "conds_fit (live s) (view s) ((conds s)(next_obj s1 \<mapsto> []))"
            by (rule conds_fit_empty [OF parts(5), of "next_obj s1"]) (use fresh in \<open>simp_all add: cond_q_def\<close>)
          show "n < Suc (next_obj s1)" if "((conds s)(next_obj s1 \<mapsto> [])) n \<noteq> None" for n
            using names [of n] that by (auto split: if_splits)
        qed (use fresh True st in \<open>auto simp: s3_def s2_def same_objects_def\<close>)
      qed
    qed
  qed
  then show "st_inv s' \<and> runs_user s' \<and> this_thread s' = this_thread s"
    and "r = Some a \<Longrightarrow> a \<notin> live s \<and> run_q s' = run_q s @ [a] \<and> view s' = (view s)(a := new_thread (t_term (view s' a))) \<and>
      (joinable \<longleftrightarrow> t_term (view s' a) \<noteq> None) \<and> active_count s' = active_count s + 1"
    by blast+
qed

section \<open>The end of a thread\<close>

lemma gone_fits:
  assumes inv: "st_inv s" and busy: "t_context (view s (this_thread s)) \<in> {In_user, In_exit}"
    and view: "view s' = (view s)(this_thread s := t')" and t': "t_term t' = None" "t_state t' = RUNNING"
    and same: "idle_thread s' = idle_thread s" "thread_q s' = remove1 (this_thread s) (thread_q s)" "next_obj s' = next_obj s"
      "pagesize s' = pagesize s" "run_q s' = run_q s" "zombie_q s' = zombie_q s" "io_q s' = io_q s" "ep s' = ep s" "mutexes s' = mutexes s"
    and conds: "conds_fit (live s) (view s) (conds s')"
      "\<And>b c. b \<in> live s \<Longrightarrow> b \<noteq> this_thread s \<Longrightarrow> t_term (view s b) = Some c \<Longrightarrow> conds s' c \<noteq> None"
      "\<And>c. conds s' c \<noteq> None \<Longrightarrow> conds s c \<noteq> None"
    and stacks: "stacks_fit (thread_q s') (map fst (free_stacks s')) (next_obj s')"
    and sleep: "sleepq_holds s' (sleepers (live s) (view s))"
  shows "st_fits None s'"
proof -
  let ?a = "this_thread s" and ?v = "(view s)(this_thread s := t')"
  let ?L = "live s - {this_thread s}"
  note run = running [OF inv]
  note parts = fit_parts [OF run(7)]
  have idle: "\<not> t_idle_thread (view s ?a)" "?a \<noteq> idle_thread s" using not_idle [OF inv] busy by auto
  have dist: "distinct (thread_q s)" using parts(8) by (simp add: stacks_fit_def)
  have live: "live s' = ?L" using same(2) dist by (simp add: live_def)
  have vL: "?v b = view s b" if "b \<in> ?L" for b using that by auto
  have "threads_fit None (idle_thread s) ?L ?v"
    using parts(1) idle unfolding threads_fit_def by auto
  moreover have "queue_fits on_run ?L ?v (run_q s')"
    using queue_delete [OF parts(2), of ?a] run(2) queue_cong [of ?L ?v "view s" on_run "run_q s", OF vL]
    by (simp add: same on_run_def)
  moreover have "queue_fits on_io ?L ?v (io_q s')"
    using queue_delete [OF parts(3), of ?a] busy queue_cong [of ?L ?v "view s" on_io "io_q s", OF vL]
    by (auto simp: same on_io_def)
  moreover have "queue_fits (\<lambda>t. t_state t = ZOMBIE) ?L ?v (zombie_q s')"
    using queue_delete [OF parts(4), of ?a] run(2)
      queue_cong [of ?L ?v "view s" "\<lambda>t. t_state t = ZOMBIE" "zombie_q s", OF vL] by (simp add: same)
  moreover have "conds_fit ?L ?v (conds s')"
    using conds_delete [OF conds(1), of ?a] busy live_cong(2) [of ?L ?v "view s" "conds s'", OF vL] by auto
  moreover have "mutexes_fit ?L ?v (mutexes s')"
    using mutexes_delete [OF parts(6), of ?a] busy live_cong(3) [of ?L ?v "view s" "mutexes s", OF vL] by (auto simp: same)
  moreover have "sleepers ?L ?v = sleepers (live s) (view s)" using run(4) by (auto simp: sleepers_def)
  moreover have "terms_fit ?L ?v (conds s')"
  proof -
    have inj: "inj_on (\<lambda>b. t_term (view s b)) {b \<in> live s. t_term (view s b) \<noteq> None}" using parts(10) by (simp add: terms_fit_def)
    have "inj_on (\<lambda>b. t_term (?v b)) {b \<in> ?L. t_term (?v b) \<noteq> None}"
    proof (rule inj_onI)
      fix x y assume "x \<in> {b \<in> ?L. t_term (?v b) \<noteq> None}" "y \<in> {b \<in> ?L. t_term (?v b) \<noteq> None}" "t_term (?v x) = t_term (?v y)"
      then show "x = y" using inj_onD [OF inj, of x y] by auto
    qed
    moreover have "\<forall>b \<in> ?L. \<forall>c. t_term (?v b) = Some c \<longrightarrow> conds s' c \<noteq> None" using conds(2) by auto
    moreover have "\<forall>b \<in> ?L. t_context (?v b) = In_exit \<longrightarrow> t_term (?v b) \<noteq> None"
    proof
      fix b assume b: "b \<in> ?L"
      then have "t_context (view s b) = In_exit \<longrightarrow> t_term (view s b) \<noteq> None" using parts(10) unfolding terms_fit_def by blast
      then show "t_context (?v b) = In_exit \<longrightarrow> t_term (?v b) \<noteq> None" using vL [OF b] by simp
    qed
    moreover have "\<forall>b. b \<notin> ?L \<longrightarrow> t_term (?v b) = None \<and> t_state (?v b) = RUNNING"
      using parts(10) t' unfolding terms_fit_def by simp
    ultimately show ?thesis unfolding terms_fit_def by blast
  qed
  moreover have "ev_inv s'"
  proof (rule ev_inv_cong [OF parts(9)])
    have "?a \<notin> set (io_q s)" using parts(3) busy by (auto simp: queue_fits_def exactly_def on_io_def)
    then show "t_pollq (view s' b) = t_pollq (view s b)" if "b \<in> set (io_q s)" for b using that by (auto simp: view)
    show "b \<in> live s \<and> t_state (view s b) = IO_WAIT \<and> t_pollq (view s' b) = t_pollq (view s b)"
      if "b \<in> live s'" "t_state (view s' b) = IO_WAIT" for b
      using that by (auto simp: view live)
  qed (simp_all add: same)
  moreover have "names_fit s'" using parts(11) conds(3) by (auto simp: names_fit_def same)
  ultimately show ?thesis using stacks sleep unfolding st_fits_def vp_inv_def live view same(1) by simp
qed

lemma goes_well_leave:
  assumes inv: "st_inv s" and busy: "t_context (view s (this_thread s)) \<in> {In_user, In_exit}"
    and s1: "view s1 = (view s)(this_thread s := t1)" "t_term t1 = None" "t_state t1 = RUNNING"
      "this_thread s1 = this_thread s" "idle_thread s1 = idle_thread s" "thread_q s1 = thread_q s" "next_obj s1 = next_obj s"
      "pagesize s1 = pagesize s" "run_q s1 = run_q s" "zombie_q s1 = zombie_q s" "io_q s1 = io_q s" "ep s1 = ep s" "mutexes s1 = mutexes s"
      "free_stacks s1 = free_stacks s"
    and conds: "conds_fit (live s) (view s) (conds s1)"
      "\<And>b c. b \<in> live s \<Longrightarrow> b \<noteq> this_thread s \<Longrightarrow> t_term (view s b) = Some c \<Longrightarrow> conds s1 c \<noteq> None"
      "\<And>c. conds s1 c \<noteq> None \<Longrightarrow> conds s c \<noteq> None"
    and sleep: "sleepq_holds s1 = sleepq_holds s"
  shows "goes_well s (leave_for_good s1)"
proof -
  let ?a = "this_thread s"
  note parts = fit_parts [OF running(7) [OF inv]]
  have live: "?a \<in> set (thread_q s)" using running(1) [OF inv] by (simp add: live_def)
  have st: "stacks_fit (remove1 ?a (thread_q s)) (map fst (free_stacks s)) (next_obj s)" "?a \<notin> set (remove1 ?a (thread_q s))"
    "?a \<notin> set (map fst (free_stacks s))" "?a < next_obj s"
    using parts(8) live by (auto simp: stacks_fit_def)
  define s2 where "s2 = (if t_primordial (me s1) then s1\<lparr>thread_q := remove1 ?a (thread_q s)\<rparr>
    else st_stack_free ?a (s1\<lparr>thread_q := remove1 ?a (thread_q s)\<rparr>))"
  have res: "leave_for_good s1 = switch_context In_gone s2"
    by (simp add: leave_for_good_def s2_def s1(4,6) Let_def me_def)
  have s2: "view s2 = view s1" "this_thread s2 = ?a" "idle_thread s2 = idle_thread s" "next_obj s2 = next_obj s" "pagesize s2 = pagesize s"
    "run_q s2 = run_q s" "zombie_q s2 = zombie_q s" "io_q s2 = io_q s" "ep s2 = ep s" "mutexes s2 = mutexes s" "conds s2 = conds s1"
    "thread_q s2 = remove1 ?a (thread_q s)" "sleepq_holds s2 = sleepq_holds s"
    by (simp_all add: s2_def st_stack_free_def Let_def s1 sleep fun_eq_iff)
  have stacks: "stacks_fit (thread_q s2) (map fst (free_stacks s2)) (next_obj s2)"
    using st(1) stack_free_ok [of _ "s1\<lparr>thread_q := remove1 ?a (thread_q s)\<rparr>", OF _ st(2) _ st(4)] st(3)
    by (simp add: s2(4,12)) (simp add: s2_def s1)
  have "st_fits None (set_context ?a In_gone s2)"
    by (rule gone_fits [OF inv busy, of _ "t1\<lparr>t_context := In_gone\<rparr>"])
      (use s1 s2 conds stacks parts(7) in simp_all)
  then show ?thesis using goes_well_switch [of s2 In_gone s] s2(2) by (simp add: res)
qed

theorem thread_exit_ok:
  assumes inv: "st_inv s" and user: "runs_user s"
  shows "goes_well s (st_thread_exit v s)"
proof -
  let ?a = "this_thread s"
  define s1 where "s1 = st_thread_cleanup ?a (update_thread (\<lambda>t. t\<lparr>t_retval := v\<rparr>) s)"
  define s2 where "s2 = s1\<lparr>active_count := active_count s1 - 1\<rparr>"
  have "st_inv s1 \<and> runs_user s1 \<and> this_thread s1 = ?a"
    using user_update [OF inv user, of "\<lambda>t. t\<lparr>t_retval := v\<rparr>"] cleanup_ok [of "update_thread (\<lambda>t. t\<lparr>t_retval := v\<rparr>) s"]
    by (simp add: s1_def)
  then have s1: "st_inv s1" "runs_user s1" "this_thread s1 = ?a" by blast+
  have "st_fits (Some ?a) s2"
    by (rule st_fits_cong [of _ s1]) (use running(7) [OF s1(1)] s1(3) in \<open>simp_all add: s2_def fun_eq_iff\<close>)
  then have s2: "st_inv s2" "runs_user s2" "this_thread s2 = ?a"
    using s1 by (simp_all add: st_inv_def runs_user_def s2_def)
  have ctx: "t_context (view s2 ?a) = In_user" using s2(2,3) by (simp add: runs_user_def)
  have idle: "\<not> t_idle_thread (view s2 ?a)" using not_idle [OF s2(1)] ctx s2(3) by simp
  note run = running [OF s2(1), unfolded s2(3)]
  note parts = fit_parts [OF run(7)]
  show ?thesis
  proof (cases "t_term (me s2)")
    case None
    have "goes_well s2 (leave_for_good s2)"
    proof (rule goes_well_leave [OF s2(1)])
      show "view s2 = (view s2)(this_thread s2 := view s2 ?a)" by (simp add: s2(3))
      show "conds s2 c \<noteq> None" if "b \<in> live s2" "t_term (view s2 b) = Some c" for b c
        using parts(10) that unfolding terms_fit_def by blast
    qed (use ctx None parts run(2) s2(3) in \<open>simp_all add: view_select me_def\<close>)
    then have "goes_well s (leave_for_good s2)" using s2(3) by (simp add: goes_well_def)
    then show ?thesis using None by (simp add: st_thread_exit_def s1_def [symmetric] s2_def [symmetric] Let_def)
  next
    case (Some c)
    then have tm: "t_term (view s2 ?a) = Some c" by (simp add: me_def view_select s2(3))
    define s3 where "s3 = (set_context ?a In_exit (set_state ?a ZOMBIE s2))\<lparr>zombie_q := zombie_q s2 @ [?a]\<rparr>"
    let ?t = "(view s2 ?a)\<lparr>t_state := ZOMBIE, t_context := In_exit\<rparr>"
    have view3: "view s3 = (view s2)(?a := ?t)" by (simp add: s3_def)
    have objs: "idle_thread s3 = idle_thread s2" "thread_q s3 = thread_q s2" "free_stacks s3 = free_stacks s2" "next_obj s3 = next_obj s2"
      "pagesize s3 = pagesize s2" "run_q s3 = run_q s2" "io_q s3 = io_q s2" "zombie_q s3 = zombie_q s2 @ [?a]" "conds s3 = conds s2"
      "mutexes s3 = mutexes s2" "ep s3 = ep s2"
      by (simp_all add: s3_def)
    have fit3: "st_fits None s3"
    proof (rule block_step [of s2, unfolded s2(3), OF s2(1) ctx view3 _ _ _ _ _ objs(1-6)])
      show "fits ?t" using idle by (simp add: fits_def run(4))
      show "queue_fits on_io (live s2) ((view s2)(?a := ?t)) (io_q s3)"
        using parts(3) ctx by (subst queue_same) (simp_all add: on_io_def objs)
      show "queue_fits (\<lambda>t. t_state t = ZOMBIE) (live s2) ((view s2)(?a := ?t)) (zombie_q s3)"
        unfolding objs by (rule queue_append [OF parts(4) _ _ run(1)]) (simp_all add: run(2))
      show "conds_fit (live s2) ((view s2)(?a := ?t)) (conds s3)"
        using parts(5) ctx by (subst conds_same) (simp_all add: objs)
      show "mutexes_fit (live s2) ((view s2)(?a := ?t)) (mutexes s3)"
        unfolding objs by (rule mutexes_same [OF parts(6)]) (simp_all add: ctx)
      have "sleepers (live s2) ((view s2)(?a := ?t)) = sleepers (live s2) (view s2)" by (rule sleepers_same) simp
      then show "sleepq_holds s3 (sleepers (live s2) ((view s2)(?a := ?t)))" using parts(7) by (simp add: s3_def)
      show "ev_inv s3"
        by (rule ev_inv_cong [OF parts(9)])
          (use running_elsewhere(1) [OF s2(1,2)] s2(3) in \<open>auto simp: objs live_def view3 split: if_splits\<close>)
    qed (use idle tm in \<open>simp_all add: objs\<close>)
    have "conds s3 c \<noteq> None" using parts(10) tm run(1) unfolding terms_fit_def objs by blast
    then obtain q where "conds s3 c = Some q" by blast
    from cond_signal_fits [OF fit3 this, of False] obtain s4 where s4: "cond_signal c False s3 = Some s4" "st_fits None s4"
        "wakes (take 1 (cond_waiters s3 c)) s3 s4" by auto
    have this4: "this_thread s4 = ?a" using s4(3) by (simp add: wakes_def same_outside_def s3_def s2(3))
    have "t_context (view s4 ?a) = In_exit" using s4(3) by (simp add: wakes_def view3 woken_def)
    then have "view (set_context ?a In_exit s4) = view s4" by (simp add: fun_upd_idem)
    then have "st_fits None (set_context ?a In_exit s4)" by (intro st_fits_cong [OF s4(2)]) (simp_all add: fun_eq_iff)
    then have "goes_well s (switch_context In_exit s4)" using goes_well_switch [of s4 In_exit s] this4 by simp
    then show ?thesis
      using Some s4(1) by (simp add: st_thread_exit_def s1_def [symmetric] s2_def [symmetric] s3_def Let_def)
  qed
qed

text \<open>The joinable thread comes back for good: its termination variable goes, unless a thread waits on it.\<close>

lemma finish_exit_ok:
  assumes inv: "st_inv s" and ctx: "t_context (view s (this_thread s)) = In_exit"
  shows "goes_well s (finish_exit (set_context (this_thread s) In_user s))"
proof -
  let ?a = "this_thread s"
  note run = running [OF inv]
  note parts = fit_parts [OF run(7)]
  have "t_term (view s ?a) \<noteq> None" using parts(10) run(1) ctx unfolding terms_fit_def by blast
  then obtain c where c: "t_term (view s ?a) = Some c" by blast
  have "conds s c \<noteq> None" using parts(10) run(1) c unfolding terms_fit_def by blast
  then obtain q where q: "conds s c = Some q" by blast
  let ?s = "set_context ?a In_user s"
  define cs where "cs = (if q = [] then (conds s)(c := None) else conds s)"
  obtain out s1 where s1: "st_cond_destroy c ?s = Some (out, s1)" "view s1 = view ?s" "conds s1 = cs" "same_objects (?s\<lparr>conds := cs\<rparr>) s1"
      "this_thread s1 = ?a" "pagesize s1 = pagesize s" "run_q s1 = run_q s" "sleepq_holds s1 = sleepq_holds s"
    using q by (cases "q = []") (auto simp: st_cond_destroy_def returns_def fails_def cs_def same_objects_def fun_eq_iff)
  let ?s2 = "update_thread (\<lambda>t. t\<lparr>t_term := None\<rparr>) s1"
  let ?t = "(view s ?a)\<lparr>t_context := In_user, t_term := None\<rparr>"
  have res: "finish_exit ?s = leave_for_good ?s2"
    using c s1(1) by (simp add: finish_exit_def me_def set_context_def upd_def view_select [symmetric])
  have objs: "io_q s1 = io_q s" "zombie_q s1 = zombie_q s" "thread_q s1 = thread_q s" "mutexes s1 = mutexes s" "idle_thread s1 = idle_thread s"
    "ep s1 = ep s" "free_stacks s1 = free_stacks s" "next_obj s1 = next_obj s"
    using s1(4) by (simp_all add: same_objects_def)
  have "core (threads s1 ?a) = (view s ?a)\<lparr>t_context := In_user\<rparr>" using fun_cong [OF s1(2), of ?a] by (simp add: view_def)
  then have view2: "view ?s2 = (view s)(?a := ?t)" by (auto simp: view_update_thread s1(2,5))
  have inj: "inj_on (\<lambda>b. t_term (view s b)) {b \<in> live s. t_term (view s b) \<noteq> None}" using parts(10) by (simp add: terms_fit_def)
  show ?thesis
    unfolding res
  proof (rule goes_well_leave [OF inv _ view2])
    show "conds_fit (live s) (view s) (conds ?s2)"
      using parts(5) q conds_fit_empty [OF parts(5), of c] by (simp add: update_thread_def s1(3) cs_def cond_q_def)
    show "conds ?s2 d \<noteq> None" if "b \<in> live s" "b \<noteq> ?a" "t_term (view s b) = Some d" for b d
    proof -
      have "d \<noteq> c" using inj_onD [OF inj, of b ?a] that c run(1) by auto
      moreover have "conds s d \<noteq> None" using parts(10) that unfolding terms_fit_def by blast
      ultimately show ?thesis by (simp add: update_thread_def s1(3) cs_def)
    qed
    show "conds s d \<noteq> None" if "conds ?s2 d \<noteq> None" for d
      using that by (auto simp: update_thread_def s1(3) cs_def split: if_splits)
  qed (use ctx run(2) objs s1 in \<open>simp_all add: update_thread_def sleepq_holds_upd fun_eq_iff\<close>)
qed

section \<open>Joining and interrupting\<close>

text \<open>A zombie is alive: it waits to be joined.\<close>

lemma zombie_live:
  assumes "st_inv s" and "t_state (threads s a) = ZOMBIE"
  shows "a \<in> live s" "t_context (view s a) = In_exit" "a \<noteq> this_thread s" "t_term (view s a) \<noteq> None"
    "\<not> t_idle_thread (view s a)" "\<not> t_on_sleepq (view s a)"
proof -
  note run = running [OF assms(1)]
  note parts = fit_parts [OF run(7)]
  have z: "t_state (view s a) = ZOMBIE" using assms(2) by (simp add: view_select)
  show a: "a \<in> live s" using parts(10) z unfolding terms_fit_def by (metis st_state.distinct(11))
  have f: "fits (view s a)" using parts(1) a by (simp add: threads_fit_def)
  show ctx: "t_context (view s a) = In_exit" using f z by (cases "t_context (view s a)") (auto simp: fits_def)
  show "a \<noteq> this_thread s" using z run(2) by auto
  show "t_term (view s a) \<noteq> None" using parts(10) a ctx unfolding terms_fit_def by blast
  show "\<not> t_idle_thread (view s a)" "\<not> t_on_sleepq (view s a)" using f ctx z by (auto simp: fits_def)
qed

lemma reap_ok:
  assumes inv: "st_inv s" and user: "runs_user s" and z: "t_state (threads s a) = ZOMBIE"
  defines "s' \<equiv> make_runnable a (s\<lparr>zombie_q := remove1 a (zombie_q s)\<rparr>)"
  shows "st_inv s' \<and> runs_user s' \<and> this_thread s' = this_thread s"
proof -
  note run = running [OF inv]
  note parts = fit_parts [OF run(7)]
  note za = zombie_live [OF inv z]
  have st: "t_state (view s a) = ZOMBIE" using z by (simp add: view_select)
  let ?t = "(view s a)\<lparr>t_state := RUNNABLE\<rparr>"
  have view: "view s' = (view s)(a := ?t)" by (simp add: s'_def make_runnable_def)
  have "st_fits (Some (this_thread s)) s'"
  proof (rule st_fits_step [OF run(7) za(1) view])
    show "fits ?t" using za by (simp add: fits_def)
    show "queue_fits on_run (live s) ((view s)(a := ?t)) (run_q s')"
    proof -
      have "queue_fits on_run (live s) ((view s)(a := ?t)) (run_q s @ [a])"
        by (rule queue_append [OF parts(2) _ _ za(1)]) (simp_all add: on_run_def st za(5))
      then show ?thesis by (simp add: s'_def make_runnable_def)
    qed
    show "queue_fits on_io (live s) ((view s)(a := ?t)) (io_q s')"
      using parts(3) by (subst queue_same) (simp_all add: on_io_def s'_def make_runnable_def)
    have "queue_fits (\<lambda>t. t_state t = ZOMBIE) (live s) ((view s)(a := ?t)) (remove1 a (zombie_q s))"
      by (rule queue_remove [OF parts(4)]) simp
    then show "queue_fits (\<lambda>t. t_state t = ZOMBIE) (live s) ((view s)(a := ?t)) (zombie_q s')"
      by (simp add: s'_def make_runnable_def)
    show "conds_fit (live s) ((view s)(a := ?t)) (conds s')"
      using parts(5) by (subst conds_same) (simp_all add: s'_def make_runnable_def)
    have "mutexes_fit (live s) ((view s)(a := ?t)) (mutexes s)" by (rule mutexes_same [OF parts(6)]) (simp_all add: za(2))
    then show "mutexes_fit (live s) ((view s)(a := ?t)) (mutexes s')" by (simp add: s'_def make_runnable_def)
    have "sleepers (live s) ((view s)(a := ?t)) = sleepers (live s) (view s)" by (rule sleepers_same) simp
    then show "sleepq_holds s' (sleepers (live s) ((view s)(a := ?t)))" using parts(7) by (simp add: s'_def make_runnable_def)
    show "ev_inv s'"
      by (rule poll_same [of ?t s a, OF _ _ za(1) parts(9) view]) (simp_all add: s'_def make_runnable_def)
  qed (use za in \<open>simp_all add: s'_def make_runnable_def\<close>)
  moreover have same: "this_thread s' = this_thread s" "idle_thread s' = idle_thread s" "live s' = live s"
    by (simp_all add: s'_def make_runnable_def)
  moreover have "this_thread s \<noteq> idle_thread s" using not_idle [OF inv] user by (simp add: runs_user_def)
  ultimately show ?thesis using run(1) user za(3) by (simp add: st_inv_def runs_user_def view)
qed

lemma join_loop_ok:
  assumes inv: "st_inv s" and user: "runs_user s" and c: "conds s c \<noteq> None"
  shows "goes_well s (join_loop c a s)"
proof (cases "t_state (threads s a) = ZOMBIE")
  case True
  let ?f = "\<lambda>t. t\<lparr>t_joined := t_retval (threads s a)\<rparr>"
  have s1: "st_inv (update_thread ?f s)" "runs_user (update_thread ?f s)" "this_thread (update_thread ?f s) = this_thread s"
    using user_update [OF inv user, of ?f] by simp_all
  have "t_state (threads (update_thread ?f s) a) = ZOMBIE" using True by (auto simp: update_thread_def upd_def)
  from reap_ok [OF s1(1,2) this] show ?thesis
    using True s1(3) by (simp add: join_loop_def returns_well_goes returns_well_returns Let_def)
next
  case False
  obtain q where q: "conds s c = Some q" using c by blast
  from cond_timedwait_ok [OF inv user q, of "In_join c a"] show ?thesis using False by (simp add: join_loop_def)
qed

theorem thread_join_ok:
  assumes inv: "st_inv s" and user: "runs_user s"
  shows "goes_well s (st_thread_join a s)"
proof (cases "t_term (threads s a)")
  case None
  then show ?thesis using returns_well_fails [OF inv user] by (simp add: st_thread_join_def returns_well_goes)
next
  case (Some c)
  note parts = fit_parts [OF running(7) [OF inv]]
  have tm: "t_term (view s a) = Some c" using Some by (simp add: view_select)
  then have "a \<in> live s" using parts(10) unfolding terms_fit_def by (metis option.distinct(1))
  then have c: "conds s c \<noteq> None" using parts(10) tm unfolding terms_fit_def by blast
  then obtain q where q: "conds s c = Some q" by blast
  show ?thesis
    using Some q join_loop_ok [OF inv user c] returns_well_fails [OF inv user]
    by (auto simp: st_thread_join_def returns_well_goes)
qed

lemma goes_well_same: "goes_well s1 r \<Longrightarrow> this_thread s1 = this_thread s \<Longrightarrow> goes_well s r"
  by (simp add: goes_well_def)

lemma finish_join_ok:
  assumes inv: "st_inv s" and ctx: "t_context (view s (this_thread s)) = In_join c a"
  shows "goes_well s (finish_join c a (set_context (this_thread s) In_user s))"
proof -
  let ?s = "set_context (this_thread s) In_user s"
  have w: "waits_cond (t_context (view s (this_thread s))) = Some c" using ctx by simp
  obtain v s1 where s1: "finish_cond c ?s = Some (Returned v, s1)" "st_inv s1" "runs_user s1" "this_thread s1 = this_thread s"
    using finish_cond_ok(1) [OF inv w] by (auto simp: returns_well_def)
  have c: "conds s1 c \<noteq> None" using finish_cond_ok(2) [OF inv w s1(1)] .
  show ?thesis
  proof (cases "v = 0")
    case True
    then show ?thesis using s1 goes_well_same [OF join_loop_ok [OF s1(2,3) c] s1(4)] by (simp add: finish_join_def)
  next
    case False
    then show ?thesis using s1 by (simp add: finish_join_def goes_well_def)
  qed
qed

theorem interrupt_ok:
  assumes inv: "st_inv s" and user: "runs_user s"
  shows "returns_well s (st_thread_interrupt a s)"
proof (cases "t_state (threads s a) = ZOMBIE")
  case True
  then show ?thesis using inv user by (simp add: st_thread_interrupt_def returns_well_returns)
next
  case alive: False
  note run = running [OF inv]
  note parts = fit_parts [OF run(7)]
  let ?s = "upd a (\<lambda>t. t\<lparr>t_interrupt := True\<rparr>) s" and ?t = "(view s a)\<lparr>t_interrupt := True\<rparr>"
  have view: "view ?s = (view s)(a := ?t)" by (simp add: view_def)
  have s1: "st_inv ?s \<and> runs_user ?s"
  proof (cases "a \<in> live s")
    case False
    show ?thesis
    proof (rule dead_step [OF inv user])
      show "view ?s b = view s b" if "b \<in> live s" for b using that False by (auto simp: view)
      show "terms_fit (live s) (view ?s) (conds s)"
        by (rule terms_fit_cong [OF parts(10)]) (auto simp: view_select view split: if_splits)
    qed (use parts(7,8) in \<open>simp_all add: sleepq_holds_upd\<close>)
  next
    case True
    have f: "fits (view s a)" "t_idle_thread (view s a) \<longleftrightarrow> a = idle_thread s" "t_state (view s a) = RUNNING \<longleftrightarrow> this_thread s = a"
      using parts(1) True by (auto simp: threads_fit_def)
    have "st_fits (Some (this_thread s)) ?s"
    proof (rule st_fits_step [OF run(7) True view])
      show "fits ?t" using f(1) by (simp add: fits_def)
      show "t_context ?t = In_exit \<longrightarrow> t_term ?t \<noteq> None" using parts(10) True by (simp add: terms_fit_def)
      show "queue_fits on_run (live s) ((view s)(a := ?t)) (run_q ?s)" using parts(2) by (subst queue_same) (simp_all add: on_run_def)
      show "queue_fits on_io (live s) ((view s)(a := ?t)) (io_q ?s)" using parts(3) by (subst queue_same) (simp_all add: on_io_def)
      show "queue_fits (\<lambda>t. t_state t = ZOMBIE) (live s) ((view s)(a := ?t)) (zombie_q ?s)" using parts(4) by (subst queue_same) simp_all
      show "conds_fit (live s) ((view s)(a := ?t)) (conds ?s)" using parts(5) by (subst conds_same) simp_all
      have "handed a ?t (mutex_at (mutexes s) m)" if "t_context ?t = In_lock m" for m
        using mutexes_handed [OF parts(6) True, of m] that by (auto simp: handed_def)
      then have "mutexes_fit (live s) ((view s)(a := ?t)) (mutexes s)" by (intro mutexes_update [OF parts(6)]) simp_all
      then show "mutexes_fit (live s) ((view s)(a := ?t)) (mutexes ?s)" by simp
      have "sleepers (live s) ((view s)(a := ?t)) = sleepers (live s) (view s)" by (rule sleepers_same) simp
      then show "sleepq_holds ?s (sleepers (live s) ((view s)(a := ?t)))" using parts(7) by (simp add: sleepq_holds_upd)
      show "ev_inv ?s" by (rule ev_inv_cong [OF parts(9)]) (auto simp: view_select view split: if_splits)
    qed (use f(3) in auto)
    then show ?thesis
      using inv user run(1) by (auto simp: st_inv_def runs_user_def view_select view)
  qed
  have same: "this_thread ?s = this_thread s" "live ?s = live s" by simp_all
  show ?thesis
  proof (cases "t_state (threads s a) = RUNNING \<or> t_state (threads s a) = RUNNABLE")
    case True
    then have "t_state (threads ?s a) = RUNNING \<or> t_state (threads ?s a) = RUNNABLE" by (simp add: upd_def)
    then show ?thesis using alive s1 by (simp add: st_thread_interrupt_def Let_def returns_well_returns)
  next
    case False
    have live: "a \<in> live s"
    proof (rule ccontr)
      assume "a \<notin> live s"
      then have "t_state (view s a) = RUNNING" using parts(10) by (simp add: terms_fit_def)
      then show "False" using False by (simp add: view_select)
    qed
    have st: "t_state (view ?s a) \<in> {IO_WAIT, LOCK_WAIT, COND_WAIT, SLEEPING, SUSPENDED}"
      using False alive by (cases "t_state (threads s a)") (simp_all add: view view_select)
    obtain s' where s': "wake_up a ?s = Some s'" "st_fits (Some (this_thread ?s)) s'" "wakes [a] ?s s'"
      using wake_up_fits [OF running(7) _ st] s1 live by (auto simp: view)
    have "\<not> (t_state (threads ?s a) = RUNNING \<or> t_state (threads ?s a) = RUNNABLE)" using False by (simp add: upd_def)
    then have "st_thread_interrupt a s = Some (Returned 0, s')" using alive s'(1) by (simp add: st_thread_interrupt_def Let_def)
    then show ?thesis using wakes_inv [OF _ _ s'(2,3)] s1 same(1) by (simp add: returns_well_def)
  qed
qed

end
