(* ===== verification/St_Clock.thy ===== *)
theory St_Clock
  imports St_Thread_Ops
begin

text \<open>
  The clock and the idle thread. What \<^verbatim>\<open>_st_vp_check_clock\<close> relies on is the interface of a timeout queue;
  the threads on the sleep queue are its model.
\<close>

section \<open>The interface of a timeout queue\<close>

locale timeout_queue =
  fixes holds :: "'s \<Rightarrow> 'a set \<Rightarrow> bool" and first :: "'s \<Rightarrow> 'a option"
    and due :: "'s \<Rightarrow> 'a \<Rightarrow> 'd::linorder" and drop_one :: "'a \<Rightarrow> 's \<Rightarrow> 's option"
  assumes finite_holds: "holds s A \<Longrightarrow> finite A"
    and first_None: "holds s A \<Longrightarrow> first s = None \<longleftrightarrow> A = {}"
    and first_in: "holds s A \<Longrightarrow> first s = Some a \<Longrightarrow> a \<in> A"
    and first_least: "holds s A \<Longrightarrow> first s = Some a \<Longrightarrow> b \<in> A \<Longrightarrow> due s a \<le> due s b"
    and drop_one: "holds s A \<Longrightarrow> a \<in> A \<Longrightarrow> \<exists>s'. drop_one a s = Some s' \<and> holds s' (A - {a}) \<and> due s' = due s"
begin

lemma first_min: "holds s A \<Longrightarrow> first s = Some a \<Longrightarrow> due s a = Min (due s ` A)"
  using finite_holds first_in first_least by (intro Min_eqI [symmetric]) auto

end

text \<open>Dropping one after the other.\<close>

fun drop_each :: "('a \<Rightarrow> 's \<Rightarrow> 's option) \<Rightarrow> 'a list \<Rightarrow> 's \<Rightarrow> 's option" where
  "drop_each f [] s = Some s"
| "drop_each f (a # as) s = (case f a s of None \<Rightarrow> None | Some s' \<Rightarrow> drop_each f as s')"

text \<open>A loop that drops the first element as long as it is due.\<close>

locale expiring_queue = timeout_queue +
  fixes expire_loop :: "'d::linorder \<Rightarrow> 'a \<Rightarrow> 'a option"
  assumes expire_loop: "holds s A \<Longrightarrow> expire_loop now s =
    (case first s of
       None \<Rightarrow> Some s
     | Some a \<Rightarrow> if now < due s a then Some s
                else (case drop_one a s of None \<Rightarrow> None | Some s' \<Rightarrow> expire_loop now s'))"
begin

lemma expires:
  assumes "holds s A"
  shows "\<exists>ws s'. expire_loop now s = Some s' \<and> drop_each drop_one ws s = Some s' \<and> holds s' (A - set ws) \<and>
    distinct ws \<and> set ws = {a \<in> A. due s a \<le> now} \<and> sorted (map (due s) ws)"
  using assms
proof (induction "card A" arbitrary: A s rule: less_induct)
  case less
  show ?case
  proof (cases "first s")
    case None
    then have "A = {}" using first_None [OF less.prems] by simp
    then show ?thesis using None less.prems expire_loop [OF less.prems, of now] by (intro exI [of _ "[]"]) auto
  next
    case (Some a)
    note a = first_in [OF less.prems Some]
    note least = first_least [OF less.prems Some]
    show ?thesis
    proof (cases "now < due s a")
      case True
      then have "{b \<in> A. due s b \<le> now} = {}" using least by force
      then show ?thesis
        using True Some less.prems expire_loop [OF less.prems, of now] by (intro exI [of _ "[]"]) auto
    next
      case False
      obtain s1 where s1: "drop_one a s = Some s1" "holds s1 (A - {a})" "due s1 = due s"
        using drop_one [OF less.prems a] by blast
      have "card (A - {a}) < card A" using finite_holds [OF less.prems] a by (rule card_Diff1_less)
      from less.hyps [OF this s1(2), unfolded s1(3)] obtain ws s' where ws: "expire_loop now s1 = Some s'" "drop_each drop_one ws s1 = Some s'"
          "holds s' (A - {a} - set ws)" "distinct ws" "set ws = {b \<in> A - {a}. due s b \<le> now}" "sorted (map (due s) ws)"
        by blast
      have "A - {a} - set ws = A - set (a # ws)" by auto
      then have "holds s' (A - set (a # ws))" using ws(3) by simp
      moreover have "expire_loop now s = Some s'" using False Some s1(1) ws(1) expire_loop [OF less.prems, of now] by simp
      moreover have "set (a # ws) = {b \<in> A. due s b \<le> now}"
      proof -
        have "due s a \<le> now" using False by simp
        then have "{b \<in> A. due s b \<le> now} = insert a {b \<in> A - {a}. due s b \<le> now}" using a by blast
        then show ?thesis using ws(5) by simp
      qed
      moreover have "sorted (map (due s) (a # ws))" using least ws(5,6) by simp
      moreover have "distinct (a # ws)" using ws(4,5) by simp
      moreover have "drop_each drop_one (a # ws) s = Some s'" using s1(1) ws(2) by simp
      ultimately show ?thesis by blast
    qed
  qed
qed

end

section \<open>Expired threads\<close>

definition expired :: "st_thread \<Rightarrow> st_thread" where
  "expired t = woken (t\<lparr>t_timedout := (t_timedout t \<or> t_state t = COND_WAIT)\<rparr>)"

lemma expire_ok:
  assumes fit: "st_fits r s" and a: "a \<in> sleepers (live s) (view s)"
  shows "\<exists>s'. expire a s = Some s' \<and> st_fits r s' \<and> same_outside s s' \<and> run_q s' = run_q s @ [a] \<and>
    view s' = (view s)(a := expired (view s a))"
proof -
  note parts = fit_parts [OF fit]
  have x: "a \<in> live s" "t_on_sleepq (view s a)" using a by (simp_all add: sleepers_def)
  have f: "fits (view s a)" using parts(1) x(1) by (simp add: threads_fit_def)
  have st: "t_state (view s a) \<in> {IO_WAIT, LOCK_WAIT, COND_WAIT, SLEEPING, SUSPENDED}" using f x(2) by (auto simp: fits_def)
  have ctx: "t_context (view s a) \<noteq> In_lock m" "\<not> t_idle_thread (view s a)" for m using f x(2) by (auto simp: fits_def)
  from del_sleep_q_ok [OF parts(7) a] obtain s1 where s1: "st_del_sleep_q a s = Some s1"
    "sleepq_holds s1 (sleepers (live s) (view s) - {a})" "sleepq_change a (\<lambda>t. t\<lparr>t_on_sleepq := False\<rparr>) s s1" by blast
  have view1: "view s1 = (view s)(a := (view s a)\<lparr>t_on_sleepq := False\<rparr>)"
    using view_sleepq_change [OF s1(3)] by (simp add: view_def)
  note same = sleepq_change_same [OF s1(3)]
  define s2 where "s2 = (if t_state (threads s1 a) = COND_WAIT then upd a (\<lambda>t. t\<lparr>t_timedout := True\<rparr>) s1 else s1)"
  have core1: "core (threads s1 a) = (view s a)\<lparr>t_on_sleepq := False\<rparr>" using fun_cong [OF view1, of a] by (simp add: view_def)
  have state1: "t_state (threads s1 a) = t_state (view s a)" "t_idle_thread (threads s1 a) = t_idle_thread (view s a)"
    using fun_cong [OF view1, of a] by (simp_all add: view_select [symmetric])
  define s' where "s' = make_runnable a s2"
  have run: "expire a s = Some s'"
    using s1(1) ctx(2) state1(2) by (simp add: expire_def s2_def [symmetric] s'_def Let_def) (simp add: s2_def upd_def)
  have view: "view s' = (view s)(a := woken ((view s a)\<lparr>t_timedout := (t_timedout (view s a) \<or> t_state (view s a) = COND_WAIT)\<rparr>))"
    by (auto simp: s'_def make_runnable_def s2_def view1 core1 state1 woken_def fun_eq_iff)
  have out: "same_outside s s'"
    using same by (simp add: same_outside_def s'_def make_runnable_def set_state_def s2_def)
  have rq: "run_q s' = run_q s @ [a]" using same by (simp add: s'_def make_runnable_def s2_def)
  have sleep: "sleepq_holds s' (sleepers (live s) (view s) - {a})"
    using s1(2) by (simp add: s'_def make_runnable_def s2_def sleepq_holds_upd)
  have vp: "vp_inv r s'"
    by (rule woken_fits [OF _ x(1) st _ view rq sleep out]) (use fit ctx in \<open>simp_all add: st_fits_def\<close>)
  have "st_fits r s'"
    by (rule wakes_fit [OF fit vp out]) (use out x(1) in \<open>auto simp: view same_outside_def\<close>)
  then show ?thesis using run out rq view by (simp add: expired_def)
qed

text \<open>The sleep queue, as the clock sees it.\<close>

definition clock_holds :: "st_vp \<Rightarrow> tid set \<Rightarrow> bool" where
  "clock_holds s A \<longleftrightarrow> st_fits (Some (idle_thread s)) s \<and> A = sleepers (live s) (view s)"

definition dues :: "st_vp \<Rightarrow> tid \<Rightarrow> st_utime" where
  "dues s a = t_due (view s a)"

interpretation sleep_queue: timeout_queue clock_holds sleep_q dues expire
proof
  fix s A
  assume h: "clock_holds s A"
  then have q: "sleepq_holds s A" by (auto simp: clock_holds_def st_fits_def vp_inv_def)
  show "finite A" using sleepq_holds_card [OF q] by blast
  show "sleep_q s = None \<longleftrightarrow> A = {}" using sleepq_first(1) [OF q] .
  show "a \<in> A" if "sleep_q s = Some a" for a using sleepq_first(2) [OF q that] .
  show "dues s a \<le> dues s b" if "sleep_q s = Some a" "b \<in> A" for a b
    using sleepq_first(3) [OF q that] by (simp add: dues_def view_select)
  show "\<exists>s'. expire a s = Some s' \<and> clock_holds s' (A - {a}) \<and> dues s' = dues s" if a: "a \<in> A" for a
  proof -
    have fit: "st_fits (Some (idle_thread s)) s" and as: "a \<in> sleepers (live s) (view s)" using h a by (simp_all add: clock_holds_def)
    obtain s' where s': "expire a s = Some s'" "st_fits (Some (idle_thread s)) s'" "same_outside s s'"
        "view s' = (view s)(a := expired (view s a))"
      using expire_ok [OF fit as] by blast
    have "idle_thread s' = idle_thread s" "live s' = live s" using s'(3) by (simp_all add: same_outside_def)
    moreover have "sleepers (live s) (view s') = A - {a}"
      using h sleepers_off [of "expired (view s a)" "live s" "view s" a] by (simp add: s'(4) clock_holds_def expired_def woken_def)
    moreover have "dues s' = dues s" by (auto simp: dues_def s'(4) expired_def woken_def)
    ultimately show ?thesis using s'(1,2) by (auto simp: clock_holds_def)
  qed
qed

interpretation clock: expiring_queue clock_holds sleep_q dues expire check_clock_loop
proof
  fix s A now
  assume h: "clock_holds s A"
  have "t_on_sleepq (threads s a)" if "sleep_q s = Some a" for a
    using sleep_queue.first_in [OF h that] h by (auto simp: clock_holds_def sleepers_def view_select)
  then show "check_clock_loop now s =
      (case sleep_q s of
         None \<Rightarrow> Some s
       | Some a \<Rightarrow> if now < dues s a then Some s
                  else (case expire a s of None \<Rightarrow> None | Some s' \<Rightarrow> check_clock_loop now s'))"
    by (subst check_clock_loop.simps) (auto simp: dues_def view_select split: option.split)
qed

end
