(* ===== verification/St_Machine.thy ===== *)
theory St_Machine
  imports St_Clock
begin

text \<open>
  The clock, the idle thread, and the thread library as a machine: what one step is, and that every
  reachable state keeps the invariant and has a next step.
\<close>

section \<open>The clock\<close>

lemma expires_view:
  assumes "st_fits r s" and "distinct ws" and "set ws \<subseteq> sleepers (live s) (view s)"
  shows "\<exists>s'. drop_each expire ws s = Some s' \<and> st_fits r s' \<and> same_outside s s' \<and> run_q s' = run_q s @ ws \<and>
    view s' = (\<lambda>a. if a \<in> set ws then expired (view s a) else view s a)"
  using assms
proof (induction ws arbitrary: s)
  case Nil
  then show ?case using same_outside_refl by simp
next
  case (Cons a ws)
  obtain s1 where s1: "expire a s = Some s1" "st_fits r s1" "same_outside s s1" "run_q s1 = run_q s @ [a]"
      "view s1 = (view s)(a := expired (view s a))"
    using expire_ok [OF Cons.prems(1)] Cons.prems(3) by auto
  have "live s1 = live s" using s1(3) by (simp add: same_outside_def)
  then have "set ws \<subseteq> sleepers (live s1) (view s1)" using Cons.prems(2,3) by (auto simp: sleepers_def s1(5))
  then obtain s' where s': "drop_each expire ws s1 = Some s'" "st_fits r s'" "same_outside s1 s'" "run_q s' = run_q s1 @ ws"
      "view s' = (\<lambda>b. if b \<in> set ws then expired (view s1 b) else view s1 b)"
    using Cons.IH [OF s1(2)] Cons.prems(2) by auto
  have "view s' = (\<lambda>b. if b \<in> set (a # ws) then expired (view s b) else view s b)"
    using Cons.prems(2) by (auto simp: s'(5) s1(5))
  then show ?case using s1 s' same_outside_trans [OF s1(3) s'(3)] by simp
qed

text \<open>Exactly the threads whose time has come are woken, the earliest first.\<close>

theorem check_clock_ok:
  assumes fit: "st_fits (Some (idle_thread s)) s"
  shows "\<exists>ws s'. st_vp_check_clock now time_now s = Some s' \<and> st_fits (Some (idle_thread s)) s' \<and>
    set ws = {a \<in> live s. t_on_sleepq (view s a) \<and> t_due (view s a) \<le> now} \<and>
    distinct ws \<and> sorted (map (\<lambda>a. t_due (view s a)) ws) \<and> run_q s' = run_q s @ ws \<and>
    view s' = (\<lambda>a. if a \<in> set ws then expired (view s a) else view s a) \<and> last_clock s' = now \<and>
    same_objects (s\<lparr>last_clock := now\<rparr>) s' \<and> this_thread s' = this_thread s"
proof -
  define s1 where "s1 = (if curr_time s \<noteq> 0 \<and> 999000 < now - last_tset s
    then s\<lparr>last_clock := now, curr_time := time_now, last_tset := now\<rparr> else s\<lparr>last_clock := now\<rparr>)"
  have same: "view s1 = view s" "live s1 = live s" "run_q s1 = run_q s" "idle_thread s1 = idle_thread s"
    "same_objects (s\<lparr>last_clock := now\<rparr>) s1" "this_thread s1 = this_thread s" "last_clock s1 = now"
    by (simp_all add: s1_def same_objects_def)
  have fit1: "st_fits (Some (idle_thread s)) s1"
    by (rule st_fits_cong [OF fit]) (simp_all add: s1_def fun_eq_iff)
  then have holds: "clock_holds s1 (sleepers (live s) (view s))" by (simp add: clock_holds_def same)
  obtain ws s' where ws: "check_clock_loop now s1 = Some s'" "drop_each expire ws s1 = Some s'" "distinct ws"
      "set ws = {a \<in> sleepers (live s) (view s). dues s1 a \<le> now}" "sorted (map (dues s1) ws)"
    using clock.expires [OF holds, of now] by blast
  obtain s2 where s2: "drop_each expire ws s1 = Some s2" "st_fits (Some (idle_thread s)) s2" "same_outside s1 s2" "run_q s2 = run_q s1 @ ws"
      "view s2 = (\<lambda>a. if a \<in> set ws then expired (view s1 a) else view s1 a)"
    using expires_view [OF fit1 ws(3)] ws(4) by (auto simp: same)
  have eq: "s2 = s'" using ws(2) s2(1) by simp
  have run: "st_vp_check_clock now time_now s = Some s'"
    using ws(1) by (simp add: st_vp_check_clock_def s1_def Let_def cong: if_cong)
  have "set ws = {a \<in> live s. t_on_sleepq (view s a) \<and> t_due (view s a) \<le> now}"
    by (auto simp: ws(4) sleepers_def dues_def same)
  moreover have "sorted (map (\<lambda>a. t_due (view s a)) ws)" using ws(5) by (simp add: dues_def [abs_def] same)
  moreover have "same_objects (s\<lparr>last_clock := now\<rparr>) s'" "this_thread s' = this_thread s" "last_clock s' = now"
    using s2(3) same(5-7) by (simp_all add: eq same_outside_def same_objects_def)
  ultimately show ?thesis using run s2(2,4,5) ws(3) by (auto simp: eq same)
qed

section \<open>The idle thread\<close>

lemma same_but_io_fits:
  assumes fit: "st_fits r s" and vp: "vp_inv r s'" and ev: "ev_inv s'" and same: "same_but_io s s'"
    and view: "\<forall>a. \<exists>pq. view s' a = (if a \<in> set (run_q s') then woken (view s a) else view s a)\<lparr>t_pollq := pq\<rparr>"
  shows "st_fits r s'"
proof -
  have io: "live s' = live s" "conds s' = conds s" "mutexes s' = mutexes s" "next_obj s' = next_obj s" "pagesize s' = pagesize s"
    using same by (simp_all add: same_but_io_def)
  have v: "t_term (view s' a) = t_term (view s a)" "t_context (view s' a) = t_context (view s a)"
    "a \<notin> set (run_q s') \<Longrightarrow> t_state (view s' a) = t_state (view s a)" for a
    using spec [OF view, of a] by (auto simp: woken_def split: if_splits)
  have run: "set (run_q s') \<subseteq> live s"
    using vp io(1) by (auto simp: vp_inv_def queue_fits_def exactly_def)
  have "terms_fit (live s) (view s') (conds s)"
    by (rule terms_fit_cong [OF fit_parts(10) [OF fit]]) (use v run in auto)
  then show ?thesis using vp ev fit io by (simp add: st_fits_def names_fit_def)
qed

text \<open>
  One turn of the idle thread, with whatever the kernel reports: those who are told something and then those
  whose time has come get onto the run queue.
\<close>

definition kernel_ok :: "st_os \<Rightarrow> st_input \<Rightarrow> st_vp \<Rightarrow> bool" where
  "kernel_ok os i s \<longleftrightarrow> os_ok os \<and> ep_pid (ep s) = os_pid os \<and> reports_ok (in_events i) s"

theorem idle_turn_ok:
  assumes inv: "st_inv s" and idle: "t_context (view s (this_thread s)) = In_idle" and kernel: "kernel_ok os i s"
  shows "goes_well s (idle_turn os (in_events i) (in_utime i) (in_time i) s)"
proof (cases "active_count s \<le> 0")
  case True
  then show ?thesis using inv by (simp add: idle_turn_def goes_well_def)
next
  case False
  note run = running [OF inv]
  have at_idle: "this_thread s = idle_thread s" using run(5,6) idle by blast
  have fit: "st_fits (Some (idle_thread s)) s" using run(7) at_idle by simp
  have "run_q s = []" using inv at_idle by (simp add: st_inv_def)
  then obtain s1 where s1: "epoll_dispatch os (in_events i) s = Some s1" "vp_inv (Some (idle_thread s)) s1" "ev_inv s1" "same_but_io s s1"
      "\<forall>a. \<exists>pq. view s1 a = (if a \<in> set (run_q s1) then woken (view s a) else view s a)\<lparr>t_pollq := pq\<rparr>"
    using epoll_dispatch_ok [of "Some (idle_thread s)" s os "in_events i"] fit kernel by (auto simp: st_fits_def kernel_ok_def)
  have fit1: "st_fits (Some (idle_thread s1)) s1" and same1: "this_thread s1 = this_thread s" "idle_thread s1 = idle_thread s"
    using same_but_io_fits [OF fit s1(2-5)] s1(4) by (simp_all add: same_but_io_def)
  obtain s2 where s2: "st_vp_check_clock (in_utime i) (in_time i) s1 = Some s2" "st_fits (Some (idle_thread s1)) s2"
      "same_objects (s1\<lparr>last_clock := in_utime i\<rparr>) s2" "this_thread s2 = this_thread s1"
    using check_clock_ok [OF fit1] by blast
  have this2: "this_thread s2 = idle_thread s" "idle_thread s2 = idle_thread s"
    using s2(3,4) same1 at_idle by (simp_all add: same_objects_def)
  have fit2: "st_fits (Some (idle_thread s2)) s2" using s2(2) this2 same1 by simp
  let ?a = "idle_thread s2"
  note parts = fit_parts [OF fit2]
  have a: "?a \<in> live s2" "fits (view s2 ?a)" "t_idle_thread (view s2 ?a)" "t_state (view s2 ?a) = RUNNING"
    using parts(1) by (auto simp: threads_fit_def)
  have ctx: "t_context (view s2 ?a) = In_idle" using a(2,3) by (simp add: fits_def)
  have off: "\<not> t_on_sleepq (view s2 ?a)" using a(2,4) by (auto simp: fits_def)
  define s3 where "s3 = set_context ?a In_idle (set_state ?a RUNNABLE s2)"
  let ?t = "(view s2 ?a)\<lparr>t_state := RUNNABLE, t_context := In_idle\<rparr>"
  have view: "view s3 = (view s2)(?a := ?t)" by (simp add: s3_def)
  have "st_fits None s3"
  proof (rule st_fits_step [OF fit2 a(1) view])
    show "fits ?t" using a(3) off by (simp add: fits_def)
    show "queue_fits on_run (live s2) ((view s2)(?a := ?t)) (run_q s3)"
      using parts(2) a(3) by (subst queue_same) (simp_all add: on_run_def s3_def)
    show "queue_fits on_io (live s2) ((view s2)(?a := ?t)) (io_q s3)"
      using parts(3) ctx by (subst queue_same) (simp_all add: on_io_def s3_def)
    show "queue_fits (\<lambda>t. t_state t = ZOMBIE) (live s2) ((view s2)(?a := ?t)) (zombie_q s3)"
      using parts(4) a(4) by (subst queue_same) (simp_all add: s3_def)
    show "conds_fit (live s2) ((view s2)(?a := ?t)) (conds s3)"
      using parts(5) ctx by (subst conds_same) (simp_all add: s3_def)
    have "mutexes_fit (live s2) ((view s2)(?a := ?t)) (mutexes s2)" by (rule mutexes_same [OF parts(6)]) (simp_all add: ctx)
    then show "mutexes_fit (live s2) ((view s2)(?a := ?t)) (mutexes s3)" by (simp add: s3_def)
    have "sleepers (live s2) ((view s2)(?a := ?t)) = sleepers (live s2) (view s2)" by (rule sleepers_same) simp
    then show "sleepq_holds s3 (sleepers (live s2) ((view s2)(?a := ?t)))" using parts(7) by (simp add: s3_def)
    show "ev_inv s3" by (rule poll_same [of ?t s2 ?a, OF _ _ a(1) parts(9) view]) (simp_all add: s3_def)
  qed (use a ctx in \<open>simp_all add: s3_def\<close>)
  then have "goes_well s (switch_context In_idle (set_state ?a RUNNABLE s2))"
    using goes_well_switch [of "set_state ?a RUNNABLE s2" In_idle s] this2 by (simp add: s3_def)
  then show ?thesis using False s1(1) s2(1) this2 by (simp add: idle_turn_def)
qed

section \<open>Steps\<close>

text \<open>A call is right if the objects it names exist and it does not destroy an object of the library.\<close>

fun valid_call :: "st_vp \<Rightarrow> st_call \<Rightarrow> bool" where
  "valid_call s (Cond_destroy c) \<longleftrightarrow> conds s c \<noteq> None \<and> c \<notin> terms_of s"
| "valid_call s (Cond_timedwait c timeout) \<longleftrightarrow> conds s c \<noteq> None"
| "valid_call s (Cond_signal c) \<longleftrightarrow> conds s c \<noteq> None"
| "valid_call s (Cond_broadcast c) \<longleftrightarrow> conds s c \<noteq> None"
| "valid_call s (Mutex_destroy m) \<longleftrightarrow> mutexes s m \<noteq> None"
| "valid_call s (Mutex_lock m) \<longleftrightarrow> mutexes s m \<noteq> None"
| "valid_call s (Mutex_unlock m) \<longleftrightarrow> mutexes s m \<noteq> None"
| "valid_call s (Mutex_trylock m) \<longleftrightarrow> mutexes s m \<noteq> None"
| "valid_call s _ \<longleftrightarrow> True"

lemma handle_ok: "st_inv (snd r) \<and> runs_user (snd r) \<and> this_thread (snd r) = this_thread s \<Longrightarrow> goes_well s (handle r)"
  by (cases r) (auto simp: handle_def goes_well_def)

theorem execute_ok:
  assumes inv: "st_inv s" and user: "runs_user s" and valid: "valid_call s c" and os: "os_ok os"
  shows "goes_well s (execute os c s)"
proof (cases c)
  case (Poll pds timeout)
  then show ?thesis using poll_ok [OF inv user os] by simp
next
  case (Usleep usecs)
  then show ?thesis using usleep_ok [OF inv user] by simp
next
  case (Cond_new mem_ok)
  then show ?thesis using cond_new_ok [OF inv user, of mem_ok "fst (st_cond_new mem_ok s)" "snd (st_cond_new mem_ok s)"] handle_ok by simp
next
  case (Cond_destroy n)
  then show ?thesis using cond_destroy_ok [OF inv user] valid returns_well_goes by auto
next
  case (Cond_timedwait n timeout)
  then show ?thesis using cond_timedwait_ok [OF inv user, of n _ "In_cond n" timeout] valid by auto
next
  case (Cond_signal n)
  then obtain q where "conds s n = Some q" using valid by auto
  from signal_ok [OF inv user this, of False] show ?thesis using Cond_signal by (auto simp: st_cond_signal_def goes_well_def)
next
  case (Cond_broadcast n)
  then obtain q where "conds s n = Some q" using valid by auto
  from signal_ok [OF inv user this, of True] show ?thesis using Cond_broadcast by (auto simp: st_cond_broadcast_def goes_well_def)
next
  case (Mutex_new mem_ok)
  then show ?thesis using mutex_new_ok [OF inv user, of mem_ok "fst (st_mutex_new mem_ok s)" "snd (st_mutex_new mem_ok s)"] handle_ok by simp
next
  case (Mutex_destroy m)
  then show ?thesis using mutex_destroy_ok [OF inv user] valid returns_well_goes by auto
next
  case (Mutex_lock m)
  then show ?thesis using mutex_lock_ok [OF inv user] valid by auto
next
  case (Mutex_unlock m)
  then show ?thesis using mutex_unlock_ok [OF inv user] valid returns_well_goes by auto
next
  case (Mutex_trylock m)
  then show ?thesis using mutex_trylock_ok [OF inv user] valid returns_well_goes by auto
next
  case (Key_create d)
  then show ?thesis using key_create_ok [OF inv user, of d "fst (st_key_create d s)" "snd (st_key_create d s)"] handle_ok by simp
next
  case (Setspecific key x)
  then show ?thesis using setspecific_ok [OF inv user] returns_well_goes by simp
next
  case (Thread_create mem_ok cond_ok joinable z)
  then show ?thesis
    using thread_create_ok(1) [OF inv user, of mem_ok cond_ok joinable z "fst (st_thread_create mem_ok cond_ok joinable z s)"
        "snd (st_thread_create mem_ok cond_ok joinable z s)"] handle_ok by simp
next
  case (Thread_exit v)
  then show ?thesis using thread_exit_ok [OF inv user] by simp
next
  case (Thread_join a)
  then show ?thesis using thread_join_ok [OF inv user] by simp
next
  case (Thread_interrupt a)
  then show ?thesis using interrupt_ok [OF inv user] returns_well_goes by simp
qed

theorem resume_ok:
  assumes inv: "st_inv s" and busy: "\<not> runs_user s" and kernel: "kernel_ok os i s"
  shows "goes_well s (resume os i s)"
proof -
  have f: "fits (view s (this_thread s))" using running(3) [OF inv] .
  have me: "t_context (me s) = t_context (view s (this_thread s))" by (simp add: me_def view_select)
  show ?thesis
  proof (cases "t_context (view s (this_thread s))")
    case In_user
    then show ?thesis using busy by (simp add: runs_user_def)
  next
    case In_idle
    then show ?thesis using idle_turn_ok [OF inv _ kernel] by (simp add: resume_def me)
  next
    case In_poll
    then show ?thesis using finish_poll_ok [OF inv] by (simp add: resume_def me returns_well_goes Let_def)
  next
    case In_usleep
    then show ?thesis using finish_usleep_ok [OF inv] by (simp add: resume_def me returns_well_goes Let_def)
  next
    case (In_cond c)
    then show ?thesis using finish_cond_ok(1) [OF inv, of c] by (simp add: resume_def me returns_well_goes Let_def)
  next
    case (In_join c a)
    then show ?thesis using finish_join_ok [OF inv] by (simp add: resume_def me Let_def)
  next
    case (In_lock m)
    then show ?thesis using finish_lock_ok [OF inv] by (simp add: resume_def me returns_well_goes Let_def)
  next
    case In_exit
    then show ?thesis using finish_exit_ok [OF inv] by (simp add: resume_def me Let_def)
  next
    case In_gone
    then show ?thesis using f by (simp add: fits_def)
  qed
qed

text \<open>
  A step: the thread that has the processor calls the library, or, when it got the processor inside the library, goes on
  there. The label says what happened.
\<close>

inductive st_step :: "st_os \<Rightarrow> st_call option \<Rightarrow> st_vp \<Rightarrow> st_outcome \<Rightarrow> st_vp \<Rightarrow> bool" for os where
  call: "runs_user s \<Longrightarrow> valid_call s c \<Longrightarrow> execute os c s = Some (out, s') \<Longrightarrow> st_step os (Some c) s out s'"
| go_on: "\<not> runs_user s \<Longrightarrow> kernel_ok os i s \<Longrightarrow> resume os i s = Some (out, s') \<Longrightarrow> st_step os None s out s'"

inductive_cases st_step_callE: "st_step os (Some c) s out s'"
inductive_cases st_step_resumeE: "st_step os None s out s'"

inductive st_reachable :: "st_os \<Rightarrow> st_vp \<Rightarrow> st_vp \<Rightarrow> bool" for os s0 where
  start: "st_reachable os s0 s0"
| step: "st_reachable os s0 s \<Longrightarrow> st_step os c s out s' \<Longrightarrow> out \<noteq> Exited \<Longrightarrow> st_reachable os s0 s'"

theorem st_step_inv:
  assumes "st_inv s" and "os_ok os" and "st_step os c s out s'"
  shows "st_inv s'"
  using assms(3)
proof cases
  case (call c')
  then show ?thesis using execute_ok [OF assms(1) call(2,3) assms(2)] by (auto simp: goes_well_def)
next
  case (go_on i)
  then show ?thesis using resume_ok [OF assms(1) go_on(2,3)] go_on(4) by (auto simp: goes_well_def)
qed

theorem st_reachable_inv:
  assumes "st_reachable os s0 s" and "st_inv s0" and "os_ok os"
  shows "st_inv s"
  using assms(1) by induction (use assms(2,3) st_step_inv in blast)+

text \<open>No step gets stuck: every right call and every continuation has a result.\<close>

theorem st_progress:
  assumes "st_inv s" and "os_ok os"
  shows "runs_user s \<Longrightarrow> valid_call s c \<Longrightarrow> \<exists>out s'. st_step os (Some c) s out s'"
    and "\<not> runs_user s \<Longrightarrow> kernel_ok os i s \<Longrightarrow> \<exists>out s'. st_step os None s out s'"
proof -
  assume user: "runs_user s" "valid_call s c"
  obtain out s' where "execute os c s = Some (out, s')" using execute_ok [OF assms(1) user assms(2)] by (auto simp: goes_well_def)
  then show "\<exists>out s'. st_step os (Some c) s out s'" using st_step.call [OF user] by blast
next
  assume inside: "\<not> runs_user s" "kernel_ok os i s"
  obtain out s' where "resume os i s = Some (out, s')" using resume_ok [OF assms(1) inside] by (auto simp: goes_well_def)
  then show "\<exists>out s'. st_step os None s out s'" using st_step.go_on [OF inside] by blast
qed

end
