(* ===== verification/St_Order.thy ===== *)
theory St_Order
  imports St_Machine
begin

text \<open>
  What holds of every call in every state, whether the invariant holds or not: a call adds to the end of the run
  queue only, giving the processor away takes the head, and only the operations on mutexes change mutexes.
\<close>

section \<open>Frames\<close>

definition frame :: "st_vp \<Rightarrow> st_vp \<Rightarrow> bool" where
  "frame s s' \<longleftrightarrow> this_thread s' = this_thread s \<and> idle_thread s' = idle_thread s \<and> mutexes s' = mutexes s \<and>
     (\<exists>ws. run_q s' = run_q s @ ws)"

definition framed :: "st_vp \<Rightarrow> st_vp option \<Rightarrow> bool" where
  "framed s r \<longleftrightarrow> (\<forall>s'. r = Some s' \<longrightarrow> frame s s')"

lemma frame_same [simp]: "frame s s"
  by (simp add: frame_def)

lemma frame_step: "frame s s1 \<Longrightarrow> frame s1 s2 \<Longrightarrow> frame s s2"
  by (auto simp: frame_def)

text \<open>Changes of fields that are not looked at, in front of a frame or behind it.\<close>

lemma frame_fields [simp]:
  "frame s (upd a f s') = frame s s'" "frame s (s'\<lparr>sleep_q := v\<rparr>) = frame s s'" "frame s (s'\<lparr>sleepq_size := n\<rparr>) = frame s s'"
  "frame s (s'\<lparr>io_q := q\<rparr>) = frame s s'" "frame s (s'\<lparr>ep := e\<rparr>) = frame s s'" "frame s (s'\<lparr>vp_errno := err\<rparr>) = frame s s'"
  "frame s (s'\<lparr>conds := cs\<rparr>) = frame s s'" "frame s (s'\<lparr>zombie_q := q\<rparr>) = frame s s'" "frame s (s'\<lparr>thread_q := q\<rparr>) = frame s s'"
  "frame s (s'\<lparr>active_count := i\<rparr>) = frame s s'" "frame s (s'\<lparr>free_stacks := fs\<rparr>) = frame s s'" "frame s (s'\<lparr>next_obj := n\<rparr>) = frame s s'"
  "frame s (s'\<lparr>stack_size := z\<rparr>) = frame s s'" "frame s (s'\<lparr>destroyed := d\<rparr>) = frame s s'" "frame s (s'\<lparr>last_clock := c\<rparr>) = frame s s'"
  "frame s (s'\<lparr>curr_time := i\<rparr>) = frame s s'" "frame s (s'\<lparr>last_tset := c\<rparr>) = frame s s'" "frame s (s'\<lparr>key_max := n\<rparr>) = frame s s'"
  "frame s (s'\<lparr>destructors := ds\<rparr>) = frame s s'"
  "frame s (set_context a c' s') = frame s s'" "frame s (set_state a st s') = frame s s'" "frame s (update_thread g s') = frame s s'"
  "frame s (ep_change h s') = frame s s'"
  by (simp_all add: frame_def upd_def set_context_def set_state_def update_thread_def ep_change_def)

lemma frame_of_write_link [simp]: "frame s (write_link p v s') = frame s s'"
  by (cases p) simp_all

lemma frame_make_runnable [simp]: "frame s s' \<Longrightarrow> frame s (make_runnable a s')"
  by (auto simp: frame_def make_runnable_def)

lemma framed_Some [simp]: "framed s (Some s') = frame s s'" "framed s None"
  by (auto simp: framed_def)

lemma framed_then: "framed s r \<Longrightarrow> (\<And>s'. frame s s' \<Longrightarrow> framed s (f s')) \<Longrightarrow> framed s (case r of None \<Rightarrow> None | Some s' \<Rightarrow> f s')"
  by (cases r) simp_all

lemma framed_map: "framed s r \<Longrightarrow> (\<And>s'. frame s s' \<Longrightarrow> frame s (f s')) \<Longrightarrow> framed s (map_option f r)"
  by (cases r) simp_all

lemma framed_trans: "frame s s1 \<Longrightarrow> framed s1 r \<Longrightarrow> framed s r"
  using frame_step by (auto simp: framed_def)

section \<open>The timeout heap\<close>

lemma frame_insert_loop: "heap_insert_loop bs x p i s1 = Some (x', p', i', s') \<Longrightarrow> frame s s1 \<Longrightarrow> frame s s'"
  by (induction bs x p i s1 rule: heap_insert_loop.induct) (auto split: option.splits if_splits)

lemma frame_insert_at: "heap_insert_at x s1 = Some (p, s') \<Longrightarrow> frame s s1 \<Longrightarrow> frame s s'"
  by (auto simp: heap_insert_at_def heap_place_def split: option.splits dest: frame_insert_loop)

lemma frame_swap_down: "swap_down t y p s1 = (p', s') \<Longrightarrow> frame s s1 \<Longrightarrow> frame s s'"
  by (auto simp: swap_down_def Let_def split: if_splits prod.splits)

lemma frame_sift_loop: "heap_sift_loop n t p s1 = Some s' \<Longrightarrow> frame s s1 \<Longrightarrow> frame s s'"
proof (induction n arbitrary: t p s1)
  case (Suc n)
  then show ?case by (auto split: option.splits if_splits prod.splits intro: Suc.IH dest: frame_swap_down [where s = s])
qed simp

lemma framed_add_sleep_q: "frame s s1 \<Longrightarrow> framed s (st_add_sleep_q a timeout s1)"
  by (auto simp: framed_def st_add_sleep_q_def Let_def dest!: frame_insert_at [where s = s])

lemma framed_del_sleep_q: "frame s s1 \<Longrightarrow> framed s (st_del_sleep_q a s1)"
  unfolding framed_def st_del_sleep_q_def heap_delete_def Let_def
  by (auto simp del: heap_sift_loop.simps split: option.splits prod.splits if_splits
      dest!: frame_sift_loop [where s = s] frame_insert_at [where s = s])

lemma framed_wake_up: "frame s s1 \<Longrightarrow> framed s (wake_up a s1)"
  by (simp add: wake_up_def leave_sleep_q_def framed_map framed_del_sleep_q)

lemma framed_sleep: "frame s s1 \<Longrightarrow> framed s (sleep_unless_forever timeout s1)"
  by (simp add: sleep_unless_forever_def framed_add_sleep_q)

lemma framed_signal_loop: "frame s s1 \<Longrightarrow> framed s (cond_signal_loop b q s1)"
proof (induction q arbitrary: s1)
  case (Cons a q)
  have "framed s (case wake_up a s1 of None \<Rightarrow> None | Some s2 \<Rightarrow> if b then cond_signal_loop b q s2 else Some s2)"
    by (rule framed_then [OF framed_wake_up [OF Cons.prems]]) (use Cons.IH in \<open>cases b; simp\<close>)
  then show ?case using Cons by simp
qed simp

lemma framed_signal: "frame s s1 \<Longrightarrow> framed s (cond_signal c b s1)"
  by (simp add: cond_signal_def framed_signal_loop split: option.split)

section \<open>The clock and the event system\<close>

lemma framed_expire: "frame s s1 \<Longrightarrow> framed s (expire a s1)"
  unfolding expire_def by (rule framed_then [OF framed_del_sleep_q]) (simp_all add: Let_def)

lemma frame_check_clock_loop:
  assumes "check_clock_loop now s = Some s'"
  shows "frame s s'"
proof (rule check_clock_loop.raw_induct [OF _ assms])
  fix loop :: "st_utime \<Rightarrow> st_vp \<Rightarrow> st_vp option" and now s s'
  assume IH: "\<And>now s s'. loop now s = Some s' \<Longrightarrow> frame s s'"
    and run: "(case sleep_q s of None \<Rightarrow> Some s
      | Some a \<Rightarrow> if \<not> t_on_sleepq (threads s a) then None
          else if now < t_due (threads s a) then Some s
          else (case expire a s of None \<Rightarrow> None | Some s1 \<Rightarrow> loop now s1)) = Some s'"
  show "frame s s'"
  proof (cases "s' = s")
    case False
    with run obtain a s1 where "expire a s = Some s1" "loop now s1 = Some s'"
      by (simp split: option.splits if_splits)
    then have "frame s s1" "frame s1 s'" using framed_expire [OF frame_same, of s a] IH by (simp_all add: framed_def)
    then show ?thesis by (rule frame_step)
  qed simp
qed

lemma framed_check_clock:
  assumes "frame s s1"
  shows "framed s (st_vp_check_clock now t s1)"
proof -
  have "framed s (check_clock_loop now s2)" if "frame s s2" for s2
    using that frame_check_clock_loop frame_step by (auto simp: framed_def)
  then show ?thesis using assms by (simp add: st_vp_check_clock_def Let_def)
qed

lemma framed_notify_all: "frame s s1 \<Longrightarrow> framed s (notify_all os as s1)"
proof (induction as arbitrary: s1)
  case (Cons a as)
  have "framed s (notify_one os a s1)"
    using Cons.prems by (simp add: notify_one_def Let_def framed_wake_up)
  then show ?case using Cons.IH by (auto intro: framed_then)
qed simp

lemma frame_reinit: "epoll_reinit os s1 = (ok, s') \<Longrightarrow> frame s s1 \<Longrightarrow> frame s s'"
  by (auto simp: epoll_reinit_def Let_def split: if_splits)

lemma framed_dispatch: "frame s s1 \<Longrightarrow> framed s (epoll_dispatch os evs s1)"
  by (auto simp: epoll_dispatch_def split: prod.split bool.split intro!: framed_then framed_notify_all dest: frame_reinit)

section \<open>Turns\<close>

text \<open>
  A call that returns leaves the processor with its thread; one that gives it away gives it to the first thread of
  the run queue, with what the call added at the end, and to the idle thread if there is none.
\<close>

definition taken :: "tid list \<Rightarrow> st_vp \<Rightarrow> st_vp \<Rightarrow> bool" where
  "taken q s s' \<longleftrightarrow>
     (case q of [] \<Rightarrow> this_thread s' = idle_thread s \<and> run_q s' = [] | a # q' \<Rightarrow> this_thread s' = a \<and> run_q s' = q')"

definition turn :: "(nat \<Rightarrow> st_mutex option) \<Rightarrow> st_vp \<Rightarrow> (st_outcome \<times> st_vp) option \<Rightarrow> bool" where
  "turn ms s r \<longleftrightarrow> (\<forall>out s'. r = Some (out, s') \<longrightarrow> mutexes s' = ms \<and> idle_thread s' = idle_thread s \<and>
     (\<exists>ws. if out = Switched then taken (run_q s @ ws) s s'
       else this_thread s' = this_thread s \<and> run_q s' = run_q s @ ws))"

lemma turn_None [simp]: "turn ms s None"
  by (simp add: turn_def)

lemma turn_frame: "frame s s1 \<Longrightarrow> turn ms s1 r \<Longrightarrow> turn ms s r"
  unfolding frame_def turn_def taken_def by (metis append.assoc)

lemma turn_returned: "frame s s1 \<Longrightarrow> out \<noteq> Switched \<Longrightarrow> turn (mutexes s) s (Some (out, s1))"
  by (auto simp: turn_def frame_def)

lemma turn_returns: "frame s s1 \<Longrightarrow> turn (mutexes s) s (returns v s1)"
  by (simp add: returns_def turn_returned)

lemma turn_fails: "frame s s1 \<Longrightarrow> turn (mutexes s) s (fails e s1)" "frame s s1 \<Longrightarrow> turn (mutexes s) s (fails_interrupted s1)"
  by (simp_all add: fails_def fails_interrupted_def turn_returned)

lemma schedule_taken: "st_vp_schedule s = Some s' \<Longrightarrow> taken (run_q s) s s' \<and> mutexes s' = mutexes s \<and> idle_thread s' = idle_thread s"
  by (auto simp: st_vp_schedule_def taken_def set_state_def upd_def split: list.splits if_splits)

lemma turn_switch_same: "turn (mutexes s) s (switch_context c s)"
  unfolding turn_def
proof (intro allI impI)
  fix out s'
  assume "switch_context c s = Some (out, s')"
  then have "out = Switched" and sched: "st_vp_schedule (set_context (this_thread s) c s) = Some s'"
    by (auto simp: switch_context_def)
  moreover have "taken (run_q s @ []) s s' \<and> mutexes s' = mutexes s \<and> idle_thread s' = idle_thread s"
    using schedule_taken [OF sched] by (simp add: taken_def split: list.splits)
  ultimately show "mutexes s' = mutexes s \<and> idle_thread s' = idle_thread s \<and> (\<exists>ws. if out = Switched then taken (run_q s @ ws) s s'
       else this_thread s' = this_thread s \<and> run_q s' = run_q s @ ws)" by (auto intro: exI [of _ "[]"])
qed

lemma turn_switch: "frame s s1 \<Longrightarrow> turn (mutexes s) s (switch_context c s1)"
  using turn_frame [OF _ turn_switch_same, of s s1 c] by (simp add: frame_def)

lemma turn_then: "framed s r \<Longrightarrow> (\<And>s'. frame s s' \<Longrightarrow> turn ms s (f s')) \<Longrightarrow> turn ms s (case r of None \<Rightarrow> None | Some s' \<Rightarrow> f s')"
  by (cases r) simp_all

lemma turn_map: "framed s r \<Longrightarrow> turn (mutexes s) s (map_option (Pair (Returned v)) r)"
  by (cases r) (simp_all add: turn_returned)

lemmas turns = turn_returns turn_fails turn_switch

text \<open>The same as rules for a call that had a result.\<close>

lemmas frame_sleep = framed_sleep [unfolded framed_def, rule_format, rotated]
lemmas frame_add_sleep_q = framed_add_sleep_q [unfolded framed_def, rule_format, rotated]
lemmas frame_signal = framed_signal [unfolded framed_def, rule_format, rotated]
lemmas frame_dispatch = framed_dispatch [unfolded framed_def, rule_format, rotated]
lemmas frame_check_clock = framed_check_clock [unfolded framed_def, rule_format, rotated]

section \<open>The calls\<close>

lemma turn_poll: "turn (mutexes s) s (st_poll_vp os pds timeout s)"
  by (auto simp: st_poll_vp_def Let_def turns split: prod.split option.split dest!: frame_sleep [where s = s])

lemma turn_finish_poll: "frame s s1 \<Longrightarrow> turn (mutexes s) s (finish_poll os s1)"
  by (auto simp: finish_poll_def Let_def turns)

lemma turn_usleep: "turn (mutexes s) s (st_usleep usecs s)"
  by (auto simp: st_usleep_def turns split: option.split dest!: frame_add_sleep_q [where s = s])

lemma turn_finish_usleep: "frame s s1 \<Longrightarrow> turn (mutexes s) s (finish_usleep s1)"
  by (simp add: finish_usleep_def turns)

lemma turn_timedwait: "frame s s1 \<Longrightarrow> turn (mutexes s) s (st_cond_timedwait c timeout after s1)"
  by (auto simp: st_cond_timedwait_def turns split: option.split dest!: frame_sleep [where s = s])

lemma turn_finish_cond: "frame s s1 \<Longrightarrow> turn (mutexes s) s (finish_cond c s1)"
  by (auto simp: finish_cond_def Let_def turns split: option.split)

lemma turn_cond_destroy: "frame s s1 \<Longrightarrow> turn (mutexes s) s (st_cond_destroy c s1)"
  by (auto simp: st_cond_destroy_def turns split: option.split)

lemma turn_signal: "turn (mutexes s) s (st_cond_signal c s)" "turn (mutexes s) s (st_cond_broadcast c s)"
  by (simp_all add: st_cond_signal_def st_cond_broadcast_def turn_map framed_signal)

lemma frame_cleanup: "frame s s1 \<Longrightarrow> frame s (st_thread_cleanup a s1)"
proof -
  have "frame s s2 \<Longrightarrow> frame s (fold (cleanup_key a) ks s2)" for ks s2
    by (induction ks arbitrary: s2) (simp_all add: cleanup_key_def destroy_data_def Let_def)
  then show "frame s s1 \<Longrightarrow> frame s (st_thread_cleanup a s1)" by (simp add: st_thread_cleanup_def)
qed

lemma turn_leave: "frame s s1 \<Longrightarrow> turn (mutexes s) s (leave_for_good s1)"
  by (simp add: leave_for_good_def Let_def turns st_stack_free_def)

lemma turn_exit: "turn (mutexes s) s (st_thread_exit v s)"
  by (auto simp: st_thread_exit_def Let_def turn_leave frame_cleanup turns split: option.split dest!: frame_signal [where s = s])

lemma turn_finish_exit: "frame s s1 \<Longrightarrow> turn (mutexes s) s (finish_exit s1)"
  by (auto simp: finish_exit_def st_cond_destroy_def fails_def returns_def turn_leave split: option.split)

lemma turn_join_loop: "frame s s1 \<Longrightarrow> turn (mutexes s) s (join_loop c a s1)"
  by (simp add: join_loop_def Let_def turn_timedwait turns)

lemma turn_join: "turn (mutexes s) s (st_thread_join a s)"
  by (auto simp: st_thread_join_def turn_join_loop turns split: option.split)

lemma turn_interrupt: "turn (mutexes s) s (st_thread_interrupt a s)"
  by (simp add: st_thread_interrupt_def Let_def turns turn_map framed_wake_up)

lemma turn_setspecific: "turn (mutexes s) s (st_thread_setspecific key x s)"
  by (simp add: st_thread_setspecific_def destroy_data_def Let_def turns)

lemma turn_handle: "frame s (snd r) \<Longrightarrow> turn (mutexes s) s (handle r)"
  by (simp add: handle_def turn_returned)

lemma frame_cond_new: "st_cond_new mem_ok s1 = (r, s') \<Longrightarrow> frame s s1 \<Longrightarrow> frame s s'"
  by (auto simp: st_cond_new_def split: if_splits)

lemma frame_stack_new: "st_stack_new mem_ok z s1 = (r, s') \<Longrightarrow> frame s s1 \<Longrightarrow> frame s s'"
  by (auto simp: st_stack_new_def split: option.splits if_splits)

lemma frame_create: "frame s (snd (st_thread_create mem_ok cond_ok joinable z s))"
  by (auto simp: st_thread_create_def st_stack_free_def Let_def split: prod.split option.split if_split
      dest!: frame_stack_new [where s = s] frame_cond_new [where s = s])

lemma turn_idle: "turn (mutexes s) s (idle_turn os evs now t s)"
  by (auto simp: idle_turn_def turn_returned turns split: option.split dest!: frame_dispatch [where s = s] frame_check_clock [where s = s])

section \<open>Mutexes\<close>

lemma turn_cong: "turn ms s1 r \<Longrightarrow> run_q s1 = run_q s \<Longrightarrow> this_thread s1 = this_thread s \<Longrightarrow> idle_thread s1 = idle_thread s \<Longrightarrow> turn ms s r"
  by (simp only: turn_def taken_def)

lemma turn_mutexes:
  assumes "frame s s1"
  shows "turn ms s (returns v (s1\<lparr>mutexes := ms\<rparr>))" and "turn ms s (switch_context c (s1\<lparr>mutexes := ms\<rparr>))"
    and "turn ms s (handle (r, s1\<lparr>mutexes := ms\<rparr>))" and "turn ms s (fails e (s1\<lparr>mutexes := ms\<rparr>))"
    and "turn ms s (fails_interrupted (s1\<lparr>mutexes := ms\<rparr>))"
proof -
  let ?s = "s\<lparr>mutexes := ms\<rparr>" and ?s1 = "s1\<lparr>mutexes := ms\<rparr>"
  have f: "frame ?s ?s1" using assms by (simp add: frame_def)
  show "turn ms s (returns v ?s1)" by (rule turn_cong [of _ ?s]) (use turn_returns [OF f] in simp_all)
  show "turn ms s (switch_context c ?s1)" by (rule turn_cong [of _ ?s]) (use turn_switch [OF f] in simp_all)
  show "turn ms s (handle (r, ?s1))" by (rule turn_cong [of _ ?s]) (use turn_handle [of ?s "(r, ?s1)"] f in simp_all)
  show "turn ms s (fails e ?s1)" by (rule turn_cong [of _ ?s]) (use turn_fails(1) [OF f] in simp_all)
  show "turn ms s (fails_interrupted ?s1)" by (rule turn_cong [of _ ?s]) (use turn_fails(2) [OF f] in simp_all)
qed

definition owner_of :: "st_vp \<Rightarrow> nat \<Rightarrow> tid option" where
  "owner_of s m = mx_owner (mutex_at (mutexes s) m)"

lemma owner_same: "mutexes s' = mutexes s \<Longrightarrow> owner_of s' m = owner_of s m"
  by (simp add: owner_of_def)

text \<open>What a call on a mutex does to the mutexes.\<close>

fun mutexes_after :: "st_call \<Rightarrow> st_vp \<Rightarrow> nat \<Rightarrow> st_mutex option" where
  "mutexes_after (Mutex_new mem_ok) s =
     (if mem_ok then (mutexes s)(next_obj s \<mapsto> \<lparr>mx_owner = None, mx_wait_q = []\<rparr>) else mutexes s)"
| "mutexes_after (Mutex_destroy m) s =
     (if mx_owner (mutex_at (mutexes s) m) = None \<and> mx_wait_q (mutex_at (mutexes s) m) = [] then (mutexes s)(m := None) else mutexes s)"
| "mutexes_after (Mutex_lock m) s =
     (let mx = mutex_at (mutexes s) m in
      if t_interrupt (me s) \<or> mx_owner mx = Some (this_thread s) then mutexes s
      else (mutexes s)(m \<mapsto> (if mx_owner mx = None then mx\<lparr>mx_owner := Some (this_thread s)\<rparr>
        else mx\<lparr>mx_wait_q := mx_wait_q mx @ [this_thread s]\<rparr>)))"
| "mutexes_after (Mutex_unlock m) s =
     (let mx = mutex_at (mutexes s) m in
      if mx_owner mx \<noteq> Some (this_thread s) then mutexes s
      else (mutexes s)(m \<mapsto> mx\<lparr>mx_owner := find (\<lambda>a. t_state (threads s a) = LOCK_WAIT) (mx_wait_q mx)\<rparr>))"
| "mutexes_after (Mutex_trylock m) s =
     (let mx = mutex_at (mutexes s) m in
      if mx_owner mx \<noteq> None then mutexes s else (mutexes s)(m \<mapsto> mx\<lparr>mx_owner := Some (this_thread s)\<rparr>))"
| "mutexes_after _ s = mutexes s"

lemma swap_mutexes:
  "make_runnable a (s\<lparr>mutexes := ms\<rparr>) = (make_runnable a s)\<lparr>mutexes := ms\<rparr>"
  "s\<lparr>mutexes := ms, next_obj := n\<rparr> = s\<lparr>next_obj := n, mutexes := ms\<rparr>"
  by (simp_all add: make_runnable_def set_state_def upd_def)

theorem turn_execute: "turn (mutexes_after c s) s (execute os c s)"
proof (cases c)
  case (Mutex_new mem_ok)
  show ?thesis unfolding Mutex_new execute.simps mutexes_after.simps st_mutex_new_def swap_mutexes
    by (cases mem_ok) (simp_all add: turn_mutexes turn_handle)
next
  case (Mutex_destroy m)
  show ?thesis unfolding Mutex_destroy execute.simps mutexes_after.simps st_mutex_destroy_def
    by (cases "mutexes s m") (simp_all add: turn_mutexes turns)
next
  case (Mutex_lock m)
  show ?thesis unfolding Mutex_lock execute.simps mutexes_after.simps st_mutex_lock_def
    by (cases "mutexes s m") (simp_all add: turn_mutexes turns Let_def)
next
  case (Mutex_unlock m)
  show ?thesis unfolding Mutex_unlock execute.simps mutexes_after.simps st_mutex_unlock_def
    by (cases "mutexes s m") (simp_all add: turn_mutexes turns Let_def swap_mutexes split: option.split)
next
  case (Mutex_trylock m)
  show ?thesis unfolding Mutex_trylock execute.simps mutexes_after.simps st_mutex_trylock_def
    by (cases "mutexes s m") (simp_all add: turn_mutexes turns Let_def)
qed (simp_all add: turn_poll turn_usleep turn_cond_destroy turn_timedwait turn_signal turn_setspecific turn_exit turn_join
    turn_interrupt turn_handle frame_create st_cond_new_def st_key_create_def)

definition mutexes_resumed :: "st_vp \<Rightarrow> nat \<Rightarrow> st_mutex option" where
  "mutexes_resumed s =
     (case waits_mutex (t_context (me s)) of
        None \<Rightarrow> mutexes s
      | Some m \<Rightarrow> (mutexes s)(m \<mapsto> (mutex_at (mutexes s) m)
          \<lparr>mx_wait_q := remove1 (this_thread s) (mx_wait_q (mutex_at (mutexes s) m))\<rparr>))"

lemma turn_bind:
  assumes "turn ms s r" and "\<And>rv s1. r = Some (rv, s1) \<Longrightarrow> rv \<noteq> Switched"
    and "\<And>rv s1. r = Some (rv, s1) \<Longrightarrow> turn ms s1 (f rv s1)"
  shows "turn ms s (case r of None \<Rightarrow> None | Some (rv, s1) \<Rightarrow> f rv s1)"
proof (cases r)
  case (Some rs)
  obtain rv s1 where rs: "rs = (rv, s1)" by (cases rs)
  have "rv \<noteq> Switched" "turn ms s1 (f rv s1)" using assms(2,3) Some rs by simp_all
  moreover obtain ws where "this_thread s1 = this_thread s" "idle_thread s1 = idle_thread s" "run_q s1 = run_q s @ ws"
    using assms(1) Some rs \<open>rv \<noteq> Switched\<close> by (auto simp: turn_def)
  ultimately have "turn ms (s1\<lparr>mutexes := mutexes s\<rparr>) (f rv s1)" "frame s (s1\<lparr>mutexes := mutexes s\<rparr>)"
    by (auto simp: frame_def intro: turn_cong)
  then show ?thesis using Some rs turn_frame by simp
qed simp

lemma finish_cond_returns: "finish_cond c s = Some (out, s') \<Longrightarrow> \<exists>v. out = Returned v"
  by (auto simp: finish_cond_def Let_def returns_def fails_def fails_interrupted_def split: option.splits if_splits)

lemma turn_finish_join: "frame s s1 \<Longrightarrow> turn (mutexes s) s (finish_join c a s1)"
  unfolding finish_join_def
proof (rule turn_bind [OF turn_finish_cond])
  fix rv s2
  assume f: "frame s s1" and run: "finish_cond c s1 = Some (rv, s2)"
  show "rv \<noteq> Switched" using finish_cond_returns [OF run] by auto
  have "mutexes s2 = mutexes s" using turn_finish_cond [OF f, of c] run by (simp add: turn_def)
  then show "turn (mutexes s) s2 (if rv \<noteq> Returned 0 then Some (Returned (-1), s2) else join_loop c a s2)"
    using turn_returned [of s2 s2] turn_join_loop [of s2 s2] by simp
qed

lemma turn_finish_lock:
  "turn ((mutexes s)(m \<mapsto> (mutex_at (mutexes s) m)\<lparr>mx_wait_q := remove1 (this_thread s) (mx_wait_q (mutex_at (mutexes s) m))\<rparr>)) s
     (finish_lock m (set_context (this_thread s) In_user s))"
  by (cases "mutexes s m") (simp_all add: finish_lock_def Let_def turn_mutexes)

theorem turn_resume: "turn (mutexes_resumed s) s (resume os i s)"
  by (cases "t_context (me s)")
    (simp_all add: resume_def Let_def mutexes_resumed_def turn_idle turn_finish_poll turn_finish_usleep
      turn_finish_cond turn_finish_join turn_finish_lock turn_finish_exit)

section \<open>The order of the run queue\<close>

text \<open>After \<open>n\<close> switches.\<close>

inductive st_switches :: "st_os \<Rightarrow> st_vp \<Rightarrow> nat \<Rightarrow> st_vp \<Rightarrow> bool" for os s0 where
  start: "st_switches os s0 0 s0"
| step: "st_switches os s0 n s \<Longrightarrow> st_step os c s out s' \<Longrightarrow> st_switches os s0 (if out = Switched then Suc n else n) s'"

lemma step_queue:
  assumes "st_step os c s out s'"
  shows "\<exists>ws. if out = Switched then taken (run_q s @ ws) s s' else this_thread s' = this_thread s \<and> run_q s' = run_q s @ ws"
  using assms
proof cases
  case (call c')
  then show ?thesis using turn_execute [of c' s os] by (auto simp: turn_def)
next
  case (go_on i)
  then show ?thesis using turn_resume [of s os i] by (auto simp: turn_def)
qed

theorem run_queue_in_order:
  assumes "st_switches os s n s'"
  shows "n \<le> length (run_q s) \<Longrightarrow>
    (\<exists>ws. run_q s' = drop n (run_q s) @ ws) \<and> this_thread s' = (if n = 0 then this_thread s else run_q s ! (n - 1))"
  using assms
proof induction
  case (step n s1 c out s')
  obtain ws where ws: "if out = Switched then taken (run_q s1 @ ws) s1 s' else this_thread s' = this_thread s1 \<and> run_q s' = run_q s1 @ ws"
    using step_queue [OF step.hyps(2)] by blast
  obtain vs where vs: "run_q s1 = drop n (run_q s) @ vs" "this_thread s1 = (if n = 0 then this_thread s else run_q s ! (n - 1))"
    using step.IH step.prems by (auto split: if_splits)
  show ?case
  proof (cases "out = Switched")
    case True
    then have "n < length (run_q s)" using step.prems by simp
    then have "drop n (run_q s) = run_q s ! n # drop (Suc n) (run_q s)" by (rule Cons_nth_drop_Suc [symmetric])
    then show ?thesis using True ws vs by (simp add: taken_def)
  next
    case False
    then show ?thesis using ws vs by simp
  qed
qed simp

end
