(* ===== verification/St_Locks.thy ===== *)
theory St_Locks
  imports St_Order
begin

text \<open>
  Mutual exclusion: a history variable collects which threads were told that they have a mutex, and have not given it
  back since.
\<close>

section \<open>Who holds a mutex\<close>

text \<open>The mutex that a step gives to its thread, and the one that it takes from it.\<close>

fun granted :: "st_call option \<Rightarrow> st_vp \<Rightarrow> nat option" where
  "granted (Some (Mutex_lock m)) s = Some m"
| "granted (Some (Mutex_trylock m)) s = Some m"
| "granted (Some _) s = None"
| "granted None s = waits_mutex (t_context (me s))"

fun given_back :: "st_call option \<Rightarrow> nat option" where
  "given_back (Some (Mutex_unlock m)) = Some m"
| "given_back _ = None"

definition holders_after :: "st_call option \<Rightarrow> st_vp \<Rightarrow> st_outcome \<Rightarrow> (tid \<times> nat) set \<Rightarrow> (tid \<times> nat) set" where
  "holders_after c s out H =
     (if out \<noteq> Returned 0 then H
      else (H - {(this_thread s, m) | m. given_back c = Some m}) \<union> {(this_thread s, m) | m. granted c s = Some m})"

inductive st_history :: "st_os \<Rightarrow> st_vp \<Rightarrow> (tid \<times> nat) set \<Rightarrow> st_vp \<Rightarrow> bool" for os s0 where
  start: "st_history os s0 {} s0"
| step: "st_history os s0 H s \<Longrightarrow> st_step os c s out s' \<Longrightarrow> out \<noteq> Exited \<Longrightarrow> st_history os s0 (holders_after c s out H) s'"

lemma history_inv:
  assumes "st_history os s0 H s" and "st_inv s0" and "os_ok os"
  shows "st_inv s"
  using assms(1) by induction (use assms(2,3) st_step_inv in blast)+

section \<open>Owners\<close>

lemma turn_result: "turn ms s r \<Longrightarrow> r = Some (out, s') \<Longrightarrow> mutexes s' = ms"
  by (simp add: turn_def)

lemma owner_update [simp]: "mutexes s' = (mutexes s)(m \<mapsto> mx) \<Longrightarrow> owner_of s' n = (if n = m then mx_owner mx else owner_of s n)"
  by (simp add: owner_of_def)

text \<open>An owner stays the owner until it gives the mutex back.\<close>

lemma owner_stays:
  assumes inv: "st_inv s" and step: "st_step os c s out s'" and owner: "owner_of s n = Some b"
    and keeps: "given_back c = Some n \<Longrightarrow> b = this_thread s \<Longrightarrow> out \<noteq> Returned 0"
  shows "owner_of s' n = Some b"
  using step
proof cases
  case (call c')
  note ms = turn_result [OF turn_execute call(4)]
  show ?thesis
  proof (cases c')
    case (Mutex_new mem_ok)
    have "n \<noteq> next_obj s" using fresh_names(2) [OF inv] owner by (auto simp: owner_of_def mutex_at_def)
    then show ?thesis using ms owner Mutex_new by (simp add: owner_of_def mutex_at_def split: if_splits)
  next
    case (Mutex_unlock m)
    then have "m = n \<Longrightarrow> b = this_thread s \<Longrightarrow> False"
      using keeps call owner by (auto simp: st_mutex_unlock_def owner_of_def returns_def Let_def)
    then show ?thesis using ms owner Mutex_unlock by (auto simp: owner_of_def Let_def split: if_splits)
  qed (use ms owner in \<open>auto simp: owner_of_def Let_def mutex_at_def split: if_splits\<close>)
next
  case (go_on i)
  note ms = turn_result [OF turn_resume go_on(4)]
  then show ?thesis using owner by (auto simp: mutexes_resumed_def owner_of_def split: option.splits if_splits)
qed

lemma granted_owns:
  assumes inv: "st_inv s" and step: "st_step os c s (Returned 0) s'" and got: "granted c s = Some m"
  shows "owner_of s' m = Some (this_thread s)"
  using step
proof cases
  case (call c')
  note ms = turn_result [OF turn_execute call(4)]
  show ?thesis
  proof (cases c')
    case (Mutex_lock n)
    have "n = m" using got call(1) Mutex_lock by simp
    then show ?thesis using ms call(3,4) Mutex_lock
      by (auto simp: owner_of_def st_mutex_lock_def fails_interrupted_def fails_def switch_context_def Let_def split: if_splits)
  next
    case (Mutex_trylock n)
    have "n = m" using got call(1) Mutex_trylock by simp
    then show ?thesis using ms call(3,4) Mutex_trylock
      by (auto simp: owner_of_def st_mutex_trylock_def fails_def Let_def split: if_splits)
  qed (use got call(1) in simp_all)
next
  case (go_on i)
  then have ctx: "t_context (me s) = In_lock m" using got by (simp add: waits_mutex_In_lock)
  note ms = turn_result [OF turn_resume go_on(4)]
  note run = running [OF inv]
  have handed: "handed (this_thread s) (view s (this_thread s)) (mutex_at (mutexes s) m)"
    using mutexes_handed [OF fit_parts(6) [OF run(7)] run(1)] ctx by (simp add: view_select me_def)
  have "finish_lock m (set_context (this_thread s) In_user s) = Some (Returned 0, s')"
    using go_on(4) ctx by (simp add: resume_def Let_def)
  then have "t_interrupt (me s) \<longrightarrow> owner_of s m = Some (this_thread s)"
    by (auto simp: finish_lock_def Let_def me_def set_context_def upd_def owner_of_def fails_interrupted_def fails_def
        split: option.splits if_splits)
  then have "owner_of s m = Some (this_thread s)"
    using handed run(2) by (auto simp: handed_def view_select me_def owner_of_def split: if_splits)
  then show ?thesis using ms ctx by (simp add: mutexes_resumed_def owner_of_def)
qed

text \<open>Whoever was told that it has a mutex is the owner of the mutex.\<close>

theorem holders_own:
  assumes "st_history os s0 H s" and "st_inv s0" and "os_ok os" and "(a, m) \<in> H"
  shows "owner_of s m = Some a"
  using assms(1,4)
proof (induction arbitrary: a m)
  case (step H s c out s')
  have inv: "st_inv s" by (rule history_inv [OF step.hyps(1) assms(2,3)])
  show ?case
  proof (cases "out = Returned 0 \<and> a = this_thread s \<and> granted c s = Some m")
    case True
    then show ?thesis using granted_owns [OF inv] step.hyps(2) by simp
  next
    case False
    then have "(a, m) \<in> H" "given_back c = Some m \<Longrightarrow> a = this_thread s \<Longrightarrow> out \<noteq> Returned 0"
      using step.prems by (auto simp: holders_after_def split: if_splits)
    then show ?thesis using owner_stays [OF inv step.hyps(2) step.IH] by blast
  qed
qed simp

text \<open>No thread waits for a mutex that is free.\<close>

lemma no_lost_unlock:
  assumes "st_inv s" and "a \<in> live s" and "t_context (view s a) = In_lock m" and "t_state (view s a) = LOCK_WAIT"
  shows "owner_of s m \<noteq> None"
  using mutexes_handed [OF fit_parts(6) [OF running(7) [OF assms(1)]] assms(2,3)] assms(4) by (simp add: handed_def owner_of_def)

end
