(* ===== verification/St_Start.thy ===== *)
theory St_Start
  imports St_Machine
begin

text \<open>
  The state that \<^verbatim>\<open>st_init\<close> leaves: the idle thread, and the caller as the thread that has the processor.
\<close>

lemma epoll_init_fits:
  assumes "epoll_init fdlim calloc_ok create_ok fd_data_ok evtlist_ok pid = Some e"
  shows "ep_fits {} (reqs []) (reqs []) e" and "in_array (reqs []) e" and "ep_pid e = pid"
  using assms
  by (auto simp: epoll_init_def ep_fits_def in_array_def counts_fit_def fired_def wanted_def asked_def fd_data_zero_def Let_def
      split: if_splits)

definition idle_object :: st_thread where
  "idle_object = thread_zero\<lparr>t_state := RUNNABLE, t_idle_thread := True, t_context := In_idle\<rparr>"

definition primordial_object :: st_thread where
  "primordial_object = thread_zero\<lparr>t_state := RUNNING, t_primordial := True\<rparr>"

lemma st_init_result:
  assumes "st_init True (Some e) page now True True vp_start = (rv, s)"
  shows "rv = 0" "idle_thread s = 0" "this_thread s = 1" "thread_q s = [0, 1]" "run_q s = []" "io_q s = []" "zombie_q s = []"
    "sleep_q s = None" "sleepq_size s = 0" "conds s = (\<lambda>_. None)" "mutexes s = (\<lambda>_. None)" "free_stacks s = []" "next_obj s = 2"
    "pagesize s = page" "ep s = e" "active_count s = 1" "last_clock s = now" "key_max s = 0"
    "threads s = (\<lambda>_. thread_zero)(0 := idle_object, 1 := primordial_object)"
  using assms
  by (auto simp: st_init_def st_thread_create_def st_stack_new_def vp_start_def make_runnable_def set_state_def upd_def Let_def
      idle_object_def primordial_object_def thread_zero_def fun_eq_iff)

theorem st_init_ok:
  assumes run: "st_init True (Some e) page now True True vp_start = (rv, s)"
    and e: "epoll_init fdlim calloc_ok create_ok fd_data_ok evtlist_ok pid = Some e" and page: "0 < page"
  shows "st_inv s \<and> runs_user s"
proof -
  note r = st_init_result [OF run]
  have live: "live s = {0, 1}" by (auto simp: live_def r)
  have v: "view s a = (if a = 0 then core idle_object else if a = 1 then core primordial_object else core thread_zero)" for a
    by (simp add: view_def r)
  note objs = idle_object_def primordial_object_def thread_zero_def core_def
  have sel: "t_state (view s a) = (if a = 0 then RUNNABLE else RUNNING)" "t_context (view s a) = (if a = 0 then In_idle else In_user)"
    "t_idle_thread (view s a) = (a = 0)" "\<not> t_on_sleepq (view s a)" "t_term (view s a) = None" for a
    by (simp_all add: v objs)
  have "threads_fit (Some 1) 0 {0, 1} (view s)" by (simp add: threads_fit_def fits_def sel)
  moreover have "queue_fits on_run {0, 1} (view s) []" "queue_fits on_io {0, 1} (view s) []"
    "queue_fits (\<lambda>t. t_state t = ZOMBIE) {0, 1} (view s) []"
    by (simp_all add: queue_fits_def exactly_def on_run_def on_io_def sel)
  moreover have "conds_fit {0, 1} (view s) (\<lambda>_. None)"
    by (auto simp: conds_fit_def queue_fits_def exactly_def cond_q_def sel)
  moreover have "mutexes_fit {0, 1} (view s) (\<lambda>_. None)"
    by (auto simp: mutexes_fit_def mutex_fits_def queue_fits_def exactly_def mutex_at_def sel)
  moreover have "sleepq_holds s (sleepers {0, 1} (view s))"
    using sleepq_holds_empty r(8,9) by (simp add: sleepers_def sel)
  moreover have "stacks_fit [0, 1] [] 2" by (simp add: stacks_fit_def)
  ultimately have vp: "vp_inv (Some 1) s" by (simp add: vp_inv_def live r)
  have "io_reqs s = reqs []" by (simp add: io_reqs_def r)
  then have "ev_inv s" using epoll_init_fits(1,2) [OF e] by (simp add: ev_inv_def polls_fit_def live r sel)
  moreover have "terms_fit {0, 1} (view s) (\<lambda>_. None)" by (auto simp: terms_fit_def sel)
  moreover have "names_fit s" using page by (simp add: names_fit_def r)
  ultimately have "st_fits (Some 1) s" using vp by (simp add: st_fits_def live r)
  then show ?thesis by (simp add: st_inv_def runs_user_def r live sel)
qed

text \<open>An initialisation that succeeds is this one.\<close>

lemma st_init_succeeds:
  assumes "st_init io_ok epoll page now stack_ok calloc_ok vp_start = (0, s)"
  obtains e where "io_ok" "epoll = Some e" "stack_ok" "calloc_ok"
  using assms
  by (auto simp: st_init_def st_thread_create_def st_stack_new_def vp_start_def Let_def split: if_splits option.splits)

lemma st_init_again: "active_count s \<noteq> 0 \<Longrightarrow> st_init io_ok epoll page now stack_ok calloc_ok s = (0, s)"
  by (simp add: st_init_def)

end
