(* ===== verification/St_Netfd.thy ===== *)
theory St_Netfd
  imports St_Event
begin

text \<open>
  The descriptor objects of \<^verbatim>\<open>io.c\<close>: opening, closing, accepting and connecting, and the simple calls on
  datagrams; the choice of the event system. The kernel's answers are parameters: lists of what the next
  calls of one kind will answer, or whether a call succeeds. The accepting of connections is not
  serialized on Linux.
\<close>

section \<open>Descriptor objects\<close>

text \<open>\<^verbatim>\<open>_st_netfd_t\<close>; private data is \<open>0\<close> for a null pointer, a destructor is known by whether it is there.\<close>

record st_netfd =
  nf_osfd :: int
  nf_inuse :: bool
  nf_private_data :: int
  nf_destructor :: bool

text \<open>
  The objects and their free list; \<open>os_open\<close> are the descriptors that are open, with the
  \<^verbatim>\<open>O_NONBLOCK\<close> flag of each. \<open>io_ep\<close> is the data of the event system, \<open>nf_destroyed\<close> collects the calls
  of destructors.
\<close>

record st_io =
  netfd :: "nat \<Rightarrow> st_netfd"
  netfd_freelist :: "nat list"
  netfd_next :: nat
  os_open :: "int \<Rightarrow> bool option"
  io_ep :: st_epolldata
  nf_destroyed :: "(nat \<times> int) list"
  io_errno :: st_errno

text \<open>What the system calls and allocations of one operation do.\<close>

record io_os =
  io_realloc_ok :: bool
  io_calloc_ok :: bool
  io_ioctl_ok :: bool
  io_fcntl_fails :: "st_errno option"

definition upd_netfd :: "nat \<Rightarrow> (st_netfd \<Rightarrow> st_netfd) \<Rightarrow> st_io \<Rightarrow> st_io" where
  "upd_netfd a f s = s\<lparr>netfd := (netfd s)(a := f (netfd s a))\<rparr>"

definition netfd_destroy_data :: "nat \<Rightarrow> st_io \<Rightarrow> st_io" where
  "netfd_destroy_data a s =
     (if nf_private_data (netfd s a) \<noteq> 0 \<and> nf_destructor (netfd s a)
      then s\<lparr>nf_destroyed := (a, nf_private_data (netfd s a)) # nf_destroyed s\<rparr> else s)"

definition st_netfd_free :: "nat \<Rightarrow> st_io \<Rightarrow> st_io" where
  "st_netfd_free a s =
     (if \<not> nf_inuse (netfd s a) then s
      else
        let s1 = netfd_destroy_data a (upd_netfd a (\<lambda>f. f\<lparr>nf_inuse := False\<rparr>) s);
            s2 = upd_netfd a (\<lambda>f. f\<lparr>nf_private_data := 0, nf_destructor := False\<rparr>) s1 in
        s2\<lparr>netfd_freelist := a # netfd_freelist s2\<rparr>)"

text \<open>The first object of the free list, or one that \<^verbatim>\<open>calloc\<close> gives.\<close>

definition netfd_alloc :: "bool \<Rightarrow> st_io \<Rightarrow> nat option \<times> st_io" where
  "netfd_alloc calloc_ok s =
     (case netfd_freelist s of
        a # q \<Rightarrow> (Some a, s\<lparr>netfd_freelist := q\<rparr>)
      | [] \<Rightarrow>
          if calloc_ok
          then (Some (netfd_next s), (upd_netfd (netfd_next s)
                 (\<lambda>_. \<lparr>nf_osfd = 0, nf_inuse = False, nf_private_data = 0, nf_destructor = False\<rparr>) s)
                   \<lparr>netfd_next := Suc (netfd_next s)\<rparr>)
          else (None, s\<lparr>io_errno := ENOMEM\<rparr>))"

definition event_fd_new :: "io_os \<Rightarrow> int \<Rightarrow> st_epolldata \<Rightarrow> bool \<times> st_epolldata" where
  "event_fd_new io = epoll_fd_new \<lparr>os_add_fails = (\<lambda>_. None), os_realloc_ok = io_realloc_ok io, os_pid = 0, os_epoll_create_ok = True\<rparr>"

definition set_nonblock :: "int \<Rightarrow> st_io \<Rightarrow> st_io" where
  "set_nonblock osfd s = s\<lparr>os_open := (os_open s)(osfd \<mapsto> True)\<rparr>"

definition st_netfd_new :: "io_os \<Rightarrow> int \<Rightarrow> bool \<Rightarrow> bool \<Rightarrow> st_io \<Rightarrow> nat option \<times> st_io" where
  "st_netfd_new io osfd nonblock is_socket s =
     (case event_fd_new io osfd (io_ep s) of
        (False, e) \<Rightarrow> (None, s\<lparr>io_ep := e, io_errno := ENOMEM\<rparr>)
      | (True, e) \<Rightarrow>
          (case netfd_alloc (io_calloc_ok io) (s\<lparr>io_ep := e\<rparr>) of
             (None, s1) \<Rightarrow> (None, s1)
           | (Some a, s1) \<Rightarrow>
               let s2 = upd_netfd a (\<lambda>f. f\<lparr>nf_osfd := osfd, nf_inuse := True\<rparr>) s1 in
               if \<not> nonblock then (Some a, s2)
               else if is_socket \<and> io_ioctl_ok io then (Some a, set_nonblock osfd s2)
               else
                 (case io_fcntl_fails io of
                    Some err \<Rightarrow> (None, st_netfd_free a (s2\<lparr>io_errno := err\<rparr>))
                  | None \<Rightarrow> (Some a, set_nonblock osfd s2))))"

definition st_netfd_open :: "io_os \<Rightarrow> int \<Rightarrow> st_io \<Rightarrow> nat option \<times> st_io" where
  "st_netfd_open io osfd = st_netfd_new io osfd True False"

definition st_netfd_open_socket :: "io_os \<Rightarrow> int \<Rightarrow> st_io \<Rightarrow> nat option \<times> st_io" where
  "st_netfd_open_socket io osfd = st_netfd_new io osfd True True"

definition sys_close :: "int \<Rightarrow> st_io \<Rightarrow> int \<times> st_io" where
  "sys_close osfd s =
     (if os_open s osfd = None then (-1, s\<lparr>io_errno := EBADF\<rparr>) else (0, s\<lparr>os_open := (os_open s)(osfd := None)\<rparr>))"

definition st_netfd_close :: "nat \<Rightarrow> st_io \<Rightarrow> int \<times> st_io" where
  "st_netfd_close a s =
     (case epoll_fd_close (nf_osfd (netfd s a)) (io_ep s) of
        Some err \<Rightarrow> (-1, s\<lparr>io_errno := err\<rparr>)
      | None \<Rightarrow> sys_close (nf_osfd (netfd s a)) (st_netfd_free a s))"

definition st_netfd_fileno :: "nat \<Rightarrow> st_io \<Rightarrow> int" where
  "st_netfd_fileno a s = nf_osfd (netfd s a)"

definition st_netfd_setspecific :: "nat \<Rightarrow> int \<Rightarrow> bool \<Rightarrow> st_io \<Rightarrow> st_io" where
  "st_netfd_setspecific a x destructor s =
     (let s1 = (if x \<noteq> nf_private_data (netfd s a) then netfd_destroy_data a s else s) in
      upd_netfd a (\<lambda>f. f\<lparr>nf_private_data := x, nf_destructor := destructor\<rparr>) s1)"

definition st_netfd_getspecific :: "nat \<Rightarrow> st_io \<Rightarrow> int" where
  "st_netfd_getspecific a s = nf_private_data (netfd s a)"

section \<open>Calls that wait\<close>

text \<open>
  \<^verbatim>\<open>st_netfd_poll\<close>, with the answer of \<^verbatim>\<open>st_poll\<close>: \<open>None\<close> for ready, or the error. When the list of the answers
  is at its end the call is still waiting.
\<close>

fun netfd_wait :: "int \<Rightarrow> poll_event list \<Rightarrow> (st_errno option \<times> poll_event list) option" where
  "netfd_wait timeout [] = None"
| "netfd_wait timeout (PollReady e # ps) = Some (None, ps)"
| "netfd_wait timeout (PollTimeout # ps) =
     (if timeout = St_Io.ST_UTIME_NO_TIMEOUT then netfd_wait timeout ps else Some (Some ETIME, ps))"
| "netfd_wait timeout (PollFail e # ps) = Some (Some e, ps)"
| "netfd_wait timeout (PollNval # ps) = Some (Some EBADF, ps)"

text \<open>
  The loop around \<^verbatim>\<open>accept\<close>, \<^verbatim>\<open>recvfrom\<close>, \<^verbatim>\<open>sendto\<close>, \<^verbatim>\<open>recvmsg\<close> and \<^verbatim>\<open>sendmsg\<close>: what the call
  gave at last, or the error; \<open>None\<close> while it waits.
\<close>

fun retry_loop :: "int \<Rightarrow> (st_errno + 'a) list \<Rightarrow> poll_event list \<Rightarrow> (st_errno + 'a) option" where
  "retry_loop timeout [] ps = None"
| "retry_loop timeout (Inr x # as) ps = Some (Inr x)"
| "retry_loop timeout (Inl e # as) ps =
     (if e = EINTR then retry_loop timeout as ps
      else if e \<noteq> EAGAIN then Some (Inl e)
      else
        (case netfd_wait timeout ps of
           None \<Rightarrow> None
         | Some (Some err, ps') \<Rightarrow> Some (Inl err)
         | Some (None, ps') \<Rightarrow> retry_loop timeout as ps'))"

text \<open>A descriptor for which no object can be made is closed again; the error stays.\<close>

definition new_or_close :: "io_os \<Rightarrow> int \<Rightarrow> bool \<Rightarrow> bool \<Rightarrow> st_io \<Rightarrow> nat option \<times> st_io" where
  "new_or_close io osfd nonblock is_socket s =
     (case st_netfd_new io osfd nonblock is_socket s of
        (Some a, s1) \<Rightarrow> (Some a, s1)
      | (None, s1) \<Rightarrow> (None, (snd (sys_close osfd s1))\<lparr>io_errno := io_errno s1\<rparr>))"

text \<open>An accepted socket is open and blocks.\<close>

definition st_accept :: "io_os \<Rightarrow> int \<Rightarrow> (st_errno + int) list \<Rightarrow> poll_event list \<Rightarrow> st_io \<Rightarrow> (nat option \<times> st_io) option" where
  "st_accept io timeout answers ps s =
     (case retry_loop timeout answers ps of
        None \<Rightarrow> None
      | Some (Inl err) \<Rightarrow> Some (None, s\<lparr>io_errno := err\<rparr>)
      | Some (Inr osfd) \<Rightarrow> Some (new_or_close io osfd True True (s\<lparr>os_open := (os_open s)(osfd \<mapsto> False)\<rparr>)))"

definition simple_io :: "int \<Rightarrow> (st_errno + int) list \<Rightarrow> poll_event list \<Rightarrow> st_io \<Rightarrow> (int \<times> st_io) option" where
  "simple_io timeout answers ps s =
     (case retry_loop timeout answers ps of
        None \<Rightarrow> None
      | Some (Inl err) \<Rightarrow> Some (-1, s\<lparr>io_errno := err\<rparr>)
      | Some (Inr n) \<Rightarrow> Some (n, s))"

definition st_recvfrom :: "int \<Rightarrow> (st_errno + int) list \<Rightarrow> poll_event list \<Rightarrow> st_io \<Rightarrow> (int \<times> st_io) option" where
  "st_recvfrom = simple_io"

definition st_sendto :: "int \<Rightarrow> (st_errno + int) list \<Rightarrow> poll_event list \<Rightarrow> st_io \<Rightarrow> (int \<times> st_io) option" where
  "st_sendto = simple_io"

definition st_recvmsg :: "int \<Rightarrow> (st_errno + int) list \<Rightarrow> poll_event list \<Rightarrow> st_io \<Rightarrow> (int \<times> st_io) option" where
  "st_recvmsg = simple_io"

definition st_sendmsg :: "int \<Rightarrow> (st_errno + int) list \<Rightarrow> poll_event list \<Rightarrow> st_io \<Rightarrow> (int \<times> st_io) option" where
  "st_sendmsg = simple_io"

text \<open>
  \<^verbatim>\<open>st_connect\<close>: the answers of \<^verbatim>\<open>connect\<close> (\<open>None\<close> for success); \<open>interrupted\<close> is the variable \<^verbatim>\<open>err\<close>; \<open>so_error\<close> is what
  \<^verbatim>\<open>getsockopt\<close> says after the wait. The result is the error, if any.
\<close>

fun connect_loop :: "int \<Rightarrow> st_errno option list \<Rightarrow> poll_event list \<Rightarrow> st_errno + st_errno option \<Rightarrow> bool \<Rightarrow> st_errno option option" where
  "connect_loop timeout [] ps so_error interrupted = None"
| "connect_loop timeout (None # as) ps so_error interrupted = Some None"
| "connect_loop timeout (Some e # as) ps so_error interrupted =
     (if e = EINTR then connect_loop timeout as ps so_error True
      else if e \<noteq> EINPROGRESS \<and> (e \<noteq> EADDRINUSE \<or> \<not> interrupted) then Some (Some e)
      else
        (case netfd_wait timeout ps of
           None \<Rightarrow> None
         | Some (Some err, ps') \<Rightarrow> Some (Some err)
         | Some (None, ps') \<Rightarrow> Some (case so_error of Inl err \<Rightarrow> Some err | Inr err \<Rightarrow> err)))"

definition st_connect :: "int \<Rightarrow> st_errno option list \<Rightarrow> poll_event list \<Rightarrow> st_errno + st_errno option \<Rightarrow> st_io \<Rightarrow> (int \<times> st_io) option" where
  "st_connect timeout answers ps so_error s =
     (case connect_loop timeout answers ps so_error False of
        None \<Rightarrow> None
      | Some (Some err) \<Rightarrow> Some (-1, s\<lparr>io_errno := err\<rparr>)
      | Some None \<Rightarrow> Some (0, s))"

text \<open>\<^verbatim>\<open>st_open\<close>: only an interrupted \<^verbatim>\<open>open\<close> is tried again; the descriptor does not block.\<close>

fun open_loop :: "(st_errno + int) list \<Rightarrow> (st_errno + int) option" where
  "open_loop [] = None"
| "open_loop (Inr osfd # as) = Some (Inr osfd)"
| "open_loop (Inl e # as) = (if e = EINTR then open_loop as else Some (Inl e))"

definition st_open :: "io_os \<Rightarrow> (st_errno + int) list \<Rightarrow> st_io \<Rightarrow> (nat option \<times> st_io) option" where
  "st_open io answers s =
     (case open_loop answers of
        None \<Rightarrow> None
      | Some (Inl err) \<Rightarrow> Some (None, s\<lparr>io_errno := err\<rparr>)
      | Some (Inr osfd) \<Rightarrow> Some (new_or_close io osfd False False (s\<lparr>os_open := (os_open s)(osfd \<mapsto> True)\<rparr>)))"

section \<open>The choice of the event system\<close>

datatype eventsys = EventSelect | EventPoll | EventEpoll

text \<open>The argument \<open>ST_EVENTSYS_ALT\<close> means epoll on Linux, if the kernel has it.\<close>

datatype eventsys_arg = ST_EVENTSYS_DEFAULT | ST_EVENTSYS_SELECT | ST_EVENTSYS_POLL | ST_EVENTSYS_ALT | ST_EVENTSYS_OTHER int

definition st_set_eventsys :: "bool \<Rightarrow> eventsys_arg \<Rightarrow> eventsys option \<Rightarrow> st_errno option \<times> eventsys option" where
  "st_set_eventsys epoll_supported arg current =
     (if current \<noteq> None then (Some EBUSY, current)
      else
        (case arg of
           ST_EVENTSYS_DEFAULT \<Rightarrow> (None, Some EventSelect)
         | ST_EVENTSYS_SELECT \<Rightarrow> (None, Some EventSelect)
         | ST_EVENTSYS_POLL \<Rightarrow> (None, Some EventPoll)
         | ST_EVENTSYS_ALT \<Rightarrow> (None, if epoll_supported then Some EventEpoll else current)
         | ST_EVENTSYS_OTHER _ \<Rightarrow> (Some EINVAL, current)))"

text \<open>
  \<^verbatim>\<open>_st_io_init\<close>: the limit of descriptors, from the limits of the event system and of the process; \<open>None\<close> if a
  system call fails.
\<close>

definition st_io_init :: "bool \<Rightarrow> int option \<Rightarrow> int \<Rightarrow> bool \<Rightarrow> int option" where
  "st_io_init sigaction_ok rlim_max event_limit setrlimit_ok =
     (case rlim_max of
        None \<Rightarrow> None
      | Some r \<Rightarrow>
          if \<not> sigaction_ok \<or> \<not> setrlimit_ok then None
          else Some (sint (word_of_int (if 0 < event_limit \<and> event_limit < r then event_limit else r) :: i32)))"

section \<open>The objects are accounted for\<close>

text \<open>An object is in use or on the free list, where it has no data.\<close>

definition netfds_ok :: "st_io \<Rightarrow> bool" where
  "netfds_ok s \<longleftrightarrow> distinct (netfd_freelist s) \<and>
     set (netfd_freelist s) = {a. a < netfd_next s \<and> \<not> nf_inuse (netfd s a)} \<and>
     (\<forall>a. netfd_next s \<le> a \<longrightarrow> \<not> nf_inuse (netfd s a)) \<and>
     (\<forall>a \<in> set (netfd_freelist s). nf_private_data (netfd s a) = 0 \<and> \<not> nf_destructor (netfd s a))"

definition in_use :: "st_io \<Rightarrow> nat set" where
  "in_use s = {a. nf_inuse (netfd s a)}"

lemma netfd_fields [simp]:
  "netfd (upd_netfd a f s) = (netfd s)(a := f (netfd s a))" "netfd_freelist (upd_netfd a f s) = netfd_freelist s"
  "netfd_next (upd_netfd a f s) = netfd_next s" "os_open (upd_netfd a f s) = os_open s" "io_ep (upd_netfd a f s) = io_ep s"
  "io_errno (upd_netfd a f s) = io_errno s"
  "netfd (netfd_destroy_data a s) = netfd s" "netfd_freelist (netfd_destroy_data a s) = netfd_freelist s"
  "netfd_next (netfd_destroy_data a s) = netfd_next s" "os_open (netfd_destroy_data a s) = os_open s"
  "io_ep (netfd_destroy_data a s) = io_ep s" "io_errno (netfd_destroy_data a s) = io_errno s"
  by (simp_all add: upd_netfd_def netfd_destroy_data_def)

lemma netfds_ok_cong:
  "netfd s' = netfd s \<Longrightarrow> netfd_freelist s' = netfd_freelist s \<Longrightarrow> netfd_next s' = netfd_next s \<Longrightarrow> netfds_ok s' = netfds_ok s"
  by (simp add: netfds_ok_def)

lemma netfd_free_ok:
  assumes "netfds_ok s"
  shows "netfds_ok (st_netfd_free a s)" and "in_use (st_netfd_free a s) = in_use s - {a}"
    and "os_open (st_netfd_free a s) = os_open s" "io_ep (st_netfd_free a s) = io_ep s" "io_errno (st_netfd_free a s) = io_errno s"
proof -
  have "a < netfd_next s" if "nf_inuse (netfd s a)" using assms that unfolding netfds_ok_def by (meson linorder_not_le)
  then show "netfds_ok (st_netfd_free a s)"
    using assms by (auto simp: netfds_ok_def st_netfd_free_def Let_def)
qed (auto simp: in_use_def st_netfd_free_def Let_def)

text \<open>Giving an object back twice does nothing.\<close>

lemma netfd_free_twice: "st_netfd_free a (st_netfd_free a s) = st_netfd_free a s"
  by (simp add: st_netfd_free_def Let_def)

lemma netfd_alloc_ok:
  assumes "netfds_ok s" and "netfd_alloc calloc_ok s = (Some a, s1)"
  shows "netfds_ok (upd_netfd a (\<lambda>f. f\<lparr>nf_osfd := osfd, nf_inuse := True\<rparr>) s1)" and "a \<notin> in_use s"
    and "in_use (upd_netfd a (\<lambda>f. f\<lparr>nf_osfd := osfd, nf_inuse := True\<rparr>) s1) = insert a (in_use s)"
    and "nf_private_data (netfd s1 a) = 0" and "os_open s1 = os_open s" "io_ep s1 = io_ep s"
proof -
  have *: "netfds_ok (upd_netfd a (\<lambda>f. f\<lparr>nf_osfd := osfd, nf_inuse := True\<rparr>) s1) \<and> a \<notin> in_use s \<and>
    in_use (upd_netfd a (\<lambda>f. f\<lparr>nf_osfd := osfd, nf_inuse := True\<rparr>) s1) = insert a (in_use s) \<and>
    nf_private_data (netfd s1 a) = 0 \<and> os_open s1 = os_open s \<and> io_ep s1 = io_ep s"
  proof (cases "netfd_freelist s")
    case Nil
    then have s1: "a = netfd_next s" "s1 = (upd_netfd (netfd_next s)
        (\<lambda>_. \<lparr>nf_osfd = 0, nf_inuse = False, nf_private_data = 0, nf_destructor = False\<rparr>) s)\<lparr>netfd_next := Suc (netfd_next s)\<rparr>"
      using assms(2) by (auto simp: netfd_alloc_def split: if_splits)
    have used: "b < netfd_next s \<Longrightarrow> nf_inuse (netfd s b)" for b using assms(1) Nil by (auto simp: netfds_ok_def)
    have "{b. b < Suc (netfd_next s) \<and> \<not> nf_inuse (((netfd s)(netfd_next s := x)) b)} = {}" if "nf_inuse x" for x
      using used that by (auto simp: less_Suc_eq)
    then show ?thesis using assms(1) Nil by (auto simp: s1 netfds_ok_def in_use_def)
  next
    case (Cons b q)
    then have s1: "a = b" "s1 = s\<lparr>netfd_freelist := q\<rparr>" using assms(2) by (auto simp: netfd_alloc_def)
    have free: "b < netfd_next s" "\<not> nf_inuse (netfd s b)" "b \<notin> set q" "set q = {c. c < netfd_next s \<and> \<not> nf_inuse (netfd s c)} - {b}"
      using assms(1) Cons by (auto simp: netfds_ok_def)
    then show ?thesis using assms(1) Cons by (auto simp: s1 netfds_ok_def in_use_def)
  qed
  then show "netfds_ok (upd_netfd a (\<lambda>f. f\<lparr>nf_osfd := osfd, nf_inuse := True\<rparr>) s1)" "a \<notin> in_use s"
    "in_use (upd_netfd a (\<lambda>f. f\<lparr>nf_osfd := osfd, nf_inuse := True\<rparr>) s1) = insert a (in_use s)"
    "nf_private_data (netfd s1 a) = 0" "os_open s1 = os_open s" "io_ep s1 = io_ep s" by blast+
qed

text \<open>The objects that are in use stay as they are.\<close>

definition users_same :: "st_io \<Rightarrow> st_io \<Rightarrow> bool" where
  "users_same s s' \<longleftrightarrow> (\<forall>b \<in> in_use s. netfd s' b = netfd s b)"

lemma netfd_alloc_users:
  assumes "netfds_ok s" and "netfd_alloc calloc_ok s = (r, s1)"
  shows "users_same s s1"
proof -
  have "\<not> nf_inuse (netfd s (netfd_next s))" using assms(1) by (simp add: netfds_ok_def)
  then show ?thesis using assms(2) by (auto simp: users_same_def netfd_alloc_def in_use_def split: list.splits if_splits)
qed

lemma netfd_alloc_fails: "netfd_alloc calloc_ok s = (None, s1) \<Longrightarrow> s1 = s\<lparr>io_errno := ENOMEM\<rparr>"
  by (auto simp: netfd_alloc_def split: list.splits if_splits)

definition obtained :: "nat option \<Rightarrow> int \<Rightarrow> (int \<Rightarrow> bool option) \<Rightarrow> st_io \<Rightarrow> st_io \<Rightarrow> bool" where
  "obtained r osfd opened s s' \<longleftrightarrow> netfds_ok s' \<and> users_same s s' \<and>
     (case r of
        None \<Rightarrow> in_use s' = in_use s
      | Some a \<Rightarrow> a \<notin> in_use s \<and> in_use s' = insert a (in_use s) \<and> nf_osfd (netfd s' a) = osfd \<and>
          nf_private_data (netfd s' a) = 0 \<and> os_open s' = opened)"

lemma netfd_new_ok:
  assumes ok: "netfds_ok s" and run: "st_netfd_new io osfd nonblock is_socket s = (r, s')"
  shows "obtained r osfd (if nonblock then (os_open s)(osfd \<mapsto> True) else os_open s) s s'" and "r = None \<Longrightarrow> os_open s' = os_open s"
proof -
  obtain b e where e: "event_fd_new io osfd (io_ep s) = (b, e)" by (cases "event_fd_new io osfd (io_ep s)")
  have "obtained r osfd (if nonblock then (os_open s)(osfd \<mapsto> True) else os_open s) s s' \<and> (r = None \<longrightarrow> os_open s' = os_open s)"
  proof (cases b)
    case False
    then have "r = None" "s' = s\<lparr>io_ep := e, io_errno := ENOMEM\<rparr>" using run e by (auto simp: st_netfd_new_def)
    then show ?thesis using ok netfds_ok_cong [of s' s] by (simp add: obtained_def users_same_def in_use_def)
  next
    case True
    define s0 where "s0 = s\<lparr>io_ep := e\<rparr>"
    have ok0: "netfds_ok s0" and same: "in_use s0 = in_use s" "os_open s0 = os_open s" "\<And>s1. users_same s0 s1 = users_same s s1"
      "netfd s0 = netfd s"
      using ok netfds_ok_cong [of s0 s] by (simp_all add: s0_def in_use_def users_same_def)
    obtain r1 s1 where alloc: "netfd_alloc (io_calloc_ok io) s0 = (r1, s1)" by (cases "netfd_alloc (io_calloc_ok io) s0")
    show ?thesis
    proof (cases r1)
      case None
      then have "r = None" "s' = s0\<lparr>io_errno := ENOMEM\<rparr>"
        using run e True alloc netfd_alloc_fails [of "io_calloc_ok io" s0 s1] by (auto simp: st_netfd_new_def s0_def)
      then show ?thesis using ok0 same netfds_ok_cong [of s' s0] by (simp add: obtained_def users_same_def in_use_def)
    next
      case (Some a)
      note al = netfd_alloc_ok [OF ok0 alloc [unfolded Some]] and users = netfd_alloc_users [OF ok0 alloc]
      define s2 where "s2 = upd_netfd a (\<lambda>f. f\<lparr>nf_osfd := osfd, nf_inuse := True\<rparr>) s1"
      have s2: "netfds_ok s2" "a \<notin> in_use s" "in_use s2 = insert a (in_use s)" "os_open s2 = os_open s"
        "nf_osfd (netfd s2 a) = osfd" "nf_private_data (netfd s2 a) = 0" "users_same s s2"
        using al users same by (auto simp: s2_def users_same_def)
      have set: "obtained (Some a) osfd ((os_open s)(osfd \<mapsto> True)) s (set_nonblock osfd s2)"
        using s2 netfds_ok_cong [of "set_nonblock osfd s2" s2] by (simp add: obtained_def set_nonblock_def in_use_def users_same_def)
      have plain: "obtained (Some a) osfd (os_open s) s s2" using s2 by (simp add: obtained_def)
      have undo: "obtained None osfd X s (st_netfd_free a (s2\<lparr>io_errno := err\<rparr>)) \<and>
          os_open (st_netfd_free a (s2\<lparr>io_errno := err\<rparr>)) = os_open s" for err X
      proof -
        have okf: "netfds_ok (s2\<lparr>io_errno := err\<rparr>)" using s2(1) netfds_ok_cong [of "s2\<lparr>io_errno := err\<rparr>" s2] by simp
        have "netfd (st_netfd_free a (s2\<lparr>io_errno := err\<rparr>)) b = netfd s2 b" if "b \<noteq> a" for b
          using that by (simp add: st_netfd_free_def Let_def)
        then have "users_same s (st_netfd_free a (s2\<lparr>io_errno := err\<rparr>))"
          using s2(2,7) by (metis (no_types, lifting) users_same_def)
        moreover have "in_use (s2\<lparr>io_errno := err\<rparr>) - {a} = in_use s" using s2(2,3) by (auto simp: in_use_def)
        ultimately show ?thesis using netfd_free_ok [OF okf, of a] s2(4) by (simp add: obtained_def)
      qed
      show ?thesis
        using run e True alloc Some set plain undo
        by (auto simp: st_netfd_new_def s0_def [symmetric] s2_def [symmetric] Let_def split: if_splits option.splits)
    qed
  qed
  then show "obtained r osfd (if nonblock then (os_open s)(osfd \<mapsto> True) else os_open s) s s'" "r = None \<Longrightarrow> os_open s' = os_open s"
    by blast+
qed

lemma new_or_close_ok:
  assumes ok: "netfds_ok s" and run: "new_or_close io osfd nonblock is_socket s = (r, s')" and opened: "os_open s osfd \<noteq> None"
  shows "obtained r osfd (if nonblock then (os_open s)(osfd \<mapsto> True) else os_open s) s s'"
    and "r = None \<Longrightarrow> os_open s' = (os_open s)(osfd := None)"
proof -
  obtain r1 s1 where new: "st_netfd_new io osfd nonblock is_socket s = (r1, s1)" by (cases "st_netfd_new io osfd nonblock is_socket s")
  note n = netfd_new_ok [OF ok new]
  have "obtained r osfd (if nonblock then (os_open s)(osfd \<mapsto> True) else os_open s) s s' \<and>
    (r = None \<longrightarrow> os_open s' = (os_open s)(osfd := None))"
  proof (cases r1)
    case None
    then have "r = None" "s' = (s1\<lparr>os_open := (os_open s1)(osfd := None)\<rparr>)\<lparr>io_errno := io_errno s1\<rparr>"
      using run new n(2) opened by (auto simp: new_or_close_def sys_close_def)
    then show ?thesis using n None netfds_ok_cong [of s' s1] by (simp add: obtained_def in_use_def users_same_def)
  qed (use run new n in \<open>auto simp: new_or_close_def\<close>)
  then show "obtained r osfd (if nonblock then (os_open s)(osfd \<mapsto> True) else os_open s) s s'"
    "r = None \<Longrightarrow> os_open s' = (os_open s)(osfd := None)" by blast+
qed

text \<open>
  \<^verbatim>\<open>st_accept\<close>: either a fresh object for the new descriptor, which does not block, or an error, and then no
  descriptor is left open. The kernel gives out descriptors that are not open.
\<close>

theorem accept_ok:
  assumes ok: "netfds_ok s" and run: "st_accept io timeout answers ps s = Some (r, s')"
    and fresh: "\<forall>osfd. Inr osfd \<in> set answers \<longrightarrow> os_open s osfd = None"
  shows "netfds_ok s' \<and> users_same s s' \<and>
    (case r of
       None \<Rightarrow> in_use s' = in_use s \<and> os_open s' = os_open s
     | Some a \<Rightarrow> a \<notin> in_use s \<and> in_use s' = insert a (in_use s) \<and> nf_private_data (netfd s' a) = 0 \<and>
         Inr (nf_osfd (netfd s' a)) \<in> set answers \<and> os_open s' = (os_open s)(nf_osfd (netfd s' a) \<mapsto> True))"
proof -
  have inr: "retry_loop timeout as qs = Some (Inr osfd) \<Longrightarrow> Inr osfd \<in> set as" for as qs osfd
    by (induction timeout as qs rule: retry_loop.induct) (auto split: if_splits option.splits)
  obtain x where loop: "retry_loop timeout answers ps = Some x" using run by (auto simp: st_accept_def split: option.splits)
  show ?thesis
  proof (cases x)
    case (Inl err)
    then have "r = None" "s' = s\<lparr>io_errno := err\<rparr>" using run loop by (auto simp: st_accept_def)
    then show ?thesis using ok netfds_ok_cong [of s' s] by (simp add: in_use_def users_same_def)
  next
    case (Inr osfd)
    define s0 where "s0 = s\<lparr>os_open := (os_open s)(osfd \<mapsto> False)\<rparr>"
    have mem: "Inr osfd \<in> set answers" using inr loop Inr by simp
    then have none: "os_open s osfd = None" using fresh by blast
    have new: "new_or_close io osfd True True s0 = (r, s')" using run loop Inr by (simp add: st_accept_def s0_def)
    have ok0: "netfds_ok s0" and same: "in_use s0 = in_use s" "users_same s0 s' = users_same s s'"
      using ok netfds_ok_cong [of s0 s] by (simp_all add: s0_def in_use_def users_same_def)
    have o: "obtained r osfd ((os_open s)(osfd \<mapsto> True)) s0 s'" "r = None \<Longrightarrow> os_open s' = (os_open s)(osfd := None)"
      using new_or_close_ok [OF ok0 new] by (simp_all add: s0_def)
    have closed: "(os_open s)(osfd := None) = os_open s" using none by (simp add: fun_upd_idem)
    show ?thesis
      by (cases r) (use o closed same mem in \<open>auto simp: obtained_def\<close>)
  qed
qed

text \<open>\<^verbatim>\<open>st_netfd_close\<close> is refused while a thread waits for the descriptor.\<close>

lemma netfd_close_ok:
  assumes ok: "netfds_ok s" and run: "st_netfd_close a s = (rv, s')"
  shows "if epoll_fd_close (nf_osfd (netfd s a)) (io_ep s) \<noteq> None then rv = -1 \<and> s' = s\<lparr>io_errno := EBUSY\<rparr>
    else netfds_ok s' \<and> in_use s' = in_use s - {a} \<and> os_open s' = (os_open s)(nf_osfd (netfd s a) := None)"
proof (cases "epoll_fd_close (nf_osfd (netfd s a)) (io_ep s)")
  case (Some err)
  then show ?thesis using run by (auto simp: st_netfd_close_def epoll_fd_close_def split: if_splits)
next
  case None
  note f = netfd_free_ok [OF ok, of a]
  have s': "netfd s' = netfd (st_netfd_free a s)" "netfd_freelist s' = netfd_freelist (st_netfd_free a s)"
    "netfd_next s' = netfd_next (st_netfd_free a s)" "os_open s' = (os_open s)(nf_osfd (netfd s a) := None)"
    using run None f(3) by (auto simp: st_netfd_close_def sys_close_def fun_upd_idem split: if_splits)
  then show ?thesis using None f(1,2) netfds_ok_cong [of s' "st_netfd_free a s"] by (simp add: in_use_def)
qed

end
