(* ===== verification/St_Event_Alt.thy ===== *)
theory St_Event_Alt
  imports St_Event_Correct
begin

text \<open>
  The other event systems of \<^verbatim>\<open>event.c\<close> that Linux has: \<^verbatim>\<open>select\<close> and \<^verbatim>\<open>poll\<close>. Their data is a second component of the state. What all
  event systems promise about adding and deleting descriptor sets is the locale \<open>event_system\<close>.
\<close>

section \<open>Waking a thread that polls\<close>

text \<open>The thread leaves the I/O queue with the results of its request.\<close>

definition leave_io_q :: "tid \<Rightarrow> pollfd list \<Rightarrow> st_vp \<Rightarrow> st_vp option" where
  "leave_io_q a pds s =
     wake_up a (upd a (\<lambda>t. t\<lparr>t_pollq := \<lparr>pq_pds = pds, pq_on_ioq = False\<rparr>\<rparr>) (s\<lparr>io_q := remove1 a (io_q s)\<rparr>))"

definition write_results :: "tid \<Rightarrow> pollfd list \<Rightarrow> st_vp \<Rightarrow> st_vp" where
  "write_results a pds s = upd a (\<lambda>t. t\<lparr>t_pollq := (t_pollq t)\<lparr>pq_pds := pds\<rparr>\<rparr>) s"

section \<open>The select event system\<close>

abbreviation FD_SETSIZE :: int where "FD_SETSIZE \<equiv> 1024"

text \<open>\<^verbatim>\<open>struct _st_seldata\<close>: the three descriptor sets, the three reference counts and the greatest descriptor.\<close>

record st_seldata =
  fd_read_set :: "int set"
  fd_write_set :: "int set"
  fd_exception_set :: "int set"
  sel_read_cnt :: "int \<Rightarrow> int"
  sel_write_cnt :: "int \<Rightarrow> int"
  sel_excep_cnt :: "int \<Rightarrow> int"
  sel_maxfd :: int

definition select_init :: "bool \<Rightarrow> st_seldata option" where
  "select_init malloc_ok =
     (if malloc_ok
      then Some \<lparr>fd_read_set = {}, fd_write_set = {}, fd_exception_set = {}, sel_read_cnt = (\<lambda>_. 0), sel_write_cnt = (\<lambda>_. 0),
             sel_excep_cnt = (\<lambda>_. 0), sel_maxfd = -1\<rparr>
      else None)"

definition select_add_one :: "pollfd \<Rightarrow> st_seldata \<Rightarrow> st_seldata" where
  "select_add_one pd d =
     (let fd = pd_fd pd;
          d1 = (if POLLIN \<in> pd_events pd
                then d\<lparr>fd_read_set := insert fd (fd_read_set d), sel_read_cnt := (sel_read_cnt d)(fd := sel_read_cnt d fd + 1)\<rparr> else d);
          d2 = (if POLLOUT \<in> pd_events pd
                then d1\<lparr>fd_write_set := insert fd (fd_write_set d1), sel_write_cnt := (sel_write_cnt d1)(fd := sel_write_cnt d1 fd + 1)\<rparr> else d1);
          d3 = (if POLLPRI \<in> pd_events pd
                then d2\<lparr>fd_exception_set := insert fd (fd_exception_set d2), sel_excep_cnt := (sel_excep_cnt d2)(fd := sel_excep_cnt d2 fd + 1)\<rparr> else d2) in
      if sel_maxfd d3 < fd then d3\<lparr>sel_maxfd := fd\<rparr> else d3)"

definition select_pollset_add :: "pollfd list \<Rightarrow> st_seldata \<Rightarrow> st_errno option \<times> st_seldata" where
  "select_pollset_add pds d =
     (if \<exists>pd \<in> set pds. pd_fd pd < 0 \<or> FD_SETSIZE \<le> pd_fd pd \<or> pd_events pd = {} \<or> \<not> pd_events pd \<subseteq> {POLLIN, POLLOUT, POLLPRI}
      then (Some EINVAL, d) else (None, fold select_add_one pds d))"

definition select_del_one :: "pollfd \<Rightarrow> st_seldata \<Rightarrow> st_seldata" where
  "select_del_one pd d =
     (let fd = pd_fd pd;
          d1 = (if POLLIN \<in> pd_events pd
                then let e = d\<lparr>sel_read_cnt := (sel_read_cnt d)(fd := sel_read_cnt d fd - 1)\<rparr> in
                     if sel_read_cnt e fd = 0 then e\<lparr>fd_read_set := fd_read_set e - {fd}\<rparr> else e
                else d);
          d2 = (if POLLOUT \<in> pd_events pd
                then let e = d1\<lparr>sel_write_cnt := (sel_write_cnt d1)(fd := sel_write_cnt d1 fd - 1)\<rparr> in
                     if sel_write_cnt e fd = 0 then e\<lparr>fd_write_set := fd_write_set e - {fd}\<rparr> else e
                else d1) in
      (if POLLPRI \<in> pd_events pd
       then let e = d2\<lparr>sel_excep_cnt := (sel_excep_cnt d2)(fd := sel_excep_cnt d2 fd - 1)\<rparr> in
            if sel_excep_cnt e fd = 0 then e\<lparr>fd_exception_set := fd_exception_set e - {fd}\<rparr> else e
       else d2))"

definition select_pollset_del :: "pollfd list \<Rightarrow> st_seldata \<Rightarrow> st_seldata" where
  "select_pollset_del pds d = fold select_del_one pds d"

definition select_fd_new :: "int \<Rightarrow> st_errno option" where
  "select_fd_new osfd = (if FD_SETSIZE \<le> osfd then Some EMFILE else None)"

definition select_fd_close :: "int \<Rightarrow> st_seldata \<Rightarrow> st_errno option" where
  "select_fd_close osfd d =
     (if sel_read_cnt d osfd \<noteq> 0 \<or> sel_write_cnt d osfd \<noteq> 0 \<or> sel_excep_cnt d osfd \<noteq> 0 then Some EBUSY else None)"

definition select_fd_getlimit :: int where
  "select_fd_getlimit = FD_SETSIZE"

text \<open>The result for a descriptor, from the sets that \<^verbatim>\<open>select\<close> leaves, or from the descriptors that are not open.\<close>

definition select_result :: "int set \<Rightarrow> int set \<Rightarrow> int set \<Rightarrow> pollfd \<Rightarrow> pollfd" where
  "select_result r w x pd =
     pd\<lparr>pd_revents :=
       (if POLLIN \<in> pd_events pd \<and> pd_fd pd \<in> r then {POLLIN} else {}) \<union>
       (if POLLOUT \<in> pd_events pd \<and> pd_fd pd \<in> w then {POLLOUT} else {}) \<union>
       (if POLLPRI \<in> pd_events pd \<and> pd_fd pd \<in> x then {POLLPRI} else {})\<rparr>"

definition bad_fd_result :: "int set \<Rightarrow> pollfd \<Rightarrow> pollfd" where
  "bad_fd_result bad pd = pd\<lparr>pd_revents := (if pd_events pd \<noteq> {} \<and> pd_fd pd \<in> bad then {POLLNVAL} else {})\<rparr>"

definition max_osfd :: "pollfd list \<Rightarrow> int" where
  "max_osfd pds = fold (\<lambda>pd m. max m (pd_fd pd)) pds (-1)"

text \<open>
  The loop over the I/O queue, which \<^verbatim>\<open>_st_select_dispatch\<close> and \<^verbatim>\<open>_st_select_find_bad_fd\<close> have in common; the latter leaves
  entries without events out.
\<close>

definition select_notify_one :: "(pollfd \<Rightarrow> pollfd) \<Rightarrow> bool \<Rightarrow> tid \<Rightarrow> st_seldata \<times> st_vp \<Rightarrow> (st_seldata \<times> st_vp) option" where
  "select_notify_one answer skip a ds =
     (let (d, s) = ds; pds = map answer (pq_pds (t_pollq (threads s a))) in
      if \<exists>pd \<in> set pds. pd_revents pd \<noteq> {}
      then map_option (Pair (select_pollset_del pds d)) (leave_io_q a pds s)
      else Some (d\<lparr>sel_maxfd := max (sel_maxfd d) (max_osfd (filter (\<lambda>pd. skip \<longrightarrow> pd_events pd \<noteq> {}) pds))\<rparr>, write_results a pds s))"

fun select_notify_all :: "(pollfd \<Rightarrow> pollfd) \<Rightarrow> bool \<Rightarrow> tid list \<Rightarrow> st_seldata \<times> st_vp \<Rightarrow> (st_seldata \<times> st_vp) option" where
  "select_notify_all answer skip [] ds = Some ds"
| "select_notify_all answer skip (a # as) ds =
     (case select_notify_one answer skip a ds of None \<Rightarrow> None | Some ds' \<Rightarrow> select_notify_all answer skip as ds')"

definition select_find_bad_fd :: "int set \<Rightarrow> st_seldata \<times> st_vp \<Rightarrow> (st_seldata \<times> st_vp) option" where
  "select_find_bad_fd bad ds = select_notify_all (bad_fd_result bad) True (io_q (snd ds)) ((fst ds)\<lparr>sel_maxfd := -1\<rparr>, snd ds)"

text \<open>What \<^verbatim>\<open>select\<close> says, and its arguments: the greatest descriptor, and the time to wait in seconds and microseconds.\<close>

datatype select_answer = SelectReady "int set" "int set" "int set" | SelectTimeout | SelectError st_errno "int set"

definition select_timeout :: "st_vp \<Rightarrow> (int \<times> int) option" where
  "select_timeout s =
     (case sleep_q s of
        None \<Rightarrow> None
      | Some a \<Rightarrow> Some (sint (ucast (min_timeout s a div 1000000) :: i32), sint (ucast (min_timeout s a mod 1000000) :: i32)))"

definition select_dispatch :: "select_answer \<Rightarrow> st_seldata \<times> st_vp \<Rightarrow> (st_seldata \<times> st_vp) option" where
  "select_dispatch answer ds =
     (case answer of
        SelectReady r w x \<Rightarrow> select_notify_all (select_result r w x) False (io_q (snd ds)) ((fst ds)\<lparr>sel_maxfd := -1\<rparr>, snd ds)
      | SelectTimeout \<Rightarrow> Some ds
      | SelectError e bad \<Rightarrow> if e = EBADF then select_find_bad_fd bad ds else Some ds)"

section \<open>The poll event system\<close>

abbreviation ST_MIN_POLLFDS_SIZE :: int where "ST_MIN_POLLFDS_SIZE \<equiv> 64"

record st_polldata =
  pollfds_size :: int
  poll_osfd_cnt :: int

definition poll_init :: "bool \<Rightarrow> bool \<Rightarrow> st_polldata option" where
  "poll_init malloc_ok pollfds_ok =
     (if malloc_ok \<and> pollfds_ok then Some \<lparr>pollfds_size = ST_MIN_POLLFDS_SIZE, poll_osfd_cnt = 0\<rparr> else None)"

definition poll_pollset_add :: "pollfd list \<Rightarrow> st_polldata \<Rightarrow> st_errno option \<times> st_polldata" where
  "poll_pollset_add pds d =
     (if \<exists>pd \<in> set pds. pd_fd pd < 0 \<or> pd_events pd = {} then (Some EINVAL, d)
      else (None, d\<lparr>poll_osfd_cnt := poll_osfd_cnt d + int (length pds)\<rparr>))"

text \<open>\<open>None\<close> is an assertion that fails.\<close>

definition poll_pollset_del :: "pollfd list \<Rightarrow> st_polldata \<Rightarrow> st_polldata option" where
  "poll_pollset_del pds d =
     (let n = poll_osfd_cnt d - int (length pds) in if 0 \<le> n then Some (d\<lparr>poll_osfd_cnt := n\<rparr>) else None)"

text \<open>\<^verbatim>\<open>poll\<close> answers for the first \<open>n\<close> entries of the array; \<open>ready\<close> is what holds of a descriptor.\<close>

definition poll_answer :: "(int \<Rightarrow> poll_bits) \<Rightarrow> pollfd \<Rightarrow> pollfd" where
  "poll_answer ready pd = pd\<lparr>pd_revents := ready (pd_fd pd) \<inter> (pd_events pd \<union> {POLLERR, POLLHUP, POLLNVAL})\<rparr>"

definition sys_poll :: "(int \<Rightarrow> poll_bits) \<Rightarrow> int \<Rightarrow> pollfd list \<Rightarrow> pollfd list" where
  "sys_poll ready n pds = map (poll_answer ready) (take (nat n) pds) @ drop (nat n) pds"

fun poll_notify_all :: "tid list \<Rightarrow> pollfd list \<Rightarrow> st_polldata \<times> st_vp \<Rightarrow> (st_polldata \<times> st_vp) option" where
  "poll_notify_all [] pollfds ds = Some ds"
| "poll_notify_all (a # as) pollfds ds =
     (let (d, s) = ds; n = length (pq_pds (t_pollq (threads s a))); pds = take n pollfds in
      if \<exists>pd \<in> set pds. pd_revents pd \<noteq> {}
      then
        (case leave_io_q a pds s of
           None \<Rightarrow> None
         | Some s1 \<Rightarrow>
             (case poll_pollset_del pds d of
                None \<Rightarrow> None
              | Some d1 \<Rightarrow> poll_notify_all as (drop n pollfds) (d1, s1)))
      else poll_notify_all as (drop n pollfds) ds)"

text \<open>The array is built anew if it is too small; \<open>ready\<close> is \<open>None\<close> if \<^verbatim>\<open>poll\<close> reports nothing or fails.\<close>

definition poll_dispatch :: "bool \<Rightarrow> (int \<Rightarrow> poll_bits) option \<Rightarrow> st_polldata \<times> st_vp \<Rightarrow> (st_polldata \<times> st_vp) option" where
  "poll_dispatch malloc_ok ready ds =
     (let (d, s) = ds; n = poll_osfd_cnt d;
          d1 = (if pollfds_size d < n then d\<lparr>pollfds_size := n + 10\<rparr> else d);
          pollfds = concat (map (\<lambda>a. pq_pds (t_pollq (threads s a))) (io_q s)) in
      if n < 0 \<or> pollfds_size d < n \<and> \<not> malloc_ok \<or> pollfds_size d1 < int (length pollfds) then None
      else
        (case ready of
           None \<Rightarrow> Some (d1, s)
         | Some r \<Rightarrow> poll_notify_all (io_q s) (sys_poll r n pollfds) (d1, s)))"

definition poll_fd_close :: "int \<Rightarrow> st_errno option" where
  "poll_fd_close osfd = None"

end
