(* ===== verification/St_Event_Alt_Correct.thy ===== *)
theory St_Event_Alt_Correct
  imports St_Event_Alt
begin

text \<open>
  The contract of the event systems, and that \<^verbatim>\<open>select\<close>, \<^verbatim>\<open>poll\<close> and epoll fulfil it; then the dispatching of the first two: exactly
  the threads one of whose requests is answered wake.
\<close>

section \<open>Adding and deleting descriptor sets\<close>

text \<open>What the library relies on: the data holds the sets that were added and not deleted yet.\<close>

locale event_system =
  fixes add :: "pollfd list \<Rightarrow> 'd \<Rightarrow> bool \<times> 'd" and del :: "pollfd list \<Rightarrow> 'd \<Rightarrow> 'd" and holds :: "pollfd list \<Rightarrow> 'd \<Rightarrow> bool"
  assumes add_ok: "holds q d \<Longrightarrow> add pds d = (True, d') \<Longrightarrow> holds (q @ pds) d'"
    and add_fails: "holds q d \<Longrightarrow> add pds d = (False, d') \<Longrightarrow> holds q d'"
    and del_ok: "holds (q1 @ pds @ q2) d \<Longrightarrow> holds (q1 @ q2) (del pds d)"

text \<open>A history: sets are added, and those that were added are deleted in any order.\<close>

datatype set_op = AddSet "pollfd list" | DelSet nat

fun run_set_op :: "(pollfd list \<Rightarrow> 'd \<Rightarrow> bool \<times> 'd) \<Rightarrow> (pollfd list \<Rightarrow> 'd \<Rightarrow> 'd) \<Rightarrow> set_op \<Rightarrow> pollfd list list \<times> 'd \<Rightarrow> pollfd list list \<times> 'd" where
  "run_set_op add del (AddSet pds) (out, d) = (case add pds d of (ok, d') \<Rightarrow> (if ok then out @ [pds] else out, d'))"
| "run_set_op add del (DelSet i) (out, d) =
     (if i < length out then (take i out @ drop (Suc i) out, del (out ! i) d) else (out, d))"

context event_system
begin

lemma run_op: "holds (concat out) d \<Longrightarrow> run_set_op add del x (out, d) = (out', d') \<Longrightarrow> holds (concat out') d'"
proof (cases x)
  case (AddSet pds)
  obtain ok d1 where a: "add pds d = (ok, d1)" by fastforce
  assume "holds (concat out) d" and run: "run_set_op add del x (out, d) = (out', d')"
  then show ?thesis
    using a AddSet add_ok [of "concat out" d pds d1] add_fails [of "concat out" d pds d1] by (auto split: if_splits)
next
  case (DelSet i)
  assume h: "holds (concat out) d" and run: "run_set_op add del x (out, d) = (out', d')"
  show ?thesis
  proof (cases "i < length out")
    case True
    have "concat out = concat (take i out) @ out ! i @ concat (drop (Suc i) out)"
      using id_take_nth_drop [OF True] by (metis concat.simps(2) concat_append)
    then show ?thesis using True h run DelSet del_ok by auto
  qed (use h run DelSet in auto)
qed

theorem run_history:
  "holds (concat out) d \<Longrightarrow> fold (run_set_op add del) xs (out, d) = (out', d') \<Longrightarrow> holds (concat out') d'"
proof (induction xs arbitrary: out d)
  case (Cons x xs)
  obtain out1 d1 where x: "run_set_op add del x (out, d) = (out1, d1)" by fastforce
  then show ?case using Cons run_op [OF Cons.prems(1) x] by simp
qed simp

end

subsection \<open>Epoll\<close>

definition epoll_add :: "st_os \<Rightarrow> pollfd list \<Rightarrow> st_epolldata \<Rightarrow> bool \<times> st_epolldata" where
  "epoll_add os pds e = (case epoll_pollset_add os pds e of (r, e') \<Rightarrow> (r = None, e'))"

definition epoll_holds :: "st_os \<Rightarrow> pollfd list \<Rightarrow> st_epolldata \<Rightarrow> bool" where
  "epoll_holds os q e \<longleftrightarrow> os_ok os \<and> ep_fits {} (reqs q) (reqs q) e \<and> in_array (reqs q) e"

lemma reqs_add: "reqs (q @ pds) = also_reqs pds (reqs q)" "reqs (q1 @ pds @ q2) = also_reqs pds (reqs (q1 @ q2))"
  by (simp_all add: also_reqs_def reqs_append fun_eq_iff)

interpretation epoll_system: event_system "epoll_add os" "epoll_pollset_del os" "epoll_holds os" for os
proof
  fix q pds e e'
  show "epoll_holds os (q @ pds) e'" if "epoll_holds os q e" "epoll_add os pds e = (True, e')"
  proof -
    obtain r e1 where run: "epoll_pollset_add os pds e = (r, e1)" by fastforce
    then show ?thesis
      using that pollset_add_ok [OF _ _ _ run, of "reqs q"] by (simp add: epoll_holds_def epoll_add_def reqs_add)
  qed
  show "epoll_holds os q e'" if "epoll_holds os q e" "epoll_add os pds e = (False, e')"
  proof -
    obtain r e1 where run: "epoll_pollset_add os pds e = (r, e1)" by fastforce
    then show ?thesis
      using that pollset_add_ok [OF _ _ _ run, of "reqs q"] by (auto simp: epoll_holds_def epoll_add_def)
  qed
next
  fix q1 pds q2 e
  assume h: "epoll_holds os (q1 @ pds @ q2) e"
  then have "ep_fits {} (reqs (q1 @ q2)) (reqs (q1 @ q2)) (epoll_pollset_del os pds e)"
    using pollset_del_ok [of "{}" pds "reqs (q1 @ q2)" e os] by (simp only: epoll_holds_def reqs_add(2))
  moreover have "in_array (reqs (q1 @ q2)) (epoll_pollset_del os pds e)"
    using h by (auto simp: epoll_holds_def in_array_def pollset_del_size reqs_add(2) also_reqs_def)
  ultimately show "epoll_holds os (q1 @ q2) (epoll_pollset_del os pds e)" using h by (simp add: epoll_holds_def)
qed

subsection \<open>Select\<close>

definition select_counts :: "requests \<Rightarrow> st_seldata \<Rightarrow> bool" where
  "select_counts N d \<longleftrightarrow> (\<forall>fd. sel_read_cnt d fd = int (N POLLIN fd) \<and> sel_write_cnt d fd = int (N POLLOUT fd) \<and>
     sel_excep_cnt d fd = int (N POLLPRI fd)) \<and>
     fd_read_set d = {fd. N POLLIN fd \<noteq> 0} \<and> fd_write_set d = {fd. N POLLOUT fd \<noteq> 0} \<and> fd_exception_set d = {fd. N POLLPRI fd \<noteq> 0}"

definition select_add :: "pollfd list \<Rightarrow> st_seldata \<Rightarrow> bool \<times> st_seldata" where
  "select_add pds d = (case select_pollset_add pds d of (r, d') \<Rightarrow> (r = None, d'))"

definition select_holds :: "pollfd list \<Rightarrow> st_seldata \<Rightarrow> bool" where
  "select_holds q d \<longleftrightarrow> select_counts (reqs q) d \<and> (\<forall>pd \<in> set q. valid_pd pd \<and> pd_fd pd < FD_SETSIZE \<and> pd_fd pd \<le> sel_maxfd d)"

lemma select_add_one_fields:
  "sel_read_cnt (select_add_one pd d) fd = sel_read_cnt d fd + of_bool (pd_fd pd = fd \<and> POLLIN \<in> pd_events pd)"
  "sel_write_cnt (select_add_one pd d) fd = sel_write_cnt d fd + of_bool (pd_fd pd = fd \<and> POLLOUT \<in> pd_events pd)"
  "sel_excep_cnt (select_add_one pd d) fd = sel_excep_cnt d fd + of_bool (pd_fd pd = fd \<and> POLLPRI \<in> pd_events pd)"
  "fd_read_set (select_add_one pd d) = fd_read_set d \<union> {fd. pd_fd pd = fd \<and> POLLIN \<in> pd_events pd}"
  "fd_write_set (select_add_one pd d) = fd_write_set d \<union> {fd. pd_fd pd = fd \<and> POLLOUT \<in> pd_events pd}"
  "fd_exception_set (select_add_one pd d) = fd_exception_set d \<union> {fd. pd_fd pd = fd \<and> POLLPRI \<in> pd_events pd}"
  by (simp_all add: select_add_one_def Let_def)

lemma also_reqs_one_of: "also_reqs [pd] N f fd = of_bool (pd_fd pd = fd \<and> f \<in> pd_events pd) + N f fd"
  by (simp add: also_reqs_def reqs_Cons)

lemma select_add_one_counts: "select_counts N d \<Longrightarrow> select_counts (also_reqs [pd] N) (select_add_one pd d)"
  unfolding select_counts_def select_add_one_fields also_reqs_one_of by (intro conjI allI) auto

lemma select_add_one_max: "sel_maxfd (select_add_one pd d) = max (sel_maxfd d) (pd_fd pd)"
  by (simp add: select_add_one_def Let_def)

lemma select_adds:
  "select_counts N d \<Longrightarrow> select_counts (also_reqs pds N) (fold select_add_one pds d)"
  "sel_maxfd d \<le> sel_maxfd (fold select_add_one pds d) \<and> (\<forall>pd \<in> set pds. pd_fd pd \<le> sel_maxfd (fold select_add_one pds d))"
proof (induction pds arbitrary: d N)
  case (Cons pd pds)
  { case 1
    have "also_reqs (pd # pds) N = also_reqs pds (also_reqs [pd] N)"
      by (auto simp: also_reqs_def reqs_Cons fun_eq_iff)
    then show ?case using Cons.IH(1) [OF select_add_one_counts [OF 1]] by simp
  next
    case 2
    show ?case using Cons.IH(2) [of "select_add_one pd d"] select_add_one_max [of pd d] by auto }
qed (simp_all add: also_reqs_def)

lemma select_del_one_fields:
  "sel_read_cnt (select_del_one pd d) fd = sel_read_cnt d fd - of_bool (pd_fd pd = fd \<and> POLLIN \<in> pd_events pd)"
  "sel_write_cnt (select_del_one pd d) fd = sel_write_cnt d fd - of_bool (pd_fd pd = fd \<and> POLLOUT \<in> pd_events pd)"
  "sel_excep_cnt (select_del_one pd d) fd = sel_excep_cnt d fd - of_bool (pd_fd pd = fd \<and> POLLPRI \<in> pd_events pd)"
  "fd_read_set (select_del_one pd d) = fd_read_set d - {fd. pd_fd pd = fd \<and> POLLIN \<in> pd_events pd \<and> sel_read_cnt d fd = 1}"
  "fd_write_set (select_del_one pd d) = fd_write_set d - {fd. pd_fd pd = fd \<and> POLLOUT \<in> pd_events pd \<and> sel_write_cnt d fd = 1}"
  "fd_exception_set (select_del_one pd d) = fd_exception_set d - {fd. pd_fd pd = fd \<and> POLLPRI \<in> pd_events pd \<and> sel_excep_cnt d fd = 1}"
  by (simp_all add: select_del_one_def Let_def) auto

lemma select_del_one_counts: "select_counts (also_reqs [pd] N) d \<Longrightarrow> select_counts N (select_del_one pd d)"
  unfolding select_counts_def select_del_one_fields also_reqs_one_of by (intro conjI allI) auto

lemma select_dels:
  "select_counts (also_reqs pds N) d \<Longrightarrow> select_counts N (select_pollset_del pds d)"
  "sel_maxfd (select_pollset_del pds d) = sel_maxfd d"
proof (induction pds arbitrary: d)
  case (Cons pd pds)
  { case 1
    have "also_reqs (pd # pds) N = also_reqs [pd] (also_reqs pds N)"
      by (auto simp: also_reqs_def reqs_Cons fun_eq_iff)
    then show ?case using Cons.IH(1) select_del_one_counts [of pd "also_reqs pds N" d] 1 by (simp add: select_pollset_del_def)
  next
    case 2
    show ?case using Cons.IH(2) [of "select_del_one pd d"] by (simp add: select_pollset_del_def select_del_one_def Let_def) }
qed (simp_all add: select_pollset_del_def also_reqs_def)

interpretation select_system: event_system select_add select_pollset_del select_holds
proof
  fix q pds d d'
  show "select_holds (q @ pds) d'" if h: "select_holds q d" and run: "select_add pds d = (True, d')"
  proof -
    have d': "d' = fold select_add_one pds d" "\<forall>pd \<in> set pds. valid_pd pd \<and> pd_fd pd < FD_SETSIZE"
      using run by (auto simp: select_add_def select_pollset_add_def valid_pd_def split: if_splits)
    have "select_counts (reqs (q @ pds)) d'" using select_adds(1) [of "reqs q" d pds] h d'(1) by (simp add: select_holds_def reqs_add)
    then show ?thesis using h select_adds(2) [of d pds] d' by (fastforce simp: select_holds_def)
  qed
  show "select_holds q d'" if "select_holds q d" "select_add pds d = (False, d')"
    using that by (auto simp: select_add_def select_pollset_add_def split: if_splits)
next
  fix q1 pds q2 d
  assume "select_holds (q1 @ pds @ q2) d"
  then show "select_holds (q1 @ q2) (select_pollset_del pds d)"
    using select_dels(1) [of pds "reqs (q1 @ q2)" d] select_dels(2) [of pds d] by (auto simp: select_holds_def reqs_add(2))
qed

subsection \<open>Poll\<close>

definition poll_add :: "pollfd list \<Rightarrow> st_polldata \<Rightarrow> bool \<times> st_polldata" where
  "poll_add pds d = (case poll_pollset_add pds d of (r, d') \<Rightarrow> (r = None, d'))"

definition poll_del :: "pollfd list \<Rightarrow> st_polldata \<Rightarrow> st_polldata" where
  "poll_del pds d = the (poll_pollset_del pds d)"

definition poll_holds :: "pollfd list \<Rightarrow> st_polldata \<Rightarrow> bool" where
  "poll_holds q d \<longleftrightarrow> poll_osfd_cnt d = int (length q)"

lemma poll_del_defined: "poll_holds (q1 @ pds @ q2) d \<Longrightarrow> poll_pollset_del pds d = Some (poll_del pds d)"
  by (simp add: poll_holds_def poll_del_def poll_pollset_del_def Let_def)

interpretation poll_system: event_system poll_add poll_del poll_holds
proof
  fix q1 pds q2 d
  assume "poll_holds (q1 @ pds @ q2) d"
  then show "poll_holds (q1 @ q2) (poll_del pds d)" by (simp add: poll_holds_def poll_del_def poll_pollset_del_def Let_def)
qed (auto simp: poll_holds_def poll_add_def poll_pollset_add_def split: if_splits)

section \<open>The walk over the I/O queue\<close>

lemma write_results_ok:
  assumes inv: "vp_inv r s" and a: "a \<in> set (io_q s)"
  shows "vp_inv r (write_results a pds s)" and "same_but_io s (write_results a pds s)" and "ep (write_results a pds s) = ep s"
    and "view (write_results a pds s) = (view s)(a := (view s a)\<lparr>t_pollq := (t_pollq (view s a))\<lparr>pq_pds := pds\<rparr>\<rparr>)"
    and "run_q (write_results a pds s) = run_q s" "io_q (write_results a pds s) = io_q s"
proof -
  let ?s = "write_results a pds s" and ?t = "(view s a)\<lparr>t_pollq := (t_pollq (view s a))\<lparr>pq_pds := pds\<rparr>\<rparr>"
  show view: "view ?s = (view s)(a := ?t)" by (auto simp: write_results_def view_def fun_eq_iff upd_def)
  have ioq: "queue_fits on_io (live s) (view s) (io_q s)" using inv by (simp add: vp_inv_def)
  then have x: "a \<in> live s" using a by (auto simp: queue_fits_def exactly_def)
  have sleep: "sleepq_holds ?s (sleepers (live s) (view s))" using inv by (simp add: write_results_def vp_inv_def sleepq_holds_upd)
  show "run_q ?s = run_q s" "io_q ?s = io_q s" "ep ?s = ep s" "same_but_io s ?s"
    by (simp_all add: write_results_def upd_def same_but_io_def live_def)
  show "vp_inv r ?s"
    by (rule vp_inv_pollq [OF inv x view _ _ _ _ _ _ _ _ _ _ sleep])
      (use ioq in \<open>simp_all add: write_results_def upd_def, subst queue_same, simp_all add: on_io_def\<close>)
qed

lemma leave_io_q_ok:
  assumes inv: "vp_inv r s" and a: "a \<in> set (io_q s)" and st: "t_state (view s a) = IO_WAIT"
  shows "\<exists>s'. leave_io_q a pds s = Some s' \<and> vp_inv r s' \<and> same_but_io s s' \<and> ep s' = ep s \<and>
    view s' = (view s)(a := woken ((view s a)\<lparr>t_pollq := \<lparr>pq_pds = pds, pq_on_ioq = False\<rparr>\<rparr>)) \<and>
    run_q s' = run_q s @ [a] \<and> io_q s' = remove1 a (io_q s)"
proof -
  let ?t = "(view s a)\<lparr>t_pollq := \<lparr>pq_pds = pds, pq_on_ioq = False\<rparr>\<rparr>"
  define s1 where "s1 = upd a (\<lambda>t. t\<lparr>t_pollq := \<lparr>pq_pds = pds, pq_on_ioq = False\<rparr>\<rparr>) (s\<lparr>io_q := remove1 a (io_q s)\<rparr>)"
  have ioq: "queue_fits on_io (live s) (view s) (io_q s)" using inv by (simp add: vp_inv_def)
  have x: "a \<in> live s" "on_io (view s a)" using ioq a by (auto simp: queue_fits_def exactly_def)
  have view1: "view s1 = (view s)(a := ?t)" by (auto simp: s1_def view_def fun_eq_iff upd_def)
  have sleep: "sleepq_holds s1 (sleepers (live s) (view s))" using inv by (simp add: s1_def vp_inv_def sleepq_holds_upd)
  have io1: "queue_fits on_io (live s) ((view s)(a := ?t)) (remove1 a (io_q s))" by (rule queue_remove [OF ioq]) (simp add: on_io_def)
  have inv1: "vp_inv r s1"
    by (rule vp_inv_pollq [OF inv x(1) view1 _ _ _ _ _ _ _ _ _ _ sleep]) (use io1 in \<open>simp_all add: s1_def upd_def\<close>)
  have same1: "live s1 = live s" "run_q s1 = run_q s" "io_q s1 = remove1 a (io_q s)" "ep s1 = ep s" "same_but_io s s1"
    by (simp_all add: s1_def upd_def same_but_io_def live_def)
  have ctx: "t_context (view s1 a) = In_poll" "t_state (view s1 a) = IO_WAIT" using x(2) st by (simp_all add: view1 on_io_def)
  obtain s' where s': "wake_up a s1 = Some s'" "vp_inv r s'" "wakes [a] s1 s'"
    using wake_up_ok [OF inv1, of a] x(1) ctx same1(1) by auto
  have "view s' = (view s)(a := woken ?t)" using s'(3) by (auto simp: wakes_def view1 fun_eq_iff)
  moreover have "run_q s' = run_q s @ [a]" "io_q s' = remove1 a (io_q s)" "ep s' = ep s" "same_but_io s s'"
    using s'(3) same1 by (simp_all add: wakes_def same_outside_def same_but_io_def)
  ultimately show ?thesis using s'(1,2) by (simp add: leave_io_q_def s1_def)
qed

text \<open>What the walk does: \<open>P\<close> says who is woken, \<open>ans\<close> what the answers are; \<open>w\<close>, whether those who are not woken get theirs.\<close>

definition walked :: "(tid \<Rightarrow> pollfd list) \<Rightarrow> (tid \<Rightarrow> bool) \<Rightarrow> bool \<Rightarrow> tid list \<Rightarrow> st_vp \<Rightarrow> st_vp \<Rightarrow> bool" where
  "walked ans P w as s s' \<longleftrightarrow> run_q s' = run_q s @ filter P as \<and>
     io_q s' = filter (\<lambda>a. a \<notin> set (filter P as)) (io_q s) \<and> same_but_io s s' \<and> ep s' = ep s \<and>
     view s' = (\<lambda>a. if a \<notin> set as then view s a
       else if P a then woken ((view s a)\<lparr>t_pollq := \<lparr>pq_pds = ans a, pq_on_ioq = False\<rparr>\<rparr>)
       else if w then (view s a)\<lparr>t_pollq := (t_pollq (view s a))\<lparr>pq_pds := ans a\<rparr>\<rparr> else view s a)"

lemma walked_Nil [simp]: "walked ans P w [] s s' \<longleftrightarrow> run_q s' = run_q s \<and> io_q s' = io_q s \<and> same_but_io s s' \<and> ep s' = ep s \<and> view s' = view s"
  by (auto simp: walked_def fun_eq_iff)

lemma walked_told:
  assumes "walked ans P w as s1 s'" and "P a" and "a \<notin> set as" and "distinct (io_q s)"
    and s1: "same_but_io s s1" "ep s1 = ep s" "run_q s1 = run_q s @ [a]" "io_q s1 = remove1 a (io_q s)"
      "view s1 = (view s)(a := woken ((view s a)\<lparr>t_pollq := \<lparr>pq_pds = ans a, pq_on_ioq = False\<rparr>\<rparr>))"
  shows "walked ans P w (a # as) s s'"
proof -
  have "io_q s' = filter (\<lambda>b. b \<notin> set (filter P (a # as))) (io_q s)"
  proof -
    have "io_q s' = filter (\<lambda>b. b \<notin> set (filter P as)) (remove1 a (io_q s))" using assms(1) s1(4) by (simp add: walked_def)
    also have "\<dots> = filter (\<lambda>b. b \<notin> insert a (set (filter P as))) (io_q s)" by (rule filter_remove [OF assms(4)])
    finally show ?thesis using assms(2) by (simp only: filter.simps if_True list.set)
  qed
  moreover have "view s' = (\<lambda>b. if b \<notin> set (a # as) then view s b
       else if P b then woken ((view s b)\<lparr>t_pollq := \<lparr>pq_pds = ans b, pq_on_ioq = False\<rparr>\<rparr>)
       else if w then (view s b)\<lparr>t_pollq := (t_pollq (view s b))\<lparr>pq_pds := ans b\<rparr>\<rparr> else view s b)"
    using assms(1,2,3) unfolding walked_def s1(5) by auto
  moreover have "same_but_io s s'" "ep s' = ep s" using assms(1) s1(1,2) same_but_io_trans by (auto simp: walked_def)
  ultimately show ?thesis using assms(1,2) s1(3) by (simp add: walked_def)
qed

lemma walked_passed:
  assumes "walked ans P w as s1 s'" and "\<not> P a" and "a \<notin> set as"
    and s1: "same_but_io s s1" "ep s1 = ep s" "run_q s1 = run_q s" "io_q s1 = io_q s"
      "view s1 = (if w then (view s)(a := (view s a)\<lparr>t_pollq := (t_pollq (view s a))\<lparr>pq_pds := ans a\<rparr>\<rparr>) else view s)"
  shows "walked ans P w (a # as) s s'"
proof -
  have "view s' = (\<lambda>b. if b \<notin> set (a # as) then view s b
       else if P b then woken ((view s b)\<lparr>t_pollq := \<lparr>pq_pds = ans b, pq_on_ioq = False\<rparr>\<rparr>)
       else if w then (view s b)\<lparr>t_pollq := (t_pollq (view s b))\<lparr>pq_pds := ans b\<rparr>\<rparr> else view s b)"
    using assms(1,2,3) unfolding walked_def s1(5) by (auto split: if_splits)
  moreover have "same_but_io s s'" "ep s' = ep s" using assms(1) s1(1,2) same_but_io_trans by (auto simp: walked_def)
  ultimately show ?thesis using assms(1,2) s1(3,4) by (simp add: walked_def)
qed

text \<open>The threads behind keep their state and their requests.\<close>

definition polling :: "tid list \<Rightarrow> (tid \<Rightarrow> pollfd list) \<Rightarrow> st_vp \<Rightarrow> bool" where
  "polling as req s \<longleftrightarrow> (\<forall>a \<in> set as. a \<in> set (io_q s) \<and> t_state (view s a) = IO_WAIT \<and> pds_of s a = req a)"

lemma polling_behind:
  assumes "polling (a # as) req s" and "a \<notin> set as" and "view s1 = (view s)(a := t')" and "\<And>b. b \<noteq> a \<Longrightarrow> b \<in> set (io_q s) \<Longrightarrow> b \<in> set (io_q s1)"
  shows "polling as req s1"
  unfolding polling_def
proof
  fix b assume b: "b \<in> set as"
  then have "b \<noteq> a" using assms(2) by auto
  then show "b \<in> set (io_q s1) \<and> t_state (view s1 b) = IO_WAIT \<and> pds_of s1 b = req b"
    using assms(1,3,4) b by (simp add: polling_def pds_of_def)
qed

section \<open>Dispatching with select\<close>

lemma max_osfd_le: "pd \<in> set pds \<Longrightarrow> pd_fd pd \<le> max_osfd pds"
proof -
  have "m \<le> fold (\<lambda>pd m. max m (pd_fd pd)) pds m \<and> (\<forall>pd \<in> set pds. pd_fd pd \<le> fold (\<lambda>pd m. max m (pd_fd pd)) pds m)" for m
  proof (induction pds arbitrary: m)
    case (Cons pd pds)
    show ?case using Cons [of "max m (pd_fd pd)"] by auto
  qed simp
  then show "pd \<in> set pds \<Longrightarrow> pd_fd pd \<le> max_osfd pds" by (simp add: max_osfd_def)
qed

text \<open>An answer fills in the results and leaves the rest of the request.\<close>

locale event_answer =
  fixes answer :: "pollfd \<Rightarrow> pollfd"
  assumes same_fd: "pd_fd (answer pd) = pd_fd pd" and same_events: "pd_events (answer pd) = pd_events pd"

context event_answer
begin

lemma reqs_answer [simp]: "reqs (map answer pds) = reqs pds"
  by (auto simp: reqs_def fun_eq_iff filter_map o_def same_fd same_events)

lemma notify_all_select:
  assumes "vp_inv r s" and "distinct as" and "polling as req s"
    and "select_counts (reqs (concat (map req as) @ q)) d"
    and "\<forall>a \<in> set as. \<forall>pd \<in> set (req a). pd_events pd \<noteq> {}"
  defines "P \<equiv> \<lambda>a. \<exists>pd \<in> set (req a). pd_revents (answer pd) \<noteq> {}"
  shows "\<exists>d' s'. select_notify_all answer skip as (d, s) = Some (d', s') \<and> vp_inv r s' \<and>
    walked (\<lambda>a. map answer (req a)) P True as s s' \<and>
    select_counts (reqs (concat (map req (filter (\<lambda>a. \<not> P a) as)) @ q)) d' \<and> sel_maxfd d \<le> sel_maxfd d' \<and>
    (\<forall>a \<in> set as. \<not> P a \<longrightarrow> (\<forall>pd \<in> set (req a). pd_fd pd \<le> sel_maxfd d'))"
  using assms(1-5)
proof (induction as arbitrary: s d q)
  case Nil
  then show ?case by (simp add: same_but_io_def)
next
  case (Cons a as)
  have dist: "distinct (io_q s)" using Cons.prems(1) by (simp add: vp_inv_def queue_fits_def exactly_def)
  have a: "a \<in> set (io_q s)" "t_state (view s a) = IO_WAIT" "pds_of s a = req a" "a \<notin> set as"
    using Cons.prems(2,3) by (auto simp: polling_def)
  have pds: "pq_pds (t_pollq (threads s a)) = req a" using a(3) by (simp add: pds_of_def view_def)
  have hits: "(\<exists>pd \<in> set (map answer (req a)). pd_revents pd \<noteq> {}) = P a" by (auto simp: P_def)
  show ?case
  proof (cases "P a")
    case True
    obtain s1 where s1: "leave_io_q a (map answer (req a)) s = Some s1" "vp_inv r s1" "same_but_io s s1" "ep s1 = ep s"
        "view s1 = (view s)(a := woken ((view s a)\<lparr>t_pollq := \<lparr>pq_pds = map answer (req a), pq_on_ioq = False\<rparr>\<rparr>))"
        "run_q s1 = run_q s @ [a]" "io_q s1 = remove1 a (io_q s)"
      using leave_io_q_ok [OF Cons.prems(1) a(1,2)] by blast
    have poll1: "polling as req s1" by (rule polling_behind [OF Cons.prems(3) a(4) s1(5)]) (simp add: s1(7))
    have "reqs (concat (map req (a # as)) @ q) = also_reqs (map answer (req a)) (reqs (concat (map req as) @ q))"
      by (simp add: also_reqs_def reqs_append fun_eq_iff)
    then have counts: "select_counts (reqs (concat (map req as) @ q)) (select_pollset_del (map answer (req a)) d)"
      using select_dels(1) Cons.prems(4) by metis
    obtain d' s' where IH: "select_notify_all answer skip as (select_pollset_del (map answer (req a)) d, s1) = Some (d', s')" "vp_inv r s'"
        "walked (\<lambda>a. map answer (req a)) P True as s1 s'"
        "select_counts (reqs (concat (map req (filter (\<lambda>a. \<not> P a) as)) @ q)) d'" "sel_maxfd (select_pollset_del (map answer (req a)) d) \<le> sel_maxfd d'"
        "\<forall>a \<in> set as. \<not> P a \<longrightarrow> (\<forall>pd \<in> set (req a). pd_fd pd \<le> sel_maxfd d')"
      using Cons.IH [OF s1(2) _ poll1 counts] Cons.prems(2,5) by auto
    have "walked (\<lambda>a. map answer (req a)) P True (a # as) s s'"
      by (rule walked_told [OF IH(3) True a(4) dist s1(3,4,6,7,5)])
    moreover have "select_notify_all answer skip (a # as) (d, s) = Some (d', s')"
      using True hits IH(1) s1(1) by (simp add: select_notify_one_def pds Let_def)
    ultimately show ?thesis using IH(2,4-6) True select_dels(2) [of "map answer (req a)" d] by auto
  next
    case False
    let ?s = "write_results a (map answer (req a)) s"
    let ?d = "d\<lparr>sel_maxfd := max (sel_maxfd d) (max_osfd (filter (\<lambda>pd. skip \<longrightarrow> pd_events pd \<noteq> {}) (map answer (req a))))\<rparr>"
    note w = write_results_ok [OF Cons.prems(1) a(1), of "map answer (req a)"]
    have poll1: "polling as req ?s" by (rule polling_behind [OF Cons.prems(3) a(4) w(4)]) (simp add: w(6))
    have counts: "select_counts (reqs (concat (map req as) @ (req a @ q))) ?d"
    proof -
      have "reqs (concat (map req as) @ (req a @ q)) = reqs (concat (map req (a # as)) @ q)" by (auto simp: reqs_append fun_eq_iff)
      then show ?thesis using Cons.prems(4) by (simp add: select_counts_def)
    qed
    obtain d' s' where IH: "select_notify_all answer skip as (?d, ?s) = Some (d', s')" "vp_inv r s'"
        "walked (\<lambda>a. map answer (req a)) P True as ?s s'"
        "select_counts (reqs (concat (map req (filter (\<lambda>a. \<not> P a) as)) @ (req a @ q))) d'" "sel_maxfd ?d \<le> sel_maxfd d'"
        "\<forall>a \<in> set as. \<not> P a \<longrightarrow> (\<forall>pd \<in> set (req a). pd_fd pd \<le> sel_maxfd d')"
      using Cons.IH [OF w(1) _ poll1 counts] Cons.prems(2,5) by auto
    have "walked (\<lambda>a. map answer (req a)) P True (a # as) s s'"
      by (rule walked_passed [OF IH(3) False a(4) w(2,3,5,6)]) (simp add: w(4))
    moreover have "select_notify_all answer skip (a # as) (d, s) = Some (d', s')"
      using False hits IH(1) by (simp add: select_notify_one_def pds Let_def)
    moreover have "reqs (concat (map req (filter (\<lambda>a. \<not> P a) as)) @ (req a @ q)) =
        reqs (concat (map req (filter (\<lambda>a. \<not> P a) (a # as))) @ q)"
      using False by (auto simp: reqs_append fun_eq_iff)
    moreover have "pd_fd pd \<le> sel_maxfd d'" if "pd \<in> set (req a)" for pd
    proof -
      have "answer pd \<in> set (filter (\<lambda>pd. skip \<longrightarrow> pd_events pd \<noteq> {}) (map answer (req a)))"
        using that Cons.prems(5) by (auto simp: same_events)
      from max_osfd_le [OF this] show ?thesis using IH(5) by (simp add: same_fd)
    qed
    ultimately show ?thesis using IH(2,4-6) by auto
  qed
qed

end

interpretation select_ready: event_answer "select_result r w x" for r w x
  by unfold_locales (simp_all add: select_result_def)

interpretation select_bad: event_answer "bad_fd_result bad" for bad
  by unfold_locales (simp_all add: bad_fd_result_def)

interpretation poll_ready: event_answer "poll_answer ready" for ready
  by unfold_locales (simp_all add: poll_answer_def)

text \<open>The requests on the I/O queue.\<close>

definition io_pds :: "st_vp \<Rightarrow> pollfd list" where
  "io_pds s = concat (map (pds_of s) (io_q s))"

text \<open>When no thread is runnable, those on the I/O queue wait.\<close>

lemma io_waits:
  assumes inv: "vp_inv r s" and idle: "run_q s = []" "r = Some (idle_thread s)" and a: "a \<in> set (io_q s)"
  shows "t_state (view s a) = IO_WAIT"
proof -
  have fit: "threads_fit r (idle_thread s) (live s) (view s)" "queue_fits on_io (live s) (view s) (io_q s)"
    "queue_fits on_run (live s) (view s) (run_q s)"
    using inv by (simp_all add: vp_inv_def)
  have x: "a \<in> live s" "t_context (view s a) = In_poll" using fit(2) a by (auto simp: queue_fits_def exactly_def on_io_def)
  have f: "fits (view s a)" "t_state (view s a) = RUNNING \<longleftrightarrow> r = Some a" "t_idle_thread (view s a) \<longleftrightarrow> a = idle_thread s"
    using fit(1) x(1) by (auto simp: threads_fit_def)
  have "\<not> on_run (view s a)" using fit(3) idle(1) x(1) by (auto simp: queue_fits_def exactly_def)
  moreover have "\<not> t_idle_thread (view s a)" using f(1) x(2) by (simp add: fits_def)
  ultimately show ?thesis using f x(2) idle(2) by (auto simp: fits_def on_run_def)
qed

lemma walked_requests:
  assumes walk: "walked ans P w (io_q s) s s'" and same: "\<And>a. reqs (ans a) = reqs (pds_of s a)"
  shows "reqs (io_pds s') = reqs (concat (map (pds_of s) (filter (\<lambda>a. \<not> P a) (io_q s))))"
proof -
  have q: "io_q s' = filter (\<lambda>a. \<not> P a) (io_q s)" using walk unfolding walked_def by (auto intro: filter_cong)
  have "reqs (pds_of s' a) = reqs (pds_of s a)" if "a \<in> set (io_q s')" for a
    using walk that same [of a] by (auto simp: walked_def pds_of_def q)
  then show ?thesis unfolding io_pds_def q by (intro reqs_concat_cong) (auto simp: q)
qed

definition gets_answer :: "(pollfd \<Rightarrow> pollfd) \<Rightarrow> st_vp \<Rightarrow> tid \<Rightarrow> bool" where
  "gets_answer answer s a \<longleftrightarrow> (\<exists>pd \<in> set (pds_of s a). pd_revents (answer pd) \<noteq> {})"

abbreviation all_answers :: "(pollfd \<Rightarrow> pollfd) \<Rightarrow> st_vp \<Rightarrow> tid \<Rightarrow> pollfd list" where
  "all_answers answer s a \<equiv> map answer (pds_of s a)"

context event_answer
begin

lemma select_walk_ok:
  assumes inv: "vp_inv r s" and idle: "run_q s = []" "r = Some (idle_thread s)" and holds: "select_holds (io_pds s) d"
  shows "\<exists>d' s'. select_notify_all answer skip (io_q s) (d\<lparr>sel_maxfd := -1\<rparr>, s) = Some (d', s') \<and> vp_inv r s' \<and>
    walked (all_answers answer s) (gets_answer answer s) True (io_q s) s s' \<and> select_holds (io_pds s') d'"
proof -
  let ?P = "gets_answer answer s"
  have "distinct (io_q s)" using inv by (simp add: vp_inv_def queue_fits_def exactly_def)
  moreover have "polling (io_q s) (pds_of s) s" using io_waits [OF inv idle] by (simp add: polling_def)
  moreover have valid: "valid_pd pd \<and> pd_fd pd < FD_SETSIZE" if "a \<in> set (io_q s)" "pd \<in> set (pds_of s a)" for a pd
    using holds that by (auto simp: select_holds_def io_pds_def)
  moreover have "select_counts (reqs (concat (map (pds_of s) (io_q s)) @ [])) (d\<lparr>sel_maxfd := -1\<rparr>)"
    using holds by (simp add: select_holds_def io_pds_def select_counts_def)
  ultimately obtain d' s' where run: "select_notify_all answer skip (io_q s) (d\<lparr>sel_maxfd := -1\<rparr>, s) = Some (d', s')"
      "vp_inv r s'" "walked (all_answers answer s) ?P True (io_q s) s s'"
      "select_counts (reqs (concat (map (pds_of s) (filter (\<lambda>a. \<not> ?P a) (io_q s))) @ [])) d'"
      "\<forall>a \<in> set (io_q s). \<not> ?P a \<longrightarrow> (\<forall>pd \<in> set (pds_of s a). pd_fd pd \<le> sel_maxfd d')"
    using notify_all_select [OF inv, of "io_q s" "pds_of s" "[]" "d\<lparr>sel_maxfd := -1\<rparr>" skip]
    unfolding gets_answer_def by (auto simp: valid_pd_def)
  have "select_counts (reqs (io_pds s')) d'"
    using walked_requests [OF run(3)] run(4) by simp
  moreover have "valid_pd pd \<and> pd_fd pd < FD_SETSIZE \<and> pd_fd pd \<le> sel_maxfd d'" if pd: "pd \<in> set (io_pds s')" for pd
  proof -
    obtain a where a: "a \<in> set (io_q s')" "pd \<in> set (pds_of s' a)" using pd by (auto simp: io_pds_def)
    then have left: "a \<in> set (io_q s)" "\<not> ?P a" using run(3) by (auto simp: walked_def)
    then have "pds_of s' a = all_answers answer s a" using run(3) by (simp add: walked_def pds_of_def)
    then obtain pd0 where pd0: "pd = answer pd0" "pd0 \<in> set (pds_of s a)" using a(2) by auto
    then show ?thesis
      using valid [OF left(1) pd0(2)] run(5) left by (simp add: valid_pd_def same_fd same_events)
  qed
  ultimately show ?thesis using run(1-3) by (auto simp: select_holds_def)
qed

end

text \<open>
  \<^verbatim>\<open>_st_select_dispatch\<close>: exactly the threads one of whose requests is in the sets that \<^verbatim>\<open>select\<close> leaves become runnable, or, when
  \<^verbatim>\<open>select\<close> fails with \<open>EBADF\<close>, those that wait for a descriptor that is not open; the sets and counts are then those of the requests that
  are left, and the greatest descriptor is not below any of them.
\<close>

fun answer_of :: "select_answer \<Rightarrow> pollfd \<Rightarrow> pollfd" where
  "answer_of (SelectReady r w x) = select_result r w x"
| "answer_of (SelectError e bad) = bad_fd_result bad"
| "answer_of SelectTimeout = id"

theorem select_dispatch_ok:
  assumes inv: "vp_inv r s" and idle: "run_q s = []" "r = Some (idle_thread s)" and holds: "select_holds (io_pds s) d"
    and answer: "answer = SelectReady rs ws xs \<or> answer = SelectError EBADF bad"
  shows "\<exists>d' s'. select_dispatch answer (d, s) = Some (d', s') \<and> vp_inv r s' \<and>
    walked (all_answers (answer_of answer) s) (gets_answer (answer_of answer) s) True (io_q s) s s' \<and> select_holds (io_pds s') d'"
  using answer
proof
  assume "answer = SelectReady rs ws xs"
  then show ?thesis
    using select_ready.select_walk_ok [OF inv idle holds, of rs ws xs False] by (simp add: select_dispatch_def)
next
  assume "answer = SelectError EBADF bad"
  then show ?thesis
    using select_bad.select_walk_ok [OF inv idle holds, of bad True] by (simp add: select_dispatch_def select_find_bad_fd_def)
qed

section \<open>Dispatching with poll\<close>

lemma notify_all_poll:
  fixes ready :: "int \<Rightarrow> poll_bits"
  assumes "vp_inv r s" and "distinct as" and "polling as req s"
    and "poll_osfd_cnt d = int (length (concat (map req as)) + k)"
  defines "P \<equiv> \<lambda>a. \<exists>pd \<in> set (req a). pd_revents (poll_answer ready pd) \<noteq> {}"
  shows "\<exists>d' s'. poll_notify_all as (concat (map (\<lambda>a. map (poll_answer ready) (req a)) as)) (d, s) = Some (d', s') \<and> vp_inv r s' \<and>
    walked (\<lambda>a. map (poll_answer ready) (req a)) P False as s s' \<and> pollfds_size d' = pollfds_size d \<and>
    poll_osfd_cnt d' = int (length (concat (map req (filter (\<lambda>a. \<not> P a) as))) + k)"
  using assms(1-4)
proof (induction as arbitrary: s d k)
  case Nil
  then show ?case by (simp add: same_but_io_def)
next
  case (Cons a as)
  let ?rest = "concat (map (\<lambda>a. map (poll_answer ready) (req a)) as)"
  have dist: "distinct (io_q s)" using Cons.prems(1) by (simp add: vp_inv_def queue_fits_def exactly_def)
  have a: "a \<in> set (io_q s)" "t_state (view s a) = IO_WAIT" "pds_of s a = req a" "a \<notin> set as"
    using Cons.prems(2,3) by (auto simp: polling_def)
  have pds: "pq_pds (t_pollq (threads s a)) = req a" using a(3) by (simp add: pds_of_def view_def)
  have hits: "(\<exists>pd \<in> set (map (poll_answer ready) (req a)). pd_revents pd \<noteq> {}) = P a" by (auto simp: P_def)
  show ?case
  proof (cases "P a")
    case True
    obtain s1 where s1: "leave_io_q a (map (poll_answer ready) (req a)) s = Some s1" "vp_inv r s1" "same_but_io s s1" "ep s1 = ep s"
        "view s1 = (view s)(a := woken ((view s a)\<lparr>t_pollq := \<lparr>pq_pds = map (poll_answer ready) (req a), pq_on_ioq = False\<rparr>\<rparr>))"
        "run_q s1 = run_q s @ [a]" "io_q s1 = remove1 a (io_q s)"
      using leave_io_q_ok [OF Cons.prems(1) a(1,2)] by blast
    have poll1: "polling as req s1" by (rule polling_behind [OF Cons.prems(3) a(4) s1(5)]) (simp add: s1(7))
    let ?d = "d\<lparr>poll_osfd_cnt := poll_osfd_cnt d - int (length (req a))\<rparr>"
    have del: "poll_pollset_del (map (poll_answer ready) (req a)) d = Some ?d"
      using Cons.prems(4) by (simp add: poll_pollset_del_def Let_def)
    obtain d' s' where IH: "poll_notify_all as ?rest (?d, s1) = Some (d', s')" "vp_inv r s'"
        "walked (\<lambda>a. map (poll_answer ready) (req a)) P False as s1 s'" "pollfds_size d' = pollfds_size ?d"
        "poll_osfd_cnt d' = int (length (concat (map req (filter (\<lambda>a. \<not> P a) as))) + k)"
      using Cons.IH [OF s1(2) _ poll1, of ?d k] Cons.prems(2,4) by auto
    have "walked (\<lambda>a. map (poll_answer ready) (req a)) P False (a # as) s s'"
      by (rule walked_told [OF IH(3) True a(4) dist s1(3,4,6,7,5)])
    moreover have "poll_notify_all (a # as) (map (poll_answer ready) (req a) @ ?rest) (d, s) = Some (d', s')"
      using True hits IH(1) s1(1) del by (simp add: pds Let_def)
    ultimately show ?thesis using IH(2,4,5) True by auto
  next
    case False
    have poll1: "polling as req s" using Cons.prems(3) by (simp add: polling_def)
    obtain d' s' where IH: "poll_notify_all as ?rest (d, s) = Some (d', s')" "vp_inv r s'"
        "walked (\<lambda>a. map (poll_answer ready) (req a)) P False as s s'" "pollfds_size d' = pollfds_size d"
        "poll_osfd_cnt d' = int (length (concat (map req (filter (\<lambda>a. \<not> P a) as))) + (length (req a) + k))"
      using Cons.IH [OF Cons.prems(1) _ poll1, of d "length (req a) + k"] Cons.prems(2,4) by auto
    have "walked (\<lambda>a. map (poll_answer ready) (req a)) P False (a # as) s s'"
      by (rule walked_passed [OF IH(3) False a(4)]) (simp_all add: same_but_io_def)
    moreover have "poll_notify_all (a # as) (map (poll_answer ready) (req a) @ ?rest) (d, s) = Some (d', s')"
      using False hits IH(1) by (simp add: pds Let_def)
    ultimately show ?thesis using IH(2,4,5) False by auto
  qed
qed

text \<open>
  \<^verbatim>\<open>_st_poll_dispatch\<close>: no assertion fails, the array is big enough, and exactly the threads one of whose requests is answered become runnable, with the
  answers.
\<close>

theorem poll_dispatch_ok:
  assumes inv: "vp_inv r s" and idle: "run_q s = []" "r = Some (idle_thread s)" and holds: "poll_holds (io_pds s) d"
  shows "\<exists>d' s'. poll_dispatch True (Some ready) (d, s) = Some (d', s') \<and> vp_inv r s' \<and>
    walked (all_answers (poll_answer ready) s) (gets_answer (poll_answer ready) s) False (io_q s) s s' \<and> poll_holds (io_pds s') d' \<and>
    poll_osfd_cnt d \<le> pollfds_size d'"
proof -
  let ?P = "gets_answer (poll_answer ready) s"
  define d1 where "d1 = (if pollfds_size d < poll_osfd_cnt d then d\<lparr>pollfds_size := poll_osfd_cnt d + 10\<rparr> else d)"
  have P: "?P = (\<lambda>a. \<exists>pd \<in> set (pds_of s a). pd_revents (poll_answer ready pd) \<noteq> {})" by (simp add: gets_answer_def fun_eq_iff)
  have cnt: "poll_osfd_cnt d = int (length (io_pds s))" using holds by (simp add: poll_holds_def)
  have dist: "distinct (io_q s)" using inv by (simp add: vp_inv_def queue_fits_def exactly_def)
  have poll: "polling (io_q s) (pds_of s) s" using io_waits [OF inv idle] by (simp add: polling_def)
  have pds: "concat (map (\<lambda>a. pq_pds (t_pollq (threads s a))) (io_q s)) = io_pds s"
    by (simp add: io_pds_def pds_of_def [abs_def] view_def)
  have sys: "sys_poll ready (poll_osfd_cnt d) (io_pds s) = concat (map (\<lambda>a. map (poll_answer ready) (pds_of s a)) (io_q s))"
    by (simp add: sys_poll_def cnt io_pds_def map_concat o_def)
  obtain d' s' where run: "poll_notify_all (io_q s) (concat (map (\<lambda>a. map (poll_answer ready) (pds_of s a)) (io_q s))) (d1, s) = Some (d', s')"
      "vp_inv r s'" "walked (all_answers (poll_answer ready) s) ?P False (io_q s) s s'" "pollfds_size d' = pollfds_size d1"
      "poll_osfd_cnt d' = int (length (concat (map (pds_of s) (filter (\<lambda>a. \<not> ?P a) (io_q s)))))"
  proof -
    have "poll_osfd_cnt d1 = int (length (concat (map (pds_of s) (io_q s))) + 0)" using cnt by (simp add: d1_def io_pds_def)
    from notify_all_poll [OF inv dist poll this, of ready] show ?thesis using that unfolding P by auto
  qed
  have q: "io_q s' = filter (\<lambda>a. \<not> ?P a) (io_q s)" using run(3) unfolding walked_def by (auto intro: filter_cong)
  have "pds_of s' a = pds_of s a" if "a \<in> set (io_q s')" for a using run(3) that by (auto simp: walked_def pds_of_def q)
  then have "map (pds_of s') (io_q s') = map (pds_of s) (filter (\<lambda>a. \<not> ?P a) (io_q s))" by (auto simp: q)
  then have "poll_holds (io_pds s') d'" using run(5) by (simp add: poll_holds_def io_pds_def)
  moreover have "poll_dispatch True (Some ready) (d, s) = Some (d', s')"
  proof -
    have "\<not> (poll_osfd_cnt d < 0 \<or> pollfds_size d < poll_osfd_cnt d \<and> \<not> True \<or> pollfds_size d1 < int (length (io_pds s)))"
      using cnt by (simp add: d1_def)
    then have "poll_dispatch True (Some ready) (d, s) = poll_notify_all (io_q s) (sys_poll ready (poll_osfd_cnt d) (io_pds s)) (d1, s)"
      unfolding poll_dispatch_def Let_def prod.case pds d1_def [symmetric] by (simp only: if_False option.case)
    then show ?thesis by (simp only: sys run(1))
  qed
  moreover have "poll_osfd_cnt d \<le> pollfds_size d'" using run(4) by (simp add: d1_def)
  ultimately show ?thesis using run(2,3) by blast
qed

end
