(* ===== verification/St_Properties.thy ===== *)
theory St_Properties
  imports St_Locks St_Start St_Netfd St_Event_Alt_Correct
begin

text \<open>
  The properties of the thread library, each with an instance at a concrete state. A run starts with what \<^verbatim>\<open>st_init\<close>
  leaves, and every state that the steps of \<open>St_Machine\<close> lead to is reachable.
\<close>

section \<open>Runs\<close>

definition st_started :: "st_vp \<Rightarrow> bool" where
  "st_started s0 \<longleftrightarrow> (\<exists>fdlim pid e page now. epoll_init fdlim True True True True pid = Some e \<and> 0 < page \<and>
     st_init True (Some e) page now True True vp_start = (0, s0))"

lemma started_inv: "st_started s0 \<Longrightarrow> st_inv s0 \<and> runs_user s0"
  using st_init_ok by (auto simp: st_started_def)

lemma reachable_inv: "st_started s0 \<Longrightarrow> os_ok os \<Longrightarrow> st_reachable os s0 s \<Longrightarrow> st_inv s"
  using st_reachable_inv started_inv by blast

text \<open>An example: a kernel that refuses nothing, and the first state of a run.\<close>

definition demo_os :: st_os where
  "demo_os = \<lparr>os_add_fails = (\<lambda>_. None), os_realloc_ok = True, os_pid = 7, os_epoll_create_ok = True\<rparr>"

definition demo_start :: st_vp where
  "demo_start = snd (st_init True (epoll_init 1024 True True True True 7) 4096 100 True True vp_start)"

lemma demo_started: "st_started demo_start"
proof -
  obtain e where e: "epoll_init 1024 True True True True 7 = Some e" by (simp add: epoll_init_def Let_def)
  then have "st_init True (Some e) 4096 100 True True vp_start = (0, demo_start)"
    using st_init_result(1) [of e 4096 100] by (metis demo_start_def prod.collapse)
  then show ?thesis using e unfolding st_started_def by (metis zero_less_numeral)
qed

lemma demo_os_ok: "os_ok demo_os"
  by (simp add: os_ok_def demo_os_def)

lemma demo_select:
  "this_thread demo_start = 1" "idle_thread demo_start = 0" "thread_q demo_start = [0, 1]" "run_q demo_start = []"
  "mutexes demo_start = (\<lambda>_. None)" "conds demo_start = (\<lambda>_. None)" "next_obj demo_start = 2" "sleep_q demo_start = None"
  "sleepq_size demo_start = 0" "io_q demo_start = []" "free_stacks demo_start = []"
  "pagesize demo_start = 4096" "active_count demo_start = 1" "last_clock demo_start = 100" "ep_pid (ep demo_start) = 7"
  "threads demo_start = (\<lambda>_. thread_zero)(0 := idle_object, 1 := primordial_object)"
proof -
  obtain e where e: "epoll_init 1024 True True True True 7 = Some e" by (simp add: epoll_init_def Let_def)
  then obtain rv where "st_init True (Some e) 4096 100 True True vp_start = (rv, demo_start)"
    by (metis demo_start_def prod.collapse)
  note r = st_init_result [OF this]
  show "this_thread demo_start = 1" "idle_thread demo_start = 0" "thread_q demo_start = [0, 1]" "run_q demo_start = []"
    "mutexes demo_start = (\<lambda>_. None)" "conds demo_start = (\<lambda>_. None)" "next_obj demo_start = 2" "sleep_q demo_start = None"
    "sleepq_size demo_start = 0" "io_q demo_start = []" "free_stacks demo_start = []"
    "pagesize demo_start = 4096" "active_count demo_start = 1" "last_clock demo_start = 100" "ep_pid (ep demo_start) = 7"
    "threads demo_start = (\<lambda>_. thread_zero)(0 := idle_object, 1 := primordial_object)"
    using r epoll_init_fits(3) [OF e] by simp_all
qed

lemma demo_array: "fd_data_size (ep demo_start) = 1024"
proof -
  obtain e where e: "epoll_init 1024 True True True True 7 = Some e" by (simp add: epoll_init_def Let_def)
  then obtain rv where "st_init True (Some e) 4096 100 True True vp_start = (rv, demo_start)"
    by (metis demo_start_def prod.collapse)
  then have ep: "ep demo_start = e" by (rule st_init_result(15))
  have "fd_data_size e = 1024" using e by (auto simp: epoll_init_def Let_def)
  then show ?thesis by (simp add: ep)
qed

lemma demo_user: "runs_user demo_start" "st_inv demo_start"
  using started_inv [OF demo_started] by blast+

text \<open>A mutex is made and locked.\<close>

definition demo_mutex :: st_vp where
  "demo_mutex = demo_start\<lparr>mutexes := [2 \<mapsto> \<lparr>mx_owner = None, mx_wait_q = []\<rparr>], next_obj := 3\<rparr>"

definition demo_locked :: st_vp where
  "demo_locked = demo_mutex\<lparr>mutexes := [2 \<mapsto> \<lparr>mx_owner = Some 1, mx_wait_q = []\<rparr>]\<rparr>"

lemma runs_user_cong: "this_thread s' = this_thread s \<Longrightarrow> threads s' = threads s \<Longrightarrow> runs_user s' = runs_user s"
  by (simp add: runs_user_def view_def)

lemma demo_steps:
  "st_step demo_os (Some (Mutex_new True)) demo_start (Returned 2) demo_mutex"
  "st_step demo_os (Some (Mutex_lock 2)) demo_mutex (Returned 0) demo_locked"
proof -
  show "st_step demo_os (Some (Mutex_new True)) demo_start (Returned 2) demo_mutex"
    by (rule st_step.call) (simp_all add: demo_user handle_def st_mutex_new_def demo_mutex_def demo_select)
  have "runs_user demo_mutex" using demo_user(1) by (simp add: demo_mutex_def cong: runs_user_cong)
  then show "st_step demo_os (Some (Mutex_lock 2)) demo_mutex (Returned 0) demo_locked"
    by (rule st_step.call) (simp_all add: st_mutex_lock_def returns_def demo_mutex_def demo_locked_def me_def demo_select
        primordial_object_def thread_zero_def)
qed

lemma demo_reachable: "st_reachable demo_os demo_start demo_locked"
  by (rule st_reachable.step [OF st_reachable.step [OF st_reachable.start demo_steps(1)] demo_steps(2)]) simp_all

section \<open>The scheduler\<close>

text \<open>
  C5: In every reachable state of the thread library every queue holds exactly the threads that are to be on it, each
  once: the run queue the runnable ones, the I/O queue those whose poll request is open, the queue of a condition
  variable or mutex those that wait there, the timeout heap those that sleep with a timeout; exactly
  one thread runs, and the kernel is registered for exactly the events the waiting threads ask for.
\<close>

theorem queues_hold_their_threads:
  assumes "st_started s0" and "os_ok os" and "st_reachable os s0 s"
  shows "exactly (run_q s) {a \<in> live s. t_state (threads s a) = RUNNABLE \<and> a \<noteq> idle_thread s} \<and>
    exactly (io_q s) {a \<in> live s. t_context (threads s a) = In_poll \<and> pq_on_ioq (t_pollq (threads s a))} \<and>
    exactly (zombie_q s) {a \<in> live s. t_state (threads s a) = ZOMBIE} \<and>
    (\<forall>c. exactly (cond_q (conds s) c) {a \<in> live s. waits_cond (t_context (threads s a)) = Some c}) \<and>
    (\<forall>m. exactly (mx_wait_q (mutex_at (mutexes s) m)) {a \<in> live s. t_context (threads s a) = In_lock m}) \<and>
    sleepq_holds s {a \<in> live s. t_on_sleepq (threads s a)} \<and>
    {a \<in> live s. t_state (threads s a) = RUNNING} = {this_thread s} \<and>
    (\<forall>fd. ep_interest (ep s) fd = wanted (io_reqs s) fd)"
proof -
  have inv: "st_inv s" by (rule reachable_inv [OF assms])
  note p = fit_parts [OF running(7) [OF inv]]
  have idle: "t_idle_thread (threads s a) = (a = idle_thread s)" "(t_state (threads s a) = RUNNING) = (a = this_thread s)"
    if "a \<in> live s" for a
    using p(1) that by (auto simp: threads_fit_def view_select)
  have "{a \<in> live s. on_run (view s a)} = {a \<in> live s. t_state (threads s a) = RUNNABLE \<and> a \<noteq> idle_thread s}"
    "{a \<in> live s. t_state (threads s a) = RUNNING} = {this_thread s}"
    using idle running(1) [OF inv] by (auto simp: on_run_def view_select)
  moreover have "ep_interest (ep s) fd = wanted (io_reqs s) fd" for fd
    using p(9) by (simp add: ev_inv_def ep_fits_def)
  moreover have "exactly (mx_wait_q (mutex_at (mutexes s) m)) {a \<in> live s. t_context (threads s a) = In_lock m}" for m
    using p(6) by (simp add: mutexes_fit_def mutex_fits_def queue_fits_def view_select)
  ultimately show ?thesis
    using p(2-5,7) by (simp add: queue_fits_def conds_fit_def on_io_def sleepers_def view_select)
qed

theorem queues_hold_their_threads_witness:
  "exactly (run_q demo_locked) {} \<and> {a \<in> live demo_locked. t_state (threads demo_locked a) = RUNNING} = {1}"
proof -
  have q: "run_q demo_locked = []" "this_thread demo_locked = 1" by (simp_all add: demo_locked_def demo_mutex_def demo_select)
  show ?thesis
    using queues_hold_their_threads [OF demo_started demo_os_ok demo_reachable] q by (auto simp: exactly_def)
qed

text \<open>
  C9: No call of the thread library dereferences a null pointer or fails an assertion, and none gets stuck, in any reachable
  state: a call on objects that exist has a result, and so has what is left of a call when its thread has the
  processor again, whatever the kernel reports.
\<close>

theorem scheduler_never_stuck:
  assumes "st_started s0" and "os_ok os" and "st_reachable os s0 s"
  shows "(runs_user s \<and> valid_call s c \<longrightarrow> (\<exists>out s'. execute os c s = Some (out, s'))) \<and>
    (\<not> runs_user s \<and> kernel_ok os i s \<longrightarrow> (\<exists>out s'. resume os i s = Some (out, s')))"
proof -
  have inv: "st_inv s" by (rule reachable_inv [OF assms])
  have "\<exists>out s'. execute os c s = Some (out, s')" if "runs_user s" "valid_call s c"
    using execute_ok [OF inv that assms(2)] unfolding goes_well_def by blast
  moreover have "\<exists>out s'. resume os i s = Some (out, s')" if "\<not> runs_user s" "kernel_ok os i s"
    using resume_ok [OF inv that] unfolding goes_well_def by blast
  ultimately show ?thesis by blast
qed

theorem scheduler_never_stuck_witness:
  "\<exists>out s'. execute demo_os (Mutex_unlock 2) demo_locked = Some (out, s')"
proof -
  have "runs_user demo_mutex" using demo_user(1) by (simp add: demo_mutex_def cong: runs_user_cong)
  then have "runs_user demo_locked" by (simp add: demo_locked_def cong: runs_user_cong)
  moreover have "valid_call demo_locked (Mutex_unlock 2)" by (simp add: demo_locked_def)
  ultimately show ?thesis
    using scheduler_never_stuck [OF demo_started demo_os_ok demo_reachable] by blast
qed

text \<open>
  C6: Let a thread hold a mutex from the moment \<^verbatim>\<open>st_mutex_lock\<close> or \<^verbatim>\<open>st_mutex_trylock\<close> tells it so until
  \<^verbatim>\<open>st_mutex_unlock\<close> tells it that it has given it back. Then in every run at most one thread
  holds a mutex, and it is the one the mutex says, however the calls of all threads interleave, with
  interrupts, timeouts and threads that wait.
\<close>

theorem mutual_exclusion:
  assumes "st_started s0" and "os_ok os" and "st_history os s0 H s" and "(a, m) \<in> H"
  shows "owner_of s m = Some a \<and> ((b, m) \<in> H \<longrightarrow> b = a)"
proof -
  have "st_inv s0" using started_inv [OF assms(1)] ..
  note own = holders_own [OF assms(3) this assms(2)]
  show ?thesis using own [OF assms(4)] own [of b m] by auto
qed

lemma demo_history: "st_history demo_os demo_start {(1, 2)} demo_locked"
proof -
  have "st_history demo_os demo_start (holders_after (Some (Mutex_new True)) demo_start (Returned 2) {}) demo_mutex"
    by (rule st_history.step [OF st_history.start demo_steps(1)]) simp
  from st_history.step [OF this demo_steps(2)] show ?thesis
    by (simp add: holders_after_def demo_mutex_def demo_select)
qed

theorem mutual_exclusion_witness: "owner_of demo_locked 2 = Some 1"
  using mutual_exclusion [OF demo_started demo_os_ok demo_history, of 1 2] by simp

text \<open>
  C15: The run queue is served in order: the thread that stands at place \<open>k\<close> of the queue has the processor
  after \<open>k + 1\<close> switches, whatever calls are made on the way, and the threads
  that were behind it are now in front of all that came later.
\<close>

theorem run_queue_is_fair:
  assumes "st_switches os s (Suc k) s'" and "k < length (run_q s)"
  shows "this_thread s' = run_q s ! k \<and> (\<exists>ws. run_q s' = drop (Suc k) (run_q s) @ ws)"
  using run_queue_in_order [OF assms(1)] assms(2) by simp

definition demo_two :: st_vp where
  "demo_two = snd (st_thread_create True True False 0 demo_start)"

lemma demo_two_select: "run_q demo_two = [2]" "this_thread demo_two = 1" "threads demo_two 1 = primordial_object"
  "runs_user demo_two" "st_thread_create True True False 0 demo_start = (Some 2, demo_two)"
proof -
  have c: "st_thread_create True True False 0 demo_start = (Some 2, demo_two)"
    by (simp add: demo_two_def st_thread_create_def st_stack_new_def demo_select Let_def)
  then show "st_thread_create True True False 0 demo_start = (Some 2, demo_two)" .
  show "run_q demo_two = [2]" "this_thread demo_two = 1" "threads demo_two 1 = primordial_object"
    by (simp_all add: demo_two_def st_thread_create_def st_stack_new_def demo_select Let_def make_runnable_def set_state_def upd_def)
  then show "runs_user demo_two"
    by (simp add: runs_user_def view_select primordial_object_def thread_zero_def)
qed

theorem run_queue_is_fair_witness:
  "\<exists>s'. st_switches demo_os demo_two 1 s' \<and> this_thread s' = 2"
proof -
  have inv: "st_inv demo_two"
    using thread_create_ok(1) [OF demo_user(2,1) demo_two_select(5)] by blast
  obtain out s' where run: "execute demo_os (Usleep St_Vp.ST_UTIME_NO_TIMEOUT) demo_two = Some (out, s')"
    using execute_ok [OF inv demo_two_select(4) _ demo_os_ok, of "Usleep St_Vp.ST_UTIME_NO_TIMEOUT"]
    unfolding goes_well_def by (auto simp del: execute.simps)
  then have "out = Switched"
    by (auto simp: st_usleep_def switch_context_def me_def demo_two_select demo_two_select(3) [simplified] primordial_object_def
        thread_zero_def)
  moreover have "st_step demo_os (Some (Usleep St_Vp.ST_UTIME_NO_TIMEOUT)) demo_two out s'"
    by (rule st_step.call [OF demo_two_select(4) _ run]) simp
  from st_switches.step [OF st_switches.start this] have "st_switches demo_os demo_two (if out = Switched then Suc 0 else 0) s'" .
  ultimately have "st_switches demo_os demo_two (Suc 0) s'" by simp
  then show ?thesis using run_queue_is_fair [of demo_os demo_two 0 s'] by (auto simp: demo_two_select)
qed

section \<open>Timeouts\<close>

text \<open>
  C10: The timeout heap, a left-adjusted binary tree of linked thread objects, implements a set of threads: adding and
  deleting a thread add and delete it from the set, \<^verbatim>\<open>_ST_SLEEPQ\<close> is a thread that is due first, and a thread is
  due when its timeout after the last clock has passed. No other thread's data changes.
\<close>

theorem timeout_heap_is_set:
  assumes "sleepq_holds s A"
  shows "(x \<notin> A \<longrightarrow> (\<exists>s'. st_add_sleep_q x timeout s = Some s' \<and> sleepq_holds s' (insert x A) \<and>
      view s' = (view s)(x := (view s x)\<lparr>t_due := last_clock s + timeout, t_on_sleepq := True\<rparr>))) \<and>
    (x \<in> A \<longrightarrow> (\<exists>s'. st_del_sleep_q x s = Some s' \<and> sleepq_holds s' (A - {x}) \<and>
      view s' = (view s)(x := (view s x)\<lparr>t_on_sleepq := False\<rparr>))) \<and>
    (case sleep_q s of None \<Rightarrow> A = {} | Some a \<Rightarrow> a \<in> A \<and> (\<forall>b \<in> A. t_due (threads s a) \<le> t_due (threads s b)))"
proof -
  have "\<exists>s'. st_add_sleep_q x timeout s = Some s' \<and> sleepq_holds s' (insert x A) \<and>
      view s' = (view s)(x := (view s x)\<lparr>t_due := last_clock s + timeout, t_on_sleepq := True\<rparr>)" if "x \<notin> A"
    using add_sleep_q_ok [OF assms that, of timeout] view_sleepq_change by (fastforce simp: view_def)
  moreover have "\<exists>s'. st_del_sleep_q x s = Some s' \<and> sleepq_holds s' (A - {x}) \<and>
      view s' = (view s)(x := (view s x)\<lparr>t_on_sleepq := False\<rparr>)" if "x \<in> A"
    using del_sleep_q_ok [OF assms that] view_sleepq_change by (fastforce simp: view_def)
  moreover have "case sleep_q s of None \<Rightarrow> A = {} | Some a \<Rightarrow> a \<in> A \<and> (\<forall>b \<in> A. t_due (threads s a) \<le> t_due (threads s b))"
    using sleepq_first [OF assms] by (auto split: option.split)
  ultimately show ?thesis by blast
qed

theorem timeout_heap_is_set_witness:
  "\<exists>s' s''. st_add_sleep_q 1 50 demo_start = Some s' \<and> sleepq_holds s' {1} \<and> t_due (threads s' 1) = 150 \<and>
     st_del_sleep_q 1 s' = Some s'' \<and> sleepq_holds s'' {}"
proof -
  have "sleepq_holds demo_start {}" by (rule sleepq_holds_empty) (simp_all add: demo_select)
  then obtain s' where s': "st_add_sleep_q 1 50 demo_start = Some s'" "sleepq_holds s' {1}"
      "view s' = (view demo_start)(1 := (view demo_start 1)\<lparr>t_due := last_clock demo_start + 50, t_on_sleepq := True\<rparr>)"
    using timeout_heap_is_set [of demo_start "{}" 1 50] by auto
  moreover have "t_due (threads s' 1) = 150"
    using fun_cong [OF s'(3), of 1] by (simp add: view_select [symmetric] demo_select)
  moreover obtain s'' where "st_del_sleep_q 1 s' = Some s''" "sleepq_holds s'' ({1} - {1})"
    using timeout_heap_is_set [OF s'(2), of 1] by auto
  ultimately show ?thesis by auto
qed

text \<open>
  C14: When the idle thread looks at the clock, exactly the threads whose time has come are woken, the earliest first; a thread that
  waits for a condition variable learns that it timed out, and all other threads sleep on.
\<close>

theorem expired_threads_wake:
  assumes "st_started s0" and "os_ok os" and "st_reachable os s0 s" and "this_thread s = idle_thread s"
  shows "\<exists>ws s'. st_vp_check_clock now time_now s = Some s' \<and>
    set ws = {a \<in> live s. t_on_sleepq (threads s a) \<and> t_due (threads s a) \<le> now} \<and> distinct ws \<and>
    sorted (map (\<lambda>a. t_due (threads s a)) ws) \<and> run_q s' = ws \<and> last_clock s' = now \<and>
    (\<forall>a. view s' a = (if a \<in> set ws then expired (view s a) else view s a))"
proof -
  have inv: "st_inv s" by (rule reachable_inv [OF assms(1-3)])
  have fit: "st_fits (Some (idle_thread s)) s" using running(7) [OF inv] assms(4) by simp
  have "run_q s = []" using inv assms(4) by (simp add: st_inv_def)
  then show ?thesis using check_clock_ok [OF fit, of now time_now] by (fastforce simp: view_select)
qed

definition demo_asleep :: st_vp where
  "demo_asleep = snd (the (execute demo_os (Usleep 50) demo_start))"

lemma demo_asleep_select:
  "execute demo_os (Usleep 50) demo_start = Some (Switched, demo_asleep)" "this_thread demo_asleep = 0"
  "idle_thread demo_asleep = 0" "thread_q demo_asleep = [0, 1]" "t_on_sleepq (threads demo_asleep 1)"
  "t_due (threads demo_asleep 1) = 150" "\<not> t_on_sleepq (threads demo_asleep 0)"
proof -
  note ops = st_usleep_def switch_context_def st_vp_schedule_def st_add_sleep_q_def heap_insert_at_def heap_place_def me_def
    demo_select primordial_object_def idle_object_def thread_zero_def St_Vp.ST_UTIME_NO_TIMEOUT_def set_state_def set_context_def
    upd_def Let_def
  show e: "execute demo_os (Usleep 50) demo_start = Some (Switched, demo_asleep)"
    by (simp add: demo_asleep_def ops)
  show "this_thread demo_asleep = 0" "idle_thread demo_asleep = 0" "thread_q demo_asleep = [0, 1]"
    "t_on_sleepq (threads demo_asleep 1)" "t_due (threads demo_asleep 1) = 150" "\<not> t_on_sleepq (threads demo_asleep 0)"
    by (simp_all add: demo_asleep_def ops)
qed

lemma demo_asleep_reachable: "st_reachable demo_os demo_start demo_asleep"
  by (rule st_reachable.step [OF st_reachable.start st_step.call [OF demo_user(1) _ demo_asleep_select(1)]]) simp_all

theorem expired_threads_wake_witness:
  "\<exists>s'. st_vp_check_clock 200 0 demo_asleep = Some s' \<and> run_q s' = [1] \<and> t_state (threads s' 1) = RUNNABLE"
proof -
  obtain ws s' where s': "st_vp_check_clock 200 0 demo_asleep = Some s'"
      "set ws = {a \<in> live demo_asleep. t_on_sleepq (threads demo_asleep a) \<and> t_due (threads demo_asleep a) \<le> 200}"
      "distinct ws" "run_q s' = ws" "\<forall>a. view s' a = (if a \<in> set ws then expired (view demo_asleep a) else view demo_asleep a)"
    using expired_threads_wake [OF demo_started demo_os_ok demo_asleep_reachable, of 200 0] demo_asleep_select(2,3) by auto
  have "{a \<in> live demo_asleep. t_on_sleepq (threads demo_asleep a) \<and> t_due (threads demo_asleep a) \<le> 200} = {1}"
    using demo_asleep_select by (auto simp: live_def)
  then have "set ws = {1}" using s'(2) by simp
  then have "length ws = 1" using distinct_card [OF s'(3)] by simp
  then have ws: "ws = [1]" using \<open>set ws = {1}\<close> by (cases ws) auto
  moreover have "t_state (view s' 1) = RUNNABLE" using s'(5) ws by (simp add: expired_def woken_def)
  ultimately show ?thesis using s'(1,4) by (auto simp: view_select)
qed

text \<open>
  C35: The time until the first thread is due is handed to \<^verbatim>\<open>epoll_wait\<close> as an \<^verbatim>\<open>int\<close> of milliseconds. If it is between \<open>2 ^ 31\<close> and
  \<open>2 ^ 32\<close> milliseconds the value becomes negative, which means no timeout: unless something else happens, the
  thread that sleeps for 25 days never wakes.
\<close>

theorem long_timeout_never_ends:
  assumes "sleep_q s = Some a" and "2 ^ 31 \<le> min_timeout s a div 1000" and "min_timeout s a div 1000 < 2 ^ 32"
  shows "epoll_timeout s < 0"
proof -
  let ?w = "min_timeout s a div 1000"
  have u: "2 ^ 31 \<le> uint ?w" "uint ?w < 2 ^ 32"
    using assms(2,3) by (simp_all add: word_le_def word_less_def)
  have "uint (ucast ?w :: i32) = uint ?w" using u by (simp add: unsigned_ucast_eq take_bit_int_eq_self)
  then have "2 ^ 31 \<le> uint (ucast ?w :: i32)" "uint (ucast ?w :: i32) < 2 ^ 32" using u by simp_all
  then have "uint (ucast ?w :: i32) div 2 ^ 31 = 1"
    by (intro int_div_pos_eq [of _ "2 ^ 31" 1 "uint (ucast ?w :: i32) - 2 ^ 31"]) simp_all
  then have "bit (uint (ucast ?w :: i32)) 31" by (simp add: bit_iff_odd)
  then have "sint (ucast ?w :: i32) < 0" by (simp add: sint_uint signed_take_bit_negative_iff)
  then show ?thesis using assms(1) by (simp add: epoll_timeout_def)
qed

theorem long_timeout_never_ends_witness:
  "epoll_timeout (snd (the (execute demo_os (Usleep 2147483648000) demo_start))) < 0"
proof -
  let ?s = "snd (the (execute demo_os (Usleep 2147483648000) demo_start))"
  note ops = st_usleep_def switch_context_def st_vp_schedule_def st_add_sleep_q_def heap_insert_at_def heap_place_def me_def
    demo_select primordial_object_def idle_object_def thread_zero_def St_Vp.ST_UTIME_NO_TIMEOUT_def set_state_def set_context_def
    upd_def Let_def
  have "sleep_q ?s = Some 1" "min_timeout ?s 1 = 2147483648000"
    by (simp_all add: min_timeout_def ops)
  then show ?thesis using long_timeout_never_ends [of ?s 1] by simp
qed

section \<open>Condition variables and mutexes\<close>

text \<open>
  C17: \<^verbatim>\<open>st_cond_signal\<close> wakes exactly the first of the threads that still wait for the condition
  variable, \<^verbatim>\<open>st_cond_broadcast\<close> exactly all of them, in the order in which they began to wait. Threads that were interrupted or timed out
  and have not run yet do not take the signal from another.
\<close>

theorem signal_wakes_waiters:
  assumes "st_started s0" and "os_ok os" and "st_reachable os s0 s" and "runs_user s" and "conds s c = Some q"
  shows "(\<exists>s'. st_cond_signal c s = Some (Returned 0, s') \<and> wakes (take 1 (filter (\<lambda>a. t_state (threads s a) = COND_WAIT) q)) s s') \<and>
    (\<exists>s'. st_cond_broadcast c s = Some (Returned 0, s') \<and> wakes (filter (\<lambda>a. t_state (threads s a) = COND_WAIT) q) s s')"
proof -
  note ok = signal_ok [OF reachable_inv [OF assms(1-3)] assms(4,5)]
  have "cond_waiters s c = filter (\<lambda>a. t_state (threads s a) = COND_WAIT) q"
    using assms(5) by (simp add: cond_waiters_def view_select)
  then show ?thesis using ok [of False] ok [of True] by (auto simp: st_cond_signal_def st_cond_broadcast_def)
qed

text \<open>Thread 1 makes a condition variable and another thread, and waits; the other one signals.\<close>

definition demo_cond :: st_vp where
  "demo_cond = demo_start\<lparr>conds := [2 \<mapsto> []], next_obj := 3\<rparr>"

definition demo_three :: st_vp where
  "demo_three = snd (st_thread_create True True False 0 demo_cond)"

definition demo_waiting :: st_vp where
  "demo_waiting = snd (the (execute demo_os (Cond_timedwait 2 St_Vp.ST_UTIME_NO_TIMEOUT) demo_three))"

lemma demo_waiting_select:
  "execute demo_os (Thread_create True True False 0) demo_cond = Some (Returned 3, demo_three)"
  "execute demo_os (Cond_timedwait 2 St_Vp.ST_UTIME_NO_TIMEOUT) demo_three = Some (Switched, demo_waiting)"
  "conds demo_waiting = [2 \<mapsto> [1]]" "t_state (threads demo_waiting 1) = COND_WAIT"
  "runs_user demo_cond" "runs_user demo_three" "runs_user demo_waiting" "conds demo_three 2 \<noteq> None"
proof -
  note ops = st_thread_create_def st_stack_new_def demo_cond_def demo_select Let_def make_runnable_def set_state_def upd_def
    st_cond_timedwait_def me_def primordial_object_def idle_object_def thread_zero_def sleep_unless_forever_def
    switch_context_def set_context_def st_vp_schedule_def
  show "execute demo_os (Thread_create True True False 0) demo_cond = Some (Returned 3, demo_three)"
    by (simp add: demo_three_def handle_def ops)
  show "execute demo_os (Cond_timedwait 2 St_Vp.ST_UTIME_NO_TIMEOUT) demo_three = Some (Switched, demo_waiting)"
    by (simp add: demo_waiting_def demo_three_def ops)
  show "conds demo_waiting = [2 \<mapsto> [1]]" "t_state (threads demo_waiting 1) = COND_WAIT"
    "runs_user demo_cond" "runs_user demo_three" "runs_user demo_waiting" "conds demo_three 2 \<noteq> None"
    by (simp_all add: demo_waiting_def demo_three_def ops runs_user_def view_select)
qed

lemma demo_waiting_reachable: "st_reachable demo_os demo_start demo_waiting"
proof -
  have "st_step demo_os (Some (Cond_new True)) demo_start (Returned 2) demo_cond"
    by (rule st_step.call) (simp_all add: demo_user handle_def st_cond_new_def demo_cond_def demo_select)
  then have "st_reachable demo_os demo_start demo_cond"
    by (rule st_reachable.step [OF st_reachable.start]) simp
  moreover have "st_step demo_os (Some (Thread_create True True False 0)) demo_cond (Returned 3) demo_three"
    by (rule st_step.call [OF demo_waiting_select(5) _ demo_waiting_select(1)]) simp
  ultimately have "st_reachable demo_os demo_start demo_three" by (rule st_reachable.step) simp
  moreover have "st_step demo_os (Some (Cond_timedwait 2 St_Vp.ST_UTIME_NO_TIMEOUT)) demo_three Switched demo_waiting"
    by (rule st_step.call [OF demo_waiting_select(6) _ demo_waiting_select(2)]) (simp add: demo_waiting_select(8))
  ultimately show ?thesis by (rule st_reachable.step) simp
qed

theorem signal_wakes_waiters_witness:
  "\<exists>s'. st_cond_signal 2 demo_waiting = Some (Returned 0, s') \<and> run_q s' = run_q demo_waiting @ [1]"
proof -
  have "conds demo_waiting 2 = Some [1]" by (simp add: demo_waiting_select(3))
  from signal_wakes_waiters [OF demo_started demo_os_ok demo_waiting_reachable demo_waiting_select(7) this]
  show ?thesis using demo_waiting_select(4) by (auto simp: wakes_def)
qed

text \<open>
  C16: No thread waits for a mutex that is free. When the owner gives a mutex back, the first thread of the queue
  that still waits is its owner at once and is put on the run queue; the mutex is free only if nobody waits.
\<close>

theorem unlocked_mutex_is_handed_over:
  assumes "st_started s0" and "os_ok os" and "st_reachable os s0 s"
  shows "(\<forall>a \<in> live s. t_context (threads s a) = In_lock m \<and> t_state (threads s a) = LOCK_WAIT \<longrightarrow> owner_of s m \<noteq> None) \<and>
    (owner_of s m = Some (this_thread s) \<longrightarrow>
      (\<exists>s'. st_mutex_unlock m s = Some (Returned 0, s') \<and>
        owner_of s' m = find (\<lambda>a. t_state (threads s a) = LOCK_WAIT) (mx_wait_q (mutex_at (mutexes s) m)) \<and>
        run_q s' = run_q s @ (case owner_of s' m of None \<Rightarrow> [] | Some a \<Rightarrow> [a])))"
proof -
  have inv: "st_inv s" by (rule reachable_inv [OF assms])
  have "owner_of s m \<noteq> None" if "a \<in> live s" "t_context (threads s a) = In_lock m" "t_state (threads s a) = LOCK_WAIT" for a
    using no_lost_unlock [OF inv that(1)] that(2,3) by (simp add: view_select)
  moreover have "\<exists>s'. st_mutex_unlock m s = Some (Returned 0, s') \<and>
        owner_of s' m = find (\<lambda>a. t_state (threads s a) = LOCK_WAIT) (mx_wait_q (mutex_at (mutexes s) m)) \<and>
        run_q s' = run_q s @ (case owner_of s' m of None \<Rightarrow> [] | Some a \<Rightarrow> [a])" if owner: "owner_of s m = Some (this_thread s)"
  proof -
    obtain mx where mx: "mutexes s m = Some mx" "mx_owner mx = Some (this_thread s)"
      using owner by (cases "mutexes s m") (simp_all add: owner_of_def mutex_at_def)
    then show ?thesis
      by (simp add: st_mutex_unlock_def Let_def returns_def owner_of_def make_runnable_def set_state_def split: option.split)
  qed
  ultimately show ?thesis by blast
qed

theorem unlocked_mutex_is_handed_over_witness:
  "\<exists>s'. st_mutex_unlock 2 demo_locked = Some (Returned 0, s') \<and> owner_of s' 2 = None"
proof -
  have "owner_of demo_locked 2 = Some (this_thread demo_locked)" "mx_wait_q (mutex_at (mutexes demo_locked) 2) = []"
    by (simp_all add: demo_locked_def owner_of_def demo_mutex_def demo_select)
  then show ?thesis
    using unlocked_mutex_is_handed_over [OF demo_started demo_os_ok demo_reachable, of 2] by auto
qed

section \<open>Events and descriptors\<close>

text \<open>
  C13: When \<^verbatim>\<open>epoll_wait\<close> reports events, exactly the threads one of whose requests was reported wake, in the order in which they began
  to wait, and find what was reported in their poll requests; an error or hang-up counts for every request on its descriptor. All others
  go on waiting, and the kernel stays registered for exactly what they ask for.
\<close>

theorem reported_threads_wake:
  assumes "st_started s0" and "os_ok os" and "st_reachable os s0 s" and "this_thread s = idle_thread s" and "kernel_ok os i s"
  shows "\<exists>s'. epoll_dispatch os (in_events i) s = Some s' \<and>
    run_q s' = filter (\<lambda>a. \<exists>pd \<in> set (pds_of s a). told (in_events i) (io_reqs s) pd \<noteq> {}) (io_q s) \<and>
    io_q s' = filter (\<lambda>a. a \<notin> set (run_q s')) (io_q s) \<and>
    (\<forall>a \<in> set (run_q s'). map pd_revents (pds_of s' a) = map (told (in_events i) (io_reqs s)) (pds_of s a)) \<and>
    (\<forall>a. a \<notin> set (io_q s) \<longrightarrow> view s' a = view s a) \<and>
    (\<forall>fd. ep_interest (ep s') fd = wanted (io_reqs s') fd)"
proof -
  have inv: "st_inv s" by (rule reachable_inv [OF assms(1-3)])
  have fit: "st_fits (Some (idle_thread s)) s" using running(7) [OF inv] assms(4) by simp
  have idle: "run_q s = []" using inv assms(4) by (simp add: st_inv_def)
  have vp: "vp_inv (Some (idle_thread s)) s" "ev_inv s" using fit by (simp_all add: st_fits_def)
  have k: "ep_pid (ep s) = os_pid os" "reports_ok (in_events i) s" using assms(5) by (simp_all add: kernel_ok_def)
  obtain s' where s': "epoll_dispatch os (in_events i) s = Some s'" "ev_inv s'"
      "run_q s' = filter (\<lambda>a. \<exists>pd \<in> set (pds_of s a). told (in_events i) (io_reqs s) pd \<noteq> {}) (io_q s)"
      "io_q s' = filter (\<lambda>a. a \<notin> set (run_q s')) (io_q s)"
      "\<forall>a \<in> set (run_q s'). map pd_revents (pds_of s' a) = map (told (in_events i) (io_reqs s)) (pds_of s a)"
      "\<forall>a. a \<notin> set (io_q s) \<longrightarrow> view s' a = view s a"
    using epoll_dispatch_ok [OF vp idle refl k] by blast
  have "\<forall>fd. ep_interest (ep s') fd = wanted (io_reqs s') fd" using s'(2) by (simp add: ev_inv_def ep_fits_def)
  with s' show ?thesis by (intro exI [of _ s'] conjI)
qed

text \<open>Thread 1 waits for input on descriptor 5.\<close>

definition demo_polling :: st_vp where
  "demo_polling = snd (the (execute demo_os (Poll [\<lparr>pd_fd = 5, pd_events = {POLLIN}, pd_revents = {}\<rparr>] St_Vp.ST_UTIME_NO_TIMEOUT) demo_start))"

lemma demo_polling_select:
  "execute demo_os (Poll [\<lparr>pd_fd = 5, pd_events = {POLLIN}, pd_revents = {}\<rparr>] St_Vp.ST_UTIME_NO_TIMEOUT) demo_start =
     Some (Switched, demo_polling)"
  "this_thread demo_polling = 0" "idle_thread demo_polling = 0" "io_q demo_polling = [1]" "ep_pid (ep demo_polling) = 7"
  "pds_of demo_polling 1 = [\<lparr>pd_fd = 5, pd_events = {POLLIN}, pd_revents = {}\<rparr>]" "ep_interest (ep demo_polling) 5 \<noteq> None"
proof -
  obtain e where e: "epoll_init 1024 True True True True 7 = Some e" by (simp add: epoll_init_def Let_def)
  then obtain rv where "st_init True (Some e) 4096 100 True True vp_start = (rv, demo_start)"
    by (metis demo_start_def prod.collapse)
  then have "ep demo_start = e" by (rule st_init_result(15))
  then have ep: "ep demo_start = \<lparr>fd_data = (\<lambda>_. fd_data_zero), fd_data_size = 1024, evtlist_size = 1024, evtlist_cnt = 0,
      fd_hint = 1024, ep_pid = 7, ep_interest = (\<lambda>_. None)\<rparr>"
    using e by (simp add: epoll_init_def Let_def)
  note ops = st_poll_vp_def epoll_pollset_add_def pollset_add_one_def epoll_events_def upd_fd_def count_events_def fd_data_zero_def
    ep demo_os_def demo_select(1-14,16) Let_def set_state_def upd_def update_thread_def me_def primordial_object_def idle_object_def
    thread_zero_def sleep_unless_forever_def switch_context_def set_context_def st_vp_schedule_def
  show "execute demo_os (Poll [\<lparr>pd_fd = 5, pd_events = {POLLIN}, pd_revents = {}\<rparr>] St_Vp.ST_UTIME_NO_TIMEOUT) demo_start =
     Some (Switched, demo_polling)"
    by (simp add: demo_polling_def ops)
  show "this_thread demo_polling = 0" "idle_thread demo_polling = 0" "io_q demo_polling = [1]" "ep_pid (ep demo_polling) = 7"
    "pds_of demo_polling 1 = [\<lparr>pd_fd = 5, pd_events = {POLLIN}, pd_revents = {}\<rparr>]" "ep_interest (ep demo_polling) 5 \<noteq> None"
    by (simp_all add: demo_polling_def pds_of_def view_select ops)
qed

lemma demo_polling_reachable: "st_reachable demo_os demo_start demo_polling"
  by (rule st_reachable.step [OF st_reachable.start st_step.call [OF demo_user(1) _ demo_polling_select(1)]]) simp_all

theorem reported_threads_wake_witness:
  "\<exists>s'. epoll_dispatch demo_os [(5, {POLLIN})] demo_polling = Some s' \<and> run_q s' = [1] \<and> io_q s' = [] \<and>
     map pd_revents (pds_of s' 1) = [{POLLIN}]"
proof -
  let ?i = "\<lparr>in_events = [(5, {POLLIN})], in_utime = 0, in_time = 0\<rparr>"
  have "kernel_ok demo_os ?i demo_polling"
    using demo_os_ok demo_polling_select(5,7) by (simp add: kernel_ok_def reports_ok_def demo_os_def)
  from reported_threads_wake [OF demo_started demo_os_ok demo_polling_reachable _ this] obtain s' where
    s': "epoll_dispatch demo_os [(5, {POLLIN})] demo_polling = Some s'"
      "run_q s' = filter (\<lambda>a. \<exists>pd \<in> set (pds_of demo_polling a). told [(5, {POLLIN})] (io_reqs demo_polling) pd \<noteq> {}) [1]"
      "io_q s' = filter (\<lambda>a. a \<notin> set (run_q s')) [1]"
      "\<forall>a \<in> set (run_q s'). map pd_revents (pds_of s' a) = map (told [(5, {POLLIN})] (io_reqs demo_polling)) (pds_of demo_polling a)"
    using demo_polling_select(2-4) by auto
  have "told [(5, {POLLIN})] (io_reqs demo_polling) \<lparr>pd_fd = 5, pd_events = {POLLIN}, pd_revents = {}\<rparr> = {POLLIN}"
    by (auto simp: told_def reports_def)
  then have "\<exists>pd \<in> set (pds_of demo_polling 1). told [(5, {POLLIN})] (io_reqs demo_polling) pd \<noteq> {}"
      and answer: "map (told [(5, {POLLIN})] (io_reqs demo_polling)) (pds_of demo_polling 1) = [{POLLIN}]"
    by (simp_all only: demo_polling_select(6)) simp_all
  then have run: "run_q s' = [1]" using s'(2) by (simp only: filter.simps if_True)
  then have "io_q s' = []" using s'(3) by simp
  then show ?thesis using s'(1,4) run answer by simp
qed

text \<open>
  C18: The three event systems keep the same contract: after any history of adding descriptor sets, which may be refused, and deleting some
  of those that were added, epoll's registrations are exactly the events that the remaining sets ask for, the three sets of \<^verbatim>\<open>select\<close> are
  exactly their descriptors, none of them above the greatest one, and the array of \<^verbatim>\<open>poll\<close> has exactly their size.
\<close>

theorem event_systems_hold_requests:
  assumes "os_ok os" and "epoll_init fdlim True True True True pid = Some e" and "select_init True = Some d" and "poll_init True True = Some p"
  shows "(\<forall>fd. ep_interest (snd (fold (run_set_op (epoll_add os) (epoll_pollset_del os)) h ([], e))) fd =
      wanted (reqs (concat (fst (fold (run_set_op (epoll_add os) (epoll_pollset_del os)) h ([], e))))) fd) \<and>
    (let (out, d') = fold (run_set_op select_add select_pollset_del) h ([], d) in
      fd_read_set d' = {pd_fd pd | pd. pd \<in> set (concat out) \<and> POLLIN \<in> pd_events pd} \<and>
      fd_write_set d' = {pd_fd pd | pd. pd \<in> set (concat out) \<and> POLLOUT \<in> pd_events pd} \<and>
      fd_exception_set d' = {pd_fd pd | pd. pd \<in> set (concat out) \<and> POLLPRI \<in> pd_events pd} \<and>
      (\<forall>pd \<in> set (concat out). 0 \<le> pd_fd pd \<and> pd_fd pd \<le> sel_maxfd d')) \<and>
    (let (out, p') = fold (run_set_op poll_add poll_del) h ([], p) in poll_osfd_cnt p' = int (length (concat out)))"
proof -
  let ?e = "fold (run_set_op (epoll_add os) (epoll_pollset_del os)) h ([], e)"
  let ?d = "fold (run_set_op select_add select_pollset_del) h ([], d)" and ?p = "fold (run_set_op poll_add poll_del) h ([], p)"
  have "epoll_holds os (concat []) e" using assms(1) epoll_init_fits [OF assms(2)] by (simp add: epoll_holds_def)
  then have "epoll_holds os (concat (fst ?e)) (snd ?e)" by (rule epoll_system.run_history) simp
  then have e: "ep_interest (snd ?e) fd = wanted (reqs (concat (fst ?e))) fd" for fd by (simp add: epoll_holds_def ep_fits_def)
  have "select_holds (concat []) d" using assms(3) by (auto simp: select_init_def select_holds_def select_counts_def)
  then have d: "select_holds (concat (fst ?d)) (snd ?d)" by (rule select_system.run_history) simp
  have "{fd. reqs q f fd \<noteq> 0} = {pd_fd pd | pd. pd \<in> set q \<and> f \<in> pd_events pd}" for f q
    by (auto simp: reqs_def filter_empty_conv)
  then have sets: "fd_read_set (snd ?d) = {pd_fd pd | pd. pd \<in> set (concat (fst ?d)) \<and> POLLIN \<in> pd_events pd}"
      "fd_write_set (snd ?d) = {pd_fd pd | pd. pd \<in> set (concat (fst ?d)) \<and> POLLOUT \<in> pd_events pd}"
      "fd_exception_set (snd ?d) = {pd_fd pd | pd. pd \<in> set (concat (fst ?d)) \<and> POLLPRI \<in> pd_events pd}"
    using d by (simp_all only: select_holds_def select_counts_def)
  have max: "\<forall>pd \<in> set (concat (fst ?d)). 0 \<le> pd_fd pd \<and> pd_fd pd \<le> sel_maxfd (snd ?d)"
    using d unfolding select_holds_def valid_pd_def by blast
  have "poll_holds (concat []) p" using assms(4) by (auto simp: poll_init_def poll_holds_def)
  then have "poll_holds (concat (fst ?p)) (snd ?p)" by (rule poll_system.run_history) simp
  then have p: "poll_osfd_cnt (snd ?p) = int (length (concat (fst ?p)))" by (simp only: poll_holds_def)
  show ?thesis unfolding case_prod_unfold Let_def using e sets max p by blast
qed

theorem event_systems_hold_requests_witness:
  "let (out, p) = fold (run_set_op poll_add poll_del)
       [AddSet [\<lparr>pd_fd = 5, pd_events = {POLLIN}, pd_revents = {}\<rparr>], AddSet [\<lparr>pd_fd = 6, pd_events = {POLLOUT}, pd_revents = {}\<rparr>], DelSet 0]
       ([], \<lparr>pollfds_size = 64, poll_osfd_cnt = 0\<rparr>) in poll_osfd_cnt p = int (length (concat out))"
proof -
  obtain e where e: "epoll_init 1024 True True True True 7 = Some e" by (simp add: epoll_init_def Let_def)
  obtain d where d: "select_init True = Some d" by (simp add: select_init_def)
  have p: "poll_init True True = Some \<lparr>pollfds_size = 64, poll_osfd_cnt = 0\<rparr>" by (simp add: poll_init_def)
  show ?thesis using event_systems_hold_requests [OF demo_os_ok e d p] by blast
qed

text \<open>
  C19: The dispatching of the other two event systems wakes exactly the threads one of whose requests \<^verbatim>\<open>select\<close> or \<^verbatim>\<open>poll\<close> answers, in
  order and with the answers, keeps the queues right, and leaves the data with exactly the requests of the threads that go on
  waiting. No assertion of \<^verbatim>\<open>_st_poll_dispatch\<close> fails, and its array never overflows.
\<close>

theorem select_and_poll_wake_reported:
  assumes "vp_inv (Some (idle_thread s)) s" and "run_q s = []"
  shows "(select_holds (io_pds s) d \<longrightarrow> (\<exists>d' s'. select_dispatch (SelectReady rs ws xs) (d, s) = Some (d', s') \<and>
      vp_inv (Some (idle_thread s)) s' \<and> select_holds (io_pds s') d' \<and>
      run_q s' = filter (gets_answer (select_result rs ws xs) s) (io_q s) \<and>
      (\<forall>a \<in> set (run_q s'). pds_of s' a = map (select_result rs ws xs) (pds_of s a)))) \<and>
    (poll_holds (io_pds s) p \<longrightarrow> (\<exists>p' s'. poll_dispatch True (Some ready) (p, s) = Some (p', s') \<and>
      vp_inv (Some (idle_thread s)) s' \<and> poll_holds (io_pds s') p' \<and>
      run_q s' = filter (gets_answer (poll_answer ready) s) (io_q s) \<and>
      (\<forall>a \<in> set (run_q s'). pds_of s' a = map (poll_answer ready) (pds_of s a))))"
proof -
  have told: "run_q s' = filter P (io_q s) \<and> (\<forall>a \<in> set (run_q s'). pds_of s' a = ans a)"
    if "walked ans P w (io_q s) s s'" for ans P w s'
    using that assms(2) by (auto simp: walked_def pds_of_def woken_def)
  have "\<exists>d' s'. select_dispatch (SelectReady rs ws xs) (d, s) = Some (d', s') \<and>
      vp_inv (Some (idle_thread s)) s' \<and> select_holds (io_pds s') d' \<and>
      run_q s' = filter (gets_answer (select_result rs ws xs) s) (io_q s) \<and>
      (\<forall>a \<in> set (run_q s'). pds_of s' a = map (select_result rs ws xs) (pds_of s a))" if "select_holds (io_pds s) d"
    using select_dispatch_ok [OF assms(1,2) refl that, of "SelectReady rs ws xs"] told by fastforce
  moreover have "\<exists>p' s'. poll_dispatch True (Some ready) (p, s) = Some (p', s') \<and>
      vp_inv (Some (idle_thread s)) s' \<and> poll_holds (io_pds s') p' \<and>
      run_q s' = filter (gets_answer (poll_answer ready) s) (io_q s) \<and>
      (\<forall>a \<in> set (run_q s'). pds_of s' a = map (poll_answer ready) (pds_of s a))" if "poll_holds (io_pds s) p"
    using poll_dispatch_ok [OF assms(1,2) refl that, of ready] told by blast
  ultimately show ?thesis by blast
qed

theorem select_and_poll_wake_reported_witness:
  "\<exists>p' s'. poll_dispatch True (Some (\<lambda>fd. if fd = 5 then {POLLIN} else {})) (\<lparr>pollfds_size = 64, poll_osfd_cnt = 1\<rparr>, demo_polling) = Some (p', s') \<and>
     run_q s' = [1]"
proof -
  have inv: "st_inv demo_polling" by (rule reachable_inv [OF demo_started demo_os_ok demo_polling_reachable])
  have vp: "vp_inv (Some (idle_thread demo_polling)) demo_polling"
    using running(7) [OF inv] demo_polling_select(2,3) by (simp add: st_fits_def)
  have idle: "run_q demo_polling = []" using inv demo_polling_select(2,3) by (simp add: st_inv_def)
  have holds: "poll_holds (io_pds demo_polling) \<lparr>pollfds_size = 64, poll_osfd_cnt = 1\<rparr>"
    using demo_polling_select(6) by (simp add: poll_holds_def io_pds_def demo_polling_select(4))
  have one: "pds_of demo_polling (Suc 0) = [\<lparr>pd_fd = 5, pd_events = {POLLIN}, pd_revents = {}\<rparr>]" using demo_polling_select(6) by simp
  then have woken: "filter (gets_answer (poll_answer (\<lambda>fd. if fd = 5 then {POLLIN} else {})) demo_polling) (io_q demo_polling) = [1]"
    by (simp add: demo_polling_select(4) gets_answer_def poll_answer_def)
  obtain p' s' where "poll_dispatch True (Some (\<lambda>fd. if fd = 5 then {POLLIN} else {})) (\<lparr>pollfds_size = 64, poll_osfd_cnt = 1\<rparr>, demo_polling) = Some (p', s')"
    "run_q s' = filter (gets_answer (poll_answer (\<lambda>fd. if fd = 5 then {POLLIN} else {})) demo_polling) (io_q demo_polling)"
    using conjunct2 [OF select_and_poll_wake_reported [OF vp idle]] holds by blast
  then show ?thesis unfolding woken by blast
qed

text \<open>
  C34: \<^verbatim>\<open>st_accept\<close> gives a descriptor object that nobody else has, without data of an earlier user, for a new descriptor that does not
  block; or it fails, and then no descriptor it accepted stays open and no object is lost. The objects that are in use stay as
  they are.
\<close>

theorem accept_leaks_nothing:
  assumes "netfds_ok s" and "st_accept io timeout answers ps s = Some (r, s')"
    and "\<forall>osfd. Inr osfd \<in> set answers \<longrightarrow> os_open s osfd = None"
  shows "netfds_ok s' \<and> (\<forall>b. nf_inuse (netfd s b) \<longrightarrow> netfd s' b = netfd s b) \<and>
    (case r of
       None \<Rightarrow> in_use s' = in_use s \<and> os_open s' = os_open s
     | Some a \<Rightarrow> a \<notin> in_use s \<and> in_use s' = insert a (in_use s) \<and> nf_private_data (netfd s' a) = 0 \<and>
         Inr (nf_osfd (netfd s' a)) \<in> set answers \<and> os_open s' = (os_open s)(nf_osfd (netfd s' a) \<mapsto> True))"
  using accept_ok [OF assms] by (simp add: users_same_def in_use_def)

definition demo_io :: st_io where
  "demo_io = \<lparr>netfd = (\<lambda>_. \<lparr>nf_osfd = 0, nf_inuse = False, nf_private_data = 0, nf_destructor = False\<rparr>),
     netfd_freelist = [], netfd_next = 0, os_open = [3 \<mapsto> True], io_ep = ep demo_start, nf_destroyed = [], io_errno = ENONE\<rparr>"

definition demo_refusing :: io_os where
  "demo_refusing = \<lparr>io_realloc_ok = True, io_calloc_ok = True, io_ioctl_ok = False, io_fcntl_fails = Some EBADF\<rparr>"

theorem accept_leaks_nothing_witness:
  "\<exists>s'. st_accept demo_refusing 0 [Inl EINTR, Inl EAGAIN, Inr 5] [PollReady ENONE] demo_io = Some (None, s') \<and>
     os_open s' = [3 \<mapsto> True] \<and> netfds_ok s'"
proof -
  have e: "event_fd_new demo_refusing 5 (ep demo_start) = (True, ep demo_start)"
  proof -
    have "fd_data_size (ep demo_start) = 1024" by (rule demo_array)
    then show ?thesis by (simp add: event_fd_new_def epoll_fd_new_def)
  qed
  let ?as = "[Inl EINTR, Inl EAGAIN, Inr 5]"
  obtain s' where run: "st_accept demo_refusing 0 ?as [PollReady ENONE] demo_io = Some (None, s')"
    by (simp add: st_accept_def new_or_close_def st_netfd_new_def demo_io_def e netfd_alloc_def Let_def split_beta)
      (simp add: demo_refusing_def)
  have "netfds_ok demo_io" "\<forall>osfd. Inr osfd \<in> set ?as \<longrightarrow> os_open demo_io osfd = None"
    by (simp_all add: netfds_ok_def demo_io_def)
  from accept_leaks_nothing [OF this(1) run this(2)] show ?thesis using run by (simp add: demo_io_def)
qed

end
