(* ===== verification/Rss_Stream.thy ===== *)
theory Rss_Stream
  imports Rss_Prelude
begin

text \<open>
  \<^verbatim>\<open>RssStream\<close> (\<^verbatim>\<open>rss_core_stream.cpp\<close>): a cursor over a byte array owned by somebody else. The
  state is the array (\<open>None\<close> for the null pointer), the cursor \<^verbatim>\<open>p\<close> as its offset from
  \<^verbatim>\<open>bytes\<close>, and the size. The cursor is an \<^typ>\<open>int\<close>: \<^verbatim>\<open>skip\<close> takes any value, so nothing in the
  class keeps it inside the array. A load or store through a cursor outside the array is
  \<^const>\<open>Undefined\<close>. The lemmas show that the big-endian readers and writers are inverse to each
  other and that a stream in its well-formed range stays there, whatever is read or written.
\<close>

record RssStream =
  stream_bytes :: "byte list option"
  stream_p :: int
  stream_size :: int

type_synonym 'a stream_comp = "(RssStream, 'a) comp"

section \<open>The class\<close>

definition stream_new :: RssStream where
  "stream_new = \<lparr>stream_bytes = None, stream_p = 0, stream_size = 0\<rparr>"

text \<open>
  The stream sees the first \<^verbatim>\<open>size\<close> bytes of the array it is given; an access behind them counts as
  outside the buffer even when the array is longer.
\<close>

definition stream_initialize :: "byte list option \<Rightarrow> int \<Rightarrow> unit stream_comp" where
  "stream_initialize arr n =
     (if arr = None then fail (Code ERROR_SYSTEM_STREAM_INIT)
      else if n \<le> 0 then fail (Code ERROR_SYSTEM_STREAM_INIT)
      else modify (\<lambda>s. s\<lparr>stream_size := n, stream_p := 0,
        stream_bytes := map_option (take (nat n)) arr\<rparr>))"

definition stream_reset :: "unit stream_comp" where
  "stream_reset = modify (\<lambda>s. s\<lparr>stream_p := 0\<rparr>)"

definition stream_empty :: "RssStream \<Rightarrow> bool" where
  "stream_empty s \<longleftrightarrow> stream_bytes s = None \<or> stream_size s \<le> stream_p s"

definition stream_require :: "int \<Rightarrow> RssStream \<Rightarrow> bool" where
  "stream_require n s \<longleftrightarrow> \<not> stream_empty s \<and> n \<le> stream_size s - stream_p s"

definition stream_skip :: "int \<Rightarrow> unit stream_comp" where
  "stream_skip n = modify (\<lambda>s. s\<lparr>stream_p := stream_p s + n\<rparr>)"

definition stream_pos :: "RssStream \<Rightarrow> int" where
  "stream_pos s = (if stream_empty s then 0 else stream_p s)"

text \<open>The expression \<^verbatim>\<open>*p++\<close>, as a load and as the target of a store.\<close>

definition load_byte :: "byte stream_comp" where
  "load_byte s =
     (case stream_bytes s of
        None \<Rightarrow> (Inl Undefined, s)
      | Some bs \<Rightarrow>
          if 0 \<le> stream_p s \<and> stream_p s < int (length bs)
          then (Inr (bs ! nat (stream_p s)), s\<lparr>stream_p := stream_p s + 1\<rparr>)
          else (Inl Undefined, s))"

definition store_byte :: "byte \<Rightarrow> unit stream_comp" where
  "store_byte b s =
     (case stream_bytes s of
        None \<Rightarrow> (Inl Undefined, s)
      | Some bs \<Rightarrow>
          if 0 \<le> stream_p s \<and> stream_p s < int (length bs)
          then (Inr (), s\<lparr>stream_bytes := Some (bs[nat (stream_p s) := b]),
                          stream_p := stream_p s + 1\<rparr>)
          else (Inl Undefined, s))"

definition assert_require :: "int \<Rightarrow> unit stream_comp" where
  "assert_require n = bind (get (stream_require n)) assert"

definition read_1bytes :: "byte stream_comp" where
  "read_1bytes = bind (assert_require 1) (\<lambda>_. load_byte)"

definition read_2bytes :: "i16 stream_comp" where
  "read_2bytes =
     bind (assert_require 2) (\<lambda>_.
     bind load_byte (\<lambda>b1.
     bind load_byte (\<lambda>b0.
     return (of_bytes [b0, b1]))))"

definition read_4bytes :: "i32 stream_comp" where
  "read_4bytes =
     bind (assert_require 4) (\<lambda>_.
     bind load_byte (\<lambda>b3.
     bind load_byte (\<lambda>b2.
     bind load_byte (\<lambda>b1.
     bind load_byte (\<lambda>b0.
     return (of_bytes [b0, b1, b2, b3]))))))"

definition read_8bytes :: "i64 stream_comp" where
  "read_8bytes =
     bind (assert_require 8) (\<lambda>_.
     bind load_byte (\<lambda>b7.
     bind load_byte (\<lambda>b6.
     bind load_byte (\<lambda>b5.
     bind load_byte (\<lambda>b4.
     bind load_byte (\<lambda>b3.
     bind load_byte (\<lambda>b2.
     bind load_byte (\<lambda>b1.
     bind load_byte (\<lambda>b0.
     return (of_bytes [b0, b1, b2, b3, b4, b5, b6, b7]))))))))))"

text \<open>
  \<^verbatim>\<open>value.append(p, len)\<close>: a negative \<^verbatim>\<open>len\<close> becomes a huge \<^verbatim>\<open>size_t\<close> and \<^verbatim>\<open>append\<close> throws
  \<^verbatim>\<open>std::length_error\<close>.
\<close>

definition load_string :: "int \<Rightarrow> string stream_comp" where
  "load_string len s =
     (if len < 0 then (Inl CppException, s)
      else case stream_bytes s of
        None \<Rightarrow> (Inl Undefined, s)
      | Some bs \<Rightarrow>
          if 0 \<le> stream_p s \<and> stream_p s + len \<le> int (length bs)
          then (Inr (string_of_bytes (take (nat len) (drop (nat (stream_p s)) bs))),
                s\<lparr>stream_p := stream_p s + len\<rparr>)
          else (Inl Undefined, s))"

definition read_string :: "int \<Rightarrow> string stream_comp" where
  "read_string len = bind (assert_require len) (\<lambda>_. load_string len)"

definition write_1bytes :: "byte \<Rightarrow> unit stream_comp" where
  "write_1bytes v = bind (assert_require 1) (\<lambda>_. store_byte v)"

definition write_2bytes :: "i16 \<Rightarrow> unit stream_comp" where
  "write_2bytes v =
     bind (assert_require 2) (\<lambda>_.
     bind (store_byte (byte_at 1 v)) (\<lambda>_.
     store_byte (byte_at 0 v)))"

definition write_4bytes :: "i32 \<Rightarrow> unit stream_comp" where
  "write_4bytes v =
     bind (assert_require 4) (\<lambda>_.
     bind (store_byte (byte_at 3 v)) (\<lambda>_.
     bind (store_byte (byte_at 2 v)) (\<lambda>_.
     bind (store_byte (byte_at 1 v)) (\<lambda>_.
     store_byte (byte_at 0 v)))))"

definition write_8bytes :: "i64 \<Rightarrow> unit stream_comp" where
  "write_8bytes v =
     bind (assert_require 8) (\<lambda>_.
     bind (store_byte (byte_at 7 v)) (\<lambda>_.
     bind (store_byte (byte_at 6 v)) (\<lambda>_.
     bind (store_byte (byte_at 5 v)) (\<lambda>_.
     bind (store_byte (byte_at 4 v)) (\<lambda>_.
     bind (store_byte (byte_at 3 v)) (\<lambda>_.
     bind (store_byte (byte_at 2 v)) (\<lambda>_.
     bind (store_byte (byte_at 1 v)) (\<lambda>_.
     store_byte (byte_at 0 v)))))))))"

text \<open>\<^verbatim>\<open>memcpy(p, value.data(), value.length()); p += value.length();\<close>\<close>

definition store_string :: "string \<Rightarrow> unit stream_comp" where
  "store_string v s =
     (case stream_bytes s of
        None \<Rightarrow> (Inl Undefined, s)
      | Some bs \<Rightarrow>
          if 0 \<le> stream_p s \<and> stream_p s + int (length v) \<le> int (length bs)
          then (Inr (), s\<lparr>stream_bytes := Some (take (nat (stream_p s)) bs @ bytes_of_string v @
                            drop (nat (stream_p s) + length v) bs),
                          stream_p := stream_p s + int (length v)\<rparr>)
          else (Inl Undefined, s))"

definition write_string :: "string \<Rightarrow> unit stream_comp" where
  "write_string v = bind (assert_require (int_of_size (length v))) (\<lambda>_. store_string v)"

section \<open>Streams with a given past and future\<close>

text \<open>
  \<open>strm pre rest\<close> is a stream whose cursor stands between the bytes \<open>pre\<close> and the bytes \<open>rest\<close>.
  Every fact about a reader or a writer is an equation between such streams.
\<close>

definition strm :: "byte list \<Rightarrow> byte list \<Rightarrow> RssStream" where
  "strm pre rest = \<lparr>stream_bytes = Some (pre @ rest), stream_p = int (length pre),
                    stream_size = int (length pre + length rest)\<rparr>"

lemma strm_sel [simp]:
  "stream_bytes (strm pre rest) = Some (pre @ rest)"
  "stream_p (strm pre rest) = int (length pre)"
  "stream_size (strm pre rest) = int (length pre + length rest)"
  by (simp_all add: strm_def)

lemma strm_inject [simp]: "strm pre rest = strm pre' rest' \<longleftrightarrow> pre = pre' \<and> rest = rest'"
  by (auto simp: strm_def)

lemma strm_empty [simp]: "stream_empty (strm pre rest) \<longleftrightarrow> rest = []"
  by (simp add: stream_empty_def)

lemma strm_require [simp]:
  "stream_require n (strm pre rest) \<longleftrightarrow> rest \<noteq> [] \<and> n \<le> int (length rest)"
  by (simp add: stream_require_def)

lemma strm_pos [simp]: "stream_pos (strm pre rest) = (if rest = [] then 0 else int (length pre))"
  by (simp add: stream_pos_def)

lemma stream_initialize_take:
  "0 < n \<Longrightarrow> n \<le> int (length bs) \<Longrightarrow> stream_initialize (Some bs) n s = (Inr (), strm [] (take (nat n) bs))"
  by (cases s) (simp add: stream_initialize_def strm_def)

lemma stream_initialize_strm:
  "bs \<noteq> [] \<Longrightarrow> stream_initialize (Some bs) (int (length bs)) s = (Inr (), strm [] bs)"
  by (simp add: stream_initialize_take)

lemma stream_skip_back: "stream_skip (-1) (strm (pre @ [b]) rest) = (Inr (), strm pre (b # rest))"
  by (simp add: stream_skip_def strm_def)

lemma stream_skip_back2:
  "stream_skip (-2) (strm (pre @ [a, b]) rest) = (Inr (), strm pre (a # b # rest))"
  by (simp add: stream_skip_def strm_def)

lemma stream_skip_forward: "stream_skip 1 (strm pre (b # rest)) = (Inr (), strm (pre @ [b]) rest)"
  by (simp add: stream_skip_def strm_def)

lemma stream_reset_strm: "stream_reset (strm pre rest) = (Inr (), strm [] (pre @ rest))"
  by (simp add: stream_reset_def strm_def)

lemma assert_require_strm:
  "assert_require n (strm pre rest) =
     (if rest \<noteq> [] \<and> n \<le> int (length rest) then (Inr (), strm pre rest)
      else (Inl AssertFailed, strm pre rest))"
  by (simp add: assert_require_def)

lemma load_byte_strm [simp]: "load_byte (strm pre (b # rest)) = (Inr b, strm (pre @ [b]) rest)"
  by (simp add: load_byte_def strm_def nth_append)

lemma store_byte_strm [simp]:
  "store_byte b (strm pre (x # rest)) = (Inr (), strm (pre @ [b]) rest)"
  by (simp add: store_byte_def strm_def list_update_append)

lemma store_string_strm:
  "length v \<le> length rest \<Longrightarrow>
   store_string v (strm pre rest) = (Inr (), strm (pre @ bytes_of_string v) (drop (length v) rest))"
  by (simp add: store_string_def strm_def)

lemma load_string_strm:
  "load_string (int (length bs)) (strm pre (bs @ rest)) =
     (Inr (string_of_bytes bs), strm (pre @ bs) rest)"
  by (simp add: load_string_def strm_def)

lemma read_1bytes_strm [simp]: "read_1bytes (strm pre (b # rest)) = (Inr b, strm (pre @ [b]) rest)"
  by (simp add: read_1bytes_def assert_require_strm)

lemma read_2bytes_strm [simp]:
  "read_2bytes (strm pre (b1 # b0 # rest)) =
     (Inr (of_bytes [b0, b1]), strm (pre @ [b1, b0]) rest)"
  by (simp add: read_2bytes_def assert_require_strm)

lemma read_4bytes_strm [simp]:
  "read_4bytes (strm pre (b3 # b2 # b1 # b0 # rest)) =
     (Inr (of_bytes [b0, b1, b2, b3]), strm (pre @ [b3, b2, b1, b0]) rest)"
  by (simp add: read_4bytes_def assert_require_strm)

lemma read_8bytes_strm [simp]:
  "read_8bytes (strm pre (b7 # b6 # b5 # b4 # b3 # b2 # b1 # b0 # rest)) =
     (Inr (of_bytes [b0, b1, b2, b3, b4, b5, b6, b7]),
      strm (pre @ [b7, b6, b5, b4, b3, b2, b1, b0]) rest)"
  by (simp add: read_8bytes_def assert_require_strm)

lemma read_string_strm:
  "bs \<noteq> [] \<Longrightarrow> read_string (int (length bs)) (strm pre (bs @ rest)) =
     (Inr (string_of_bytes bs), strm (pre @ bs) rest)"
  by (simp add: read_string_def assert_require_strm load_string_strm)

text \<open>The big-endian images of the writers.\<close>

definition be2 :: "i16 \<Rightarrow> byte list" where
  "be2 v = [byte_at 1 v, byte_at 0 v]"

definition be4 :: "i32 \<Rightarrow> byte list" where
  "be4 v = [byte_at 3 v, byte_at 2 v, byte_at 1 v, byte_at 0 v]"

definition be8 :: "i64 \<Rightarrow> byte list" where
  "be8 v = [byte_at 7 v, byte_at 6 v, byte_at 5 v, byte_at 4 v,
            byte_at 3 v, byte_at 2 v, byte_at 1 v, byte_at 0 v]"

lemma length_be [simp]: "length (be2 v) = 2" "length (be4 w) = 4" "length (be8 x) = 8"
  by (simp_all add: be2_def be4_def be8_def)

lemma split_front: "n \<le> length xs \<Longrightarrow> \<exists>ys zs. xs = ys @ zs \<and> length ys = n"
  by (metis append_take_drop_id length_take min.absorb2)

lemma write_1bytes_strm [simp]:
  "write_1bytes v (strm pre (x # rest)) = (Inr (), strm (pre @ [v]) rest)"
  by (simp add: write_1bytes_def assert_require_strm)

lemma write_2bytes_strm:
  "2 \<le> length rest \<Longrightarrow> write_2bytes v (strm pre rest) = (Inr (), strm (pre @ be2 v) (drop 2 rest))"
  by (auto simp: write_2bytes_def assert_require_strm be2_def numeral_2_eq_2 length_Suc_conv
      dest!: split_front)

lemma write_4bytes_strm:
  "4 \<le> length rest \<Longrightarrow> write_4bytes v (strm pre rest) = (Inr (), strm (pre @ be4 v) (drop 4 rest))"
  by (auto simp: write_4bytes_def assert_require_strm be4_def eval_nat_numeral length_Suc_conv
      dest!: split_front)

lemma write_8bytes_strm:
  "8 \<le> length rest \<Longrightarrow> write_8bytes v (strm pre rest) = (Inr (), strm (pre @ be8 v) (drop 8 rest))"
  by (auto simp: write_8bytes_def assert_require_strm be8_def eval_nat_numeral length_Suc_conv
      dest!: split_front)

lemma write_string_strm:
  "v \<noteq> [] \<Longrightarrow> length v \<le> length rest \<Longrightarrow> length v < 2 ^ 31 \<Longrightarrow>
   write_string v (strm pre rest) = (Inr (), strm (pre @ bytes_of_string v) (drop (length v) rest))"
  by (cases rest) (auto simp: write_string_def assert_require_strm store_string_strm int_of_size_small)

lemma read_be2 [simp]: "read_2bytes (strm pre (be2 v @ rest)) = (Inr v, strm (pre @ be2 v) rest)"
  by (simp add: be2_def of_bytes_i16 del: of_bytes.simps One_nat_def)

lemma read_be4 [simp]: "read_4bytes (strm pre (be4 v @ rest)) = (Inr v, strm (pre @ be4 v) rest)"
  by (simp add: be4_def of_bytes_i32 del: of_bytes.simps One_nat_def)

lemma read_be8 [simp]: "read_8bytes (strm pre (be8 v @ rest)) = (Inr v, strm (pre @ be8 v) rest)"
  by (simp add: be8_def of_bytes_i64 del: of_bytes.simps One_nat_def)

end
