(* ===== verification/Rss_Amf0.thy ===== *)
theory Rss_Amf0
  imports Rss_Stream
begin

text \<open>
  The AMF0 codec (\<^verbatim>\<open>rss_core_amf0.cpp\<close>): the value classes, the property table
  \<^verbatim>\<open>RssUnSortedHashtable\<close>, the readers, the writers and the size functions, each a definition of
  the same name. A reader that takes a reference parameter takes its old content as an argument,
  because \<^verbatim>\<open>rss_amf0_read_utf8\<close> leaves it alone when the length field is not positive. The mutual
  recursion \<^verbatim>\<open>read_any\<close> / \<^verbatim>\<open>read_object\<close> / \<^verbatim>\<open>read_ecma_array\<close> carries fuel in the model; theory
  \<open>Rss_Amf0_Correct\<close> shows that the fuel given by the entry points never runs out.
\<close>

section \<open>Values\<close>

text \<open>
  The classes derived from \<^verbatim>\<open>RssAmf0Any\<close> as one datatype; \<open>RssAmf0Any_base\<close> is the base class
  itself, whose marker is \<^verbatim>\<open>RTMP_AMF0_Invalid\<close>. An object owns its properties, in order.
\<close>

datatype RssAmf0Any =
    RssAmf0Any_base
  | RssAmf0String string
  | RssAmf0Boolean bool
  | RssAmf0Number dbl
  | RssAmf0Null
  | RssAmf0Undefined
  | RssAmf0ObjectEOF
  | RssAmf0Object "(string \<times> RssAmf0Any) list"
  | RssARssAmf0EcmaArray i32 "(string \<times> RssAmf0Any) list"

type_synonym props = "(string \<times> RssAmf0Any) list"

abbreviation RTMP_AMF0_Number :: byte where "RTMP_AMF0_Number \<equiv> 0x00"
abbreviation RTMP_AMF0_Boolean :: byte where "RTMP_AMF0_Boolean \<equiv> 0x01"
abbreviation RTMP_AMF0_String :: byte where "RTMP_AMF0_String \<equiv> 0x02"
abbreviation RTMP_AMF0_Object :: byte where "RTMP_AMF0_Object \<equiv> 0x03"
abbreviation RTMP_AMF0_Null :: byte where "RTMP_AMF0_Null \<equiv> 0x05"
abbreviation RTMP_AMF0_Undefined :: byte where "RTMP_AMF0_Undefined \<equiv> 0x06"
abbreviation RTMP_AMF0_EcmaArray :: byte where "RTMP_AMF0_EcmaArray \<equiv> 0x08"
abbreviation RTMP_AMF0_ObjectEnd :: byte where "RTMP_AMF0_ObjectEnd \<equiv> 0x09"
abbreviation RTMP_AMF0_Invalid :: byte where "RTMP_AMF0_Invalid \<equiv> 0x3F"

fun amf0_marker :: "RssAmf0Any \<Rightarrow> byte" where
  "amf0_marker RssAmf0Any_base = RTMP_AMF0_Invalid"
| "amf0_marker (RssAmf0String _) = RTMP_AMF0_String"
| "amf0_marker (RssAmf0Boolean _) = RTMP_AMF0_Boolean"
| "amf0_marker (RssAmf0Number _) = RTMP_AMF0_Number"
| "amf0_marker RssAmf0Null = RTMP_AMF0_Null"
| "amf0_marker RssAmf0Undefined = RTMP_AMF0_Undefined"
| "amf0_marker RssAmf0ObjectEOF = RTMP_AMF0_ObjectEnd"
| "amf0_marker (RssAmf0Object _) = RTMP_AMF0_Object"
| "amf0_marker (RssARssAmf0EcmaArray _ _) = RTMP_AMF0_EcmaArray"

definition is_string :: "RssAmf0Any \<Rightarrow> bool" where
  "is_string v \<longleftrightarrow> amf0_marker v = RTMP_AMF0_String"

definition is_number :: "RssAmf0Any \<Rightarrow> bool" where
  "is_number v \<longleftrightarrow> amf0_marker v = RTMP_AMF0_Number"

definition is_object :: "RssAmf0Any \<Rightarrow> bool" where
  "is_object v \<longleftrightarrow> amf0_marker v = RTMP_AMF0_Object"

definition is_object_eof :: "RssAmf0Any \<Rightarrow> bool" where
  "is_object_eof v \<longleftrightarrow> amf0_marker v = RTMP_AMF0_ObjectEnd"

lemma is_string_iff [simp]: "is_string v \<longleftrightarrow> (\<exists>s. v = RssAmf0String s)"
  by (cases v) (simp_all add: is_string_def)

lemma is_number_iff [simp]: "is_number v \<longleftrightarrow> (\<exists>d. v = RssAmf0Number d)"
  by (cases v) (simp_all add: is_number_def)

lemma is_object_iff [simp]: "is_object v \<longleftrightarrow> (\<exists>ps. v = RssAmf0Object ps)"
  by (cases v) (simp_all add: is_object_def)

lemma is_object_eof_iff [simp]: "is_object_eof v \<longleftrightarrow> v = RssAmf0ObjectEOF"
  by (cases v) (simp_all add: is_object_eof_def)

section \<open>The property table\<close>

text \<open>
  \<^verbatim>\<open>RssUnSortedHashtable\<close> is a vector of pairs. \<^verbatim>\<open>set\<close> erases the first entry with the key and
  pushes the new one to the back; \<^verbatim>\<open>get_property\<close> returns the first match, \<open>None\<close> for \<^verbatim>\<open>NULL\<close>.
  \<^verbatim>\<open>key_at\<close> and \<^verbatim>\<open>value_at\<close> assert \<^verbatim>\<open>index < size()\<close> and index the vector, which is undefined for
  a negative index.
\<close>

definition ht_size :: "props \<Rightarrow> int" where
  "ht_size ps = int (length ps)"

definition ht_clear :: "props \<Rightarrow> props" where
  "ht_clear ps = []"

definition ht_at :: "props \<Rightarrow> int \<Rightarrow> (string \<times> RssAmf0Any) res" where
  "ht_at ps i = (if \<not> i < ht_size ps then Inl AssertFailed
                 else if i < 0 then Inl Undefined
                 else Inr (ps ! nat i))"

definition ht_key_at :: "props \<Rightarrow> int \<Rightarrow> string res" where
  "ht_key_at ps i = map_sum id fst (ht_at ps i)"

definition ht_value_at :: "props \<Rightarrow> int \<Rightarrow> RssAmf0Any res" where
  "ht_value_at ps i = map_sum id snd (ht_at ps i)"

fun ht_erase_first :: "string \<Rightarrow> props \<Rightarrow> props" where
  "ht_erase_first k [] = []"
| "ht_erase_first k ((n, v) # ps) = (if k = n then ps else (n, v) # ht_erase_first k ps)"

definition ht_set :: "props \<Rightarrow> string \<Rightarrow> RssAmf0Any \<Rightarrow> props" where
  "ht_set ps k v = ht_erase_first k ps @ [(k, v)]"

fun ht_get_property :: "props \<Rightarrow> string \<Rightarrow> RssAmf0Any option" where
  "ht_get_property [] n = None"
| "ht_get_property ((k, v) # ps) n = (if k = n then Some v else ht_get_property ps n)"

definition ht_ensure_property_string :: "props \<Rightarrow> string \<Rightarrow> RssAmf0Any option" where
  "ht_ensure_property_string ps n =
     (case ht_get_property ps n of
        None \<Rightarrow> None
      | Some v \<Rightarrow> if \<not> is_string v then None else Some v)"

definition ht_ensure_property_number :: "props \<Rightarrow> string \<Rightarrow> RssAmf0Any option" where
  "ht_ensure_property_number ps n =
     (case ht_get_property ps n of
        None \<Rightarrow> None
      | Some v \<Rightarrow> if \<not> is_number v then None else Some v)"

section \<open>Readers\<close>

text \<open>
  \<^verbatim>\<open>rss_amf0_read_utf8\<close>: the length is an \<^verbatim>\<open>int16_t\<close>, and a length that is not positive ends the
  call with success and the reference parameter \<open>old\<close> untouched. The loop that checks for
  \<^verbatim>\<open>utf8-1\<close> only logs.
\<close>

definition rss_amf0_read_utf8 :: "string \<Rightarrow> string stream_comp" where
  "rss_amf0_read_utf8 old =
     bind (ensure (stream_require 2) ERROR_RTMP_AMF0_DECODE) (\<lambda>_.
     bind read_2bytes (\<lambda>len.
     if sint len \<le> 0 then return old
     else
       bind (ensure (stream_require (sint len)) ERROR_RTMP_AMF0_DECODE) (\<lambda>_.
       read_string (sint len))))"

text \<open>The common start of the readers: one marker byte that must have the given value.\<close>

definition read_marker :: "byte \<Rightarrow> unit stream_comp" where
  "read_marker m =
     bind (ensure (stream_require 1) ERROR_RTMP_AMF0_DECODE) (\<lambda>_.
     bind read_1bytes (\<lambda>marker.
     if marker \<noteq> m then fail (Code ERROR_RTMP_AMF0_DECODE) else return ()))"

definition rss_amf0_read_string :: "string \<Rightarrow> string stream_comp" where
  "rss_amf0_read_string old =
     bind (read_marker RTMP_AMF0_String) (\<lambda>_. rss_amf0_read_utf8 old)"

definition rss_amf0_read_boolean :: "bool stream_comp" where
  "rss_amf0_read_boolean =
     bind (read_marker RTMP_AMF0_Boolean) (\<lambda>_.
     bind (ensure (stream_require 1) ERROR_RTMP_AMF0_DECODE) (\<lambda>_.
     bind read_1bytes (\<lambda>v. return (v \<noteq> 0))))"

definition rss_amf0_read_number :: "dbl stream_comp" where
  "rss_amf0_read_number =
     bind (read_marker RTMP_AMF0_Number) (\<lambda>_.
     bind (ensure (stream_require 8) ERROR_RTMP_AMF0_DECODE) (\<lambda>_.
     read_8bytes))"

definition rss_amf0_read_null :: "unit stream_comp" where
  "rss_amf0_read_null = read_marker RTMP_AMF0_Null"

definition rss_amf0_read_undefined :: "unit stream_comp" where
  "rss_amf0_read_undefined = read_marker RTMP_AMF0_Undefined"

definition rss_amf0_read_object_eof :: "unit stream_comp" where
  "rss_amf0_read_object_eof =
     bind (bind (get stream_pos) (\<lambda>n. assert (2 \<le> n))) (\<lambda>_.
     bind (stream_skip (-2)) (\<lambda>_.
     bind (ensure (stream_require 2) ERROR_RTMP_AMF0_DECODE) (\<lambda>_.
     bind read_2bytes (\<lambda>temp.
     if temp \<noteq> 0 then fail (Code ERROR_RTMP_AMF0_DECODE)
     else read_marker RTMP_AMF0_ObjectEnd))))"

text \<open>
  The recursive readers. \<open>amf0_read_any n\<close> peeks at the marker, steps back and dispatches; for
  null and undefined it creates the value \<^emph>\<open>without\<close> consuming the marker, as the source does.
  \<open>amf0_read_props n acc\<close> is the loop \<^verbatim>\<open>while (!stream->empty())\<close> shared by objects and ECMA arrays.
\<close>

fun amf0_read_any :: "nat \<Rightarrow> RssAmf0Any stream_comp"
  and amf0_read_object :: "nat \<Rightarrow> props stream_comp"
  and amf0_read_ecma_array :: "nat \<Rightarrow> (i32 \<times> props) stream_comp"
  and amf0_read_props :: "nat \<Rightarrow> props \<Rightarrow> props stream_comp"
where
  "amf0_read_any 0 = fail OutOfFuel"
| "amf0_read_any (Suc n) =
     bind (ensure (stream_require 1) ERROR_RTMP_AMF0_DECODE) (\<lambda>_.
     bind read_1bytes (\<lambda>marker.
     bind (stream_skip (-1)) (\<lambda>_.
     if marker = RTMP_AMF0_String then
       bind (rss_amf0_read_string []) (\<lambda>data. return (RssAmf0String data))
     else if marker = RTMP_AMF0_Boolean then
       bind rss_amf0_read_boolean (\<lambda>data. return (RssAmf0Boolean data))
     else if marker = RTMP_AMF0_Number then
       bind rss_amf0_read_number (\<lambda>data. return (RssAmf0Number data))
     else if marker = RTMP_AMF0_Null then return RssAmf0Null
     else if marker = RTMP_AMF0_Undefined then return RssAmf0Undefined
     else if marker = RTMP_AMF0_ObjectEnd then
       bind rss_amf0_read_object_eof (\<lambda>_. return RssAmf0ObjectEOF)
     else if marker = RTMP_AMF0_Object then
       bind (amf0_read_object n) (\<lambda>ps. return (RssAmf0Object ps))
     else if marker = RTMP_AMF0_EcmaArray then
       bind (amf0_read_ecma_array n) (\<lambda>cp. return (RssARssAmf0EcmaArray (fst cp) (snd cp)))
     else fail (Code ERROR_RTMP_AMF0_INVALID))))"
| "amf0_read_object 0 = fail OutOfFuel"
| "amf0_read_object (Suc n) =
     bind (read_marker RTMP_AMF0_Object) (\<lambda>_. amf0_read_props n [])"
| "amf0_read_ecma_array 0 = fail OutOfFuel"
| "amf0_read_ecma_array (Suc n) =
     bind (read_marker RTMP_AMF0_EcmaArray) (\<lambda>_.
     bind (ensure (stream_require 4) ERROR_RTMP_AMF0_DECODE) (\<lambda>_.
     bind read_4bytes (\<lambda>count.
     bind (amf0_read_props n []) (\<lambda>ps. return (count, ps)))))"
| "amf0_read_props 0 acc = fail OutOfFuel"
| "amf0_read_props (Suc n) acc =
     bind (get stream_empty) (\<lambda>e.
     if e then return acc
     else
       bind (rss_amf0_read_utf8 []) (\<lambda>property_name.
       bind (amf0_read_any n) (\<lambda>property_value.
       if property_name = [] \<or> is_object_eof property_value then return acc
       else amf0_read_props n (ht_set acc property_name property_value))))"

text \<open>
  The entry points: every nested call consumes at least one byte per three levels of calls, so
  a few units more than the bytes left are enough fuel.
\<close>

definition amf0_fuel :: "RssStream \<Rightarrow> nat" where
  "amf0_fuel s = nat (stream_size s - stream_p s) + 4"

definition rss_amf0_read_any :: "RssAmf0Any stream_comp" where
  "rss_amf0_read_any s = amf0_read_any (amf0_fuel s) s"

definition rss_amf0_read_object :: "props stream_comp" where
  "rss_amf0_read_object s = amf0_read_object (amf0_fuel s) s"

definition rss_amf0_read_ecma_array :: "(i32 \<times> props) stream_comp" where
  "rss_amf0_read_ecma_array s = amf0_read_ecma_array (amf0_fuel s) s"

section \<open>Writers\<close>

definition rss_amf0_write_utf8 :: "string \<Rightarrow> unit stream_comp" where
  "rss_amf0_write_utf8 v =
     bind (ensure (stream_require 2) ERROR_RTMP_AMF0_ENCODE) (\<lambda>_.
     bind (write_2bytes (word_of_nat (length v))) (\<lambda>_.
     if length v \<le> 0 then return ()
     else
       bind (ensure (stream_require (int_of_size (length v))) ERROR_RTMP_AMF0_ENCODE) (\<lambda>_.
       write_string v)))"

definition write_marker :: "byte \<Rightarrow> unit stream_comp" where
  "write_marker m =
     bind (ensure (stream_require 1) ERROR_RTMP_AMF0_ENCODE) (\<lambda>_. write_1bytes m)"

definition rss_amf0_write_string :: "string \<Rightarrow> unit stream_comp" where
  "rss_amf0_write_string v =
     bind (write_marker RTMP_AMF0_String) (\<lambda>_. rss_amf0_write_utf8 v)"

definition rss_amf0_write_boolean :: "bool \<Rightarrow> unit stream_comp" where
  "rss_amf0_write_boolean v =
     bind (write_marker RTMP_AMF0_Boolean) (\<lambda>_.
     bind (ensure (stream_require 1) ERROR_RTMP_AMF0_ENCODE) (\<lambda>_.
     if v then write_1bytes 0x01 else write_1bytes 0x00))"

definition rss_amf0_write_number :: "dbl \<Rightarrow> unit stream_comp" where
  "rss_amf0_write_number v =
     bind (write_marker RTMP_AMF0_Number) (\<lambda>_.
     bind (ensure (stream_require 8) ERROR_RTMP_AMF0_ENCODE) (\<lambda>_.
     write_8bytes v))"

definition rss_amf0_write_null :: "unit stream_comp" where
  "rss_amf0_write_null = write_marker RTMP_AMF0_Null"

definition rss_amf0_write_undefined :: "unit stream_comp" where
  "rss_amf0_write_undefined = write_marker RTMP_AMF0_Undefined"

definition rss_amf0_write_object_eof :: "unit stream_comp" where
  "rss_amf0_write_object_eof =
     bind (ensure (stream_require 2) ERROR_RTMP_AMF0_ENCODE) (\<lambda>_.
     bind (write_2bytes 0) (\<lambda>_. write_marker RTMP_AMF0_ObjectEnd))"

text \<open>
  \<^verbatim>\<open>rss_amf0_write_any\<close> with \<^verbatim>\<open>rss_amf0_write_object\<close> and \<^verbatim>\<open>rss_amf0_write_ecma_array\<close>: the loop
  over \<^verbatim>\<open>key_at(i)\<close>, \<^verbatim>\<open>value_at(i)\<close> for \<^verbatim>\<open>i < size()\<close> visits the property list in order.
\<close>

fun rss_amf0_write_any :: "RssAmf0Any \<Rightarrow> unit stream_comp"
  and rss_amf0_write_object :: "props \<Rightarrow> unit stream_comp"
  and rss_amf0_write_ecma_array :: "i32 \<Rightarrow> props \<Rightarrow> unit stream_comp"
  and amf0_write_props :: "props \<Rightarrow> unit stream_comp"
where
  "rss_amf0_write_any (RssAmf0String v) = rss_amf0_write_string v"
| "rss_amf0_write_any (RssAmf0Boolean v) = rss_amf0_write_boolean v"
| "rss_amf0_write_any (RssAmf0Number v) = rss_amf0_write_number v"
| "rss_amf0_write_any RssAmf0Null = rss_amf0_write_null"
| "rss_amf0_write_any RssAmf0Undefined = rss_amf0_write_undefined"
| "rss_amf0_write_any RssAmf0ObjectEOF = rss_amf0_write_object_eof"
| "rss_amf0_write_any (RssAmf0Object ps) = rss_amf0_write_object ps"
| "rss_amf0_write_any (RssARssAmf0EcmaArray c ps) = rss_amf0_write_ecma_array c ps"
| "rss_amf0_write_any RssAmf0Any_base = fail (Code ERROR_RTMP_AMF0_INVALID)"
| "rss_amf0_write_object ps =
     bind (write_marker RTMP_AMF0_Object) (\<lambda>_.
     bind (amf0_write_props ps) (\<lambda>_. rss_amf0_write_object_eof))"
| "rss_amf0_write_ecma_array c ps =
     bind (write_marker RTMP_AMF0_EcmaArray) (\<lambda>_.
     bind (ensure (stream_require 4) ERROR_RTMP_AMF0_ENCODE) (\<lambda>_.
     bind (write_4bytes c) (\<lambda>_.
     bind (amf0_write_props ps) (\<lambda>_. rss_amf0_write_object_eof))))"
| "amf0_write_props [] = return ()"
| "amf0_write_props ((name, any) # ps) =
     bind (rss_amf0_write_utf8 name) (\<lambda>_.
     bind (rss_amf0_write_any any) (\<lambda>_. amf0_write_props ps))"

section \<open>Sizes\<close>

definition rss_amf0_get_utf8_size :: "string \<Rightarrow> int" where
  "rss_amf0_get_utf8_size v = 2 + int (length v)"

definition rss_amf0_get_string_size :: "string \<Rightarrow> int" where
  "rss_amf0_get_string_size v = 1 + rss_amf0_get_utf8_size v"

definition rss_amf0_get_number_size :: int where
  "rss_amf0_get_number_size = 1 + 8"

definition rss_amf0_get_null_size :: int where
  "rss_amf0_get_null_size = 1"

definition rss_amf0_get_undefined_size :: int where
  "rss_amf0_get_undefined_size = 1"

definition rss_amf0_get_boolean_size :: int where
  "rss_amf0_get_boolean_size = 1 + 1"

definition rss_amf0_get_object_eof_size :: int where
  "rss_amf0_get_object_eof_size = 2 + 1"

text \<open>
  The size of a value. The source adds in an \<^verbatim>\<open>int\<close>: sizes are taken to stay below \<open>2 ^ 31\<close>, which values that were decoded from a
  message do, whose payload is shorter than \<open>2 ^ 24\<close> bytes. The recursion here and in the readers and writers has no bound in the
  source either; the stack it takes is not modelled.
\<close>

fun rss_amf0_get_any_size :: "RssAmf0Any \<Rightarrow> int"
  and rss_amf0_get_object_size :: "props \<Rightarrow> int"
  and rss_amf0_get_ecma_array_size :: "props \<Rightarrow> int"
  and amf0_props_size :: "props \<Rightarrow> int"
where
  "rss_amf0_get_any_size (RssAmf0String v) = rss_amf0_get_string_size v"
| "rss_amf0_get_any_size (RssAmf0Boolean v) = rss_amf0_get_boolean_size"
| "rss_amf0_get_any_size (RssAmf0Number v) = rss_amf0_get_number_size"
| "rss_amf0_get_any_size RssAmf0Null = rss_amf0_get_null_size"
| "rss_amf0_get_any_size RssAmf0Undefined = rss_amf0_get_undefined_size"
| "rss_amf0_get_any_size RssAmf0ObjectEOF = rss_amf0_get_object_eof_size"
| "rss_amf0_get_any_size (RssAmf0Object ps) = rss_amf0_get_object_size ps"
| "rss_amf0_get_any_size (RssARssAmf0EcmaArray c ps) = rss_amf0_get_ecma_array_size ps"
| "rss_amf0_get_any_size RssAmf0Any_base = 0"
| "rss_amf0_get_object_size ps = 1 + amf0_props_size ps + rss_amf0_get_object_eof_size"
| "rss_amf0_get_ecma_array_size ps = 1 + 4 + amf0_props_size ps + rss_amf0_get_object_eof_size"
| "amf0_props_size [] = 0"
| "amf0_props_size ((name, v) # ps) =
     rss_amf0_get_utf8_size name + rss_amf0_get_any_size v + amf0_props_size ps"

end
