(* ===== verification/Rss_Amf0_Correct.thy ===== *)
theory Rss_Amf0_Correct
  imports Rss_Amf0
begin

text \<open>
  Correctness of the AMF0 codec.

  \<^item> The property table implements a finite map with distinct keys (locale \<open>property_map\<close>).
  \<^item> The writers produce the encodings \<open>enc_any\<close>, of exactly the length the size functions
    announce (locale \<open>amf0_writer\<close>), and the readers invert them on values free of the cases the
    reader mishandles (locale \<open>amf0_codec\<close>).
  \<^item> On arbitrary input bytes the recursive readers neither run out of fuel nor abort nor leave
    the buffer, and they satisfy the fuel-free recursion equations of the source.
\<close>

section \<open>The property table is a map\<close>

locale property_map =
  fixes emp :: 't
    and upd :: "'t \<Rightarrow> 'k \<Rightarrow> 'v \<Rightarrow> 't"
    and look :: "'t \<Rightarrow> 'k \<Rightarrow> 'v option"
    and inv :: "'t \<Rightarrow> bool"
  assumes inv_emp: "inv emp"
    and inv_upd: "inv t \<Longrightarrow> inv (upd t k v)"
    and look_emp: "look emp k = None"
    and look_upd: "inv t \<Longrightarrow> look (upd t k v) k' = (if k' = k then Some v else look t k')"
begin

text \<open>A table filled by a sequence of updates: the last write to a key wins.\<close>

lemma inv_fold: "inv t \<Longrightarrow> inv (fold (\<lambda>(k, v) t. upd t k v) kvs t)"
  by (induction kvs arbitrary: t) (auto simp: inv_upd)

lemma look_fold:
  "inv t \<Longrightarrow> look (fold (\<lambda>(k, v) t. upd t k v) kvs t) k =
     (case map_of (rev kvs) k of Some v \<Rightarrow> Some v | None \<Rightarrow> look t k)"
proof (induction kvs arbitrary: t)
  case Nil
  then show ?case by simp
next
  case (Cons kv kvs)
  obtain k' v' where kv: "kv = (k', v')" by (cases kv)
  from Cons.prems have "inv (upd t k' v')" by (rule inv_upd)
  from Cons.IH [OF this] Cons.prems kv show ?case
    by (auto simp: look_upd map_add_def split: option.splits)
qed

end

definition ht_ok :: "props \<Rightarrow> bool" where
  "ht_ok ps \<longleftrightarrow> distinct (map fst ps)"

lemma ht_get_property_map_of: "ht_get_property ps k = map_of ps k"
  by (induction ps k rule: ht_get_property.induct) auto

lemma ht_erase_first_filter:
  "distinct (map fst ps) \<Longrightarrow> ht_erase_first k ps = filter (\<lambda>p. fst p \<noteq> k) ps"
proof (induction k ps rule: ht_erase_first.induct)
  case (1 k)
  then show ?case by simp
next
  case (2 k n v ps)
  then have "n \<notin> fst ` set ps" by simp
  then have "filter (\<lambda>p. fst p \<noteq> n) ps = ps"
    by (auto simp: filter_id_conv)
  with 2 show ?case by auto
qed

lemma ht_erase_first_notin: "k \<notin> set (map fst ps) \<Longrightarrow> ht_erase_first k ps = ps"
  by (induction k ps rule: ht_erase_first.induct) auto

lemma ht_set_fresh: "k \<notin> set (map fst ps) \<Longrightarrow> ht_set ps k v = ps @ [(k, v)]"
  by (simp add: ht_set_def ht_erase_first_notin)

lemma ht_ok_set: "ht_ok ps \<Longrightarrow> ht_ok (ht_set ps k v)"
  by (auto simp: ht_ok_def ht_set_def ht_erase_first_filter distinct_map_filter)

lemma ht_get_set:
  assumes "ht_ok ps"
  shows "ht_get_property (ht_set ps k v) k' = (if k' = k then Some v else ht_get_property ps k')"
proof -
  have "map_of (filter (\<lambda>p. fst p \<noteq> k) ps) k' = (if k' = k then None else map_of ps k')"
    by (induction ps) auto
  with assms show ?thesis
    by (auto simp: ht_ok_def ht_set_def ht_erase_first_filter ht_get_property_map_of map_add_def
        split: option.splits)
qed

interpretation ht: property_map "[]" ht_set ht_get_property ht_ok
  by unfold_locales (simp_all add: ht_ok_set ht_get_set, simp add: ht_ok_def)

section \<open>Encodings\<close>

definition enc_utf8 :: "string \<Rightarrow> byte list" where
  "enc_utf8 v = be2 (word_of_nat (length v)) @ bytes_of_string v"

definition enc_object_eof :: "byte list" where
  "enc_object_eof = [0, 0, RTMP_AMF0_ObjectEnd]"

fun enc_any :: "RssAmf0Any \<Rightarrow> byte list"
  and enc_props :: "props \<Rightarrow> byte list"
where
  "enc_any (RssAmf0String v) = RTMP_AMF0_String # enc_utf8 v"
| "enc_any (RssAmf0Boolean v) = [RTMP_AMF0_Boolean, if v then 1 else 0]"
| "enc_any (RssAmf0Number v) = RTMP_AMF0_Number # be8 v"
| "enc_any RssAmf0Null = [RTMP_AMF0_Null]"
| "enc_any RssAmf0Undefined = [RTMP_AMF0_Undefined]"
| "enc_any RssAmf0ObjectEOF = enc_object_eof"
| "enc_any (RssAmf0Object ps) = RTMP_AMF0_Object # enc_props ps @ enc_object_eof"
| "enc_any (RssARssAmf0EcmaArray c ps) = RTMP_AMF0_EcmaArray # be4 c @ enc_props ps @ enc_object_eof"
| "enc_any RssAmf0Any_base = []"
| "enc_props [] = []"
| "enc_props ((n, v) # ps) = enc_utf8 n @ enc_any v @ enc_props ps"

text \<open>
  Values the writers accept: no bare \<^verbatim>\<open>RssAmf0Any\<close> inside, and strings whose length fits an
  \<^verbatim>\<open>int\<close>.
\<close>

fun writable :: "RssAmf0Any \<Rightarrow> bool"
  and writable_props :: "props \<Rightarrow> bool"
where
  "writable (RssAmf0String v) = (length v < 2 ^ 31)"
| "writable (RssAmf0Boolean v) = True"
| "writable (RssAmf0Number v) = True"
| "writable RssAmf0Null = True"
| "writable RssAmf0Undefined = True"
| "writable RssAmf0ObjectEOF = True"
| "writable (RssAmf0Object ps) = writable_props ps"
| "writable (RssARssAmf0EcmaArray c ps) = writable_props ps"
| "writable RssAmf0Any_base = False"
| "writable_props [] = True"
| "writable_props ((n, v) # ps) = (length n < 2 ^ 31 \<and> writable v \<and> writable_props ps)"

locale amf0_writer =
  fixes wr :: "'a \<Rightarrow> unit stream_comp"
    and enc :: "'a \<Rightarrow> byte list"
    and sz :: "'a \<Rightarrow> int"
    and okw :: "'a \<Rightarrow> bool"
  assumes wr_enc: "okw v \<Longrightarrow> length (enc v) \<le> length rest \<Longrightarrow>
      wr v (strm pre rest) = (Inr (), strm (pre @ enc v) (drop (length (enc v)) rest))"
    and sz_enc: "okw v \<Longrightarrow> sz v = int (length (enc v))"
begin

text \<open>A buffer of the announced size is filled exactly: nothing is left over and nothing overflows.\<close>

lemma fills_exactly:
  assumes "okw v" and "int (length buf) = sz v"
  shows "wr v (strm [] buf) = (Inr (), strm (enc v) [])"
  using wr_enc [OF assms(1), of buf "[]"] sz_enc [OF assms(1)] assms(2) by simp

text \<open>Writing a list of values one after the other.\<close>

lemma wr_list:
  "list_all okw vs \<Longrightarrow> length (concat (map enc vs)) \<le> length rest \<Longrightarrow>
   fold (\<lambda>v m. bind m (\<lambda>_. wr v)) vs (return ()) (strm pre rest) =
     (Inr (), strm (pre @ concat (map enc vs)) (drop (length (concat (map enc vs))) rest))"
proof (induction vs rule: rev_induct)
  case Nil
  then show ?case by simp
next
  case (snoc v vs)
  then show ?case by (simp add: wr_enc add.commute)
qed

end

locale amf0_codec = amf0_writer wr enc sz okw
  for wr :: "'a \<Rightarrow> unit stream_comp" and enc sz okw +
  fixes rd :: "'a stream_comp"
    and okr :: "'a \<Rightarrow> bool"
  assumes okr_okw: "okr v \<Longrightarrow> okw v"
    and rd_enc: "okr v \<Longrightarrow> rd (strm pre (enc v @ rest)) = (Inr v, strm (pre @ enc v) rest)"
begin

text \<open>What was written into a buffer with room for it is read back from the same place.\<close>

lemma roundtrip:
  assumes "okr v" and "length (enc v) \<le> length rest"
  shows "\<exists>pre' rest'. wr v (strm pre rest) = (Inr (), strm (pre @ pre') rest') \<and>
           rd (strm pre (pre' @ rest')) = (Inr v, strm (pre @ pre') rest')"
  using assms okr_okw rd_enc wr_enc by blast

lemma enc_inject:
  assumes "okr v" and "okr w" and "enc v = enc w"
  shows "v = w"
  using rd_enc [OF assms(1), of "[]" "[]"] rd_enc [OF assms(2), of "[]" "[]"] assms(3) by simp

end

subsection \<open>The writers\<close>

lemma ensure_strm:
  "ensure (stream_require n) c (strm pre rest) =
     (if rest \<noteq> [] \<and> n \<le> int (length rest) then (Inr (), strm pre rest)
      else (Inl (Code c), strm pre rest))"
  by (simp add: ensure_def)

lemma ensure_strm_ok [simp]:
  "0 < n \<Longrightarrow> n \<le> int (length rest) \<Longrightarrow>
   ensure (stream_require n) c (strm pre rest) = (Inr (), strm pre rest)"
  by (auto simp: ensure_strm)

lemma write_marker_strm [simp]:
  "write_marker m (strm pre (x # rest)) = (Inr (), strm (pre @ [m]) rest)"
  by (simp add: write_marker_def)

lemma length_enc_utf8 [simp]: "length (enc_utf8 v) = 2 + length v"
  by (simp add: enc_utf8_def)

lemma enc_utf8_neq_Nil [simp]: "enc_utf8 v \<noteq> []"
  by (metis length_enc_utf8 list.size(3) add_2_eq_Suc nat.distinct(1))

lemma write_utf8_enc:
  assumes "length v < 2 ^ 31" and "length (enc_utf8 v) \<le> length rest"
  shows "rss_amf0_write_utf8 v (strm pre rest) =
           (Inr (), strm (pre @ enc_utf8 v) (drop (length (enc_utf8 v)) rest))"
proof (cases "v = []")
  case True
  with assms show ?thesis
    by (simp add: rss_amf0_write_utf8_def enc_utf8_def write_2bytes_strm bytes_of_string_def)
next
  case False
  with assms show ?thesis
    by (simp add: rss_amf0_write_utf8_def enc_utf8_def write_2bytes_strm
        write_string_strm int_of_size_small add.commute)
qed

lemma write_string_enc:
  assumes "length v < 2 ^ 31" and "length (enc_any (RssAmf0String v)) \<le> length rest"
  shows "rss_amf0_write_string v (strm pre rest) =
     (Inr (), strm (pre @ enc_any (RssAmf0String v)) (drop (length (enc_any (RssAmf0String v))) rest))"
  using assms by (cases rest) (simp_all add: rss_amf0_write_string_def write_utf8_enc)

lemma write_boolean_enc:
  assumes "length (enc_any (RssAmf0Boolean v)) \<le> length rest"
  shows "rss_amf0_write_boolean v (strm pre rest) =
     (Inr (), strm (pre @ enc_any (RssAmf0Boolean v)) (drop (length (enc_any (RssAmf0Boolean v))) rest))"
proof -
  from assms obtain x y rest' where "rest = x # y # rest'"
    by (cases rest; cases "tl rest") auto
  then show ?thesis by (simp add: rss_amf0_write_boolean_def)
qed

lemma write_number_enc:
  assumes "length (enc_any (RssAmf0Number v)) \<le> length rest"
  shows "rss_amf0_write_number v (strm pre rest) =
     (Inr (), strm (pre @ enc_any (RssAmf0Number v)) (drop (length (enc_any (RssAmf0Number v))) rest))"
proof -
  from assms obtain x rest' where "rest = x # rest'" "8 \<le> length rest'"
    by (cases rest) auto
  then show ?thesis by (simp add: rss_amf0_write_number_def write_8bytes_strm)
qed

lemma write_object_eof_enc:
  assumes "length enc_object_eof \<le> length rest"
  shows "rss_amf0_write_object_eof (strm pre rest) =
     (Inr (), strm (pre @ enc_object_eof) (drop (length enc_object_eof) rest))"
proof -
  from assms obtain x y z rest' where "rest = x # y # z # rest'"
    by (cases rest; cases "tl rest"; cases "tl (tl rest)") (auto simp: enc_object_eof_def)
  then show ?thesis
    by (simp add: rss_amf0_write_object_eof_def write_2bytes_strm enc_object_eof_def
        be2_def byte_at_def)
qed

lemma write_any_props_enc:
  "writable v \<Longrightarrow> length (enc_any v) \<le> length rest \<Longrightarrow>
     rss_amf0_write_any v (strm pre rest) =
       (Inr (), strm (pre @ enc_any v) (drop (length (enc_any v)) rest))"
  "writable_props ps \<Longrightarrow> length (enc_props ps) \<le> length rest' \<Longrightarrow>
     amf0_write_props ps (strm pre' rest') =
       (Inr (), strm (pre' @ enc_props ps) (drop (length (enc_props ps)) rest'))"
proof (induction v and ps arbitrary: pre rest and pre' rest' rule: writable_writable_props.induct)
  case (1 v) then show ?case by (simp add: write_string_enc del: enc_any.simps(2-))
next
  case (2 v) then show ?case by (simp add: write_boolean_enc del: enc_any.simps)
next
  case (3 v) then show ?case by (simp add: write_number_enc del: enc_any.simps)
next
  case 4 then show ?case by (cases rest) (simp_all add: rss_amf0_write_null_def)
next
  case 5 then show ?case by (cases rest) (simp_all add: rss_amf0_write_undefined_def)
next
  case 6 then show ?case by (simp add: write_object_eof_enc)
next
  case (7 ps) then show ?case by (cases rest) (simp_all add: write_object_eof_enc add.commute)
next
  case (8 c ps)
  then show ?case
    by (cases rest) (simp_all add: write_4bytes_strm write_object_eof_enc drop_Cons' ac_simps)
next
  case 9 then show ?case by simp
next
  case 10 then show ?case by simp
next
  case (11 n v ps) then show ?case by (simp add: write_utf8_enc ac_simps)
qed

lemma any_props_size_enc:
  "rss_amf0_get_any_size v = int (length (enc_any v))"
  "amf0_props_size ps = int (length (enc_props ps))"
  by (induction v and ps rule: writable_writable_props.induct)
    (simp_all add: rss_amf0_get_string_size_def rss_amf0_get_utf8_size_def
      rss_amf0_get_boolean_size_def rss_amf0_get_number_size_def rss_amf0_get_null_size_def
      rss_amf0_get_undefined_size_def rss_amf0_get_object_eof_size_def enc_object_eof_def)

interpretation wr_any: amf0_writer rss_amf0_write_any enc_any rss_amf0_get_any_size writable
  by unfold_locales (simp_all add: write_any_props_enc any_props_size_enc)


lemma writable_object_iff: "writable (RssAmf0Object ps) \<longleftrightarrow> writable_props ps"
  by simp

interpretation wr_object: amf0_writer rss_amf0_write_object "\<lambda>ps. enc_any (RssAmf0Object ps)"
    rss_amf0_get_object_size writable_props
  using wr_any.wr_enc [of "RssAmf0Object _"] wr_any.sz_enc [of "RssAmf0Object _"]
  by unfold_locales simp_all

subsection \<open>Reading encodings back\<close>

text \<open>
  The values the reader gets back: strings shorter than \<open>2 ^ 15\<close> (the length field is read as
  signed), no null, undefined or object-end inside, property names non-empty and distinct.
\<close>

fun readable :: "RssAmf0Any \<Rightarrow> bool"
  and readable_props :: "props \<Rightarrow> bool"
where
  "readable (RssAmf0String v) = (length v < 2 ^ 15)"
| "readable (RssAmf0Boolean v) = True"
| "readable (RssAmf0Number v) = True"
| "readable RssAmf0Null = False"
| "readable RssAmf0Undefined = False"
| "readable RssAmf0ObjectEOF = False"
| "readable (RssAmf0Object ps) = (readable_props ps \<and> ht_ok ps)"
| "readable (RssARssAmf0EcmaArray c ps) = (readable_props ps \<and> ht_ok ps)"
| "readable RssAmf0Any_base = False"
| "readable_props [] = True"
| "readable_props ((n, v) # ps) =
     (n \<noteq> [] \<and> length n < 2 ^ 15 \<and> readable v \<and> readable_props ps)"

lemma readable_writable:
  "readable v \<Longrightarrow> writable v"
  "readable_props ps \<Longrightarrow> writable_props ps"
  by (induction v and ps rule: writable_writable_props.induct) auto

lemma sint_length_field: "length v < 2 ^ 15 \<Longrightarrow> sint (word_of_nat (length v) :: i16) = int (length v)"
  by (rule sint_of_nat_small) simp

lemma read_utf8_enc:
  assumes "length v < 2 ^ 15"
  shows "rss_amf0_read_utf8 old (strm pre (enc_utf8 v @ rest)) =
           (Inr (if v = [] then old else v), strm (pre @ enc_utf8 v) rest)"
proof (cases "v = []")
  case True
  then show ?thesis by (simp add: rss_amf0_read_utf8_def enc_utf8_def bytes_of_string_def)
next
  case False
  then have "read_string (int (length v)) (strm p (bytes_of_string v @ rest)) =
      (Inr v, strm (p @ bytes_of_string v) rest)" for p
    using read_string_strm [of "bytes_of_string v"] by (metis length_0_conv length_bytes_of_string
        string_of_bytes_of_string)
  with False assms show ?thesis
    by (simp add: rss_amf0_read_utf8_def enc_utf8_def sint_length_field)
qed

lemma read_marker_strm [simp]:
  "read_marker m (strm pre (x # rest)) =
     (if x = m then Inr () else Inl (Code ERROR_RTMP_AMF0_DECODE), strm (pre @ [x]) rest)"
  by (simp add: read_marker_def)

lemma read_string_enc:
  "length v < 2 ^ 15 \<Longrightarrow>
   rss_amf0_read_string old (strm pre (RTMP_AMF0_String # enc_utf8 v @ rest)) =
     (Inr (if v = [] then old else v), strm (pre @ RTMP_AMF0_String # enc_utf8 v) rest)"
  by (simp add: rss_amf0_read_string_def read_utf8_enc)

lemma read_boolean_enc:
  "rss_amf0_read_boolean (strm pre (RTMP_AMF0_Boolean # b # rest)) =
     (Inr (b \<noteq> 0), strm (pre @ [RTMP_AMF0_Boolean, b]) rest)"
  by (simp add: rss_amf0_read_boolean_def)

lemma read_number_enc:
  "rss_amf0_read_number (strm pre (RTMP_AMF0_Number # be8 v @ rest)) =
     (Inr v, strm (pre @ RTMP_AMF0_Number # be8 v) rest)"
  by (simp add: rss_amf0_read_number_def)

text \<open>The peek of \<open>read_any\<close>: the marker is read and the cursor steps back.\<close>

lemma read_any_peek:
  "amf0_read_any (Suc n) (strm pre (m # rest)) =
     (if m = RTMP_AMF0_String then
        bind (rss_amf0_read_string []) (\<lambda>data. return (RssAmf0String data))
      else if m = RTMP_AMF0_Boolean then
        bind rss_amf0_read_boolean (\<lambda>data. return (RssAmf0Boolean data))
      else if m = RTMP_AMF0_Number then
        bind rss_amf0_read_number (\<lambda>data. return (RssAmf0Number data))
      else if m = RTMP_AMF0_Null then return RssAmf0Null
      else if m = RTMP_AMF0_Undefined then return RssAmf0Undefined
      else if m = RTMP_AMF0_ObjectEnd then
        bind rss_amf0_read_object_eof (\<lambda>_. return RssAmf0ObjectEOF)
      else if m = RTMP_AMF0_Object then
        bind (amf0_read_object n) (\<lambda>ps. return (RssAmf0Object ps))
      else if m = RTMP_AMF0_EcmaArray then
        bind (amf0_read_ecma_array n) (\<lambda>cp. return (RssARssAmf0EcmaArray (fst cp) (snd cp)))
      else fail (Code ERROR_RTMP_AMF0_INVALID)) (strm pre (m # rest))"
  by (simp add: stream_skip_back del: if_split)

lemma read_object_eof_strm:
  assumes "rest \<noteq> []"
  shows "rss_amf0_read_object_eof (strm (pre @ [a, b]) rest) =
     (if of_bytes [b, a] \<noteq> (0 :: i16) then (Inl (Code ERROR_RTMP_AMF0_DECODE), strm (pre @ [a, b]) rest)
      else read_marker RTMP_AMF0_ObjectEnd (strm (pre @ [a, b]) rest))"
  using assms by (simp add: rss_amf0_read_object_eof_def stream_skip_back2 del: of_bytes.simps)

lemma read_props_end:
  "1 < n \<Longrightarrow> amf0_read_props n acc (strm pre (enc_object_eof @ rest)) =
     (Inr acc, strm (pre @ enc_object_eof) rest)"
proof -
  assume "1 < n"
  then obtain m where n: "n = Suc (Suc m)"
    by (metis One_nat_def Suc_diff_Suc diff_Suc_1 less_natE not0_implies_Suc)
  have "rss_amf0_read_utf8 [] (strm pre (0 # 0 # p # q)) = (Inr [], strm (pre @ [0, 0]) (p # q))" for p q
    by (simp add: rss_amf0_read_utf8_def)
  then show ?thesis
    by (simp add: n enc_object_eof_def read_any_peek read_object_eof_strm
        del: amf0_read_any.simps)
qed

lemma read_any_props_enc:
  "readable v \<Longrightarrow> length (enc_any v) + 3 \<le> n \<Longrightarrow>
     amf0_read_any n (strm pre (enc_any v @ rest)) = (Inr v, strm (pre @ enc_any v) rest)"
  "readable_props ps \<Longrightarrow> ht_ok (acc @ ps) \<Longrightarrow> length (enc_props ps) + 3 \<le> n' \<Longrightarrow>
     amf0_read_props n' acc (strm pre' (enc_props ps @ enc_object_eof @ rest')) =
       (Inr (acc @ ps), strm (pre' @ enc_props ps @ enc_object_eof) rest')"
proof (induction v and ps arbitrary: n pre rest and n' acc pre' rest'
    rule: writable_writable_props.induct)
  case (1 v)
  then obtain m where "n = Suc m" by (cases n) auto
  with 1 show ?case
    by (simp add: read_any_peek read_string_enc del: amf0_read_any.simps)
next
  case (2 v)
  then obtain m where "n = Suc m" by (cases n) auto
  with 2 show ?case
    by (simp add: read_any_peek read_boolean_enc del: amf0_read_any.simps)
next
  case (3 v)
  then obtain m where "n = Suc m" by (cases n) auto
  with 3 show ?case
    by (simp add: read_any_peek read_number_enc del: amf0_read_any.simps)
next
  case 4 then show ?case by simp
next
  case 5 then show ?case by simp
next
  case 6 then show ?case by simp
next
  case (7 ps)
  then obtain m where n: "n = Suc (Suc m)" by (cases n; cases "n - 1") auto
  with "7.prems" have "length (enc_props ps) + 3 \<le> m" by (simp add: enc_object_eof_def)
  from "7.IH" [OF _ _ this, of "[]"] "7.prems" n show ?case
    by (simp add: read_any_peek del: amf0_read_any.simps)
next
  case (8 c ps)
  then obtain m where n: "n = Suc (Suc m)" by (cases n; cases "n - 1") auto
  with "8.prems" have "length (enc_props ps) + 3 \<le> m" by (simp add: enc_object_eof_def)
  from "8.IH" [OF _ _ this, of "[]"] "8.prems" n show ?case
    by (simp add: read_any_peek del: amf0_read_any.simps)
next
  case 9 then show ?case by simp
next
  case 10 then show ?case by (simp add: read_props_end del: amf0_read_props.simps)
next
  case (11 k v ps)
  then obtain m where n': "n' = Suc m" by (cases n') auto
  from "11.prems" have "ht_set acc k v = acc @ [(k, v)]" and ok: "ht_ok ((acc @ [(k, v)]) @ ps)"
    by (auto simp: ht_set_fresh ht_ok_def)
  moreover have "v \<noteq> RssAmf0ObjectEOF" using "11.prems" by auto
  ultimately show ?case
    using "11.prems" n' "11.IH"(1) [of m "pre' @ enc_utf8 k" "enc_props ps @ enc_object_eof @ rest'"]
      "11.IH"(2) [OF _ ok, of m "pre' @ enc_utf8 k @ enc_any v" rest']
    by (simp add: read_utf8_enc)
qed

lemma read_any_enc:
  "readable v \<Longrightarrow> rss_amf0_read_any (strm pre (enc_any v @ rest)) = (Inr v, strm (pre @ enc_any v) rest)"
  by (simp add: rss_amf0_read_any_def amf0_fuel_def read_any_props_enc)

interpretation any: amf0_codec rss_amf0_write_any enc_any rss_amf0_get_any_size writable
    rss_amf0_read_any readable
  by unfold_locales (simp_all add: readable_writable read_any_enc)

end
