(* ===== verification/Rss_Amf0_Safe.thy ===== *)
theory Rss_Amf0_Safe
  imports Rss_Amf0_Correct
begin

text \<open>
  The AMF0 readers on hostile input. For every byte string the readers end with a value or with
  an error code: no assertion fails, no byte outside the buffer is touched and the recursion
  ends. The fuel of the model is only a device: the entry points satisfy the recursion equations
  of the source.
\<close>

text \<open>From here on the recursive readers unfold on demand only.\<close>

declare amf0_read_any.simps [simp del]
declare amf0_read_object.simps [simp del]
declare amf0_read_ecma_array.simps [simp del]
declare amf0_read_props.simps [simp del]

section \<open>Cursors inside a buffer\<close>

text \<open>The stream reads the buffer \<open>bs\<close> and its cursor is at \<open>k\<close> or further, at most at the end.\<close>

definition inside :: "byte list \<Rightarrow> nat \<Rightarrow> RssStream \<Rightarrow> bool" where
  "inside bs k s \<longleftrightarrow> stream_bytes s = Some bs \<and> stream_size s = int (length bs) \<and>
     int k \<le> stream_p s \<and> stream_p s \<le> int (length bs)"

text \<open>A read ended with an error code, its cursor still inside the buffer.\<close>

definition gives_up :: "byte list \<Rightarrow> rss_error \<Rightarrow> RssStream \<Rightarrow> bool" where
  "gives_up bs e s \<longleftrightarrow> graceful e \<and> inside bs 0 s"

lemma inside_strm [simp]: "inside bs k (strm pre rest) \<longleftrightarrow> bs = pre @ rest \<and> k \<le> length pre"
  by (auto simp: inside_def)

lemma inside_split:
  assumes "inside bs k s"
  obtains pre rest where "s = strm pre rest" "bs = pre @ rest" "k \<le> length pre"
proof
  let ?n = "nat (stream_p s)"
  from assms have "?n \<le> length bs" "stream_p s = int ?n" "k \<le> ?n" by (auto simp: inside_def)
  with assms show "s = strm (take ?n bs) (drop ?n bs)" "bs = take ?n bs @ drop ?n bs"
      "k \<le> length (take ?n bs)"
    by (auto simp: inside_def strm_def)
qed

lemma inside_bound: "inside bs k s \<Longrightarrow> k \<le> length bs"
  by (auto simp: inside_def)

lemma inside_mono: "inside bs k s \<Longrightarrow> j \<le> k \<Longrightarrow> inside bs j s"
  by (auto simp: inside_def)

lemma inside_fuel: "inside bs k s \<Longrightarrow> amf0_fuel s \<le> length bs - k + 4"
  by (auto simp: inside_def amf0_fuel_def)

lemma hoare_insideI:
  assumes "\<And>pre rest. bs = pre @ rest \<Longrightarrow> k \<le> length pre \<Longrightarrow>
    (case m (strm pre rest) of (Inl e, s') \<Rightarrow> E e s' | (Inr x, s') \<Rightarrow> Q x s')"
  shows "hoare (inside bs k) m Q E"
  unfolding hoare_def
proof (intro allI impI)
  fix s assume "inside bs k s"
  then show "case m s of (Inl e, s') \<Rightarrow> E e s' | (Inr x, s') \<Rightarrow> Q x s'"
    by (rule inside_split) (use assms in simp)
qed

lemma hoare_imp: "(A \<Longrightarrow> hoare P m Q E) \<Longrightarrow> hoare (\<lambda>s. A \<and> P s) m Q E"
  by (auto simp: hoare_def)

section \<open>The simple readers\<close>

lemma read_string_take:
  assumes "0 < n" and "n \<le> int (length rest)"
  shows "read_string n (strm pre rest) =
    (Inr (string_of_bytes (take (nat n) rest)), strm (pre @ take (nat n) rest) (drop (nat n) rest))"
proof -
  have "take (nat n) rest \<noteq> []" and "int (length (take (nat n) rest)) = n"
    using assms by auto
  then show ?thesis
    using read_string_strm [of "take (nat n) rest" pre "drop (nat n) rest"] by simp
qed

lemma read_marker_safe:
  "hoare (inside bs k) (read_marker m) (\<lambda>_. inside bs (k + 1)) (gives_up bs)"
  by (rule hoare_insideI, case_tac rest)
    (auto simp: gives_up_def read_marker_def ensure_strm)

lemma read_utf8_safe:
  "hoare (inside bs k) (rss_amf0_read_utf8 old) (\<lambda>_. inside bs (k + 2)) (gives_up bs)"
proof (rule hoare_insideI)
  fix pre rest assume bs: "bs = pre @ rest" "k \<le> length pre"
  consider "length rest < 2" | a b r where "rest = a # b # r"
    by (cases rest; cases "tl rest") auto
  then show "case rss_amf0_read_utf8 old (strm pre rest) of
      (Inl e, s') \<Rightarrow> gives_up bs e s' | (Inr x, s') \<Rightarrow> inside bs (k + 2) s'"
  proof cases
    case 1
    with bs show ?thesis
      by (auto simp: rss_amf0_read_utf8_def ensure_strm gives_up_def)
  next
    case 2
    define len where "len = sint (of_bytes [b, a] :: i16)"
    show ?thesis
    proof (cases "0 < len \<and> len \<le> int (length r)")
      case True
      then show ?thesis using bs 2
        by (auto simp: rss_amf0_read_utf8_def read_string_take gives_up_def len_def
            simp del: of_bytes.simps)
    next
      case False
      then show ?thesis using bs 2
        by (auto simp: rss_amf0_read_utf8_def ensure_strm gives_up_def len_def
            simp del: of_bytes.simps)
    qed
  qed
qed

lemma read_string_safe:
  "hoare (inside bs k) (rss_amf0_read_string old) (\<lambda>_. inside bs (k + 3)) (gives_up bs)"
proof -
  have "hoare (inside bs (k + 1)) (rss_amf0_read_utf8 old) (\<lambda>_. inside bs (k + 3)) (gives_up bs)"
    using read_utf8_safe [of bs "k + 1" old] by (simp add: numeral_3_eq_3)
  then show ?thesis
    unfolding rss_amf0_read_string_def by (rule hoare_bind [OF read_marker_safe])
qed

lemma read_boolean_safe:
  "hoare (inside bs k) rss_amf0_read_boolean (\<lambda>_. inside bs (k + 2)) (gives_up bs)"
proof -
  have "hoare (inside bs (k + 1)) (bind (ensure (stream_require 1) ERROR_RTMP_AMF0_DECODE)
      (\<lambda>_. bind read_1bytes (\<lambda>v. return (v \<noteq> 0)))) (\<lambda>_. inside bs (k + 2)) (gives_up bs)"
    by (rule hoare_insideI, case_tac rest) (auto simp: gives_up_def ensure_strm bind_def)
  then show ?thesis
    unfolding rss_amf0_read_boolean_def by (rule hoare_bind [OF read_marker_safe])
qed

lemma read_number_safe:
  "hoare (inside bs k) rss_amf0_read_number (\<lambda>_. inside bs (k + 9)) (gives_up bs)"
proof -
  have "hoare (inside bs (k + 1)) (bind (ensure (stream_require 8) ERROR_RTMP_AMF0_DECODE)
      (\<lambda>_. read_8bytes)) (\<lambda>_. inside bs (k + 9)) (gives_up bs)"
  proof (rule hoare_insideI)
    fix pre rest assume bs: "bs = pre @ rest" "k + 1 \<le> length pre"
    show "case bind (ensure (stream_require 8) ERROR_RTMP_AMF0_DECODE) (\<lambda>_. read_8bytes)
        (strm pre rest) of (Inl e, s') \<Rightarrow> gives_up bs e s' | (Inr x, s') \<Rightarrow> inside bs (k + 9) s'"
    proof (cases "8 \<le> length rest")
      case True
      then obtain b7 b6 b5 b4 b3 b2 b1 b0 r where
        "rest = b7 # b6 # b5 # b4 # b3 # b2 # b1 # b0 # r"
        by (auto simp: eval_nat_numeral length_Suc_conv dest!: split_front)
      with bs show ?thesis by (simp del: of_bytes.simps)
    next
      case False
      with bs show ?thesis by (simp add: ensure_strm gives_up_def)
    qed
  qed
  then show ?thesis
    unfolding rss_amf0_read_number_def by (rule hoare_bind [OF read_marker_safe])
qed

lemma split_last2: "2 \<le> length xs \<Longrightarrow> \<exists>ys a b. xs = ys @ [a, b]"
proof -
  assume len: "2 \<le> length xs"
  then obtain zs b where zs: "xs = zs @ [b]" by (cases xs rule: rev_cases) auto
  with len obtain ys a where "zs = ys @ [a]" by (cases zs rule: rev_cases) auto
  with zs show ?thesis by auto
qed

lemma read_object_eof_safe:
  assumes "2 \<le> k"
  shows "hoare (\<lambda>s. inside bs k s \<and> \<not> stream_empty s) rss_amf0_read_object_eof
           (\<lambda>_. inside bs k) (gives_up bs)"
  unfolding hoare_def
proof (intro allI impI)
  fix s assume s: "inside bs k s \<and> \<not> stream_empty s"
  then obtain pre c rest where "s = strm pre (c # rest)" "bs = pre @ c # rest" "k \<le> length pre"
    by (metis inside_split neq_Nil_conv strm_empty)
  moreover from assms this(3) obtain pre' a b where "pre = pre' @ [a, b]"
    using split_last2 [of pre] by auto
  ultimately show "case rss_amf0_read_object_eof s of
      (Inl e, s') \<Rightarrow> gives_up bs e s' | (Inr x, s') \<Rightarrow> inside bs k s'"
    by (auto simp: read_object_eof_strm gives_up_def simp del: of_bytes.simps)
qed

section \<open>The recursive readers\<close>

text \<open>How much fuel is enough at a cursor \<open>k\<close>, and what then holds.\<close>

definition props_safe_at :: "byte list \<Rightarrow> nat \<Rightarrow> bool" where
  "props_safe_at bs n \<longleftrightarrow> (\<forall>k acc. length bs - k + 2 \<le> n \<longrightarrow>
     hoare (inside bs k) (amf0_read_props n acc) (\<lambda>_. inside bs k) (gives_up bs))"

definition object_safe_at :: "byte list \<Rightarrow> nat \<Rightarrow> bool" where
  "object_safe_at bs n \<longleftrightarrow> (\<forall>k. length bs - k + 2 \<le> n \<longrightarrow>
     hoare (inside bs k) (amf0_read_object n) (\<lambda>_. inside bs (k + 1)) (gives_up bs) \<and>
     hoare (inside bs k) (amf0_read_ecma_array n) (\<lambda>_. inside bs (k + 1)) (gives_up bs))"

definition any_safe_at :: "byte list \<Rightarrow> nat \<Rightarrow> bool" where
  "any_safe_at bs n \<longleftrightarrow> (\<forall>k. 2 \<le> k \<longrightarrow> length bs - k + 3 \<le> n \<longrightarrow>
     hoare (inside bs k) (amf0_read_any n) (\<lambda>_. inside bs k) (gives_up bs))"

lemma hoare_inside_bound:
  assumes "k \<le> length bs \<Longrightarrow> hoare (inside bs k) m Q E"
  shows "hoare (inside bs k) m Q E"
  by (cases "k \<le> length bs") (use assms in \<open>auto simp: hoare_def dest: inside_bound\<close>)

lemmas safe_atD =
  props_safe_at_def [THEN iffD1, rule_format]
  object_safe_at_def [THEN iffD1, rule_format]
  any_safe_at_def [THEN iffD1, rule_format]

lemma hoare_post_mono:
  assumes "hoare P m (\<lambda>_. inside bs k) E" and "j \<le> k"
  shows "hoare P m (\<lambda>_. inside bs j) E"
  by (rule hoare_weaken [OF assms(1)]) (auto intro: inside_mono [OF _ assms(2)])

lemma read_any_dispatch_safe:
  assumes "object_safe_at bs n" and "2 \<le> k" and "length bs - k + 2 \<le> n"
  shows "hoare (inside bs k) (amf0_read_any (Suc n)) (\<lambda>_. inside bs k) (gives_up bs)"
proof -
  have obj: "hoare (inside bs k) (amf0_read_object n) (\<lambda>_. inside bs k) (gives_up bs)"
    and arr: "hoare (inside bs k) (amf0_read_ecma_array n) (\<lambda>_. inside bs k) (gives_up bs)"
    using safe_atD(2) [OF assms(1,3)] by (auto intro: hoare_post_mono)
  have str: "hoare (inside bs k) (rss_amf0_read_string []) (\<lambda>_. inside bs k) (gives_up bs)"
    and bol: "hoare (inside bs k) rss_amf0_read_boolean (\<lambda>_. inside bs k) (gives_up bs)"
    and num: "hoare (inside bs k) rss_amf0_read_number (\<lambda>_. inside bs k) (gives_up bs)"
    by (rule hoare_post_mono [OF read_string_safe], simp,
        rule hoare_post_mono [OF read_boolean_safe], simp,
        rule hoare_post_mono [OF read_number_safe], simp)
  have ret: "hoare (inside bs k) (bind m (\<lambda>x. return (f x))) (\<lambda>_. inside bs k) (gives_up bs)"
    if "hoare (inside bs k) m (\<lambda>_. inside bs k) (gives_up bs)"
    for m :: "'b stream_comp" and f :: "'b \<Rightarrow> RssAmf0Any"
    by (rule hoare_bind [OF that]) (rule hoare_return)
  have eof: "hoare (\<lambda>s. inside bs k s \<and> \<not> stream_empty s)
      (bind rss_amf0_read_object_eof (\<lambda>_. return RssAmf0ObjectEOF)) (\<lambda>_. inside bs k) (gives_up bs)"
    by (rule hoare_bind [OF read_object_eof_safe [OF assms(2)]]) (rule hoare_return)
  note branches = ret [OF str] ret [OF bol] ret [OF num] ret [OF obj] ret [OF arr] eof
  show ?thesis
  proof (rule hoare_insideI)
    fix pre rest assume bs: "bs = pre @ rest" "k \<le> length pre"
    show "case amf0_read_any (Suc n) (strm pre rest) of
        (Inl e, s') \<Rightarrow> gives_up bs e s' | (Inr x, s') \<Rightarrow> inside bs k s'"
    proof (cases rest)
      case Nil
      with bs show ?thesis by (simp add: amf0_read_any.simps ensure_strm gives_up_def)
    next
      case (Cons m r)
      with bs have "inside bs k (strm pre (m # r))" by simp
      with Cons bs show ?thesis
        using branches unfolding hoare_def
        by (simp add: read_any_peek gives_up_def)
    qed
  qed
qed

lemma read_object_step_safe:
  assumes "props_safe_at bs n" and "length bs - k + 2 \<le> Suc n"
  shows "hoare (inside bs k) (amf0_read_object (Suc n)) (\<lambda>_. inside bs (k + 1)) (gives_up bs)"
    and "hoare (inside bs k) (amf0_read_ecma_array (Suc n)) (\<lambda>_. inside bs (k + 1)) (gives_up bs)"
proof -
  have props: "hoare (inside bs j) (amf0_read_props n []) (\<lambda>_. inside bs j) (gives_up bs)"
    if "k + 1 \<le> j" for j
  proof (rule hoare_inside_bound)
    assume "j \<le> length bs"
    with that assms(2) show ?thesis by (intro safe_atD(1) [OF assms(1)]) simp
  qed
  show "hoare (inside bs k) (amf0_read_object (Suc n)) (\<lambda>_. inside bs (k + 1)) (gives_up bs)"
    unfolding amf0_read_object.simps by (rule hoare_bind [OF read_marker_safe props]) simp
  have cnt: "hoare (inside bs (k + 1)) (bind (ensure (stream_require 4) ERROR_RTMP_AMF0_DECODE)
      (\<lambda>_. read_4bytes)) (\<lambda>_. inside bs (k + 5)) (gives_up bs)"
  proof (rule hoare_insideI)
    fix pre rest assume bs: "bs = pre @ rest" "k + 1 \<le> length pre"
    show "case bind (ensure (stream_require 4) ERROR_RTMP_AMF0_DECODE) (\<lambda>_. read_4bytes)
        (strm pre rest) of (Inl e, s') \<Rightarrow> gives_up bs e s' | (Inr x, s') \<Rightarrow> inside bs (k + 5) s'"
    proof (cases "4 \<le> length rest")
      case True
      then obtain b3 b2 b1 b0 r where "rest = b3 # b2 # b1 # b0 # r"
        by (auto simp: eval_nat_numeral length_Suc_conv dest!: split_front)
      with bs show ?thesis by (simp del: of_bytes.simps)
    next
      case False
      with bs show ?thesis by (simp add: ensure_strm gives_up_def)
    qed
  qed
  have "hoare (inside bs (k + 5)) (bind (amf0_read_props n []) (\<lambda>ps. return (c, ps)))
      (\<lambda>_. inside bs (k + 1)) (gives_up bs)" for c :: i32
    by (rule hoare_bind [OF props]) (simp, rule hoare_pre [OF hoare_return], erule inside_mono, simp)
  from hoare_bind [OF cnt this]
  have "hoare (inside bs (k + 1)) (bind (ensure (stream_require 4) ERROR_RTMP_AMF0_DECODE) (\<lambda>_.
      bind read_4bytes (\<lambda>count. bind (amf0_read_props n []) (\<lambda>ps. return (count, ps)))))
      (\<lambda>_. inside bs (k + 1)) (gives_up bs)"
    by (simp add: bind_assoc)
  then show "hoare (inside bs k) (amf0_read_ecma_array (Suc n)) (\<lambda>_. inside bs (k + 1)) (gives_up bs)"
    unfolding amf0_read_ecma_array.simps by (intro hoare_bind [OF read_marker_safe])
qed

lemma read_props_step_safe:
  assumes "any_safe_at bs n" and "props_safe_at bs n"
  shows "props_safe_at bs (Suc n)"
  unfolding props_safe_at_def
proof (intro allI impI)
  fix k acc assume n: "length bs - k + 2 \<le> Suc n"
  have "hoare (inside bs (k + 2)) (bind (amf0_read_any n) (\<lambda>v.
      if nm = [] \<or> is_object_eof v then return acc else amf0_read_props n (ht_set acc nm v)))
      (\<lambda>_. inside bs k) (gives_up bs)" for nm
  proof (rule hoare_inside_bound)
    assume b: "k + 2 \<le> length bs"
    have any: "hoare (inside bs (k + 2)) (amf0_read_any n) (\<lambda>_. inside bs (k + 2)) (gives_up bs)"
      using n b by (intro safe_atD(3) [OF assms(1)]) simp_all
    have "hoare (inside bs (k + 2)) (amf0_read_props n acc') (\<lambda>_. inside bs k) (gives_up bs)" for acc'
      using n b by (intro hoare_post_mono [OF safe_atD(1) [OF assms(2)], of "k + 2"]) simp_all
    moreover have "hoare (inside bs (k + 2)) (return acc) (\<lambda>_. inside bs k) (gives_up bs)"
      by (rule hoare_pre [OF hoare_return], erule inside_mono, simp)
    ultimately show ?thesis by (intro hoare_bind [OF any]) simp
  qed
  from hoare_bind [OF read_utf8_safe this]
  show "hoare (inside bs k) (amf0_read_props (Suc n) acc) (\<lambda>_. inside bs k) (gives_up bs)"
    by (auto simp: hoare_def amf0_read_props.simps)
qed

lemma readers_safe_at: "any_safe_at bs n \<and> object_safe_at bs n \<and> props_safe_at bs n"
proof (induction n)
  case 0
  show ?case by (simp add: any_safe_at_def object_safe_at_def props_safe_at_def)
next
  case (Suc n)
  then have "any_safe_at bs (Suc n)"
    unfolding any_safe_at_def by (intro allI impI read_any_dispatch_safe) simp_all
  moreover from Suc have "object_safe_at bs (Suc n)"
    unfolding object_safe_at_def by (intro allI impI conjI read_object_step_safe) simp_all
  ultimately show ?case using Suc read_props_step_safe by simp
qed

lemma read_any_safe:
  assumes "2 \<le> k"
  shows "hoare (inside bs k) rss_amf0_read_any (\<lambda>_. inside bs k) (gives_up bs)"
  unfolding hoare_def
proof (intro allI impI)
  fix s assume s: "inside bs k s"
  define j where "j = nat (stream_p s)"
  from s have j: "k \<le> j" "inside bs j s" "length bs - j + 3 \<le> amf0_fuel s"
    by (auto simp: inside_def amf0_fuel_def j_def)
  with readers_safe_at [of bs "amf0_fuel s"] assms
  have "hoare (inside bs j) (amf0_read_any (amf0_fuel s)) (\<lambda>_. inside bs j) (gives_up bs)"
    by (auto simp: any_safe_at_def)
  from hoare_post_mono [OF this j(1)] j(2) show "case rss_amf0_read_any s of
      (Inl e, s') \<Rightarrow> gives_up bs e s' | (Inr x, s') \<Rightarrow> inside bs k s'"
    by (simp add: rss_amf0_read_any_def hoare_def)
qed

lemma read_object_safe:
  "hoare (inside bs k) rss_amf0_read_object (\<lambda>_. inside bs (k + 1)) (gives_up bs)"
  unfolding hoare_def
proof (intro allI impI)
  fix s assume s: "inside bs k s"
  define j where "j = nat (stream_p s)"
  from s have j: "k \<le> j" "inside bs j s" "length bs - j + 2 \<le> amf0_fuel s"
    by (auto simp: inside_def amf0_fuel_def j_def)
  with readers_safe_at [of bs "amf0_fuel s"]
  have "hoare (inside bs j) (amf0_read_object (amf0_fuel s)) (\<lambda>_. inside bs (j + 1)) (gives_up bs)"
    by (auto simp: object_safe_at_def)
  moreover have "k + 1 \<le> j + 1" using j(1) by simp
  ultimately have "hoare (inside bs j) (amf0_read_object (amf0_fuel s)) (\<lambda>_. inside bs (k + 1)) (gives_up bs)"
    by (rule hoare_post_mono)
  from hoareD [OF this j(2)] show "case rss_amf0_read_object s of
      (Inl e, s') \<Rightarrow> gives_up bs e s' | (Inr x, s') \<Rightarrow> inside bs (k + 1) s'"
    unfolding rss_amf0_read_object_def .
qed

section \<open>The fuel does not matter\<close>

lemma fuel_le_readers_step:
  "fuel_le (amf0_read_any n) (amf0_read_any (Suc n)) \<and>
   fuel_le (amf0_read_object n) (amf0_read_object (Suc n)) \<and>
   fuel_le (amf0_read_ecma_array n) (amf0_read_ecma_array (Suc n)) \<and>
   (\<forall>acc. fuel_le (amf0_read_props n acc) (amf0_read_props (Suc n) acc))"
proof (induction n)
  case 0
  show ?case unfolding amf0_read_any.simps(1) amf0_read_object.simps(1)
    amf0_read_ecma_array.simps(1) amf0_read_props.simps(1) by blast
next
  case (Suc n)
  then have any: "fuel_le (amf0_read_any n) (amf0_read_any (Suc n))"
    and obj: "fuel_le (amf0_read_object n) (amf0_read_object (Suc n))"
    and arr: "fuel_le (amf0_read_ecma_array n) (amf0_read_ecma_array (Suc n))"
    and props: "\<And>acc. fuel_le (amf0_read_props n acc) (amf0_read_props (Suc n) acc)" by auto
  have "fuel_le (amf0_read_any (Suc n)) (amf0_read_any (Suc (Suc n)))"
    unfolding amf0_read_any.simps(2) [of n] amf0_read_any.simps(2) [of "Suc n"]
    by (intro fuel_le_bind fuel_le_if fuel_le_refl obj arr)
  moreover have "fuel_le (amf0_read_object (Suc n)) (amf0_read_object (Suc (Suc n)))"
    unfolding amf0_read_object.simps(2) [of n] amf0_read_object.simps(2) [of "Suc n"]
    by (intro fuel_le_bind fuel_le_refl props)
  moreover have "fuel_le (amf0_read_ecma_array (Suc n)) (amf0_read_ecma_array (Suc (Suc n)))"
    unfolding amf0_read_ecma_array.simps(2) [of n] amf0_read_ecma_array.simps(2) [of "Suc n"]
    by (intro fuel_le_bind fuel_le_refl props)
  moreover have "fuel_le (amf0_read_props (Suc n) acc) (amf0_read_props (Suc (Suc n)) acc)" for acc
    unfolding amf0_read_props.simps(2) [of n acc] amf0_read_props.simps(2) [of "Suc n" acc]
    by (intro fuel_le_bind fuel_le_if fuel_le_refl any props)
  ultimately show ?case by blast
qed

lemma fuel_le_mono:
  assumes "\<And>n. fuel_le (f n) (f (Suc n))" and "n \<le> m"
  shows "fuel_le (f n) (f m)"
  using assms(2) by (induction m rule: dec_induct) (auto intro: fuel_le_trans assms(1))

lemma fuel_le_readers:
  assumes "n \<le> m"
  shows "fuel_le (amf0_read_any n) (amf0_read_any m)"
    and "fuel_le (amf0_read_object n) (amf0_read_object m)"
    and "fuel_le (amf0_read_ecma_array n) (amf0_read_ecma_array m)"
  using assms fuel_le_readers_step
  by (auto intro: fuel_le_mono [where f = amf0_read_any] fuel_le_mono [where f = amf0_read_object]
      fuel_le_mono [where f = amf0_read_ecma_array])

lemma hoare_not_out: "hoare P m Q (gives_up bs) \<Longrightarrow> P s \<Longrightarrow> fst (m s) \<noteq> Inl OutOfFuel"
  by (cases "m s"; cases "fst (m s)") (auto simp: hoare_def gives_up_def)

lemma read_object_fuel_irrelevant:
  assumes "inside bs k s" and "length bs - k + 2 \<le> n"
  shows "amf0_read_object n s = rss_amf0_read_object s"
    and "amf0_read_ecma_array n s = rss_amf0_read_ecma_array s"
proof -
  define j where "j = nat (stream_p s)"
  let ?f = "amf0_fuel s"
  have j: "inside bs j s" "length bs - j + 2 \<le> ?f" "length bs - j + 2 \<le> n"
    using assms by (auto simp: inside_def amf0_fuel_def j_def)
  have nout: "fst (amf0_read_object m s) \<noteq> Inl OutOfFuel" "fst (amf0_read_ecma_array m s) \<noteq> Inl OutOfFuel"
    if "length bs - j + 2 \<le> m" for m
    using readers_safe_at [of bs m] that
      hoare_not_out [OF safe_atD(2) [THEN conjunct1] j(1), of m]
      hoare_not_out [OF safe_atD(2) [THEN conjunct2] j(1), of m] by auto
  have "amf0_read_object m s = amf0_read_object (min n ?f) s"
    "amf0_read_ecma_array m s = amf0_read_ecma_array (min n ?f) s" if "min n ?f \<le> m" for m
    using nout [of "min n ?f"] j fuel_leD [OF fuel_le_readers(2) [OF that]]
      fuel_leD [OF fuel_le_readers(3) [OF that]] by auto
  from this [of n] this [of ?f]
  show "amf0_read_object n s = rss_amf0_read_object s"
    and "amf0_read_ecma_array n s = rss_amf0_read_ecma_array s"
    by (simp_all add: rss_amf0_read_object_def rss_amf0_read_ecma_array_def)
qed

lemma read_any_fuel_irrelevant:
  assumes "inside bs k s" and "2 \<le> k" and "length bs - k + 3 \<le> n"
  shows "amf0_read_any n s = rss_amf0_read_any s"
proof -
  define j where "j = nat (stream_p s)"
  let ?f = "amf0_fuel s"
  have j: "inside bs j s" "2 \<le> j" "length bs - j + 3 \<le> min n ?f"
    using assms by (auto simp: inside_def amf0_fuel_def j_def)
  then have "fst (amf0_read_any (min n ?f) s) \<noteq> Inl OutOfFuel"
    using readers_safe_at [of bs "min n ?f"] hoare_not_out [OF safe_atD(3) j(1)] by auto
  then have "amf0_read_any m s = amf0_read_any (min n ?f) s" if "min n ?f \<le> m" for m
    by (rule fuel_leD [OF fuel_le_readers(1) [OF that]])
  from this [of n] this [of ?f] show ?thesis by (simp add: rss_amf0_read_any_def)
qed

section \<open>What was read can be written\<close>

text \<open>
  The length field of a string is a signed 16 bit number, so a string that was read is short, and a
  value made of such strings is one the writer accepts.
\<close>

lemma read_utf8_short:
  assumes "rss_amf0_read_utf8 old s = (Inr v, s')" and "length old < 2 ^ 31"
  shows "length v < 2 ^ 31"
proof -
  have "nat (sint l) < 2 ^ 31" for l :: i16
    using sint_lt [of l] by simp
  with assms show ?thesis
    by (auto simp: rss_amf0_read_utf8_def read_string_def load_string_def elim!: bind_cases split: if_splits option.splits)
qed

lemma read_string_short:
  "rss_amf0_read_string old s = (Inr v, s') \<Longrightarrow> length old < 2 ^ 31 \<Longrightarrow> length v < 2 ^ 31"
  by (auto simp: rss_amf0_read_string_def elim!: bind_cases dest: read_utf8_short)

lemma writable_props_append: "writable_props (ps @ qs) \<longleftrightarrow> writable_props ps \<and> writable_props qs"
  by (induction ps) auto

lemma writable_props_erase: "writable_props ps \<Longrightarrow> writable_props (ht_erase_first k ps)"
  by (induction k ps rule: ht_erase_first.induct) auto

lemma writable_props_set:
  "writable_props ps \<Longrightarrow> length k < 2 ^ 31 \<Longrightarrow> writable v \<Longrightarrow> writable_props (ht_set ps k v)"
  by (simp add: ht_set_def writable_props_append writable_props_erase)

lemmas amf0_reader_simps = amf0_read_any.simps amf0_read_object.simps amf0_read_ecma_array.simps amf0_read_props.simps

lemma readers_writable:
  "yields writable (amf0_read_any n) \<and> yields writable_props (amf0_read_object n) \<and>
   yields (\<lambda>cp. writable_props (snd cp)) (amf0_read_ecma_array n) \<and>
   (\<forall>acc. writable_props acc \<longrightarrow> yields writable_props (amf0_read_props n acc))"
proof (induction n)
  case 0
  then show ?case by (simp add: amf0_reader_simps yields_def)
next
  case (Suc n)
  then have any: "yields writable (amf0_read_any n)" and obj: "yields writable_props (amf0_read_object n)"
    and arr: "yields (\<lambda>cp. writable_props (snd cp)) (amf0_read_ecma_array n)"
    and props: "\<And>acc. writable_props acc \<Longrightarrow> yields writable_props (amf0_read_props n acc)" by blast+
  have str: "yields (\<lambda>v. length v < 2 ^ 31) (rss_amf0_read_string [])" "yields (\<lambda>v. length v < 2 ^ 31) (rss_amf0_read_utf8 [])"
    using read_string_short [of "[]"] read_utf8_short [of "[]"] unfolding yields_def by auto
  have "yields writable (amf0_read_any (Suc n))"
    unfolding amf0_reader_simps
  proof (rule yields_after, rule yields_after, rule yields_after, intro yields_if yields_basic)
    show "yields writable (bind (rss_amf0_read_string []) (\<lambda>data. return (RssAmf0String data)))"
      by (rule yields_bind [OF str(1)]) (simp add: yields_basic)
    show "yields writable (bind (amf0_read_object n) (\<lambda>ps. return (RssAmf0Object ps)))"
      by (rule yields_bind [OF obj]) (simp add: yields_basic)
    show "yields writable (bind (amf0_read_ecma_array n) (\<lambda>cp. return (RssARssAmf0EcmaArray (fst cp) (snd cp))))"
      by (rule yields_bind [OF arr]) (simp add: yields_basic)
    show "yields writable (bind rss_amf0_read_boolean (\<lambda>data. return (RssAmf0Boolean data)))"
      "yields writable (bind rss_amf0_read_number (\<lambda>data. return (RssAmf0Number data)))"
      "yields writable (bind rss_amf0_read_object_eof (\<lambda>_. return RssAmf0ObjectEOF))"
      by (intro yields_after yields_basic; simp)+
  qed simp_all
  moreover have "yields writable_props (amf0_read_object (Suc n))"
    unfolding amf0_reader_simps by (intro yields_after props) simp
  moreover have "yields (\<lambda>cp. writable_props (snd cp)) (amf0_read_ecma_array (Suc n))"
    unfolding amf0_reader_simps
    by (rule yields_after, rule yields_after, rule yields_after, rule yields_bind [OF props]) (simp_all add: yields_basic)
  moreover have "yields writable_props (amf0_read_props (Suc n) acc)" if "writable_props acc" for acc
    unfolding amf0_reader_simps
  proof (rule yields_after, intro yields_if)
    show "yields writable_props (bind (rss_amf0_read_utf8 []) (\<lambda>property_name. bind (amf0_read_any n) (\<lambda>property_value.
       if property_name = [] \<or> is_object_eof property_value then return acc
       else amf0_read_props n (ht_set acc property_name property_value))))"
      by (rule yields_bind [OF str(2)], rule yields_bind [OF any])
        (use that in \<open>simp add: yields_basic props writable_props_set\<close>)
  qed (use that in \<open>simp add: yields_basic\<close>)
  ultimately show ?case by blast
qed

lemma read_any_writable: "rss_amf0_read_any s = (Inr v, s') \<Longrightarrow> writable v"
  using readers_writable yieldsD unfolding rss_amf0_read_any_def by metis

end
