(* ===== verification/Rss_Packet.thy ===== *)
theory Rss_Packet
  imports Rss_Amf0_Safe
begin

text \<open>
  The packets of \<^verbatim>\<open>rss_core_protocol.cpp\<close>: the classes derived from \<^verbatim>\<open>RssPacket\<close> as one datatype,
  their constructors' defaults, \<^verbatim>\<open>decode\<close>, \<^verbatim>\<open>get_size\<close>, \<^verbatim>\<open>encode_packet\<close>, \<^verbatim>\<open>get_perfer_cid\<close>,
  \<^verbatim>\<open>get_message_type\<close>, and the driver \<^verbatim>\<open>RssPacket::encode\<close>. The always-null members
  \<^verbatim>\<open>command_object\<close> and \<^verbatim>\<open>args\<close> are not stored. Doubles are IEEE-754 images.
\<close>

section \<open>Constants\<close>

abbreviation RTMP_MSG_SetChunkSize :: byte where "RTMP_MSG_SetChunkSize \<equiv> 0x01"
abbreviation RTMP_MSG_UserControlMessage :: byte where "RTMP_MSG_UserControlMessage \<equiv> 0x04"
abbreviation RTMP_MSG_WindowAcknowledgementSize :: byte where "RTMP_MSG_WindowAcknowledgementSize \<equiv> 0x05"
abbreviation RTMP_MSG_SetPeerBandwidth :: byte where "RTMP_MSG_SetPeerBandwidth \<equiv> 0x06"
abbreviation RTMP_MSG_AudioMessage :: byte where "RTMP_MSG_AudioMessage \<equiv> 8"
abbreviation RTMP_MSG_VideoMessage :: byte where "RTMP_MSG_VideoMessage \<equiv> 9"
abbreviation RTMP_MSG_AMF3DataMessage :: byte where "RTMP_MSG_AMF3DataMessage \<equiv> 15"
abbreviation RTMP_MSG_AMF3CommandMessage :: byte where "RTMP_MSG_AMF3CommandMessage \<equiv> 17"
abbreviation RTMP_MSG_AMF0DataMessage :: byte where "RTMP_MSG_AMF0DataMessage \<equiv> 18"
abbreviation RTMP_MSG_AMF0CommandMessage :: byte where "RTMP_MSG_AMF0CommandMessage \<equiv> 20"

abbreviation RTMP_DEFAULT_CHUNK_SIZE :: i32 where "RTMP_DEFAULT_CHUNK_SIZE \<equiv> 128"
abbreviation RTMP_MIN_CHUNK_SIZE :: int where "RTMP_MIN_CHUNK_SIZE \<equiv> 2"
abbreviation RTMP_EXTENDED_TIMESTAMP :: i32 where "RTMP_EXTENDED_TIMESTAMP \<equiv> 0xFFFFFF"

abbreviation RTMP_AMF0_COMMAND_CONNECT :: string where "RTMP_AMF0_COMMAND_CONNECT \<equiv> ''connect''"
abbreviation RTMP_AMF0_COMMAND_CREATE_STREAM :: string where
  "RTMP_AMF0_COMMAND_CREATE_STREAM \<equiv> ''createStream''"
abbreviation RTMP_AMF0_COMMAND_PLAY :: string where "RTMP_AMF0_COMMAND_PLAY \<equiv> ''play''"
abbreviation RTMP_AMF0_COMMAND_ON_BW_DONE :: string where "RTMP_AMF0_COMMAND_ON_BW_DONE \<equiv> ''onBWDone''"
abbreviation RTMP_AMF0_COMMAND_ON_STATUS :: string where "RTMP_AMF0_COMMAND_ON_STATUS \<equiv> ''onStatus''"
abbreviation RTMP_AMF0_COMMAND_RESULT :: string where "RTMP_AMF0_COMMAND_RESULT \<equiv> ''_result''"
abbreviation RTMP_AMF0_COMMAND_RELEASE_STREAM :: string where
  "RTMP_AMF0_COMMAND_RELEASE_STREAM \<equiv> ''releaseStream''"
abbreviation RTMP_AMF0_COMMAND_FC_PUBLISH :: string where "RTMP_AMF0_COMMAND_FC_PUBLISH \<equiv> ''FCPublish''"
abbreviation RTMP_AMF0_COMMAND_UNPUBLISH :: string where "RTMP_AMF0_COMMAND_UNPUBLISH \<equiv> ''FCUnpublish''"
abbreviation RTMP_AMF0_COMMAND_PUBLISH :: string where "RTMP_AMF0_COMMAND_PUBLISH \<equiv> ''publish''"
abbreviation RTMP_AMF0_DATA_SAMPLE_ACCESS :: string where
  "RTMP_AMF0_DATA_SAMPLE_ACCESS \<equiv> ''|RtmpSampleAccess''"
abbreviation RTMP_AMF0_DATA_SET_DATAFRAME :: string where
  "RTMP_AMF0_DATA_SET_DATAFRAME \<equiv> ''@setDataFrame''"
abbreviation RTMP_AMF0_DATA_ON_METADATA :: string where "RTMP_AMF0_DATA_ON_METADATA \<equiv> ''onMetaData''"

abbreviation RTMP_CID_ProtocolControl :: int where "RTMP_CID_ProtocolControl \<equiv> 0x02"
abbreviation RTMP_CID_OverConnection :: int where "RTMP_CID_OverConnection \<equiv> 0x03"
abbreviation RTMP_CID_OverConnection2 :: int where "RTMP_CID_OverConnection2 \<equiv> 0x04"
abbreviation RTMP_CID_OverStream :: int where "RTMP_CID_OverStream \<equiv> 0x05"
abbreviation RTMP_CID_Video :: int where "RTMP_CID_Video \<equiv> 0x06"
abbreviation RTMP_CID_Audio :: int where "RTMP_CID_Audio \<equiv> 0x07"

text \<open>Images of the doubles the source writes as literals.\<close>

abbreviation double_0 :: dbl where "double_0 \<equiv> 0"
abbreviation double_1 :: dbl where "double_1 \<equiv> 0x3FF0000000000000"
abbreviation double_2 :: dbl where "double_2 \<equiv> 0x4000000000000000"
abbreviation double_minus_1 :: dbl where "double_minus_1 \<equiv> 0xBFF0000000000000"
abbreviation double_minus_2 :: dbl where "double_minus_2 \<equiv> 0xC000000000000000"

section \<open>The packet classes\<close>

datatype RssPacket =
    RssPacket_base
  | RssConnectAppPacket string dbl "props option"       \<comment> \<open>command\_name, transaction\_id, command\_object\<close>
  | RssConnectAppResPacket string dbl props props       \<comment> \<open>command\_name, transaction\_id, props, info\<close>
  | RssCreateStreamPacket string dbl
  | RssCreateStreamResPacket string dbl dbl             \<comment> \<open>command\_name, transaction\_id, stream\_id\<close>
  | RssFMLEStartPacket string dbl string                \<comment> \<open>command\_name, transaction\_id, stream\_name\<close>
  | RssFMLEStartResPacket string dbl
  | RssPublishPacket string dbl string string           \<comment> \<open>..., stream\_name, type\<close>
  | RssPlayPacket string dbl string dbl dbl bool        \<comment> \<open>..., stream\_name, start, duration, reset\<close>
  | RssPlayResPacket string dbl props
  | RssOnBWDonePacket string dbl
  | RssOnStatusCallPacket string dbl props
  | RssOnStatusDataPacket string props
  | RssSampleAccessPacket string bool bool              \<comment> \<open>command\_name, video, audio\<close>
  | RssOnMetaDataPacket string props
  | RssSetWindowAckSizePacket i32
  | RssSetChunkSizePacket i32
  | RssSetPeerBandwidthPacket i32 byte
  | RssPCUC4BytesPacket i16 i32

text \<open>What the constructors set.\<close>

definition new_ConnectAppResPacket :: RssPacket where
  "new_ConnectAppResPacket = RssConnectAppResPacket RTMP_AMF0_COMMAND_RESULT double_1 [] []"

definition new_CreateStreamResPacket :: "dbl \<Rightarrow> dbl \<Rightarrow> RssPacket" where
  "new_CreateStreamResPacket transaction_id stream_id =
     RssCreateStreamResPacket RTMP_AMF0_COMMAND_RESULT transaction_id stream_id"

definition new_FMLEStartResPacket :: "dbl \<Rightarrow> RssPacket" where
  "new_FMLEStartResPacket transaction_id = RssFMLEStartResPacket RTMP_AMF0_COMMAND_RESULT transaction_id"

definition new_OnBWDonePacket :: RssPacket where
  "new_OnBWDonePacket = RssOnBWDonePacket RTMP_AMF0_COMMAND_ON_BW_DONE double_0"

definition new_OnStatusCallPacket :: RssPacket where
  "new_OnStatusCallPacket = RssOnStatusCallPacket RTMP_AMF0_COMMAND_ON_STATUS double_0 []"

definition new_OnStatusDataPacket :: RssPacket where
  "new_OnStatusDataPacket = RssOnStatusDataPacket RTMP_AMF0_COMMAND_ON_STATUS []"

definition new_PlayResPacket :: RssPacket where
  "new_PlayResPacket = RssPlayResPacket RTMP_AMF0_COMMAND_RESULT double_0 []"

definition new_SampleAccessPacket :: RssPacket where
  "new_SampleAccessPacket = RssSampleAccessPacket RTMP_AMF0_DATA_SAMPLE_ACCESS False False"

section \<open>Decoding\<close>

text \<open>
  Each \<^verbatim>\<open>decode\<close> runs on a newly constructed packet, so the old content of a string member is the
  constructor's value. The result is the packet as it is when \<^verbatim>\<open>decode\<close> succeeds.
\<close>

definition decode_ConnectAppPacket :: "RssPacket stream_comp" where
  "decode_ConnectAppPacket =
     bind (rss_amf0_read_string RTMP_AMF0_COMMAND_CONNECT) (\<lambda>command_name.
     if command_name = [] \<or> command_name \<noteq> RTMP_AMF0_COMMAND_CONNECT
     then fail (Code ERROR_RTMP_AMF0_DECODE)
     else
     bind rss_amf0_read_number (\<lambda>transaction_id.
     if transaction_id \<noteq> double_1 then fail (Code ERROR_RTMP_AMF0_DECODE)
     else
     bind rss_amf0_read_object (\<lambda>command_object.
     return (RssConnectAppPacket command_name transaction_id (Some command_object)))))"

definition decode_CreateStreamPacket :: "RssPacket stream_comp" where
  "decode_CreateStreamPacket =
     bind (rss_amf0_read_string RTMP_AMF0_COMMAND_CREATE_STREAM) (\<lambda>command_name.
     if command_name = [] \<or> command_name \<noteq> RTMP_AMF0_COMMAND_CREATE_STREAM
     then fail (Code ERROR_RTMP_AMF0_DECODE)
     else
     bind rss_amf0_read_number (\<lambda>transaction_id.
     bind rss_amf0_read_null (\<lambda>_.
     return (RssCreateStreamPacket command_name transaction_id))))"

definition decode_FMLEStartPacket :: "RssPacket stream_comp" where
  "decode_FMLEStartPacket =
     bind (rss_amf0_read_string RTMP_AMF0_COMMAND_CREATE_STREAM) (\<lambda>command_name.
     if command_name = [] \<or>
       command_name \<noteq> RTMP_AMF0_COMMAND_RELEASE_STREAM \<and>
       command_name \<noteq> RTMP_AMF0_COMMAND_FC_PUBLISH \<and>
       command_name \<noteq> RTMP_AMF0_COMMAND_UNPUBLISH
     then fail (Code ERROR_RTMP_AMF0_DECODE)
     else
     bind rss_amf0_read_number (\<lambda>transaction_id.
     bind rss_amf0_read_null (\<lambda>_.
     bind (rss_amf0_read_string []) (\<lambda>stream_name.
     return (RssFMLEStartPacket command_name transaction_id stream_name)))))"

definition decode_PublishPacket :: "RssPacket stream_comp" where
  "decode_PublishPacket =
     bind (rss_amf0_read_string RTMP_AMF0_COMMAND_PUBLISH) (\<lambda>command_name.
     if command_name = [] \<or> command_name \<noteq> RTMP_AMF0_COMMAND_PUBLISH
     then fail (Code ERROR_RTMP_AMF0_DECODE)
     else
     bind rss_amf0_read_number (\<lambda>transaction_id.
     bind rss_amf0_read_null (\<lambda>_.
     bind (rss_amf0_read_string []) (\<lambda>stream_name.
     bind (rss_amf0_read_string ''live'') (\<lambda>type.
     return (RssPublishPacket command_name transaction_id stream_name type))))))"

text \<open>An optional field: \<^verbatim>\<open>if (!stream->empty() && ...)\<close>, else the constructor's value.\<close>

definition read_optional :: "'a stream_comp \<Rightarrow> 'a \<Rightarrow> 'a stream_comp" where
  "read_optional m dflt = bind (get stream_empty) (\<lambda>e. if e then return dflt else m)"

definition decode_PlayPacket :: "RssPacket stream_comp" where
  "decode_PlayPacket =
     bind (rss_amf0_read_string RTMP_AMF0_COMMAND_PLAY) (\<lambda>command_name.
     if command_name = [] \<or> command_name \<noteq> RTMP_AMF0_COMMAND_PLAY
     then fail (Code ERROR_RTMP_AMF0_DECODE)
     else
     bind rss_amf0_read_number (\<lambda>transaction_id.
     bind rss_amf0_read_null (\<lambda>_.
     bind (rss_amf0_read_string []) (\<lambda>stream_name.
     bind (read_optional rss_amf0_read_number double_minus_2) (\<lambda>start.
     bind (read_optional rss_amf0_read_number double_minus_1) (\<lambda>duration.
     bind (read_optional rss_amf0_read_boolean True) (\<lambda>reset.
     return (RssPlayPacket command_name transaction_id stream_name start duration reset))))))))"

text \<open>The loop \<^verbatim>\<open>metadata->set(arr->key_at(i), arr->value_at(i))\<close>.\<close>

fun set_all :: "props \<Rightarrow> props \<Rightarrow> props" where
  "set_all metadata [] = metadata"
| "set_all metadata ((k, v) # arr) = set_all (ht_set metadata k v) arr"

definition decode_OnMetaDataPacket :: "RssPacket stream_comp" where
  "decode_OnMetaDataPacket =
     bind (rss_amf0_read_string RTMP_AMF0_DATA_ON_METADATA) (\<lambda>name0.
     bind (if name0 = RTMP_AMF0_DATA_SET_DATAFRAME then rss_amf0_read_string name0 else return name0)
       (\<lambda>name.
     bind rss_amf0_read_any (\<lambda>any.
     case any of
       RssAmf0Object metadata \<Rightarrow> return (RssOnMetaDataPacket name metadata)
     | RssARssAmf0EcmaArray c arr \<Rightarrow> return (RssOnMetaDataPacket name (set_all [] arr))
     | _ \<Rightarrow> fail (Code ERROR_RTMP_AMF0_DECODE))))"

definition decode_SetWindowAckSizePacket :: "RssPacket stream_comp" where
  "decode_SetWindowAckSizePacket =
     bind (ensure (stream_require 4) ERROR_RTMP_MESSAGE_DECODE) (\<lambda>_.
     bind read_4bytes (\<lambda>v. return (RssSetWindowAckSizePacket v)))"

definition decode_SetChunkSizePacket :: "RssPacket stream_comp" where
  "decode_SetChunkSizePacket =
     bind (ensure (stream_require 4) ERROR_RTMP_MESSAGE_DECODE) (\<lambda>_.
     bind read_4bytes (\<lambda>chunk_size.
     if sint chunk_size < RTMP_MIN_CHUNK_SIZE then fail (Code ERROR_RTMP_CHUNK_SIZE)
     else return (RssSetChunkSizePacket chunk_size)))"

section \<open>Encoding\<close>

fun packet_get_perfer_cid :: "RssPacket \<Rightarrow> int" where
  "packet_get_perfer_cid (RssConnectAppResPacket _ _ _ _) = RTMP_CID_OverConnection"
| "packet_get_perfer_cid (RssCreateStreamResPacket _ _ _) = RTMP_CID_OverConnection"
| "packet_get_perfer_cid (RssFMLEStartResPacket _ _) = RTMP_CID_OverConnection"
| "packet_get_perfer_cid (RssPlayResPacket _ _ _) = RTMP_CID_OverStream"
| "packet_get_perfer_cid (RssOnBWDonePacket _ _) = RTMP_CID_OverConnection"
| "packet_get_perfer_cid (RssOnStatusCallPacket _ _ _) = RTMP_CID_OverStream"
| "packet_get_perfer_cid (RssOnStatusDataPacket _ _) = RTMP_CID_OverStream"
| "packet_get_perfer_cid (RssSampleAccessPacket _ _ _) = RTMP_CID_OverStream"
| "packet_get_perfer_cid (RssOnMetaDataPacket _ _) = RTMP_CID_OverConnection2"
| "packet_get_perfer_cid (RssSetWindowAckSizePacket _) = RTMP_CID_ProtocolControl"
| "packet_get_perfer_cid (RssSetChunkSizePacket _) = RTMP_CID_ProtocolControl"
| "packet_get_perfer_cid (RssSetPeerBandwidthPacket _ _) = RTMP_CID_ProtocolControl"
| "packet_get_perfer_cid (RssPCUC4BytesPacket _ _) = RTMP_CID_ProtocolControl"
| "packet_get_perfer_cid _ = 0"

fun packet_get_message_type :: "RssPacket \<Rightarrow> byte" where
  "packet_get_message_type (RssConnectAppResPacket _ _ _ _) = RTMP_MSG_AMF0CommandMessage"
| "packet_get_message_type (RssCreateStreamResPacket _ _ _) = RTMP_MSG_AMF0CommandMessage"
| "packet_get_message_type (RssFMLEStartResPacket _ _) = RTMP_MSG_AMF0CommandMessage"
| "packet_get_message_type (RssPlayResPacket _ _ _) = RTMP_MSG_AMF0CommandMessage"
| "packet_get_message_type (RssOnBWDonePacket _ _) = RTMP_MSG_AMF0CommandMessage"
| "packet_get_message_type (RssOnStatusCallPacket _ _ _) = RTMP_MSG_AMF0CommandMessage"
| "packet_get_message_type (RssOnStatusDataPacket _ _) = RTMP_MSG_AMF0DataMessage"
| "packet_get_message_type (RssSampleAccessPacket _ _ _) = RTMP_MSG_AMF0DataMessage"
| "packet_get_message_type (RssOnMetaDataPacket _ _) = RTMP_MSG_AMF0DataMessage"
| "packet_get_message_type (RssSetWindowAckSizePacket _) = RTMP_MSG_WindowAcknowledgementSize"
| "packet_get_message_type (RssSetChunkSizePacket _) = RTMP_MSG_SetChunkSize"
| "packet_get_message_type (RssSetPeerBandwidthPacket _ _) = RTMP_MSG_SetPeerBandwidth"
| "packet_get_message_type (RssPCUC4BytesPacket _ _) = RTMP_MSG_UserControlMessage"
| "packet_get_message_type _ = 0"

fun packet_get_size :: "RssPacket \<Rightarrow> int" where
  "packet_get_size (RssConnectAppResPacket name tid props info) =
     rss_amf0_get_string_size name + rss_amf0_get_number_size +
     rss_amf0_get_object_size props + rss_amf0_get_object_size info"
| "packet_get_size (RssCreateStreamResPacket name tid sid) =
     rss_amf0_get_string_size name + rss_amf0_get_number_size +
     rss_amf0_get_null_size + rss_amf0_get_number_size"
| "packet_get_size (RssFMLEStartResPacket name tid) =
     rss_amf0_get_string_size name + rss_amf0_get_number_size +
     rss_amf0_get_null_size + rss_amf0_get_undefined_size"
| "packet_get_size (RssPlayResPacket name tid desc) =
     rss_amf0_get_string_size name + rss_amf0_get_number_size +
     rss_amf0_get_null_size + rss_amf0_get_object_size desc"
| "packet_get_size (RssOnBWDonePacket name tid) =
     rss_amf0_get_string_size name + rss_amf0_get_number_size + rss_amf0_get_null_size"
| "packet_get_size (RssOnStatusCallPacket name tid data) =
     rss_amf0_get_string_size name + rss_amf0_get_number_size +
     rss_amf0_get_null_size + rss_amf0_get_object_size data"
| "packet_get_size (RssOnStatusDataPacket name data) =
     rss_amf0_get_string_size name + rss_amf0_get_object_size data"
| "packet_get_size (RssSampleAccessPacket name video audio) =
     rss_amf0_get_string_size name + rss_amf0_get_boolean_size + rss_amf0_get_boolean_size"
| "packet_get_size (RssOnMetaDataPacket name metadata) =
     rss_amf0_get_string_size name + rss_amf0_get_object_size metadata"
| "packet_get_size (RssSetWindowAckSizePacket _) = 4"
| "packet_get_size (RssSetChunkSizePacket _) = 4"
| "packet_get_size (RssSetPeerBandwidthPacket _ _) = 5"
| "packet_get_size (RssPCUC4BytesPacket _ _) = 2 + 4"
| "packet_get_size _ = 0"

text \<open>\<^verbatim>\<open>encode_packet\<close> of each class.\<close>

definition encode_ConnectAppResPacket :: "string \<Rightarrow> dbl \<Rightarrow> props \<Rightarrow> props \<Rightarrow> unit stream_comp" where
  "encode_ConnectAppResPacket command_name transaction_id props info =
     bind (rss_amf0_write_string command_name) (\<lambda>_.
     bind (rss_amf0_write_number transaction_id) (\<lambda>_.
     bind (rss_amf0_write_object props) (\<lambda>_.
     rss_amf0_write_object info)))"

definition encode_CreateStreamResPacket :: "string \<Rightarrow> dbl \<Rightarrow> dbl \<Rightarrow> unit stream_comp" where
  "encode_CreateStreamResPacket command_name transaction_id stream_id =
     bind (rss_amf0_write_string command_name) (\<lambda>_.
     bind (rss_amf0_write_number transaction_id) (\<lambda>_.
     bind rss_amf0_write_null (\<lambda>_.
     rss_amf0_write_number stream_id)))"

definition encode_FMLEStartResPacket :: "string \<Rightarrow> dbl \<Rightarrow> unit stream_comp" where
  "encode_FMLEStartResPacket command_name transaction_id =
     bind (rss_amf0_write_string command_name) (\<lambda>_.
     bind (rss_amf0_write_number transaction_id) (\<lambda>_.
     bind rss_amf0_write_null (\<lambda>_.
     rss_amf0_write_undefined)))"

definition encode_PlayResPacket :: "string \<Rightarrow> dbl \<Rightarrow> props \<Rightarrow> unit stream_comp" where
  "encode_PlayResPacket command_name transaction_id desc =
     bind (rss_amf0_write_string command_name) (\<lambda>_.
     bind (rss_amf0_write_number transaction_id) (\<lambda>_.
     bind rss_amf0_write_null (\<lambda>_.
     rss_amf0_write_object desc)))"

definition encode_OnBWDonePacket :: "string \<Rightarrow> dbl \<Rightarrow> unit stream_comp" where
  "encode_OnBWDonePacket command_name transaction_id =
     bind (rss_amf0_write_string command_name) (\<lambda>_.
     bind (rss_amf0_write_number transaction_id) (\<lambda>_.
     rss_amf0_write_null))"

definition encode_OnStatusCallPacket :: "string \<Rightarrow> dbl \<Rightarrow> props \<Rightarrow> unit stream_comp" where
  "encode_OnStatusCallPacket command_name transaction_id data =
     bind (rss_amf0_write_string command_name) (\<lambda>_.
     bind (rss_amf0_write_number transaction_id) (\<lambda>_.
     bind rss_amf0_write_null (\<lambda>_.
     rss_amf0_write_object data)))"

definition encode_OnStatusDataPacket :: "string \<Rightarrow> props \<Rightarrow> unit stream_comp" where
  "encode_OnStatusDataPacket command_name data =
     bind (rss_amf0_write_string command_name) (\<lambda>_. rss_amf0_write_object data)"

definition encode_SampleAccessPacket :: "string \<Rightarrow> bool \<Rightarrow> bool \<Rightarrow> unit stream_comp" where
  "encode_SampleAccessPacket command_name video audio =
     bind (rss_amf0_write_string command_name) (\<lambda>_.
     bind (rss_amf0_write_boolean video) (\<lambda>_.
     rss_amf0_write_boolean audio))"

definition encode_OnMetaDataPacket :: "string \<Rightarrow> props \<Rightarrow> unit stream_comp" where
  "encode_OnMetaDataPacket name metadata =
     bind (rss_amf0_write_string name) (\<lambda>_. rss_amf0_write_object metadata)"

definition encode_SetWindowAckSizePacket :: "i32 \<Rightarrow> unit stream_comp" where
  "encode_SetWindowAckSizePacket v =
     bind (ensure (stream_require 4) ERROR_RTMP_MESSAGE_ENCODE) (\<lambda>_. write_4bytes v)"

definition encode_SetChunkSizePacket :: "i32 \<Rightarrow> unit stream_comp" where
  "encode_SetChunkSizePacket v =
     bind (ensure (stream_require 4) ERROR_RTMP_MESSAGE_ENCODE) (\<lambda>_. write_4bytes v)"

definition encode_SetPeerBandwidthPacket :: "i32 \<Rightarrow> byte \<Rightarrow> unit stream_comp" where
  "encode_SetPeerBandwidthPacket bandwidth type =
     bind (ensure (stream_require 5) ERROR_RTMP_MESSAGE_ENCODE) (\<lambda>_.
     bind (write_4bytes bandwidth) (\<lambda>_. write_1bytes type))"

definition encode_PCUC4BytesPacket :: "i16 \<Rightarrow> i32 \<Rightarrow> unit stream_comp" where
  "encode_PCUC4BytesPacket event_type event_data =
     bind (ensure (stream_require 6) ERROR_RTMP_MESSAGE_ENCODE) (\<lambda>_.
     bind (write_2bytes event_type) (\<lambda>_. write_4bytes event_data))"

fun packet_encode_packet :: "RssPacket \<Rightarrow> unit stream_comp" where
  "packet_encode_packet (RssConnectAppResPacket command_name transaction_id props info) =
     encode_ConnectAppResPacket command_name transaction_id props info"
| "packet_encode_packet (RssCreateStreamResPacket command_name transaction_id stream_id) =
     encode_CreateStreamResPacket command_name transaction_id stream_id"
| "packet_encode_packet (RssFMLEStartResPacket command_name transaction_id) =
     encode_FMLEStartResPacket command_name transaction_id"
| "packet_encode_packet (RssPlayResPacket command_name transaction_id desc) =
     encode_PlayResPacket command_name transaction_id desc"
| "packet_encode_packet (RssOnBWDonePacket command_name transaction_id) =
     encode_OnBWDonePacket command_name transaction_id"
| "packet_encode_packet (RssOnStatusCallPacket command_name transaction_id data) =
     encode_OnStatusCallPacket command_name transaction_id data"
| "packet_encode_packet (RssOnStatusDataPacket command_name data) =
     encode_OnStatusDataPacket command_name data"
| "packet_encode_packet (RssSampleAccessPacket command_name video audio) =
     encode_SampleAccessPacket command_name video audio"
| "packet_encode_packet (RssOnMetaDataPacket name metadata) =
     encode_OnMetaDataPacket name metadata"
| "packet_encode_packet (RssSetWindowAckSizePacket v) =
     encode_SetWindowAckSizePacket v"
| "packet_encode_packet (RssSetChunkSizePacket v) =
     encode_SetChunkSizePacket v"
| "packet_encode_packet (RssSetPeerBandwidthPacket bandwidth type) =
     encode_SetPeerBandwidthPacket bandwidth type"
| "packet_encode_packet (RssPCUC4BytesPacket event_type event_data) =
     encode_PCUC4BytesPacket event_type event_data"
| "packet_encode_packet _ = fail (Code ERROR_SYSTEM_PACKET_INVALID)"

lemmas encode_packet_defs = encode_ConnectAppResPacket_def encode_CreateStreamResPacket_def encode_FMLEStartResPacket_def
  encode_PlayResPacket_def encode_OnBWDonePacket_def encode_OnStatusCallPacket_def
  encode_OnStatusDataPacket_def encode_SampleAccessPacket_def encode_OnMetaDataPacket_def
  encode_SetWindowAckSizePacket_def encode_SetChunkSizePacket_def encode_SetPeerBandwidthPacket_def
  encode_PCUC4BytesPacket_def

text \<open>
  \<^verbatim>\<open>RssPacket::encode\<close>. \<open>heap n\<close> is the content of the memory that \<^verbatim>\<open>new char[n]\<close> returns, which is
  not initialised.
\<close>

definition packet_encode :: "(nat \<Rightarrow> byte list) \<Rightarrow> RssPacket \<Rightarrow> (int \<times> byte list option) res" where
  "packet_encode heap pkt =
     (let size = packet_get_size pkt in
      if 0 < size then
        (case bind (stream_initialize (Some (heap (nat size))) size) (\<lambda>_. packet_encode_packet pkt)
                stream_new of
           (Inl e, _) \<Rightarrow> Inl e
         | (Inr _, s) \<Rightarrow> Inr (size, stream_bytes s))
      else
        (case packet_encode_packet pkt stream_new of
           (Inl e, _) \<Rightarrow> Inl e
         | (Inr _, s) \<Rightarrow> Inr (size, None)))"

end
