(* ===== verification/Rss_Packet_Correct.thy ===== *)
theory Rss_Packet_Correct
  imports Rss_Packet
begin

text \<open>
  What the packets put on the wire, that the announced size is the size written, that a fresh
  buffer is overwritten completely, and that decoding arbitrary bytes is safe.
\<close>

section \<open>Wire images\<close>

fun enc_packet :: "RssPacket \<Rightarrow> byte list" where
  "enc_packet (RssConnectAppResPacket name tid props info) =
     enc_any (RssAmf0String name) @ enc_any (RssAmf0Number tid) @
     enc_any (RssAmf0Object props) @ enc_any (RssAmf0Object info)"
| "enc_packet (RssCreateStreamResPacket name tid sid) =
     enc_any (RssAmf0String name) @ enc_any (RssAmf0Number tid) @
     enc_any RssAmf0Null @ enc_any (RssAmf0Number sid)"
| "enc_packet (RssFMLEStartResPacket name tid) =
     enc_any (RssAmf0String name) @ enc_any (RssAmf0Number tid) @
     enc_any RssAmf0Null @ enc_any RssAmf0Undefined"
| "enc_packet (RssPlayResPacket name tid desc) =
     enc_any (RssAmf0String name) @ enc_any (RssAmf0Number tid) @
     enc_any RssAmf0Null @ enc_any (RssAmf0Object desc)"
| "enc_packet (RssOnBWDonePacket name tid) =
     enc_any (RssAmf0String name) @ enc_any (RssAmf0Number tid) @ enc_any RssAmf0Null"
| "enc_packet (RssOnStatusCallPacket name tid data) =
     enc_any (RssAmf0String name) @ enc_any (RssAmf0Number tid) @
     enc_any RssAmf0Null @ enc_any (RssAmf0Object data)"
| "enc_packet (RssOnStatusDataPacket name data) =
     enc_any (RssAmf0String name) @ enc_any (RssAmf0Object data)"
| "enc_packet (RssSampleAccessPacket name video audio) =
     enc_any (RssAmf0String name) @ enc_any (RssAmf0Boolean video) @ enc_any (RssAmf0Boolean audio)"
| "enc_packet (RssOnMetaDataPacket name metadata) =
     enc_any (RssAmf0String name) @ enc_any (RssAmf0Object metadata)"
| "enc_packet (RssSetWindowAckSizePacket v) = be4 v"
| "enc_packet (RssSetChunkSizePacket v) = be4 v"
| "enc_packet (RssSetPeerBandwidthPacket bandwidth type) = be4 bandwidth @ [type]"
| "enc_packet (RssPCUC4BytesPacket event_type event_data) = be2 event_type @ be4 event_data"
| "enc_packet _ = []"

text \<open>The packets that can be sent, with contents the AMF0 writers accept.\<close>

fun sendable :: "RssPacket \<Rightarrow> bool" where
  "sendable (RssConnectAppResPacket name tid props info) =
     (length name < 2 ^ 31 \<and> writable_props props \<and> writable_props info)"
| "sendable (RssCreateStreamResPacket name tid sid) = (length name < 2 ^ 31)"
| "sendable (RssFMLEStartResPacket name tid) = (length name < 2 ^ 31)"
| "sendable (RssPlayResPacket name tid desc) = (length name < 2 ^ 31 \<and> writable_props desc)"
| "sendable (RssOnBWDonePacket name tid) = (length name < 2 ^ 31)"
| "sendable (RssOnStatusCallPacket name tid data) = (length name < 2 ^ 31 \<and> writable_props data)"
| "sendable (RssOnStatusDataPacket name data) = (length name < 2 ^ 31 \<and> writable_props data)"
| "sendable (RssSampleAccessPacket name video audio) = (length name < 2 ^ 31)"
| "sendable (RssOnMetaDataPacket name metadata) = (length name < 2 ^ 31 \<and> writable_props metadata)"
| "sendable (RssSetWindowAckSizePacket v) = True"
| "sendable (RssSetChunkSizePacket v) = True"
| "sendable (RssSetPeerBandwidthPacket bandwidth type) = True"
| "sendable (RssPCUC4BytesPacket event_type event_data) = True"
| "sendable _ = False"

text \<open>
  One writer per kind of field, as a list of values of \<^typ>\<open>RssAmf0Any\<close>: the AMF0 packets write
  such a list.
\<close>

lemma write_null_enc:
  "length (enc_any RssAmf0Null) \<le> length rest \<Longrightarrow>
   rss_amf0_write_null (strm pre rest) =
     (Inr (), strm (pre @ enc_any RssAmf0Null) (drop (length (enc_any RssAmf0Null)) rest))"
  by (cases rest) (simp_all add: rss_amf0_write_null_def)

lemma write_undefined_enc:
  "length (enc_any RssAmf0Undefined) \<le> length rest \<Longrightarrow>
   rss_amf0_write_undefined (strm pre rest) =
     (Inr (), strm (pre @ enc_any RssAmf0Undefined) (drop (length (enc_any RssAmf0Undefined)) rest))"
  by (cases rest) (simp_all add: rss_amf0_write_undefined_def)

lemma write_1bytes_enc:
  "1 \<le> length rest \<Longrightarrow> write_1bytes v (strm pre rest) = (Inr (), strm (pre @ [v]) (drop 1 rest))"
  by (cases rest) simp_all

lemmas field_writers = write_string_enc write_number_enc write_boolean_enc write_null_enc
  write_undefined_enc wr_object.wr_enc write_1bytes_enc write_2bytes_strm write_4bytes_strm

lemma bind_field:
  assumes "length (a @ b) \<le> length rest"
    and "length a \<le> length rest \<Longrightarrow> m (strm pre rest) = (Inr (), strm (pre @ a) (drop (length a) rest))"
    and "\<And>pre' rest'. length b \<le> length rest' \<Longrightarrow>
      n (strm pre' rest') = (Inr (), strm (pre' @ b) (drop (length b) rest'))"
  shows "bind m (\<lambda>_. n) (strm pre rest) = (Inr (), strm (pre @ a @ b) (drop (length (a @ b)) rest))"
  using assms by (simp add: add.commute)

lemma encode_packet_enc:
  assumes "sendable pkt" and "length (enc_packet pkt) \<le> length rest"
  shows "packet_encode_packet pkt (strm pre rest) =
    (Inr (), strm (pre @ enc_packet pkt) (drop (length (enc_packet pkt)) rest))"
  using assms
proof (cases pkt)
  case (RssSetWindowAckSizePacket v)
  with assms show ?thesis by (simp add: encode_packet_defs write_4bytes_strm)
next
  case (RssSetChunkSizePacket v)
  with assms show ?thesis by (simp add: encode_packet_defs write_4bytes_strm)
next
  case (RssSetPeerBandwidthPacket bandwidth type)
  with assms show ?thesis by (simp add: encode_packet_defs write_4bytes_strm write_1bytes_enc)
next
  case (RssPCUC4BytesPacket event_type event_data)
  with assms show ?thesis by (simp add: encode_packet_defs write_4bytes_strm write_2bytes_strm)
qed (use assms in \<open>simp_all only: packet_encode_packet.simps encode_packet_defs enc_packet.simps sendable.simps,
      (intro bind_field field_writers; simp add: write_4bytes_strm)+\<close>)

lemma packet_size_enc: "sendable pkt \<Longrightarrow> packet_get_size pkt = int (length (enc_packet pkt))"
  by (cases pkt)
    (simp_all add: any_props_size_enc rss_amf0_get_string_size_def rss_amf0_get_utf8_size_def
      rss_amf0_get_number_size_def rss_amf0_get_boolean_size_def rss_amf0_get_null_size_def
      rss_amf0_get_undefined_size_def rss_amf0_get_object_eof_size_def enc_object_eof_def)

interpretation wr_packet: amf0_writer packet_encode_packet enc_packet packet_get_size sendable
  by unfold_locales (simp_all add: encode_packet_enc packet_size_enc)

lemma enc_packet_neq_Nil: "sendable pkt \<Longrightarrow> enc_packet pkt \<noteq> []"
  by (cases pkt) (simp_all add: be4_def be2_def)

text \<open>
  Encoding a packet yields its wire image and the announced size, whatever the fresh memory
  held.
\<close>

lemma packet_encode_enc:
  assumes "sendable pkt" and "\<And>n. length (heap n) = n"
  shows "packet_encode heap pkt = Inr (int (length (enc_packet pkt)), Some (enc_packet pkt))"
proof -
  let ?buf = "heap (nat (packet_get_size pkt))"
  have len: "packet_get_size pkt = int (length (enc_packet pkt))" "enc_packet pkt \<noteq> []"
    using assms(1) packet_size_enc enc_packet_neq_Nil by auto
  then have "int (length ?buf) = packet_get_size pkt" "?buf \<noteq> []"
    using assms(2) [of "length (enc_packet pkt)"] by auto
  then have "stream_initialize (Some ?buf) (packet_get_size pkt) stream_new = (Inr (), strm [] ?buf)"
    by (metis stream_initialize_strm)
  then show ?thesis
    using wr_packet.fills_exactly [OF assms(1), of ?buf] len assms(2)
    by (simp add: packet_encode_def Let_def)
qed

text \<open>A packet class without an encoder of its own is refused.\<close>

lemma packet_encode_refused:
  "pkt = RssPacket_base \<or> (\<exists>a b c. pkt = RssConnectAppPacket a b c) \<or>
   (\<exists>a b. pkt = RssCreateStreamPacket a b) \<or> (\<exists>a b c. pkt = RssFMLEStartPacket a b c) \<or>
   (\<exists>a b c d. pkt = RssPublishPacket a b c d) \<or> (\<exists>a b c d e f. pkt = RssPlayPacket a b c d e f) \<Longrightarrow>
   packet_encode heap pkt = Inl (Code ERROR_SYSTEM_PACKET_INVALID)"
  by (auto simp: packet_encode_def)

section \<open>Decoding arbitrary bytes\<close>

text \<open>
  A reader that, started at least two bytes into the buffer, stays inside it and fails only with
  an error code. The class is closed under the ways the decoders are put together.
\<close>

definition reads :: "byte list \<Rightarrow> 'a stream_comp \<Rightarrow> bool" where
  "reads bs m \<longleftrightarrow> hoare (inside bs 2) m (\<lambda>_. inside bs 2) (gives_up bs)"

named_theorems reads_intro \<open>the readers of the class\<close>

lemma reads_bind [reads_intro]: "reads bs m \<Longrightarrow> (\<And>x. reads bs (f x)) \<Longrightarrow> reads bs (bind m f)"
  unfolding reads_def by (rule hoare_bind)

lemma reads_return [reads_intro]: "reads bs (return x)"
  by (simp add: reads_def hoare_def)

lemma reads_fail [reads_intro]: "reads bs (fail (Code c))"
  by (auto simp: reads_def hoare_def gives_up_def intro: inside_mono)

lemma reads_if [reads_intro]: "reads bs m \<Longrightarrow> reads bs n \<Longrightarrow> reads bs (if b then m else n)"
  by simp

lemma reads_get [reads_intro]: "reads bs (get f)"
  by (simp add: reads_def hoare_def)

lemma reads_marker [reads_intro]: "reads bs (read_marker m)"
  unfolding reads_def by (rule hoare_post_mono [OF read_marker_safe]) simp

lemma reads_string [reads_intro]: "reads bs (rss_amf0_read_string old)"
  unfolding reads_def by (rule hoare_post_mono [OF read_string_safe]) simp

lemma reads_number [reads_intro]: "reads bs rss_amf0_read_number"
  unfolding reads_def by (rule hoare_post_mono [OF read_number_safe]) simp

lemma reads_boolean [reads_intro]: "reads bs rss_amf0_read_boolean"
  unfolding reads_def by (rule hoare_post_mono [OF read_boolean_safe]) simp

lemma reads_null [reads_intro]: "reads bs rss_amf0_read_null"
  unfolding rss_amf0_read_null_def by (rule reads_marker)

lemma reads_object [reads_intro]: "reads bs rss_amf0_read_object"
  unfolding reads_def by (rule hoare_post_mono [OF read_object_safe]) simp

lemma reads_any [reads_intro]: "reads bs rss_amf0_read_any"
  unfolding reads_def by (rule read_any_safe) simp

lemma reads_optional [reads_intro]: "reads bs m \<Longrightarrow> reads bs (read_optional m d)"
  unfolding read_optional_def by (intro reads_intro)

lemma reads_metadata [reads_intro]:
  "reads bs (case any of RssAmf0Object metadata \<Rightarrow> return (RssOnMetaDataPacket name metadata)
     | RssARssAmf0EcmaArray c arr \<Rightarrow> return (RssOnMetaDataPacket name (set_all [] arr))
     | _ \<Rightarrow> fail (Code ERROR_RTMP_AMF0_DECODE))"
  by (cases any) (simp_all add: reads_return reads_fail)

text \<open>A decoder that starts with a string, from any position.\<close>

definition decodes :: "byte list \<Rightarrow> 'a stream_comp \<Rightarrow> bool" where
  "decodes bs m \<longleftrightarrow> hoare (inside bs 0) m (\<lambda>_. inside bs 0) (gives_up bs)"

lemma decodes_string:
  assumes "\<And>x. reads bs (f x)"
  shows "decodes bs (bind (rss_amf0_read_string old) f)"
proof -
  have "hoare (inside bs 0) (rss_amf0_read_string old) (\<lambda>_. inside bs 2) (gives_up bs)"
    using hoare_post_mono [OF read_string_safe [of bs 0]] by simp
  moreover have "hoare (inside bs 2) (f x) (\<lambda>_. inside bs 0) (gives_up bs)" for x
    by (rule hoare_post_mono [OF assms [unfolded reads_def]]) simp
  ultimately show ?thesis unfolding decodes_def by (rule hoare_bind)
qed

lemma decodes_AMF0:
  "decodes bs decode_ConnectAppPacket" "decodes bs decode_CreateStreamPacket"
  "decodes bs decode_FMLEStartPacket" "decodes bs decode_PublishPacket"
  "decodes bs decode_PlayPacket" "decodes bs decode_OnMetaDataPacket"
  unfolding decode_ConnectAppPacket_def decode_CreateStreamPacket_def decode_FMLEStartPacket_def
    decode_PublishPacket_def decode_PlayPacket_def decode_OnMetaDataPacket_def
  by (rule decodes_string; intro reads_intro)+

lemma read_4bytes_or_fail:
  "hoare (inside bs 0) (bind (ensure (stream_require 4) c) (\<lambda>_. read_4bytes))
     (\<lambda>_. inside bs 0) (gives_up bs)"
proof (rule hoare_insideI)
  fix pre rest assume bs: "bs = pre @ rest" "0 \<le> length pre"
  show "case bind (ensure (stream_require 4) c) (\<lambda>_. read_4bytes) (strm pre rest) of
      (Inl e, s') \<Rightarrow> gives_up bs e s' | (Inr x, s') \<Rightarrow> inside bs 0 s'"
  proof (cases "4 \<le> length rest")
    case True
    then obtain b3 b2 b1 b0 r where "rest = b3 # b2 # b1 # b0 # r"
      by (auto simp: eval_nat_numeral length_Suc_conv dest!: split_front)
    with bs show ?thesis by (simp del: of_bytes.simps)
  next
    case False
    with bs show ?thesis by (simp add: ensure_strm gives_up_def)
  qed
qed

lemma decodes_4bytes:
  assumes "\<And>x. decodes bs (f x)"
  shows "decodes bs (bind (ensure (stream_require 4) c) (\<lambda>_. bind read_4bytes f))"
  using hoare_bind [OF read_4bytes_or_fail assms [unfolded decodes_def]]
  unfolding decodes_def bind_assoc .

lemma decodes_control:
  "decodes bs decode_SetWindowAckSizePacket" "decodes bs decode_SetChunkSizePacket"
  unfolding decode_SetWindowAckSizePacket_def decode_SetChunkSizePacket_def
  by (rule decodes_4bytes, simp add: decodes_def hoare_def gives_up_def)+

section \<open>Round trips\<close>

lemma decode_SetChunkSize_enc:
  assumes "RTMP_MIN_CHUNK_SIZE \<le> sint v"
  shows "decode_SetChunkSizePacket (strm pre (be4 v @ rest)) =
    (Inr (RssSetChunkSizePacket v), strm (pre @ be4 v) rest)"
  using assms by (simp add: decode_SetChunkSizePacket_def)

lemma decode_SetWindowAckSize_enc:
  "decode_SetWindowAckSizePacket (strm pre (be4 v @ rest)) =
    (Inr (RssSetWindowAckSizePacket v), strm (pre @ be4 v) rest)"
  by (simp add: decode_SetWindowAckSizePacket_def)

lemma decode_SetChunkSize_bound:
  "decode_SetChunkSizePacket s = (Inr pkt, s') \<Longrightarrow>
     \<exists>v. pkt = RssSetChunkSizePacket v \<and> RTMP_MIN_CHUNK_SIZE \<le> sint v"
  by (auto simp: decode_SetChunkSizePacket_def elim!: bind_cases split: if_splits)

lemma decode_OnMetaData_enc:
  assumes "length name < 2 ^ 15" and "name \<noteq> []" and "name \<noteq> RTMP_AMF0_DATA_SET_DATAFRAME"
    and "readable (RssAmf0Object metadata)"
  shows "decode_OnMetaDataPacket (strm pre (enc_packet (RssOnMetaDataPacket name metadata) @ rest)) =
    (Inr (RssOnMetaDataPacket name metadata),
     strm (pre @ enc_packet (RssOnMetaDataPacket name metadata)) rest)"
  using assms read_any_enc [OF assms(4)]
  by (simp add: decode_OnMetaDataPacket_def read_string_enc)

text \<open>
  An encoder wraps its metadata as \<^verbatim>\<open>@setDataFrame, onMetaData, ecma array\<close>; the decoded packet is
  the plain \<^verbatim>\<open>onMetaData\<close> object with the array's properties.
\<close>

lemma set_all_append: "ht_ok (metadata @ arr) \<Longrightarrow> set_all metadata arr = metadata @ arr"
proof (induction metadata arr rule: set_all.induct)
  case (1 metadata)
  then show ?case by simp
next
  case (2 metadata k v arr)
  then have "ht_set metadata k v = metadata @ [(k, v)]" by (auto simp: ht_ok_def ht_set_fresh)
  with 2 show ?case by simp
qed

lemma decode_SetDataFrame_enc:
  assumes "readable (RssARssAmf0EcmaArray c arr)"
  shows "decode_OnMetaDataPacket (strm pre (enc_any (RssAmf0String RTMP_AMF0_DATA_SET_DATAFRAME) @
      enc_any (RssAmf0String RTMP_AMF0_DATA_ON_METADATA) @ enc_any (RssARssAmf0EcmaArray c arr) @ rest)) =
    (Inr (RssOnMetaDataPacket RTMP_AMF0_DATA_ON_METADATA arr),
     strm (pre @ enc_any (RssAmf0String RTMP_AMF0_DATA_SET_DATAFRAME) @
       enc_any (RssAmf0String RTMP_AMF0_DATA_ON_METADATA) @ enc_any (RssARssAmf0EcmaArray c arr)) rest)"
  using assms read_any_enc [OF assms] set_all_append [of "[]" arr]
  by (simp add: decode_OnMetaDataPacket_def read_string_enc)

text \<open>Metadata that was received can be sent on.\<close>

lemma set_all_writable: "writable_props md \<Longrightarrow> writable_props arr \<Longrightarrow> writable_props (set_all md arr)"
  by (induction md arr rule: set_all.induct) (auto simp: writable_props_set)

lemma decode_OnMetaData_sendable:
  assumes "decode_OnMetaDataPacket s = (Inr pkt, s')"
  shows "\<exists>name md. pkt = RssOnMetaDataPacket name md \<and> length name < 2 ^ 31 \<and> writable_props md"
proof -
  from assms obtain n0 s0 n1 s1 v s2 where
    r: "rss_amf0_read_string RTMP_AMF0_DATA_ON_METADATA s = (Inr n0, s0)"
      "(if n0 = RTMP_AMF0_DATA_SET_DATAFRAME then rss_amf0_read_string n0 else return n0) s0 = (Inr n1, s1)"
      "rss_amf0_read_any s1 = (Inr v, s2)"
      "(case v of RssAmf0Object metadata \<Rightarrow> return (RssOnMetaDataPacket n1 metadata)
        | RssARssAmf0EcmaArray c arr \<Rightarrow> return (RssOnMetaDataPacket n1 (set_all [] arr))
        | _ \<Rightarrow> fail (Code ERROR_RTMP_AMF0_DECODE)) s2 = (Inr pkt, s')"
    unfolding decode_OnMetaDataPacket_def by (elim bind_cases) auto
  have "length n0 < 2 ^ 31" using read_string_short [OF r(1)] by simp
  then have "length n1 < 2 ^ 31" using r(2) read_string_short [of n0] by (auto split: if_splits)
  moreover note read_any_writable [OF r(3)]
  ultimately show ?thesis
    using r(4) by (cases v) (auto intro!: set_all_writable)
qed

end
