(* ===== verification/Rss_Message.thy ===== *)
theory Rss_Message
  imports Rss_Packet_Correct
begin

text \<open>
  Message headers and messages of \<^verbatim>\<open>rss_core_protocol.cpp\<close>: \<^verbatim>\<open>RssMessageHeader\<close>,
  \<^verbatim>\<open>RssCommonMessage\<close> with \<^verbatim>\<open>decode_packet\<close>, \<^verbatim>\<open>set_packet\<close> and \<^verbatim>\<open>encode_packet\<close>, and the view of a
  message that \<^verbatim>\<open>send_message\<close> has through the interface \<^verbatim>\<open>IRssMessage\<close>.
\<close>

section \<open>Headers\<close>

record RssMessageHeader =
  message_type :: byte
  payload_length :: i32
  timestamp_delta :: i32
  stream_id :: i32
  timestamp :: i32

definition header_new :: RssMessageHeader where
  "header_new = \<lparr>message_type = 0, payload_length = 0, timestamp_delta = 0, stream_id = 0, timestamp = 0\<rparr>"

definition header_is_audio :: "RssMessageHeader \<Rightarrow> bool" where
  "header_is_audio h \<longleftrightarrow> message_type h = RTMP_MSG_AudioMessage"

definition header_is_video :: "RssMessageHeader \<Rightarrow> bool" where
  "header_is_video h \<longleftrightarrow> message_type h = RTMP_MSG_VideoMessage"

definition header_is_amf0_command :: "RssMessageHeader \<Rightarrow> bool" where
  "header_is_amf0_command h \<longleftrightarrow> message_type h = RTMP_MSG_AMF0CommandMessage"

definition header_is_amf0_data :: "RssMessageHeader \<Rightarrow> bool" where
  "header_is_amf0_data h \<longleftrightarrow> message_type h = RTMP_MSG_AMF0DataMessage"

definition header_is_amf3_command :: "RssMessageHeader \<Rightarrow> bool" where
  "header_is_amf3_command h \<longleftrightarrow> message_type h = RTMP_MSG_AMF3CommandMessage"

definition header_is_amf3_data :: "RssMessageHeader \<Rightarrow> bool" where
  "header_is_amf3_data h \<longleftrightarrow> message_type h = RTMP_MSG_AMF3DataMessage"

definition header_is_window_ackledgement_size :: "RssMessageHeader \<Rightarrow> bool" where
  "header_is_window_ackledgement_size h \<longleftrightarrow> message_type h = RTMP_MSG_WindowAcknowledgementSize"

definition header_is_set_chunk_size :: "RssMessageHeader \<Rightarrow> bool" where
  "header_is_set_chunk_size h \<longleftrightarrow> message_type h = RTMP_MSG_SetChunkSize"

lemmas header_is_defs = header_is_audio_def header_is_video_def header_is_amf0_command_def
  header_is_amf0_data_def header_is_amf3_command_def header_is_amf3_data_def
  header_is_window_ackledgement_size_def header_is_set_chunk_size_def

section \<open>Common messages\<close>

text \<open>
  \<open>msg_payload\<close> is the array \<^verbatim>\<open>payload\<close> points to (\<open>None\<close> for \<^verbatim>\<open>NULL\<close>), of which \<open>msg_size\<close> bytes are
  valid. The decode stream of the source is reinitialised by every \<^verbatim>\<open>decode_packet\<close> and not kept.
\<close>

record RssCommonMessage =
  msg_header :: RssMessageHeader
  msg_size :: int
  msg_payload :: "byte list option"
  msg_packet :: "RssPacket option"

definition common_message_new :: RssCommonMessage where
  "common_message_new = \<lparr>msg_header = header_new, msg_size = 0, msg_payload = None, msg_packet = None\<rparr>"

text \<open>
  The part of \<^verbatim>\<open>decode_packet\<close> that chooses the packet class from the command name.
\<close>

definition decode_command :: "string \<Rightarrow> RssPacket stream_comp" where
  "decode_command command =
     (if command = RTMP_AMF0_COMMAND_CONNECT then decode_ConnectAppPacket
      else if command = RTMP_AMF0_COMMAND_CREATE_STREAM then decode_CreateStreamPacket
      else if command = RTMP_AMF0_COMMAND_PLAY then decode_PlayPacket
      else if command = RTMP_AMF0_COMMAND_RELEASE_STREAM then decode_FMLEStartPacket
      else if command = RTMP_AMF0_COMMAND_FC_PUBLISH then decode_FMLEStartPacket
      else if command = RTMP_AMF0_COMMAND_PUBLISH then decode_PublishPacket
      else if command = RTMP_AMF0_COMMAND_UNPUBLISH then decode_FMLEStartPacket
      else if command = RTMP_AMF0_DATA_SET_DATAFRAME \<or> command = RTMP_AMF0_DATA_ON_METADATA
        then decode_OnMetaDataPacket
      else return RssPacket_base)"

definition decode_by_header :: "RssMessageHeader \<Rightarrow> RssPacket stream_comp" where
  "decode_by_header h =
     (if header_is_amf0_command h \<or> header_is_amf3_command h \<or> header_is_amf0_data h \<or>
         header_is_amf3_data h
      then
        bind (get (stream_require 1)) (\<lambda>r1.
        bind (if header_is_amf3_command h \<and> r1 then stream_skip 1 else return ()) (\<lambda>_.
        bind (rss_amf0_read_string []) (\<lambda>command.
        bind stream_reset (\<lambda>_.
        bind (if header_is_amf3_command h then stream_skip 1 else return ()) (\<lambda>_.
        decode_command command)))))
      else if header_is_window_ackledgement_size h then decode_SetWindowAckSizePacket
      else if header_is_set_chunk_size h then decode_SetChunkSizePacket
      else return RssPacket_base)"

text \<open>
  When the decoder of the packet fails, the source leaves a packet with the fields read so far in
  a message that every caller then deletes; the model leaves the message undecoded.
\<close>

definition common_decode_packet :: "(RssCommonMessage, unit) comp" where
  "common_decode_packet msg =
     (if msg_payload msg = None \<or> \<not> 0 < msg_size msg then (Inl AssertFailed, msg)
      else if msg_packet msg \<noteq> None then (Inr (), msg)
      else
        (case bind (stream_initialize (msg_payload msg) (msg_size msg))
                (\<lambda>_. decode_by_header (msg_header msg)) stream_new of
           (Inl e, _) \<Rightarrow> (Inl e, msg)
         | (Inr pkt, _) \<Rightarrow> (Inr (), msg\<lparr>msg_packet := Some pkt\<rparr>)))"

definition common_get_packet :: "(RssCommonMessage, RssPacket) comp" where
  "common_get_packet msg =
     (case msg_packet msg of None \<Rightarrow> (Inl AssertFailed, msg) | Some pkt \<Rightarrow> (Inr pkt, msg))"

definition common_get_perfer_cid :: "RssCommonMessage \<Rightarrow> int" where
  "common_get_perfer_cid msg =
     (case msg_packet msg of
        None \<Rightarrow> RTMP_CID_ProtocolControl
      | Some pkt \<Rightarrow> packet_get_perfer_cid pkt)"

definition common_set_packet :: "RssPacket \<Rightarrow> i32 \<Rightarrow> RssCommonMessage \<Rightarrow> RssCommonMessage" where
  "common_set_packet pkt sid msg =
     msg\<lparr>msg_packet := Some pkt,
         msg_header := (msg_header msg)\<lparr>message_type := packet_get_message_type pkt,
                                        payload_length := word_of_int (packet_get_size pkt),
                                        stream_id := sid\<rparr>\<rparr>"

text \<open>\<^verbatim>\<open>encode_packet\<close> frees the old payload before it encodes.\<close>

definition common_encode_packet :: "(nat \<Rightarrow> byte list) \<Rightarrow> (RssCommonMessage, unit) comp" where
  "common_encode_packet heap msg =
     (case msg_packet msg of
        None \<Rightarrow> (Inr (), msg)
      | Some pkt \<Rightarrow>
          (case packet_encode heap pkt of
             Inl e \<Rightarrow> (Inl e, msg\<lparr>msg_size := 0, msg_payload := None\<rparr>)
           | Inr (n, payload) \<Rightarrow> (Inr (), msg\<lparr>msg_size := n, msg_payload := payload\<rparr>)))"

section \<open>The interface of outgoing messages\<close>

text \<open>
  What \<^verbatim>\<open>send_message\<close> sees through \<^verbatim>\<open>IRssMessage\<close>: a common message, or a shared message given by
  its header, its size, the shared payload and the preferred chunk stream.
\<close>

datatype IRssMessage =
    CommonMessage RssCommonMessage
  | SharedPtrMessage RssMessageHeader int "byte list option" int

fun imsg_header :: "IRssMessage \<Rightarrow> RssMessageHeader" where
  "imsg_header (CommonMessage m) = msg_header m"
| "imsg_header (SharedPtrMessage h _ _ _) = h"

fun imsg_size :: "IRssMessage \<Rightarrow> int" where
  "imsg_size (CommonMessage m) = msg_size m"
| "imsg_size (SharedPtrMessage _ n _ _) = n"

fun imsg_payload :: "IRssMessage \<Rightarrow> byte list option" where
  "imsg_payload (CommonMessage m) = msg_payload m"
| "imsg_payload (SharedPtrMessage _ _ pl _) = pl"

fun imsg_can_decode :: "IRssMessage \<Rightarrow> bool" where
  "imsg_can_decode (CommonMessage m) = True"
| "imsg_can_decode (SharedPtrMessage _ _ _ _) = False"

fun imsg_get_perfer_cid :: "IRssMessage \<Rightarrow> int" where
  "imsg_get_perfer_cid (CommonMessage m) = common_get_perfer_cid m"
| "imsg_get_perfer_cid (SharedPtrMessage _ _ _ cid) = cid"

fun imsg_encode_packet :: "(nat \<Rightarrow> byte list) \<Rightarrow> IRssMessage \<Rightarrow> IRssMessage res" where
  "imsg_encode_packet heap (CommonMessage m) =
     (case common_encode_packet heap m of (Inl e, _) \<Rightarrow> Inl e | (Inr _, m') \<Rightarrow> Inr (CommonMessage m'))"
| "imsg_encode_packet heap (SharedPtrMessage h n pl cid) = Inr (SharedPtrMessage h n pl cid)"

section \<open>Decoding and encoding messages\<close>

lemma decodes_command: "decodes bs (decode_command command)"
  by (simp add: decode_command_def decodes_AMF0)
    (simp add: decodes_def hoare_def)

lemma decode_by_header_safe:
  assumes "bs \<noteq> []"
  shows "hoare (\<lambda>s. s = strm [] bs) (decode_by_header h) (\<lambda>_. inside bs 0) (gives_up bs)"
proof (cases "header_is_amf0_command h \<or> header_is_amf3_command h \<or> header_is_amf0_data h \<or>
    header_is_amf3_data h")
  case True
  let ?skip = "if header_is_amf3_command h then stream_skip 1 else return ()"
  obtain b r where bs: "bs = b # r" using assms by (cases bs) auto
  have skip: "\<exists>s. ?skip (strm [] bs) = (Inr (), s) \<and> inside bs 0 s"
    using bs by (simp add: stream_skip_forward)
  have tail: "hoare (inside bs 0) (bind stream_reset (\<lambda>_. bind ?skip (\<lambda>_. decode_command c)))
      (\<lambda>_. inside bs 0) (gives_up bs)" for c
  proof -
    have "hoare (inside bs 0) (bind stream_reset (\<lambda>_. ?skip)) (\<lambda>_. inside bs 0) (gives_up bs)"
      using skip by (intro hoare_insideI) (auto simp: stream_reset_strm)
    from hoare_bind [OF this, of "\<lambda>_. decode_command c"] decodes_command [of bs c, unfolded decodes_def]
    show ?thesis unfolding bind_assoc by blast
  qed
  have read: "hoare (inside bs 0) (rss_amf0_read_string []) (\<lambda>_. inside bs 0) (gives_up bs)"
    by (rule hoare_post_mono [OF read_string_safe]) simp
  define body where "body c = bind stream_reset (\<lambda>_. bind ?skip (\<lambda>_. decode_command c))" for c
  have whole: "hoare (inside bs 0) (bind (rss_amf0_read_string []) body) (\<lambda>_. inside bs 0) (gives_up bs)"
    by (rule hoare_bind [OF read]) (simp add: body_def tail)
  from skip obtain s1 where s1: "?skip (strm [] bs) = (Inr (), s1)" "inside bs 0 s1" by blast
  have "decode_by_header h (strm [] bs) = bind (rss_amf0_read_string []) body s1"
    using True s1(1) bs unfolding decode_by_header_def body_def by simp
  with hoareD [OF whole s1(2)] show ?thesis by (simp add: hoare_def)
next
  case False
  have "decodes bs (decode_by_header h)"
    using False by (simp add: decode_by_header_def decodes_control)
      (simp add: decodes_def hoare_def)
  then show ?thesis
    unfolding decodes_def by (rule hoare_pre) simp
qed

text \<open>
  Decoding a received message never aborts, whatever its type and its bytes: it yields a packet
  or an error code.
\<close>

lemma common_decode_packet_safe:
  assumes "msg_payload msg = Some bs" and "0 < msg_size msg" and "msg_size msg \<le> int (length bs)"
    and "common_decode_packet msg = (r, msg')"
  shows "(\<exists>c. r = Inl (Code c)) \<and> msg' = msg \<or> (\<exists>pkt. r = Inr () \<and> msg' = msg\<lparr>msg_packet := Some pkt\<rparr>)"
proof (cases "msg_packet msg")
  case None
  let ?bs = "take (nat (msg_size msg)) bs"
  have ne: "?bs \<noteq> []" using assms(2,3) by auto
  obtain r' s' where dec: "decode_by_header (msg_header msg) (strm [] ?bs) = (r', s')" by fastforce
  have "\<exists>c. e = Code c" if "r' = Inl e" for e
    using hoareD_Inl [OF decode_by_header_safe [OF ne], of "strm [] ?bs" "msg_header msg" e s']
      dec that by (cases e) (auto simp: gives_up_def)
  with assms dec None stream_initialize_take [OF assms(2,3), of stream_new] show ?thesis
    by (cases r') (auto simp: common_decode_packet_def)
next
  case (Some pkt)
  with assms show ?thesis by (auto simp: common_decode_packet_def intro: exI [of _ pkt])
qed

text \<open>
  A packet set into a message: after encoding, the header's length field is the number of payload
  bytes and the payload is the packet's wire image.
\<close>

lemma encode_set_packet:
  assumes "sendable pkt" and "\<And>n. length (heap n) = n"
  shows "imsg_encode_packet heap (CommonMessage (common_set_packet pkt sid msg)) =
    Inr (CommonMessage ((common_set_packet pkt sid msg)
      \<lparr>msg_size := int (length (enc_packet pkt)), msg_payload := Some (enc_packet pkt)\<rparr>))"
  by (simp add: common_encode_packet_def common_set_packet_def packet_encode_enc [where heap = heap, OF assms])

lemma payload_length_set_packet:
  assumes "sendable pkt" and "length (enc_packet pkt) < 2 ^ 31"
  shows "sint (payload_length (msg_header (common_set_packet pkt sid msg))) = int (length (enc_packet pkt))"
  using assms by (simp add: common_set_packet_def packet_size_enc sint_of_nat_small)

end
