(* ===== verification/Rss_Socket.thy ===== *)
theory Rss_Socket
  imports St_Io
begin

text \<open>
  \<^verbatim>\<open>RssSocket\<close> (\<^verbatim>\<open>rss_core_socket.cpp\<close>): the state-threads calls with timeouts, their return values
  turned into error codes. The descriptor \<^verbatim>\<open>stfd\<close> is represented by the state of its kernel side.
\<close>

record RssSocket =
  recv_timeout :: int
  send_timeout :: int
  stfd :: st_net

definition socket_new :: "st_net \<Rightarrow> RssSocket" where
  "socket_new client_stfd =
     \<lparr>recv_timeout = ST_UTIME_NO_TIMEOUT, send_timeout = ST_UTIME_NO_TIMEOUT, stfd = client_stfd\<rparr>"

text \<open>The product \<^verbatim>\<open>timeout_ms * 1000\<close> is computed as an \<^verbatim>\<open>int\<close>; its overflow is undefined.\<close>

definition ms_to_us :: "int \<Rightarrow> int res" where
  "ms_to_us timeout_ms =
     (if - (2 ^ 31) \<le> timeout_ms * 1000 \<and> timeout_ms * 1000 < 2 ^ 31 then Inr (timeout_ms * 1000)
      else Inl Undefined)"

definition socket_set_recv_timeout :: "int \<Rightarrow> (RssSocket, unit) comp" where
  "socket_set_recv_timeout timeout_ms =
     bind (lift_res (ms_to_us timeout_ms)) (\<lambda>us. modify (\<lambda>k. k\<lparr>recv_timeout := us\<rparr>))"

definition socket_set_send_timeout :: "int \<Rightarrow> (RssSocket, unit) comp" where
  "socket_set_send_timeout timeout_ms =
     bind (lift_res (ms_to_us timeout_ms)) (\<lambda>us. modify (\<lambda>k. k\<lparr>send_timeout := us\<rparr>))"

definition set_errno :: "st_errno \<Rightarrow> st_net \<Rightarrow> st_net" where
  "set_errno e net = net\<lparr>net_errno := e\<rparr>"

text \<open>
  \<^verbatim>\<open>RssSocket::read\<close>: the test of \<^verbatim>\<open>errno\<close> comes first, also when \<^verbatim>\<open>st_read\<close> returned 0 and did
  not set it.
\<close>

definition socket_read :: "nat \<Rightarrow> (RssSocket, byte list) comp" where
  "socket_read nsize k =
     (case st_read nsize (recv_timeout k) (stfd k) of
        (nread, net) \<Rightarrow>
          if nread = None \<or> nread = Some [] then
            if net_errno net = ETIME then (Inl (Code ERROR_SOCKET_TIMEOUT), k\<lparr>stfd := net\<rparr>)
            else (Inl (Code ERROR_SOCKET_READ),
                  k\<lparr>stfd := (if nread = Some [] then set_errno ECONNRESET net else net)\<rparr>)
          else (Inr (the nread), k\<lparr>stfd := net\<rparr>))"

definition socket_read_fully :: "nat \<Rightarrow> (RssSocket, byte list) comp" where
  "socket_read_fully nsize k =
     (case st_read_fully nsize (recv_timeout k) (stfd k) of
        (nread, net) \<Rightarrow>
          if nread = None \<or> length (the nread) \<noteq> nsize then
            if net_errno net = ETIME then (Inl (Code ERROR_SOCKET_TIMEOUT), k\<lparr>stfd := net\<rparr>)
            else (Inl (Code ERROR_SOCKET_READ_FULLY),
                  k\<lparr>stfd := (if nread \<noteq> None then set_errno ECONNRESET net else net)\<rparr>)
          else (Inr (the nread), k\<lparr>stfd := net\<rparr>))"

text \<open>The result of the writes is \<^verbatim>\<open>*nwrite\<close>; a write of 0 bytes counts as failed.\<close>

definition socket_write :: "byte list \<Rightarrow> (RssSocket, nat) comp" where
  "socket_write buf k =
     (case st_write buf (send_timeout k) (stfd k) of
        (nwrite, net) \<Rightarrow>
          if nwrite = None \<or> nwrite = Some 0 then
            (Inl (Code (if net_errno net = ETIME then ERROR_SOCKET_TIMEOUT else ERROR_SOCKET_WRITE)),
             k\<lparr>stfd := net\<rparr>)
          else (Inr (the nwrite), k\<lparr>stfd := net\<rparr>))"

text \<open>The vectors handed to \<^verbatim>\<open>writev\<close> have two elements (header and payload), so that \<^verbatim>\<open>st_writev\<close> allocates nothing.\<close>

definition socket_writev :: "byte list list \<Rightarrow> (RssSocket, nat) comp" where
  "socket_writev iov k =
     (case st_writev True iov (send_timeout k) (stfd k) of
        (nwrite, net) \<Rightarrow>
          if nwrite = None \<or> nwrite = Some 0 then
            (Inl (Code (if net_errno net = ETIME then ERROR_SOCKET_TIMEOUT else ERROR_SOCKET_WRITE)),
             k\<lparr>stfd := net\<rparr>)
          else (Inr (the nwrite), k\<lparr>stfd := net\<rparr>))"

section \<open>The byte-stream contract of the socket\<close>

abbreviation sock_in :: "RssSocket \<Rightarrow> byte list" where "sock_in k \<equiv> net_in (stfd k)"
abbreviation sock_sent :: "RssSocket \<Rightarrow> byte list" where "sock_sent k \<equiv> net_sent (stfd k)"

lemma net_in_set_errno [simp]: "net_in (set_errno e net) = net_in net"
  "net_sent (set_errno e net) = net_sent net"
  by (simp_all add: net_in_def set_errno_def)

lemma socket_read_ok:
  "socket_read n k = (Inr bs, k') \<Longrightarrow>
     bs \<noteq> [] \<and> length bs \<le> n \<and> sock_in k = bs @ sock_in k' \<and> sock_sent k' = sock_sent k \<and>
     recv_timeout k' = recv_timeout k \<and> send_timeout k' = send_timeout k"
  by (auto simp: socket_read_def split: prod.splits if_splits dest!: st_read_stream)

lemma socket_read_error:
  "socket_read n k = (Inl e, k') \<Longrightarrow>
     (e = Code ERROR_SOCKET_TIMEOUT \<or> e = Code ERROR_SOCKET_READ) \<and> sock_in k' = sock_in k \<and>
     sock_sent k' = sock_sent k"
  by (auto simp: socket_read_def split: prod.splits if_splits dest!: st_read_stream)

lemma st_read_fair:
  "net_fair net \<Longrightarrow> 0 < n \<Longrightarrow> net_in net \<noteq> [] \<Longrightarrow>
     \<exists>bs net'. st_read n t net = (Some bs, net') \<and> bs \<noteq> [] \<and> net_fair net'"
proof (induction n t net rule: st_read.induct)
  case (1 n t net)
  obtain r1 net1 where sys: "sys_read n net = (r1, net1)" by fastforce
  obtain p net2 where poll: "st_netfd_poll t net1 = (p, net2)" by fastforce
  have fair1: "net_fair net1" "r1 = None \<longrightarrow> net_errno net1 = EINTR \<or> net_errno net1 = EAGAIN"
    "r1 \<noteq> Some []"
    using 1(3-5) sys
    by (auto simp: net_fair_def net_in_def sys_read.simps split: list.splits rd_event.splits if_splits)
  from poll_fair [OF fair1(1) poll] have fair2: "p = True" "net_fair net2" by auto
  show ?case
  proof (cases r1)
    case None
    then have "net_in net1 \<noteq> []" "net_in net2 \<noteq> []"
      using 1(5) sys_read_stream [OF sys] poll_stream [OF poll] by auto
    with 1(1) [OF sys [symmetric] None] 1(2) [OF sys [symmetric] None _ _ poll [symmetric]] show ?thesis
      using fair1 fair2 1(4) sys None poll by (subst st_read.simps) auto
  next
    case (Some bs)
    with fair1 sys show ?thesis by (subst st_read.simps) auto
  qed
qed

lemma socket_read_fair:
  assumes "net_fair (stfd k)" and "0 < n" and "sock_in k \<noteq> []"
  shows "\<exists>bs k'. socket_read n k = (Inr bs, k') \<and> net_fair (stfd k')"
  using st_read_fair [OF assms, of "recv_timeout k"] by (auto simp: socket_read_def)

lemma socket_writev_ok:
  "socket_writev iov k = (Inr n, k') \<Longrightarrow>
     n = length (concat iov) \<and> sock_sent k' = sock_sent k @ concat iov \<and> sock_in k' = sock_in k"
  by (auto simp: socket_writev_def net_in_def split: prod.splits if_splits dest!: st_writev_sent)

lemma st_writev_prefix:
  assumes "st_writev alloc iov t net = (r, net')"
  shows "\<exists>i. net_sent net' = net_sent net @ take i (concat iov)" and "net_rd net' = net_rd net"
proof -
  show "\<exists>i. net_sent net' = net_sent net @ take i (concat iov)"
    using st_writev_sent [OF assms] by (cases r) (auto intro: exI [of _ "length (concat iov)"])
  show "net_rd net' = net_rd net" using st_writev_sent [OF assms] by simp
qed

lemma socket_writev_error:
  "socket_writev iov k = (Inl e, k') \<Longrightarrow>
     (e = Code ERROR_SOCKET_TIMEOUT \<or> e = Code ERROR_SOCKET_WRITE) \<and>
     (\<exists>i. sock_sent k' = sock_sent k @ take i (concat iov)) \<and> sock_in k' = sock_in k"
  by (auto simp: socket_writev_def net_in_def split: prod.splits if_splits
      dest: st_writev_prefix)

lemma socket_write_ok:
  "socket_write buf k = (Inr n, k') \<Longrightarrow>
     n = length buf \<and> sock_sent k' = sock_sent k @ buf \<and> sock_in k' = sock_in k"
  by (auto simp: socket_write_def net_in_def split: prod.splits if_splits dest!: st_write_sent)

end
