(* ===== verification/Rss_Buffer.thy ===== *)
theory Rss_Buffer
  imports Rss_Socket
begin

text \<open>
  \<^verbatim>\<open>RssBuffer\<close> (\<^verbatim>\<open>rss_core_buffer.cpp\<close>): the vector of received bytes that are not consumed yet.
  The vector's capacity is part of the state, with the growth rule of libstdc++, because the
  protocol keeps raw pointers into the vector: a pointer is the number of the allocation it was
  taken from and an offset, and an access through it after a reallocation is undefined.
\<close>

record RssBuffer =
  buf_data :: "byte list"
  buf_capacity :: nat
  buf_epoch :: nat

type_synonym buf_ptr = "nat \<times> int"
type_synonym rss_io = "RssBuffer \<times> RssSocket"

abbreviation SOCKET_READ_SIZE :: nat where "SOCKET_READ_SIZE \<equiv> 4096"

definition buffer_new :: RssBuffer where
  "buffer_new = \<lparr>buf_data = [], buf_capacity = 0, buf_epoch = 0\<rparr>"

definition buffer_size :: "RssBuffer \<Rightarrow> int" where
  "buffer_size b = int_of_size (length (buf_data b))"

text \<open>\<^verbatim>\<open>data.at(0)\<close> throws \<^verbatim>\<open>std::out_of_range\<close> on an empty vector.\<close>

definition buffer_bytes :: "(rss_io, buf_ptr) comp" where
  "buffer_bytes s =
     (if buf_data (fst s) = [] then (Inl CppException, s) else (Inr (buf_epoch (fst s), 0), s))"

definition buffer_deref :: "buf_ptr \<Rightarrow> (rss_io, byte) comp" where
  "buffer_deref q s =
     (if fst q = buf_epoch (fst s) \<and> 0 \<le> snd q \<and> snd q < int (length (buf_data (fst s)))
      then (Inr (buf_data (fst s) ! nat (snd q)), s) else (Inl Undefined, s))"

text \<open>\<open>n\<close> bytes from a pointer on, as \<^verbatim>\<open>memcpy\<close> reads them.\<close>

definition buffer_copy :: "buf_ptr \<Rightarrow> int \<Rightarrow> (rss_io, byte list) comp" where
  "buffer_copy q n s =
     (if n = 0 then (Inr [], s)
      else if fst q = buf_epoch (fst s) \<and> 0 \<le> snd q \<and> 0 < n \<and> snd q + n \<le> int (length (buf_data (fst s)))
      then (Inr (take (nat n) (drop (nat (snd q)) (buf_data (fst s)))), s)
      else (Inl Undefined, s))"

definition buffer_erase :: "int \<Rightarrow> (rss_io, unit) comp" where
  "buffer_erase n s =
     (if 0 \<le> n \<and> n \<le> int (length (buf_data (fst s)))
      then (Inr (), ((fst s)\<lparr>buf_data := drop (nat n) (buf_data (fst s))\<rparr>, snd s))
      else (Inl Undefined, s))"

text \<open>
  \<^verbatim>\<open>data.insert(data.end(), ...)\<close>: in place while the capacity lasts, else into a new allocation of
  the size plus the larger of the size and the number of new bytes.
\<close>

definition buffer_append :: "byte list \<Rightarrow> RssBuffer \<Rightarrow> RssBuffer" where
  "buffer_append bs b =
     (let len = length (buf_data b); n = length bs in
      if len + n \<le> buf_capacity b then b\<lparr>buf_data := buf_data b @ bs\<rparr>
      else \<lparr>buf_data = buf_data b @ bs, buf_capacity = len + max len n, buf_epoch = Suc (buf_epoch b)\<rparr>)"

function ensure_loop :: "int \<Rightarrow> rss_io \<Rightarrow> unit res \<times> rss_io" where
  "ensure_loop required_size (b, k) =
     (if buffer_size b < required_size then
        (case socket_read SOCKET_READ_SIZE k of
           (Inl e, k') \<Rightarrow> (Inl e, (b, k'))
         | (Inr bs, k') \<Rightarrow>
             if 0 < length bs then ensure_loop required_size (buffer_append bs b, k')
             else (Inl AssertFailed, (b, k')))
      else (Inr (), (b, k)))"
  by pat_completeness auto
termination
  by (relation "measure (\<lambda>(n, b, k). length (sock_in k))") (auto dest!: socket_read_ok [OF sym])

declare ensure_loop.simps [simp del]

definition ensure_buffer_bytes :: "int \<Rightarrow> (rss_io, unit) comp" where
  "ensure_buffer_bytes required_size s =
     (if 0 \<le> required_size then ensure_loop required_size s else (Inl AssertFailed, s))"

section \<open>The buffer as a prefix of the input stream\<close>

text \<open>The bytes the protocol still has to consume: those in the buffer, then those of the socket.\<close>

definition io_stream :: "rss_io \<Rightarrow> byte list" where
  "io_stream s = buf_data (fst s) @ sock_in (snd s)"

lemma append_data [simp]: "buf_data (buffer_append bs b) = buf_data b @ bs"
  by (simp add: buffer_append_def Let_def)

lemma append_epoch: "buf_epoch b \<le> buf_epoch (buffer_append bs b)"
  by (simp add: buffer_append_def Let_def)

text \<open>The capacity bounds the size, so the epoch moves exactly when the capacity is exceeded.\<close>

definition buffer_ok :: "RssBuffer \<Rightarrow> bool" where
  "buffer_ok b \<longleftrightarrow> length (buf_data b) \<le> buf_capacity b"

lemma buffer_ok_new: "buffer_ok buffer_new"
  by (simp add: buffer_ok_def buffer_new_def)

lemma buffer_ok_append: "buffer_ok (buffer_append bs b)"
  by (simp add: buffer_ok_def buffer_append_def Let_def)

lemma buffer_ok_erase: "buffer_ok (fst s) \<Longrightarrow> buffer_erase n s = (r, s') \<Longrightarrow> buffer_ok (fst s')"
  by (auto simp: buffer_ok_def buffer_erase_def split: if_splits)

lemma ensure_loop_stream:
  "ensure_loop n s = (r, s') \<Longrightarrow>
     io_stream s' = io_stream s \<and> sock_sent (snd s') = sock_sent (snd s) \<and>
     (\<exists>more. buf_data (fst s') = buf_data (fst s) @ more) \<and>
     (r = Inr () \<longrightarrow> n \<le> buffer_size (fst s')) \<and>
     (\<forall>e. r = Inl e \<longrightarrow> e = Code ERROR_SOCKET_TIMEOUT \<or> e = Code ERROR_SOCKET_READ)"
proof (induction n s arbitrary: r s' rule: ensure_loop.induct)
  case (1 n b k)
  show ?case
  proof (cases "buffer_size b < n")
    case False
    with 1(2) show ?thesis by (subst (asm) ensure_loop.simps) auto
  next
    case True
    obtain r1 k1 where rd: "socket_read SOCKET_READ_SIZE k = (r1, k1)" by fastforce
    show ?thesis
    proof (cases r1)
      case (Inl e)
      with 1(2) True rd socket_read_error [of SOCKET_READ_SIZE k e k1] show ?thesis
        by (subst (asm) ensure_loop.simps) (auto simp: io_stream_def)
    next
      case (Inr bs)
      with rd have ok: "bs \<noteq> []" "sock_in k = bs @ sock_in k1" "sock_sent k1 = sock_sent k"
        using socket_read_ok by auto
      with 1(2) True rd Inr have "ensure_loop n (buffer_append bs b, k1) = (r, s')"
        by (subst (asm) ensure_loop.simps) auto
      with 1(1) [OF True rd [symmetric] Inr] ok show ?thesis
        by (auto simp: io_stream_def)
    qed
  qed
qed

lemma ensure_loop_fair:
  "net_fair (stfd (snd s)) \<Longrightarrow> n \<le> int (length (io_stream s)) \<Longrightarrow> length (io_stream s) < 2 ^ 31 \<Longrightarrow>
     \<exists>s'. ensure_loop n s = (Inr (), s') \<and> net_fair (stfd (snd s'))"
proof (induction n s rule: ensure_loop.induct)
  case (1 n b k)
  show ?case
  proof (cases "buffer_size b < n")
    case False
    with 1(2) show ?thesis by (subst ensure_loop.simps) auto
  next
    case True
    from 1(4) have "length (buf_data b) < 2 ^ 31" by (simp add: io_stream_def)
    then have "buffer_size b = int (length (buf_data b))"
      unfolding buffer_size_def by (rule int_of_size_small)
    with True 1(3) have "sock_in k \<noteq> []" by (auto simp: io_stream_def)
    then obtain bs k1 where rd: "socket_read SOCKET_READ_SIZE k = (Inr bs, k1)"
      and fair: "net_fair (stfd k1)"
      using socket_read_fair [of k SOCKET_READ_SIZE] 1(2) by auto
    have bs: "bs \<noteq> []" "sock_in k = bs @ sock_in k1"
      using socket_read_ok [OF rd] by auto
    with 1(1) [OF True rd [symmetric] refl] 1(3,4) fair
    have "\<exists>s'. ensure_loop n (buffer_append bs b, k1) = (Inr (), s') \<and> net_fair (stfd (snd s'))"
      by (auto simp: io_stream_def)
    with True rd bs show ?thesis by (subst ensure_loop.simps) auto
  qed
qed

text \<open>
  The contract the protocol relies on. \<open>view\<close> is the stream still to be consumed; filling the
  buffer does not change it, erasing drops its front, and what is buffered is its front.
\<close>

locale buffered_input =
  fixes view :: "'s \<Rightarrow> byte list"
    and buffered :: "'s \<Rightarrow> byte list"
    and fill :: "int \<Rightarrow> ('s, unit) comp"
    and erase :: "int \<Rightarrow> ('s, unit) comp"
  assumes front: "\<exists>more. view s = buffered s @ more"
    and fill_view: "fill n s = (r, s') \<Longrightarrow> view s' = view s"
    and fill_grows: "fill n s = (r, s') \<Longrightarrow> \<exists>more. buffered s' = buffered s @ more"
    and fill_enough: "fill n s = (Inr u, s') \<Longrightarrow> 0 \<le> n \<and> n \<le> int (length (buffered s'))"
    and erase_view: "erase n s = (Inr u, s') \<Longrightarrow>
      0 \<le> n \<and> view s' = drop (nat n) (view s) \<and> buffered s' = drop (nat n) (buffered s)"
    and erase_total: "0 \<le> n \<Longrightarrow> n \<le> int (length (buffered s)) \<Longrightarrow> \<exists>s'. erase n s = (Inr (), s')"
begin

lemma fill_prefix:
  assumes "fill n s = (Inr u, s')"
  shows "take (nat n) (buffered s') = take (nat n) (view s)"
  using front [of s'] fill_view [OF assms] fill_enough [OF assms] by auto

text \<open>Filling and then erasing consumes exactly the bytes asked for.\<close>

lemma fill_erase:
  assumes "fill n s = (Inr u, s')"
  shows "\<exists>s''. erase n s' = (Inr (), s'') \<and> view s = take (nat n) (buffered s') @ view s''"
proof -
  from fill_enough [OF assms] obtain s'' where er: "erase n s' = (Inr (), s'')"
    using erase_total by blast
  with erase_view [OF er] fill_view [OF assms] fill_prefix [OF assms] show ?thesis by simp
qed

end

lemma int_of_size_le: "int_of_size n \<le> int n"
proof (cases "n < 2 ^ 31")
  case True
  then show ?thesis by (simp add: int_of_size_small)
next
  case False
  have "sint (word_of_nat n :: i32) < 2 ^ 31" using sint_less [of "word_of_nat n :: i32"] by simp
  with False show ?thesis by (simp add: int_of_size_def)
qed

interpretation io: buffered_input io_stream "\<lambda>s. buf_data (fst s)" ensure_buffer_bytes buffer_erase
proof
  show "\<exists>more. io_stream s = buf_data (fst s) @ more" for s by (simp add: io_stream_def)
  show "io_stream s' = io_stream s" if "ensure_buffer_bytes n s = (r, s')" for n s r s'
    using that by (auto simp: ensure_buffer_bytes_def split: if_splits dest: ensure_loop_stream)
  show "\<exists>more. buf_data (fst s') = buf_data (fst s) @ more"
    if "ensure_buffer_bytes n s = (r, s')" for n s r s'
    using that by (auto simp: ensure_buffer_bytes_def split: if_splits dest: ensure_loop_stream)
  show "0 \<le> n \<and> n \<le> int (length (buf_data (fst s')))"
    if "ensure_buffer_bytes n s = (Inr u, s')" for n s u s'
    using that int_of_size_le [of "length (buf_data (fst s'))"]
    by (auto simp: ensure_buffer_bytes_def buffer_size_def split: if_splits dest!: ensure_loop_stream)
  show "0 \<le> n \<and> io_stream s' = drop (nat n) (io_stream s) \<and>
      buf_data (fst s') = drop (nat n) (buf_data (fst s))"
    if "buffer_erase n s = (Inr u, s')" for n s u s'
    using that by (auto simp: buffer_erase_def io_stream_def split: if_splits)
  show "\<exists>s'. buffer_erase n s = (Inr (), s')"
    if "0 \<le> n" "n \<le> int (length (buf_data (fst s)))" for n s
    using that by (simp add: buffer_erase_def)
qed

text \<open>Filling fails only as the socket does, and cannot fail while the stream has enough bytes.\<close>

lemma ensure_error:
  "ensure_buffer_bytes n s = (Inl e, s') \<Longrightarrow> 0 \<le> n \<Longrightarrow>
     e = Code ERROR_SOCKET_TIMEOUT \<or> e = Code ERROR_SOCKET_READ"
  by (auto simp: ensure_buffer_bytes_def dest: ensure_loop_stream)

lemma ensure_sent: "ensure_buffer_bytes n s = (r, s') \<Longrightarrow> sock_sent (snd s') = sock_sent (snd s)"
  by (auto simp: ensure_buffer_bytes_def split: if_splits dest: ensure_loop_stream)

lemma ensure_fair:
  assumes "net_fair (stfd (snd s))" and "0 \<le> n" and "n \<le> int (length (io_stream s))"
    and "length (io_stream s) < 2 ^ 31"
  shows "\<exists>s'. ensure_buffer_bytes n s = (Inr (), s') \<and> net_fair (stfd (snd s'))"
  using ensure_loop_fair [of s n] assms by (simp add: ensure_buffer_bytes_def)

text \<open>No new allocation happens while the buffer already holds what is asked for.\<close>

lemma ensure_nop: "0 \<le> n \<Longrightarrow> n \<le> buffer_size (fst s) \<Longrightarrow> ensure_buffer_bytes n s = (Inr (), s)"
  by (cases s) (simp add: ensure_buffer_bytes_def ensure_loop.simps)

end
