(* ===== verification/Rss_Protocol.thy ===== *)
theory Rss_Protocol
  imports Rss_Message Rss_Buffer
begin

text \<open>
  \<^verbatim>\<open>RssProtocol\<close> (\<^verbatim>\<open>rss_core_protocol.cpp\<close>): the RTMP chunk layer. Receiving reads the basic header,
  the message header and one chunk of payload from the buffer and reassembles messages per chunk
  stream; sending cuts an encoded message into chunks. The scratch members \<^verbatim>\<open>pp\<close>,
  \<^verbatim>\<open>out_header_fmt0\<close> and \<^verbatim>\<open>out_header_fmt3\<close> are local to \<^verbatim>\<open>send_message\<close> and not part of the state.
  Additions of timestamps wrap, as on the target.
\<close>

section \<open>State\<close>

text \<open>\<^verbatim>\<open>RssChunkStream\<close>; its member \<^verbatim>\<open>fmt\<close> is set to 0 and only logged.\<close>

record RssChunkStream =
  chunk_cid :: int
  chunk_header :: RssMessageHeader
  chunk_extended_timestamp :: bool
  chunk_msg :: "RssCommonMessage option"
  chunk_msg_count :: int

definition chunk_stream_new :: "int \<Rightarrow> RssChunkStream" where
  "chunk_stream_new cid =
     \<lparr>chunk_cid = cid, chunk_header = header_new, chunk_extended_timestamp = False, chunk_msg = None,
      chunk_msg_count = 0\<rparr>"

record RssProtocol =
  skt :: RssSocket
  buffer :: RssBuffer
  chunk_streams :: "int \<rightharpoonup> RssChunkStream"
  in_chunk_size :: int
  out_chunk_size :: int

definition protocol_new :: "st_net \<Rightarrow> RssProtocol" where
  "protocol_new client_stfd =
     \<lparr>skt = socket_new client_stfd, buffer = buffer_new, chunk_streams = Map.empty,
      in_chunk_size = sint RTMP_DEFAULT_CHUNK_SIZE, out_chunk_size = sint RTMP_DEFAULT_CHUNK_SIZE\<rparr>"

text \<open>Run an operation on parts of the state.\<close>

type_synonym chunk_io = "RssChunkStream \<times> rss_io"

definition on_snd :: "('b, 'a) comp \<Rightarrow> ('c \<times> 'b, 'a) comp" where
  "on_snd m s = (case m (snd s) of (r, t) \<Rightarrow> (r, (fst s, t)))"

definition on_chunk :: "(RssChunkStream \<Rightarrow> RssChunkStream) \<Rightarrow> (chunk_io, unit) comp" where
  "on_chunk f = modify (\<lambda>s. (f (fst s), snd s))"

definition with_io :: "(rss_io, 'a) comp \<Rightarrow> (RssProtocol, 'a) comp" where
  "with_io m s = (case m (buffer s, skt s) of (r, (b, k)) \<Rightarrow> (r, s\<lparr>buffer := b, skt := k\<rparr>))"

definition with_skt :: "(RssSocket, 'a) comp \<Rightarrow> (RssProtocol, 'a) comp" where
  "with_skt m s = (case m (skt s) of (r, k) \<Rightarrow> (r, s\<lparr>skt := k\<rparr>))"

text \<open>The cached chunk stream of a cid, created when there is none.\<close>

definition chunk_of :: "RssProtocol \<Rightarrow> int \<Rightarrow> RssChunkStream" where
  "chunk_of s cid = (case chunk_streams s cid of None \<Rightarrow> chunk_stream_new cid | Some c \<Rightarrow> c)"

definition with_chunk :: "int \<Rightarrow> (chunk_io, 'a) comp \<Rightarrow> (RssProtocol, 'a) comp" where
  "with_chunk cid m s =
     (case m (chunk_of s cid, (buffer s, skt s)) of
        (r, (c, (b, k))) \<Rightarrow>
          (r, s\<lparr>chunk_streams := (chunk_streams s)(cid \<mapsto> c), buffer := b, skt := k\<rparr>))"

section \<open>Receiving\<close>

text \<open>
  \<^verbatim>\<open>read_basic_header\<close>: the pointer \<^verbatim>\<open>p\<close> is taken once, before the second call of
  \<^verbatim>\<open>ensure_buffer_bytes\<close>. A second and a third byte are added as signed characters.
\<close>

definition read_basic_header :: "(rss_io, nat \<times> int \<times> int) comp" where
  "read_basic_header =
     bind (ensure_buffer_bytes 1) (\<lambda>_.
     bind buffer_bytes (\<lambda>q.
     bind (buffer_deref q) (\<lambda>b0.
     let fmt = unat (drop_bit 6 b0 AND 0x03); cid = uint (b0 AND 0x3f) in
     if cid > 1 then return (fmt, cid, 1)
     else if cid = 0 then
       bind (ensure_buffer_bytes 2) (\<lambda>_.
       bind (buffer_deref (fst q, snd q + 1)) (\<lambda>b1.
       return (fmt, 64 + sint b1, 2)))
     else if cid = 1 then
       bind (ensure_buffer_bytes 3) (\<lambda>_.
       bind (buffer_deref (fst q, snd q + 1)) (\<lambda>b1.
       bind (buffer_deref (fst q, snd q + 2)) (\<lambda>b2.
       return (fmt, 64 + sint b1 + sint b2 * 256, 3))))
     else fail AssertFailed)))"

definition mh_sizes :: "nat \<Rightarrow> int" where
  "mh_sizes fmt = [11, 7, 3, 0] ! fmt"

text \<open>\<open>n\<close> times \<^verbatim>\<open>*p++\<close>.\<close>

fun load_bytes :: "buf_ptr \<Rightarrow> nat \<Rightarrow> (rss_io, byte list) comp" where
  "load_bytes q 0 = return []"
| "load_bytes q (Suc n) =
     bind (buffer_deref q) (\<lambda>b. bind (load_bytes (fst q, snd q + 1) n) (\<lambda>bs. return (b # bs)))"

abbreviation ptr_add :: "buf_ptr \<Rightarrow> int \<Rightarrow> buf_ptr" where
  "ptr_add q n \<equiv> (fst q, snd q + n)"

text \<open>Three big-endian bytes into the low bytes of an \<^verbatim>\<open>int32_t\<close>.\<close>

fun u24 :: "byte list \<Rightarrow> i32" where
  "u24 [b2, b1, b0] = of_bytes [b0, b1, b2, 0]"
| "u24 _ = 0"

definition map_header :: "(RssMessageHeader \<Rightarrow> RssMessageHeader) \<Rightarrow> RssChunkStream \<Rightarrow> RssChunkStream" where
  "map_header f c = c\<lparr>chunk_header := f (chunk_header c)\<rparr>"

text \<open>The block for \<^verbatim>\<open>fmt <= RTMP_FMT_TYPE2\<close>; the result is the advanced pointer.\<close>

definition parse_message_header :: "nat \<Rightarrow> buf_ptr \<Rightarrow> (chunk_io, buf_ptr) comp" where
  "parse_message_header fmt q =
     bind (on_snd (load_bytes q 3)) (\<lambda>ts.
     bind (on_chunk (map_header (\<lambda>h. h\<lparr>timestamp_delta := u24 ts\<rparr>))) (\<lambda>_.
     bind (on_chunk (map_header (\<lambda>h.
       if fmt = 0 then h\<lparr>timestamp := timestamp_delta h\<rparr>
       else h\<lparr>timestamp := timestamp h + timestamp_delta h\<rparr>))) (\<lambda>_.
     bind (on_chunk (\<lambda>c. c\<lparr>chunk_extended_timestamp :=
       (sint RTMP_EXTENDED_TIMESTAMP \<le> sint (timestamp_delta (chunk_header c)))\<rparr>)) (\<lambda>_.
     bind (on_chunk (\<lambda>c.
       if chunk_extended_timestamp c
       then map_header (\<lambda>h. h\<lparr>timestamp := RTMP_EXTENDED_TIMESTAMP\<rparr>) c else c)) (\<lambda>_.
     if fmt \<le> 1 then
       bind (on_snd (load_bytes (ptr_add q 3) 3)) (\<lambda>len.
       bind (on_chunk (map_header (\<lambda>h. h\<lparr>payload_length := u24 len\<rparr>))) (\<lambda>_.
       bind (on_snd (buffer_deref (ptr_add q 6))) (\<lambda>ty.
       bind (on_chunk (map_header (\<lambda>h. h\<lparr>message_type := ty\<rparr>))) (\<lambda>_.
       if fmt = 0 then
         bind (on_snd (load_bytes (ptr_add q 7) 4)) (\<lambda>sid.
         bind (on_chunk (map_header (\<lambda>h. h\<lparr>stream_id := of_bytes sid\<rparr>))) (\<lambda>_.
         return (ptr_add q 11)))
       else return (ptr_add q 7)))))
     else return (ptr_add q 3))))))"

text \<open>
  \<^verbatim>\<open>read_message_header\<close>; the result is \<^verbatim>\<open>mh_size\<close>. The pointer is not taken again after the
  \<^verbatim>\<open>ensure_buffer_bytes\<close> call for the extended timestamp.
\<close>

definition read_message_header :: "nat \<Rightarrow> int \<Rightarrow> (chunk_io, int) comp" where
  "read_message_header fmt bh_size =
     bind (get fst) (\<lambda>chunk.
     let is_fresh_packet = (chunk_msg chunk = None) in
     if chunk_msg_count chunk = 0 \<and> fmt \<noteq> 0 then fail (Code ERROR_RTMP_CHUNK_START)
     else if chunk_msg chunk \<noteq> None \<and> fmt = 0 then fail (Code ERROR_RTMP_CHUNK_START)
     else
     bind (on_chunk (\<lambda>c. if chunk_msg c = None then c\<lparr>chunk_msg := Some common_message_new\<rparr> else c)) (\<lambda>_.
     bind (on_snd (ensure_buffer_bytes (bh_size + mh_sizes fmt))) (\<lambda>_.
     bind (on_snd buffer_bytes) (\<lambda>q0.
     bind (if fmt \<le> 2 then parse_message_header fmt (ptr_add q0 bh_size)
           else
             bind (on_chunk (\<lambda>c.
               if is_fresh_packet \<and> \<not> chunk_extended_timestamp c
               then map_header (\<lambda>h. h\<lparr>timestamp := timestamp h + timestamp_delta h\<rparr>) c else c)) (\<lambda>_.
             return (ptr_add q0 bh_size))) (\<lambda>q.
     bind (get (\<lambda>s. chunk_extended_timestamp (fst s))) (\<lambda>ext.
     bind (if ext then
             bind (on_snd (ensure_buffer_bytes (bh_size + (mh_sizes fmt + 4)))) (\<lambda>_.
             bind (on_snd (load_bytes q 4)) (\<lambda>ts.
             bind (on_chunk (map_header (\<lambda>h. h\<lparr>timestamp := of_bytes (rev ts)\<rparr>))) (\<lambda>_.
             return (mh_sizes fmt + 4))))
           else return (mh_sizes fmt)) (\<lambda>mh_size.
     bind (get (\<lambda>s. chunk_header (fst s))) (\<lambda>h.
     if sint (payload_length h) < 0 then fail (Code ERROR_RTMP_MSG_INVLIAD_SIZE)
     else
     bind (on_chunk (\<lambda>c. c\<lparr>chunk_msg := map_option (\<lambda>m. m\<lparr>msg_header := h\<rparr>) (chunk_msg c),
                             chunk_msg_count := chunk_msg_count c + 1\<rparr>)) (\<lambda>_.
     return mh_size)))))))))"

text \<open>
  \<^verbatim>\<open>memcpy(chunk->msg->payload + chunk->msg->size, src, n)\<close> into an array: outside the array it is
  undefined, as is a negative \<^verbatim>\<open>n\<close>.
\<close>

definition store_payload :: "byte list \<Rightarrow> RssCommonMessage \<Rightarrow> RssCommonMessage res" where
  "store_payload src m =
     (case msg_payload m of
        None \<Rightarrow> Inl Undefined
      | Some arr \<Rightarrow>
          if 0 \<le> msg_size m \<and> nat (msg_size m) + length src \<le> length arr
          then Inr (m\<lparr>msg_payload := Some (take (nat (msg_size m)) arr @ src @
                                       drop (nat (msg_size m) + length src) arr),
                      msg_size := msg_size m + int (length src)\<rparr>)
          else Inl Undefined)"

text \<open>\<^verbatim>\<open>*pmsg = chunk->msg; chunk->msg = NULL;\<close>\<close>

definition take_message :: "(chunk_io, RssCommonMessage option) comp" where
  "take_message = bind (get (\<lambda>s. chunk_msg (fst s))) (\<lambda>m.
     bind (on_chunk (\<lambda>c. c\<lparr>chunk_msg := None\<rparr>)) (\<lambda>_. return m))"

definition chunk_partial_msg :: "RssChunkStream \<Rightarrow> RssCommonMessage" where
  "chunk_partial_msg c = (case chunk_msg c of None \<Rightarrow> common_message_new | Some m \<Rightarrow> m)"

text \<open>\<^verbatim>\<open>read_message_payload\<close>: the result is \<^verbatim>\<open>*pmsg\<close>.\<close>

definition read_message_payload ::
  "int \<Rightarrow> int \<Rightarrow> int \<Rightarrow> (chunk_io, RssCommonMessage option) comp" where
  "read_message_payload in_chunk bh_size mh_size =
     bind (get (\<lambda>s. sint (payload_length (chunk_header (fst s))))) (\<lambda>total.
     if total = 0 then bind (on_snd (buffer_erase (bh_size + mh_size))) (\<lambda>_. take_message)
     else if \<not> 0 < total then fail AssertFailed
     else
     bind (get (\<lambda>s. chunk_partial_msg (fst s))) (\<lambda>m0.
     let payload_size = min (total - msg_size m0) in_chunk in
     bind (on_chunk (\<lambda>c. c\<lparr>chunk_msg := map_option (\<lambda>m.
       if msg_payload m = None then m\<lparr>msg_payload := Some (replicate (nat total) 0)\<rparr> else m)
       (chunk_msg c)\<rparr>)) (\<lambda>_.
     bind (on_snd (ensure_buffer_bytes (bh_size + mh_size + payload_size))) (\<lambda>_.
     bind (on_snd buffer_bytes) (\<lambda>q.
     bind (on_snd (buffer_copy (ptr_add q (bh_size + mh_size)) payload_size)) (\<lambda>src.
     bind (get (\<lambda>s. chunk_partial_msg (fst s))) (\<lambda>m.
     bind (lift_res (store_payload src m)) (\<lambda>m'.
     bind (on_chunk (\<lambda>c. c\<lparr>chunk_msg := Some m'\<rparr>)) (\<lambda>_.
     bind (on_snd (buffer_erase (bh_size + mh_size + payload_size))) (\<lambda>_.
     if total = msg_size m' then take_message else return None))))))))))"

definition recv_interlaced_message :: "(RssProtocol, RssCommonMessage option) comp" where
  "recv_interlaced_message =
     bind (with_io read_basic_header) (\<lambda>(fmt, cid, bh_size).
     bind (with_chunk cid (read_message_header fmt bh_size)) (\<lambda>mh_size.
     bind (get in_chunk_size) (\<lambda>in_chunk.
     with_chunk cid (read_message_payload in_chunk bh_size mh_size))))"

text \<open>
  \<^verbatim>\<open>on_recv_message\<close> decodes the two control messages and applies the chunk size; the result is
  the message with its packet.
\<close>

definition on_recv_message :: "RssCommonMessage \<Rightarrow> (RssProtocol, RssCommonMessage) comp" where
  "on_recv_message msg =
     (let ty = message_type (msg_header msg) in
      bind (if ty = RTMP_MSG_SetChunkSize \<or> ty = RTMP_MSG_WindowAcknowledgementSize
            then (case common_decode_packet msg of (Inl e, _) \<Rightarrow> fail e | (Inr _, m) \<Rightarrow> return m)
            else return msg) (\<lambda>m.
      if ty = RTMP_MSG_WindowAcknowledgementSize then
        (case msg_packet m of Some (RssSetWindowAckSizePacket v) \<Rightarrow> return m | _ \<Rightarrow> fail AssertFailed)
      else if ty = RTMP_MSG_SetChunkSize then
        (case msg_packet m of
           Some (RssSetChunkSizePacket v) \<Rightarrow>
             bind (modify (\<lambda>s. s\<lparr>in_chunk_size := sint v\<rparr>)) (\<lambda>_. return m)
         | _ \<Rightarrow> fail AssertFailed)
      else return m))"

text \<open>
  The loop of \<^verbatim>\<open>recv_message\<close>. Every received chunk takes at least one byte off the input, so the
  input's length bounds the number of rounds.
\<close>

fun recv_message_loop :: "nat \<Rightarrow> (RssProtocol, RssCommonMessage) comp" where
  "recv_message_loop 0 = fail OutOfFuel"
| "recv_message_loop (Suc n) =
     bind recv_interlaced_message (\<lambda>pmsg.
     case pmsg of
       None \<Rightarrow> recv_message_loop n
     | Some msg \<Rightarrow>
         if msg_size msg \<le> 0 \<or> sint (payload_length (msg_header msg)) \<le> 0
         then recv_message_loop n
         else on_recv_message msg)"

definition protocol_input :: "RssProtocol \<Rightarrow> byte list" where
  "protocol_input s = io_stream (buffer s, skt s)"

definition recv_message :: "(RssProtocol, RssCommonMessage) comp" where
  "recv_message s = recv_message_loop (length (protocol_input s) + 1) s"

section \<open>Sending\<close>

text \<open>The two chunk headers \<^verbatim>\<open>send_message\<close> generates.\<close>

definition extended_timestamp_bytes :: "RssMessageHeader \<Rightarrow> byte list" where
  "extended_timestamp_bytes h =
     (if sint RTMP_EXTENDED_TIMESTAMP \<le> sint (timestamp h)
      then [byte_at 3 (timestamp h), byte_at 2 (timestamp h), byte_at 1 (timestamp h), byte_at 0 (timestamp h)]
      else [])"

definition fmt0_header :: "int \<Rightarrow> RssMessageHeader \<Rightarrow> byte list" where
  "fmt0_header cid h =
     [0x00 OR (word_of_int cid AND 0x3F)] @
     (if sint RTMP_EXTENDED_TIMESTAMP \<le> sint (timestamp h) then [0xFF, 0xFF, 0xFF]
      else [byte_at 2 (timestamp h), byte_at 1 (timestamp h), byte_at 0 (timestamp h)]) @
     [byte_at 2 (payload_length h), byte_at 1 (payload_length h), byte_at 0 (payload_length h)] @
     [message_type h] @
     [byte_at 0 (stream_id h), byte_at 1 (stream_id h), byte_at 2 (stream_id h), byte_at 3 (stream_id h)] @
     extended_timestamp_bytes h"

definition fmt3_header :: "int \<Rightarrow> RssMessageHeader \<Rightarrow> byte list" where
  "fmt3_header cid h = [0xC0 OR (word_of_int cid AND 0x3F)] @ extended_timestamp_bytes h"

text \<open>
  The bytes at \<^verbatim>\<open>p\<close> handed to \<^verbatim>\<open>writev\<close>: a negative length converts to a huge \<^verbatim>\<open>size_t\<close>, and bytes
  outside the payload do not belong to the message.
\<close>

definition payload_slice :: "byte list option \<Rightarrow> int \<Rightarrow> int \<Rightarrow> byte list res" where
  "payload_slice payload off n =
     (if n = 0 then Inr []
      else case payload of
        None \<Rightarrow> Inl Undefined
      | Some bs \<Rightarrow>
          if 0 \<le> off \<and> 0 \<le> n \<and> off + n \<le> int (length bs)
          then Inr (take (nat n) (drop (nat off) bs)) else Inl Undefined)"

text \<open>
  The loop of \<^verbatim>\<open>send_message\<close>; \<open>off\<close> is \<^verbatim>\<open>p - msg->payload\<close>. It does not end when the chunk size is 0.
\<close>

fun send_chunks :: "nat \<Rightarrow> IRssMessage \<Rightarrow> int \<Rightarrow> (RssProtocol, unit) comp" where
  "send_chunks 0 msg off = fail OutOfFuel"
| "send_chunks (Suc n) msg off =
     bind (get out_chunk_size) (\<lambda>out_chunk.
     let header = (if off = 0 then fmt0_header (imsg_get_perfer_cid msg) (imsg_header msg)
                   else fmt3_header (imsg_get_perfer_cid msg) (imsg_header msg));
         payload_size = min (imsg_size msg - off) out_chunk in
     bind (lift_res (payload_slice (imsg_payload msg) off payload_size)) (\<lambda>part.
     bind (with_skt (socket_writev [header, part])) (\<lambda>_.
     let off' = (if imsg_payload msg \<noteq> None \<and> imsg_size msg > 0 then off + payload_size else off) in
     if off' < imsg_size msg then send_chunks n msg off' else return ())))"

definition on_send_message :: "IRssMessage \<Rightarrow> (RssProtocol, unit) comp" where
  "on_send_message msg =
     (case msg of
        SharedPtrMessage _ _ _ _ \<Rightarrow> return ()
      | CommonMessage m \<Rightarrow>
          if message_type (msg_header m) = RTMP_MSG_SetChunkSize then
            (case msg_packet m of
               Some (RssSetChunkSizePacket v) \<Rightarrow> modify (\<lambda>s. s\<lparr>out_chunk_size := sint v\<rparr>)
             | _ \<Rightarrow> fail AssertFailed)
          else return ())"

definition send_message :: "(nat \<Rightarrow> byte list) \<Rightarrow> IRssMessage \<Rightarrow> (RssProtocol, unit) comp" where
  "send_message heap msg =
     bind (lift_res (imsg_encode_packet heap msg)) (\<lambda>msg'.
     bind (send_chunks (nat (imsg_size msg') + 1) msg' 0) (\<lambda>_.
     on_send_message msg'))"

section \<open>Expecting a message\<close>

text \<open>
  \<^verbatim>\<open>rss_rtmp_expect_message<T>\<close>: \<open>want\<close> is the success of the \<^verbatim>\<open>dynamic_cast<T*>\<close>. Messages of other
  kinds are dropped.
\<close>

fun expect_message_loop :: "nat \<Rightarrow> (RssPacket \<Rightarrow> bool) \<Rightarrow> (RssProtocol, RssCommonMessage) comp" where
  "expect_message_loop 0 want = fail OutOfFuel"
| "expect_message_loop (Suc n) want =
     bind recv_message (\<lambda>msg.
     case common_decode_packet msg of
       (Inl e, _) \<Rightarrow> fail e
     | (Inr _, m) \<Rightarrow>
         (case msg_packet m of
            None \<Rightarrow> fail AssertFailed
          | Some pkt \<Rightarrow> if want pkt then return m else expect_message_loop n want))"

definition expect_message :: "(RssPacket \<Rightarrow> bool) \<Rightarrow> (RssProtocol, RssCommonMessage) comp" where
  "expect_message want s = expect_message_loop (length (protocol_input s) + 1) want s"

end
