(* ===== verification/Rss_Protocol_Recv.thy ===== *)
theory Rss_Protocol_Recv
  imports Rss_Protocol
begin

text \<open>
  Receiving chunks. The chunk headers that the sending side generates are parsed back to the
  header fields, and each received chunk extends the partial message of its chunk stream by its
  payload, consumes exactly its own bytes and leaves the other chunk streams alone, however the
  bytes arrive in segments.
\<close>

section \<open>Reading from the buffered stream\<close>

text \<open>The socket delivers its bytes, and the buffer's size fits an \<^verbatim>\<open>int\<close>.\<close>

definition io_ready :: "rss_io \<Rightarrow> bool" where
  "io_ready s \<longleftrightarrow> net_fair (stfd (snd s)) \<and> length (io_stream s) < 2 ^ 31"

definition buffered :: "int \<Rightarrow> rss_io \<Rightarrow> bool" where
  "buffered n s \<longleftrightarrow> n \<le> int (length (buf_data (fst s)))"

lemma ensure_ready:
  assumes "io_ready s" and "0 \<le> n" and "n \<le> int (length (io_stream s))"
  shows "\<exists>s'. ensure_buffer_bytes n s = (Inr (), s') \<and> io_ready s' \<and> io_stream s' = io_stream s \<and>
    buffered n s' \<and> sock_sent (snd s') = sock_sent (snd s)"
proof -
  obtain s' where s': "ensure_buffer_bytes n s = (Inr (), s')" "net_fair (stfd (snd s'))"
    using ensure_fair [of s n] assms by (auto simp: io_ready_def)
  moreover have "io_stream s' = io_stream s" by (rule io.fill_view [OF s'(1)])
  moreover have "buffered n s'" using io.fill_enough [OF s'(1)] by (simp add: buffered_def)
  ultimately show ?thesis
    using assms(1) ensure_sent [OF s'(1)] by (auto simp: io_ready_def)
qed

lemma buffered_mono: "buffered n s \<Longrightarrow> m \<le> n \<Longrightarrow> buffered m s"
  by (simp add: buffered_def)

lemma buffered_take:
  assumes "buffered (int (off + n)) s"
  shows "take n (drop off (buf_data (fst s))) = take n (drop off (io_stream s))"
  using assms by (simp add: buffered_def io_stream_def)

lemma buffer_bytes_ready:
  "buffered n s \<Longrightarrow> 0 < n \<Longrightarrow> buffer_bytes s = (Inr (buf_epoch (fst s), 0), s)"
  by (auto simp: buffer_bytes_def buffered_def)

lemma load_bytes_data:
  "fst q = buf_epoch (fst s) \<Longrightarrow> snd q = int off \<Longrightarrow> off + n \<le> length (buf_data (fst s)) \<Longrightarrow>
   load_bytes q n s = (Inr (take n (drop off (buf_data (fst s)))), s)"
proof (induction n arbitrary: q off)
  case 0
  then show ?case by simp
next
  case (Suc n)
  have "load_bytes (fst q, snd q + 1) n s = (Inr (take n (drop (Suc off) (buf_data (fst s)))), s)"
    by (rule Suc.IH) (use Suc.prems in auto)
  moreover have "drop off (buf_data (fst s)) = buf_data (fst s) ! off # drop (Suc off) (buf_data (fst s))"
    using Suc.prems by (simp add: Cons_nth_drop_Suc)
  moreover have "buffer_deref q s = (Inr (buf_data (fst s) ! off), s)"
    using Suc.prems by (simp add: buffer_deref_def)
  ultimately show ?case by simp
qed

lemma load_bytes_ready:
  assumes "buffered (int (off + n)) s"
  shows "load_bytes (buf_epoch (fst s), int off) n s = (Inr (take n (drop off (io_stream s))), s)"
  using load_bytes_data [of "(buf_epoch (fst s), int off)" s off n] buffered_take [OF assms] assms
  by (simp add: buffered_def)

lemma buffer_deref_ready:
  assumes "buffered (int off + 1) s"
  shows "buffer_deref (buf_epoch (fst s), int off) s = (Inr (io_stream s ! off), s)"
  using assms by (auto simp: buffer_deref_def buffered_def io_stream_def nth_append)

lemma buffer_copy_ready:
  assumes "buffered (int (off + n)) s"
  shows "buffer_copy (buf_epoch (fst s), int off) (int n) s = (Inr (take n (drop off (io_stream s))), s)"
  using buffered_take [OF assms] assms by (auto simp: buffer_copy_def buffered_def)

lemma buffer_erase_ready:
  assumes "io_ready s" and "buffered (int n) s"
  shows "\<exists>s'. buffer_erase (int n) s = (Inr (), s') \<and> io_ready s' \<and> io_stream s' = drop n (io_stream s) \<and>
    sock_sent (snd s') = sock_sent (snd s)"
proof -
  from assms(2) obtain s' where er: "buffer_erase (int n) s = (Inr (), s')"
    using io.erase_total [of "int n" s] by (auto simp: buffered_def)
  moreover have "snd s' = snd s" using er by (auto simp: buffer_erase_def split: if_splits)
  ultimately show ?thesis
    using assms(1) io.erase_view [OF er] by (auto simp: io_ready_def)
qed

lemma on_snd_pair [simp]: "on_snd m (c, s) = (case m s of (r, t) \<Rightarrow> (r, (c, t)))"
  by (simp add: on_snd_def)

lemma on_chunk_pair [simp]: "on_chunk f (c, s) = (Inr (), (f c, s))"
  by (simp add: on_chunk_def)

lemma bind_on_chunk [simp]: "bind (on_chunk f) g (c, s) = g () (f c, s)"
  by (simp add: on_chunk_def)

section \<open>The headers of a sender\<close>

text \<open>Three bytes carry a length or a timestamp below \<open>2 ^ 24\<close>.\<close>

lemma take_bit_24_id: "v < 2 ^ 24 \<Longrightarrow> take_bit 24 (v :: i32) = v"
  by (simp add: take_bit_eq_mod mod_word_less)

lemma u24_bytes: "v < 2 ^ 24 \<Longrightarrow> u24 [byte_at 2 v, byte_at 1 v, byte_at 0 v] = v"
  using of_bytes_u24 [of v] by (simp add: take_bit_24_id del: of_bytes.simps)

text \<open>The basic header byte of a chunk stream id that fits six bits.\<close>

lemma cid_byte:
  assumes "2 \<le> cid" and "cid < 64"
  shows "uint ((0x00 OR (word_of_int cid AND 0x3F) :: byte) AND 0x3f) = cid"
    and "unat (drop_bit 6 (0x00 OR (word_of_int cid AND 0x3F) :: byte) AND 0x03) = 0"
    and "uint ((0xC0 OR (word_of_int cid AND 0x3F) :: byte) AND 0x3f) = cid"
    and "unat (drop_bit 6 (0xC0 OR (word_of_int cid AND 0x3F) :: byte) AND 0x03) = 3"
proof -
  define n where "n = nat cid"
  have n: "cid = int n" "n < 64" "2 \<le> n" using assms by (auto simp: n_def)
  have "n \<in> {2..<64}" using n by simp
  then have all: "uint ((0x00 OR (word_of_int (int n) AND 0x3F) :: byte) AND 0x3f) = int n \<and>
    unat (drop_bit 6 (0x00 OR (word_of_int (int n) AND 0x3F) :: byte) AND 0x03) = 0 \<and>
    uint ((0xC0 OR (word_of_int (int n) AND 0x3F) :: byte) AND 0x3f) = int n \<and>
    unat (drop_bit 6 (0xC0 OR (word_of_int (int n) AND 0x3F) :: byte) AND 0x03) = 3"
    by (simp add: atLeastLessThan_nat_numeral) (elim disjE; simp)
  then show "uint ((0x00 OR (word_of_int cid AND 0x3F) :: byte) AND 0x3f) = cid"
    and "unat (drop_bit 6 (0x00 OR (word_of_int cid AND 0x3F) :: byte) AND 0x03) = 0"
    and "uint ((0xC0 OR (word_of_int cid AND 0x3F) :: byte) AND 0x3f) = cid"
    and "unat (drop_bit 6 (0xC0 OR (word_of_int cid AND 0x3F) :: byte) AND 0x03) = 3"
    unfolding n(1) by blast+
qed

lemma read_basic_header_ready:
  assumes "io_ready s" and "io_stream s = b # rest" and "1 < uint (b AND 0x3f)"
  shows "\<exists>s'. read_basic_header s = (Inr (unat (drop_bit 6 b AND 0x03), uint (b AND 0x3f), 1), s') \<and>
    io_ready s' \<and> io_stream s' = io_stream s \<and> sock_sent (snd s') = sock_sent (snd s)"
proof -
  obtain s' where s': "ensure_buffer_bytes 1 s = (Inr (), s')" "io_ready s'"
    "io_stream s' = io_stream s" "buffered 1 s'" "sock_sent (snd s') = sock_sent (snd s)"
    using ensure_ready [OF assms(1), of 1] assms(2) by auto
  have "buffer_deref (buf_epoch (fst s'), 0) s' = (Inr b, s')"
    using buffer_deref_ready [of 0 s'] s'(3,4) assms(2) by simp
  then show ?thesis
    using s' buffer_bytes_ready [OF s'(4)] assms(3)
    by (simp add: read_basic_header_def Let_def)
qed

section \<open>Message headers\<close>

text \<open>
  A header that three-byte fields carry faithfully: the length below \<open>2 ^ 24\<close>, the timestamp
  below the mark of the extended timestamp.
\<close>

definition plain_header :: "RssMessageHeader \<Rightarrow> bool" where
  "plain_header h \<longleftrightarrow> payload_length h < 2 ^ 24 \<and> timestamp h < RTMP_EXTENDED_TIMESTAMP"

text \<open>The header as the receiver stores it: the delta field holds the timestamp.\<close>

definition received_header :: "RssMessageHeader \<Rightarrow> RssMessageHeader" where
  "received_header h = h\<lparr>timestamp_delta := timestamp h\<rparr>"

lemma sint_small: "uint v < 2 ^ 31 \<Longrightarrow> sint (v :: i32) = uint v"
  by (simp add: sint_uint, rule signed_take_bit_int_eq_self)
    (auto intro: order_trans [of _ 0])

lemma plain_timestamp:
  assumes "plain_header h"
  shows "timestamp h < 2 ^ 24" and "\<not> sint RTMP_EXTENDED_TIMESTAMP \<le> sint (timestamp h)"
proof -
  have ts: "timestamp h < 0xFFFFFF" using assms by (simp add: plain_header_def)
  then show "timestamp h < 2 ^ 24" by (rule less_trans) simp
  have "uint (timestamp h) < 0xFFFFFF" using ts by (simp add: word_less_def)
  then have "sint (timestamp h) = uint (timestamp h)" by (intro sint_small) simp
  with \<open>uint (timestamp h) < 0xFFFFFF\<close> show "\<not> sint RTMP_EXTENDED_TIMESTAMP \<le> sint (timestamp h)"
    by simp
qed

lemma plain_length:
  assumes "plain_header h"
  shows "sint (payload_length h) = int (unat (payload_length h))"
proof -
  have "uint (payload_length h) < 2 ^ 24" using assms by (simp add: plain_header_def word_less_def)
  then show ?thesis by (simp add: sint_small)
qed

lemma fmt0_plain:
  assumes "plain_header h"
  shows "fmt0_header cid h =
    [0x00 OR (word_of_int cid AND 0x3F), byte_at 2 (timestamp h), byte_at 1 (timestamp h),
     byte_at 0 (timestamp h), byte_at 2 (payload_length h), byte_at 1 (payload_length h),
     byte_at 0 (payload_length h), message_type h, byte_at 0 (stream_id h), byte_at 1 (stream_id h),
     byte_at 2 (stream_id h), byte_at 3 (stream_id h)]"
  unfolding fmt0_header_def extended_timestamp_bytes_def
  by (simp only: plain_timestamp(2) [OF assms] if_False append.simps)

lemma fmt3_plain:
  "plain_header h \<Longrightarrow> fmt3_header cid h = [0xC0 OR (word_of_int cid AND 0x3F)]"
  unfolding fmt3_header_def extended_timestamp_bytes_def
  by (simp only: plain_timestamp(2) if_False append.simps)

text \<open>A type-0 header overwrites all five fields.\<close>

lemma header_overwritten:
  "old\<lparr>timestamp_delta := timestamp h, timestamp := timestamp h, payload_length := payload_length h,
      message_type := message_type h, stream_id := stream_id h\<rparr> = received_header h"
  by (cases old; cases h) (simp add: received_header_def)

lemma chunk_update_commute:
  "c\<lparr>chunk_msg := m, chunk_extended_timestamp := e, chunk_header := h\<rparr> =
   c\<lparr>chunk_header := h, chunk_extended_timestamp := e, chunk_msg := m\<rparr>"
  by (cases c) simp

text \<open>A type-0 header on an idle chunk stream.\<close>

lemma read_message_header_fmt0:
  assumes ready: "io_ready s" and inp: "io_stream s = fmt0_header cid h @ tail"
    and h: "plain_header h" and idle: "chunk_msg c = None"
  shows "\<exists>s'. read_message_header 0 1 (c, s) =
      (Inr 11, (c\<lparr>chunk_header := received_header h, chunk_extended_timestamp := False,
                 chunk_msg := Some (common_message_new\<lparr>msg_header := received_header h\<rparr>),
                 chunk_msg_count := chunk_msg_count c + 1\<rparr>, s')) \<and>
    io_ready s' \<and> io_stream s' = io_stream s \<and> sock_sent (snd s') = sock_sent (snd s)"
proof -
  have len: "length (io_stream s) = 12 + length tail" using inp h by (simp add: fmt0_plain)
  obtain s' where s': "ensure_buffer_bytes 12 s = (Inr (), s')" "io_ready s'"
    "io_stream s' = io_stream s" "buffered 12 s'" "sock_sent (snd s') = sock_sent (snd s)"
    using ensure_ready [OF ready, of 12] len by auto
  let ?e = "buf_epoch (fst s')"
  have q: "buffer_bytes s' = (Inr (?e, 0), s')" by (rule buffer_bytes_ready [OF s'(4)]) simp
  have loads: "load_bytes (?e, 1) 3 s' = (Inr [byte_at 2 (timestamp h), byte_at 1 (timestamp h), byte_at 0 (timestamp h)], s')"
    "load_bytes (?e, 4) 3 s' = (Inr [byte_at 2 (payload_length h), byte_at 1 (payload_length h), byte_at 0 (payload_length h)], s')"
    "load_bytes (?e, 8) 4 s' = (Inr [byte_at 0 (stream_id h), byte_at 1 (stream_id h), byte_at 2 (stream_id h), byte_at 3 (stream_id h)], s')"
    using load_bytes_ready [of 1 3 s'] load_bytes_ready [of 4 3 s'] load_bytes_ready [of 8 4 s']
      s'(3,4) inp fmt0_plain [OF h] by (simp_all add: buffered_def)
  have ty: "buffer_deref (?e, 7) s' = (Inr (message_type h), s')"
    using buffer_deref_ready [of 7 s'] s'(3,4) inp fmt0_plain [OF h] by (simp add: buffered_def)
  have vals: "u24 [byte_at 2 (timestamp h), byte_at 1 (timestamp h), byte_at 0 (timestamp h)] = timestamp h"
    "u24 [byte_at 2 (payload_length h), byte_at 1 (payload_length h), byte_at 0 (payload_length h)] = payload_length h"
    "of_bytes [byte_at 0 (stream_id h), byte_at 1 (stream_id h), byte_at 2 (stream_id h), byte_at 3 (stream_id h)] = stream_id h"
    using h plain_timestamp(1) [OF h] by (simp_all only: u24_bytes plain_header_def of_bytes_i32)
  have pos: "\<not> sint (payload_length h) < 0" using plain_length [OF h] by simp
  let ?c1 = "c\<lparr>chunk_msg := Some common_message_new\<rparr>"
  have parse: "parse_message_header 0 (?e, 1) (?c1, s') =
      (Inr (?e, 12), (?c1\<lparr>chunk_extended_timestamp := False, chunk_header := received_header h\<rparr>, s'))"
    using plain_timestamp(2) [OF h]
    by (simp add: parse_message_header_def loads ty vals map_header_def header_overwritten
        del: u24.simps of_bytes.simps load_bytes.simps One_nat_def)
  show ?thesis
    using s' pos idle chunk_update_commute [where c = c and m = "Some common_message_new"]
    by (auto simp: read_message_header_def mh_sizes_def q parse received_header_def)
qed

text \<open>A type-3 header in the middle of a message.\<close>

lemma read_message_header_fmt3:
  assumes ready: "io_ready s" and inp: "io_stream s = b # tail"
    and busy: "chunk_msg c = Some m" and ext: "\<not> chunk_extended_timestamp c"
    and cnt: "chunk_msg_count c \<noteq> 0" and pos: "0 \<le> sint (payload_length (chunk_header c))"
  shows "\<exists>s'. read_message_header 3 1 (c, s) =
      (Inr 0, (c\<lparr>chunk_msg := Some (m\<lparr>msg_header := chunk_header c\<rparr>),
                chunk_msg_count := chunk_msg_count c + 1\<rparr>, s')) \<and>
    io_ready s' \<and> io_stream s' = io_stream s \<and> sock_sent (snd s') = sock_sent (snd s)"
proof -
  obtain s' where s': "ensure_buffer_bytes 1 s = (Inr (), s')" "io_ready s'"
    "io_stream s' = io_stream s" "buffered 1 s'" "sock_sent (snd s') = sock_sent (snd s)"
    using ensure_ready [OF ready, of 1] inp by auto
  have q: "buffer_bytes s' = (Inr (buf_epoch (fst s'), 0), s')"
    by (rule buffer_bytes_ready [OF s'(4)]) simp
  show ?thesis
    using s' pos busy ext cnt
    by (auto simp: read_message_header_def mh_sizes_def q)
qed

section \<open>Payload\<close>

text \<open>
  The message under construction on a chunk stream: \<open>got\<close> is the payload received so far, at the
  front of an array of the announced length.
\<close>

definition building :: "RssMessageHeader \<Rightarrow> byte list \<Rightarrow> RssCommonMessage \<Rightarrow> bool" where
  "building h got m \<longleftrightarrow> msg_header m = h \<and> msg_size m = int (length got) \<and> msg_packet m = None \<and>
     length got \<le> unat (payload_length h) \<and>
     (msg_payload m = None \<and> got = [] \<or>
      msg_payload m = Some (got @ replicate (unat (payload_length h) - length got) 0))"

lemma read_message_payload_ready:
  assumes ready: "io_ready s" and inp: "io_stream s = hdr @ part @ rest"
    and hdr: "int (length hdr) = bh_size + mh_size" "hdr \<noteq> []" "0 \<le> bh_size" "0 \<le> mh_size"
    and tlen_eq: "sint (payload_length (chunk_header c)) = int tlen" "unat (payload_length (chunk_header c)) = tlen"
    and m: "chunk_msg c = Some m" "building (chunk_header c) got m" "length got < tlen"
    and part: "length part = min (tlen - length got) in_chunk" "0 < in_chunk"
  shows "\<exists>s' m'. read_message_payload (int in_chunk) bh_size mh_size (c, s) =
      (if length got + length part = tlen then (Inr (Some m'), (c\<lparr>chunk_msg := None\<rparr>, s'))
       else (Inr None, (c\<lparr>chunk_msg := Some m'\<rparr>, s'))) \<and>
    building (chunk_header c) (got @ part) m' \<and> io_ready s' \<and> io_stream s' = rest \<and>
    msg_payload m' \<noteq> None \<and> sock_sent (snd s') = sock_sent (snd s)"
proof -
  let ?n = "length part"
  let ?h = "chunk_header c"
  have n: "min (int tlen - int (length got)) (int in_chunk) = int ?n" "length got + ?n \<le> tlen"
    using part m(3) by auto
  have req: "bh_size + mh_size + int ?n = int (length hdr + ?n)" using hdr(1) by simp
  obtain s1 where s1: "ensure_buffer_bytes (int (length hdr + ?n)) s = (Inr (), s1)" "io_ready s1"
    "io_stream s1 = io_stream s" "buffered (int (length hdr + ?n)) s1"
    "sock_sent (snd s1) = sock_sent (snd s)"
    using ensure_ready [OF ready, of "int (length hdr + ?n)"] inp by auto
  have q: "buffer_bytes s1 = (Inr (buf_epoch (fst s1), 0), s1)"
    by (rule buffer_bytes_ready [OF s1(4)]) (use hdr(2) in \<open>cases hdr; simp\<close>)
  have src: "buffer_copy (buf_epoch (fst s1), bh_size + mh_size) (int ?n) s1 = (Inr part, s1)"
    using buffer_copy_ready [OF s1(4)] hdr(1) s1(3) inp by simp
  obtain s2 where s2: "buffer_erase (int (length hdr + ?n)) s1 = (Inr (), s2)" "io_ready s2"
    "io_stream s2 = drop (length hdr + ?n) (io_stream s1)" "sock_sent (snd s2) = sock_sent (snd s1)"
    using buffer_erase_ready [OF s1(2,4)] by auto
  define m1 where "m1 = (if msg_payload m = None then m\<lparr>msg_payload := Some (replicate tlen 0)\<rparr> else m)"
  define m' where "m' = m\<lparr>msg_payload := Some ((got @ part) @ replicate (tlen - length (got @ part)) 0),
               msg_size := int (length (got @ part))\<rparr>"
  have m1: "msg_payload m1 = Some (got @ replicate (tlen - length got) 0)" "msg_size m1 = int (length got)"
    using m(2) tlen_eq(2) by (auto simp: building_def m1_def)
  have store: "store_payload part m1 = Inr m'"
    using m1 n(2) by (auto simp: store_payload_def m1_def m'_def)
  have built: "building ?h (got @ part) m'"
    using m(2) n(2) tlen_eq(2) by (auto simp: building_def m'_def)
  have fin: "msg_size m' = int (length got + ?n)" "msg_payload m' \<noteq> None" by (simp_all add: m'_def)
  have tot: "int tlen \<noteq> 0" "0 < int tlen" using m(3) by auto
  have size: "msg_size m = int (length got)" using m(2) by (simp add: building_def)
  have "read_message_payload (int in_chunk) bh_size mh_size (c, s) =
      (if length got + ?n = tlen then (Inr (Some m'), (c\<lparr>chunk_msg := None\<rparr>, s2))
       else (Inr None, (c\<lparr>chunk_msg := Some m'\<rparr>, s2)))"
    using s1(1) q src s2(1) store m(1) tot
    by (simp add: read_message_payload_def Let_def tlen_eq(1) chunk_partial_msg_def size n(1) req
        take_message_def fin m1_def [symmetric] del: of_nat_add cong del: if_weak_cong)
  with built s2 s1 inp fin show ?thesis by (intro exI [of _ s2] exI [of _ m']) simp
qed

section \<open>One chunk\<close>

definition protocol_ready :: "RssProtocol \<Rightarrow> bool" where
  "protocol_ready s \<longleftrightarrow> io_ready (buffer s, skt s)"

definition protocol_sent :: "RssProtocol \<Rightarrow> byte list" where
  "protocol_sent s = sock_sent (skt s)"

text \<open>How far a chunk stream is in receiving a message with header \<open>h\<close>: \<open>[]\<close> means between messages.\<close>

definition stage :: "RssProtocol \<Rightarrow> int \<Rightarrow> RssMessageHeader \<Rightarrow> byte list \<Rightarrow> bool" where
  "stage s cid h got \<longleftrightarrow>
     (let c = chunk_of s cid in
      0 \<le> chunk_msg_count c \<and>
      (if got = [] then chunk_msg c = None
       else \<not> chunk_extended_timestamp c \<and> 0 < chunk_msg_count c \<and>
         chunk_header c = received_header h \<and>
         (\<exists>m. chunk_msg c = Some m \<and> building (received_header h) got m)))"

text \<open>The message delivered for a header and a payload.\<close>

definition complete_msg :: "RssMessageHeader \<Rightarrow> byte list \<Rightarrow> RssCommonMessage" where
  "complete_msg h pl = \<lparr>msg_header = received_header h, msg_size = int (length pl),
                        msg_payload = Some pl, msg_packet = None\<rparr>"

lemma building_complete:
  "building (received_header h) pl m \<Longrightarrow> msg_payload m \<noteq> None \<Longrightarrow>
   unat (payload_length h) = length pl \<Longrightarrow> m = complete_msg h pl"
  by (cases m) (auto simp: building_def complete_msg_def received_header_def)

text \<open>What receiving a chunk on \<open>cid\<close> leaves alone.\<close>

definition same_elsewhere :: "int \<Rightarrow> RssProtocol \<Rightarrow> RssProtocol \<Rightarrow> bool" where
  "same_elsewhere cid s s' \<longleftrightarrow>
     (\<forall>c. c \<noteq> cid \<longrightarrow> chunk_streams s' c = chunk_streams s c) \<and>
     in_chunk_size s' = in_chunk_size s \<and> out_chunk_size s' = out_chunk_size s \<and>
     protocol_sent s' = protocol_sent s"

lemma same_elsewhere_stage: "same_elsewhere cid s s' \<Longrightarrow> c \<noteq> cid \<Longrightarrow> stage s' c h got = stage s c h got"
  by (simp add: same_elsewhere_def stage_def chunk_of_def)

text \<open>Headers of the next chunk of a message of which \<open>got\<close> has been transferred.\<close>

definition next_header :: "int \<Rightarrow> RssMessageHeader \<Rightarrow> byte list \<Rightarrow> byte list" where
  "next_header cid h got = (if got = [] then fmt0_header cid h else fmt3_header cid h)"

lemma basic_header_next:
  assumes "io_ready s" and "io_stream s = next_header cid h got @ tail"
    and "plain_header h" and "2 \<le> cid" and "cid < 64"
  shows "\<exists>s'. read_basic_header s = (Inr (if got = [] then 0 else 3, cid, 1), s') \<and>
    io_ready s' \<and> io_stream s' = io_stream s \<and> sock_sent (snd s') = sock_sent (snd s)"
proof -
  obtain b r where b: "io_stream s = b # r" and "b = (if got = [] then 0x00 else 0xC0) OR (word_of_int cid AND 0x3F)"
    using assms(2,3) by (cases "got = []") (auto simp: next_header_def fmt0_plain fmt3_plain)
  then have "uint (b AND 0x3f) = cid" "unat (drop_bit 6 b AND 0x03) = (if got = [] then 0 else 3)"
    using cid_byte [OF assms(4,5)] by (cases "got = []"; simp)+
  with read_basic_header_ready [OF assms(1) b] assms(4) show ?thesis by simp
qed

text \<open>The message header of the next chunk, on the chunk stream in the matching stage.\<close>

lemma message_header_next:
  assumes "io_ready s" and "io_stream s = next_header cid h got @ tail" and "plain_header h"
    and stage: "0 \<le> chunk_msg_count c"
      "if got = [] then chunk_msg c = None
       else \<not> chunk_extended_timestamp c \<and> 0 < chunk_msg_count c \<and> chunk_header c = received_header h \<and>
         (\<exists>m. chunk_msg c = Some m \<and> building (received_header h) got m)"
  shows "\<exists>s' c' m. read_message_header (if got = [] then 0 else 3) 1 (c, s) =
      (Inr (if got = [] then 11 else 0), (c', s')) \<and>
    io_ready s' \<and> io_stream s' = io_stream s \<and> sock_sent (snd s') = sock_sent (snd s) \<and>
    chunk_header c' = received_header h \<and> \<not> chunk_extended_timestamp c' \<and> 0 < chunk_msg_count c' \<and>
    chunk_msg c' = Some m \<and> building (received_header h) got m"
proof (cases "got = []")
  case True
  with read_message_header_fmt0 [of s cid h tail c] assms show ?thesis
    by (auto simp: next_header_def building_def common_message_new_def)
next
  case False
  then obtain m where m: "chunk_msg c = Some m" "building (received_header h) got m"
    and c: "\<not> chunk_extended_timestamp c" "0 < chunk_msg_count c" "chunk_header c = received_header h"
    using stage(2) by auto
  obtain b where "io_stream s = b # tail"
    using assms(2,3) False by (simp add: next_header_def fmt3_plain)
  moreover have "0 \<le> sint (payload_length (chunk_header c))"
    using plain_length [OF assms(3)] c(3) by (simp add: received_header_def)
  ultimately show ?thesis
    using read_message_header_fmt3 [of s b tail c m] assms(1) False m c by (auto simp: building_def)
qed

lemma length_next_header:
  "plain_header h \<Longrightarrow> int (length (next_header cid h got)) = 1 + (if got = [] then 11 else 0)"
  by (simp add: next_header_def fmt0_plain fmt3_plain)

text \<open>
  A well-formed chunk: its payload is the next part of the message, a full chunk or the rest. It
  is received, and completes the message or advances the chunk stream.
\<close>

theorem recv_chunk_step:
  assumes ready: "protocol_ready s" and inp: "protocol_input s = next_header cid h got @ part @ rest"
    and h: "plain_header h" "unat (payload_length h) = length (got @ part @ todo)"
    and cid: "2 \<le> cid" "cid < 64" and stage: "stage s cid h got"
    and n: "in_chunk_size s = int n" "0 < n"
    and part: "length part = min (length (part @ todo)) n" "part \<noteq> []"
  shows "\<exists>s'. recv_interlaced_message s =
      (Inr (if todo = [] then Some (complete_msg h (got @ part)) else None), s') \<and>
    protocol_ready s' \<and> protocol_input s' = rest \<and> same_elsewhere cid s s' \<and>
    stage s' cid h (if todo = [] then [] else got @ part)"
proof -
  let ?s0 = "(buffer s, skt s)"
  let ?fmt = "if got = [] then 0 else 3 :: nat"
  let ?mh = "if got = [] then 11 else 0 :: int"
  have in0: "io_ready ?s0" "io_stream ?s0 = next_header cid h got @ part @ rest"
    using ready inp by (simp_all add: protocol_ready_def protocol_input_def)
  obtain b1 k1 where s1: "read_basic_header ?s0 = (Inr (?fmt, cid, 1), (b1, k1))" "io_ready (b1, k1)"
    "io_stream (b1, k1) = next_header cid h got @ part @ rest" "sock_sent k1 = sock_sent (skt s)"
    using basic_header_next [OF in0 h(1) cid] in0(2) by auto
  obtain b2 k2 c2 m where s2: "read_message_header ?fmt 1 (chunk_of s cid, (b1, k1)) = (Inr ?mh, (c2, (b2, k2)))"
    "io_ready (b2, k2)" "io_stream (b2, k2) = next_header cid h got @ part @ rest"
    "sock_sent k2 = sock_sent k1" "chunk_header c2 = received_header h"
    "\<not> chunk_extended_timestamp c2" "0 < chunk_msg_count c2" "chunk_msg c2 = Some m"
    "building (received_header h) got m"
    using message_header_next [OF s1(2,3) h(1), of "chunk_of s cid"] stage s1(3)
    by (auto simp: stage_def Let_def)
  have pl: "sint (payload_length (chunk_header c2)) = int (length (got @ part @ todo))"
    "unat (payload_length (chunk_header c2)) = length (got @ part @ todo)"
    using s2(5) h plain_length [OF h(1)] by (simp_all add: received_header_def)
  have less: "length got < length (got @ part @ todo)" using part(2) by simp
  have plen: "length part = min (length (got @ part @ todo) - length got) n" using part(1) by simp
  have hdr: "int (length (next_header cid h got)) = 1 + ?mh" "next_header cid h got \<noteq> []"
    "0 \<le> (1::int)" "0 \<le> ?mh"
    using length_next_header [OF h(1), of cid got] by (auto split: if_splits)
  have bld: "building (chunk_header c2) got m" using s2(5,9) by simp
  obtain b3 k3 m3 where s3: "read_message_payload (int n) 1 ?mh (c2, (b2, k2)) =
      (if length got + length part = length (got @ part @ todo)
       then (Inr (Some m3), (c2\<lparr>chunk_msg := None\<rparr>, (b3, k3)))
       else (Inr None, (c2\<lparr>chunk_msg := Some m3\<rparr>, (b3, k3))))"
    "building (received_header h) (got @ part) m3" "io_ready (b3, k3)" "io_stream (b3, k3) = rest"
    "msg_payload m3 \<noteq> None" "sock_sent k3 = sock_sent k2"
    using read_message_payload_ready [OF s2(2,3) hdr pl s2(8) bld less plen n(2)] s2(5)
    by (auto simp del: length_append split: prod.split)
  let ?c3 = "c2\<lparr>chunk_msg := (if todo = [] then None else Some m3)\<rparr>"
  let ?s' = "s\<lparr>chunk_streams := (chunk_streams s)(cid \<mapsto> ?c3), buffer := b3, skt := k3\<rparr>"
  have m3: "todo = [] \<Longrightarrow> m3 = complete_msg h (got @ part)"
    using building_complete [OF s3(2,5)] h(2) by simp
  have "recv_interlaced_message s =
      (Inr (if todo = [] then Some (complete_msg h (got @ part)) else None), ?s')"
    using s1(1) s2(1) s3(1) m3 n(1)
    by (auto simp: recv_interlaced_message_def with_io_def with_chunk_def chunk_of_def)
  moreover have "same_elsewhere cid s ?s'"
    using s1(4) s2(4) s3(6) by (simp add: same_elsewhere_def protocol_sent_def)
  moreover have "stage ?s' cid h (if todo = [] then [] else got @ part)"
    using s2(5-7) s3(2) part(2) by (auto simp: stage_def chunk_of_def Let_def)
  ultimately show ?thesis
    using s3(3,4) by (intro exI [of _ ?s']) (simp add: protocol_ready_def protocol_input_def)
qed

end
