(* ===== verification/Rss_Protocol_Mux.thy ===== *)
theory Rss_Protocol_Mux
  imports Rss_Protocol_Recv
begin

text \<open>
  Reassembly of interleaved chunk streams. The abstract specification is a family of message
  lists, one per chunk stream; on the wire their chunks are merged in any order. The receiver
  delivers, on every chunk stream, exactly its messages in order.
\<close>

section \<open>Messages as chunks\<close>

text \<open>The chunks of a message of which \<open>got\<close> has been transferred and \<open>todo\<close> is left.\<close>

function chunk_list :: "nat \<Rightarrow> int \<Rightarrow> RssMessageHeader \<Rightarrow> byte list \<Rightarrow> byte list \<Rightarrow> byte list list" where
  "chunk_list n cid h got todo =
     (if todo = [] \<or> n = 0 then []
      else (next_header cid h got @ take n todo) # chunk_list n cid h (got @ take n todo) (drop n todo))"
  by pat_completeness auto
termination
  by (relation "measure (\<lambda>(n, cid, h, got, todo). length todo)") auto

declare chunk_list.simps [simp del]

lemma chunk_list_Nil [simp]: "chunk_list n cid h got [] = []"
  by (simp add: chunk_list.simps)

lemma chunk_list_Cons:
  "0 < n \<Longrightarrow> todo \<noteq> [] \<Longrightarrow> chunk_list n cid h got todo =
     (next_header cid h got @ take n todo) # chunk_list n cid h (got @ take n todo) (drop n todo)"
  by (subst chunk_list.simps) simp

text \<open>A message that the chunk layer carries: non-empty, its header consistent and plain.\<close>

definition carried :: "RssMessageHeader \<times> byte list \<Rightarrow> bool" where
  "carried m \<longleftrightarrow> plain_header (fst m) \<and> unat (payload_length (fst m)) = length (snd m) \<and> snd m \<noteq> []"

definition messages_chunks :: "nat \<Rightarrow> int \<Rightarrow> (RssMessageHeader \<times> byte list) list \<Rightarrow> byte list list" where
  "messages_chunks n cid ms = concat (map (\<lambda>(h, pl). chunk_list n cid h [] pl) ms)"

text \<open>All interleavings of a family of lists; each element is tagged with its list.\<close>

inductive merged :: "('k \<Rightarrow> 'a list) \<Rightarrow> ('k \<times> 'a) list \<Rightarrow> bool" where
  merged_Nil: "(\<And>k. G k = []) \<Longrightarrow> merged G []"
| merged_Cons: "G k = x # xs \<Longrightarrow> merged (G(k := xs)) w \<Longrightarrow> merged G ((k, x) # w)"

inductive_cases merged_ConsE: "merged G ((k, x) # w)"

text \<open>Receive a number of chunks, collecting what each call returns.\<close>

fun recv_chunks :: "nat \<Rightarrow> (RssProtocol, RssCommonMessage option list) comp" where
  "recv_chunks 0 = return []"
| "recv_chunks (Suc k) =
     bind recv_interlaced_message (\<lambda>r. bind (recv_chunks k) (\<lambda>rs. return (r # rs)))"

text \<open>The messages delivered on one chunk stream.\<close>

fun delivered :: "int \<Rightarrow> int list \<Rightarrow> RssCommonMessage option list \<Rightarrow> RssCommonMessage list" where
  "delivered cid (c # cs) (r # rs) =
     (case r of Some m \<Rightarrow> if c = cid then m # delivered cid cs rs else delivered cid cs rs
      | None \<Rightarrow> delivered cid cs rs)"
| "delivered cid _ _ = []"

section \<open>Demultiplexing\<close>

text \<open>
  A chunk stream in the middle of its message list: \<open>g\<close> are the chunks still to come and \<open>out\<close>
  the messages they will deliver.
\<close>

definition flow :: "nat \<Rightarrow> RssProtocol \<Rightarrow> int \<Rightarrow> byte list list \<Rightarrow> RssCommonMessage list \<Rightarrow> bool" where
  "flow n s cid g out \<longleftrightarrow>
     (\<exists>h got todo ms. stage s cid h got \<and> (todo = [] \<longrightarrow> got = []) \<and>
        (todo \<noteq> [] \<longrightarrow> carried (h, got @ todo)) \<and> list_all carried ms \<and>
        g = chunk_list n cid h got todo @ messages_chunks n cid ms \<and>
        out = (if todo = [] then [] else [complete_msg h (got @ todo)]) @
              map (\<lambda>(h, pl). complete_msg h pl) ms)"

lemma flow_start:
  assumes "stage s cid h []" and "list_all carried ms"
  shows "flow n s cid (messages_chunks n cid ms) (map (\<lambda>(h, pl). complete_msg h pl) ms)"
  unfolding flow_def using assms by (intro exI [of _ h] exI [of _ "[]"] exI [of _ ms]) simp

lemma stage_idle: "stage s cid h [] \<Longrightarrow> stage s cid h' []"
  by (simp add: stage_def Let_def)

lemma flow_elsewhere:
  assumes "same_elsewhere cid s s'" and "c \<noteq> cid"
  shows "flow n s' c g out = flow n s c g out"
  unfolding flow_def same_elsewhere_stage [OF assms] ..

text \<open>The first chunk of a flow belongs to a message in a definite stage.\<close>

lemma flow_Cons:
  assumes "flow n s cid (x # g) out" and "0 < n"
  obtains h got todo ms where "stage s cid h got" "todo \<noteq> []" "carried (h, got @ todo)"
    "list_all carried ms" "x = next_header cid h got @ take n todo"
    "g = chunk_list n cid h (got @ take n todo) (drop n todo) @ messages_chunks n cid ms"
    "out = complete_msg h (got @ todo) # map (\<lambda>(h, pl). complete_msg h pl) ms"
proof -
  from assms(1) obtain h got todo ms where f: "stage s cid h got" "todo = [] \<longrightarrow> got = []"
    "todo \<noteq> [] \<longrightarrow> carried (h, got @ todo)" "list_all carried ms"
    "x # g = chunk_list n cid h got todo @ messages_chunks n cid ms"
    "out = (if todo = [] then [] else [complete_msg h (got @ todo)]) @ map (\<lambda>(h, pl). complete_msg h pl) ms"
    by (auto simp: flow_def)
  show ?thesis
  proof (cases "todo = []")
    case False
    with f assms(2) that [OF f(1) False, of ms] show ?thesis by (simp add: chunk_list_Cons)
  next
    case True
    with f obtain h' pl' ms' where ms: "ms = (h', pl') # ms'"
      by (cases ms) (auto simp: messages_chunks_def)
    with f(4) have "pl' \<noteq> []" "carried (h', [] @ pl')" "list_all carried ms'" by (auto simp: carried_def)
    moreover from f(1,2) True have "stage s cid h' []" by (auto intro: stage_idle)
    ultimately show ?thesis
      using f(5,6) ms True assms(2) that [of h' "[]" pl' ms']
      by (simp add: messages_chunks_def chunk_list_Cons)
  qed
qed

lemma flow_step:
  assumes "flow n s cid (x # g) out" and "protocol_ready s" and "protocol_input s = x @ rest"
    and "2 \<le> cid" and "cid < 64" and "in_chunk_size s = int n" and "0 < n"
  shows "\<exists>r s'. recv_interlaced_message s = (Inr r, s') \<and> protocol_ready s' \<and> protocol_input s' = rest \<and>
    same_elsewhere cid s s' \<and>
    (case r of Some m \<Rightarrow> (\<exists>out'. out = m # out' \<and> flow n s' cid g out') | None \<Rightarrow> flow n s' cid g out)"
proof -
  from flow_Cons [OF assms(1,7)] obtain h got todo ms where f: "stage s cid h got" "todo \<noteq> []"
    "carried (h, got @ todo)" "list_all carried ms" "x = next_header cid h got @ take n todo"
    "g = chunk_list n cid h (got @ take n todo) (drop n todo) @ messages_chunks n cid ms"
    "out = complete_msg h (got @ todo) # map (\<lambda>(h, pl). complete_msg h pl) ms" by blast
  let ?part = "take n todo" and ?left = "drop n todo"
  have step: "protocol_input s = next_header cid h got @ ?part @ rest" "plain_header h"
    "unat (payload_length h) = length (got @ ?part @ ?left)"
    "length ?part = min (length (?part @ ?left)) n" "?part \<noteq> []"
    using f assms(3,7) by (simp_all add: carried_def)
  obtain s' where s': "recv_interlaced_message s =
      (Inr (if ?left = [] then Some (complete_msg h (got @ ?part)) else None), s')"
    "protocol_ready s'" "protocol_input s' = rest" "same_elsewhere cid s s'"
    "stage s' cid h (if ?left = [] then [] else got @ ?part)"
    using recv_chunk_step [OF assms(2) step(1,2,3) assms(4,5) f(1) assms(6,7) step(4,5)] by blast
  show ?thesis
  proof (cases "?left = []")
    case True
    then have "todo = ?part" by (metis append_Nil2 append_take_drop_id)
    moreover have "flow n s' cid g (map (\<lambda>(h, pl). complete_msg h pl) ms)"
      using flow_start [of s' cid h ms n] s'(5) f(4,6) True by simp
    ultimately show ?thesis
      using s'(1-4) f(7) True
      by (intro exI [of _ "Some (complete_msg h (got @ ?part))"] exI [of _ s']) simp
  next
    case False
    have "flow n s' cid g out"
      unfolding flow_def
      by (rule exI [of _ h], rule exI [of _ "got @ ?part"], rule exI [of _ ?left], rule exI [of _ ms])
        (use s'(5) f False in simp)
    with s'(1-4) False show ?thesis by (intro exI [of _ None] exI [of _ s']) simp
  qed
qed

lemma flow_done: "flow n s cid [] out \<Longrightarrow> 0 < n \<Longrightarrow> out = []"
proof -
  assume "flow n s cid [] out" and n: "0 < n"
  then obtain h got todo ms where f: "todo \<noteq> [] \<longrightarrow> carried (h, got @ todo)" "list_all carried ms"
    "[] = chunk_list n cid h got todo @ messages_chunks n cid ms"
    "out = (if todo = [] then [] else [complete_msg h (got @ todo)]) @ map (\<lambda>(h, pl). complete_msg h pl) ms"
    by (auto simp: flow_def)
  then have "todo = []" using n by (cases "todo = []") (simp_all add: chunk_list_Cons)
  moreover have "ms = []"
    using f(2,3) n by (cases ms) (auto simp: messages_chunks_def carried_def chunk_list_Cons)
  ultimately show "out = []" using f(4) by simp
qed

text \<open>Any interleaving of any number of chunk streams is taken apart into their messages.\<close>

lemma recv_chunks_merged:
  assumes "merged G w" and "protocol_ready s" and "protocol_input s = concat (map snd w) @ rest"
    and "in_chunk_size s = int n" and "0 < n"
    and "\<forall>cid. flow n s cid (G cid) (out cid)"
    and "\<forall>cid. G cid \<noteq> [] \<longrightarrow> 2 \<le> cid \<and> cid < 64"
  shows "\<exists>rs s'. recv_chunks (length w) s = (Inr rs, s') \<and> length rs = length w \<and>
    protocol_input s' = rest \<and> (\<forall>cid. delivered cid (map fst w) rs = out cid)"
  using assms
proof (induction G w arbitrary: s out rule: merged.induct)
  case (merged_Nil G)
  then have "out cid = []" for cid using flow_done [of n s cid] by metis
  with merged_Nil show ?case by simp
next
  case (merged_Cons G k x xs w)
  have in': "protocol_input s = x @ (concat (map snd w) @ rest)" using merged_Cons.prems(2) by simp
  have "flow n s k (x # xs) (out k)" "2 \<le> k" "k < 64"
    using merged_Cons.prems(5,6) merged_Cons.hyps(1) by (metis list.distinct(1))+
  from flow_step [OF this(1) merged_Cons.prems(1) in' this(2,3) merged_Cons.prems(3,4)]
  obtain r s1 where s1: "recv_interlaced_message s = (Inr r, s1)" "protocol_ready s1"
    "protocol_input s1 = concat (map snd w) @ rest" "same_elsewhere k s s1"
    "case r of Some m \<Rightarrow> (\<exists>out'. out k = m # out' \<and> flow n s1 k xs out') | None \<Rightarrow> flow n s1 k xs (out k)"
    by blast
  define out1 where "out1 = (case r of Some m \<Rightarrow> out(k := tl (out k)) | None \<Rightarrow> out)"
  have outk: "flow n s1 k xs (out1 k)" "out k = (case r of Some m \<Rightarrow> m # out1 k | None \<Rightarrow> out1 k)"
    using s1(5) by (auto simp: out1_def split: option.splits)
  have flows: "\<forall>cid. flow n s1 cid ((G(k := xs)) cid) (out1 cid)"
    using outk(1) merged_Cons.prems(5) flow_elsewhere [OF s1(4)]
    by (auto simp: out1_def split: option.splits)
  have range: "\<forall>cid. (G(k := xs)) cid \<noteq> [] \<longrightarrow> 2 \<le> cid \<and> cid < 64"
    using merged_Cons.prems(6) \<open>2 \<le> k\<close> \<open>k < 64\<close> by simp
  have "in_chunk_size s1 = int n" using merged_Cons.prems(3) s1(4) by (simp add: same_elsewhere_def)
  from merged_Cons.IH [OF s1(2,3) this merged_Cons.prems(4) flows range]
  obtain rs s' where rs: "recv_chunks (length w) s1 = (Inr rs, s')" "length rs = length w"
    "protocol_input s' = rest" "\<forall>cid. delivered cid (map fst w) rs = out1 cid"
    by (elim exE conjE) (rule that; assumption)
  have other: "cid \<noteq> k \<Longrightarrow> out1 cid = out cid" for cid by (simp add: out1_def split: option.split)
  have "delivered cid (map fst ((k, x) # w)) (r # rs) = out cid" for cid
  proof (cases "cid = k")
    case True
    show ?thesis unfolding True using rs(4) by (subst outk(2)) (simp split: option.split)
  next
    case False
    with rs(4) other [OF False] show ?thesis by (simp split: option.split)
  qed
  with rs s1(1) show ?case by (intro exI [of _ "r # rs"] exI [of _ s']) auto
qed

section \<open>Receiving one message\<close>

text \<open>The kinds of message that the chunk layer hands on without looking at them.\<close>

definition not_control :: "RssMessageHeader \<Rightarrow> bool" where
  "not_control h \<longleftrightarrow> message_type h \<noteq> RTMP_MSG_SetChunkSize \<and>
     message_type h \<noteq> RTMP_MSG_WindowAcknowledgementSize"

lemma chunk_list_length:
  assumes "plain_header h"
  shows "length (chunk_list n cid h got todo) \<le> length (concat (chunk_list n cid h got todo))"
proof (induction n cid h got todo rule: chunk_list.induct)
  case (1 n cid h got todo)
  obtain b r where "next_header cid h got = b # r"
    by (cases "next_header cid h got") (auto simp: next_header_def fmt0_header_def fmt3_header_def split: if_splits)
  with 1 show ?case by (subst (1 2) chunk_list.simps) (auto simp: Suc_le_eq)
qed

lemma recv_message_loop_chunks:
  "protocol_ready s \<Longrightarrow> protocol_input s = concat (chunk_list n cid h got todo) @ rest \<Longrightarrow>
   carried (h, got @ todo) \<Longrightarrow> todo \<noteq> [] \<Longrightarrow> stage s cid h got \<Longrightarrow> 2 \<le> cid \<Longrightarrow> cid < 64 \<Longrightarrow>
   in_chunk_size s = int n \<Longrightarrow> 0 < n \<Longrightarrow> length (chunk_list n cid h got todo) \<le> k \<Longrightarrow>
   \<exists>s'. recv_message_loop k s = on_recv_message (complete_msg h (got @ todo)) s' \<and>
     protocol_ready s' \<and> protocol_input s' = rest \<and> same_elsewhere cid s s' \<and> stage s' cid h []"
proof (induction n cid h got todo arbitrary: s k rule: chunk_list.induct)
  case (1 n cid h got todo)
  let ?part = "take n todo" and ?left = "drop n todo"
  have cl: "chunk_list n cid h got todo = (next_header cid h got @ ?part) # chunk_list n cid h (got @ ?part) ?left"
    using 1(5,10) by (simp add: chunk_list_Cons)
  then obtain k' where k: "k = Suc k'" "length (chunk_list n cid h (got @ ?part) ?left) \<le> k'"
    using 1(11) by (cases k) auto
  have step: "protocol_input s = next_header cid h got @ ?part @ (concat (chunk_list n cid h (got @ ?part) ?left) @ rest)"
    "plain_header h" "unat (payload_length h) = length (got @ ?part @ ?left)"
    "length ?part = min (length (?part @ ?left)) n" "?part \<noteq> []"
    using 1 cl by (simp_all add: carried_def)
  obtain s1 where s1: "recv_interlaced_message s =
      (Inr (if ?left = [] then Some (complete_msg h (got @ ?part)) else None), s1)"
    "protocol_ready s1" "protocol_input s1 = concat (chunk_list n cid h (got @ ?part) ?left) @ rest"
    "same_elsewhere cid s s1" "stage s1 cid h (if ?left = [] then [] else got @ ?part)"
    using recv_chunk_step [OF 1(2) step(1,2,3) 1(7,8,6) 1(9,10) step(4,5)] by blast
  show ?case
  proof (cases "?left = []")
    case True
    have all: "got @ ?part = got @ todo" using True by (metis append_Nil2 append_take_drop_id)
    have "0 < int (length (got @ todo))" using 1(5) by (cases todo) simp_all
    moreover have "unat (payload_length h) = length (got @ todo)" using 1(4) by (simp add: carried_def)
    then have "sint (payload_length h) = int (length (got @ todo))"
      by (simp only: plain_length [OF step(2)])
    ultimately have "recv_message_loop k s = on_recv_message (complete_msg h (got @ todo)) s1"
      using s1(1) True all by (simp add: k(1) complete_msg_def received_header_def)
    with s1 True show ?thesis by (intro exI [of _ s1]) simp
  next
    case False
    have car: "carried (h, (got @ ?part) @ ?left)" and sz: "in_chunk_size s1 = int n"
      using 1(4,9) s1(4) by (simp_all add: same_elsewhere_def)
    have st: "stage s1 cid h (got @ ?part)" using s1(5) False by simp
    have "\<not> (todo = [] \<or> n = 0)" using 1(5,10) by simp
    from 1(1) [OF this s1(2,3) car False st 1(7,8) sz 1(10) k(2)]
    obtain s' where s': "recv_message_loop k' s1 = on_recv_message (complete_msg h (got @ todo)) s'"
      "protocol_ready s'" "protocol_input s' = rest" "same_elsewhere cid s1 s'" "stage s' cid h []"
      by auto
    have "same_elsewhere cid s s'" using s1(4) s'(4) by (simp add: same_elsewhere_def)
    moreover have "recv_message_loop k s = recv_message_loop k' s1" using s1(1) False k(1) by simp
    ultimately show ?thesis using s' by (intro exI [of _ s']) simp
  qed
qed

lemma recv_message_chunks:
  assumes "protocol_ready s" and "protocol_input s = concat (chunk_list n cid h [] pl) @ rest"
    and "carried (h, pl)" and "stage s cid h []" and "2 \<le> cid" and "cid < 64"
    and "in_chunk_size s = int n" and "0 < n"
  shows "\<exists>s'. recv_message s = on_recv_message (complete_msg h pl) s' \<and>
    protocol_ready s' \<and> protocol_input s' = rest \<and> same_elsewhere cid s s' \<and> stage s' cid h []"
proof -
  have "length (chunk_list n cid h [] pl) \<le> length (protocol_input s) + 1"
    using chunk_list_length [of h n cid "[]" pl] assms(2,3) by (simp add: carried_def)
  moreover have "pl \<noteq> []" using assms(3) by (simp add: carried_def)
  ultimately show ?thesis
    using recv_message_loop_chunks [OF assms(1,2) _ _ assms(4-8)] assms(3)
    by (simp add: recv_message_def del: recv_message_loop.simps)
qed

lemma on_recv_not_control: "not_control (msg_header m) \<Longrightarrow> on_recv_message m s = (Inr m, s)"
  by (simp add: on_recv_message_def not_control_def Let_def)

end
