(* ===== verification/Rss_Protocol_Send.thy ===== *)
theory Rss_Protocol_Send
  imports Rss_Protocol_Mux
begin

text \<open>
  Sending. The chunk loop of \<^verbatim>\<open>send_message\<close> ends, and it either puts exactly the chunks of the
  message on the wire or stops with a socket error after a prefix of them. With the receiving
  side this gives the round trip of the chunk layer.
\<close>

section \<open>The chunk loop\<close>

text \<open>Everything but the socket is left alone while the chunks go out.\<close>

definition only_sent :: "RssProtocol \<Rightarrow> RssProtocol \<Rightarrow> byte list \<Rightarrow> bool" where
  "only_sent s s' bs \<longleftrightarrow> protocol_sent s' = protocol_sent s @ bs \<and> protocol_input s' = protocol_input s \<and>
     chunk_streams s' = chunk_streams s \<and> in_chunk_size s' = in_chunk_size s \<and>
     out_chunk_size s' = out_chunk_size s"

lemma only_sent_trans: "only_sent s s' a \<Longrightarrow> only_sent s' s'' b \<Longrightarrow> only_sent s s'' (a @ b)"
  by (simp add: only_sent_def)

lemma on_send_message_sent: "on_send_message msg s = (r, s') \<Longrightarrow> protocol_sent s' = protocol_sent s"
  by (auto simp: on_send_message_def protocol_sent_def split: IRssMessage.splits if_splits option.splits
      RssPacket.splits)

definition socket_failure :: "unit res \<Rightarrow> bool" where
  "socket_failure r \<longleftrightarrow> r = Inl (Code ERROR_SOCKET_TIMEOUT) \<or> r = Inl (Code ERROR_SOCKET_WRITE)"

lemma writev_outcome:
  assumes "with_skt (socket_writev iov) s = (r, s')"
  shows "(\<exists>n. r = Inr n) \<and> only_sent s s' (concat iov) \<or>
    (\<exists>c. r = Inl (Code c) \<and> (c = ERROR_SOCKET_TIMEOUT \<or> c = ERROR_SOCKET_WRITE)) \<and>
    (\<exists>i. only_sent s s' (take i (concat iov)))"
proof -
  obtain r' k where w: "socket_writev iov (skt s) = (r', k)" by fastforce
  with assms have s': "r = r'" "s' = s\<lparr>skt := k\<rparr>" by (auto simp: with_skt_def)
  show ?thesis
  proof (cases r')
    case (Inl e)
    with w s' socket_writev_error [of iov "skt s" e k] show ?thesis
      by (auto simp: only_sent_def protocol_sent_def protocol_input_def io_stream_def)
  next
    case (Inr n)
    with w s' socket_writev_ok [of iov "skt s" n k] show ?thesis
      by (auto simp: only_sent_def protocol_sent_def protocol_input_def io_stream_def)
  qed
qed

text \<open>The message as \<open>send_chunks\<close> sees it: payload \<open>pl\<close>, header \<open>h\<close>, chunk stream \<open>cid\<close>.\<close>

definition outgoing :: "IRssMessage \<Rightarrow> int \<Rightarrow> RssMessageHeader \<Rightarrow> byte list \<Rightarrow> bool" where
  "outgoing msg cid h pl \<longleftrightarrow> imsg_header msg = h \<and> imsg_get_perfer_cid msg = cid \<and>
     imsg_size msg = int (length pl) \<and> imsg_payload msg = Some pl"

lemma take_prefix: "take i xs = take (min i (length xs)) (xs @ ys)"
  by (simp add: min_def)

lemma take_beyond: "take (length xs + i) (xs @ ys) = xs @ take i ys"
  by simp

lemma send_chunks_step:
  assumes "outgoing msg cid h (got @ part @ left)" and "part \<noteq> []"
    and "length part = min (length (part @ left)) n" and "out_chunk_size s = int n"
  shows "send_chunks (Suc k) msg (int (length got)) s =
    (case with_skt (socket_writev [next_header cid h got, part]) s of
       (Inl e, s1) \<Rightarrow> (Inl e, s1)
     | (Inr _, s1) \<Rightarrow> if left = [] then (Inr (), s1)
                      else send_chunks k msg (int (length (got @ part))) s1)"
proof -
  have out: "imsg_header msg = h" "imsg_get_perfer_cid msg = cid"
    "imsg_size msg = int (length (got @ part @ left))" "imsg_payload msg = Some (got @ part @ left)"
    using assms(1) by (simp_all add: outgoing_def)
  have size: "min (imsg_size msg - int (length got)) (out_chunk_size s) = int (length part)"
    using assms(3,4) by (simp add: out)
  have slice: "payload_slice (imsg_payload msg) (int (length got)) (int (length part)) = Inr part"
    using assms(2) by (simp add: payload_slice_def out)
  have hdr: "(if int (length got) = 0 then fmt0_header (imsg_get_perfer_cid msg) (imsg_header msg)
      else fmt3_header (imsg_get_perfer_cid msg) (imsg_header msg)) = next_header cid h got"
    by (simp add: next_header_def out)
  have adv: "(if imsg_payload msg \<noteq> None \<and> 0 < imsg_size msg then int (length got) + int (length part)
      else int (length got)) = int (length (got @ part))"
    using assms(2) by (cases part) (simp_all add: out)
  have cond: "int (length (got @ part)) < imsg_size msg \<longleftrightarrow> left \<noteq> []" by (simp add: out)
  show ?thesis
    unfolding send_chunks.simps Let_def bind_step(1) size hdr slice adv cond
    by (auto simp: bind_def split: sum.split prod.split)
qed

lemma send_chunks_out:
  "outgoing msg cid h (got @ todo) \<Longrightarrow> todo \<noteq> [] \<Longrightarrow> out_chunk_size s = int n \<Longrightarrow> 0 < n \<Longrightarrow>
   length todo \<le> k \<Longrightarrow> send_chunks k msg (int (length got)) s = (r, s') \<Longrightarrow>
   r = Inr () \<and> only_sent s s' (concat (chunk_list n cid h got todo)) \<or>
   socket_failure r \<and> (\<exists>i. only_sent s s' (take i (concat (chunk_list n cid h got todo))))"
proof (induction n cid h got todo arbitrary: s k rule: chunk_list.induct)
  case (1 n cid h got todo)
  let ?part = "take n todo" and ?left = "drop n todo"
  let ?iov = "[next_header cid h got, ?part]"
  have part: "?part \<noteq> []" "0 < length ?part" using 1(3,5) by auto
  obtain k' where k: "k = Suc k'" using 1(3,6) by (cases k) auto
  have cl: "concat (chunk_list n cid h got todo) =
      concat ?iov @ concat (chunk_list n cid h (got @ ?part) ?left)"
    using 1(3,5) by (simp add: chunk_list_Cons)
  obtain w s1 where w: "with_skt (socket_writev ?iov) s = (w, s1)" by fastforce
  have run: "send_chunks k msg (int (length got)) s =
      (case w of Inl e \<Rightarrow> (Inl e, s1)
       | Inr _ \<Rightarrow> if ?left = [] then (Inr (), s1)
                  else send_chunks k' msg (int (length (got @ ?part))) s1)"
    using send_chunks_step [of msg cid h got ?part ?left n s k'] 1(2,4) w part k by simp
  consider (failed) c i where "w = Inl (Code c)" "c = ERROR_SOCKET_TIMEOUT \<or> c = ERROR_SOCKET_WRITE"
      "only_sent s s1 (take i (concat ?iov))"
    | (ok) m where "w = Inr m" "only_sent s s1 (concat ?iov)"
    using writev_outcome [OF w] by blast
  then show ?case
  proof cases
    case failed
    moreover have "take i (concat ?iov) =
        take (min i (length (concat ?iov))) (concat (chunk_list n cid h got todo))"
      unfolding cl by (rule take_prefix)
    ultimately have "only_sent s s1 (take (min i (length (concat ?iov))) (concat (chunk_list n cid h got todo)))"
      "socket_failure r" "s' = s1"
      using run 1(7) by (auto simp: socket_failure_def)
    then show ?thesis by blast
  next
    case ok
    show ?thesis
    proof (cases "?left = []")
      case True
      with run 1(7) ok cl show ?thesis by simp
    next
      case False
      have again: "send_chunks k' msg (int (length (got @ ?part))) s1 = (r, s')"
        using run 1(7) ok False by simp
      have "outgoing msg cid h ((got @ ?part) @ ?left)" "out_chunk_size s1 = int n" "length ?left \<le> k'"
        using 1 ok(2) k part by (auto simp: only_sent_def)
      from 1(1) [OF _ this(1) False this(2) 1(5) this(3) again] 1(3,5)
      have "r = Inr () \<and> only_sent s1 s' (concat (chunk_list n cid h (got @ ?part) ?left)) \<or>
        socket_failure r \<and> (\<exists>i. only_sent s1 s' (take i (concat (chunk_list n cid h (got @ ?part) ?left))))"
        by simp
      then show ?thesis
      proof (elim disjE conjE exE)
        assume "r = Inr ()" "only_sent s1 s' (concat (chunk_list n cid h (got @ ?part) ?left))"
        with only_sent_trans [OF ok(2)] cl show ?thesis by simp
      next
        fix i assume "socket_failure r" "only_sent s1 s' (take i (concat (chunk_list n cid h (got @ ?part) ?left)))"
        moreover have "take (length (concat ?iov) + i) (concat (chunk_list n cid h got todo)) =
            concat ?iov @ take i (concat (chunk_list n cid h (got @ ?part) ?left))"
          unfolding cl by (rule take_beyond)
        ultimately show ?thesis using only_sent_trans [OF ok(2)] by metis
      qed
    qed
  qed
qed

section \<open>Messages\<close>

lemma send_message_out:
  assumes "imsg_encode_packet heap msg = Inr msg'" and "outgoing msg' cid h pl" and "pl \<noteq> []"
    and "out_chunk_size s = int n" and "0 < n" and "send_message heap msg s = (r, s')"
  shows "(\<exists>s1. only_sent s s1 (concat (chunk_list n cid h [] pl)) \<and> on_send_message msg' s1 = (r, s')) \<or>
    socket_failure r \<and> (\<exists>i. only_sent s s' (take i (concat (chunk_list n cid h [] pl))))"
proof -
  have size: "imsg_size msg' = int (length pl)" using assms(2) by (simp add: outgoing_def)
  obtain r1 s1 where run: "send_chunks (length pl + 1) msg' 0 s = (r1, s1)" by fastforce
  have all: "send_message heap msg s = (case r1 of Inl e \<Rightarrow> (Inl e, s1) | Inr _ \<Rightarrow> on_send_message msg' s1)"
    using assms(1) run size by (auto simp: send_message_def bind_def split: sum.split simp del: send_chunks.simps)
  have "r1 = Inr () \<and> only_sent s s1 (concat (chunk_list n cid h [] pl)) \<or>
      socket_failure r1 \<and> (\<exists>i. only_sent s s1 (take i (concat (chunk_list n cid h [] pl))))"
    using send_chunks_out [of msg' cid h "[]" pl s n "length pl + 1" r1 s1] assms(2-5) run by simp
  then show ?thesis
    using all assms(6) by (auto simp: socket_failure_def)
qed

text \<open>
  A media message: the receiver that reads what the sender sent gets the same type, stream,
  timestamp and payload, and nothing else is consumed.
\<close>

lemma shared_message_roundtrip:
  assumes sent: "send_message heap (SharedPtrMessage h (int (length pl)) (Some pl) cid) a = (Inr (), a')"
      "out_chunk_size a = int n" "0 < n"
    and msg: "carried (h, pl)" "not_control h" "2 \<le> cid" "cid < 64"
    and recv: "protocol_ready b" "in_chunk_size b = int n" "stage b cid h []"
      "protocol_input b = drop (length (protocol_sent a)) (protocol_sent a') @ rest"
  shows "\<exists>b'. recv_message b = (Inr (complete_msg h pl), b') \<and> protocol_ready b' \<and>
    protocol_input b' = rest \<and> stage b' cid h [] \<and> same_elsewhere cid b b'"
proof -
  let ?msg = "SharedPtrMessage h (int (length pl)) (Some pl) cid"
  have "pl \<noteq> []" using msg(1) by (simp add: carried_def)
  moreover have "outgoing ?msg cid h pl" by (simp add: outgoing_def)
  ultimately have "only_sent a a' (concat (chunk_list n cid h [] pl))"
    using send_message_out [of heap ?msg ?msg cid h pl a n "Inr ()" a'] sent
    by (auto simp: socket_failure_def on_send_message_def)
  then have "protocol_input b = concat (chunk_list n cid h [] pl) @ rest"
    using recv(4) by (simp add: only_sent_def)
  from recv_message_chunks [OF recv(1) this msg(1) recv(3) msg(3,4) recv(2) sent(3)]
  obtain b' where "recv_message b = on_recv_message (complete_msg h pl) b'" "protocol_ready b'"
    "protocol_input b' = rest" "same_elsewhere cid b b'" "stage b' cid h []" by auto
  moreover have "on_recv_message (complete_msg h pl) b' = (Inr (complete_msg h pl), b')"
    using msg(2) by (intro on_recv_not_control) (simp add: complete_msg_def received_header_def not_control_def)
  ultimately show ?thesis by auto
qed

text \<open>A packet message, as the server sends its responses.\<close>

definition packet_message :: "RssPacket \<Rightarrow> i32 \<Rightarrow> RssCommonMessage" where
  "packet_message pkt sid = common_set_packet pkt sid common_message_new"

lemma carried_packet:
  assumes "sendable pkt" and "length (enc_packet pkt) < 2 ^ 24"
  shows "carried (msg_header (packet_message pkt sid), enc_packet pkt)"
proof -
  let ?n = "length (enc_packet pkt)"
  have "payload_length (msg_header (packet_message pkt sid)) = word_of_nat ?n"
    using packet_size_enc [OF assms(1)]
    by (simp add: packet_message_def common_set_packet_def)
  moreover have "unat (word_of_nat ?n :: i32) = ?n" using assms(2) by (simp add: unat_of_nat)
  moreover have "timestamp (msg_header (packet_message pkt sid)) = 0"
    by (simp add: packet_message_def common_set_packet_def common_message_new_def header_new_def)
  ultimately show ?thesis
    using assms(2) enc_packet_neq_Nil [OF assms(1)]
    by (simp add: carried_def plain_header_def word_less_nat_alt)
qed

lemma send_packet_out:
  assumes "sendable pkt" and "\<And>n. length (heap n) = n"
    and "out_chunk_size s = int n" and "0 < n"
    and "send_message heap (CommonMessage (packet_message pkt sid)) s = (r, s')"
  shows "(\<exists>s1 msg'. only_sent s s1 (concat (chunk_list n (packet_get_perfer_cid pkt)
        (msg_header (packet_message pkt sid)) [] (enc_packet pkt))) \<and> on_send_message (CommonMessage msg') s1 = (r, s') \<and>
        msg_packet msg' = Some pkt \<and> message_type (msg_header msg') = packet_get_message_type pkt) \<or>
    socket_failure r \<and> (\<exists>i. only_sent s s' (take i (concat (chunk_list n (packet_get_perfer_cid pkt)
        (msg_header (packet_message pkt sid)) [] (enc_packet pkt)))))"
proof -
  let ?msg = "packet_message pkt sid"
  let ?msg' = "?msg\<lparr>msg_size := int (length (enc_packet pkt)), msg_payload := Some (enc_packet pkt)\<rparr>"
  have enc: "imsg_encode_packet heap (CommonMessage ?msg) = Inr (CommonMessage ?msg')"
    unfolding packet_message_def by (rule encode_set_packet [OF assms(1,2)])
  have out: "outgoing (CommonMessage ?msg') (packet_get_perfer_cid pkt) (msg_header ?msg) (enc_packet pkt)"
    "msg_packet ?msg' = Some pkt" "message_type (msg_header ?msg') = packet_get_message_type pkt"
    by (simp_all add: outgoing_def packet_message_def common_set_packet_def common_get_perfer_cid_def)
  from send_message_out [OF enc out(1) enc_packet_neq_Nil [OF assms(1)] assms(3,4,5)] show ?thesis
    using out(2,3) by blast
qed

text \<open>
  Changing the chunk size: the sender switches after the message is out and the receiver when it
  has read it, so both sides agree from the next message on.
\<close>

lemma set_chunk_size_agreed:
  assumes sent: "send_message heap (CommonMessage (packet_message (RssSetChunkSizePacket v) sid)) a = (Inr (), a')"
      "\<And>n. length (heap n) = n" "out_chunk_size a = int n" "0 < n"
    and v: "RTMP_MIN_CHUNK_SIZE \<le> sint v"
    and recv: "protocol_ready b" "in_chunk_size b = int n" "stage b RTMP_CID_ProtocolControl h []"
      "protocol_input b = drop (length (protocol_sent a)) (protocol_sent a') @ rest"
  shows "\<exists>m b'. recv_message b = (Inr m, b') \<and> msg_packet m = Some (RssSetChunkSizePacket v) \<and>
    out_chunk_size a' = sint v \<and> in_chunk_size b' = sint v \<and> protocol_input b' = rest"
proof -
  let ?pkt = "RssSetChunkSizePacket v"
  let ?h = "msg_header (packet_message ?pkt sid)"
  have car: "carried (?h, enc_packet ?pkt)" by (rule carried_packet) simp_all
  obtain s1 msg' where s1: "only_sent a s1 (concat (chunk_list n RTMP_CID_ProtocolControl ?h [] (enc_packet ?pkt)))"
    "on_send_message (CommonMessage msg') s1 = (Inr (), a')" "msg_packet msg' = Some ?pkt"
    "message_type (msg_header msg') = RTMP_MSG_SetChunkSize"
    using send_packet_out [OF _ sent(2,3,4,1)] by (auto simp: socket_failure_def)
  then have a': "a' = s1\<lparr>out_chunk_size := sint v\<rparr>" by (auto simp: on_send_message_def)
  then have inp: "protocol_input b = concat (chunk_list n RTMP_CID_ProtocolControl ?h [] (enc_packet ?pkt)) @ rest"
    using recv(4) s1(1) by (simp add: only_sent_def protocol_sent_def)
  have "stage b RTMP_CID_ProtocolControl ?h []" using recv(3) by (rule stage_idle)
  from recv_message_chunks [OF recv(1) inp car this _ _ recv(2) sent(4)]
  obtain b' where b': "recv_message b = on_recv_message (complete_msg ?h (enc_packet ?pkt)) b'"
    "protocol_input b' = rest" by auto
  have ty: "message_type (received_header ?h) = RTMP_MSG_SetChunkSize"
    by (simp add: received_header_def packet_message_def common_set_packet_def)
  have "common_decode_packet (complete_msg ?h (be4 v)) =
      (Inr (), (complete_msg ?h (be4 v))\<lparr>msg_packet := Some ?pkt\<rparr>)"
    using stream_initialize_strm [of "be4 v" stream_new] decode_SetChunkSize_enc [OF v, of "[]" "[]"] ty
    by (simp add: common_decode_packet_def complete_msg_def decode_by_header_def header_is_defs be4_def)
  then have "recv_message b = (Inr ((complete_msg ?h (be4 v))\<lparr>msg_packet := Some ?pkt\<rparr>),
      b'\<lparr>in_chunk_size := sint v\<rparr>)"
    using b'(1) ty by (simp add: on_recv_message_def complete_msg_def)
  with a' b'(2) show ?thesis by (auto simp: protocol_input_def)
qed

end
