(* ===== verification/Rss_Protocol_Safe.thy ===== *)
theory Rss_Protocol_Safe
  imports Rss_Protocol_Send
begin

text \<open>
  The chunk layer on arbitrary input. Whatever the peer sends, and however a call ends, the
  protocol state keeps its invariant; every received chunk consumes input, so \<^verbatim>\<open>recv_message\<close> and
  \<^verbatim>\<open>rss_rtmp_expect_message\<close> do not loop for ever on finite input; and a failing call leaves the
  input stream as it was.
\<close>

section \<open>The invariant\<close>

definition msg_ok :: "RssCommonMessage \<Rightarrow> bool" where
  "msg_ok m \<longleftrightarrow> 0 \<le> msg_size m \<and> msg_packet m = None \<and>
     (case msg_payload m of None \<Rightarrow> msg_size m = 0 | Some arr \<Rightarrow> msg_size m \<le> int (length arr))"

definition chunk_ok :: "RssChunkStream \<Rightarrow> bool" where
  "chunk_ok c \<longleftrightarrow> 0 \<le> chunk_msg_count c \<and> payload_length (chunk_header c) < 2 ^ 24 \<and>
     (\<forall>m. chunk_msg c = Some m \<longrightarrow> msg_ok m)"

definition protocol_ok :: "RssProtocol \<Rightarrow> bool" where
  "protocol_ok s \<longleftrightarrow> RTMP_MIN_CHUNK_SIZE \<le> in_chunk_size s \<and>
     (\<forall>cid c. chunk_streams s cid = Some c \<longrightarrow> chunk_ok c)"

lemma msg_ok_new: "msg_ok common_message_new"
  by (simp add: msg_ok_def common_message_new_def)

lemma chunk_ok_new: "chunk_ok (chunk_stream_new cid)"
  by (simp add: chunk_ok_def chunk_stream_new_def header_new_def)

lemma protocol_ok_new: "protocol_ok (protocol_new net)"
  by (simp add: protocol_ok_def protocol_new_def)

lemma chunk_ok_of: "protocol_ok s \<Longrightarrow> chunk_ok (chunk_of s cid)"
  by (auto simp: protocol_ok_def chunk_of_def chunk_ok_new split: option.split)

text \<open>Three bytes give a length below \<open>2 ^ 24\<close>, whatever they are.\<close>

lemma u24_less: "u24 bs < 2 ^ 24"
proof (cases bs rule: u24.cases)
  case (1 b2 b1 b0)
  have "take_bit 24 (u24 bs) = u24 bs"
  proof (rule bit_word_eqI)
    fix i assume "i < LENGTH(32)"
    then have "i div 8 = 0 \<or> i div 8 = 1 \<or> i div 8 = 2 \<or> i div 8 = 3" by auto
    then show "bit (take_bit 24 (u24 bs)) i = bit (u24 bs) i"
      using 1 by (auto simp: bit_of_bytes bit_take_bit_iff simp del: of_bytes.simps)
  qed
  moreover have "take_bit 24 (u24 bs) < 2 ^ 24"
    by (simp add: take_bit_eq_mod word_less_nat_alt unat_mod)
  ultimately show ?thesis by simp
qed simp_all

section \<open>Operations that keep a predicate\<close>

text \<open>The predicate holds after the operation, whether it succeeds or fails.\<close>

definition keeps :: "('s \<Rightarrow> bool) \<Rightarrow> ('s, 'a) comp \<Rightarrow> bool" where
  "keeps P m \<longleftrightarrow> (\<forall>s. P s \<longrightarrow> P (snd (m s)))"

named_theorems keeps_intro \<open>how predicates are kept\<close>

lemma keepsD: "keeps P m \<Longrightarrow> P s \<Longrightarrow> m s = (r, s') \<Longrightarrow> P s'"
  by (auto simp: keeps_def dest!: spec [of _ s])

lemma keeps_bind [keeps_intro]: "keeps P m \<Longrightarrow> (\<And>x. keeps P (f x)) \<Longrightarrow> keeps P (bind m f)"
  unfolding keeps_def by (fastforce simp: bind_def split: prod.split sum.split)

lemma keeps_basic [keeps_intro]:
  "keeps P (return x)" "keeps P (fail e)" "keeps P (get f)" "keeps P (lift_res r)"
  by (simp_all add: keeps_def)

lemma keeps_if [keeps_intro]: "keeps P m \<Longrightarrow> keeps P n \<Longrightarrow> keeps P (if b then m else n)"
  by simp

lemma keeps_let [keeps_intro]: "(\<And>x. keeps P (f x)) \<Longrightarrow> keeps P (Let x f)"
  by (simp add: Let_def)

lemma keeps_on_snd_fst [keeps_intro]: "keeps (\<lambda>s. P (fst s)) (on_snd m)"
  by (simp add: keeps_def on_snd_def split: prod.split)

lemma keeps_on_chunk_fst: "(\<And>c. P c \<Longrightarrow> P (f c)) \<Longrightarrow> keeps (\<lambda>s. P (fst s)) (on_chunk f)"
  by (simp add: keeps_def on_chunk_def)

lemma keeps_on_chunk_snd [keeps_intro]: "keeps (\<lambda>s. P (snd s)) (on_chunk f)"
  by (simp add: keeps_def on_chunk_def)

lemma keeps_on_snd_snd: "keeps P m \<Longrightarrow> keeps (\<lambda>s. P (snd s)) (on_snd m)"
  by (simp add: keeps_def on_snd_def split: prod.split)
    (metis snd_conv)

section \<open>The chunk stream under construction\<close>

lemma chunk_ok_header:
  "chunk_ok c \<Longrightarrow> (\<And>h. payload_length h < 2 ^ 24 \<Longrightarrow> payload_length (f h) < 2 ^ 24) \<Longrightarrow>
   chunk_ok (map_header f c)"
  by (simp add: chunk_ok_def map_header_def)

lemma keeps_chunk_ok_header [keeps_intro]:
  "(\<And>h. payload_length h < 2 ^ 24 \<Longrightarrow> payload_length (f h) < 2 ^ 24) \<Longrightarrow>
   keeps (\<lambda>s. chunk_ok (fst s)) (on_chunk (map_header f))"
  by (rule keeps_on_chunk_fst) (rule chunk_ok_header)

lemma keeps_parse: "keeps (\<lambda>s. chunk_ok (fst s)) (parse_message_header fmt q)"
  unfolding parse_message_header_def
  by (intro keeps_intro keeps_on_chunk_fst) (auto simp: chunk_ok_def map_header_def u24_less [simplified])

lemma keeps_header: "keeps (\<lambda>s. chunk_ok (fst s)) (read_message_header fmt bh_size)"
proof -
  have body: "keeps (\<lambda>s. chunk_ok (fst s)) (on_chunk (\<lambda>c. c\<lparr>chunk_msg := map_option (\<lambda>m. m\<lparr>msg_header := h\<rparr>) (chunk_msg c),
      chunk_msg_count := chunk_msg_count c + 1\<rparr>))" for h
    by (rule keeps_on_chunk_fst) (auto simp: chunk_ok_def msg_ok_def split: option.splits)
  show ?thesis
    unfolding read_message_header_def
    by (intro keeps_intro keeps_parse body keeps_on_chunk_fst)
      (auto simp: chunk_ok_def map_header_def msg_ok_new)
qed

text \<open>Storing received bytes keeps the message well formed.\<close>

lemma store_payload_ok: "msg_ok m \<Longrightarrow> store_payload src m = Inr m' \<Longrightarrow> msg_ok m'"
  by (auto simp: store_payload_def msg_ok_def split: option.splits if_splits)

lemma partial_ok: "chunk_ok c \<Longrightarrow> msg_ok (chunk_partial_msg c)"
  by (auto simp: chunk_ok_def chunk_partial_msg_def msg_ok_new split: option.split)

lemma keeps_take_message: "keeps (\<lambda>s. chunk_ok (fst s)) take_message"
  unfolding take_message_def by (intro keeps_intro keeps_on_chunk_fst) (simp add: chunk_ok_def)

lemma keeps_store:
  assumes "\<And>m'. keeps (\<lambda>s. chunk_ok (fst s)) (f m')"
  shows "keeps (\<lambda>s. chunk_ok (fst s)) (bind (get (\<lambda>s. chunk_partial_msg (fst s))) (\<lambda>m.
     bind (lift_res (store_payload src m)) (\<lambda>m'. bind (on_chunk (\<lambda>c. c\<lparr>chunk_msg := Some m'\<rparr>)) (\<lambda>_. f m'))))"
  unfolding keeps_def
proof (intro allI impI)
  fix s :: chunk_io assume ok: "chunk_ok (fst s)"
  obtain c b k where s: "s = (c, (b, k))" by (cases s)
  have m: "msg_ok (chunk_partial_msg c)" using ok s by (simp add: partial_ok)
  show "chunk_ok (fst (snd (bind (get (\<lambda>s. chunk_partial_msg (fst s))) (\<lambda>m.
     bind (lift_res (store_payload src m)) (\<lambda>m'. bind (on_chunk (\<lambda>c. c\<lparr>chunk_msg := Some m'\<rparr>)) (\<lambda>_. f m'))) s)))"
  proof (cases "store_payload src (chunk_partial_msg c)")
    case (Inl e)
    with s ok show ?thesis by simp
  next
    case (Inr m')
    with s ok m have "chunk_ok (c\<lparr>chunk_msg := Some m'\<rparr>)"
      by (simp add: chunk_ok_def store_payload_ok)
    with assms [of m'] s Inr show ?thesis by (simp add: keeps_def)
  qed
qed

lemma keeps_payload: "keeps (\<lambda>s. chunk_ok (fst s)) (read_message_payload in_chunk bh_size mh_size)"
  unfolding read_message_payload_def
  by (intro keeps_store keeps_take_message keeps_intro keeps_on_chunk_fst)
    (auto simp: chunk_ok_def msg_ok_def)

section \<open>Consumption of input\<close>

abbreviation same_stream :: "byte list \<Rightarrow> rss_io \<Rightarrow> bool" where
  "same_stream xs s \<equiv> io_stream s = xs"

lemma keeps_ensure: "keeps (same_stream xs) (ensure_buffer_bytes n)"
  unfolding keeps_def using io.fill_view by (metis prod.collapse)

lemma keeps_buffer_reads:
  "keeps (same_stream xs) buffer_bytes" "keeps (same_stream xs) (buffer_deref q)"
  "keeps (same_stream xs) (buffer_copy q n)"
  by (simp_all add: keeps_def buffer_bytes_def buffer_deref_def buffer_copy_def)

lemma keeps_load_bytes: "keeps (same_stream xs) (load_bytes q n)"
  by (induction n arbitrary: q) (auto intro!: keeps_intro keeps_buffer_reads)

lemmas keeps_stream = keeps_ensure keeps_buffer_reads keeps_load_bytes
lemmas keeps_stream_snd = keeps_stream [THEN keeps_on_snd_snd]

lemma keeps_basic_header: "keeps (same_stream xs) read_basic_header"
  unfolding read_basic_header_def by (intro keeps_intro keeps_stream)

lemma keeps_header_stream: "keeps (\<lambda>s. same_stream xs (snd s)) (read_message_header fmt bh_size)"
  unfolding read_message_header_def parse_message_header_def
  by (intro keeps_intro keeps_stream_snd)

text \<open>
  The basic header is one to three bytes, the message header is not negative: what the payload
  step erases is never empty.
\<close>

lemma basic_header_size: "read_basic_header s = (Inr (fmt, cid, bh_size), s') \<Longrightarrow> 1 \<le> bh_size \<and> fmt < 4"
proof -
  have "unat (drop_bit 6 b AND 0x03) < 4" for b :: byte
  proof -
    have "drop_bit 6 b AND 3 \<le> (3 :: byte)" by (rule word_and_le1)
    then show ?thesis by (simp add: word_le_nat_alt)
  qed
  then show "read_basic_header s = (Inr (fmt, cid, bh_size), s') \<Longrightarrow> 1 \<le> bh_size \<and> fmt < 4"
    by (auto simp: read_basic_header_def Let_def elim!: bind_cases split: if_splits)
qed

lemma header_size:
  assumes "read_message_header fmt bh_size s = (Inr mh_size, s')" and "fmt < 4"
  shows "0 \<le> mh_size"
proof -
  have mh: "0 \<le> mh_sizes fmt"
    using assms(2) by (auto simp: mh_sizes_def less_Suc_eq numeral_eq_Suc)
  from assms(1) have "mh_size = mh_sizes fmt \<or> mh_size = mh_sizes fmt + 4"
    by (auto simp: read_message_header_def Let_def elim!: bind_cases split: if_splits)
  with mh show ?thesis by auto
qed

lemma erase_consumes:
  assumes "buffer_erase n s = (Inr (), s')" and "1 \<le> n"
  shows "length (io_stream s') < length (io_stream s)"
proof -
  have "n \<le> int (length (buf_data (fst s)))" "io_stream s' = drop (nat n) (io_stream s)"
    using assms(1) io.erase_view [OF assms(1)] by (auto simp: buffer_erase_def split: if_splits)
  with assms(2) show ?thesis by (auto simp: io_stream_def)
qed

lemma copy_size: "buffer_copy q n s = (Inr bs, s') \<Longrightarrow> 0 \<le> n"
  by (auto simp: buffer_copy_def split: if_splits)

text \<open>A step that consumes input when it succeeds and leaves it when it fails.\<close>

definition consumes :: "('s \<Rightarrow> byte list) \<Rightarrow> ('s, 'a) comp \<Rightarrow> bool" where
  "consumes inp m \<longleftrightarrow>
     (\<forall>s r s'. m s = (r, s') \<longrightarrow>
        (case r of Inl e \<Rightarrow> inp s' = inp s | Inr x \<Rightarrow> length (inp s') < length (inp s)))"

abbreviation chunk_input :: "chunk_io \<Rightarrow> byte list" where
  "chunk_input s \<equiv> io_stream (snd s)"

lemma consumesD:
  "consumes inp m \<Longrightarrow> m s = (r, s') \<Longrightarrow>
     case r of Inl e \<Rightarrow> inp s' = inp s | Inr x \<Rightarrow> length (inp s') < length (inp s)"
  by (simp add: consumes_def)

lemma consumes_bind_keeps:
  assumes "\<And>xs. keeps (\<lambda>s. inp s = xs) m" and "\<And>x s t. m s = (Inr x, t) \<Longrightarrow> consumes inp (f x)"
  shows "consumes inp (bind m f)"
  unfolding consumes_def
proof (intro allI impI)
  fix s r s' assume "bind m f s = (r, s')"
  then show "case r of Inl e \<Rightarrow> inp s' = inp s | Inr x \<Rightarrow> length (inp s') < length (inp s)"
  proof (cases rule: bind_cases)
    case (error e)
    with keepsD [OF assms(1) refl, of s] show ?thesis by auto
  next
    case (step x t)
    have "inp t = inp s" using keepsD [OF assms(1) refl step(1)] .
    with consumesD [OF assms(2) [OF step(1)] step(2)] show ?thesis by (simp split: sum.splits)
  qed
qed

text \<open>Once the input is consumed, the rest of the step cannot fail any more.\<close>

lemma consumes_erase:
  assumes "1 \<le> n" and "\<And>s. \<exists>x c. f s = (Inr x, (c, snd s))"
  shows "consumes chunk_input (bind (on_snd (buffer_erase n)) (\<lambda>_. f))"
  unfolding consumes_def
proof (intro allI impI)
  fix s r s' assume "bind (on_snd (buffer_erase n)) (\<lambda>_. f) s = (r, s')"
  then show "case r of Inl e \<Rightarrow> chunk_input s' = chunk_input s
      | Inr x \<Rightarrow> length (chunk_input s') < length (chunk_input s)"
  proof (cases rule: bind_cases)
    case (error e)
    then show ?thesis by (auto simp: on_snd_def buffer_erase_def split: if_splits)
  next
    case (step x t)
    obtain y c where "f t = (Inr y, (c, snd t))" using assms(2) by blast
    with step have "buffer_erase n (snd s) = (Inr (), snd s')" "r = Inr y"
      by (auto simp: on_snd_def split: prod.splits)
    with erase_consumes [OF _ assms(1)] show ?thesis by simp
  qed
qed

lemma take_message_total: "\<exists>x c. take_message s = (Inr x, (c, snd s))"
  by (cases s) (simp add: take_message_def)

lemma payload_consumes:
  assumes "1 \<le> bh_size" and "0 \<le> mh_size"
  shows "consumes chunk_input (read_message_payload in_chunk bh_size mh_size)"
proof -
  have fin: "\<exists>x c. (if b then take_message else return None) s = (Inr x, (c, snd s))" for b s
    using take_message_total by (cases s) auto
  have err: "consumes inp (fail e)" for inp :: "'x \<Rightarrow> byte list" and e
    by (simp add: consumes_def)
  have copied: "0 \<le> n" if "on_snd (buffer_copy q n) s = (Inr bs, t)" for q n s bs and t :: chunk_io
    using that copy_size by (fastforce simp: on_snd_def split: prod.splits)
  show ?thesis
    unfolding read_message_payload_def Let_def
    by (rule consumes_bind_keeps, intro keeps_intro,
        simp split del: if_split, split if_split, intro conjI impI,
        rule consumes_erase, use assms in simp, rule take_message_total,
        split if_split, intro conjI impI, rule err,
        (rule consumes_bind_keeps, intro keeps_intro keeps_stream_snd)+,
        rule consumes_erase, use assms copied in fastforce, rule fin)
qed

section \<open>The protocol\<close>

lemma keeps_with_io_ok: "keeps protocol_ok (with_io m)"
  by (simp add: keeps_def with_io_def protocol_ok_def split: prod.split)

lemma keeps_with_chunk_ok:
  assumes "keeps (\<lambda>s. chunk_ok (fst s)) m"
  shows "keeps protocol_ok (with_chunk cid m)"
  unfolding keeps_def
proof (intro allI impI)
  fix s assume ok: "protocol_ok s"
  obtain r c b k where m: "m (chunk_of s cid, (buffer s, skt s)) = (r, (c, (b, k)))" by (metis prod.collapse)
  then have "chunk_ok c" using keepsD [OF assms _ m] chunk_ok_of [OF ok] by simp
  with ok m show "protocol_ok (snd (with_chunk cid m s))"
    by (simp add: with_chunk_def protocol_ok_def)
qed

lemma keeps_with_io_input: "(\<And>xs. keeps (same_stream xs) m) \<Longrightarrow> keeps (\<lambda>s. protocol_input s = xs) (with_io m)"
  unfolding keeps_def with_io_def protocol_input_def
  by (auto split: prod.split) (metis snd_conv)

lemma keeps_with_chunk_input:
  assumes "\<And>xs. keeps (\<lambda>s. same_stream xs (snd s)) m"
  shows "keeps (\<lambda>s. protocol_input s = xs) (with_chunk cid m)"
  unfolding keeps_def
proof (intro allI impI)
  fix s assume "protocol_input s = xs"
  obtain r c b k where m: "m (chunk_of s cid, (buffer s, skt s)) = (r, (c, (b, k)))" by (metis prod.collapse)
  with keepsD [OF assms _ m, of xs] \<open>protocol_input s = xs\<close>
  show "protocol_input (snd (with_chunk cid m s)) = xs"
    by (simp add: with_chunk_def protocol_input_def)
qed

lemma consumes_with_chunk:
  assumes "consumes chunk_input m"
  shows "consumes protocol_input (with_chunk cid m)"
  unfolding consumes_def
proof (intro allI impI)
  fix s r s' assume run: "with_chunk cid m s = (r, s')"
  obtain r' c b k where m: "m (chunk_of s cid, (buffer s, skt s)) = (r', (c, (b, k)))" by (metis prod.collapse)
  with consumesD [OF assms m] run show "case r of Inl e \<Rightarrow> protocol_input s' = protocol_input s
      | Inr x \<Rightarrow> length (protocol_input s') < length (protocol_input s)"
    by (auto simp: with_chunk_def protocol_input_def split: sum.splits)
qed

lemma keeps_recv_interlaced: "keeps protocol_ok recv_interlaced_message"
  unfolding recv_interlaced_message_def
  by (auto intro!: keeps_intro keeps_with_io_ok keeps_with_chunk_ok keeps_header keeps_payload
      split: prod.split)

lemma with_io_result: "with_io m s = (Inr x, t) \<Longrightarrow> \<exists>io'. m (buffer s, skt s) = (Inr x, io')"
  by (auto simp: with_io_def split: prod.splits)

lemma with_chunk_result:
  "with_chunk cid m s = (Inr x, t) \<Longrightarrow> \<exists>io'. m (chunk_of s cid, (buffer s, skt s)) = (Inr x, io')"
  by (auto simp: with_chunk_def split: prod.splits)

lemma recv_interlaced_consumes: "consumes protocol_input recv_interlaced_message"
  unfolding recv_interlaced_message_def
proof (rule consumes_bind_keeps)
  show "keeps (\<lambda>s. protocol_input s = xs) (with_io read_basic_header)" for xs
    by (rule keeps_with_io_input) (rule keeps_basic_header)
  fix x s t assume "with_io read_basic_header s = (Inr x, t)"
  then obtain fmt cid bh_size where x: "x = (fmt, cid, bh_size)" "1 \<le> bh_size" "fmt < 4"
    using with_io_result basic_header_size by (metis prod.collapse)
  have "consumes protocol_input (bind (with_chunk cid (read_message_header fmt bh_size)) (\<lambda>mh_size.
      bind (get in_chunk_size) (\<lambda>in_chunk. with_chunk cid (read_message_payload in_chunk bh_size mh_size))))"
  proof (rule consumes_bind_keeps)
    show "keeps (\<lambda>s. protocol_input s = xs) (with_chunk cid (read_message_header fmt bh_size))" for xs
      by (rule keeps_with_chunk_input) (rule keeps_header_stream)
    fix mh s t assume "with_chunk cid (read_message_header fmt bh_size) s = (Inr mh, t)"
    then have "0 \<le> mh" using with_chunk_result header_size x(3) by metis
    then show "consumes protocol_input (bind (get in_chunk_size) (\<lambda>in_chunk.
        with_chunk cid (read_message_payload in_chunk bh_size mh)))"
      by (intro consumes_bind_keeps keeps_intro consumes_with_chunk payload_consumes x(2))
  qed
  then show "consumes protocol_input (case x of (fmt, cid, bh_size) \<Rightarrow>
      bind (with_chunk cid (read_message_header fmt bh_size)) (\<lambda>mh_size.
      bind (get in_chunk_size) (\<lambda>in_chunk. with_chunk cid (read_message_payload in_chunk bh_size mh_size))))"
    by (simp add: x(1))
qed

text \<open>Applying a control message keeps the chunk size at least the minimum.\<close>

lemma decode_set_chunk_size:
  assumes "common_decode_packet msg = (Inr (), m)" and "msg_packet msg = None"
    and "message_type (msg_header msg) = RTMP_MSG_SetChunkSize" and "msg_packet m = Some (RssSetChunkSizePacket v)"
  shows "RTMP_MIN_CHUNK_SIZE \<le> sint v"
proof -
  from assms(1,2,4) obtain s where "bind (stream_initialize (msg_payload msg) (msg_size msg))
      (\<lambda>_. decode_by_header (msg_header msg)) stream_new = (Inr (RssSetChunkSizePacket v), s)"
    by (auto simp: common_decode_packet_def split: if_splits prod.splits sum.splits)
  then obtain t where "decode_SetChunkSizePacket t = (Inr (RssSetChunkSizePacket v), s)"
    using assms(3) by (auto simp: decode_by_header_def header_is_defs elim!: bind_cases)
  then show ?thesis using decode_SetChunkSize_bound by blast
qed

lemma on_recv_ok:
  assumes "protocol_ok s" and "msg_packet msg = None" and "on_recv_message msg s = (r, s')"
  shows "protocol_ok s' \<and> protocol_input s' = protocol_input s"
proof -
  obtain d m where d: "common_decode_packet msg = (d, m)" by fastforce
  show ?thesis
    using assms d decode_set_chunk_size [OF _ assms(2), of m]
    by (auto simp: on_recv_message_def Let_def protocol_ok_def protocol_input_def
        split: sum.splits if_splits option.splits RssPacket.splits)
qed

section \<open>Delivered messages\<close>

abbreviation gives :: "('s \<Rightarrow> bool) \<Rightarrow> ('s, 'a) comp \<Rightarrow> ('a \<Rightarrow> bool) \<Rightarrow> bool" where
  "gives P m Q \<equiv> hoare P m (\<lambda>x _. Q x) (\<lambda>_ _. True)"

lemma gives_bind_keeps:
  assumes "keeps P m" and "\<And>x. gives P (f x) Q"
  shows "gives P (bind m f) Q"
  by (rule hoare_bind [where R = "\<lambda>_. P"], rule hoareI)
    (use assms in \<open>auto dest: keepsD\<close>)

lemma gives_if: "gives P m Q \<Longrightarrow> gives P n Q \<Longrightarrow> gives P (if b then m else n) Q"
  by simp

abbreviation delivers_ok :: "RssCommonMessage option \<Rightarrow> bool" where
  "delivers_ok x \<equiv> (\<forall>m. x = Some m \<longrightarrow> msg_ok m)"

lemma gives_take_message: "gives (\<lambda>s. chunk_ok (fst s)) take_message delivers_ok"
  by (auto simp: hoare_def take_message_def chunk_ok_def)

lemma gives_store:
  assumes "\<And>m'. gives (\<lambda>s. chunk_ok (fst s)) (f m') Q"
  shows "gives (\<lambda>s. chunk_ok (fst s)) (bind (get (\<lambda>s. chunk_partial_msg (fst s))) (\<lambda>m.
     bind (lift_res (store_payload src m)) (\<lambda>m'. bind (on_chunk (\<lambda>c. c\<lparr>chunk_msg := Some m'\<rparr>)) (\<lambda>_. f m')))) Q"
proof (rule hoareI)
  fix s :: chunk_io and x s'
  assume ok: "chunk_ok (fst s)" and run: "bind (get (\<lambda>s. chunk_partial_msg (fst s))) (\<lambda>m.
     bind (lift_res (store_payload src m)) (\<lambda>m'. bind (on_chunk (\<lambda>c. c\<lparr>chunk_msg := Some m'\<rparr>)) (\<lambda>_. f m'))) s = (Inr x, s')"
  obtain c b k where s: "s = (c, (b, k))" by (cases s)
  from run s obtain m' where m': "store_payload src (chunk_partial_msg c) = Inr m'"
    "f m' (c\<lparr>chunk_msg := Some m'\<rparr>, (b, k)) = (Inr x, s')"
    by (auto elim!: bind_cases)
  have "msg_ok (chunk_partial_msg c)" using ok s by (simp add: partial_ok)
  then have "chunk_ok (c\<lparr>chunk_msg := Some m'\<rparr>)"
    using ok s m'(1) by (simp add: chunk_ok_def store_payload_ok)
  with hoareD_Inr [OF assms _ m'(2)] show "Q x" by simp
qed simp

lemma gives_payload:
  "gives (\<lambda>s. chunk_ok (fst s)) (read_message_payload in_chunk bh_size mh_size) delivers_ok"
proof -
  have fin: "gives (\<lambda>s. chunk_ok (fst s)) (if b then take_message else return None) delivers_ok" for b
    using gives_take_message by (simp add: hoare_def)
  have err: "gives P (fail e) Q" for P :: "'s \<Rightarrow> bool" and e and Q :: "'a \<Rightarrow> bool"
    by (simp add: hoare_def)
  have alloc: "keeps (\<lambda>s. chunk_ok (fst s)) (on_chunk (\<lambda>c. c\<lparr>chunk_msg := map_option (\<lambda>m.
      if msg_payload m = None then m\<lparr>msg_payload := Some (replicate n 0)\<rparr> else m) (chunk_msg c)\<rparr>))" for n
    by (rule keeps_on_chunk_fst) (auto simp: chunk_ok_def msg_ok_def)
  show ?thesis
    unfolding read_message_payload_def Let_def
    by (intro gives_store gives_take_message fin err gives_if gives_bind_keeps alloc keeps_intro)
qed

lemma delivered_ok:
  assumes "protocol_ok s" and "recv_interlaced_message s = (Inr (Some msg), s')"
  shows "msg_ok msg"
proof -
  obtain fmt cid bh_size s1 where s1: "with_io read_basic_header s = (Inr (fmt, cid, bh_size), s1)"
    "bind (with_chunk cid (read_message_header fmt bh_size)) (\<lambda>mh_size.
      bind (get in_chunk_size) (\<lambda>in_chunk. with_chunk cid (read_message_payload in_chunk bh_size mh_size))) s1
     = (Inr (Some msg), s')"
    using assms(2) by (auto simp: recv_interlaced_message_def elim!: bind_cases)
  then obtain mh s2 where s2: "with_chunk cid (read_message_header fmt bh_size) s1 = (Inr mh, s2)"
    "with_chunk cid (read_message_payload (in_chunk_size s2) bh_size mh) s2 = (Inr (Some msg), s')"
    by (auto elim!: bind_cases)
  have "protocol_ok s2"
    using keepsD [OF keeps_with_io_ok assms(1) s1(1)] keepsD [OF keeps_with_chunk_ok [OF keeps_header] _ s2(1)] by blast
  then have "chunk_ok (chunk_of s2 cid)" by (rule chunk_ok_of)
  with with_chunk_result [OF s2(2)] hoareD_Inr [OF gives_payload] show ?thesis by fastforce
qed

section \<open>The receiving loop ends\<close>

definition fuel_free :: "('s, 'a) comp \<Rightarrow> bool" where
  "fuel_free m \<longleftrightarrow> (\<forall>s. fst (m s) \<noteq> Inl OutOfFuel)"

named_theorems fuel_free_intro \<open>computations without fuel\<close>

lemma fuel_freeI: "(\<And>s t. m s \<noteq> (Inl OutOfFuel, t)) \<Longrightarrow> fuel_free m"
  unfolding fuel_free_def by (metis prod.collapse)

lemma fuel_freeD: "fuel_free m \<Longrightarrow> m s \<noteq> (Inl OutOfFuel, t)"
  unfolding fuel_free_def by (metis fst_conv)

lemma fuel_free_bind [fuel_free_intro]:
  assumes "fuel_free m" and "\<And>x. fuel_free (f x)"
  shows "fuel_free (bind m f)"
proof (rule fuel_freeI)
  fix s t
  show "bind m f s \<noteq> (Inl OutOfFuel, t)"
  proof
    assume "bind m f s = (Inl OutOfFuel, t)"
    then show False
      by (cases rule: bind_cases) (use assms in \<open>auto dest: fuel_freeD\<close>)
  qed
qed

lemma fuel_free_basic [fuel_free_intro]:
  "fuel_free (return x)" "fuel_free (fail (Code c))" "fuel_free (fail AssertFailed)" "fuel_free (get f)"
  "fuel_free (modify g)" "fuel_free (ensure p c)" "fuel_free (assert b)" "r \<noteq> Inl OutOfFuel \<Longrightarrow> fuel_free (lift_res r)"
  by (auto simp: fuel_free_def ensure_def assert_def)

lemma fuel_free_if [fuel_free_intro]: "fuel_free m \<Longrightarrow> fuel_free n \<Longrightarrow> fuel_free (if b then m else n)"
  by simp

lemma fuel_free_let [fuel_free_intro]: "(\<And>x. fuel_free (f x)) \<Longrightarrow> fuel_free (Let x f)"
  by (simp add: Let_def)

lemma fuel_free_parts [fuel_free_intro]:
  "fuel_free m \<Longrightarrow> fuel_free (on_snd m)" "fuel_free (on_chunk f)"
  "fuel_free n \<Longrightarrow> fuel_free (with_io n)" "fuel_free k \<Longrightarrow> fuel_free (with_chunk cid k)"
  by (auto simp: fuel_free_def on_snd_def on_chunk_def with_io_def with_chunk_def split: prod.split)
    (metis fst_conv)+

lemma fuel_free_ensure [fuel_free_intro]: "fuel_free (ensure_buffer_bytes n)"
proof (rule fuel_freeI)
  fix s t
  show "ensure_buffer_bytes n s \<noteq> (Inl OutOfFuel, t)"
    using ensure_error [of n s OutOfFuel t] by (cases "0 \<le> n") (auto simp: ensure_buffer_bytes_def)
qed

lemma fuel_free_buffer [fuel_free_intro]:
  "fuel_free buffer_bytes" "fuel_free (buffer_deref q)" "fuel_free (buffer_copy q n)" "fuel_free (buffer_erase n)"
  by (auto simp: fuel_free_def buffer_bytes_def buffer_deref_def buffer_copy_def buffer_erase_def)

lemma fuel_free_load_bytes [fuel_free_intro]: "fuel_free (load_bytes q n)"
  by (induction n arbitrary: q) (auto intro!: fuel_free_intro)

lemma fuel_free_store [fuel_free_intro]: "fuel_free (lift_res (store_payload src m))"
  by (auto simp: fuel_free_def store_payload_def split: option.split)

lemma fuel_free_load_byte [fuel_free_intro]: "fuel_free load_byte"
  by (auto simp: fuel_free_def load_byte_def split: option.split)

lemma fuel_free_read_4bytes [fuel_free_intro]: "fuel_free read_4bytes"
  unfolding read_4bytes_def assert_require_def by (intro fuel_free_intro)

lemma recv_interlaced_fuel: "fuel_free recv_interlaced_message"
proof -
  have "fuel_free read_basic_header"
    unfolding read_basic_header_def by (intro fuel_free_intro)
  moreover have "fuel_free (read_message_header fmt bh_size)" for fmt bh_size
    unfolding read_message_header_def parse_message_header_def by (intro fuel_free_intro)
  moreover have "fuel_free (read_message_payload in_chunk bh_size mh_size)" for in_chunk bh_size mh_size
    unfolding read_message_payload_def take_message_def by (intro fuel_free_intro)
  ultimately show ?thesis
    unfolding recv_interlaced_message_def by (auto intro!: fuel_free_intro split: prod.split)
qed

lemma control_decode_fuel:
  assumes "header_is_set_chunk_size h \<or> header_is_window_ackledgement_size h"
  shows "fuel_free (decode_by_header h)"
proof -
  have "fuel_free decode_SetChunkSizePacket" "fuel_free decode_SetWindowAckSizePacket"
    unfolding decode_SetChunkSizePacket_def decode_SetWindowAckSizePacket_def by (intro fuel_free_intro)+
  with assms show ?thesis by (auto simp: decode_by_header_def header_is_defs)
qed

lemma on_recv_fuel: "fst (on_recv_message msg s) \<noteq> Inl OutOfFuel"
proof (cases "not_control (msg_header msg)")
  case True
  then show ?thesis by (simp add: on_recv_not_control)
next
  case False
  then have "fuel_free (bind (stream_initialize pl n) (\<lambda>_. decode_by_header (msg_header msg)))" for pl n
    unfolding stream_initialize_def
    by (intro fuel_free_intro control_decode_fuel) (auto simp: not_control_def header_is_defs)
  then have "fst (common_decode_packet msg) \<noteq> Inl OutOfFuel"
    by (auto simp: common_decode_packet_def fuel_free_def split: prod.split sum.split) (metis fst_conv)+
  then show ?thesis
    by (auto simp: on_recv_message_def Let_def split: sum.splits prod.splits option.splits RssPacket.splits)
qed

lemma recv_message_loop_safe:
  "protocol_ok s \<Longrightarrow> length (protocol_input s) < n \<Longrightarrow> recv_message_loop n s = (r, s') \<Longrightarrow>
   r \<noteq> Inl OutOfFuel \<and> protocol_ok s' \<and> length (protocol_input s') \<le> length (protocol_input s) \<and>
   (\<forall>m. r = Inr m \<longrightarrow> length (protocol_input s') < length (protocol_input s))"
proof (induction n arbitrary: s)
  case 0
  then show ?case by simp
next
  case (Suc n)
  obtain r1 s1 where s1: "recv_interlaced_message s = (r1, s1)" by fastforce
  have ok1: "protocol_ok s1" using keepsD [OF keeps_recv_interlaced Suc.prems(1) s1] .
  note used = consumesD [OF recv_interlaced_consumes s1]
  show ?case
  proof (cases r1)
    case (Inl e)
    moreover have "e \<noteq> OutOfFuel" using fuel_freeD [OF recv_interlaced_fuel] s1 Inl by auto
    ultimately show ?thesis using Suc.prems(3) s1 ok1 used by auto
  next
    case (Inr p)
    with used Suc.prems(2) have less: "length (protocol_input s1) < length (protocol_input s)"
      "length (protocol_input s1) < n" by auto
    show ?thesis
    proof (cases "\<exists>msg. p = Some msg \<and> \<not> (msg_size msg \<le> 0 \<or> sint (payload_length (msg_header msg)) \<le> 0)")
      case True
      then obtain msg where msg: "p = Some msg" "on_recv_message msg s1 = (r, s')"
        using Suc.prems(3) s1 Inr by auto
      have "msg_packet msg = None"
        using delivered_ok [OF Suc.prems(1)] s1 Inr msg(1) by (simp add: msg_ok_def)
      from on_recv_ok [OF ok1 this msg(2)] on_recv_fuel [of msg s1] msg(2) less show ?thesis by auto
    next
      case False
      then have "recv_message_loop n s1 = (r, s')"
        using Suc.prems(3) s1 Inr by (auto split: option.splits if_splits)
      from Suc.IH [OF ok1 less(2) this] less show ?thesis by auto
    qed
  qed
qed

lemma recv_message_safe:
  assumes "protocol_ok s" and "recv_message s = (r, s')"
  shows "r \<noteq> Inl OutOfFuel \<and> protocol_ok s' \<and> length (protocol_input s') \<le> length (protocol_input s) \<and>
   (\<forall>m. r = Inr m \<longrightarrow> length (protocol_input s') < length (protocol_input s))"
  using recv_message_loop_safe [OF assms(1), of "length (protocol_input s) + 1" r s'] assms(2)
  by (simp add: recv_message_def del: recv_message_loop.simps)

text \<open>A received message has its payload, at least one byte of it.\<close>

definition has_payload :: "RssCommonMessage \<Rightarrow> bool" where
  "has_payload m \<longleftrightarrow> (\<exists>arr. msg_payload m = Some arr \<and> 0 < msg_size m \<and> msg_size m \<le> int (length arr))"

text \<open>Only control messages have been decoded when they are delivered.\<close>

definition undecoded :: "RssCommonMessage \<Rightarrow> bool" where
  "undecoded m \<longleftrightarrow> (not_control (msg_header m) \<longrightarrow> msg_packet m = None)"

lemma on_recv_undecoded:
  assumes "on_recv_message msg s = (Inr m, s')" and "msg_packet msg = None"
  shows "undecoded m"
proof -
  obtain d k where d: "common_decode_packet msg = (d, k)" by fastforce
  have "msg_header k = msg_header msg"
    using d by (auto simp: common_decode_packet_def split: if_splits prod.splits sum.splits)
  with assms d show ?thesis
    by (auto simp: on_recv_message_def Let_def undecoded_def not_control_def
      split: sum.splits if_splits option.splits RssPacket.splits)
qed

lemma on_recv_payload:
  assumes "on_recv_message msg s = (Inr m, s')" and "has_payload msg"
  shows "has_payload m"
proof -
  obtain d k where d: "common_decode_packet msg = (d, k)" by fastforce
  have "msg_payload k = msg_payload msg \<and> msg_size k = msg_size msg"
    using d by (auto simp: common_decode_packet_def split: if_splits prod.splits sum.splits)
  with assms d show ?thesis
    by (auto simp: on_recv_message_def Let_def has_payload_def
      split: sum.splits if_splits option.splits RssPacket.splits)
qed

lemma recv_message_loop_payload:
  "protocol_ok s \<Longrightarrow> recv_message_loop n s = (Inr m, s') \<Longrightarrow> has_payload m \<and> undecoded m"
proof (induction n arbitrary: s)
  case 0
  then show ?case by simp
next
  case (Suc n)
  obtain r1 s1 where s1: "recv_interlaced_message s = (r1, s1)" by fastforce
  have ok1: "protocol_ok s1" using keepsD [OF keeps_recv_interlaced Suc.prems(1) s1] .
  show ?case
  proof (cases "\<exists>msg. r1 = Inr (Some msg) \<and> \<not> (msg_size msg \<le> 0 \<or> sint (payload_length (msg_header msg)) \<le> 0)")
    case True
    then obtain msg where msg: "r1 = Inr (Some msg)" "0 < msg_size msg" "on_recv_message msg s1 = (Inr m, s')"
      using Suc.prems(2) s1 by auto
    have "has_payload msg"
      using delivered_ok [OF Suc.prems(1)] s1 msg(1,2) by (auto simp: msg_ok_def has_payload_def split: option.splits)
    moreover have "msg_packet msg = None"
      using delivered_ok [OF Suc.prems(1)] s1 msg(1) by (simp add: msg_ok_def)
    ultimately show ?thesis using on_recv_payload [OF msg(3)] on_recv_undecoded [OF msg(3)] by blast
  next
    case False
    then have "recv_message_loop n s1 = (Inr m, s')"
      using Suc.prems(2) s1 by (cases r1) (auto split: option.splits if_splits)
    from Suc.IH [OF ok1 this] show ?thesis .
  qed
qed

text \<open>Receiving does not change the size of outgoing chunks.\<close>

lemma keeps_out_chunk_size:
  "keeps (\<lambda>s. out_chunk_size s = n) recv_message"
proof -
  have parts: "keeps (\<lambda>s. out_chunk_size s = n) (with_io m)" "keeps (\<lambda>s. out_chunk_size s = n) (with_chunk cid m')"
    for m :: "(rss_io, 'b) comp" and cid and m' :: "(chunk_io, 'c) comp"
    by (simp_all add: keeps_def with_io_def with_chunk_def split: prod.split)
  have inter: "keeps (\<lambda>s. out_chunk_size s = n) recv_interlaced_message"
    unfolding recv_interlaced_message_def
    by (intro keeps_intro parts) (auto intro!: keeps_intro parts split: prod.split)
  have recv: "keeps (\<lambda>s. out_chunk_size s = n) (on_recv_message msg)" for msg
    by (auto simp: keeps_def on_recv_message_def Let_def bind_def split: sum.splits prod.splits option.splits
      RssPacket.splits if_splits)
  have "keeps (\<lambda>s. out_chunk_size s = n) (recv_message_loop k)" for k
  proof (induction k)
    case (Suc k)
    then show ?case
      unfolding recv_message_loop.simps
      by (intro keeps_bind inter) (auto intro: recv keeps_intro split: option.split)
  qed (simp add: keeps_def)
  then show ?thesis by (simp add: keeps_def recv_message_def del: recv_message_loop.simps)
qed

text \<open>Receiving sends nothing.\<close>

abbreviation unsent :: "byte list \<Rightarrow> rss_io \<Rightarrow> bool" where
  "unsent xs s \<equiv> sock_sent (snd s) = xs"

lemma unsent_ops:
  "keeps (unsent xs) (ensure_buffer_bytes n)" "keeps (unsent xs) buffer_bytes" "keeps (unsent xs) (buffer_deref q)"
  "keeps (unsent xs) (buffer_copy q n)" "keeps (unsent xs) (buffer_erase n)"
proof -
  show "keeps (unsent xs) (ensure_buffer_bytes n)"
    using ensure_loop_stream [OF surjective_pairing] by (simp add: keeps_def ensure_buffer_bytes_def)
qed (simp_all add: keeps_def buffer_bytes_def buffer_deref_def buffer_copy_def buffer_erase_def)

lemma unsent_load: "keeps (unsent xs) (load_bytes q n)"
  by (induction n arbitrary: q) (auto intro!: keeps_intro unsent_ops)

lemmas unsent_chunk = unsent_ops [THEN keeps_on_snd_snd] unsent_load [THEN keeps_on_snd_snd]

lemma keeps_sent: "keeps (\<lambda>s. protocol_sent s = xs) recv_message"
proof -
  have io: "keeps (unsent xs) m \<Longrightarrow> keeps (\<lambda>s. protocol_sent s = xs) (with_io m)" for m :: "(rss_io, 'b) comp"
    by (auto simp: keeps_def with_io_def protocol_sent_def split: prod.split) (metis snd_conv)
  have ch: "keeps (\<lambda>s. unsent xs (snd s)) m \<Longrightarrow> keeps (\<lambda>s. protocol_sent s = xs) (with_chunk cid m)"
    for m :: "(chunk_io, 'c) comp" and cid
    by (auto simp: keeps_def with_chunk_def protocol_sent_def split: prod.split) (metis snd_conv)
  have basic: "keeps (unsent xs) read_basic_header"
    unfolding read_basic_header_def by (intro keeps_intro unsent_ops)
  have header: "keeps (\<lambda>s. unsent xs (snd s)) (read_message_header fmt bh)" for fmt bh
    unfolding read_message_header_def parse_message_header_def by (intro keeps_intro unsent_chunk)
  have payload: "keeps (\<lambda>s. unsent xs (snd s)) (read_message_payload n bh mh)" for n bh mh
    unfolding read_message_payload_def take_message_def by (intro keeps_intro unsent_chunk)
  have inter: "keeps (\<lambda>s. protocol_sent s = xs) recv_interlaced_message"
    unfolding recv_interlaced_message_def
    by (intro keeps_intro io ch basic) (auto intro!: keeps_intro io ch header payload split: prod.split)
  have recv: "keeps (\<lambda>s. protocol_sent s = xs) (on_recv_message msg)" for msg
    by (auto simp: keeps_def on_recv_message_def Let_def bind_def protocol_sent_def
      split: sum.splits prod.splits option.splits RssPacket.splits if_splits)
  have "keeps (\<lambda>s. protocol_sent s = xs) (recv_message_loop k)" for k
  proof (induction k)
    case (Suc k)
    then show ?case
      unfolding recv_message_loop.simps
      by (intro keeps_bind inter) (auto intro: recv keeps_intro split: option.split)
  qed (simp add: keeps_def)
  then show ?thesis by (simp add: keeps_def recv_message_def del: recv_message_loop.simps)
qed

section \<open>Receiving until something is found\<close>

text \<open>
  What a client of the protocol relies on when it receives in a loop: a call keeps the invariant
  and returns, and a message it delivers is well formed and has shortened the input.
\<close>

locale message_input =
  fixes recv :: "('s, 'm) comp"
    and inv :: "'s \<Rightarrow> bool"
    and todo :: "'s \<Rightarrow> nat"
    and good :: "'m \<Rightarrow> bool"
  assumes recv_inv: "inv s \<Longrightarrow> recv s = (r, s') \<Longrightarrow> inv s'"
    and recv_todo: "inv s \<Longrightarrow> recv s = (r, s') \<Longrightarrow> todo s' \<le> todo s"
    and recv_less: "inv s \<Longrightarrow> recv s = (Inr m, s') \<Longrightarrow> todo s' < todo s"
    and recv_good: "inv s \<Longrightarrow> recv s = (Inr m, s') \<Longrightarrow> good m"
    and recv_fuel: "inv s \<Longrightarrow> recv s = (r, s') \<Longrightarrow> r \<noteq> Inl OutOfFuel"

text \<open>The loop: \<open>f\<close> gives up, skips the message, or has found what it looks for.\<close>

fun scan :: "('s, 'm) comp \<Rightarrow> ('m \<Rightarrow> 'x option res) \<Rightarrow> nat \<Rightarrow> ('s, 'x) comp" where
  "scan recv f 0 = fail OutOfFuel"
| "scan recv f (Suc n) =
     bind recv (\<lambda>m. case f m of Inl e \<Rightarrow> fail e | Inr None \<Rightarrow> scan recv f n | Inr (Some x) \<Rightarrow> return x)"

context message_input
begin

lemma scan_safe:
  assumes "\<And>m. good m \<Longrightarrow> f m \<noteq> Inl OutOfFuel"
  shows "inv s \<Longrightarrow> todo s < n \<Longrightarrow> scan recv f n s = (r, s') \<Longrightarrow>
    r \<noteq> Inl OutOfFuel \<and> inv s' \<and> todo s' \<le> todo s \<and>
    (\<forall>x. r = Inr x \<longrightarrow> todo s' < todo s \<and> (\<exists>m. good m \<and> f m = Inr (Some x)))"
proof (induction n arbitrary: s)
  case 0
  then show ?case by simp
next
  case (Suc n)
  obtain r1 s1 where s1: "recv s = (r1, s1)" by fastforce
  note step = recv_inv [OF Suc.prems(1) s1] recv_todo [OF Suc.prems(1) s1] recv_fuel [OF Suc.prems(1) s1]
  show ?case
  proof (cases r1)
    case (Inl e)
    with s1 step Suc.prems(3) show ?thesis by auto
  next
    case (Inr m)
    with s1 have less: "todo s1 < todo s" and good: "good m"
      using recv_less [OF Suc.prems(1)] recv_good [OF Suc.prems(1)] by auto
    show ?thesis
    proof (cases "f m = Inr None")
      case True
      with Inr s1 Suc.prems(3) have "scan recv f n s1 = (r, s')" by simp
      from Suc.IH [OF step(1) _ this] less Suc.prems(2) show ?thesis by auto
    next
      case False
      with Inr s1 Suc.prems(3) step less good assms [OF good] show ?thesis
        by (auto split: sum.splits option.splits)
    qed
  qed
qed

end

text \<open>The invariant of a whole session: outgoing chunks are not empty either.\<close>

definition session_ok :: "RssProtocol \<Rightarrow> bool" where
  "session_ok s \<longleftrightarrow> protocol_ok s \<and> 0 < out_chunk_size s"

lemma session_ok_new: "session_ok (protocol_new net)"
  by (simp add: session_ok_def protocol_ok_new) (simp add: protocol_new_def)

interpretation rx: message_input recv_message session_ok "\<lambda>s. length (protocol_input s)"
  "\<lambda>m. has_payload m \<and> undecoded m"
proof
  fix s r s'
  assume "session_ok s" and run: "recv_message s = (r, s')"
  then have ok: "protocol_ok s" "0 < out_chunk_size s" by (simp_all add: session_ok_def)
  have "out_chunk_size s' = out_chunk_size s" using keepsD [OF keeps_out_chunk_size _ run] by simp
  with recv_message_safe [OF ok(1) run] ok(2) show "session_ok s'" by (simp add: session_ok_def)
  show "length (protocol_input s') \<le> length (protocol_input s)" "r \<noteq> Inl OutOfFuel"
    using recv_message_safe [OF ok(1) run] by auto
next
  fix s m s'
  assume "session_ok s" and run: "recv_message s = (Inr m, s')"
  then have ok: "protocol_ok s" by (simp add: session_ok_def)
  show "length (protocol_input s') < length (protocol_input s)" using recv_message_safe [OF ok run] by auto
  show "has_payload m \<and> undecoded m" using recv_message_loop_payload [OF ok] run unfolding recv_message_def by blast
qed

text \<open>Decoding a received message never aborts.\<close>

lemma decode_received:
  assumes "has_payload m" and "common_decode_packet m = (r, m')"
  shows "(\<exists>c. r = Inl (Code c)) \<and> m' = m \<or> (\<exists>pkt. r = Inr () \<and> m' = m\<lparr>msg_packet := Some pkt\<rparr>)"
  using assms common_decode_packet_safe unfolding has_payload_def by blast

text \<open>\<^verbatim>\<open>rss_rtmp_expect_message\<close> is such a loop.\<close>

definition expected :: "(RssPacket \<Rightarrow> bool) \<Rightarrow> RssCommonMessage \<Rightarrow> RssCommonMessage option res" where
  "expected want msg =
     (case common_decode_packet msg of
        (Inl e, _) \<Rightarrow> Inl e
      | (Inr _, m) \<Rightarrow>
          (case msg_packet m of
             None \<Rightarrow> Inl AssertFailed
           | Some pkt \<Rightarrow> Inr (if want pkt then Some m else None)))"

lemma expect_message_scan: "expect_message_loop n want = scan recv_message (expected want) n"
proof (induction n)
  case (Suc n)
  then show ?case
    by (auto simp: expected_def intro!: arg_cong [of _ _ "bind recv_message"] split: prod.split sum.split option.split)
qed simp

lemma expected_found:
  assumes "has_payload m" and "expected want m = Inr (Some x)"
  shows "has_payload x \<and> (\<exists>pkt. msg_packet x = Some pkt \<and> want pkt)"
proof -
  obtain d k where d: "common_decode_packet m = (d, k)" by fastforce
  with assms decode_received [OF assms(1) d] show ?thesis
    by (auto simp: expected_def has_payload_def split: if_splits)
qed

lemma expect_message_safe:
  assumes "session_ok s" and "expect_message want s = (r, s')"
  shows "r \<noteq> Inl OutOfFuel \<and> session_ok s' \<and> length (protocol_input s') \<le> length (protocol_input s) \<and>
    (\<forall>m. r = Inr m \<longrightarrow> (\<exists>pkt. msg_packet m = Some pkt \<and> want pkt))"
proof -
  have f: "expected want m \<noteq> Inl OutOfFuel" if "has_payload m" for m
    using decode_received [OF that] by (auto simp: expected_def split: prod.split sum.split option.split)
  have "scan recv_message (expected want) (length (protocol_input s) + 1) s = (r, s')"
    using assms(2) by (simp add: expect_message_def expect_message_scan del: scan.simps expect_message_loop.simps)
  from rx.scan_safe [of "expected want", OF _ assms(1) _ this] f expected_found show ?thesis by auto
qed

end
