(* ===== verification/Rss_Rtmp.thy ===== *)
theory Rss_Rtmp
  imports Rss_Protocol_Safe
begin

text \<open>
  The RTMP command layer (\<^verbatim>\<open>rss_core_rtmp.cpp\<close>): the request with its tcUrl, the handshake, and the
  exchanges of packets that connect a client, find out what it wants and start playing or
  publishing. \<^verbatim>\<open>RssRtmp\<close> owns the protocol and the descriptor the protocol's socket also uses, so
  its state is the state of the protocol. \<open>heap n\<close> is the content of \<open>n\<close> bytes of fresh memory.
\<close>

section \<open>Requests\<close>

record RssRequest =
  tcUrl :: string
  pageUrl :: string
  swfUrl :: string
  objectEncoding :: dbl
  schema :: string
  vhost :: string
  port :: string
  app :: string
  stream :: string

definition request_new :: RssRequest where
  "request_new = \<lparr>tcUrl = [], pageUrl = [], swfUrl = [], objectEncoding = double_0, schema = [], vhost = [],
     port = [], app = [], stream = []\<rparr>"

text \<open>\<^verbatim>\<open>std::string::find\<close>: the first position of a substring.\<close>

fun find_sub :: "string \<Rightarrow> string \<Rightarrow> nat option" where
  "find_sub pat [] = (if pat = [] then Some 0 else None)"
| "find_sub pat (c # cs) =
     (if take (length pat) (c # cs) = pat then Some 0 else map_option Suc (find_sub pat cs))"

definition discovery_app :: "(RssRequest, unit) comp" where
  "discovery_app =
     bind (get tcUrl) (\<lambda>url0.
     bind (case find_sub ''://'' url0 of
             Some pos \<Rightarrow> bind (modify (schema_update (\<lambda>_. take pos url0))) (\<lambda>_. return (drop (pos + 3) url0))
           | None \<Rightarrow> return url0) (\<lambda>url1.
     bind (case find_sub ''/'' url1 of
             Some pos \<Rightarrow> bind (modify (vhost_update (\<lambda>_. take pos url1))) (\<lambda>_. return (drop (pos + 1) url1))
           | None \<Rightarrow> return url1) (\<lambda>url2.
     bind (modify (port_update (\<lambda>_. ''1935''))) (\<lambda>_.
     bind (get vhost) (\<lambda>vh.
     bind (case find_sub '':'' vh of
             Some pos \<Rightarrow> modify (\<lambda>r. r\<lparr>port := drop (pos + 1) vh, vhost := take pos vh\<rparr>)
           | None \<Rightarrow> return ()) (\<lambda>_.
     bind (modify (app_update (\<lambda>_. url2))) (\<lambda>_.
     ensure (\<lambda>r. \<not> (schema r = [] \<or> vhost r = [] \<or> port r = [] \<or> app r = [])) ERROR_RTMP_REQ_TCURL)))))))"

definition get_stream_url :: "RssRequest \<Rightarrow> string" where
  "get_stream_url req = ''/'' @ app req @ ''/'' @ stream req"

section \<open>Numbers\<close>

text \<open>An \<^verbatim>\<open>int\<close> converted to \<^verbatim>\<open>double\<close>: exact, since an \<^verbatim>\<open>int\<close> has fewer than 53 bits.\<close>

fun floor_log2 :: "nat \<Rightarrow> nat" where
  "floor_log2 n = (if n < 2 then 0 else 1 + floor_log2 (n div 2))"

definition double_of_int :: "int \<Rightarrow> dbl" where
  "double_of_int n =
     (if n = 0 then double_0
      else let a = nat \<bar>n\<bar>; e = floor_log2 a in
        (if n < 0 then push_bit 63 1 else 0) + push_bit 52 (word_of_nat (1023 + e)) +
        push_bit (52 - e) (word_of_nat (a - 2 ^ e)))"

declare floor_log2.simps [simp del]

section \<open>Handshake\<close>

text \<open>Run an operation on a socket made anew from the descriptor, with its own timeouts.\<close>

definition with_new_skt :: "(RssSocket, 'a) comp \<Rightarrow> (RssProtocol, 'a) comp" where
  "with_new_skt m s =
     (case m (socket_new (stfd (skt s))) of (r, k) \<Rightarrow> (r, s\<lparr>skt := (skt s)\<lparr>stfd := stfd k\<rparr>\<rparr>))"

text \<open>Of \<^verbatim>\<open>s0s1s2\<close> only the first byte is written before it is sent.\<close>

definition handshake :: "(nat \<Rightarrow> byte list) \<Rightarrow> (RssProtocol, unit) comp" where
  "handshake heap = with_new_skt (
     bind (socket_read_fully 1537) (\<lambda>c0c1.
     if c0c1 ! 0 \<noteq> 0x03 then fail (Code ERROR_RTMP_PLAIN_REQUIRED)
     else
       bind (socket_write ((heap 3073)[0 := 0x03])) (\<lambda>_.
       bind (socket_read_fully 1536) (\<lambda>_.
       return ()))))"

definition protocol_set_recv_timeout :: "int \<Rightarrow> (RssProtocol, unit) comp" where
  "protocol_set_recv_timeout timeout_ms = with_skt (socket_set_recv_timeout timeout_ms)"

definition protocol_set_send_timeout :: "int \<Rightarrow> (RssProtocol, unit) comp" where
  "protocol_set_send_timeout timeout_ms = with_skt (socket_set_send_timeout timeout_ms)"

section \<open>Connecting\<close>

definition string_value :: "RssAmf0Any \<Rightarrow> string" where
  "string_value v = (case v of RssAmf0String s \<Rightarrow> s | _ \<Rightarrow> [])"

definition number_value :: "RssAmf0Any \<Rightarrow> dbl" where
  "number_value v = (case v of RssAmf0Number d \<Rightarrow> d | _ \<Rightarrow> double_0)"

text \<open>The properties that \<^verbatim>\<open>connect_app\<close> copies from the command object.\<close>

definition request_of :: "props \<Rightarrow> (RssRequest, unit) comp" where
  "request_of command_object =
     (case ht_ensure_property_string command_object ''tcUrl'' of
        None \<Rightarrow> fail (Code ERROR_RTMP_REQ_CONNECT)
      | Some p \<Rightarrow>
          bind (modify (tcUrl_update (\<lambda>_. string_value p))) (\<lambda>_.
          bind (case ht_ensure_property_string command_object ''pageUrl'' of
                  None \<Rightarrow> return () | Some p \<Rightarrow> modify (pageUrl_update (\<lambda>_. string_value p))) (\<lambda>_.
          bind (case ht_ensure_property_string command_object ''swfUrl'' of
                  None \<Rightarrow> return () | Some p \<Rightarrow> modify (swfUrl_update (\<lambda>_. string_value p))) (\<lambda>_.
          bind (case ht_ensure_property_number command_object ''objectEncoding'' of
                  None \<Rightarrow> return () | Some p \<Rightarrow> modify (objectEncoding_update (\<lambda>_. number_value p))) (\<lambda>_.
          discovery_app)))))"

fun is_connect :: "RssPacket \<Rightarrow> bool" where
  "is_connect (RssConnectAppPacket _ _ _) = True"
| "is_connect _ = False"

fun is_create_stream :: "RssPacket \<Rightarrow> bool" where
  "is_create_stream (RssCreateStreamPacket _ _) = True"
| "is_create_stream _ = False"

fun is_fmle_start :: "RssPacket \<Rightarrow> bool" where
  "is_fmle_start (RssFMLEStartPacket _ _ _) = True"
| "is_fmle_start _ = False"

fun is_publish :: "RssPacket \<Rightarrow> bool" where
  "is_publish (RssPublishPacket _ _ _ _) = True"
| "is_publish _ = False"

text \<open>\<^verbatim>\<open>pkt->transaction_id\<close> of the packets that have one and are waited for.\<close>

fun transaction_id :: "RssPacket \<Rightarrow> dbl" where
  "transaction_id (RssConnectAppPacket _ t _) = t"
| "transaction_id (RssCreateStreamPacket _ t) = t"
| "transaction_id (RssFMLEStartPacket _ t _) = t"
| "transaction_id (RssPublishPacket _ t _ _) = t"
| "transaction_id (RssPlayPacket _ t _ _ _ _) = t"
| "transaction_id _ = double_0"

definition expect_packet :: "(RssPacket \<Rightarrow> bool) \<Rightarrow> (RssProtocol, RssPacket) comp" where
  "expect_packet want =
     bind (expect_message want) (\<lambda>m.
     case msg_packet m of None \<Rightarrow> fail AssertFailed | Some pkt \<Rightarrow> return pkt)"

definition connect_app :: "RssRequest \<Rightarrow> (RssProtocol, RssRequest) comp" where
  "connect_app req =
     bind (expect_packet is_connect) (\<lambda>pkt.
     case pkt of
       RssConnectAppPacket _ _ (Some command_object) \<Rightarrow>
         (case request_of command_object req of
            (Inl e, _) \<Rightarrow> fail e
          | (Inr _, req') \<Rightarrow> return req')
     | _ \<Rightarrow> fail Undefined)"

section \<open>Responses\<close>

text \<open>Every response is a new message with one packet.\<close>

definition send_packet :: "(nat \<Rightarrow> byte list) \<Rightarrow> RssPacket \<Rightarrow> i32 \<Rightarrow> (RssProtocol, unit) comp" where
  "send_packet heap pkt sid = send_message heap (CommonMessage (packet_message pkt sid))"

fun send_packets :: "(nat \<Rightarrow> byte list) \<Rightarrow> (RssPacket \<times> i32) list \<Rightarrow> (RssProtocol, unit) comp" where
  "send_packets heap [] = return ()"
| "send_packets heap ((pkt, sid) # ps) = bind (send_packet heap pkt sid) (\<lambda>_. send_packets heap ps)"

definition set_window_ack_size :: "(nat \<Rightarrow> byte list) \<Rightarrow> i32 \<Rightarrow> (RssProtocol, unit) comp" where
  "set_window_ack_size heap ack_size = send_packet heap (RssSetWindowAckSizePacket ack_size) 0"

definition set_peer_bandwidth :: "(nat \<Rightarrow> byte list) \<Rightarrow> i32 \<Rightarrow> byte \<Rightarrow> (RssProtocol, unit) comp" where
  "set_peer_bandwidth heap bandwidth type = send_packet heap (RssSetPeerBandwidthPacket bandwidth type) 0"

abbreviation RTMP_SIG_FMS_VER :: string where "RTMP_SIG_FMS_VER \<equiv> ''3,5,3,888''"
abbreviation RTMP_SIG_CLIENT_ID :: string where "RTMP_SIG_CLIENT_ID \<equiv> ''ASAICiss''"
abbreviation StatusLevel :: string where "StatusLevel \<equiv> ''level''"
abbreviation StatusCode :: string where "StatusCode \<equiv> ''code''"
abbreviation StatusDescription :: string where "StatusDescription \<equiv> ''description''"
abbreviation StatusDetails :: string where "StatusDetails \<equiv> ''details''"
abbreviation StatusClientId :: string where "StatusClientId \<equiv> ''clientid''"
abbreviation StatusLevelStatus :: string where "StatusLevelStatus \<equiv> ''status''"

text \<open>Successive calls of \<^verbatim>\<open>set\<close> on a new table, with string values.\<close>

definition set_strings :: "(string \<times> string) list \<Rightarrow> props" where
  "set_strings kvs = fold (\<lambda>(k, v) t. ht_set t k (RssAmf0String v)) kvs []"

text \<open>
  The response to connect. The \<^verbatim>\<open>count\<close> of the ECMA array is not initialised by its constructor:
  \<open>of_bytes (heap 4)\<close> is what the memory held.
\<close>

definition connect_app_res :: "(nat \<Rightarrow> byte list) \<Rightarrow> RssRequest \<Rightarrow> RssPacket" where
  "connect_app_res heap req =
     RssConnectAppResPacket RTMP_AMF0_COMMAND_RESULT double_1
       (ht_set (ht_set (ht_set [] ''fmsVer'' (RssAmf0String ''FMS/3,5,3,888''))
          ''capabilities'' (RssAmf0Number (double_of_int 127))) ''mode'' (RssAmf0Number (double_of_int 1)))
       (ht_set (ht_set (set_strings [(StatusLevel, StatusLevelStatus),
            (StatusCode, ''NetConnection.Connect.Success''), (StatusDescription, ''Connection succeeded'')])
          ''objectEncoding'' (RssAmf0Number (objectEncoding req)))
          ''data'' (RssARssAmf0EcmaArray (of_bytes (heap 4))
            (set_strings [(''version'', RTMP_SIG_FMS_VER), (''server'', ''rss(simple rtmp server)''),
               (''rss_url'', ''https://github.com/Q0R1Y/rtmp_server''), (''rss_version'', ''0.1'')])))"

definition response_connect_app :: "(nat \<Rightarrow> byte list) \<Rightarrow> RssRequest \<Rightarrow> (RssProtocol, unit) comp" where
  "response_connect_app heap req = send_packet heap (connect_app_res heap req) 0"

definition on_bw_done :: "(nat \<Rightarrow> byte list) \<Rightarrow> (RssProtocol, unit) comp" where
  "on_bw_done heap = send_packet heap new_OnBWDonePacket 0"

definition set_chunk_size :: "(nat \<Rightarrow> byte list) \<Rightarrow> i32 \<Rightarrow> (RssProtocol, unit) comp" where
  "set_chunk_size heap chunk_size = send_packet heap (RssSetChunkSizePacket chunk_size) 0"

section \<open>Identifying the client\<close>

datatype RssClientType = RssClientUnknown | RssClientPlay | RssClientPublish

text \<open>
  The loops of the two identify functions: messages other than AMF commands are skipped, commands
  that \<open>pick\<close> does not accept are ignored. Every round takes input off the stream, which bounds
  the number of rounds.
\<close>

fun identify_loop :: "nat \<Rightarrow> (RssPacket \<Rightarrow> bool) \<Rightarrow> (RssProtocol, RssPacket) comp" where
  "identify_loop 0 pick = fail OutOfFuel"
| "identify_loop (Suc n) pick =
     bind recv_message (\<lambda>msg.
     if \<not> header_is_amf0_command (msg_header msg) \<and> \<not> header_is_amf3_command (msg_header msg)
     then identify_loop n pick
     else
       (case common_decode_packet msg of
          (Inl e, _) \<Rightarrow> fail e
        | (Inr _, m) \<Rightarrow>
            (case msg_packet m of
               None \<Rightarrow> fail AssertFailed
             | Some pkt \<Rightarrow> if pick pkt then return pkt else identify_loop n pick)))"

definition identify_packet :: "(RssPacket \<Rightarrow> bool) \<Rightarrow> (RssProtocol, RssPacket) comp" where
  "identify_packet pick s = identify_loop (length (protocol_input s) + 1) pick s"

fun is_play :: "RssPacket \<Rightarrow> bool" where
  "is_play (RssPlayPacket _ _ _ _ _ _) = True"
| "is_play _ = False"

fun stream_name :: "RssPacket \<Rightarrow> string" where
  "stream_name (RssPlayPacket _ _ n _ _ _) = n"
| "stream_name (RssFMLEStartPacket _ _ n) = n"
| "stream_name (RssPublishPacket _ _ n _) = n"
| "stream_name _ = []"

definition identify_create_stream_client ::
  "(nat \<Rightarrow> byte list) \<Rightarrow> RssPacket \<Rightarrow> i32 \<Rightarrow> (RssProtocol, RssClientType \<times> string) comp" where
  "identify_create_stream_client heap req sid =
     bind (send_packet heap (new_CreateStreamResPacket (transaction_id req) (double_of_int (sint sid))) 0) (\<lambda>_.
     bind (identify_packet is_play) (\<lambda>pkt.
     return (RssClientPlay, stream_name pkt)))"

definition identify_fmle_publish_client ::
  "(nat \<Rightarrow> byte list) \<Rightarrow> RssPacket \<Rightarrow> (RssProtocol, RssClientType \<times> string) comp" where
  "identify_fmle_publish_client heap req =
     bind (send_packet heap (new_FMLEStartResPacket (transaction_id req)) 0) (\<lambda>_.
     return (RssClientPublish, stream_name req))"

definition identify_client :: "(nat \<Rightarrow> byte list) \<Rightarrow> i32 \<Rightarrow> (RssProtocol, RssClientType \<times> string) comp" where
  "identify_client heap sid =
     bind (identify_packet (\<lambda>pkt. is_create_stream pkt \<or> is_fmle_start pkt)) (\<lambda>pkt.
     if is_create_stream pkt then identify_create_stream_client heap pkt sid
     else identify_fmle_publish_client heap pkt)"

section \<open>Starting to play and to publish\<close>

definition status_call :: "string \<Rightarrow> (string \<times> string) list \<Rightarrow> RssPacket" where
  "status_call command_name kvs = RssOnStatusCallPacket command_name double_0 (set_strings kvs)"

abbreviation SrcPCUCStreamBegin :: i16 where "SrcPCUCStreamBegin \<equiv> 0"

definition start_play_packets :: "i32 \<Rightarrow> (RssPacket \<times> i32) list" where
  "start_play_packets sid =
     [(RssPCUC4BytesPacket SrcPCUCStreamBegin sid, 0),
      (status_call RTMP_AMF0_COMMAND_ON_STATUS [(StatusLevel, StatusLevelStatus), (StatusCode, ''NetStream.Play.Reset''),
         (StatusDescription, ''Playing and resetting stream.''), (StatusDetails, ''stream''),
         (StatusClientId, RTMP_SIG_CLIENT_ID)], sid),
      (status_call RTMP_AMF0_COMMAND_ON_STATUS [(StatusLevel, StatusLevelStatus), (StatusCode, ''NetStream.Play.Start''),
         (StatusDescription, ''Started playing stream.''), (StatusDetails, ''stream''),
         (StatusClientId, RTMP_SIG_CLIENT_ID)], sid),
      (new_SampleAccessPacket, sid),
      (RssOnStatusDataPacket RTMP_AMF0_COMMAND_ON_STATUS (set_strings [(StatusCode, ''NetStream.Data.Start'')]), sid)]"

definition start_play :: "(nat \<Rightarrow> byte list) \<Rightarrow> i32 \<Rightarrow> (RssProtocol, unit) comp" where
  "start_play heap sid = send_packets heap (start_play_packets sid)"

definition publish_start_packets :: "i32 \<Rightarrow> (RssPacket \<times> i32) list" where
  "publish_start_packets sid =
     [(status_call ''onFCPublish'' [(StatusCode, ''NetStream.Publish.Start''),
         (StatusDescription, ''Started publishing stream.'')], sid),
      (status_call RTMP_AMF0_COMMAND_ON_STATUS [(StatusLevel, StatusLevelStatus), (StatusCode, ''NetStream.Publish.Start''),
         (StatusDescription, ''Started publishing stream.''), (StatusClientId, RTMP_SIG_CLIENT_ID)], sid)]"

definition start_publish :: "(nat \<Rightarrow> byte list) \<Rightarrow> i32 \<Rightarrow> (RssProtocol, unit) comp" where
  "start_publish heap sid =
     bind (expect_packet is_fmle_start) (\<lambda>fc_publish.
     bind (send_packet heap (new_FMLEStartResPacket (transaction_id fc_publish)) 0) (\<lambda>_.
     bind (expect_packet is_create_stream) (\<lambda>create_stream.
     bind (send_packet heap (new_CreateStreamResPacket (transaction_id create_stream) (double_of_int (sint sid))) 0) (\<lambda>_.
     bind (expect_packet is_publish) (\<lambda>_.
     send_packets heap (publish_start_packets sid))))))"

definition unpublish_packets :: "i32 \<Rightarrow> dbl \<Rightarrow> (RssPacket \<times> i32) list" where
  "unpublish_packets sid unpublish_tid =
     [(status_call ''onFCUnpublish'' [(StatusCode, ''NetStream.Unpublish.Success''),
         (StatusDescription, ''Stop publishing stream.'')], sid),
      (new_FMLEStartResPacket unpublish_tid, sid),
      (status_call RTMP_AMF0_COMMAND_ON_STATUS [(StatusLevel, StatusLevelStatus), (StatusCode, ''NetStream.Unpublish.Success''),
         (StatusDescription, ''Stream is now unpublished''), (StatusClientId, RTMP_SIG_CLIENT_ID)], sid)]"

definition fmle_unpublish :: "(nat \<Rightarrow> byte list) \<Rightarrow> i32 \<Rightarrow> dbl \<Rightarrow> (RssProtocol, unit) comp" where
  "fmle_unpublish heap sid unpublish_tid = send_packets heap (unpublish_packets sid unpublish_tid)"

end
