(* ===== verification/Rss_Source.thy ===== *)
theory Rss_Source
  imports Rss_Message
begin

text \<open>
  The live source (\<^verbatim>\<open>rss_core_source.cpp\<close>) and the shared messages it hands out
  (\<^verbatim>\<open>RssSharedPtrMessage\<close> of \<^verbatim>\<open>rss_core_protocol.cpp\<close>). A publisher's audio, video and metadata are
  wrapped once into a reference-counted payload, and every consumer of the stream queues a message object that
  shares it. Sources live in a static pool and are never freed; a source is therefore
  identified by its key in the pool. Consumers and shared payloads are identified by their
  addresses, drawn from counters so that an address is never reused. Accessing an object that has
  been freed is \<^const>\<open>Undefined\<close>.
\<close>

section \<open>State\<close>

record RssSharedPtr =
  sp_payload :: "byte list option"
  sp_size :: int
  sp_perfer_cid :: int
  sp_shared_count :: int

text \<open>
  A message object; its own members \<^verbatim>\<open>payload\<close> and \<^verbatim>\<open>size\<close> always repeat those of \<^verbatim>\<open>ptr\<close>.
\<close>

record RssSharedPtrMessage =
  shm_header :: RssMessageHeader
  shm_ptr :: "nat option"

record RssConsumer =
  con_source :: string
  con_msgs :: "RssSharedPtrMessage list"

record RssSource =
  src_consumers :: "nat list"
  cache_metadata :: "RssSharedPtrMessage option"
  cache_sh_video :: "RssSharedPtrMessage option"
  cache_sh_audio :: "RssSharedPtrMessage option"

text \<open>All sources of the process, with the objects they own.\<close>

record rss_world =
  shared :: "nat \<rightharpoonup> RssSharedPtr"
  shared_next :: nat
  consumer_at :: "nat \<rightharpoonup> RssConsumer"
  consumer_next :: nat
  pool :: "string \<rightharpoonup> RssSource"

type_synonym 'a source_comp = "(rss_world, 'a) comp"

definition world_new :: rss_world where
  "world_new = \<lparr>shared = Map.empty, shared_next = 0, consumer_at = Map.empty, consumer_next = 0, pool = Map.empty\<rparr>"

text \<open>Follow a pointer to an object.\<close>

definition deref :: "(rss_world \<Rightarrow> 'a option) \<Rightarrow> 'a source_comp" where
  "deref f = bind (get f) (\<lambda>x. case x of None \<Rightarrow> fail Undefined | Some y \<Rightarrow> return y)"

definition set_shared :: "nat \<Rightarrow> RssSharedPtr option \<Rightarrow> unit source_comp" where
  "set_shared a sp = modify (\<lambda>w. w\<lparr>shared := (shared w)(a := sp)\<rparr>)"

definition set_consumer :: "nat \<Rightarrow> RssConsumer option \<Rightarrow> unit source_comp" where
  "set_consumer c con = modify (\<lambda>w. w\<lparr>consumer_at := (consumer_at w)(c := con)\<rparr>)"

definition set_source :: "string \<Rightarrow> RssSource \<Rightarrow> unit source_comp" where
  "set_source u src = modify (\<lambda>w. w\<lparr>pool := (pool w)(u \<mapsto> src)\<rparr>)"

section \<open>Shared messages\<close>

definition shared_message_new :: RssSharedPtrMessage where
  "shared_message_new = \<lparr>shm_header = header_new, shm_ptr = None\<rparr>"

text \<open>\<^verbatim>\<open>RssSharedPtrMessage::initialize\<close>; of \<^verbatim>\<open>msg\<close> only the header is used.\<close>

definition shared_initialize ::
  "RssMessageHeader \<Rightarrow> byte list option \<Rightarrow> int \<Rightarrow> RssSharedPtrMessage \<Rightarrow> RssSharedPtrMessage source_comp" where
  "shared_initialize h payload sz m =
     (if shm_ptr m \<noteq> None then fail AssertFailed
      else
        bind (get shared_next) (\<lambda>a.
        bind (modify (\<lambda>w. w\<lparr>shared_next := a + 1\<rparr>)) (\<lambda>_.
        bind (set_shared a (Some
          \<lparr>sp_payload = payload, sp_size = sz,
           sp_perfer_cid = (if header_is_video h then RTMP_CID_Video
                            else if header_is_audio h then RTMP_CID_Audio
                            else RTMP_CID_OverConnection2),
           sp_shared_count = 0\<rparr>)) (\<lambda>_.
        return (m\<lparr>shm_header := h\<lparr>payload_length := word_of_int sz\<rparr>, shm_ptr := Some a\<rparr>)))))"

definition shared_copy :: "RssSharedPtrMessage \<Rightarrow> RssSharedPtrMessage source_comp" where
  "shared_copy m =
     (case shm_ptr m of
        None \<Rightarrow> fail AssertFailed
      | Some a \<Rightarrow>
          bind (deref (\<lambda>w. shared w a)) (\<lambda>sp.
          bind (set_shared a (Some (sp\<lparr>sp_shared_count := sp_shared_count sp + 1\<rparr>))) (\<lambda>_.
          return (shared_message_new\<lparr>shm_header := shm_header m, shm_ptr := Some a\<rparr>))))"

text \<open>The destructor \<^verbatim>\<open>~RssSharedPtrMessage\<close>.\<close>

definition shared_destroy :: "RssSharedPtrMessage \<Rightarrow> unit source_comp" where
  "shared_destroy m =
     (case shm_ptr m of
        None \<Rightarrow> return ()
      | Some a \<Rightarrow>
          bind (deref (\<lambda>w. shared w a)) (\<lambda>sp.
          if sp_shared_count sp = 0 then set_shared a None
          else set_shared a (Some (sp\<lparr>sp_shared_count := sp_shared_count sp - 1\<rparr>))))"

definition shared_get_perfer_cid :: "RssSharedPtrMessage \<Rightarrow> int source_comp" where
  "shared_get_perfer_cid m =
     (case shm_ptr m of
        None \<Rightarrow> return 0
      | Some a \<Rightarrow> bind (deref (\<lambda>w. shared w a)) (\<lambda>sp. return (sp_perfer_cid sp)))"

text \<open>\<^verbatim>\<open>rss_freep\<close> of a pointer that may be null.\<close>

definition freep :: "RssSharedPtrMessage option \<Rightarrow> unit source_comp" where
  "freep p = (case p of None \<Rightarrow> return () | Some m \<Rightarrow> shared_destroy m)"

fun destroy_all :: "RssSharedPtrMessage list \<Rightarrow> unit source_comp" where
  "destroy_all [] = return ()"
| "destroy_all (m # ms) = bind (shared_destroy m) (\<lambda>_. destroy_all ms)"

section \<open>Consumers\<close>

definition consumer_new :: "string \<Rightarrow> RssConsumer" where
  "consumer_new u = \<lparr>con_source = u, con_msgs = []\<rparr>"

definition enqueue :: "nat \<Rightarrow> RssSharedPtrMessage \<Rightarrow> unit source_comp" where
  "enqueue c m =
     bind (deref (\<lambda>w. consumer_at w c)) (\<lambda>con.
     set_consumer c (Some (con\<lparr>con_msgs := con_msgs con @ [m]\<rparr>)))"

text \<open>\<^verbatim>\<open>get_packets\<close>: the result is the array \<^verbatim>\<open>pmsgs\<close> with \<^verbatim>\<open>count\<close> entries.\<close>

definition get_packets :: "nat \<Rightarrow> int \<Rightarrow> RssSharedPtrMessage list source_comp" where
  "get_packets c max_count =
     bind (deref (\<lambda>w. consumer_at w c)) (\<lambda>con.
     let msgs = con_msgs con; sz = int_of_size (length msgs);
         cnt = (if max_count = 0 then sz else min max_count sz) in
     if msgs = [] then return []
     else if cnt < 0 then fail CppException
     else
       bind (set_consumer c (Some (con\<lparr>con_msgs := if cnt = sz then [] else drop (nat cnt) msgs\<rparr>))) (\<lambda>_.
       return (take (nat cnt) msgs)))"

section \<open>Sources\<close>

definition source_new :: RssSource where
  "source_new = \<lparr>src_consumers = [], cache_metadata = None, cache_sh_video = None, cache_sh_audio = None\<rparr>"

text \<open>\<^verbatim>\<open>RssSource::find\<close>: the pool has a source under the key afterwards.\<close>

definition source_find :: "string \<Rightarrow> unit source_comp" where
  "source_find stream_url =
     bind (get (\<lambda>w. pool w stream_url)) (\<lambda>p.
     case p of None \<Rightarrow> set_source stream_url source_new | Some _ \<Rightarrow> return ())"

definition on_consumer_destroy :: "string \<Rightarrow> nat \<Rightarrow> unit source_comp" where
  "on_consumer_destroy u c =
     bind (deref (\<lambda>w. pool w u)) (\<lambda>src.
     set_source u (src\<lparr>src_consumers := remove1 c (src_consumers src)\<rparr>))"

text \<open>The destructor \<^verbatim>\<open>~RssConsumer\<close>, and the release of the object.\<close>

definition consumer_destroy :: "nat \<Rightarrow> unit source_comp" where
  "consumer_destroy c =
     bind (deref (\<lambda>w. consumer_at w c)) (\<lambda>con.
     bind (destroy_all (con_msgs con)) (\<lambda>_.
     bind (set_consumer c (Some (con\<lparr>con_msgs := []\<rparr>))) (\<lambda>_.
     bind (on_consumer_destroy (con_source con) c) (\<lambda>_.
     set_consumer c None))))"

text \<open>The loop that copies a message to all consumers.\<close>

fun dispatch :: "RssSharedPtrMessage \<Rightarrow> nat list \<Rightarrow> unit source_comp" where
  "dispatch m [] = return ()"
| "dispatch m (c # cs) = bind (shared_copy m) (\<lambda>k. bind (enqueue c k) (\<lambda>_. dispatch m cs))"

abbreviation RTMP_SIG_RSS_SERVER :: string where
  "RTMP_SIG_RSS_SERVER \<equiv> ''rss(simple rtmp server)0.1''"

text \<open>
  \<^verbatim>\<open>on_meta_data\<close>. The array allocated for the payload is replaced by the one that \<^verbatim>\<open>encode\<close>
  allocates. The old cached metadata is freed before the new one is created.
\<close>

definition on_meta_data ::
  "(nat \<Rightarrow> byte list) \<Rightarrow> string \<Rightarrow> RssMessageHeader \<Rightarrow> string \<Rightarrow> props \<Rightarrow> unit source_comp" where
  "on_meta_data heap u h name metadata0 =
     (let metadata = ht_set metadata0 ''server'' (RssAmf0String RTMP_SIG_RSS_SERVER);
          pkt = RssOnMetaDataPacket name metadata in
      if packet_get_size pkt \<le> 0 then return ()
      else
        bind (lift_res (packet_encode heap pkt)) (\<lambda>(sz, payload).
        bind (deref (\<lambda>w. pool w u)) (\<lambda>src.
        bind (freep (cache_metadata src)) (\<lambda>_.
        bind (set_source u (src\<lparr>cache_metadata := None\<rparr>)) (\<lambda>_.
        bind (shared_initialize h payload sz shared_message_new) (\<lambda>m.
        bind (set_source u (src\<lparr>cache_metadata := Some m\<rparr>)) (\<lambda>_.
        dispatch m (src_consumers src))))))))"

text \<open>
  \<^verbatim>\<open>on_audio\<close> and \<^verbatim>\<open>on_video\<close> take over the payload of the received message: the result is that message
  with its payload detached. The first audio message and the first video message of a source stay
  cached. The message object itself is freed when the function returns.
\<close>

definition detach :: "RssCommonMessage \<Rightarrow> RssCommonMessage" where
  "detach msg = msg\<lparr>msg_payload := None, msg_size := 0\<rparr>"

definition on_audio :: "string \<Rightarrow> RssCommonMessage \<Rightarrow> RssCommonMessage source_comp" where
  "on_audio u audio =
     bind (shared_initialize (msg_header audio) (msg_payload audio) (msg_size audio) shared_message_new) (\<lambda>m.
     bind (deref (\<lambda>w. pool w u)) (\<lambda>src.
     bind (dispatch m (src_consumers src)) (\<lambda>_.
     bind (if cache_sh_audio src = None
           then bind (shared_copy m) (\<lambda>k. set_source u (src\<lparr>cache_sh_audio := Some k\<rparr>))
           else return ()) (\<lambda>_.
     bind (shared_destroy m) (\<lambda>_.
     return (detach audio))))))"

definition on_video :: "string \<Rightarrow> RssCommonMessage \<Rightarrow> RssCommonMessage source_comp" where
  "on_video u video =
     bind (shared_initialize (msg_header video) (msg_payload video) (msg_size video) shared_message_new) (\<lambda>m.
     bind (deref (\<lambda>w. pool w u)) (\<lambda>src.
     bind (dispatch m (src_consumers src)) (\<lambda>_.
     bind (if cache_sh_video src = None
           then bind (shared_copy m) (\<lambda>k. set_source u (src\<lparr>cache_sh_video := Some k\<rparr>))
           else return ()) (\<lambda>_.
     bind (shared_destroy m) (\<lambda>_.
     return (detach video))))))"

text \<open>Queue a copy of a cached message, if there is one.\<close>

definition enqueue_cached :: "nat \<Rightarrow> RssSharedPtrMessage option \<Rightarrow> unit source_comp" where
  "enqueue_cached c cached =
     (case cached of None \<Rightarrow> return () | Some m \<Rightarrow> bind (shared_copy m) (\<lambda>k. enqueue c k))"

definition create_consumer :: "string \<Rightarrow> nat source_comp" where
  "create_consumer u =
     bind (deref (\<lambda>w. pool w u)) (\<lambda>src.
     bind (get consumer_next) (\<lambda>c.
     bind (modify (\<lambda>w. w\<lparr>consumer_next := c + 1\<rparr>)) (\<lambda>_.
     bind (set_consumer c (Some (consumer_new u))) (\<lambda>_.
     bind (set_source u (src\<lparr>src_consumers := src_consumers src @ [c]\<rparr>)) (\<lambda>_.
     bind (enqueue_cached c (cache_metadata src)) (\<lambda>_.
     bind (enqueue_cached c (cache_sh_video src)) (\<lambda>_.
     bind (enqueue_cached c (cache_sh_audio src)) (\<lambda>_.
     return c))))))))"

text \<open>
  The destructor \<^verbatim>\<open>~RssSource\<close> (no source is ever freed). Freeing a consumer erases it from the vector
  the loop iterates over, and the step to the next consumer uses the invalidated iterator.
\<close>

definition source_destroy :: "string \<Rightarrow> unit source_comp" where
  "source_destroy u =
     bind (deref (\<lambda>w. pool w u)) (\<lambda>src.
     case src_consumers src of
       c # _ \<Rightarrow> bind (consumer_destroy c) (\<lambda>_. fail Undefined)
     | [] \<Rightarrow>
         bind (freep (cache_metadata src)) (\<lambda>_.
         bind (freep (cache_sh_video src)) (\<lambda>_.
         bind (freep (cache_sh_audio src)) (\<lambda>_.
         set_source u source_new))))"

text \<open>A message object as an argument of \<^verbatim>\<open>send_message\<close>.\<close>

definition to_imsg :: "rss_world \<Rightarrow> RssSharedPtrMessage \<Rightarrow> IRssMessage" where
  "to_imsg w m =
     (case Option.bind (shm_ptr m) (shared w) of
        None \<Rightarrow> SharedPtrMessage (shm_header m) 0 None 0
      | Some sp \<Rightarrow> SharedPtrMessage (shm_header m) (sp_size sp) (sp_payload sp) (sp_perfer_cid sp))"

end
