(* ===== verification/Rss_Client.thy ===== *)
theory Rss_Client
  imports Rss_Rtmp Rss_Source
begin

text \<open>
  The client's thread (\<^verbatim>\<open>rss_core_client.cpp\<close>): connecting, then publishing or playing. A thread works on
  its own protocol and on the sources, which all threads share. Threads are cooperative: they switch only inside
  input and output and in \<^verbatim>\<open>st_usleep\<close>, never between two operations on the sources. The streaming loops take
  what the other threads do in each \<^verbatim>\<open>st_usleep(0)\<close> as an argument; \<open>Rss_System\<close> interleaves the threads step by step.
\<close>

section \<open>State\<close>

type_synonym client_io = "RssProtocol \<times> rss_world"

definition on_proto :: "(RssProtocol, 'a) comp \<Rightarrow> (client_io, 'a) comp" where
  "on_proto m s = (case m (fst s) of (r, p) \<Rightarrow> (r, (p, snd s)))"

definition on_world :: "(rss_world, 'a) comp \<Rightarrow> (client_io, 'a) comp" where
  "on_world m s = (case m (snd s) of (r, w) \<Rightarrow> (r, (fst s, w)))"

text \<open>
  \<^verbatim>\<open>st_usleep(0)\<close>: the other threads run. They may change the sources and \<^verbatim>\<open>errno\<close>, which is one variable of the
  process; the result of \<^verbatim>\<open>st_usleep\<close> is ignored.
\<close>

type_synonym st_others = "st_errno \<times> rss_world \<Rightarrow> st_errno \<times> rss_world"

definition st_switch :: "st_others \<Rightarrow> (client_io, unit) comp" where
  "st_switch others s =
     (case others (net_errno (stfd (skt (fst s))), snd s) of
        (e, w) \<Rightarrow> (Inr (), ((fst s)\<lparr>skt := (skt (fst s))\<lparr>stfd := set_errno e (stfd (skt (fst s)))\<rparr>\<rparr>, w)))"

text \<open>What the others do from the next switch on.\<close>

abbreviation later :: "(nat \<Rightarrow> st_others) \<Rightarrow> nat \<Rightarrow> st_others" where
  "later others \<equiv> \<lambda>k. others (Suc k)"

abbreviation RSS_PULSE_TIMEOUT_MS :: int where "RSS_PULSE_TIMEOUT_MS \<equiv> 100"
abbreviation RSS_SEND_TIMEOUT_MS :: int where "RSS_SEND_TIMEOUT_MS \<equiv> 5000"
abbreviation RSS_DEFAULT_SID :: i32 where "RSS_DEFAULT_SID \<equiv> 1"

section \<open>Connecting\<close>

text \<open>What \<^verbatim>\<open>getpeername\<close> and \<^verbatim>\<open>inet_ntop\<close> answer.\<close>

datatype peer_info = PeerUnknown | PeerUnprintable | PeerIp string

fun get_peer_ip :: "peer_info \<Rightarrow> string res" where
  "get_peer_ip PeerUnknown = Inl (Code ERROR_SOCKET_GET_PEER_NAME)"
| "get_peer_ip PeerUnprintable = Inl (Code ERROR_SOCKET_GET_PEER_IP)"
| "get_peer_ip (PeerIp ip) = Inr ip"

text \<open>The part of \<^verbatim>\<open>do_cycle\<close> up to the choice between playing and publishing.\<close>

definition connect_client :: "(nat \<Rightarrow> byte list) \<Rightarrow> peer_info \<Rightarrow> (RssProtocol, RssRequest \<times> RssClientType) comp" where
  "connect_client heap peer =
     bind (lift_res (get_peer_ip peer)) (\<lambda>_.
     bind (protocol_set_recv_timeout RSS_SEND_TIMEOUT_MS) (\<lambda>_.
     bind (protocol_set_send_timeout RSS_SEND_TIMEOUT_MS) (\<lambda>_.
     bind (handshake heap) (\<lambda>_.
     bind (connect_app request_new) (\<lambda>req.
     bind (set_window_ack_size heap 2500000) (\<lambda>_.
     bind (set_peer_bandwidth heap 2500000 2) (\<lambda>_.
     bind (response_connect_app heap req) (\<lambda>_.
     bind (on_bw_done heap) (\<lambda>_.
     bind (identify_client heap RSS_DEFAULT_SID) (\<lambda>(type, name).
     bind (set_chunk_size heap 4096) (\<lambda>_.
     return (req\<lparr>stream := name\<rparr>, type))))))))))))"

section \<open>Publishing\<close>

text \<open>How a round of a streaming loop ends: with the next round or with the end of the function.\<close>

datatype loop_next = Continue | Return

text \<open>The body of the loop of \<^verbatim>\<open>streaming_publish\<close> for a received message.\<close>

definition handle_published ::
  "(nat \<Rightarrow> byte list) \<Rightarrow> string \<Rightarrow> i32 \<Rightarrow> RssCommonMessage \<Rightarrow> (client_io, loop_next) comp" where
  "handle_published heap u sid msg0 =
     bind (if header_is_audio (msg_header msg0) then on_world (on_audio u msg0) else return msg0) (\<lambda>msg1.
     bind (if header_is_video (msg_header msg1) then on_world (on_video u msg1) else return msg1) (\<lambda>msg.
     if header_is_amf0_data (msg_header msg) \<or> header_is_amf3_data (msg_header msg) then
       (case common_decode_packet msg of
          (Inl e, _) \<Rightarrow> fail e
        | (Inr _, m) \<Rightarrow>
            (case msg_packet m of
               None \<Rightarrow> fail AssertFailed
             | Some pkt \<Rightarrow>
                 (case pkt of
                    RssOnMetaDataPacket name metadata \<Rightarrow>
                      bind (on_world (on_meta_data heap u (msg_header m) name metadata)) (\<lambda>_. return Continue)
                  | _ \<Rightarrow> return Continue)))
     else if header_is_amf0_command (msg_header msg) \<or> header_is_amf3_command (msg_header msg) then
       (case common_decode_packet msg of
          (Inl e, _) \<Rightarrow> fail e
        | (Inr _, m) \<Rightarrow>
            (case msg_packet m of
               None \<Rightarrow> fail AssertFailed
             | Some pkt \<Rightarrow>
                 if is_fmle_start pkt
                 then bind (on_proto (fmle_unpublish heap sid (transaction_id pkt))) (\<lambda>_. return Return)
                 else return Continue))
     else return Continue))"

text \<open>
  One round behind the switch, and the loop; every round takes a message off the input. \<open>others k\<close> is what the other
  threads do in the \<open>k\<close>-th switch.
\<close>

definition publish_round :: "(nat \<Rightarrow> byte list) \<Rightarrow> string \<Rightarrow> i32 \<Rightarrow> (client_io, loop_next) comp" where
  "publish_round heap u sid = bind (on_proto recv_message) (\<lambda>msg. handle_published heap u sid msg)"

fun publish_loop :: "nat \<Rightarrow> (nat \<Rightarrow> st_others) \<Rightarrow> (nat \<Rightarrow> byte list) \<Rightarrow> string \<Rightarrow> i32 \<Rightarrow> (client_io, unit) comp" where
  "publish_loop 0 others heap u sid = fail OutOfFuel"
| "publish_loop (Suc n) others heap u sid =
     bind (st_switch (others 0)) (\<lambda>_.
     bind (publish_round heap u sid) (\<lambda>next.
     case next of Return \<Rightarrow> return () | Continue \<Rightarrow> publish_loop n (later others) heap u sid))"

definition streaming_publish ::
  "(nat \<Rightarrow> st_others) \<Rightarrow> (nat \<Rightarrow> byte list) \<Rightarrow> string \<Rightarrow> i32 \<Rightarrow> (client_io, unit) comp" where
  "streaming_publish others heap u sid s = publish_loop (length (protocol_input (fst s)) + 1) others heap u sid s"

section \<open>Playing\<close>

text \<open>Receiving in the play loop: a timeout is no error, and the message is not used.\<close>

definition play_recv :: "(RssProtocol, unit) comp" where
  "play_recv s =
     (case recv_message s of
        (Inr _, s') \<Rightarrow> (Inr (), s')
      | (Inl e, s') \<Rightarrow> if e = Code ERROR_SOCKET_TIMEOUT then (Inr (), s') else (Inl e, s'))"

text \<open>
  \<^verbatim>\<open>rtmp->send_message\<close> of a shared message: it reads the payload through the message and frees
  the message whether or not it could be sent.
\<close>

definition shared_as_imsg :: "RssSharedPtrMessage \<Rightarrow> IRssMessage source_comp" where
  "shared_as_imsg m =
     (case shm_ptr m of
        None \<Rightarrow> return (SharedPtrMessage (shm_header m) 0 None 0)
      | Some a \<Rightarrow> bind (deref (\<lambda>w. shared w a)) (\<lambda>sp.
          return (SharedPtrMessage (shm_header m) (sp_size sp) (sp_payload sp) (sp_perfer_cid sp))))"

definition play_send :: "(nat \<Rightarrow> byte list) \<Rightarrow> RssSharedPtrMessage \<Rightarrow> (client_io, unit) comp" where
  "play_send heap m =
     bind (on_world (shared_as_imsg m)) (\<lambda>i.
     bind (\<lambda>s. case on_proto (send_message heap i) s of (r, s') \<Rightarrow> (Inr r, s')) (\<lambda>r.
     bind (on_world (shared_destroy m)) (\<lambda>_.
     lift_res r)))"

text \<open>The loop that sends the fetched messages; the messages behind one that fails are not freed.\<close>

fun play_send_all :: "(nat \<Rightarrow> byte list) \<Rightarrow> RssSharedPtrMessage list \<Rightarrow> (client_io, unit) comp" where
  "play_send_all heap [] = return ()"
| "play_send_all heap (m # ms) = bind (play_send heap m) (\<lambda>_. play_send_all heap ms)"

text \<open>
  A round of \<^verbatim>\<open>streaming_play\<close> behind the switch: its first half, up to the fetched messages, and the whole. (The report to
  the log in between has no effect.)
\<close>

definition play_fetch :: "nat \<Rightarrow> (client_io, RssSharedPtrMessage list) comp" where
  "play_fetch c = bind (on_proto play_recv) (\<lambda>_. on_world (get_packets c 0))"

definition play_round :: "(nat \<Rightarrow> byte list) \<Rightarrow> nat \<Rightarrow> (client_io, unit) comp" where
  "play_round heap c = bind (play_fetch c) (\<lambda>msgs. play_send_all heap msgs)"

text \<open>
  The loop ends only with an error; \<open>n\<close> bounds the number of rounds looked at.
\<close>

fun play_loop :: "nat \<Rightarrow> (nat \<Rightarrow> st_others) \<Rightarrow> (nat \<Rightarrow> byte list) \<Rightarrow> nat \<Rightarrow> (client_io, unit) comp" where
  "play_loop 0 others heap c = fail OutOfFuel"
| "play_loop (Suc n) others heap c =
     bind (st_switch (others 0)) (\<lambda>_.
     bind (play_round heap c) (\<lambda>_.
     play_loop n (later others) heap c))"

definition start_playing :: "string \<Rightarrow> (client_io, nat) comp" where
  "start_playing u =
     bind (on_world (create_consumer u)) (\<lambda>c.
     bind (on_proto (protocol_set_recv_timeout RSS_PULSE_TIMEOUT_MS)) (\<lambda>_.
     return c))"

text \<open>\<^verbatim>\<open>streaming_play\<close>: the consumer is destroyed when the function is left.\<close>

definition streaming_play :: "nat \<Rightarrow> (nat \<Rightarrow> st_others) \<Rightarrow> (nat \<Rightarrow> byte list) \<Rightarrow> string \<Rightarrow> (client_io, unit) comp" where
  "streaming_play n others heap u =
     bind (start_playing u) (\<lambda>c.
     bind (\<lambda>s. case play_loop n others heap c s of (r, s') \<Rightarrow> (Inr r, s')) (\<lambda>r.
     bind (on_world (consumer_destroy c)) (\<lambda>_.
     lift_res r)))"

section \<open>The whole thread\<close>

definition do_cycle :: "nat \<Rightarrow> (nat \<Rightarrow> st_others) \<Rightarrow> (nat \<Rightarrow> byte list) \<Rightarrow> peer_info \<Rightarrow> (client_io, unit) comp" where
  "do_cycle n others heap peer =
     bind (on_proto (connect_client heap peer)) (\<lambda>(req, type).
     bind (on_world (source_find (get_stream_url req))) (\<lambda>_.
     case type of
       RssClientPlay \<Rightarrow>
         bind (on_proto (start_play heap RSS_DEFAULT_SID)) (\<lambda>_. streaming_play n others heap (get_stream_url req))
     | RssClientPublish \<Rightarrow>
         bind (on_proto (start_publish heap RSS_DEFAULT_SID)) (\<lambda>_.
           streaming_publish others heap (get_stream_url req) RSS_DEFAULT_SID)
     | RssClientUnknown \<Rightarrow> fail (Code ERROR_SYSTEM_CLIENT_INVALID)))"

end
