(* ===== verification/Rss_Rtmp_Correct.thy ===== *)
theory Rss_Rtmp_Correct
  imports Rss_Rtmp
begin

text \<open>
  Correctness of the command layer: parsing the tcUrl, the handshake byte by byte, the exact bytes
  of the response sequences, and that the exchanges end and keep the protocol's invariant on
  every input.
\<close>

section \<open>The tcUrl\<close>

lemma find_sub_none: "c \<notin> set s \<Longrightarrow> find_sub [c] s = None"
  by (induction s) auto

lemma find_sub_first: "c \<notin> set s \<Longrightarrow> find_sub [c] (s @ c # t) = Some (length s)"
  by (induction s) auto

lemma find_sub_first3:
  assumes "c \<notin> set s"
  shows "find_sub [c, d, e] (s @ [c, d, e] @ t) = Some (length s)"
  using assms by (induction s) auto

text \<open>A url in its usual form is taken apart into its parts; the port defaults to 1935.\<close>

lemma discovery_app_port:
  assumes "CHR '':'' \<notin> set sch" and "CHR ''/'' \<notin> set host" and "CHR '':'' \<notin> set host" and "CHR ''/'' \<notin> set prt"
    and "sch \<noteq> []" and "host \<noteq> []" and "prt \<noteq> []" and "ap \<noteq> []"
  shows "discovery_app (req\<lparr>tcUrl := sch @ ''://'' @ host @ '':'' @ prt @ ''/'' @ ap\<rparr>) =
    (Inr (), req\<lparr>tcUrl := sch @ ''://'' @ host @ '':'' @ prt @ ''/'' @ ap, schema := sch, vhost := host,
       port := prt, app := ap\<rparr>)"
proof -
  have 1: "find_sub ''://'' (sch @ ''://'' @ host @ '':'' @ prt @ ''/'' @ ap) = Some (length sch)"
    using find_sub_first3 [OF assms(1), of "CHR ''/''" "CHR ''/''"] by simp
  have 2: "find_sub ''/'' (host @ '':'' @ prt @ ''/'' @ ap) = Some (length (host @ '':'' @ prt))"
    using find_sub_first [of "CHR ''/''" "host @ '':'' @ prt" ap] assms(2,4) by simp
  have 3: "find_sub '':'' (host @ '':'' @ prt) = Some (length host)"
    using find_sub_first [OF assms(3), of prt] by simp
  from 1 2 3 assms(5-8) show ?thesis by (simp add: discovery_app_def)
qed

lemma discovery_app_default_port:
  assumes "CHR '':'' \<notin> set sch" and "CHR ''/'' \<notin> set host" and "CHR '':'' \<notin> set host"
    and "sch \<noteq> []" and "host \<noteq> []" and "ap \<noteq> []"
  shows "discovery_app (req\<lparr>tcUrl := sch @ ''://'' @ host @ ''/'' @ ap\<rparr>) =
    (Inr (), req\<lparr>tcUrl := sch @ ''://'' @ host @ ''/'' @ ap, schema := sch, vhost := host, port := ''1935'', app := ap\<rparr>)"
proof -
  have 1: "find_sub ''://'' (sch @ ''://'' @ host @ ''/'' @ ap) = Some (length sch)"
    using find_sub_first3 [OF assms(1), of "CHR ''/''" "CHR ''/''"] by simp
  have 2: "find_sub ''/'' (host @ ''/'' @ ap) = Some (length host)"
    using find_sub_first [OF assms(2), of ap] by simp
  from 1 2 find_sub_none [OF assms(3)] assms(4-6) show ?thesis by (simp add: discovery_app_def)
qed

text \<open>Whatever the url, success means that all four parts are there, and failure has one code.\<close>

lemma discovery_app_result:
  assumes "discovery_app req = (r, req')"
  shows "r = Inr () \<and> schema req' \<noteq> [] \<and> vhost req' \<noteq> [] \<and> port req' \<noteq> [] \<and> app req' \<noteq> [] \<or>
    r = Inl (Code ERROR_RTMP_REQ_TCURL)"
  using assms by (auto simp: discovery_app_def ensure_def elim!: bind_cases split: if_splits option.splits)

section \<open>Numbers\<close>

lemma double_of_int_examples:
  "double_of_int 1 = double_1" "double_of_int 2 = double_2" "double_of_int (-2) = double_minus_2"
  "double_of_int 127 = 0x405FC00000000000"
  by code_simp+

section \<open>Handshake\<close>

lemma socket_read_fully_fair:
  assumes "net_fair (stfd k)" and "0 < n" and "n \<le> length (sock_in k)"
  shows "\<exists>k'. socket_read_fully n k = (Inr (take n (sock_in k)), k') \<and> sock_in k' = drop n (sock_in k) \<and>
    net_fair (stfd k') \<and> sock_sent k' = sock_sent k \<and> net_wr (stfd k') = net_wr (stfd k)"
proof -
  from st_read_fully_exact [OF assms, of "recv_timeout k"] obtain net' where
    net': "st_read_fully n (recv_timeout k) (stfd k) = (Some (take n (sock_in k)), net')"
      "net_in net' = drop n (sock_in k)" "net_fair net'" by blast
  moreover have "net_sent net' = sock_sent k" "net_wr net' = net_wr (stfd k)"
    using st_read_fully_stream [OF net'(1)] by simp_all
  ultimately show ?thesis using assms(3) by (simp add: socket_read_fully_def)
qed

text \<open>
  A handshake on a connection where nothing goes wrong: it reads c0, c1 and c2, 3073 bytes in all, and answers with
  3073 bytes that begin with the version.
\<close>

lemma handshake_ok:
  assumes fair: "net_fair (stfd (skt s))" and takes: "net_takes (stfd (skt s))"
    and len: "3073 \<le> length (sock_in (skt s))"
    and ver: "sock_in (skt s) ! 0 = 0x03" and heap: "length (heap 3073) = 3073"
    and run: "handshake heap s = (r, s')"
  shows "r = Inr () \<and> sock_in (skt s') = drop 3073 (sock_in (skt s)) \<and>
      sock_sent (skt s') = sock_sent (skt s) @ (heap 3073)[0 := 0x03] \<and> net_fair (stfd (skt s'))"
proof -
  let ?in = "sock_in (skt s)" and ?k = "socket_new (stfd (skt s))" and ?out = "(heap 3073)[0 := 0x03]"
  have "net_fair (stfd ?k)" "1537 \<le> length (sock_in ?k)" "sock_in ?k = ?in" "sock_sent ?k = sock_sent (skt s)"
    using fair len by (simp_all add: socket_new_def)
  with socket_read_fully_fair [of ?k 1537] obtain k1 where
    k1: "socket_read_fully 1537 ?k = (Inr (take 1537 ?in), k1)" "sock_in k1 = drop 1537 ?in" "net_fair (stfd k1)"
      "sock_sent k1 = sock_sent (skt s)" "net_wr (stfd k1) = net_wr (stfd ?k)" by auto
  have c0: "take 1537 ?in ! 0 = 0x03" using ver by simp
  have "net_takes (stfd k1)" using takes k1(3,5) by (simp add: net_takes_def net_fair_def socket_new_def)
  then obtain net where "st_write ?out (send_timeout k1) (stfd k1) = (Some 3073, net)"
    using st_write_takes [of "stfd k1" ?out] heap by auto
  then obtain k2 where k2: "socket_write ?out k1 = (Inr 3073, k2)" by (simp add: socket_write_def)
  have w: "sock_sent k2 = sock_sent k1 @ ?out" "sock_in k2 = sock_in k1"
    using socket_write_ok [OF k2] by simp_all
  have "net_fair (stfd k2)"
    using k2 k1(3) by (auto simp: socket_write_def split: prod.splits if_splits dest: st_write_fair)
  moreover have "1536 \<le> length (sock_in k2)" using w(2) k1(2) len by simp
  ultimately obtain k3 where
    k3: "socket_read_fully 1536 k2 = (Inr (take 1536 (sock_in k2)), k3)" "sock_in k3 = drop 1536 (sock_in k2)"
      "net_fair (stfd k3)" "sock_sent k3 = sock_sent k2" using socket_read_fully_fair [of k2 1536] by auto
  with run k1 c0 k2 w show ?thesis by (auto simp: handshake_def with_new_skt_def)
qed

lemma handshake_refused:
  assumes "net_fair (stfd (skt s))" and "1537 \<le> length (sock_in (skt s))" and "sock_in (skt s) ! 0 \<noteq> 0x03"
  shows "\<exists>s'. handshake heap s = (Inl (Code ERROR_RTMP_PLAIN_REQUIRED), s') \<and> sock_sent (skt s') = sock_sent (skt s)"
  using assms socket_read_fully_fair [of "socket_new (stfd (skt s))" 1537]
  by (auto simp: handshake_def with_new_skt_def socket_new_def)

section \<open>Response sequences\<close>

text \<open>The bytes of a packet on the wire, with chunks of \<open>n\<close> bytes.\<close>

definition packet_wire :: "nat \<Rightarrow> RssPacket \<times> i32 \<Rightarrow> byte list" where
  "packet_wire n p = concat (chunk_list n (packet_get_perfer_cid (fst p))
     (msg_header (packet_message (fst p) (snd p))) [] (enc_packet (fst p)))"

text \<open>A response: a packet the encoder accepts and that does not change the chunk size.\<close>

definition response :: "RssPacket \<Rightarrow> bool" where
  "response pkt \<longleftrightarrow> sendable pkt \<and> packet_get_message_type pkt \<noteq> RTMP_MSG_SetChunkSize"

lemma send_packet_response:
  assumes "response pkt" and "\<And>n. length (heap n) = n" and "out_chunk_size s = int n" and "0 < n"
    and "send_packet heap pkt sid s = (r, s')"
  shows "r = Inr () \<and> only_sent s s' (packet_wire n (pkt, sid)) \<or>
    socket_failure r \<and> (\<exists>i. only_sent s s' (take i (packet_wire n (pkt, sid))))"
  using send_packet_out [where heap = heap, OF _ assms(2-4), of pkt sid r s'] assms(1,5)
  by (auto simp: response_def send_packet_def packet_wire_def on_send_message_def)

lemma send_packets_out:
  assumes heap: "\<And>n. length (heap n) = n" and n: "0 < n"
  shows "list_all (\<lambda>p. response (fst p)) ps \<Longrightarrow> out_chunk_size s = int n \<Longrightarrow> send_packets heap ps s = (r, s') \<Longrightarrow>
    r = Inr () \<and> only_sent s s' (concat (map (packet_wire n) ps)) \<or>
    socket_failure r \<and> (\<exists>i. only_sent s s' (take i (concat (map (packet_wire n) ps))))"
proof (induction ps arbitrary: s)
  case Nil
  then show ?case by (auto simp: only_sent_def)
next
  case (Cons p ps)
  obtain pkt sid where p: "p = (pkt, sid)" by (cases p)
  obtain r1 s1 where s1: "send_packet heap pkt sid s = (r1, s1)" by fastforce
  have "response pkt" using Cons.prems(1) p by simp
  from send_packet_response [where heap = heap, OF this heap Cons.prems(2) n s1] show ?case
  proof (elim disjE conjE exE)
    assume ok: "r1 = Inr ()" "only_sent s s1 (packet_wire n (pkt, sid))"
    then have "out_chunk_size s1 = int n" "send_packets heap ps s1 = (r, s')"
      using Cons.prems(2,3) s1 p by (simp_all add: only_sent_def)
    from Cons.IH [OF _ this] Cons.prems(1) consider
      "r = Inr ()" "only_sent s1 s' (concat (map (packet_wire n) ps))"
      | i where "socket_failure r" "only_sent s1 s' (take i (concat (map (packet_wire n) ps)))" by auto
    then show ?thesis
    proof cases
      case 1
      then show ?thesis using ok(2) p by (auto intro: only_sent_trans)
    next
      case (2 i)
      have "only_sent s s' (packet_wire n p @ take i (concat (map (packet_wire n) ps)))"
        using ok(2) 2(2) p by (auto intro: only_sent_trans)
      then show ?thesis using 2(1)
        by (auto intro!: exI [of _ "length (packet_wire n p) + i"])
    qed
  next
    fix i assume fail: "socket_failure r1" "only_sent s s1 (take i (packet_wire n (pkt, sid)))"
    then have "r = r1" "s' = s1" using Cons.prems(3) s1 p by (auto simp: socket_failure_def)
    moreover have "take i (packet_wire n p) =
        take (min i (length (packet_wire n p))) (concat (map (packet_wire n) (p # ps)))"
      by (simp add: min_def)
    ultimately show ?thesis using fail p by (metis prod.collapse)
  qed
qed

lemmas response_simps = response_def status_call_def set_strings_def ht_set_def new_SampleAccessPacket_def
  new_FMLEStartResPacket_def new_CreateStreamResPacket_def new_OnBWDonePacket_def

lemma start_play_responses: "list_all (\<lambda>p. response (fst p)) (start_play_packets sid)"
  by (simp add: start_play_packets_def response_simps)

lemma publish_start_responses: "list_all (\<lambda>p. response (fst p)) (publish_start_packets sid)"
  by (simp add: publish_start_packets_def response_simps)

lemma unpublish_responses: "list_all (\<lambda>p. response (fst p)) (unpublish_packets sid tid)"
  by (simp add: unpublish_packets_def response_simps)

lemma connect_app_res_response: "response (connect_app_res heap req)"
  by (simp add: connect_app_res_def response_simps)

section \<open>The exchanges end\<close>

text \<open>An operation that keeps the protocol's invariant, never grows the input and returns.\<close>

definition exchange :: "(RssProtocol, 'a) comp \<Rightarrow> bool" where
  "exchange m \<longleftrightarrow> (\<forall>s r s'. session_ok s \<longrightarrow> m s = (r, s') \<longrightarrow>
     r \<noteq> Inl OutOfFuel \<and> session_ok s' \<and> length (protocol_input s') \<le> length (protocol_input s))"

named_theorems exchange_intro \<open>operations that are exchanges\<close>

lemma exchange_bind [exchange_intro]: "exchange m \<Longrightarrow> (\<And>x. exchange (f x)) \<Longrightarrow> exchange (bind m f)"
  unfolding exchange_def by (blast elim!: bind_cases intro: order_trans)

lemma exchange_basic [exchange_intro]: "exchange (return x)" "e \<noteq> OutOfFuel \<Longrightarrow> exchange (fail e)"
  by (auto simp: exchange_def)

lemma exchange_if [exchange_intro]: "exchange m \<Longrightarrow> exchange n \<Longrightarrow> exchange (if b then m else n)"
  by simp

definition identified :: "(RssPacket \<Rightarrow> bool) \<Rightarrow> RssCommonMessage \<Rightarrow> RssPacket option res" where
  "identified pick msg =
     (if \<not> header_is_amf0_command (msg_header msg) \<and> \<not> header_is_amf3_command (msg_header msg) then Inr None
      else
        (case common_decode_packet msg of
           (Inl e, _) \<Rightarrow> Inl e
         | (Inr _, m) \<Rightarrow>
             (case msg_packet m of
                None \<Rightarrow> Inl AssertFailed
              | Some pkt \<Rightarrow> Inr (if pick pkt then Some pkt else None))))"

lemma identify_loop_scan: "identify_loop n pick = scan recv_message (identified pick) n"
proof (induction n)
  case (Suc n)
  then show ?case
    by (auto simp: identified_def intro!: arg_cong [of _ _ "bind recv_message"] split: prod.split sum.split option.split)
qed simp

lemma identified_fuel: "has_payload m \<Longrightarrow> identified pick m \<noteq> Inl OutOfFuel"
  using decode_received [of m] by (auto simp: identified_def split: prod.split sum.split option.split)

lemma identified_found: "identified pick m = Inr (Some pkt) \<Longrightarrow> pick pkt"
  by (cases "common_decode_packet m") (auto simp: identified_def split: if_splits sum.splits option.splits)

lemma identify_packet_safe:
  assumes "session_ok s" and "identify_packet pick s = (r, s')"
  shows "r \<noteq> Inl OutOfFuel \<and> session_ok s' \<and> length (protocol_input s') \<le> length (protocol_input s) \<and>
    (\<forall>pkt. r = Inr pkt \<longrightarrow> pick pkt \<and> length (protocol_input s') < length (protocol_input s))"
proof -
  have "scan recv_message (identified pick) (length (protocol_input s) + 1) s = (r, s')"
    using assms(2) by (simp add: identify_packet_def identify_loop_scan del: scan.simps identify_loop.simps)
  from rx.scan_safe [of "identified pick", OF _ assms(1) _ this] identified_fuel identified_found show ?thesis by auto
qed

lemma exchange_identify [exchange_intro]: "exchange (identify_packet pick)"
  using identify_packet_safe unfolding exchange_def by blast

lemma exchange_expect [exchange_intro]: "exchange (expect_packet want)"
proof -
  have "exchange (expect_message want)" unfolding exchange_def using expect_message_safe by blast
  moreover have "exchange (case msg_packet m of None \<Rightarrow> fail AssertFailed | Some pkt \<Rightarrow> return pkt)" for m
    by (auto intro: exchange_intro split: option.split)
  ultimately show ?thesis unfolding expect_packet_def by (rule exchange_bind)
qed

lemma only_sent_session: "only_sent s s' bs \<Longrightarrow> session_ok s \<Longrightarrow> session_ok s'"
  by (simp add: only_sent_def session_ok_def protocol_ok_def)

lemma exchange_send_packet:
  assumes "response pkt" and "\<And>n. length (heap n) = n"
  shows "exchange (send_packet heap pkt sid)"
  unfolding exchange_def
proof (intro allI impI)
  fix s r s' assume ok: "session_ok s" and run: "send_packet heap pkt sid s = (r, s')"
  from ok have "out_chunk_size s = int (nat (out_chunk_size s))" "0 < nat (out_chunk_size s)"
    by (simp_all add: session_ok_def)
  from send_packet_response [where heap = heap, OF assms this run] only_sent_session [OF _ ok]
  show "r \<noteq> Inl OutOfFuel \<and> session_ok s' \<and> length (protocol_input s') \<le> length (protocol_input s)"
    by (auto simp: socket_failure_def only_sent_def)
qed

lemma exchange_send_packets:
  assumes "\<And>n. length (heap n) = n"
  shows "list_all (\<lambda>p. response (fst p)) ps \<Longrightarrow> exchange (send_packets heap ps)"
proof (induction ps)
  case (Cons p ps)
  obtain pkt sid where p: "p = (pkt, sid)" by (cases p)
  with Cons have "response pkt" "exchange (send_packets heap ps)" by simp_all
  then show ?case
    unfolding p send_packets.simps by (intro exchange_bind exchange_send_packet [where heap = heap, OF _ assms])
qed (simp add: exchange_def)

lemma exchange_set_chunk_size:
  assumes heap: "\<And>n. length (heap n) = n" and v: "RTMP_MIN_CHUNK_SIZE \<le> sint v"
  shows "exchange (set_chunk_size heap v)"
  unfolding exchange_def
proof (intro allI impI)
  fix s r s' assume ok: "session_ok s" and run: "set_chunk_size heap v s = (r, s')"
  from ok have n: "out_chunk_size s = int (nat (out_chunk_size s))" "0 < nat (out_chunk_size s)"
    by (simp_all add: session_ok_def)
  have pkt: "sendable (RssSetChunkSizePacket v)" by simp
  from send_packet_out [where heap = heap, OF pkt heap n run [unfolded set_chunk_size_def send_packet_def]] show
    "r \<noteq> Inl OutOfFuel \<and> session_ok s' \<and> length (protocol_input s') \<le> length (protocol_input s)"
  proof (elim disjE exE conjE)
    fix s1 msg'
    assume out: "only_sent s s1 (concat (chunk_list (nat (out_chunk_size s)) (packet_get_perfer_cid (RssSetChunkSizePacket v))
        (msg_header (packet_message (RssSetChunkSizePacket v) 0)) [] (enc_packet (RssSetChunkSizePacket v))))"
      and sent: "on_send_message (CommonMessage msg') s1 = (r, s')" "msg_packet msg' = Some (RssSetChunkSizePacket v)"
    from only_sent_session [OF out ok] out sent v show ?thesis
      by (auto simp: on_send_message_def only_sent_def session_ok_def protocol_ok_def protocol_input_def split: if_splits)
  next
    fix i assume "socket_failure r" and "only_sent s s' (take i (concat (chunk_list (nat (out_chunk_size s))
      (packet_get_perfer_cid (RssSetChunkSizePacket v)) (msg_header (packet_message (RssSetChunkSizePacket v) 0)) []
      (enc_packet (RssSetChunkSizePacket v)))))"
    then show ?thesis using only_sent_session [OF _ ok] by (auto simp: socket_failure_def only_sent_def)
  qed
qed

lemma transaction_responses: "response (new_FMLEStartResPacket t)" "response (new_CreateStreamResPacket t i)"
  "response new_OnBWDonePacket" "response (RssSetWindowAckSizePacket v)" "response (RssSetPeerBandwidthPacket v b)"
  by (simp_all add: response_simps)

lemma exchange_start_publish:
  assumes "\<And>n. length (heap n) = n"
  shows "exchange (start_publish heap sid)"
  unfolding start_publish_def
  by (intro exchange_intro exchange_send_packet [where heap = heap, OF _ assms]
    exchange_send_packets [where heap = heap, OF assms] transaction_responses publish_start_responses)

lemma exchange_start_play:
  assumes "\<And>n. length (heap n) = n"
  shows "exchange (start_play heap sid)"
  unfolding start_play_def by (intro exchange_send_packets [where heap = heap, OF assms] start_play_responses)

lemma exchange_identify_client:
  assumes "\<And>n. length (heap n) = n"
  shows "exchange (identify_client heap sid)"
  unfolding identify_client_def identify_create_stream_client_def identify_fmle_publish_client_def
  by (intro exchange_intro exchange_send_packet [where heap = heap, OF _ assms] transaction_responses)

lemma exchange_connect_app: "exchange (connect_app req)"
  unfolding connect_app_def
proof (intro exchange_intro)
  fix pkt
  have "fst (discovery_app q) \<noteq> Inl OutOfFuel" for q
    using discovery_app_result [of q] by (metis Inl_inject Inr_not_Inl prod.collapse rss_error.distinct(7))
  then have "fst (request_of co req) \<noteq> Inl OutOfFuel" for co
    by (simp add: request_of_def split: option.split)
  then show "exchange (case pkt of RssConnectAppPacket _ _ (Some command_object) \<Rightarrow>
         (case request_of command_object req of (Inl e, _) \<Rightarrow> fail e | (Inr _, req') \<Rightarrow> return req')
       | _ \<Rightarrow> fail Undefined)"
    by (auto intro!: exchange_intro split: RssPacket.split option.split prod.split sum.split) (metis fst_conv)
qed

end
