(* ===== verification/Rss_Source_Correct.thy ===== *)
theory Rss_Source_Correct
  imports Rss_Source Rss_Packet_Correct
begin

text \<open>
  Correctness of the live source. The ownership invariant \<open>world_ok\<close> says that the reference
  count of every shared payload is the number of message objects that hold it, so that nothing is
  freed twice, used after free or leaked, and that sources and consumers refer to each
  other. Every operation keeps it and never meets undefined behaviour. On top of it, each
  operation is shown to implement the abstract picture: a stream broadcasts every message to the
  queues of all its consumers, in order, and a new consumer starts with the cached messages.
\<close>

section \<open>Ownership\<close>

definition refs :: "nat \<Rightarrow> RssSharedPtrMessage list \<Rightarrow> nat" where
  "refs a ms = length (filter (\<lambda>m. shm_ptr m = Some a) ms)"

lemma refs_simps [simp]:
  "refs a [] = 0"
  "refs a (m # ms) = (if shm_ptr m = Some a then 1 else 0) + refs a ms"
  "refs a (ms @ ms') = refs a ms + refs a ms'"
  by (simp_all add: refs_def)

fun held :: "RssSharedPtrMessage option \<Rightarrow> RssSharedPtrMessage list" where
  "held None = []"
| "held (Some m) = [m]"

definition caches :: "RssSource \<Rightarrow> RssSharedPtrMessage list" where
  "caches src = held (cache_metadata src) @ held (cache_sh_video src) @ held (cache_sh_audio src)"

text \<open>The number of message objects that hold payload \<open>a\<close>; \<open>E\<close> are those outside queues and caches.\<close>

definition holders :: "nat \<Rightarrow> RssSharedPtrMessage list \<Rightarrow> rss_world \<Rightarrow> nat" where
  "holders a E w = tab_sum (\<lambda>con. refs a (con_msgs con)) (consumer_at w) +
     tab_sum (\<lambda>src. refs a (caches src)) (pool w) + refs a E"

definition counted :: "RssSharedPtrMessage list \<Rightarrow> rss_world \<Rightarrow> bool" where
  "counted E w \<longleftrightarrow> (\<forall>a. int (holders a E w) =
     (case shared w a of None \<Rightarrow> 0 | Some sp \<Rightarrow> sp_shared_count sp + 1) \<and>
     (\<forall>sp. shared w a = Some sp \<longrightarrow> 0 \<le> sp_shared_count sp))"

definition initialised :: "RssSharedPtrMessage list \<Rightarrow> rss_world \<Rightarrow> bool" where
  "initialised E w \<longleftrightarrow> (\<forall>m\<in>set E. shm_ptr m \<noteq> None) \<and>
     (\<forall>c con. consumer_at w c = Some con \<longrightarrow> (\<forall>m\<in>set (con_msgs con). shm_ptr m \<noteq> None)) \<and>
     (\<forall>u src. pool w u = Some src \<longrightarrow> (\<forall>m\<in>set (caches src). shm_ptr m \<noteq> None))"

definition linked :: "rss_world \<Rightarrow> bool" where
  "linked w \<longleftrightarrow>
     (\<forall>u src. pool w u = Some src \<longrightarrow> distinct (src_consumers src) \<and>
        (\<forall>c. c \<in> set (src_consumers src) \<longleftrightarrow> (\<exists>con. consumer_at w c = Some con \<and> con_source con = u))) \<and>
     (\<forall>c con. consumer_at w c = Some con \<longrightarrow> c < consumer_next w \<and> pool w (con_source con) \<noteq> None)"

definition tables_ok :: "rss_world \<Rightarrow> bool" where
  "tables_ok w \<longleftrightarrow> finite (dom (consumer_at w)) \<and> finite (dom (pool w)) \<and>
     (\<forall>a. shared_next w \<le> a \<longrightarrow> shared w a = None)"

definition world_ok :: "RssSharedPtrMessage list \<Rightarrow> rss_world \<Rightarrow> bool" where
  "world_ok E w \<longleftrightarrow> tables_ok w \<and> counted E w \<and> initialised E w \<and> linked w"

lemma world_ok_new: "world_ok [] world_new"
  by (simp add: world_ok_def tables_ok_def counted_def initialised_def linked_def holders_def world_new_def)

text \<open>A held payload is allocated.\<close>

lemma counted_live: "counted E w \<Longrightarrow> 0 < holders a E w \<Longrightarrow> shared w a \<noteq> None"
  unfolding counted_def by (cases "shared w a") (auto dest!: spec [of _ a])

lemma refs_pos: "m \<in> set ms \<Longrightarrow> shm_ptr m = Some a \<Longrightarrow> 0 < refs a ms"
  by (induction ms) auto

lemma holders_E: "m \<in> set E \<Longrightarrow> shm_ptr m = Some a \<Longrightarrow> 0 < holders a E w"
  by (simp add: holders_def refs_pos)

lemma holders_cache:
  assumes "tables_ok w" and "pool w u = Some src" and "m \<in> set (caches src)" and "shm_ptr m = Some a"
  shows "0 < holders a E w"
  using tab_sum_member [of "pool w" u src "\<lambda>src. refs a (caches src)"] refs_pos [OF assms(3,4)] assms(1,2)
  by (simp add: holders_def tables_ok_def)

lemma holders_queue:
  assumes "tables_ok w" and "consumer_at w c = Some con" and "m \<in> set (con_msgs con)" and "shm_ptr m = Some a"
  shows "0 < holders a E w"
  using tab_sum_member [of "consumer_at w" c con "\<lambda>con. refs a (con_msgs con)"] refs_pos [OF assms(3,4)]
    assms(1,2)
  by (simp add: holders_def tables_ok_def)

section \<open>Stability of payloads\<close>

text \<open>
  Addresses are not reused and a payload does not change while it is allocated.
\<close>

definition content :: "RssSharedPtr \<Rightarrow> byte list option \<times> int \<times> int" where
  "content sp = (sp_payload sp, sp_size sp, sp_perfer_cid sp)"

definition stable :: "rss_world \<Rightarrow> rss_world \<Rightarrow> bool" where
  "stable w w' \<longleftrightarrow> shared_next w \<le> shared_next w' \<and>
     (\<forall>a. a < shared_next w \<longrightarrow> shared w' a \<noteq> None \<longrightarrow>
        map_option content (shared w' a) = map_option content (shared w a))"

lemma stable_refl [simp, intro]: "stable w w"
  by (simp add: stable_def)

lemma stable_trans [trans]:
  assumes "stable w w'" and "stable w' w''"
  shows "stable w w''"
  unfolding stable_def
proof (intro conjI allI impI)
  show "shared_next w \<le> shared_next w''" using assms by (auto simp: stable_def)
  fix a assume a: "a < shared_next w" "shared w'' a \<noteq> None"
  with assms have eq: "map_option content (shared w'' a) = map_option content (shared w' a)"
    by (auto simp: stable_def)
  with a(2) have "shared w' a \<noteq> None" by (cases "shared w' a") auto
  with a(1) assms(1) eq show "map_option content (shared w'' a) = map_option content (shared w a)"
    by (simp add: stable_def)
qed

lemma stable_imsg:
  assumes "stable w w'" and "tables_ok w" and "shm_ptr m = Some a" and "shared w a \<noteq> None"
    and "shared w' a \<noteq> None"
  shows "to_imsg w' m = to_imsg w m"
proof -
  from assms(2,4) have "a < shared_next w" unfolding tables_ok_def by (metis not_le)
  with assms show ?thesis by (fastforce simp: stable_def to_imsg_def content_def)
qed

text \<open>What operations on payloads alone leave as it was.\<close>

definition same_tables :: "rss_world \<Rightarrow> rss_world \<Rightarrow> bool" where
  "same_tables w w' \<longleftrightarrow> consumer_at w' = consumer_at w \<and> consumer_next w' = consumer_next w \<and> pool w' = pool w"

lemma same_tables_world:
  "same_tables w w' \<Longrightarrow> linked w' = linked w" "same_tables w w' \<Longrightarrow> holders a E w' = holders a E w"
  "same_tables w w' \<Longrightarrow> initialised E w' = initialised E w"
  by (simp_all add: same_tables_def linked_def holders_def initialised_def)

section \<open>Operations on shared messages\<close>

lemmas source_defs = deref_def set_shared_def set_consumer_def set_source_def

lemma shared_copy_ok:
  assumes "world_ok E w" and "shm_ptr m = Some a" and "shared w a \<noteq> None"
  shows "\<exists>w'. shared_copy m w = (Inr m, w') \<and> world_ok (m # E) w' \<and> stable w w' \<and> same_tables w w' \<and>
    (\<forall>b. shared w b \<noteq> None \<longrightarrow> shared w' b \<noteq> None)"
proof -
  from assms(3) obtain sp where sp: "shared w a = Some sp" by blast
  let ?w' = "w\<lparr>shared := (shared w)(a \<mapsto> sp\<lparr>sp_shared_count := sp_shared_count sp + 1\<rparr>)\<rparr>"
  have st: "same_tables w ?w'" by (simp add: same_tables_def)
  have "counted (m # E) ?w'" unfolding counted_def
  proof (intro allI)
    fix b
    have "holders b (m # E) ?w' = holders b E w + (if b = a then 1 else 0)"
      using assms(2) by (simp add: holders_def)
    moreover have "counted E w" using assms(1) by (simp add: world_ok_def)
    ultimately show "int (holders b (m # E) ?w') =
      (case shared ?w' b of None \<Rightarrow> 0 | Some sp \<Rightarrow> sp_shared_count sp + 1) \<and>
      (\<forall>sp. shared ?w' b = Some sp \<longrightarrow> 0 \<le> sp_shared_count sp)"
      using sp by (auto simp: counted_def dest!: spec [of _ b] split: option.splits)
  qed
  moreover have "initialised (m # E) ?w'" "linked ?w'" "tables_ok ?w'"
    using assms(1,2) sp by (auto simp: world_ok_def initialised_def linked_def tables_ok_def)
  moreover have "stable w ?w'" using sp by (auto simp: stable_def content_def)
  moreover have "shared_copy m w = (Inr m, ?w')"
    using assms(2) sp by (simp add: shared_copy_def source_defs shared_message_new_def)
  ultimately show ?thesis using st by (auto simp: world_ok_def)
qed

lemma shared_destroy_ok:
  assumes "world_ok (m # E) w"
  shows "\<exists>w'. shared_destroy m w = (Inr (), w') \<and> world_ok E w' \<and> stable w w' \<and> same_tables w w'"
proof -
  from assms have ok: "tables_ok w" "counted (m # E) w" "initialised (m # E) w" "linked w"
    by (simp_all add: world_ok_def)
  from ok(3) obtain a where a: "shm_ptr m = Some a" by (auto simp: initialised_def)
  from counted_live [OF ok(2) holders_E [of m "m # E", OF _ a]] obtain sp where sp: "shared w a = Some sp"
    by auto
  let ?sp' = "if sp_shared_count sp = 0 then None else Some (sp\<lparr>sp_shared_count := sp_shared_count sp - 1\<rparr>)"
  let ?w' = "w\<lparr>shared := (shared w)(a := ?sp')\<rparr>"
  have "counted E ?w'" unfolding counted_def
  proof (intro allI)
    fix b
    have "holders b (m # E) w = holders b E ?w' + (if b = a then 1 else 0)"
      using a by (simp add: holders_def)
    with ok(2) show "int (holders b E ?w') =
      (case shared ?w' b of None \<Rightarrow> 0 | Some sp \<Rightarrow> sp_shared_count sp + 1) \<and>
      (\<forall>sp. shared ?w' b = Some sp \<longrightarrow> 0 \<le> sp_shared_count sp)"
      using sp by (auto simp: counted_def dest!: spec [of _ b] split: option.splits)
  qed
  moreover have "initialised E ?w'" "linked ?w'" "tables_ok ?w'"
    using ok sp by (auto simp: initialised_def linked_def tables_ok_def)
  moreover have "stable w ?w'" using sp by (auto simp: stable_def content_def)
  moreover have "shared_destroy m w = (Inr (), ?w')"
    using a sp by (simp add: shared_destroy_def source_defs)
  ultimately show ?thesis by (auto simp: world_ok_def same_tables_def)
qed

lemma destroy_all_ok:
  "world_ok (ms @ E) w \<Longrightarrow>
   \<exists>w'. destroy_all ms w = (Inr (), w') \<and> world_ok E w' \<and> stable w w' \<and> same_tables w w'"
proof (induction ms arbitrary: w)
  case Nil
  then show ?case by (auto simp: same_tables_def)
next
  case (Cons m ms)
  from shared_destroy_ok [of m "ms @ E" w] Cons.prems obtain w1 where
    w1: "shared_destroy m w = (Inr (), w1)" "world_ok (ms @ E) w1" "stable w w1" "same_tables w w1" by auto
  from Cons.IH [OF w1(2)] obtain w2 where
    "destroy_all ms w1 = (Inr (), w2)" "world_ok E w2" "stable w1 w2" "same_tables w1 w2" by blast
  with w1 show ?case by (auto simp: same_tables_def intro: stable_trans)
qed

text \<open>The message a received message becomes when it is dispatched.\<close>

definition shared_image :: "RssMessageHeader \<Rightarrow> byte list option \<Rightarrow> int \<Rightarrow> IRssMessage" where
  "shared_image h payload sz =
     SharedPtrMessage (h\<lparr>payload_length := word_of_int sz\<rparr>) sz payload
       (if header_is_video h then RTMP_CID_Video else if header_is_audio h then RTMP_CID_Audio
        else RTMP_CID_OverConnection2)"

lemma shared_initialize_ok:
  assumes "world_ok E w"
  shows "\<exists>m w'. shared_initialize h payload sz shared_message_new w = (Inr m, w') \<and> world_ok (m # E) w' \<and>
    stable w w' \<and> same_tables w w' \<and> to_imsg w' m = shared_image h payload sz \<and>
    (\<forall>b. shared w b \<noteq> None \<longrightarrow> shared w' b \<noteq> None)"
proof -
  let ?a = "shared_next w"
  let ?sp = "\<lparr>sp_payload = payload, sp_size = sz,
    sp_perfer_cid = (if header_is_video h then RTMP_CID_Video else if header_is_audio h then RTMP_CID_Audio
                     else RTMP_CID_OverConnection2), sp_shared_count = 0\<rparr>"
  let ?w' = "w\<lparr>shared_next := ?a + 1, shared := (shared w)(?a \<mapsto> ?sp)\<rparr>"
  let ?m = "shared_message_new\<lparr>shm_header := h\<lparr>payload_length := word_of_int sz\<rparr>, shm_ptr := Some ?a\<rparr>"
  from assms have ok: "tables_ok w" "counted E w" by (simp_all add: world_ok_def)
  then have fresh: "shared w ?a = None" by (simp add: tables_ok_def)
  have "counted (?m # E) ?w'" unfolding counted_def
  proof (intro allI)
    fix b
    have "holders b (?m # E) ?w' = holders b E w + (if b = ?a then 1 else 0)"
      by (simp add: holders_def)
    with ok(2) show "int (holders b (?m # E) ?w') =
      (case shared ?w' b of None \<Rightarrow> 0 | Some sp \<Rightarrow> sp_shared_count sp + 1) \<and>
      (\<forall>sp. shared ?w' b = Some sp \<longrightarrow> 0 \<le> sp_shared_count sp)"
      using fresh by (auto simp: counted_def dest!: spec [of _ b] split: option.splits)
  qed
  moreover have "initialised (?m # E) ?w'" "linked ?w'" "tables_ok ?w'"
    using assms by (auto simp: world_ok_def initialised_def linked_def tables_ok_def)
  moreover have "stable w ?w'" by (auto simp: stable_def)
  moreover have "shared_initialize h payload sz shared_message_new w = (Inr ?m, ?w')"
    by (simp add: shared_initialize_def source_defs shared_message_new_def)
  moreover have "to_imsg ?w' ?m = shared_image h payload sz" by (simp add: to_imsg_def shared_image_def)
  ultimately show ?thesis by (auto simp: world_ok_def same_tables_def)
qed

section \<open>Moving messages between owners\<close>

lemma move_queue:
  assumes ok: "world_ok E w" and con: "consumer_at w c = Some con"
    and refs: "\<And>a. refs a ms + refs a E' = refs a (con_msgs con) + refs a E"
    and init: "\<forall>m\<in>set ms \<union> set E'. shm_ptr m \<noteq> None"
  shows "world_ok E' (w\<lparr>consumer_at := (consumer_at w)(c \<mapsto> con\<lparr>con_msgs := ms\<rparr>)\<rparr>)"
proof -
  let ?w' = "w\<lparr>consumer_at := (consumer_at w)(c \<mapsto> con\<lparr>con_msgs := ms\<rparr>)\<rparr>"
  have fin: "finite (dom (consumer_at w))" using ok by (simp add: world_ok_def tables_ok_def)
  have "holders a E' ?w' = holders a E w" for a
    using tab_sum_update [OF fin con, of "\<lambda>con. refs a (con_msgs con)" "con\<lparr>con_msgs := ms\<rparr>"] refs [of a]
    by (simp add: holders_def)
  then have "counted E' ?w'" using ok by (simp add: world_ok_def counted_def)
  moreover have "initialised E' ?w'" using ok init by (auto simp: world_ok_def initialised_def)
  moreover have "linked ?w'"
    using ok con unfolding world_ok_def linked_def by (auto split: if_splits)
  moreover have "tables_ok ?w'" using ok by (auto simp: world_ok_def tables_ok_def)
  ultimately show ?thesis by (simp add: world_ok_def)
qed

lemma move_cache:
  assumes ok: "world_ok E w" and src: "pool w u = Some src"
    and same: "src_consumers src' = src_consumers src"
    and refs: "\<And>a. refs a (caches src') + refs a E' = refs a (caches src) + refs a E"
    and init: "\<forall>m\<in>set (caches src') \<union> set E'. shm_ptr m \<noteq> None"
  shows "world_ok E' (w\<lparr>pool := (pool w)(u \<mapsto> src')\<rparr>)"
proof -
  let ?w' = "w\<lparr>pool := (pool w)(u \<mapsto> src')\<rparr>"
  have fin: "finite (dom (pool w))" using ok by (simp add: world_ok_def tables_ok_def)
  have "holders a E' ?w' = holders a E w" for a
    using tab_sum_update [OF fin src, of "\<lambda>src. refs a (caches src)" src'] refs [of a]
    by (simp add: holders_def)
  then have "counted E' ?w'" using ok by (simp add: world_ok_def counted_def)
  moreover have "initialised E' ?w'" using ok init by (auto simp: world_ok_def initialised_def)
  moreover have "linked ?w'"
    using ok src same unfolding world_ok_def linked_def by auto
  moreover have "tables_ok ?w'" using ok by (auto simp: world_ok_def tables_ok_def)
  ultimately show ?thesis by (simp add: world_ok_def)
qed

lemma initialised_handles:
  "world_ok E w \<Longrightarrow> m \<in> set E \<Longrightarrow> shm_ptr m \<noteq> None"
  "world_ok E w \<Longrightarrow> consumer_at w c = Some con \<Longrightarrow> m \<in> set (con_msgs con) \<Longrightarrow> shm_ptr m \<noteq> None"
  "world_ok E w \<Longrightarrow> pool w u = Some src \<Longrightarrow> m \<in> set (caches src) \<Longrightarrow> shm_ptr m \<noteq> None"
  by (auto simp: world_ok_def initialised_def)

lemma live_handles:
  "world_ok E w \<Longrightarrow> m \<in> set E \<Longrightarrow> shm_ptr m = Some a \<Longrightarrow> shared w a \<noteq> None"
  "world_ok E w \<Longrightarrow> consumer_at w c = Some con \<Longrightarrow> m \<in> set (con_msgs con) \<Longrightarrow> shm_ptr m = Some a \<Longrightarrow>
     shared w a \<noteq> None"
  "world_ok E w \<Longrightarrow> pool w u = Some src \<Longrightarrow> m \<in> set (caches src) \<Longrightarrow> shm_ptr m = Some a \<Longrightarrow>
     shared w a \<noteq> None"
  unfolding world_ok_def by (meson counted_live holders_E holders_queue holders_cache)+

abbreviation push :: "RssSharedPtrMessage \<Rightarrow> RssConsumer \<Rightarrow> RssConsumer" where
  "push m con \<equiv> con\<lparr>con_msgs := con_msgs con @ [m]\<rparr>"

lemma enqueue_ok:
  assumes "world_ok (m # E) w" and "consumer_at w c = Some con"
  shows "\<exists>w'. enqueue c m w = (Inr (), w') \<and> world_ok E w' \<and>
    w' = w\<lparr>consumer_at := (consumer_at w)(c \<mapsto> push m con)\<rparr>"
proof -
  have "world_ok E (w\<lparr>consumer_at := (consumer_at w)(c \<mapsto> push m con)\<rparr>)"
    using initialised_handles(1) [OF assms(1)] initialised_handles(2) [OF assms]
    by (intro move_queue [OF assms]) auto
  then show ?thesis using assms(2) by (simp add: enqueue_def source_defs)
qed

lemma dispatch_ok:
  assumes "world_ok E w" and "shm_ptr m = Some a" and "shared w a \<noteq> None" and "distinct cs"
    and "\<forall>c\<in>set cs. consumer_at w c \<noteq> None"
  shows "\<exists>w'. dispatch m cs w = (Inr (), w') \<and> world_ok E w' \<and> stable w w' \<and> pool w' = pool w \<and>
    consumer_next w' = consumer_next w \<and>
    consumer_at w' = (\<lambda>c. if c \<in> set cs then map_option (push m) (consumer_at w c) else consumer_at w c)"
  using assms
proof (induction cs arbitrary: w)
  case Nil
  then show ?case by auto
next
  case (Cons c cs)
  from Cons.prems(5) obtain con where con: "consumer_at w c = Some con" by auto
  from shared_copy_ok [OF Cons.prems(1-3)] obtain w1 where
    w1: "shared_copy m w = (Inr m, w1)" "world_ok (m # E) w1" "stable w w1" "same_tables w w1" "shared w1 a \<noteq> None"
    using Cons.prems(3) by blast
  from w1(4) con have con1: "consumer_at w1 c = Some con" by (simp add: same_tables_def)
  from enqueue_ok [OF w1(2) con1] obtain w2 where
    w2: "enqueue c m w1 = (Inr (), w2)" "world_ok E w2" "w2 = w1\<lparr>consumer_at := (consumer_at w1)(c \<mapsto> push m con)\<rparr>"
    by blast
  have "\<forall>d\<in>set cs. consumer_at w2 d \<noteq> None" using w2(3) w1(4) Cons.prems(5) by (auto simp: same_tables_def)
  moreover have "shared w2 a \<noteq> None" using w2(3) w1(5) by simp
  ultimately obtain w3 where
    w3: "dispatch m cs w2 = (Inr (), w3)" "world_ok E w3" "stable w2 w3" "pool w3 = pool w2"
      "consumer_next w3 = consumer_next w2"
      "consumer_at w3 = (\<lambda>d. if d \<in> set cs then map_option (push m) (consumer_at w2 d) else consumer_at w2 d)"
    using Cons.IH [OF w2(2) Cons.prems(2)] Cons.prems(4) by auto
  have "stable w1 w2" using w2(3) by (simp add: stable_def)
  then have "stable w w3" using w1(3) w3(3) by (blast intro: stable_trans)
  moreover have "consumer_at w3 =
      (\<lambda>d. if d \<in> set (c # cs) then map_option (push m) (consumer_at w d) else consumer_at w d)"
    using w3(6) w2(3) w1(4) con Cons.prems(4) by (auto simp: same_tables_def fun_eq_iff)
  ultimately show ?case using w1 w2 w3 by (auto simp: same_tables_def)
qed

text \<open>A message in a cache can be dispatched as well as one held outside.\<close>

lemma dispatch_cached_ok:
  assumes "world_ok E w" and "pool w u = Some src" and "m \<in> set (caches src)" and "distinct cs"
    and "\<forall>c\<in>set cs. consumer_at w c \<noteq> None"
  shows "\<exists>w'. dispatch m cs w = (Inr (), w') \<and> world_ok E w' \<and> stable w w' \<and> pool w' = pool w \<and>
    consumer_next w' = consumer_next w \<and>
    consumer_at w' = (\<lambda>c. if c \<in> set cs then map_option (push m) (consumer_at w c) else consumer_at w c)"
proof -
  from initialised_handles(3) [OF assms(1-3)] obtain a where a: "shm_ptr m = Some a" by blast
  show ?thesis
    by (rule dispatch_ok [OF assms(1) a live_handles(3) [OF assms(1-3) a] assms(4,5)])
qed

section \<open>The abstract picture\<close>

definition queue :: "rss_world \<Rightarrow> nat \<Rightarrow> IRssMessage list" where
  "queue w c = (case consumer_at w c of None \<Rightarrow> [] | Some con \<Rightarrow> map (to_imsg w) (con_msgs con))"

definition members :: "rss_world \<Rightarrow> string \<Rightarrow> nat set" where
  "members w u = {c. \<exists>con. consumer_at w c = Some con \<and> con_source con = u}"

definition cached :: "rss_world \<Rightarrow> string \<Rightarrow> IRssMessage option \<times> IRssMessage option \<times> IRssMessage option" where
  "cached w u =
     (case pool w u of
        None \<Rightarrow> (None, None, None)
      | Some src \<Rightarrow> (map_option (to_imsg w) (cache_metadata src), map_option (to_imsg w) (cache_sh_video src),
                     map_option (to_imsg w) (cache_sh_audio src)))"

lemma members_consumers: "world_ok E w \<Longrightarrow> pool w u = Some src \<Longrightarrow> set (src_consumers src) = members w u"
  by (auto simp: world_ok_def linked_def members_def)

text \<open>A message that is held before and after a stable change looks the same.\<close>

lemma held_stable:
  assumes "stable w w'" and "world_ok E w" and "shm_ptr m = Some a" and "shared w a \<noteq> None" and "shared w' a \<noteq> None"
  shows "to_imsg w' m = to_imsg w m"
  using assms by (intro stable_imsg) (auto simp: world_ok_def)

lemma queue_stable:
  assumes "stable w w'" and "world_ok E w" and "world_ok E' w'"
    and "consumer_at w c = Some con" and "consumer_at w' c = Some con'" and "con_msgs con' = con_msgs con @ ms"
  shows "queue w' c = queue w c @ map (to_imsg w') ms"
proof -
  have "to_imsg w' m = to_imsg w m" if m: "m \<in> set (con_msgs con)" for m
  proof -
    from initialised_handles(2) [OF assms(2,4) m] obtain a where a: "shm_ptr m = Some a" by blast
    from m assms(6) have "m \<in> set (con_msgs con')" by simp
    with held_stable [OF assms(1,2) a] a show ?thesis
      using live_handles(2) [OF assms(2,4) m a] live_handles(2) [OF assms(3,5)] by blast
  qed
  then show ?thesis using assms(4-6) by (simp add: queue_def)
qed

lemma held_views:
  assumes "stable w w'" and "world_ok E w" and "world_ok E' w'" and "m \<in> set E" and "m \<in> set E'"
  shows "to_imsg w' m = to_imsg w m"
proof -
  from initialised_handles(1) [OF assms(2,4)] obtain a where a: "shm_ptr m = Some a" by blast
  show ?thesis
    by (rule held_stable [OF assms(1,2) a live_handles(1) [OF assms(2,4) a] live_handles(1) [OF assms(3,5) a]])
qed

lemma cache_stable:
  assumes "stable w w'" and "world_ok E w" and "world_ok E' w'" and "pool w u = Some src" and "pool w' u = Some src'"
    and "m \<in> set (caches src)" and "m \<in> set (caches src')"
  shows "to_imsg w' m = to_imsg w m"
proof -
  from initialised_handles(3) [OF assms(2,4,6)] obtain a where a: "shm_ptr m = Some a" by blast
  show ?thesis
    by (rule held_stable [OF assms(1,2) a live_handles(3) [OF assms(2,4,6) a] live_handles(3) [OF assms(3,5,7) a]])
qed

lemma cached_stable:
  assumes "stable w w'" and "world_ok E w" and "world_ok E' w'" and "pool w' u = pool w u"
  shows "cached w' u = cached w u"
proof (cases "pool w u")
  case (Some src)
  with assms(4) have "pool w' u = Some src" by simp
  from cache_stable [OF assms(1-3) Some this] have "to_imsg w' m = to_imsg w m" if "m \<in> set (caches src)" for m
    using that by blast
  then show ?thesis using Some assms(4)
    by (cases "cache_metadata src"; cases "cache_sh_video src"; cases "cache_sh_audio src")
      (simp_all add: cached_def caches_def)
qed (use assms(4) in \<open>simp add: cached_def\<close>)

text \<open>
  The effect of publishing a message \<open>i\<close> on the stream \<open>u\<close>: it is appended to the queue of every
  consumer of the stream; other queues, other streams and the messages held outside keep as they are.
\<close>

definition broadcasts :: "RssSharedPtrMessage list \<Rightarrow> string \<Rightarrow> IRssMessage \<Rightarrow> rss_world \<Rightarrow> rss_world \<Rightarrow> bool" where
  "broadcasts E u i w w' \<longleftrightarrow> world_ok E w' \<and>
     (\<forall>c. queue w' c = queue w c @ (if c \<in> members w u then [i] else [])) \<and>
     members w' = members w \<and> dom (pool w') = dom (pool w) \<and>
     map (to_imsg w') E = map (to_imsg w) E \<and>
     (\<forall>v. v \<noteq> u \<longrightarrow> cached w' v = cached w v)"

lemma broadcastsI:
  assumes ok: "world_ok E w" "world_ok E w'" "stable w w'"
    and con: "consumer_at w' = (\<lambda>c. if c \<in> set (src_consumers src) then map_option (push m) (consumer_at w c)
        else consumer_at w c)"
    and pool: "pool w u = Some src" "pool w' = (pool w)(u \<mapsto> src')"
    and img: "\<And>a. shm_ptr m = Some a \<Longrightarrow> shared w' a \<noteq> None \<Longrightarrow> to_imsg w' m = i"
  shows "broadcasts E u i w w'"
proof -
  have mem: "set (src_consumers src) = members w u" by (rule members_consumers [OF ok(1) pool(1)])
  have "queue w' c = queue w c @ (if c \<in> members w u then [i] else [])" for c
  proof (cases "consumer_at w c")
    case None
    then show ?thesis using con mem by (auto simp: queue_def members_def)
  next
    case (Some k)
    show ?thesis
    proof (cases "c \<in> members w u")
      case True
      then have k': "consumer_at w' c = Some (push m k)" using con Some mem by simp
      from initialised_handles(2) [OF ok(2) k', of m] obtain a where a: "shm_ptr m = Some a" by auto
      have "m \<in> set (con_msgs (push m k))" by simp
      from img [OF a live_handles(2) [OF ok(2) k' this a]] queue_stable [OF ok(3,1,2) Some k', of "[m]"] True
      show ?thesis by simp
    next
      case False
      then have "consumer_at w' c = Some k" using con Some mem by simp
      with queue_stable [OF ok(3,1,2) Some this, of "[]"] False show ?thesis by simp
    qed
  qed
  moreover have "members w' = members w"
    using con by (auto simp: members_def fun_eq_iff split: if_splits)
  moreover have "map (to_imsg w') E = map (to_imsg w) E"
    using held_views [OF ok(3,1,2)] by simp
  moreover have "cached w' v = cached w v" if "v \<noteq> u" for v
    using cached_stable [OF ok(3,1,2), of v] that pool by simp
  moreover have "dom (pool w') = dom (pool w)" using pool by auto
  ultimately show ?thesis using ok by (simp add: broadcasts_def)
qed

text \<open>
  \<^verbatim>\<open>on_audio\<close> and \<^verbatim>\<open>on_video\<close> differ only in the cache they fill: \<open>sel\<close> reads it, \<open>put\<close> sets it.
\<close>

definition on_media ::
  "(RssSource \<Rightarrow> RssSharedPtrMessage option) \<Rightarrow> (RssSharedPtrMessage \<Rightarrow> RssSource \<Rightarrow> RssSource) \<Rightarrow>
   string \<Rightarrow> RssCommonMessage \<Rightarrow> RssCommonMessage source_comp" where
  "on_media sel put u msg =
     bind (shared_initialize (msg_header msg) (msg_payload msg) (msg_size msg) shared_message_new) (\<lambda>m.
     bind (deref (\<lambda>w. pool w u)) (\<lambda>src.
     bind (dispatch m (src_consumers src)) (\<lambda>_.
     bind (if sel src = None then bind (shared_copy m) (\<lambda>k. set_source u (put k src)) else return ()) (\<lambda>_.
     bind (shared_destroy m) (\<lambda>_.
     return (detach msg))))))"

lemma on_audio_media: "on_audio = on_media cache_sh_audio (\<lambda>k src. src\<lparr>cache_sh_audio := Some k\<rparr>)"
  by (simp add: fun_eq_iff on_audio_def on_media_def)

lemma on_video_media: "on_video = on_media cache_sh_video (\<lambda>k src. src\<lparr>cache_sh_video := Some k\<rparr>)"
  by (simp add: fun_eq_iff on_video_def on_media_def)

text \<open>The laws of such a cache.\<close>

definition cache_slot ::
  "(RssSource \<Rightarrow> RssSharedPtrMessage option) \<Rightarrow> (RssSharedPtrMessage \<Rightarrow> RssSource \<Rightarrow> RssSource) \<Rightarrow> bool" where
  "cache_slot sel put \<longleftrightarrow> (\<forall>src k. sel (put k src) = Some k \<and> src_consumers (put k src) = src_consumers src \<and>
     (sel src = None \<longrightarrow> set (caches (put k src)) = insert k (set (caches src)) \<and>
        (\<forall>a. refs a (caches (put k src)) = refs a (caches src) + refs a [k])))"

lemma cache_slots:
  "cache_slot cache_sh_audio (\<lambda>k src. src\<lparr>cache_sh_audio := Some k\<rparr>)"
  "cache_slot cache_sh_video (\<lambda>k src. src\<lparr>cache_sh_video := Some k\<rparr>)"
  by (auto simp: cache_slot_def caches_def)

lemma fill_cache_ok:
  assumes ok: "world_ok E w" and m: "m \<in> set E" and src: "pool w u = Some src" and slot: "cache_slot sel put"
    and empty: "sel src = None"
  shows "\<exists>w'. bind (shared_copy m) (\<lambda>k. set_source u (put k src)) w = (Inr (), w') \<and> world_ok E w' \<and> stable w w' \<and>
    consumer_at w' = consumer_at w \<and> consumer_next w' = consumer_next w \<and> pool w' = (pool w)(u \<mapsto> put m src)"
proof -
  from initialised_handles(1) [OF ok m] obtain a where a: "shm_ptr m = Some a" by blast
  from shared_copy_ok [OF ok a live_handles(1) [OF ok m a]] obtain w1 where
    w1: "shared_copy m w = (Inr m, w1)" "world_ok (m # E) w1" "stable w w1" "same_tables w w1" by blast
  have src1: "pool w1 u = Some src" using w1(4) src by (simp add: same_tables_def)
  have "world_ok E (w1\<lparr>pool := (pool w1)(u \<mapsto> put m src)\<rparr>)"
    using slot empty a initialised_handles(1) [OF ok] initialised_handles(3) [OF w1(2) src1]
    by (intro move_cache [OF w1(2) src1]) (auto simp: cache_slot_def)
  moreover have "stable w (w1\<lparr>pool := (pool w1)(u \<mapsto> put m src)\<rparr>)"
    using w1(3) by (simp add: stable_def)
  ultimately show ?thesis using w1 by (simp add: set_source_def same_tables_def)
qed

text \<open>The message a publisher's audio or video message becomes for the consumers.\<close>

abbreviation media_image :: "RssCommonMessage \<Rightarrow> IRssMessage" where
  "media_image msg \<equiv> shared_image (msg_header msg) (msg_payload msg) (msg_size msg)"

lemma on_media_ok:
  assumes ok: "world_ok E w" and src: "pool w u = Some src" and slot: "cache_slot sel put"
  shows "\<exists>m w'. on_media sel put u msg w = (Inr (detach msg), w') \<and> broadcasts E u (media_image msg) w w' \<and>
    stable w w' \<and> pool w' u = Some (if sel src = None then put m src else src) \<and>
    (sel src = None \<longrightarrow> to_imsg w' m = media_image msg)"
proof -
  from shared_initialize_ok [OF ok] obtain m w1 where
    w1: "shared_initialize (msg_header msg) (msg_payload msg) (msg_size msg) shared_message_new w = (Inr m, w1)"
      "world_ok (m # E) w1" "stable w w1" "same_tables w w1" "to_imsg w1 m = media_image msg" by blast
  have src1: "pool w1 u = Some src" using w1(4) src by (simp add: same_tables_def)
  have cons: "distinct (src_consumers src)" "\<forall>c\<in>set (src_consumers src). consumer_at w1 c \<noteq> None"
    using w1(2) src1 by (auto simp: world_ok_def linked_def)
  from initialised_handles(1) [OF w1(2)] obtain a where a: "shm_ptr m = Some a" by auto
  from dispatch_ok [OF w1(2) a live_handles(1) [OF w1(2) _ a] cons] obtain w2 where
    w2: "dispatch m (src_consumers src) w1 = (Inr (), w2)" "world_ok (m # E) w2" "stable w1 w2" "pool w2 = pool w1"
      "consumer_next w2 = consumer_next w1"
      "consumer_at w2 = (\<lambda>c. if c \<in> set (src_consumers src) then map_option (push m) (consumer_at w1 c)
         else consumer_at w1 c)" by auto
  have src2: "pool w2 u = Some src" using w2(4) src1 by simp
  let ?src' = "if sel src = None then put m src else src"
  have "\<exists>w3. (if sel src = None then bind (shared_copy m) (\<lambda>k. set_source u (put k src)) else return ()) w2 =
      (Inr (), w3) \<and> world_ok (m # E) w3 \<and> stable w2 w3 \<and> consumer_at w3 = consumer_at w2 \<and>
      pool w3 = (pool w2)(u \<mapsto> ?src')"
    using fill_cache_ok [OF w2(2) _ src2 slot] w2(2) src2 by (cases "sel src") (auto simp: fun_upd_idem)
  then obtain w3 where
    w3: "(if sel src = None then bind (shared_copy m) (\<lambda>k. set_source u (put k src)) else return ()) w2 = (Inr (), w3)"
      "world_ok (m # E) w3" "stable w2 w3" "consumer_at w3 = consumer_at w2" "pool w3 = (pool w2)(u \<mapsto> ?src')" by blast
  from shared_destroy_ok [OF w3(2)] obtain w4 where
    w4: "shared_destroy m w3 = (Inr (), w4)" "world_ok E w4" "stable w3 w4" "same_tables w3 w4" by blast
  have st: "stable w1 w4" "stable w w4" using w1(3) w2(3) w3(3) w4(3) by (blast intro: stable_trans)+
  have img: "to_imsg w4 m = media_image msg" if "shared w4 a \<noteq> None"
    using held_stable [OF st(1) w1(2) a _ that] live_handles(1) [OF w1(2) _ a] w1(5) by simp
  have pool4: "pool w4 = (pool w)(u \<mapsto> ?src')"
    using w4(4) w3(5) w2(4) w1(4) by (simp add: same_tables_def)
  have con4: "consumer_at w4 = (\<lambda>c. if c \<in> set (src_consumers src) then map_option (push m) (consumer_at w c)
         else consumer_at w c)"
    using w4(4) w3(4) w2(6) w1(4) by (simp add: same_tables_def fun_eq_iff)
  have "broadcasts E u (media_image msg) w w4"
    using img a by (intro broadcastsI [OF ok w4(2) st(2) con4 src pool4]) auto
  moreover have "to_imsg w4 m = media_image msg" if "sel src = None"
  proof -
    have src4: "pool w4 u = Some (put m src)" using pool4 that by simp
    have "m \<in> set (caches (put m src))" using slot that by (simp add: cache_slot_def)
    from img [OF live_handles(3) [OF w4(2) src4 this a]] show ?thesis .
  qed
  moreover have "on_media sel put u msg w = (Inr (detach msg), w4)"
    using w1(1) w2(1) w3(1) w4(1) src1 by (simp add: on_media_def deref_def)
  ultimately show ?thesis using st(2) pool4 by auto
qed

lemma slot_stable:
  assumes "stable w w'" and "world_ok E w" and "world_ok E' w'" and "pool w u = Some src" and "pool w' u = Some src'"
  shows "cache_metadata src' = cache_metadata src \<Longrightarrow>
      map_option (to_imsg w') (cache_metadata src') = map_option (to_imsg w) (cache_metadata src)"
    and "cache_sh_video src' = cache_sh_video src \<Longrightarrow>
      map_option (to_imsg w') (cache_sh_video src') = map_option (to_imsg w) (cache_sh_video src)"
    and "cache_sh_audio src' = cache_sh_audio src \<Longrightarrow>
      map_option (to_imsg w') (cache_sh_audio src') = map_option (to_imsg w) (cache_sh_audio src)"
proof -
  note same = cache_stable [OF assms]
  show "cache_metadata src' = cache_metadata src \<Longrightarrow>
      map_option (to_imsg w') (cache_metadata src') = map_option (to_imsg w) (cache_metadata src)"
    by (cases "cache_metadata src") (auto simp: caches_def intro!: same)
  show "cache_sh_video src' = cache_sh_video src \<Longrightarrow>
      map_option (to_imsg w') (cache_sh_video src') = map_option (to_imsg w) (cache_sh_video src)"
    by (cases "cache_sh_video src") (auto simp: caches_def intro!: same)
  show "cache_sh_audio src' = cache_sh_audio src \<Longrightarrow>
      map_option (to_imsg w') (cache_sh_audio src') = map_option (to_imsg w) (cache_sh_audio src)"
    by (cases "cache_sh_audio src") (auto simp: caches_def intro!: same)
qed

lemma on_audio_ok:
  assumes "world_ok E w" and "pool w u \<noteq> None" and "cached w u = (md, vid, aud)"
  shows "\<exists>w'. on_audio u msg w = (Inr (detach msg), w') \<and> broadcasts E u (media_image msg) w w' \<and>
    cached w' u = (md, vid, case aud of None \<Rightarrow> Some (media_image msg) | Some x \<Rightarrow> Some x)"
proof -
  from assms(2) obtain src where src: "pool w u = Some src" by blast
  from on_media_ok [OF assms(1) src cache_slots(1)] obtain m w' where
    r: "on_audio u msg w = (Inr (detach msg), w')" "broadcasts E u (media_image msg) w w'" "stable w w'"
      "pool w' u = Some (if cache_sh_audio src = None then src\<lparr>cache_sh_audio := Some m\<rparr> else src)"
      "cache_sh_audio src = None \<longrightarrow> to_imsg w' m = media_image msg"
    unfolding on_audio_media by blast
  have "world_ok E w'" using r(2) by (simp add: broadcasts_def)
  from slot_stable [OF r(3) assms(1) this src r(4)] r assms(3) src show ?thesis
    by (cases "cache_sh_audio src") (auto simp: cached_def)
qed

lemma on_video_ok:
  assumes "world_ok E w" and "pool w u \<noteq> None" and "cached w u = (md, vid, aud)"
  shows "\<exists>w'. on_video u msg w = (Inr (detach msg), w') \<and> broadcasts E u (media_image msg) w w' \<and>
    cached w' u = (md, case vid of None \<Rightarrow> Some (media_image msg) | Some x \<Rightarrow> Some x, aud)"
proof -
  from assms(2) obtain src where src: "pool w u = Some src" by blast
  from on_media_ok [OF assms(1) src cache_slots(2)] obtain m w' where
    r: "on_video u msg w = (Inr (detach msg), w')" "broadcasts E u (media_image msg) w w'" "stable w w'"
      "pool w' u = Some (if cache_sh_video src = None then src\<lparr>cache_sh_video := Some m\<rparr> else src)"
      "cache_sh_video src = None \<longrightarrow> to_imsg w' m = media_image msg"
    unfolding on_video_media by blast
  have "world_ok E w'" using r(2) by (simp add: broadcasts_def)
  from slot_stable [OF r(3) assms(1) this src r(4)] r assms(3) src show ?thesis
    by (cases "cache_sh_video src") (auto simp: cached_def)
qed

section \<open>Metadata\<close>

text \<open>The packet that \<^verbatim>\<open>on_meta_data\<close> encodes.\<close>

abbreviation metadata_packet :: "string \<Rightarrow> props \<Rightarrow> RssPacket" where
  "metadata_packet name metadata \<equiv>
     RssOnMetaDataPacket name (ht_set metadata ''server'' (RssAmf0String RTMP_SIG_RSS_SERVER))"

text \<open>Freeing a message does not look at the tables, so the order of the two does not matter.\<close>

lemma shared_destroy_pool:
  "shared_destroy m (w\<lparr>pool := P\<rparr>) = (case shared_destroy m w of (r, w') \<Rightarrow> (r, w'\<lparr>pool := P\<rparr>))"
  by (simp add: shared_destroy_def source_defs bind_def get_def modify_def fail_def return_def split: option.split)

lemma destroy_all_consumers:
  "destroy_all ms (w\<lparr>consumer_at := C\<rparr>) = (case destroy_all ms w of (r, w') \<Rightarrow> (r, w'\<lparr>consumer_at := C\<rparr>))"
proof (induction ms arbitrary: w)
  case (Cons m ms)
  have "shared_destroy m (w\<lparr>consumer_at := C\<rparr>) = (case shared_destroy m w of (r, w') \<Rightarrow> (r, w'\<lparr>consumer_at := C\<rparr>))"
    by (simp add: shared_destroy_def source_defs bind_def get_def modify_def fail_def return_def split: option.split)
  with Cons show ?case by (auto simp: bind_def split: prod.splits sum.splits)
qed simp

lemma clear_metadata_ok:
  assumes ok: "world_ok E w" and src: "pool w u = Some src"
  shows "\<exists>w'. bind (freep (cache_metadata src)) (\<lambda>_. set_source u (src\<lparr>cache_metadata := None\<rparr>)) w = (Inr (), w') \<and>
    world_ok E w' \<and> stable w w' \<and> consumer_at w' = consumer_at w \<and> consumer_next w' = consumer_next w \<and>
    pool w' = (pool w)(u \<mapsto> src\<lparr>cache_metadata := None\<rparr>)"
proof (cases "cache_metadata src")
  case None
  then have "src\<lparr>cache_metadata := None\<rparr> = src" by simp
  with ok src None show ?thesis
    by (auto simp: freep_def set_source_def fun_upd_idem)
next
  case (Some m)
  let ?P = "(pool w)(u \<mapsto> src\<lparr>cache_metadata := None\<rparr>)"
  have "world_ok (m # E) (w\<lparr>pool := ?P\<rparr>)"
    using Some initialised_handles(1) [OF ok] initialised_handles(3) [OF ok src]
    by (intro move_cache [OF ok src]) (auto simp: caches_def)
  from shared_destroy_ok [OF this] obtain w' where
    w': "shared_destroy m (w\<lparr>pool := ?P\<rparr>) = (Inr (), w')" "world_ok E w'" "stable (w\<lparr>pool := ?P\<rparr>) w'"
      "same_tables (w\<lparr>pool := ?P\<rparr>) w'" by blast
  from w'(1) obtain w1 where "shared_destroy m w = (Inr (), w1)" "w' = w1\<lparr>pool := ?P\<rparr>"
    unfolding shared_destroy_pool by (auto split: prod.splits)
  moreover have "pool w1 = pool w" if "shared_destroy m w = (Inr (), w1)" for w1
    using that by (auto simp: shared_destroy_def source_defs bind_def get_def modify_def fail_def return_def
      split: option.splits if_splits)
  moreover have "stable w w'" using w'(3) by (simp add: stable_def)
  ultimately show ?thesis using w'(2,4) Some by (auto simp: freep_def set_source_def same_tables_def)
qed

lemma on_meta_data_ok:
  fixes h :: RssMessageHeader
  assumes ok: "world_ok E w" and known: "pool w u \<noteq> None" and cch: "cached w u = (md, vid, aud)"
    and pkt: "sendable (metadata_packet name metadata)" and heap: "\<And>n. length (heap n) = n"
  defines "i \<equiv> shared_image h (Some (enc_packet (metadata_packet name metadata)))
    (int (length (enc_packet (metadata_packet name metadata))))"
  shows "\<exists>w'. on_meta_data heap u h name metadata w = (Inr (), w') \<and> broadcasts E u i w w' \<and>
    cached w' u = (Some i, vid, aud)"
proof -
  let ?bs = "enc_packet (metadata_packet name metadata)"
  from known obtain src where src: "pool w u = Some src" by blast
  let ?src0 = "src\<lparr>cache_metadata := None\<rparr>"
  from clear_metadata_ok [OF ok src] obtain w1 where
    w1: "bind (freep (cache_metadata src)) (\<lambda>_. set_source u ?src0) w = (Inr (), w1)" "world_ok E w1" "stable w w1"
      "consumer_at w1 = consumer_at w" "consumer_next w1 = consumer_next w" "pool w1 = (pool w)(u \<mapsto> ?src0)" by blast
  from shared_initialize_ok [OF w1(2), of h "Some ?bs" "int (length ?bs)"] obtain m w2 where
    w2: "shared_initialize h (Some ?bs) (int (length ?bs)) shared_message_new w1 = (Inr m, w2)" "world_ok (m # E) w2"
      "stable w1 w2" "same_tables w1 w2" "to_imsg w2 m = i" unfolding i_def by blast
  let ?src1 = "src\<lparr>cache_metadata := Some m\<rparr>"
  let ?w3 = "w2\<lparr>pool := (pool w2)(u \<mapsto> ?src1)\<rparr>"
  have src2: "pool w2 u = Some ?src0" using w2(4) w1(6) by (simp add: same_tables_def)
  have ok3: "world_ok E ?w3"
    using initialised_handles(1) [OF w2(2)] initialised_handles(3) [OF w2(2) src2]
    by (intro move_cache [OF w2(2) src2]) (auto simp: caches_def)
  have src3: "pool ?w3 u = Some ?src1" by simp
  have cons: "distinct (src_consumers src)" "\<forall>c\<in>set (src_consumers src). consumer_at ?w3 c \<noteq> None"
    using ok3 src3 unfolding world_ok_def linked_def by fastforce+
  have "\<exists>w4. dispatch m (src_consumers src) ?w3 = (Inr (), w4) \<and> world_ok E w4 \<and> stable ?w3 w4 \<and> pool w4 = pool ?w3 \<and>
      consumer_at w4 = (\<lambda>c. if c \<in> set (src_consumers src) then map_option (push m) (consumer_at ?w3 c)
         else consumer_at ?w3 c)"
    using dispatch_cached_ok [OF ok3 src3 _ cons, of m] by (auto simp: caches_def)
  then obtain w4 where
    w4: "dispatch m (src_consumers src) ?w3 = (Inr (), w4)" "world_ok E w4" "stable ?w3 w4" "pool w4 = pool ?w3"
      "consumer_at w4 = (\<lambda>c. if c \<in> set (src_consumers src) then map_option (push m) (consumer_at ?w3 c)
         else consumer_at ?w3 c)" by blast
  have st: "stable w2 w4" using w4(3) by (simp add: stable_def)
  then have st': "stable w w4" using w1(3) w2(3) by (blast intro: stable_trans)
  from initialised_handles(1) [OF w2(2)] obtain a where a: "shm_ptr m = Some a" by auto
  have img: "to_imsg w4 m = i" if "shared w4 a \<noteq> None"
    using held_stable [OF st w2(2) a _ that] live_handles(1) [OF w2(2) _ a] w2(5) by simp
  have pool4: "pool w4 = (pool w)(u \<mapsto> ?src1)" using w4(4) w2(4) w1(6) by (simp add: same_tables_def)
  have con4: "consumer_at w4 = (\<lambda>c. if c \<in> set (src_consumers src) then map_option (push m) (consumer_at w c)
         else consumer_at w c)"
    using w4(5) w2(4) w1(4) by (simp add: same_tables_def fun_eq_iff)
  have "broadcasts E u i w w4"
    using img a by (intro broadcastsI [OF ok w4(2) st' con4 src pool4]) auto
  moreover have "cached w4 u = (Some i, vid, aud)"
  proof -
    have src4: "pool w4 u = Some ?src1" using pool4 by simp
    have "m \<in> set (caches ?src1)" by (simp add: caches_def)
    from img [OF live_handles(3) [OF w4(2) src4 this a]] slot_stable(2,3) [OF st' ok w4(2) src src4] cch src src4
    show ?thesis by (simp add: cached_def)
  qed
  moreover have "on_meta_data heap u h name metadata w = (Inr (), w4)"
  proof -
    have enc: "packet_encode heap (metadata_packet name metadata) = Inr (int (length ?bs), Some ?bs)"
      by (rule packet_encode_enc [where heap = heap, OF pkt heap])
    have pos: "\<not> packet_get_size (metadata_packet name metadata) \<le> 0"
      using packet_size_enc [OF pkt] enc_packet_neq_Nil [OF pkt] by simp
    define k where "k = (\<lambda>_::unit. bind (shared_initialize h (Some ?bs) (int (length ?bs)) shared_message_new) (\<lambda>m.
      bind (set_source u (src\<lparr>cache_metadata := Some m\<rparr>)) (\<lambda>_. dispatch m (src_consumers src))))"
    have "on_meta_data heap u h name metadata w =
        bind (freep (cache_metadata src)) (\<lambda>_. bind (set_source u ?src0) k) w"
      using pos src enc by (simp only: on_meta_data_def Let_def k_def deref_def if_False bind_step lift_res_def
        comp_basic sum.case prod.case option.case bind_return return_def [symmetric]) (simp add: bind_def)
    also have "\<dots> = k () w1" using w1(1) by (simp add: bind_assoc [symmetric])
    also have "\<dots> = (Inr (), w4)" using w2(1) w4(1) by (simp only: k_def bind_Inr) (simp add: set_source_def)
    finally show ?thesis .
  qed
  ultimately show ?thesis by blast
qed

section \<open>Consumers come and go\<close>

lemma source_find_ok:
  assumes "world_ok E w"
  shows "\<exists>w'. source_find u w = (Inr (), w') \<and> world_ok E w' \<and> pool w' u \<noteq> None \<and> queue w' = queue w \<and>
    members w' = members w \<and> cached w' = cached w \<and> to_imsg w' = to_imsg w \<and> dom (pool w') = insert u (dom (pool w))"
proof (cases "pool w u")
  case None
  let ?w' = "w\<lparr>pool := (pool w)(u \<mapsto> source_new)\<rparr>"
  have fin: "finite (dom (pool w))" using assms by (simp add: world_ok_def tables_ok_def)
  have "holders a E ?w' = holders a E w" for a
    using tab_sum_insert [OF fin None, of "\<lambda>src. refs a (caches src)" source_new]
    by (simp add: holders_def caches_def source_new_def)
  then have "counted E ?w'" using assms by (simp add: world_ok_def counted_def)
  moreover have "initialised E ?w'" "tables_ok ?w'"
    using assms by (auto simp: world_ok_def initialised_def tables_ok_def caches_def source_new_def)
  moreover have "linked ?w'"
  proof -
    have "\<And>c con. consumer_at w c = Some con \<Longrightarrow> con_source con \<noteq> u"
      using assms None unfolding world_ok_def linked_def by blast
    then show ?thesis
      using assms unfolding world_ok_def linked_def by (auto simp: source_new_def)
  qed
  moreover have view: "to_imsg ?w' = to_imsg w" by (simp add: to_imsg_def fun_eq_iff)
  moreover have "cached ?w' = cached w" unfolding cached_def view using None by (simp add: source_new_def fun_eq_iff)
  moreover have "queue ?w' = queue w" unfolding queue_def view by simp
  ultimately show ?thesis using None
    by (auto simp: world_ok_def source_find_def set_source_def members_def)
next
  case (Some src)
  with assms show ?thesis by (auto simp: source_find_def)
qed

lemma enqueue_cached_ok:
  assumes ok: "world_ok E w" and con: "consumer_at w c = Some con" and src: "pool w u = Some src"
    and slot: "set (held cch) \<subseteq> set (caches src)"
  shows "\<exists>w'. enqueue_cached c cch w = (Inr (), w') \<and> world_ok E w' \<and> stable w w' \<and> pool w' = pool w \<and>
    consumer_at w' = (consumer_at w)(c \<mapsto> con\<lparr>con_msgs := con_msgs con @ held cch\<rparr>)"
proof (cases cch)
  case None
  then show ?thesis using ok con by (auto simp: enqueue_cached_def fun_upd_idem)
next
  case (Some m)
  with slot have m: "m \<in> set (caches src)" by simp
  from initialised_handles(3) [OF ok src m] obtain a where a: "shm_ptr m = Some a" by blast
  from shared_copy_ok [OF ok a live_handles(3) [OF ok src m a]] obtain w1 where
    w1: "shared_copy m w = (Inr m, w1)" "world_ok (m # E) w1" "stable w w1" "same_tables w w1" by blast
  from w1(4) con have con1: "consumer_at w1 c = Some con" by (simp add: same_tables_def)
  from enqueue_ok [OF w1(2) con1] obtain w2 where
    w2: "enqueue c m w1 = (Inr (), w2)" "world_ok E w2" "w2 = w1\<lparr>consumer_at := (consumer_at w1)(c \<mapsto> push m con)\<rparr>"
    by blast
  have "stable w w2" using w1(3) w2(3) by (simp add: stable_def)
  then show ?thesis using w1 w2 Some by (simp add: enqueue_cached_def same_tables_def)
qed

text \<open>A new consumer with an empty queue.\<close>

definition with_consumer :: "string \<Rightarrow> RssSource \<Rightarrow> rss_world \<Rightarrow> rss_world" where
  "with_consumer u src w = w\<lparr>consumer_next := consumer_next w + 1,
     consumer_at := (consumer_at w)(consumer_next w \<mapsto> consumer_new u),
     pool := (pool w)(u \<mapsto> src\<lparr>src_consumers := src_consumers src @ [consumer_next w]\<rparr>)\<rparr>"

lemma with_consumer_ok:
  assumes ok: "world_ok E w" and src: "pool w u = Some src"
  shows "consumer_at w (consumer_next w) = None" and "world_ok E (with_consumer u src w)"
    and "stable w (with_consumer u src w)"
proof -
  let ?c = "consumer_next w" and ?w' = "with_consumer u src w"
  from ok have lk: "linked w" and tab: "tables_ok w" by (simp_all add: world_ok_def)
  show new: "consumer_at w ?c = None" using lk unfolding linked_def by (metis less_irrefl not_None_eq)
  have "holders a E ?w' = holders a E w" for a
    using tab_sum_insert [of "consumer_at w" ?c "\<lambda>con. refs a (con_msgs con)" "consumer_new u"] new tab
      tab_sum_update [of "pool w" u src "\<lambda>src. refs a (caches src)" "src\<lparr>src_consumers := src_consumers src @ [?c]\<rparr>"] src
    by (simp add: holders_def with_consumer_def tables_ok_def consumer_new_def caches_def)
  then have "counted E ?w'" using ok by (simp add: world_ok_def counted_def with_consumer_def)
  moreover have "initialised E ?w'"
    using ok src unfolding world_ok_def initialised_def
    by (auto simp: with_consumer_def consumer_new_def caches_def split: if_splits)
  moreover have "tables_ok ?w'" using tab by (auto simp: tables_ok_def with_consumer_def)
  moreover have "linked ?w'"
  proof -
    have "?c \<notin> set (src_consumers src)" using lk src new unfolding linked_def by auto
    then show ?thesis using lk src new unfolding linked_def
      by (auto simp: with_consumer_def consumer_new_def less_Suc_eq split: if_splits)
  qed
  ultimately show "world_ok E ?w'" by (simp add: world_ok_def)
  show "stable w ?w'" by (simp add: stable_def with_consumer_def)
qed

definition opt_list :: "'a option \<Rightarrow> 'a list" where
  "opt_list x = (case x of None \<Rightarrow> [] | Some y \<Rightarrow> [y])"

lemma held_view: "map f (held x) = opt_list (map_option f x)"
  by (cases x) (simp_all add: opt_list_def)

lemma create_consumer_ok:
  assumes ok: "world_ok E w" and known: "pool w u \<noteq> None" and cch: "cached w u = (md, vid, aud)"
  shows "\<exists>c w'. create_consumer u w = (Inr c, w') \<and> world_ok E w' \<and> consumer_at w c = None \<and>
    queue w' c = opt_list md @ opt_list vid @ opt_list aud \<and> (\<forall>d. d \<noteq> c \<longrightarrow> queue w' d = queue w d) \<and>
    members w' = (members w)(u := insert c (members w u)) \<and> cached w' = cached w \<and>
    map (to_imsg w') E = map (to_imsg w) E \<and> dom (pool w') = dom (pool w)"
proof -
  from known obtain src where src: "pool w u = Some src" by blast
  let ?c = "consumer_next w" and ?w0 = "with_consumer u src w"
  let ?src = "src\<lparr>src_consumers := src_consumers src @ [?c]\<rparr>"
  note w0 = with_consumer_ok [OF ok src]
  have s0: "pool ?w0 u = Some ?src" "consumer_at ?w0 ?c = Some (consumer_new u)" by (simp_all add: with_consumer_def)
  from enqueue_cached_ok [OF w0(2) s0(2,1), of "cache_metadata src"] obtain w1 where
    w1: "enqueue_cached ?c (cache_metadata src) ?w0 = (Inr (), w1)" "world_ok E w1" "stable ?w0 w1" "pool w1 = pool ?w0"
      "consumer_at w1 = (consumer_at ?w0)(?c \<mapsto> (consumer_new u)\<lparr>con_msgs := held (cache_metadata src)\<rparr>)"
    by (auto simp: caches_def consumer_new_def)
  have s1: "pool w1 u = Some ?src" using w1(4) s0(1) by simp
  have c1: "consumer_at w1 ?c = Some ((consumer_new u)\<lparr>con_msgs := held (cache_metadata src)\<rparr>)" using w1(5) by simp
  from enqueue_cached_ok [OF w1(2) c1 s1, of "cache_sh_video src"] obtain w2 where
    w2: "enqueue_cached ?c (cache_sh_video src) w1 = (Inr (), w2)" "world_ok E w2" "stable w1 w2" "pool w2 = pool ?w0"
      "consumer_at w2 = (consumer_at ?w0)(?c \<mapsto> (consumer_new u)\<lparr>con_msgs := held (cache_metadata src) @ held (cache_sh_video src)\<rparr>)"
    using w1(4,5) by (auto simp: caches_def)
  have s2: "pool w2 u = Some ?src" using w2(4) s0(1) by simp
  have c2: "consumer_at w2 ?c = Some ((consumer_new u)\<lparr>con_msgs := held (cache_metadata src) @ held (cache_sh_video src)\<rparr>)"
    using w2(5) by simp
  from enqueue_cached_ok [OF w2(2) c2 s2, of "cache_sh_audio src"] obtain w3 where
    w3: "enqueue_cached ?c (cache_sh_audio src) w2 = (Inr (), w3)" "world_ok E w3" "stable w2 w3" "pool w3 = pool ?w0"
      "consumer_at w3 = (consumer_at ?w0)(?c \<mapsto> (consumer_new u)\<lparr>con_msgs := caches src\<rparr>)"
    using w2(4,5) by (auto simp: caches_def)
  have st: "stable w w3" using w0(3) w1(3) w2(3) w3(3) by (blast intro: stable_trans)
  have src3: "pool w3 u = Some ?src" using w3(4) s0(1) by simp
  have same: "cache_metadata ?src = cache_metadata src" "cache_sh_video ?src = cache_sh_video src"
    "cache_sh_audio ?src = cache_sh_audio src" by simp_all
  note views = slot_stable(1) [OF st ok w3(2) src src3 same(1)] slot_stable(2) [OF st ok w3(2) src src3 same(2)]
    slot_stable(3) [OF st ok w3(2) src src3 same(3)]
  have cached3: "cached w3 v = cached w v" for v
  proof (cases "v = u")
    case True
    then show ?thesis using views src src3 by (simp add: cached_def)
  next
    case False
    then show ?thesis using cached_stable [OF st ok w3(2), of v] w3(4) by (simp add: with_consumer_def)
  qed
  have "queue w3 ?c = opt_list md @ opt_list vid @ opt_list aud"
    using w3(5) views cch src by (simp add: queue_def caches_def held_view cached_def)
  moreover have "queue w3 d = queue w d" if "d \<noteq> ?c" for d
  proof (cases "consumer_at w d")
    case None
    then show ?thesis using w3(5) that by (simp add: queue_def with_consumer_def)
  next
    case (Some con)
    then have "consumer_at w3 d = Some con" using w3(5) that by (simp add: with_consumer_def)
    from queue_stable [OF st ok w3(2) Some this, of "[]"] show ?thesis by simp
  qed
  moreover have "members w3 = (members w)(u := insert ?c (members w u))"
    using w3(5) w0(1) by (auto simp: members_def with_consumer_def consumer_new_def fun_eq_iff)
  moreover have "create_consumer u w = (Inr ?c, w3)"
    using src w1(1) w2(1) w3(1)
    by (simp add: create_consumer_def source_defs with_consumer_def)
  moreover have "map (to_imsg w3) E = map (to_imsg w) E" using held_views [OF st ok w3(2)] by simp
  moreover have "dom (pool w3) = dom (pool w)" using w3(4) src by (auto simp: with_consumer_def)
  ultimately show ?thesis using w3(2) w0(1) cached3 by (intro exI [of _ ?c] exI [of _ w3]) auto
qed

text \<open>\<^verbatim>\<open>get_packets\<close> hands the front of the queue over to the caller.\<close>

lemma get_packets_ok:
  assumes ok: "world_ok E w" and con: "consumer_at w c \<noteq> None" and max: "0 \<le> max_count"
    and len: "length (queue w c) < 2 ^ 31"
  defines "n \<equiv> (if max_count = 0 then length (queue w c) else nat max_count)"
  shows "\<exists>ms w'. get_packets c max_count w = (Inr ms, w') \<and> world_ok (ms @ E) w' \<and>
    map (to_imsg w') ms = take n (queue w c) \<and> queue w' c = drop n (queue w c) \<and>
    (\<forall>d. d \<noteq> c \<longrightarrow> queue w' d = queue w d) \<and> members w' = members w \<and> cached w' = cached w \<and>
    to_imsg w' = to_imsg w \<and> pool w' = pool w"
proof -
  from con obtain k where k: "consumer_at w c = Some k" by blast
  let ?ms = "take n (con_msgs k)" and ?rest = "drop n (con_msgs k)"
  let ?w' = "w\<lparr>consumer_at := (consumer_at w)(c \<mapsto> k\<lparr>con_msgs := ?rest\<rparr>)\<rparr>"
  have q: "queue w c = map (to_imsg w) (con_msgs k)" using k by (simp add: queue_def)
  have view: "to_imsg ?w' = to_imsg w" by (simp add: fun_eq_iff to_imsg_def)
  have split: "refs a (con_msgs k) = refs a ?ms + refs a ?rest" for a
    by (metis append_take_drop_id refs_simps(3))
  have ok': "world_ok (?ms @ E) ?w'"
    using initialised_handles(1) [OF ok] initialised_handles(2) [OF ok k]
    by (intro move_queue [OF ok k]) (auto simp: split dest: in_set_takeD in_set_dropD)
  have run: "get_packets c max_count w = (Inr ?ms, ?w')"
  proof (cases "con_msgs k = []")
    case True
    then have "k\<lparr>con_msgs := []\<rparr> = k" by simp
    with True k show ?thesis by (simp add: get_packets_def deref_def Let_def fun_upd_idem)
  next
    case False
    have sz: "int_of_size (length (con_msgs k)) = int (length (con_msgs k))"
      using len q by (intro int_of_size_small) simp
    define cnt where "cnt = (if max_count = 0 then int (length (con_msgs k)) else min max_count (int (length (con_msgs k))))"
    have "\<not> cnt < 0" "take (nat cnt) (con_msgs k) = ?ms"
      "(if cnt = int (length (con_msgs k)) then [] else drop (nat cnt) (con_msgs k)) = ?rest"
      using max q unfolding cnt_def n_def by (auto simp: min_def)
    moreover have "deref (\<lambda>w. consumer_at w c) w = (Inr k, w)" using k by (simp add: deref_def)
    ultimately show ?thesis using False
      unfolding get_packets_def Let_def set_consumer_def
      by (simp only: bind_Inr bind_step sz cnt_def [symmetric] if_False comp_basic)
  qed
  have "queue ?w' d = queue w d" if "d \<noteq> c" for d unfolding queue_def view using that by simp
  moreover have "queue ?w' c = drop n (queue w c)" using q view by (simp add: queue_def drop_map)
  moreover have "map (to_imsg ?w') ?ms = take n (queue w c)" using q view by (simp add: take_map)
  moreover have "members ?w' = members w" using k by (auto simp: members_def fun_eq_iff)
  moreover have "cached ?w' = cached w" unfolding cached_def view by simp
  ultimately show ?thesis using run ok' view by (intro exI [of _ ?ms] exI [of _ ?w']) simp
qed

lemma drop_consumer_ok:
  assumes ok: "world_ok E w" and con: "consumer_at w c = Some con" "con_msgs con = []"
    and src: "pool w (con_source con) = Some src"
  shows "world_ok E (w\<lparr>consumer_at := (consumer_at w)(c := None),
    pool := (pool w)(con_source con \<mapsto> src\<lparr>src_consumers := remove1 c (src_consumers src)\<rparr>)\<rparr>)" (is "world_ok E ?w'")
proof -
  have fin: "finite (dom (consumer_at w))" "finite (dom (pool w))" using ok by (simp_all add: world_ok_def tables_ok_def)
  have "holders a E ?w' = holders a E w" for a
    using tab_sum_remove [OF fin(1) con(1), of "\<lambda>con. refs a (con_msgs con)"] con(2)
      tab_sum_update [OF fin(2) src, of "\<lambda>src. refs a (caches src)" "src\<lparr>src_consumers := remove1 c (src_consumers src)\<rparr>"]
    by (simp add: holders_def caches_def)
  then have "counted E ?w'" using ok by (simp add: world_ok_def counted_def)
  moreover have "initialised E ?w'"
    using ok src unfolding world_ok_def initialised_def by (auto simp: caches_def split: if_splits)
  moreover have "tables_ok ?w'" using ok by (auto simp: world_ok_def tables_ok_def)
  moreover have "linked ?w'"
    using ok src con unfolding world_ok_def linked_def by (auto split: if_splits)
  ultimately show ?thesis by (simp add: world_ok_def)
qed

lemma consumer_destroy_ok:
  assumes ok: "world_ok E w" and known: "consumer_at w c \<noteq> None"
  shows "\<exists>w'. consumer_destroy c w = (Inr (), w') \<and> world_ok E w' \<and> consumer_at w' c = None \<and> queue w' c = [] \<and>
    (\<forall>d. d \<noteq> c \<longrightarrow> queue w' d = queue w d) \<and> (\<forall>v. members w' v = members w v - {c}) \<and> cached w' = cached w \<and>
    map (to_imsg w') E = map (to_imsg w) E \<and> dom (pool w') = dom (pool w)"
proof -
  from known obtain con where con: "consumer_at w c = Some con" by blast
  let ?u = "con_source con" and ?C = "(consumer_at w)(c \<mapsto> con\<lparr>con_msgs := []\<rparr>)"
  from ok con obtain src where src: "pool w ?u = Some src" unfolding world_ok_def linked_def by blast
  have "world_ok (con_msgs con @ E) (w\<lparr>consumer_at := ?C\<rparr>)"
    using initialised_handles(1) [OF ok] initialised_handles(2) [OF ok con]
    by (intro move_queue [OF ok con]) auto
  from destroy_all_ok [OF this] obtain w1 where
    w1: "destroy_all (con_msgs con) (w\<lparr>consumer_at := ?C\<rparr>) = (Inr (), w1)" "world_ok E w1"
      "stable (w\<lparr>consumer_at := ?C\<rparr>) w1" "same_tables (w\<lparr>consumer_at := ?C\<rparr>) w1" by blast
  from w1(1) obtain w0 where w0: "destroy_all (con_msgs con) w = (Inr (), w0)" "w1 = w0\<lparr>consumer_at := ?C\<rparr>"
    unfolding destroy_all_consumers by (auto split: prod.splits)
  have c1: "consumer_at w1 c = Some (con\<lparr>con_msgs := []\<rparr>)" "pool w1 = pool w" "consumer_at w1 = ?C"
    using w1(4) by (simp_all add: same_tables_def)
  let ?w' = "w1\<lparr>consumer_at := (consumer_at w1)(c := None),
    pool := (pool w1)(?u \<mapsto> src\<lparr>src_consumers := remove1 c (src_consumers src)\<rparr>)\<rparr>"
  have ok': "world_ok E ?w'" using drop_consumer_ok [OF w1(2) c1(1)] src c1(2) by simp
  have st: "stable w ?w'" using w1(3) by (simp add: stable_def)
  have con0: "consumer_at w0 = consumer_at w"
  proof -
    have "destroy_all (con_msgs con) (w\<lparr>consumer_at := consumer_at w\<rparr>) = (Inr (), w0\<lparr>consumer_at := consumer_at w\<rparr>)"
      unfolding destroy_all_consumers using w0(1) by simp
    with w0(1) have "w0 = w0\<lparr>consumer_at := consumer_at w\<rparr>" by simp
    from arg_cong [OF this, of consumer_at] show ?thesis by simp
  qed
  have "consumer_destroy c w = (Inr (), ?w')"
    using con con0 w0 src c1(2) by (simp add: consumer_destroy_def on_consumer_destroy_def source_defs)
  moreover have "queue ?w' d = queue w d" if "d \<noteq> c" for d
  proof (cases "consumer_at w d")
    case None
    then show ?thesis using c1(3) that by (simp add: queue_def)
  next
    case (Some k)
    then have "consumer_at ?w' d = Some k" using c1(3) that by simp
    from queue_stable [OF st ok ok' Some this, of "[]"] show ?thesis by simp
  qed
  moreover have "members ?w' v = members w v - {c}" for v
    using c1(3) con by (auto simp: members_def)
  moreover have "cached ?w' v = cached w v" for v
  proof (cases "v = ?u")
    case True
    have src': "pool ?w' ?u = Some (src\<lparr>src_consumers := remove1 c (src_consumers src)\<rparr>)" by simp
    show ?thesis using slot_stable [OF st ok ok' src src'] src src' True by (simp add: cached_def)
  next
    case False
    then show ?thesis using cached_stable [OF st ok ok', of v] c1(2) by simp
  qed
  moreover have "map (to_imsg ?w') E = map (to_imsg w) E" using held_views [OF st ok ok'] by simp
  moreover have "dom (pool ?w') = dom (pool w)" using c1(2) src by (auto simp: dom_def)
  ultimately show ?thesis using ok' by (intro exI [of _ ?w']) (auto simp: queue_def fun_eq_iff)
qed

text \<open>
  The destructor of a source: it frees the caches of a source without consumers, and it runs into
  undefined behaviour when there is a consumer.
\<close>

lemma source_destroy_dangling:
  assumes "world_ok E w" and "pool w u = Some src" and "src_consumers src \<noteq> []"
  shows "fst (source_destroy u w) = Inl Undefined"
proof -
  from assms(3) obtain c cs where c: "src_consumers src = c # cs" by (cases "src_consumers src") auto
  then have "consumer_at w c \<noteq> None" using assms(1,2) unfolding world_ok_def linked_def by fastforce
  from consumer_destroy_ok [OF assms(1) this] obtain w' where "consumer_destroy c w = (Inr (), w')" by blast
  with assms(2) c show ?thesis by (simp add: source_destroy_def deref_def)
qed

end
