(* ===== verification/Rss_Client_Correct.thy ===== *)
theory Rss_Client_Correct
  imports Rss_Client Rss_Rtmp_Correct Rss_Source_Correct
begin

text \<open>
  Correctness of the client threads: what a published message does to the sources, that the connecting
  phase and the publishing loop end on every finite input, and what one round of the play loop does.
\<close>

section \<open>Metadata that was received can be dispatched\<close>

abbreviation metadata_ok :: "RssPacket \<Rightarrow> bool" where
  "metadata_ok pkt \<equiv> \<forall>name md. pkt = RssOnMetaDataPacket name md \<longrightarrow> sendable (metadata_packet name md)"

lemma decode_metadata_ok: "yields metadata_ok (decode_by_header h)"
proof -
  have md: "yields metadata_ok decode_OnMetaDataPacket"
    unfolding yields_def using decode_OnMetaData_sendable by (fastforce intro!: writable_props_set)
  have others: "yields metadata_ok decode_ConnectAppPacket" "yields metadata_ok decode_CreateStreamPacket"
    "yields metadata_ok decode_PlayPacket" "yields metadata_ok decode_FMLEStartPacket"
    "yields metadata_ok decode_PublishPacket" "yields metadata_ok decode_SetWindowAckSizePacket"
    "yields metadata_ok decode_SetChunkSizePacket"
    unfolding decode_ConnectAppPacket_def decode_CreateStreamPacket_def decode_PlayPacket_def
      decode_FMLEStartPacket_def decode_PublishPacket_def decode_SetWindowAckSizePacket_def decode_SetChunkSizePacket_def
    by (intro yields_after yields_if yields_basic; simp)+
  have "yields metadata_ok (decode_command command)" for command
    using md others unfolding decode_command_def by (simp add: yields_basic)
  then show ?thesis
    using others unfolding decode_by_header_def by (intro yields_if yields_after) (simp_all add: yields_basic)
qed

lemma decoded_metadata_ok:
  assumes "common_decode_packet m = (Inr u, m')" and "msg_packet m = None" and "msg_packet m' = Some pkt"
  shows "metadata_ok pkt"
proof -
  from assms(1,2) obtain pk s where
    "bind (stream_initialize (msg_payload m) (msg_size m)) (\<lambda>_. decode_by_header (msg_header m)) stream_new = (Inr pk, s)"
    "m' = m\<lparr>msg_packet := Some pk\<rparr>"
    by (auto simp: common_decode_packet_def split: if_splits prod.splits sum.splits)
  with assms(3) yieldsD [OF yields_after [OF decode_metadata_ok]] show ?thesis by fastforce
qed

section \<open>Publishing one message\<close>

text \<open>What the consumers of the stream are given for a received message: nothing or one message.\<close>

definition published :: "RssCommonMessage \<Rightarrow> IRssMessage list" where
  "published msg =
     (if header_is_audio (msg_header msg) \<or> header_is_video (msg_header msg) then [media_image msg]
      else if header_is_amf0_data (msg_header msg) \<or> header_is_amf3_data (msg_header msg) then
        (case common_decode_packet msg of
           (Inr _, m) \<Rightarrow>
             (case msg_packet m of
                Some (RssOnMetaDataPacket name md) \<Rightarrow>
                  (let bs = enc_packet (metadata_packet name md) in
                   [shared_image (msg_header m) (Some bs) (int (length bs))])
              | _ \<Rightarrow> [])
         | _ \<Rightarrow> [])
      else [])"

text \<open>The messages a new consumer of a stream is given.\<close>

definition cached_list :: "rss_world \<Rightarrow> string \<Rightarrow> IRssMessage list" where
  "cached_list w u = (case cached w u of (md, vid, aud) \<Rightarrow> opt_list md @ opt_list vid @ opt_list aud)"

text \<open>The sources after a message with the given images was published on stream \<open>u\<close>.\<close>

definition publishes :: "RssSharedPtrMessage list \<Rightarrow> string \<Rightarrow> IRssMessage list \<Rightarrow> rss_world \<Rightarrow> rss_world \<Rightarrow> bool" where
  "publishes E u is w w' \<longleftrightarrow> world_ok E w' \<and>
     (\<forall>c. queue w' c = queue w c @ (if c \<in> members w u then is else [])) \<and>
     members w' = members w \<and> dom (pool w') = dom (pool w) \<and> map (to_imsg w') E = map (to_imsg w) E \<and>
     (\<forall>v. set (cached_list w' v) \<subseteq> set (cached_list w v) \<union> set is)"

lemma broadcasts_publishes:
  assumes "broadcasts E u i w w'" and "set (cached_list w' u) \<subseteq> set (cached_list w u) \<union> {i}"
  shows "publishes E u [i] w w'"
proof -
  have "cached_list w' v = cached_list w v" if "v \<noteq> u" for v
    using assms(1) that by (simp add: broadcasts_def cached_list_def)
  then have "set (cached_list w' v) \<subseteq> set (cached_list w v) \<union> {i}" for v using assms(2) by (cases "v = u") auto
  then show ?thesis using assms(1) by (simp add: broadcasts_def publishes_def)
qed

lemma cached_list_sub:
  assumes "cached w u = (md, vid, aud)" and "cached w' u = (md', vid', aud')"
    and "md' = md \<or> md' = Some i" and "vid' = vid \<or> vid' = Some i" and "aud' = aud \<or> aud' = Some i"
  shows "set (cached_list w' u) \<subseteq> set (cached_list w u) \<union> {i}"
  using assms by (auto simp: cached_list_def opt_list_def split: option.splits)

lemma publishes_nothing: "world_ok E w \<Longrightarrow> publishes E u [] w w"
  by (simp add: publishes_def)

lemma header_types:
  "header_is_audio h \<Longrightarrow> \<not> header_is_video h \<and> \<not> header_is_amf0_data h \<and> \<not> header_is_amf3_data h \<and>
     \<not> header_is_amf0_command h \<and> \<not> header_is_amf3_command h"
  "header_is_video h \<Longrightarrow> \<not> header_is_audio h \<and> \<not> header_is_amf0_data h \<and> \<not> header_is_amf3_data h \<and>
     \<not> header_is_amf0_command h \<and> \<not> header_is_amf3_command h"
  "header_is_amf0_data h \<or> header_is_amf3_data h \<Longrightarrow> not_control h"
  by (auto simp: header_is_defs not_control_def)

definition clean :: "'a res \<Rightarrow> bool" where
  "clean r \<longleftrightarrow> (\<forall>e. r = Inl e \<longrightarrow> (\<exists>c. e = Code c))"

lemma clean_simps [simp]: "clean (Inr x)" "clean (Inl (Code c))"
  by (simp_all add: clean_def)

lemma fmle_unpublish_clean:
  assumes "\<And>n. length (heap n) = n" and "session_ok p" and "fmle_unpublish heap sid tid p = (r, p')"
  shows "clean r \<and> session_ok p' \<and> length (protocol_input p') \<le> length (protocol_input p)"
proof -
  from assms(2) have "out_chunk_size p = int (nat (out_chunk_size p))" "0 < nat (out_chunk_size p)"
    by (simp_all add: session_ok_def)
  from send_packets_out [where heap = heap, OF assms(1) this(2) unpublish_responses this(1), of sid tid r p'] assms(3)
  show ?thesis
    by (auto simp: fmle_unpublish_def socket_failure_def dest: only_sent_session [OF _ assms(2)])
      (auto simp: only_sent_def)
qed

lemma handle_published_ok:
  assumes heap: "\<And>n. length (heap n) = n" and ok: "world_ok E w" and known: "pool w u \<noteq> None"
    and msg: "has_payload msg" "undecoded msg" and p: "session_ok p"
    and run: "handle_published heap u sid msg (p, w) = (r, (p', w'))"
  shows "clean r \<and> session_ok p' \<and> length (protocol_input p') \<le> length (protocol_input p) \<and>
    (r = Inr Continue \<longrightarrow> p' = p) \<and> publishes E u (published msg) w w'"
proof -
  obtain md vid aud where cch: "cached w u = (md, vid, aud)" by (metis prod_cases3)
  obtain d m where d: "common_decode_packet msg = (d, m)" by fastforce
  note dec = decode_received [OF msg(1) d]
  consider (audio) "header_is_audio (msg_header msg)" | (video) "header_is_video (msg_header msg)"
    | (data) "header_is_amf0_data (msg_header msg) \<or> header_is_amf3_data (msg_header msg)"
      "\<not> header_is_audio (msg_header msg)" "\<not> header_is_video (msg_header msg)"
    | (other) "\<not> header_is_audio (msg_header msg)" "\<not> header_is_video (msg_header msg)"
      "\<not> (header_is_amf0_data (msg_header msg) \<or> header_is_amf3_data (msg_header msg))" by blast
  then show ?thesis
  proof cases
    case audio
    from on_audio_ok [OF ok known cch] obtain w1 where
      w1: "on_audio u msg w = (Inr (detach msg), w1)" "broadcasts E u (media_image msg) w w1"
        "cached w1 u = (md, vid, case aud of None \<Rightarrow> Some (media_image msg) | Some x \<Rightarrow> Some x)" by blast
    have "r = Inr Continue \<and> p' = p \<and> w' = w1"
      using run audio w1(1) header_types(1) [OF audio]
      by (simp add: handle_published_def on_world_def bind_def detach_def)
    then show ?thesis using audio p broadcasts_publishes [OF w1(2) cached_list_sub [OF cch w1(3)]]
      by (simp add: published_def split: option.split)
  next
    case video
    from on_video_ok [OF ok known cch] obtain w1 where
      w1: "on_video u msg w = (Inr (detach msg), w1)" "broadcasts E u (media_image msg) w w1"
        "cached w1 u = (md, case vid of None \<Rightarrow> Some (media_image msg) | Some x \<Rightarrow> Some x, aud)" by blast
    have "r = Inr Continue \<and> p' = p \<and> w' = w1"
      using run video w1(1) header_types(2) [OF video]
      by (simp add: handle_published_def on_world_def bind_def detach_def)
    then show ?thesis using video p broadcasts_publishes [OF w1(2) cached_list_sub [OF cch w1(3)]]
      by (simp add: published_def split: option.split)
  next
    case data
    show ?thesis
    proof (cases "\<exists>name props. d = Inr () \<and> msg_packet m = Some (RssOnMetaDataPacket name props)")
      case True
      then obtain name props where pkt: "d = Inr ()" "msg_packet m = Some (RssOnMetaDataPacket name props)" by blast
      have "msg_packet msg = None" using msg(2) header_types(3) [OF data(1)] by (simp add: undecoded_def)
      then have send: "sendable (metadata_packet name props)" using decoded_metadata_ok [of msg "()" m] d pkt by simp
      let ?bs = "enc_packet (metadata_packet name props)"
      from on_meta_data_ok [where heap = heap, OF ok known cch send heap] obtain w1 where
        w1: "on_meta_data heap u (msg_header m) name props w = (Inr (), w1)"
          "broadcasts E u (shared_image (msg_header m) (Some ?bs) (int (length ?bs))) w w1"
          "cached w1 u = (Some (shared_image (msg_header m) (Some ?bs) (int (length ?bs))), vid, aud)" by blast
      have "r = Inr Continue \<and> p' = p \<and> w' = w1"
        using run data d pkt w1(1) by (simp add: handle_published_def on_world_def)
      moreover have "published msg = [shared_image (msg_header m) (Some ?bs) (int (length ?bs))]"
        using data d pkt by (simp add: published_def Let_def)
      ultimately show ?thesis using p broadcasts_publishes [OF w1(2) cached_list_sub [OF cch w1(3)]] by simp
    next
      case False
      then have "clean r \<and> p' = p \<and> w' = w" "published msg = []"
        using run data d dec
        by (auto simp: handle_published_def published_def split: RssPacket.splits)
      then show ?thesis using p publishes_nothing [OF ok] by simp
    qed
  next
    case other
    have pub: "published msg = []" using other by (simp add: published_def)
    show ?thesis
    proof (cases "(header_is_amf0_command (msg_header msg) \<or> header_is_amf3_command (msg_header msg)) \<and> d = Inr () \<and>
        (\<exists>pkt. msg_packet m = Some pkt \<and> is_fmle_start pkt)")
      case True
      then obtain pkt where pkt: "msg_packet m = Some pkt" "is_fmle_start pkt" by blast
      obtain r1 p1 where un: "fmle_unpublish heap sid (transaction_id pkt) p = (r1, p1)" by fastforce
      note c = fmle_unpublish_clean [where heap = heap, OF heap p un]
      have "(r = (case r1 of Inl e \<Rightarrow> Inl e | Inr _ \<Rightarrow> Inr Return)) \<and> p' = p1 \<and> w' = w"
        using run other d True pkt un by (simp add: handle_published_def on_proto_def bind_def split: sum.splits)
      then show ?thesis using c pub publishes_nothing [OF ok] by (auto simp: clean_def split: sum.splits)
    next
      case False
      then have "clean r \<and> p' = p \<and> w' = w"
        using run other d dec by (auto simp: handle_published_def split: if_splits)
      then show ?thesis using p pub publishes_nothing [OF ok] by simp
    qed
  qed
qed

text \<open>The messages that end the loop: one that cannot be decoded, and the request to unpublish.\<close>

definition ends_publishing :: "RssCommonMessage \<Rightarrow> bool" where
  "ends_publishing m \<longleftrightarrow>
     (let h = msg_header m; command = header_is_amf0_command h \<or> header_is_amf3_command h in
      (header_is_amf0_data h \<or> header_is_amf3_data h \<or> command) \<and>
      (case common_decode_packet m of
         (Inl e, _) \<Rightarrow> True
       | (Inr _, m') \<Rightarrow> command \<and> (case msg_packet m' of None \<Rightarrow> True | Some pkt \<Rightarrow> is_fmle_start pkt)))"

lemma handle_published_next:
  assumes "\<And>n. length (heap n) = n" and "world_ok E w" and "pool w u \<noteq> None"
    and "has_payload msg" "undecoded msg" and "session_ok p"
    and run: "handle_published heap u sid msg (p, w) = (r, s')"
  shows "r = Inr Continue \<longleftrightarrow> \<not> ends_publishing msg"
    and "fst (common_decode_packet msg) = Inl e \<Longrightarrow> ends_publishing msg \<Longrightarrow> r = Inl e"
proof -
  obtain d m where d: "common_decode_packet msg = (d, m)" by (rule prod.exhaust)
  note dec = decode_received [OF assms(4) d]
  obtain md vid aud where cch: "cached w u = (md, vid, aud)" by (rule prod_cases3)
  let ?h = "msg_header msg"
  consider (media) "header_is_audio ?h \<or> header_is_video ?h"
    | (data) "header_is_amf0_data ?h \<or> header_is_amf3_data ?h" "\<not> header_is_audio ?h" "\<not> header_is_video ?h"
    | (command) "header_is_amf0_command ?h \<or> header_is_amf3_command ?h" "\<not> header_is_audio ?h" "\<not> header_is_video ?h"
        "\<not> (header_is_amf0_data ?h \<or> header_is_amf3_data ?h)"
    | (other) "\<not> header_is_audio ?h" "\<not> header_is_video ?h" "\<not> (header_is_amf0_data ?h \<or> header_is_amf3_data ?h)"
        "\<not> (header_is_amf0_command ?h \<or> header_is_amf3_command ?h)" by blast
  then have "(r = Inr Continue \<longleftrightarrow> \<not> ends_publishing msg) \<and> (\<forall>e. d = Inl e \<longrightarrow> ends_publishing msg \<longrightarrow> r = Inl e)"
  proof cases
    case media
    then have "\<not> ends_publishing msg" using header_types(1,2) [of ?h] by (auto simp: ends_publishing_def)
    moreover have "r = Inr Continue"
      using media
    proof
      assume a: "header_is_audio ?h"
      from on_audio_ok [OF assms(2,3) cch] obtain w1 where "on_audio u msg w = (Inr (detach msg), w1)" by blast
      with run a header_types(1) [OF a] show ?thesis by (simp add: handle_published_def on_world_def bind_def detach_def)
    next
      assume v: "header_is_video ?h"
      from on_video_ok [OF assms(2,3) cch] obtain w1 where "on_video u msg w = (Inr (detach msg), w1)" by blast
      with run v header_types(2) [OF v] show ?thesis by (simp add: handle_published_def on_world_def bind_def detach_def)
    qed
    ultimately show ?thesis by simp
  next
    case data
    have nc: "\<not> (header_is_amf0_command ?h \<or> header_is_amf3_command ?h)"
      using data(1) by (auto simp: header_is_defs)
    show ?thesis
    proof (cases d)
      case (Inl e)
      with run data d nc show ?thesis by (auto simp: handle_published_def ends_publishing_def Let_def)
    next
      case (Inr u')
      with dec obtain pkt where pkt: "m = msg\<lparr>msg_packet := Some pkt\<rparr>" by auto
      have "msg_packet msg = None" using assms(5) header_types(3) [OF data(1)] by (simp add: undecoded_def)
      then have send: "sendable (metadata_packet name props)" if "pkt = RssOnMetaDataPacket name props" for name props
        using decoded_metadata_ok [of msg "()" m] d pkt Inr that by simp
      have "r = Inr Continue"
      proof (cases "\<exists>name props. pkt = RssOnMetaDataPacket name props")
        case True
        then obtain name props where np: "pkt = RssOnMetaDataPacket name props" by blast
        from on_meta_data_ok [where heap = heap, OF assms(2,3) cch send [OF np] assms(1)] obtain w1 where
          "on_meta_data heap u (msg_header m) name props w = (Inr (), w1)" by blast
        with run data d Inr pkt np show ?thesis by (simp add: handle_published_def on_world_def)
      next
        case False
        with run data d Inr pkt show ?thesis by (auto simp: handle_published_def split: RssPacket.splits)
      qed
      moreover have "\<not> ends_publishing msg" using d Inr nc by (simp add: ends_publishing_def Let_def)
      ultimately show ?thesis using Inr by simp
    qed
  next
    case command
    show ?thesis
    proof (cases d)
      case (Inl e)
      with run command d show ?thesis by (auto simp: handle_published_def ends_publishing_def Let_def)
    next
      case (Inr u')
      with dec obtain pkt where pkt: "m = msg\<lparr>msg_packet := Some pkt\<rparr>" by auto
      have "r = Inr Continue \<longleftrightarrow> \<not> is_fmle_start pkt"
        using run command d Inr pkt by (auto simp: handle_published_def on_proto_def bind_def split: prod.splits sum.splits)
      then show ?thesis using command d Inr pkt by (auto simp: ends_publishing_def Let_def)
    qed
  next
    case other
    with run show ?thesis by (auto simp: handle_published_def ends_publishing_def Let_def)
  qed
  with d show "r = Inr Continue \<longleftrightarrow> \<not> ends_publishing msg"
    and "fst (common_decode_packet msg) = Inl e \<Longrightarrow> ends_publishing msg \<Longrightarrow> r = Inl e" by simp_all
qed

section \<open>Messages the consumers can be sent\<close>

text \<open>The header, the payload bytes and the chunk stream of a shared message that has a payload.\<close>

fun playable :: "IRssMessage \<Rightarrow> bool" where
  "playable (SharedPtrMessage h sz (Some arr) cid) \<longleftrightarrow> 0 < sz \<and> sz \<le> int (length arr)"
| "playable _ \<longleftrightarrow> False"

text \<open>Its bytes on the wire, with chunks of \<open>n\<close> bytes.\<close>

fun shared_wire :: "nat \<Rightarrow> IRssMessage \<Rightarrow> byte list" where
  "shared_wire n (SharedPtrMessage h sz (Some arr) cid) = concat (chunk_list n cid h [] (take (nat sz) arr))"
| "shared_wire n _ = []"

text \<open>Bytes of the payload array behind the size of the message are never looked at.\<close>

lemma payload_slice_trim:
  "0 \<le> sz \<Longrightarrow> sz \<le> int (length arr) \<Longrightarrow> off + n \<le> sz \<Longrightarrow>
   payload_slice (Some (take (nat sz) arr)) off n = payload_slice (Some arr) off n"
  by (auto simp: payload_slice_def drop_take nat_diff_distrib)

lemma send_chunks_trim:
  assumes "0 \<le> sz" and "sz \<le> int (length arr)"
  shows "send_chunks k (SharedPtrMessage h sz (Some (take (nat sz) arr)) cid) off =
    send_chunks k (SharedPtrMessage h sz (Some arr) cid) off"
proof (induction k arbitrary: off)
  case (Suc k)
  have "payload_slice (Some (take (nat sz) arr)) off (min (sz - off) c) = payload_slice (Some arr) off (min (sz - off) c)"
    for c by (rule payload_slice_trim [OF assms]) (simp add: min_def)
  with Suc show ?case by (simp add: Let_def cong: if_cong)
qed simp

lemma send_shared_trim:
  assumes "0 \<le> sz" and "sz \<le> int (length arr)"
  shows "send_message heap (SharedPtrMessage h sz (Some (take (nat sz) arr)) cid) =
    send_message heap (SharedPtrMessage h sz (Some arr) cid)"
  using send_chunks_trim [OF assms]
  by (auto simp: send_message_def on_send_message_def simp del: send_chunks.simps)

lemma send_playable:
  assumes "playable i" and "out_chunk_size s = int n" and "0 < n" and "send_message heap i s = (r, s')"
  shows "r = Inr () \<and> only_sent s s' (shared_wire n i) \<or>
    socket_failure r \<and> (\<exists>k. only_sent s s' (take k (shared_wire n i)))"
proof -
  from assms(1) obtain h sz arr cid where i: "i = SharedPtrMessage h sz (Some arr) cid" and
    sz: "0 < sz" "sz \<le> int (length arr)"
    by (cases i rule: playable.cases) auto
  let ?i = "SharedPtrMessage h sz (Some (take (nat sz) arr)) cid"
  have "imsg_encode_packet heap ?i = Inr ?i" "outgoing ?i cid h (take (nat sz) arr)" "take (nat sz) arr \<noteq> []"
    using sz by (auto simp: outgoing_def)
  moreover have "send_message heap ?i s = (r, s')" using send_shared_trim [of sz arr] sz assms(4) i by simp
  ultimately show ?thesis
    using send_message_out [of heap ?i ?i cid h "take (nat sz) arr" s n r s'] assms(2,3) i
    by (auto simp: on_send_message_def)
qed

lemma published_playable:
  assumes "has_payload msg"
  shows "list_all playable (published msg)"
proof -
  have "enc_packet (metadata_packet name md) \<noteq> []" for name md by simp
  then have "playable (shared_image h (Some (enc_packet (metadata_packet name md)))
      (int (length (enc_packet (metadata_packet name md)))))" for h name md
    by (simp add: shared_image_def del: enc_packet.simps)
  with assms show ?thesis
    by (auto simp: published_def has_payload_def Let_def shared_image_def simp del: enc_packet.simps
      split: prod.splits sum.splits option.splits RssPacket.splits)
qed

section \<open>The publishing loop\<close>

lemma publishes_trans:
  "publishes E u is w w' \<Longrightarrow> publishes E u js w' w'' \<Longrightarrow> publishes E u (is @ js) w w''"
  unfolding publishes_def by (intro conjI) (simp, simp, simp, simp, simp, simp, fast)

lemma publishes_known: "publishes E u is w w' \<Longrightarrow> pool w v \<noteq> None \<Longrightarrow> pool w' v \<noteq> None"
  by (auto simp: publishes_def dom_def)

lemma publish_round_ok:
  assumes heap: "\<And>n. length (heap n) = n" and ok: "world_ok E w" "pool w u \<noteq> None" and p: "session_ok p"
    and run: "publish_round heap u sid (p, w) = (r, (p', w'))"
  shows "r \<noteq> Inl OutOfFuel \<and> session_ok p' \<and> length (protocol_input p') \<le> length (protocol_input p) \<and>
    (\<forall>x. r = Inr x \<longrightarrow> length (protocol_input p') < length (protocol_input p)) \<and>
    ((\<exists>e. r = Inl e \<and> recv_message p = (Inl e, p') \<and> w' = w) \<or>
     (\<exists>m p1. recv_message p = (Inr m, p1) \<and> clean r \<and> (r = Inr Continue \<longrightarrow> p' = p1) \<and>
        publishes E u (published m) w w' \<and> list_all playable (published m)))"
proof -
  obtain r1 p1 where recv: "recv_message p = (r1, p1)" by fastforce
  note step = rx.recv_inv [OF p recv] rx.recv_todo [OF p recv] rx.recv_fuel [OF p recv]
  show ?thesis
  proof (cases r1)
    case (Inl e)
    with recv run step show ?thesis by (auto simp: publish_round_def on_proto_def bind_def)
  next
    case (Inr m)
    with recv have m: "recv_message p = (Inr m, p1)" by simp
    have good: "has_payload m" "undecoded m" and less: "length (protocol_input p1) < length (protocol_input p)"
      using rx.recv_good [OF p m] rx.recv_less [OF p m] by simp_all
    have "handle_published heap u sid m (p1, w) = (r, (p', w'))"
      using run m by (simp add: publish_round_def on_proto_def bind_def)
    from handle_published_ok [where heap = heap, OF heap ok good step(1) this] m less published_playable [OF good(1)]
    show ?thesis by (auto simp: clean_def)
  qed
qed

text \<open>
  What the loop is to do: behind every switch it receives the next message and gives the consumers of the stream exactly
  what that message stands for; it stops with the error of a failed receive, or behind the message that ends it.
\<close>

abbreviation sound :: "rss_world \<Rightarrow> bool" where
  "sound w \<equiv> \<exists>E. world_ok E w"

definition delivers :: "string \<Rightarrow> IRssMessage list \<Rightarrow> rss_world \<Rightarrow> rss_world \<Rightarrow> bool" where
  "delivers u is w w' \<longleftrightarrow> (\<forall>E. world_ok E w \<longrightarrow> publishes E u is w w')"

abbreviation switched :: "(nat \<Rightarrow> st_others) \<Rightarrow> client_io \<Rightarrow> client_io" where
  "switched others s \<equiv> snd (st_switch (others 0) s)"

fun publishing_run ::
  "(nat \<Rightarrow> st_others) \<Rightarrow> string \<Rightarrow> RssCommonMessage list \<Rightarrow> client_io \<Rightarrow> unit res \<Rightarrow> client_io \<Rightarrow> bool" where
  "publishing_run others u [] s r t \<longleftrightarrow>
     (\<exists>e. recv_message (fst (switched others s)) = (Inl e, fst t) \<and> r = Inl e \<and> snd t = snd (switched others s))"
| "publishing_run others u (m # ms) s r t \<longleftrightarrow>
     (\<exists>p' w'. recv_message (fst (switched others s)) = (Inr m, p') \<and>
        delivers u (published m) (snd (switched others s)) w' \<and>
        (if ends_publishing m
         then ms = [] \<and> snd t = w' \<and> clean r \<and> (\<forall>e. fst (common_decode_packet m) = Inl e \<longrightarrow> r = Inl e)
         else publishing_run (later others) u ms (p', w') r t))"

text \<open>The other threads keep the sources sound and do not remove the stream.\<close>

definition others_ok :: "string \<Rightarrow> (nat \<Rightarrow> st_others) \<Rightarrow> bool" where
  "others_ok u others \<longleftrightarrow>
     (\<forall>k e w. sound w \<longrightarrow> pool w u \<noteq> None \<longrightarrow> sound (snd (others k (e, w))) \<and> pool (snd (others k (e, w))) u \<noteq> None)"

lemma others_ok_later: "others_ok u others \<Longrightarrow> others_ok u (later others)"
  by (simp add: others_ok_def)

lemma st_switch_ok:
  obtains p1 w1 where "st_switch f (p, w) = (Inr (), (p1, w1))" "w1 = snd (f (net_errno (stfd (skt p)), w))"
    "protocol_input p1 = protocol_input p" "session_ok p1 = session_ok p" "out_chunk_size p1 = out_chunk_size p"
    "protocol_sent p1 = protocol_sent p"
  by (cases "f (net_errno (stfd (skt p)), w)")
    (simp add: st_switch_def protocol_input_def io_stream_def session_ok_def protocol_ok_def protocol_sent_def)

lemma publish_loop_ok:
  assumes heap: "\<And>n. length (heap n) = n"
  shows "sound w \<Longrightarrow> pool w u \<noteq> None \<Longrightarrow> session_ok p \<Longrightarrow> others_ok u others \<Longrightarrow>
    length (protocol_input p) < n \<Longrightarrow> publish_loop n others heap u sid (p, w) = (r, (p', w')) \<Longrightarrow>
    r \<noteq> Inl OutOfFuel \<and> session_ok p' \<and> sound w' \<and> (\<exists>ms. publishing_run others u ms (p, w) r (p', w'))"
proof (induction n arbitrary: p w others)
  case 0
  then show ?case by simp
next
  case (Suc n)
  obtain p0 w0 where sw: "st_switch (others 0) (p, w) = (Inr (), (p0, w0))" "w0 = snd (others 0 (net_errno (stfd (skt p)), w))"
    "protocol_input p0 = protocol_input p" "session_ok p0 = session_ok p"
    by (rule st_switch_ok)
  have w0: "sound w0" "pool w0 u \<noteq> None" using Suc.prems(1,2,4) sw(2) by (auto simp: others_ok_def)
  then obtain E where E: "world_ok E w0" by blast
  have p0: "session_ok p0" using Suc.prems(3) sw(4) by simp
  obtain r1 p1 w1 where round: "publish_round heap u sid (p0, w0) = (r1, (p1, w1))" by (rule prod_cases3)
  note step = publish_round_ok [where heap = heap, OF heap E w0(2) p0 round]
  show ?case
  proof (cases "\<exists>e. r1 = Inl e \<and> recv_message p0 = (Inl e, p1) \<and> w1 = w0")
    case True
    then obtain e where e: "r1 = Inl e" "recv_message p0 = (Inl e, p1)" "w1 = w0" by blast
    then have end_: "r = Inl e" "p' = p1" "w' = w0" using Suc.prems(6) sw(1) round by auto
    then have "publishing_run others u [] (p, w) r (p', w')" using sw(1) e(2) by simp
    moreover have "r \<noteq> Inl OutOfFuel" "session_ok p'" using step e(1) end_ by auto
    ultimately show ?thesis using w0(1) end_(3) by blast
  next
    case False
    with step obtain m p2 where m: "recv_message p0 = (Inr m, p2)" "r1 = Inr Continue \<longrightarrow> p1 = p2" "clean r1" by blast
    have good: "has_payload m" "undecoded m" "session_ok p2"
      using rx.recv_good [OF p0 m(1)] rx.recv_inv [OF p0 m(1)] by simp_all
    have h: "handle_published heap u sid m (p2, w0) = (r1, (p1, w1))"
      using round m(1) by (simp add: publish_round_def on_proto_def bind_def)
    note nx = handle_published_next [where heap = heap, OF heap E w0(2) good h]
    have del: "delivers u (published m) w0 w1"
      unfolding delivers_def using handle_published_ok [where heap = heap, OF heap _ w0(2) good h] by blast
    then have pub: "publishes E u (published m) w0 w1" using E by (simp add: delivers_def)
    then have "world_ok E w1" by (simp add: publishes_def)
    then have w1: "sound w1" "pool w1 u \<noteq> None" using publishes_known [OF pub w0(2)] by blast+
    show ?thesis
    proof (cases "ends_publishing m")
      case True
      then have "r1 \<noteq> Inr Continue" using nx(1) by simp
      then have end_: "p' = p1" "w' = w1" "r = (case r1 of Inl e \<Rightarrow> Inl e | Inr _ \<Rightarrow> Inr ())"
        using Suc.prems(6) sw(1) round by (auto simp: bind_def split: sum.splits loop_next.splits)
      moreover have "clean r" using m(3) end_(3) by (auto simp: clean_def split: sum.splits)
      moreover have "\<forall>e. fst (common_decode_packet m) = Inl e \<longrightarrow> r = Inl e" using nx(2) True end_(3) by auto
      ultimately have "publishing_run others u [m] (p, w) r (p', w')" using sw(1) m(1) del True by auto
      moreover have "r \<noteq> Inl OutOfFuel" using \<open>clean r\<close> by (auto simp: clean_def)
      ultimately show ?thesis using step end_ w1(1) by blast
    next
      case False
      then have c: "r1 = Inr Continue" using nx(1) by simp
      have loop: "publish_loop n (later others) heap u sid (p1, w1) = (r, (p', w'))" using Suc.prems(6) sw(1) round c by simp
      have less: "length (protocol_input p1) < n" using step c Suc.prems(5) sw(3) by auto
      from Suc.IH [OF w1 _ others_ok_later [OF Suc.prems(4)] less loop] step obtain ms where
        "r \<noteq> Inl OutOfFuel" "session_ok p'" "sound w'" "publishing_run (later others) u ms (p1, w1) r (p', w')" by blast
      moreover from this(4) have "publishing_run others u (m # ms) (p, w) r (p', w')"
        using sw(1) m c del False by auto
      ultimately show ?thesis by blast
    qed
  qed
qed

text \<open>When no other thread touches the sources, the queues grow by exactly what was received.\<close>

lemma publishing_run_alone:
  assumes "\<And>k x. snd (others k x) = snd x"
  shows "world_ok E (snd s) \<Longrightarrow> publishing_run others u ms s r t \<Longrightarrow> publishes E u (concat (map published ms)) (snd s) (snd t)"
  using assms
proof (induction ms arbitrary: others s)
  case Nil
  then have "snd t = snd s" by (auto simp: st_switch_def split: prod.splits) (metis snd_conv)
  with Nil show ?case by (simp add: publishes_nothing)
next
  case (Cons m ms)
  have w: "snd (switched others s) = snd s" using Cons.prems(3) by (auto simp: st_switch_def split: prod.splits) (metis snd_conv)
  from Cons.prems(2) obtain p' w' where step: "delivers u (published m) (snd s) w'"
    "if ends_publishing m then ms = [] \<and> snd t = w' else publishing_run (later others) u ms (p', w') r t"
    unfolding publishing_run.simps w by (metis (full_types))
  have pub: "publishes E u (published m) (snd s) w'" using step(1) Cons.prems(1) by (simp add: delivers_def)
  show ?case
  proof (cases "ends_publishing m")
    case True
    with step(2) pub show ?thesis by simp
  next
    case False
    with step(2) have "publishing_run (later others) u ms (p', w') r t" by simp
    moreover have "world_ok E w'" using pub by (simp add: publishes_def)
    ultimately have "publishes E u (concat (map published ms)) w' (snd t)" using Cons.IH [of "(p', w')" "later others"] Cons.prems(3) by simp
    with publishes_trans [OF pub this] show ?thesis by simp
  qed
qed

section \<open>The play loop\<close>

lemma shared_as_imsg_ok:
  assumes "world_ok (m # E) w"
  shows "shared_as_imsg m w = (Inr (to_imsg w m), w)"
proof -
  obtain a where a: "shm_ptr m = Some a" using initialised_handles(1) [OF assms, of m] by auto
  then obtain sp where "shared w a = Some sp" using live_handles(1) [OF assms, of m a] by auto
  with a show ?thesis by (simp add: shared_as_imsg_def to_imsg_def deref_def)
qed

text \<open>Changes of the sources that no queue and no message in other hands notices.\<close>

definition quiet :: "RssSharedPtrMessage list \<Rightarrow> rss_world \<Rightarrow> rss_world \<Rightarrow> bool" where
  "quiet E w w' \<longleftrightarrow> world_ok E w' \<and> queue w' = queue w \<and> members w' = members w \<and> cached w' = cached w \<and>
     map (to_imsg w') E = map (to_imsg w) E \<and> dom (pool w') = dom (pool w)"

lemma shared_destroy_quiet:
  assumes "world_ok (m # E) w"
  shows "\<exists>w'. shared_destroy m w = (Inr (), w') \<and> quiet E w w'"
proof -
  from shared_destroy_ok [OF assms] obtain w' where
    w': "shared_destroy m w = (Inr (), w')" "world_ok E w'" "stable w w'" "same_tables w w'" by blast
  have tabs: "consumer_at w' = consumer_at w" "pool w' = pool w" using w'(4) by (simp_all add: same_tables_def)
  have "queue w' c = queue w c" for c
    using queue_stable [OF w'(3) assms w'(2), of c _ _ "[]"] tabs by (cases "consumer_at w c") (auto simp: queue_def)
  moreover have "cached w' u = cached w u" for u using cached_stable [OF w'(3) assms w'(2)] tabs by simp
  moreover have "to_imsg w' k = to_imsg w k" if "k \<in> set E" for k
    using held_views [OF w'(3) assms w'(2)] that by simp
  ultimately show ?thesis using w' tabs by (auto simp: quiet_def members_def)
qed

lemma play_send_ok:
  assumes ok: "world_ok (m # E) w" and p: "session_ok p" "playable (to_imsg w m)"
    and run: "play_send heap m (p, w) = (r, (p', w'))"
  defines "bs \<equiv> shared_wire (nat (out_chunk_size p)) (to_imsg w m)"
  shows "quiet E w w' \<and> session_ok p' \<and>
    (r = Inr () \<and> only_sent p p' bs \<or> socket_failure r \<and> (\<exists>k. only_sent p p' (take k bs)))"
proof -
  obtain r1 p1 where send: "send_message heap (to_imsg w m) p = (r1, p1)" by fastforce
  from shared_destroy_quiet [OF ok] obtain w1 where w1: "shared_destroy m w = (Inr (), w1)" "quiet E w w1" by blast
  have res: "r = r1" "p' = p1" "w' = w1"
    using run send w1(1) shared_as_imsg_ok [OF ok]
    by (auto simp: play_send_def on_world_def on_proto_def bind_def lift_res_def split: sum.splits)
  from p(1) have "out_chunk_size p = int (nat (out_chunk_size p))" "0 < nat (out_chunk_size p)"
    by (simp_all add: session_ok_def)
  from send_playable [OF p(2) this send] w1(2) only_sent_session [OF _ p(1)] show ?thesis
    unfolding res bs_def by blast
qed

lemma quiet_trans: "quiet (X @ E) w w1 \<Longrightarrow> quiet E w1 w2 \<Longrightarrow> quiet E w w2"
  by (simp add: quiet_def)

lemma quiet_refl: "world_ok E w \<Longrightarrow> quiet E w w"
  by (simp add: quiet_def)

text \<open>
  All fetched messages are sent in order, or the first that fails ends the loop; then the messages
  behind it stay allocated with no owner.
\<close>

lemma play_send_all_ok:
  "world_ok (ms @ E) w \<Longrightarrow> session_ok p \<Longrightarrow> nat (out_chunk_size p) = n \<Longrightarrow> map (to_imsg w) ms = xs \<Longrightarrow>
   list_all playable xs \<Longrightarrow> play_send_all heap ms (p, w) = (r, (p', w')) \<Longrightarrow>
   session_ok p' \<and>
   (r = Inr () \<and> quiet E w w' \<and> only_sent p p' (concat (map (shared_wire n) xs)) \<or>
    socket_failure r \<and> (\<exists>i<length xs. quiet (drop (Suc i) ms @ E) w w' \<and>
      (\<exists>k. only_sent p p' (concat (map (shared_wire n) (take i xs)) @ take k (shared_wire n (xs ! i))))))"
proof (induction ms arbitrary: p w xs)
  case Nil
  then show ?case by (auto simp: only_sent_def quiet_refl)
next
  case (Cons m ms)
  define js where "js = map (to_imsg w) ms"
  have xs: "xs = to_imsg w m # js" using Cons.prems(4) by (simp add: js_def)
  obtain r1 p1 w1 where send: "play_send heap m (p, w) = (r1, (p1, w1))" by (metis prod_cases3)
  have ok: "world_ok (m # (ms @ E)) w" "playable (to_imsg w m)" using Cons.prems(1,5) xs by simp_all
  note one = play_send_ok [OF ok(1) Cons.prems(2) ok(2) send, unfolded Cons.prems(3)]
  show ?case
  proof (cases "r1 = Inr ()")
    case True
    with one have q: "quiet (ms @ E) w w1" and s: "only_sent p p1 (shared_wire n (to_imsg w m))" "session_ok p1"
      by (auto simp: socket_failure_def)
    have same: "map (to_imsg w1) ms = js" "world_ok (ms @ E) w1" using q by (simp_all add: quiet_def js_def)
    have tail: "play_send_all heap ms (p1, w1) = (r, (p', w'))" using Cons.prems(6) send True by simp
    have n: "nat (out_chunk_size p1) = n" using s(1) Cons.prems(3) by (simp add: only_sent_def)
    have "list_all playable js" using Cons.prems(5) xs by simp
    from Cons.IH [OF same(2) s(2) n same(1) this tail] consider
      "r = Inr ()" "session_ok p'" "quiet E w1 w'" "only_sent p1 p' (concat (map (shared_wire n) js))"
      | i k where "socket_failure r" "session_ok p'" "i < length js" "quiet (drop (Suc i) ms @ E) w1 w'"
        "only_sent p1 p' (concat (map (shared_wire n) (take i js)) @ take k (shared_wire n (js ! i)))"
      by blast
    then show ?thesis
    proof cases
      case 1
      then show ?thesis using quiet_trans [OF q] only_sent_trans [OF s(1)] xs by auto
    next
      case (2 i k)
      have "quiet (drop (Suc i) ms @ E) w w'"
        using quiet_trans [of "take (Suc i) ms" "drop (Suc i) ms @ E" w w1 w'] q 2(4)
        by (metis append_assoc append_take_drop_id)
      with 2 only_sent_trans [OF s(1) 2(5)] xs have "Suc i < length xs \<and> quiet (drop (Suc (Suc i)) (m # ms) @ E) w w' \<and>
          only_sent p p' (concat (map (shared_wire n) (take (Suc i) xs)) @ take k (shared_wire n (xs ! Suc i)))" by simp
      then show ?thesis using 2(1,2) by blast
    qed
  next
    case False
    with one have "socket_failure r1" "quiet (ms @ E) w w1" "session_ok p1"
      "\<exists>k. only_sent p p1 (take k (shared_wire n (to_imsg w m)))" by auto
    moreover from this(1) have "r = r1" "p' = p1" "w' = w1"
      using Cons.prems(6) send False by (auto simp: socket_failure_def)
    ultimately show ?thesis using xs by fastforce
  qed
qed

text \<open>A round of the play loop sends the whole queue.\<close>

lemma play_fetch_ok:
  assumes ok: "world_ok E w" and con: "consumer_at w c \<noteq> None" and len: "length (queue w c) < 2 ^ 31"
    and p: "session_ok p" and run: "play_fetch c (p, w) = (r, (p', w'))"
  shows "session_ok p' \<and> r \<noteq> Inl OutOfFuel \<and> out_chunk_size p' = out_chunk_size p \<and>
    (\<exists>d. recv_message p = (d, p')) \<and>
    ((\<exists>e. r = Inl e) \<and> w' = w \<or>
     (\<exists>ms. r = Inr ms \<and> world_ok (ms @ E) w' \<and> map (to_imsg w') ms = queue w c \<and> queue w' c = [] \<and>
        (\<forall>d. d \<noteq> c \<longrightarrow> queue w' d = queue w d) \<and> members w' = members w \<and> to_imsg w' = to_imsg w \<and>
        cached w' = cached w \<and> pool w' = pool w))"
proof -
  obtain r1 p1 where recv: "recv_message p = (r1, p1)" by fastforce
  note step = rx.recv_inv [OF p recv] rx.recv_fuel [OF p recv] keepsD [OF keeps_out_chunk_size _ recv, OF refl]
  from get_packets_ok [OF ok con order_refl len] obtain ms w1 where
    w1: "get_packets c 0 w = (Inr ms, w1)" "world_ok (ms @ E) w1" "map (to_imsg w1) ms = queue w c" "queue w1 c = []"
      "\<forall>d. d \<noteq> c \<longrightarrow> queue w1 d = queue w d" "members w1 = members w" "cached w1 = cached w"
      "to_imsg w1 = to_imsg w" "pool w1 = pool w" by auto
  show ?thesis
  proof (cases "\<exists>e. r1 = Inl e \<and> e \<noteq> Code ERROR_SOCKET_TIMEOUT")
    case True
    then have "\<exists>e. r = Inl e \<and> r1 = Inl e" "p' = p1" "w' = w"
      using run recv by (auto simp: play_fetch_def play_recv_def on_proto_def bind_def)
    with True recv step show ?thesis by auto
  next
    case False
    then have "r = Inr ms" "p' = p1" "w' = w1"
      using run recv w1(1) by (auto simp: play_fetch_def play_recv_def on_proto_def on_world_def bind_def split: sum.splits)
    with recv step w1 show ?thesis by auto
  qed
qed

lemma play_round_ok:
  assumes ok: "world_ok E w" and con: "consumer_at w c \<noteq> None" and len: "length (queue w c) < 2 ^ 31"
    and imgs: "list_all playable (queue w c)" and p: "session_ok p"
    and run: "play_round heap c (p, w) = (Inr (), (p', w'))"
  shows "world_ok E w' \<and> session_ok p' \<and> queue w' = (queue w)(c := []) \<and> members w' = members w \<and>
    cached w' = cached w \<and> (\<exists>d p1. recv_message p = (d, p1) \<and>
      only_sent p1 p' (concat (map (shared_wire (nat (out_chunk_size p))) (queue w c))))"
proof -
  obtain r1 p1 w1 where fetch: "play_fetch c (p, w) = (r1, (p1, w1))" by (metis prod_cases3)
  with run obtain ms where ms: "r1 = Inr ms" "play_send_all heap ms (p1, w1) = (Inr (), (p', w'))"
    unfolding play_round_def by (fastforce elim: bind_cases)
  from play_fetch_ok [OF ok con len p fetch] ms(1) obtain d where f: "session_ok p1" "recv_message p = (d, p1)"
    "out_chunk_size p1 = out_chunk_size p" "world_ok (ms @ E) w1" "map (to_imsg w1) ms = queue w c" "queue w1 c = []"
    "\<forall>d. d \<noteq> c \<longrightarrow> queue w1 d = queue w d" "members w1 = members w" "cached w1 = cached w" by auto
  then have "queue w1 = (queue w)(c := [])" by auto
  with play_send_all_ok [OF f(4,1) _ f(5) imgs ms(2), of "nat (out_chunk_size p)"] f show ?thesis
    by (auto simp: socket_failure_def quiet_def)
qed

section \<open>Connecting\<close>

text \<open>Operations on the socket alone keep the protocol's invariant.\<close>

definition shrinks :: "(RssSocket, 'a) comp \<Rightarrow> bool" where
  "shrinks m \<longleftrightarrow> (\<forall>k r k'. m k = (r, k') \<longrightarrow> r \<noteq> Inl OutOfFuel \<and> length (sock_in k') \<le> length (sock_in k))"

lemma shrinks_intro:
  "shrinks (return x)" "e \<noteq> OutOfFuel \<Longrightarrow> shrinks (fail e)"
  "shrinks m \<Longrightarrow> shrinks n \<Longrightarrow> shrinks (if b then m else n)"
  by (auto simp: shrinks_def)

lemma shrinks_bind: "shrinks m \<Longrightarrow> (\<And>x. shrinks (f x)) \<Longrightarrow> shrinks (bind m f)"
  unfolding shrinks_def by (blast elim!: bind_cases intro: order_trans)

lemma shrinks_read_fully: "shrinks (socket_read_fully n)"
  by (auto simp: shrinks_def socket_read_fully_def st_read_fully_def st_read_resid_def split: prod.splits if_splits
    dest!: st_readv_resid_stream)

lemma shrinks_write: "shrinks (socket_write bs)"
  by (auto simp: shrinks_def socket_write_def net_in_def split: prod.splits if_splits dest!: st_write_sent)

lemma exchange_new_skt: "shrinks m \<Longrightarrow> exchange (with_new_skt m)"
  by (fastforce simp: exchange_def shrinks_def with_new_skt_def session_ok_def protocol_ok_def protocol_input_def
    io_stream_def socket_new_def split: prod.splits)

lemma exchange_handshake: "exchange (handshake heap)"
  unfolding handshake_def
  by (intro exchange_new_skt shrinks_bind shrinks_intro shrinks_read_fully shrinks_write) simp

lemma exchange_timeouts:
  "exchange (protocol_set_recv_timeout ms)" "exchange (protocol_set_send_timeout ms)"
  by (auto simp: exchange_def protocol_set_recv_timeout_def protocol_set_send_timeout_def socket_set_recv_timeout_def
    socket_set_send_timeout_def with_skt_def session_ok_def protocol_ok_def protocol_input_def io_stream_def ms_to_us_def
    split: prod.splits)

lemma exchange_connect_client:
  assumes heap: "\<And>n. length (heap n) = n"
  shows "exchange (connect_client heap peer)"
proof -
  have "exchange (lift_res (get_peer_ip peer))"
    by (cases peer) (simp_all add: exchange_def lift_res_def)
  moreover have "RTMP_MIN_CHUNK_SIZE \<le> sint (4096 :: i32)" by simp
  ultimately show ?thesis
    unfolding connect_client_def set_window_ack_size_def set_peer_bandwidth_def response_connect_app_def on_bw_done_def
    by (intro exchange_bind exchange_timeouts exchange_handshake exchange_connect_app
      exchange_send_packet [where heap = heap, OF _ heap] transaction_responses connect_app_res_response
      exchange_identify_client [where heap = heap, OF heap] exchange_set_chunk_size [where heap = heap, OF heap])
      (auto intro!: exchange_intro exchange_set_chunk_size [where heap = heap, OF heap])
qed

section \<open>A closed connection that looks like a timeout\<close>

text \<open>
  At the end of the input \<^verbatim>\<open>st_read\<close> returns 0 and does not touch \<^verbatim>\<open>errno\<close>. When \<^verbatim>\<open>errno\<close> is \<^verbatim>\<open>ETIME\<close> from an
  earlier wait, the socket reports a timeout and nothing has changed, so the play loop goes on.
\<close>

lemma recv_message_stale_errno:
  assumes "net_rd (stfd (skt p)) = []" and "net_errno (stfd (skt p)) = ETIME" and "buf_data (buffer p) = []"
  shows "recv_message p = (Inl (Code ERROR_SOCKET_TIMEOUT), p)"
proof -
  have rd: "st_read n t (stfd (skt p)) = (Some [], stfd (skt p))" for n t
    by (subst st_read.simps) (simp add: assms(1) sys_read.simps)
  have "ensure_buffer_bytes 1 (buffer p, skt p) = (Inl (Code ERROR_SOCKET_TIMEOUT), (buffer p, skt p))"
    using assms(2,3) rd by (simp add: ensure_buffer_bytes_def ensure_loop.simps buffer_size_def int_of_size_def socket_read_def)
  then show ?thesis
    by (simp add: recv_message_def recv_interlaced_message_def with_io_def read_basic_header_def bind_def)
qed

text \<open>Without an end in \<^verbatim>\<open>errno\<close> the end of the input is an error.\<close>

lemma recv_message_closed:
  assumes "net_rd (stfd (skt p)) = []" and "net_errno (stfd (skt p)) \<noteq> ETIME" and "buf_data (buffer p) = []"
  shows "fst (recv_message p) = Inl (Code ERROR_SOCKET_READ)"
proof -
  have rd: "st_read n t (stfd (skt p)) = (Some [], stfd (skt p))" for n t
    by (subst st_read.simps) (simp add: assms(1) sys_read.simps)
  have "fst (ensure_buffer_bytes 1 (buffer p, skt p)) = Inl (Code ERROR_SOCKET_READ)"
    using assms(2,3) rd by (simp add: ensure_buffer_bytes_def ensure_loop.simps buffer_size_def int_of_size_def socket_read_def)
  then obtain io where "ensure_buffer_bytes 1 (buffer p, skt p) = (Inl (Code ERROR_SOCKET_READ), io)"
    by (metis prod.collapse)
  then show ?thesis
    by (cases io) (simp add: recv_message_def recv_interlaced_message_def with_io_def read_basic_header_def bind_def)
qed

text \<open>\<^verbatim>\<open>errno\<close> and the sources after the first \<open>k\<close> switches, when only the other threads touch them.\<close>

fun after_switches :: "(nat \<Rightarrow> st_others) \<Rightarrow> nat \<Rightarrow> st_errno \<times> rss_world \<Rightarrow> st_errno \<times> rss_world" where
  "after_switches others 0 x = x"
| "after_switches others (Suc k) x = after_switches (later others) k (others 0 x)"

lemma play_loop_closed:
  assumes "net_rd (stfd (skt p)) = []" and "buf_data (buffer p) = []"
    and "\<And>k. k < n \<Longrightarrow> \<exists>con. consumer_at (snd (after_switches others (Suc k) (net_errno (stfd (skt p)), w))) c = Some con \<and>
      con_msgs con = []"
  shows "fst (play_loop n others heap c (p, w)) =
    Inl (if \<forall>k < n. fst (after_switches others (Suc k) (net_errno (stfd (skt p)), w)) = ETIME
         then OutOfFuel else Code ERROR_SOCKET_READ)"
  using assms
proof (induction n arbitrary: others p w)
  case (Suc n)
  obtain e w0 where ew: "others 0 (net_errno (stfd (skt p)), w) = (e, w0)" by (rule prod.exhaust)
  define p0 where "p0 = p\<lparr>skt := (skt p)\<lparr>stfd := set_errno e (stfd (skt p))\<rparr>\<rparr>"
  have sw: "st_switch (others 0) (p, w) = (Inr (), (p0, w0))" by (simp add: st_switch_def ew p0_def)
  have p0: "net_rd (stfd (skt p0)) = []" "buf_data (buffer p0) = []" "net_errno (stfd (skt p0)) = e"
    using Suc.prems(1,2) by (simp_all add: p0_def set_errno_def)
  have split: "(\<forall>k < Suc n. P k) \<longleftrightarrow> P 0 \<and> (\<forall>k < n. P (Suc k))" for P :: "nat \<Rightarrow> bool"
    by (auto simp: less_Suc_eq_0_disj)
  show ?case
  proof (cases "e = ETIME")
    case True
    from Suc.prems(3) [of 0] obtain con where con: "consumer_at w0 c = Some con" "con_msgs con = []" by (auto simp: ew)
    have "play_round heap c (p0, w0) = (Inr (), (p0, w0))"
      using recv_message_stale_errno [OF p0(1) _ p0(2)] p0(3) True con
      by (simp add: play_round_def play_fetch_def play_recv_def on_proto_def on_world_def bind_def get_packets_def deref_def)
    then have "play_loop (Suc n) others heap c (p, w) = play_loop n (later others) heap c (p0, w0)" using sw by simp
    moreover have "\<exists>con. consumer_at (snd (after_switches (later others) (Suc k) (net_errno (stfd (skt p0)), w0))) c = Some con \<and>
        con_msgs con = []" if "k < n" for k
      using Suc.prems(3) [of "Suc k"] that by (simp add: ew p0(3))
    note Suc.IH [OF p0(1,2) this]
    ultimately show ?thesis using True by (simp only: split) (simp add: ew p0(3))
  next
    case False
    have "fst (play_round heap c (p0, w0)) = Inl (Code ERROR_SOCKET_READ)"
      using recv_message_closed [OF p0(1) _ p0(2)] p0(3) False
      by (cases "recv_message p0") (simp add: play_round_def play_fetch_def play_recv_def on_proto_def bind_def)
    then have "fst (play_loop (Suc n) others heap c (p, w)) = Inl (Code ERROR_SOCKET_READ)"
      using sw by (cases "play_round heap c (p0, w0)") simp
    then show ?thesis using False by (simp only: split) (simp add: ew)
  qed
qed simp

end
