(* ===== verification/Rss_System.thy ===== *)
theory Rss_System
  imports Rss_Client_Correct "HOL-Library.Multiset"
begin

text \<open>
  All client threads of the server together. The threads are cooperative: a thread gives up the
  processor only while it waits for its socket and in \<^verbatim>\<open>st_usleep\<close>. The steps of the system
  are the stretches of a thread's work between such points: connecting and the exchanges before
  streaming touch only the thread's own protocol, a publishing thread handles one received
  message, a playing thread fetches its queue or sends one of the fetched messages. The steps of the
  threads interleave in any order.

  The invariant says that the reference counts of the shared payloads are right in every state, and
  that a playing client is sent, in order and without loss or repetition, the messages that were cached when
  it joined and then those published since.
\<close>

section \<open>State\<close>

datatype phase =
    Connecting
  | Starting string RssClientType
  | Publishing string
  | Playing string nat "RssSharedPtrMessage list"
  | Closed

text \<open>
  A thread: its protocol and what it is doing; a playing thread names its stream, its consumer and the messages
  it has fetched and not yet sent. The other fields record the past of a playing thread: what
  had been sent, what was cached and how much had been published when it joined.
\<close>

record client_thread =
  th_proto :: RssProtocol
  th_phase :: phase
  th_base :: "byte list"
  th_start :: "IRssMessage list"
  th_join :: nat

text \<open>The messages published so far are recorded with their streams; \<open>sys_lost\<close> are messages no one will free.\<close>

record rss_system =
  sys_world :: rss_world
  sys_threads :: "client_thread list"
  sys_lost :: "RssSharedPtrMessage list"
  sys_log :: "(string \<times> IRssMessage) list"

definition thread_new :: "st_net \<Rightarrow> client_thread" where
  "thread_new net = \<lparr>th_proto = protocol_new net, th_phase = Connecting, th_base = [], th_start = [], th_join = 0\<rparr>"

definition system_new :: rss_system where
  "system_new = \<lparr>sys_world = world_new, sys_threads = [], sys_lost = [], sys_log = []\<rparr>"

section \<open>Steps\<close>

text \<open>What the message that the next \<^verbatim>\<open>recv_message\<close> delivers will publish.\<close>

definition next_published :: "RssProtocol \<Rightarrow> IRssMessage list" where
  "next_published p = (case recv_message p of (Inr m, _) \<Rightarrow> published m | _ \<Rightarrow> [])"

text \<open>
  A step of one thread on the sources: \<open>thread_step heap log (t, w) (t', w') new lost\<close>. It publishes \<open>new\<close>
  and loses \<open>lost\<close>. A queue holds fewer than $2^{31}$ messages. Where the code ends in undefined behaviour or in a failed
  assertion there is no step.
\<close>

inductive thread_step ::
  "(nat \<Rightarrow> byte list) \<Rightarrow> (string \<times> IRssMessage) list \<Rightarrow> client_thread \<times> rss_world \<Rightarrow> client_thread \<times> rss_world \<Rightarrow>
   (string \<times> IRssMessage) list \<Rightarrow> RssSharedPtrMessage list \<Rightarrow> bool" for heap log where
  connected:
    "th_phase t = Connecting \<Longrightarrow> connect_client heap peer (th_proto t) = (Inr (req, type), p) \<Longrightarrow>
     source_find (get_stream_url req) w = (Inr (), w') \<Longrightarrow>
     thread_step heap log (t, w) (t\<lparr>th_proto := p, th_phase := Starting (get_stream_url req) type\<rparr>, w') [] []"
| connect_failed:
    "th_phase t = Connecting \<Longrightarrow> connect_client heap peer (th_proto t) = (Inl (Code e), p) \<Longrightarrow>
     thread_step heap log (t, w) (t\<lparr>th_proto := p, th_phase := Closed\<rparr>, w) [] []"
| play_started:
    "th_phase t = Starting u RssClientPlay \<Longrightarrow> start_play heap RSS_DEFAULT_SID (th_proto t) = (Inr (), p) \<Longrightarrow>
     start_playing u (p, w) = (Inr c, (p', w')) \<Longrightarrow>
     thread_step heap log (t, w) (t\<lparr>th_proto := p', th_phase := Playing u c [], th_base := protocol_sent p',
       th_start := cached_list w u, th_join := length log\<rparr>, w') [] []"
| publish_started:
    "th_phase t = Starting u RssClientPublish \<Longrightarrow> start_publish heap RSS_DEFAULT_SID (th_proto t) = (Inr (), p) \<Longrightarrow>
     thread_step heap log (t, w) (t\<lparr>th_proto := p, th_phase := Publishing u\<rparr>, w) [] []"
| play_refused:
    "th_phase t = Starting u RssClientPlay \<Longrightarrow> start_play heap RSS_DEFAULT_SID (th_proto t) = (Inl (Code e), p) \<Longrightarrow>
     thread_step heap log (t, w) (t\<lparr>th_proto := p, th_phase := Closed\<rparr>, w) [] []"
| publish_refused:
    "th_phase t = Starting u RssClientPublish \<Longrightarrow> start_publish heap RSS_DEFAULT_SID (th_proto t) = (Inl (Code e), p) \<Longrightarrow>
     thread_step heap log (t, w) (t\<lparr>th_proto := p, th_phase := Closed\<rparr>, w) [] []"
| unknown_client:
    "th_phase t = Starting u RssClientUnknown \<Longrightarrow>
     thread_step heap log (t, w) (t\<lparr>th_phase := Closed\<rparr>, w) [] []"
| publish:
    "th_phase t = Publishing u \<Longrightarrow> publish_round heap u RSS_DEFAULT_SID (th_proto t, w) = (r, (p, w')) \<Longrightarrow> clean r \<Longrightarrow>
     thread_step heap log (t, w) (t\<lparr>th_proto := p, th_phase := (if r = Inr Continue then Publishing u else Closed)\<rparr>, w')
       (map (Pair u) (next_published (th_proto t))) []"
| fetched:
    "th_phase t = Playing u c [] \<Longrightarrow> length (queue w c) < 2 ^ 31 \<Longrightarrow>
     play_fetch c (th_proto t, w) = (Inr ms, (p, w')) \<Longrightarrow>
     thread_step heap log (t, w) (t\<lparr>th_proto := p, th_phase := Playing u c ms\<rparr>, w') [] []"
| fetch_failed:
    "th_phase t = Playing u c [] \<Longrightarrow> length (queue w c) < 2 ^ 31 \<Longrightarrow>
     play_fetch c (th_proto t, w) = (Inl (Code e), (p, w1)) \<Longrightarrow> consumer_destroy c w1 = (Inr (), w') \<Longrightarrow>
     thread_step heap log (t, w) (t\<lparr>th_proto := p, th_phase := Closed\<rparr>, w') [] []"
| sent:
    "th_phase t = Playing u c (m # ms) \<Longrightarrow> play_send heap m (th_proto t, w) = (Inr (), (p, w')) \<Longrightarrow>
     thread_step heap log (t, w) (t\<lparr>th_proto := p, th_phase := Playing u c ms\<rparr>, w') [] []"
| send_failed:
    "th_phase t = Playing u c (m # ms) \<Longrightarrow> play_send heap m (th_proto t, w) = (Inl (Code e), (p, w1)) \<Longrightarrow>
     consumer_destroy c w1 = (Inr (), w') \<Longrightarrow>
     thread_step heap log (t, w) (t\<lparr>th_proto := p, th_phase := Closed\<rparr>, w') [] ms"

text \<open>A step of the system: a new connection, or a step of one of the threads.\<close>

inductive sys_step :: "(nat \<Rightarrow> byte list) \<Rightarrow> rss_system \<Rightarrow> rss_system \<Rightarrow> bool" for heap where
  accepted: "sys_step heap s (s\<lparr>sys_threads := sys_threads s @ [thread_new net]\<rparr>)"
| stepped:
    "k < length (sys_threads s) \<Longrightarrow>
     thread_step heap (sys_log s) (sys_threads s ! k, sys_world s) (t', w') new lost \<Longrightarrow>
     sys_step heap s (s\<lparr>sys_world := w', sys_threads := (sys_threads s)[k := t'], sys_lost := lost @ sys_lost s,
       sys_log := sys_log s @ new\<rparr>)"

definition reachable :: "(nat \<Rightarrow> byte list) \<Rightarrow> rss_system \<Rightarrow> bool" where
  "reachable heap s \<longleftrightarrow> (sys_step heap)\<^sup>*\<^sup>* system_new s"

section \<open>The invariant\<close>

fun held_by :: "phase \<Rightarrow> RssSharedPtrMessage list" where
  "held_by (Playing _ _ ms) = ms"
| "held_by _ = []"

fun consumers_of :: "phase \<Rightarrow> nat list" where
  "consumers_of (Playing _ c _) = [c]"
| "consumers_of _ = []"

text \<open>The messages published on a stream.\<close>

definition due :: "string \<Rightarrow> (string \<times> IRssMessage) list \<Rightarrow> IRssMessage list" where
  "due u log = map snd (filter (\<lambda>e. fst e = u) log)"

text \<open>
  A playing client: what it was sent since it joined, what it is about to send and what is queued are
  together what was cached when it joined and what was published since.
\<close>

definition plays :: "rss_world \<Rightarrow> (string \<times> IRssMessage) list \<Rightarrow> client_thread \<Rightarrow> string \<Rightarrow> nat \<Rightarrow>
    RssSharedPtrMessage list \<Rightarrow> bool" where
  "plays w log t u c ms \<longleftrightarrow> c \<in> members w u \<and> th_join t \<le> length log \<and>
     list_all playable (map (to_imsg w) ms @ queue w c) \<and>
     (\<exists>done. protocol_sent (th_proto t) =
          th_base t @ concat (map (shared_wire (nat (out_chunk_size (th_proto t)))) done) \<and>
        done @ map (to_imsg w) ms @ queue w c = th_start t @ due u (drop (th_join t) log))"

fun phase_ok :: "rss_world \<Rightarrow> (string \<times> IRssMessage) list \<Rightarrow> client_thread \<Rightarrow> phase \<Rightarrow> bool" where
  "phase_ok w log t (Starting u _) \<longleftrightarrow> pool w u \<noteq> None"
| "phase_ok w log t (Publishing u) \<longleftrightarrow> pool w u \<noteq> None"
| "phase_ok w log t (Playing u c ms) \<longleftrightarrow> plays w log t u c ms"
| "phase_ok w log t _ \<longleftrightarrow> True"

definition thread_ok :: "rss_world \<Rightarrow> (string \<times> IRssMessage) list \<Rightarrow> client_thread \<Rightarrow> bool" where
  "thread_ok w log t \<longleftrightarrow> session_ok (th_proto t) \<and> phase_ok w log t (th_phase t)"

definition threads_ok ::
  "rss_world \<Rightarrow> (string \<times> IRssMessage) list \<Rightarrow> RssSharedPtrMessage list \<Rightarrow> client_thread list \<Rightarrow> bool" where
  "threads_ok w log lost ts \<longleftrightarrow>
     world_ok (concat (map (held_by \<circ> th_phase) ts) @ lost) w \<and>
     distinct (concat (map (consumers_of \<circ> th_phase) ts)) \<and>
     (\<forall>t\<in>set ts. thread_ok w log t) \<and> (\<forall>u. list_all playable (cached_list w u))"

definition sys_ok :: "rss_system \<Rightarrow> bool" where
  "sys_ok s \<longleftrightarrow> threads_ok (sys_world s) (sys_log s) (sys_lost s) (sys_threads s)"

section \<open>Order does not matter for ownership\<close>

lemma refs_mset: "refs a ms = size (filter_mset (\<lambda>m. shm_ptr m = Some a) (mset ms))"
  by (simp add: refs_def flip: mset_filter)

lemma world_ok_mset:
  assumes "mset E = mset E'"
  shows "world_ok E w = world_ok E' w"
proof -
  have "refs a E = refs a E'" for a unfolding refs_mset assms ..
  moreover have "set E = set E'" using assms by (rule mset_eq_setD)
  ultimately show ?thesis by (simp add: world_ok_def counted_def initialised_def holders_def)
qed

lemma concat_mset: "mset ts = mset ts' \<Longrightarrow> mset (concat (map f ts)) = mset (concat (map f ts'))"
  by (simp add: mset_concat mset_map flip: sum_mset_sum_list)

lemma threads_ok_mset:
  assumes "mset ts = mset ts'"
  shows "threads_ok w log lost ts = threads_ok w log lost ts'"
proof -
  have "mset (concat (map (held_by \<circ> th_phase) ts) @ lost) = mset (concat (map (held_by \<circ> th_phase) ts') @ lost)"
    using concat_mset [OF assms] by simp
  from world_ok_mset [OF this] show ?thesis
    using mset_eq_imp_distinct_iff [OF concat_mset [OF assms, of "consumers_of \<circ> th_phase"]] mset_eq_setD [OF assms]
    by (simp add: threads_ok_def)
qed

section \<open>What a step leaves alone\<close>

lemma due_append: "due u (a @ b) = due u a @ due u b"
  by (simp add: due_def)

lemma due_stream: "due v (map (Pair u) xs) = (if v = u then xs else [])"
  by (simp add: due_def filter_map comp_def)

text \<open>
  The sources as seen by the other threads: \<open>cs\<close> are the consumers of the thread that takes the step, \<open>R\<close> the messages
  held by others.
\<close>

definition evolves ::
  "nat list \<Rightarrow> (string \<times> IRssMessage) list \<Rightarrow> RssSharedPtrMessage list \<Rightarrow> rss_world \<Rightarrow> rss_world \<Rightarrow> bool" where
  "evolves cs new R w w' \<longleftrightarrow> dom (pool w) \<subseteq> dom (pool w') \<and>
     (\<forall>u c. c \<notin> set cs \<longrightarrow> c \<in> members w u \<longrightarrow> c \<in> members w' u \<and> queue w' c = queue w c @ due u new) \<and>
     map (to_imsg w') R = map (to_imsg w) R \<and>
     (\<forall>u. set (cached_list w' u) \<subseteq> set (cached_list w u) \<union> set (map snd new)) \<and>
     list_all playable (map snd new)"

lemma evolves_refl: "evolves cs [] R w w"
  by (simp add: evolves_def due_def)

lemma plays_frame:
  assumes "plays w log t u c ms" and "evolves cs new R w w'" and "c \<notin> set cs" and "set ms \<subseteq> set R"
  shows "plays w' (log @ new) t u c ms"
proof -
  have q: "c \<in> members w' u" "queue w' c = queue w c @ due u new" "list_all playable (due u new)"
    using assms(1-3) by (auto simp: plays_def evolves_def due_def list_all_iff)
  have h: "map (to_imsg w') ms = map (to_imsg w) ms" using assms(2,4) by (auto simp: evolves_def)
  have j: "th_join t \<le> length log" using assms(1) by (simp add: plays_def)
  show ?thesis
    unfolding plays_def h q(2) using assms(1) q(1,3) j
    by (auto simp: plays_def due_append)
qed

lemma thread_ok_frame:
  assumes "thread_ok w log t" and "evolves cs new R w w'" and "set (consumers_of (th_phase t)) \<inter> set cs = {}"
    and "set (held_by (th_phase t)) \<subseteq> set R"
  shows "thread_ok w' (log @ new) t"
proof -
  have "pool w' v \<noteq> None" if "pool w v \<noteq> None" for v
    using assms(2) that by (auto simp: evolves_def dom_def)
  then show ?thesis
    using assms(1,3,4) plays_frame [OF _ assms(2)] by (cases "th_phase t") (auto simp: thread_ok_def)
qed

text \<open>One thread takes a step; the others are framed.\<close>

lemma threads_ok_replace:
  assumes ok: "threads_ok w log lost (t # os)"
    and ev: "evolves (consumers_of (th_phase t)) new (concat (map (held_by \<circ> th_phase) os) @ lost) w w'"
    and world: "world_ok (held_by (th_phase t') @ lost' @ concat (map (held_by \<circ> th_phase) os) @ lost) w'"
    and cons: "set (consumers_of (th_phase t')) \<inter> set (concat (map (consumers_of \<circ> th_phase) os)) = {}"
    and t': "thread_ok w' (log @ new) t'"
  shows "threads_ok w' (log @ new) (lost' @ lost) (t' # os)"
proof -
  have "thread_ok w' (log @ new) x" if "x \<in> set os" for x
  proof (rule thread_ok_frame [OF _ ev])
    show "thread_ok w log x" using ok that by (simp add: threads_ok_def)
    show "set (consumers_of (th_phase x)) \<inter> set (consumers_of (th_phase t)) = {}"
      using ok that by (fastforce simp: threads_ok_def)
    show "set (held_by (th_phase x)) \<subseteq> set (concat (map (held_by \<circ> th_phase) os) @ lost)" using that by auto
  qed
  moreover have "world_ok (concat (map (held_by \<circ> th_phase) (t' # os)) @ lost' @ lost) w'"
    using world by (subst world_ok_mset) (auto simp: ac_simps)
  moreover have "distinct (consumers_of (th_phase t'))" by (cases "th_phase t'") auto
  moreover have "list_all playable (cached_list w' u)" for u
    using ok ev unfolding threads_ok_def evolves_def list_all_iff by fastforce
  ultimately show ?thesis using ok cons t' by (auto simp: threads_ok_def)
qed

section \<open>Every step keeps the invariant\<close>

lemma evolves_quiet: "quiet E w w' \<Longrightarrow> set R \<subseteq> set E \<Longrightarrow> evolves cs [] R w w'"
  by (auto simp: quiet_def evolves_def due_def cached_list_def)

lemma evolves_publishes:
  assumes "publishes E u xs w w'" and "list_all playable xs" and "set R \<subseteq> set E"
  shows "evolves cs (map (Pair u) xs) R w w'"
  unfolding evolves_def
proof (intro conjI allI impI)
  fix v c assume "c \<in> members w v"
  moreover have "c \<in> members w u \<longleftrightarrow> v = u" using calculation by (auto simp: members_def)
  ultimately show "queue w' c = queue w c @ due v (map (Pair u) xs)"
    using assms(1) by (simp add: publishes_def due_stream)
  show "c \<in> members w' v" using assms(1) \<open>c \<in> members w v\<close> by (simp add: publishes_def)
qed (use assms in \<open>auto simp: publishes_def comp_def\<close>)

lemma plays_thread: "th_phase t = Playing u c ms \<Longrightarrow> thread_ok w log t \<Longrightarrow> plays w log t u c ms"
  by (simp add: thread_ok_def)

lemma member_consumer: "c \<in> members w u \<Longrightarrow> consumer_at w c \<noteq> None"
  by (auto simp: members_def)

text \<open>The thread leaves and its consumer is destroyed.\<close>

lemma evolves_destroy:
  assumes "world_ok E w" and "consumer_at w c \<noteq> None" and "set R \<subseteq> set E" and "consumer_destroy c w = (Inr (), w')"
  shows "evolves [c] [] R w w'" and "world_ok E w'"
  using consumer_destroy_ok [OF assms(1,2)] assms(3,4) by (auto simp: evolves_def due_def cached_list_def)

lemma evolves_trans:
  "evolves cs [] R w w1 \<Longrightarrow> evolves cs [] R w1 w2 \<Longrightarrow> evolves cs [] R w w2"
  unfolding evolves_def by (simp add: due_def) (metis subset_trans)

text \<open>A thread that is not playing.\<close>

lemma idle_thread:
  "held_by (th_phase t) = [] \<Longrightarrow> consumers_of (th_phase t) = [] \<Longrightarrow> session_ok (th_proto t) \<Longrightarrow>
   (\<And>u. th_phase t = Publishing u \<or> (\<exists>ty. th_phase t = Starting u ty) \<Longrightarrow> pool w u \<noteq> None) \<Longrightarrow> thread_ok w log t"
  by (cases "th_phase t") (auto simp: thread_ok_def)

lemma idle_replace:
  assumes ok: "threads_ok w log lost (t # os)" and idle: "consumers_of (th_phase t) = []" "held_by (th_phase t) = []"
    "consumers_of (th_phase t') = []" "held_by (th_phase t') = []"
    and proto: "session_ok (th_proto t')"
    and known: "\<And>u. th_phase t' = Publishing u \<or> (\<exists>ty. th_phase t' = Starting u ty) \<Longrightarrow> pool w' u \<noteq> None"
    and world: "world_ok (concat (map (held_by \<circ> th_phase) os) @ lost) w'"
    and ev: "evolves [] new (concat (map (held_by \<circ> th_phase) os) @ lost) w w'"
  shows "threads_ok w' (log @ new) lost (t' # os)"
  using threads_ok_replace [OF ok, of new w' t' "[]"] idle_thread [OF idle(4,3) proto known] idle world ev by simp

lemma world_of_idle:
  "threads_ok w log lost (t # os) \<Longrightarrow> held_by (th_phase t) = [] \<Longrightarrow>
   world_ok (concat (map (held_by \<circ> th_phase) os) @ lost) w"
  by (simp add: threads_ok_def)

lemma in_consumers_of: "c \<in> set (consumers_of ph) \<longleftrightarrow> (\<exists>v ms. ph = Playing v c ms)"
  by (cases ph) auto

lemma exchange_session: "exchange m \<Longrightarrow> session_ok p \<Longrightarrow> m p = (r, p') \<Longrightarrow> session_ok p'"
  unfolding exchange_def by blast

lemma set_recv_timeout_same:
  "protocol_set_recv_timeout ms p = (r, p') \<Longrightarrow> session_ok p \<Longrightarrow> session_ok p'"
  by (rule exchange_session [OF exchange_timeouts(1)])

text \<open>Joining: the consumer is new, and its queue holds the cached messages.\<close>

lemma play_started_ok:
  assumes ok: "threads_ok w log lost (t # os)" and ph: "th_phase t = Starting u RssClientPlay"
    and p: "session_ok p" and run: "start_playing u (p, w) = (Inr c, (p', w'))"
  shows "threads_ok w' log lost (t\<lparr>th_proto := p', th_phase := Playing u c [], th_base := protocol_sent p',
    th_start := cached_list w u, th_join := length log\<rparr> # os)" (is "threads_ok w' log lost (?t' # os)")
proof -
  let ?R = "concat (map (held_by \<circ> th_phase) os) @ lost"
  have world: "world_ok ?R w" and known: "pool w u \<noteq> None" and cch: "list_all playable (cached_list w u)"
    using ok ph by (simp_all add: threads_ok_def thread_ok_def)
  obtain md vid aud where c3: "cached w u = (md, vid, aud)" by (metis prod_cases3)
  from create_consumer_ok [OF world known c3] obtain c' w1 where
    new: "create_consumer u w = (Inr c', w1)" "world_ok ?R w1" "consumer_at w c' = None"
      "queue w1 c' = cached_list w u" "\<forall>d. d \<noteq> c' \<longrightarrow> queue w1 d = queue w d"
      "members w1 = (members w)(u := insert c' (members w u))" "cached w1 = cached w"
      "map (to_imsg w1) ?R = map (to_imsg w) ?R" "dom (pool w1) = dom (pool w)"
    using c3 by (auto simp: cached_list_def)
  have res: "c' = c" "w1 = w'" "session_ok p'"
    using run new(1) set_recv_timeout_same [OF _ p]
    by (auto simp: start_playing_def on_world_def on_proto_def bind_def split: prod.splits sum.splits)
  have fresh: "c \<notin> members w v" for v using new(3) res(1) by (simp add: members_def)
  then have "queue w' d = queue w d" if "d \<in> members w v" for d v using new(5) that res(1,2) by metis
  then have "evolves [] [] ?R w w'"
    using new(6-9) unfolding res(1,2) evolves_def by (auto simp: due_def cached_list_def)
  moreover have "thread_ok w' log ?t'"
    using new(4,6) cch res(1-3) by (auto simp: thread_ok_def plays_def due_def intro!: exI [of _ "[]"])
  moreover have "c \<notin> set (concat (map (consumers_of \<circ> th_phase) os))"
  proof
    assume "c \<in> set (concat (map (consumers_of \<circ> th_phase) os))"
    then obtain x v ms where "x \<in> set os" "th_phase x = Playing v c ms" by (auto simp: in_consumers_of)
    then have "c \<in> members w v" using ok plays_thread [of x v c ms w log] by (simp add: threads_ok_def plays_def)
    with fresh show False by blast
  qed
  ultimately show ?thesis
    using threads_ok_replace [OF ok, of "[]" w' ?t' "[]"] new(2) res(2) ph by simp
qed

text \<open>Publishing one message.\<close>

lemma publish_step_ok:
  assumes heap: "\<And>n. length (heap n) = n"
    and ok: "threads_ok w log lost (t # os)" and ph: "th_phase t = Publishing u"
    and run: "publish_round heap u RSS_DEFAULT_SID (th_proto t, w) = (r, (p, w'))"
  shows "threads_ok w' (log @ map (Pair u) (next_published (th_proto t))) lost
    (t\<lparr>th_proto := p, th_phase := (if r = Inr Continue then Publishing u else Closed)\<rparr> # os)"
proof -
  let ?R = "concat (map (held_by \<circ> th_phase) os) @ lost"
  have world: "world_ok ?R w" "pool w u \<noteq> None" "session_ok (th_proto t)"
    using ok ph by (simp_all add: threads_ok_def thread_ok_def)
  note step = publish_round_ok [where heap = heap, OF heap world run]
  have pub: "publishes ?R u (next_published (th_proto t)) w w'" "list_all playable (next_published (th_proto t))"
    using step publishes_nothing [OF world(1)] by (auto simp: next_published_def)
  have "session_ok p" using step by blast
  moreover have "world_ok ?R w'" using pub(1) by (simp add: publishes_def)
  ultimately show ?thesis
    using publishes_known [OF pub(1) world(2)] ph evolves_publishes [OF pub order_refl]
    by (intro idle_replace [OF ok]) (auto split: if_splits)
qed

text \<open>Fetching moves the queue into the hands of the thread.\<close>

lemma fetch_step_ok:
  assumes ok: "threads_ok w log lost (t # os)" and ph: "th_phase t = Playing u c []"
    and len: "length (queue w c) < 2 ^ 31" and run: "play_fetch c (th_proto t, w) = (Inr ms, (p, w'))"
  shows "threads_ok w' log lost (t\<lparr>th_proto := p, th_phase := Playing u c ms\<rparr> # os)"
proof -
  let ?R = "concat (map (held_by \<circ> th_phase) os) @ lost" and ?t' = "t\<lparr>th_proto := p, th_phase := Playing u c ms\<rparr>"
  have world: "world_ok ?R w" "session_ok (th_proto t)" and pl: "plays w log t u c []"
    using ok ph by (simp_all add: threads_ok_def thread_ok_def)
  have con: "consumer_at w c \<noteq> None" using pl member_consumer by (auto simp: plays_def)
  from play_fetch_ok [OF world(1) con len world(2) run] obtain d where
    f: "session_ok p" "out_chunk_size p = out_chunk_size (th_proto t)" "recv_message (th_proto t) = (d, p)"
      "world_ok (ms @ ?R) w'" "map (to_imsg w') ms = queue w c" "queue w' c = []"
      "\<forall>d. d \<noteq> c \<longrightarrow> queue w' d = queue w d" "members w' = members w" "to_imsg w' = to_imsg w" "cached w' = cached w"
      "pool w' = pool w" by auto
  have "protocol_sent p = protocol_sent (th_proto t)" using keepsD [OF keeps_sent _ f(3)] by simp
  then have "thread_ok w' log ?t'"
    using f(1,2,5,6,8) pl by (auto simp: thread_ok_def plays_def simp del: map_map)
  moreover have "evolves [c] [] ?R w w'"
    using f(7-11) by (auto simp: evolves_def due_def cached_list_def)
  moreover have "c \<notin> set (concat (map (consumers_of \<circ> th_phase) os))" using ok ph by (simp add: threads_ok_def)
  ultimately show ?thesis
    using threads_ok_replace [OF ok, of "[]" w' ?t' "[]"] f(4) ph by simp
qed

text \<open>Sending one message, and leaving.\<close>

lemma send_step:
  assumes ok: "threads_ok w log lost (t # os)" and ph: "th_phase t = Playing u c (m # ms)"
    and run: "play_send heap m (th_proto t, w) = (r, (p, w'))"
  defines "R \<equiv> concat (map (held_by \<circ> th_phase) os) @ lost"
  shows "quiet (ms @ R) w w'" and "session_ok p" and "consumer_at w' c \<noteq> None" and "world_ok (ms @ R) w'"
    and "r = Inr () \<Longrightarrow>
      only_sent (th_proto t) p (shared_wire (nat (out_chunk_size (th_proto t))) (to_imsg w m))"
    and "r \<noteq> Inr () \<Longrightarrow> socket_failure r"
proof -
  have world: "world_ok (m # (ms @ R)) w" "session_ok (th_proto t)" and pl: "plays w log t u c (m # ms)"
    using ok ph by (simp_all add: threads_ok_def thread_ok_def R_def)
  have "playable (to_imsg w m)" using pl by (simp add: plays_def)
  note step = play_send_ok [OF world this run]
  then show q: "quiet (ms @ R) w w'" "session_ok p" by blast+
  show "world_ok (ms @ R) w'" using q(1) by (simp add: quiet_def)
  show "consumer_at w' c \<noteq> None" using q(1) pl member_consumer [of c w' u] by (simp add: quiet_def plays_def)
  show "r = Inr () \<Longrightarrow> only_sent (th_proto t) p (shared_wire (nat (out_chunk_size (th_proto t))) (to_imsg w m))"
    "r \<noteq> Inr () \<Longrightarrow> socket_failure r"
    using step by (auto simp: socket_failure_def)
qed

lemma send_step_ok:
  assumes ok: "threads_ok w log lost (t # os)" and ph: "th_phase t = Playing u c (m # ms)"
    and run: "play_send heap m (th_proto t, w) = (Inr (), (p, w'))"
  shows "threads_ok w' log lost (t\<lparr>th_proto := p, th_phase := Playing u c ms\<rparr> # os)"
proof -
  let ?R = "concat (map (held_by \<circ> th_phase) os) @ lost" and ?t' = "t\<lparr>th_proto := p, th_phase := Playing u c ms\<rparr>"
  note step = send_step [OF ok ph run]
  have pl: "plays w log t u c (m # ms)" using ok ph by (simp add: threads_ok_def thread_ok_def)
  have same: "map (to_imsg w') ms = map (to_imsg w) ms" "queue w' = queue w" "members w' = members w"
    using step(1) by (simp_all add: quiet_def)
  let ?wire = "shared_wire (nat (out_chunk_size (th_proto t)))"
  have sent: "protocol_sent p = protocol_sent (th_proto t) @ ?wire (to_imsg w m)" "out_chunk_size p = out_chunk_size (th_proto t)"
    using step(5) by (simp_all add: only_sent_def)
  from pl obtain past where past: "protocol_sent (th_proto t) = th_base t @ concat (map ?wire past)"
    "past @ map (to_imsg w) (m # ms) @ queue w c = th_start t @ due u (drop (th_join t) log)"
    by (auto simp: plays_def)
  have "protocol_sent p = th_base t @ concat (map ?wire (past @ [to_imsg w m]))" using sent(1) past(1) by simp
  moreover have "(past @ [to_imsg w m]) @ map (to_imsg w) ms @ queue w c = th_start t @ due u (drop (th_join t) log)"
    using past(2) by simp
  ultimately have "\<exists>done. protocol_sent p = th_base t @ concat (map ?wire done) \<and>
      done @ map (to_imsg w) ms @ queue w c = th_start t @ due u (drop (th_join t) log)" by blast
  then have "plays w' log ?t' u c ms"
    unfolding plays_def same using pl sent(2) by (simp add: plays_def)
  then have "thread_ok w' log ?t'" using step(2) by (simp add: thread_ok_def)
  moreover have "c \<notin> set (concat (map (consumers_of \<circ> th_phase) os))" using ok ph by (simp add: threads_ok_def)
  moreover have "evolves [c] [] ?R w w'" using evolves_quiet [OF step(1)] by auto
  ultimately show ?thesis
    using threads_ok_replace [OF ok, of "[]" w' ?t' "[]"] step(4) ph by simp
qed

lemma leave_step_ok:
  assumes ok: "threads_ok w log lost (t # os)" and ph: "th_phase t = Playing u c ks"
    and p: "session_ok p" and mid: "quiet (ms @ concat (map (held_by \<circ> th_phase) os) @ lost) w w1"
    and con: "consumer_at w1 c \<noteq> None" and run: "consumer_destroy c w1 = (Inr (), w')"
  shows "threads_ok w' log (ms @ lost) (t\<lparr>th_proto := p, th_phase := Closed\<rparr> # os)"
proof -
  let ?R = "concat (map (held_by \<circ> th_phase) os) @ lost" and ?t' = "t\<lparr>th_proto := p, th_phase := Closed\<rparr>"
  have world: "world_ok (ms @ ?R) w1" using mid by (simp add: quiet_def)
  have "evolves [c] [] ?R w w1" using evolves_quiet [OF mid] by auto
  moreover have "evolves [c] [] ?R w1 w'" using evolves_destroy(1) [OF world con _ run, of ?R] by auto
  ultimately have "evolves [c] [] ?R w w'" by (rule evolves_trans)
  moreover have "world_ok (ms @ ?R) w'" using evolves_destroy(2) [OF world con _ run, of "[]"] by simp
  moreover have "thread_ok w' log ?t'" using p by (simp add: thread_ok_def)
  ultimately show ?thesis using threads_ok_replace [OF ok, of "[]" w' ?t' ms] ph by simp
qed

lemma thread_step_ok:
  assumes heap: "\<And>n. length (heap n) = n"
    and step: "thread_step heap log (t, w) (t', w') new lost'" and ok: "threads_ok w log lost (t # os)"
  shows "threads_ok w' (log @ new) (lost' @ lost) (t' # os)"
proof -
  let ?R = "concat (map (held_by \<circ> th_phase) os) @ lost"
  have p: "session_ok (th_proto t)" using ok by (simp add: threads_ok_def thread_ok_def)
  note sessions = exchange_session [OF exchange_connect_client [where heap = heap, OF heap] p]
    exchange_session [OF exchange_start_play [where heap = heap, OF heap] p]
    exchange_session [OF exchange_start_publish [where heap = heap, OF heap] p]
  have idle: "threads_ok w log lost (t1 # os)"
    if "consumers_of (th_phase t) = []" "held_by (th_phase t) = []" "th_phase t1 = Closed \<or>
      th_phase t1 = Publishing u \<and> pool w u \<noteq> None" "session_ok (th_proto t1)" for t1 u
    using idle_replace [OF ok, of t1 w "[]"] that world_of_idle [OF ok] evolves_refl by auto
  from step show ?thesis
  proof cases
    case (connected peer req type p)
    from connected have world: "world_ok ?R w" using world_of_idle [OF ok] by simp
    from source_find_ok [OF this, of "get_stream_url req"] connected have
      "world_ok ?R w'" "pool w' (get_stream_url req) \<noteq> None" "evolves [] [] ?R w w'"
      by (auto simp: evolves_def due_def cached_list_def)
    then show ?thesis using idle_replace [OF ok, of t' w' "[]"] connected sessions(1) by auto
  next
    case (connect_failed peer e p)
    then show ?thesis using idle [of t'] sessions(1) by simp
  next
    case (play_started u p c p')
    then show ?thesis using play_started_ok [OF ok _ sessions(2)] by simp
  next
    case (publish_started u p)
    have "pool w u \<noteq> None" using ok publish_started by (simp add: threads_ok_def thread_ok_def)
    then show ?thesis using idle [of t' u] sessions(3) publish_started by simp
  next
    case (play_refused u e p)
    then show ?thesis using idle [of t'] sessions(2) by simp
  next
    case (publish_refused u e p)
    then show ?thesis using idle [of t'] sessions(3) by simp
  next
    case (unknown_client u)
    then show ?thesis using idle [of t'] p by simp
  next
    case (publish u r p)
    then show ?thesis using publish_step_ok [where heap = heap, OF heap ok] by simp
  next
    case (fetched u c ms p)
    then show ?thesis using fetch_step_ok [OF ok] by simp
  next
    case (fetch_failed u c e p w1)
    have pl: "plays w log t u c []" "world_ok ?R w" using ok fetch_failed by (simp_all add: threads_ok_def thread_ok_def)
    have con: "consumer_at w c \<noteq> None" using pl member_consumer by (auto simp: plays_def)
    from play_fetch_ok [OF pl(2) con fetch_failed(5) p fetch_failed(6)] have "session_ok p" "w1 = w" by auto
    then show ?thesis
      using leave_step_ok [OF ok fetch_failed(4), of p "[]" w w'] quiet_refl [OF pl(2)] con fetch_failed by simp
  next
    case (sent u c m ms p)
    then show ?thesis using send_step_ok [OF ok] by simp
  next
    case (send_failed u c m e p w1)
    note st = send_step [OF ok send_failed(3,4)]
    show ?thesis using leave_step_ok [OF ok send_failed(3) st(2,1,3) send_failed(5)] send_failed by simp
  qed
qed

section \<open>The system\<close>

lemma sys_ok_new: "sys_ok system_new"
proof -
  have "cached_list world_new u = []" for u by (simp add: cached_list_def cached_def world_new_def opt_list_def)
  then show ?thesis by (simp add: sys_ok_def threads_ok_def system_new_def world_ok_new)
qed

lemma thread_new_ok: "thread_ok w log (thread_new net)"
  by (simp add: thread_ok_def thread_new_def session_ok_new)

abbreviation others :: "nat \<Rightarrow> 'a list \<Rightarrow> 'a list" where
  "others k ts \<equiv> take k ts @ drop (Suc k) ts"

lemma others_mset:
  assumes "k < length ts"
  shows "mset ts = mset (ts ! k # others k ts)" and "mset (ts[k := t']) = mset (t' # others k ts)"
proof -
  show "mset ts = mset (ts ! k # others k ts)" by (subst id_take_nth_drop [OF assms]) simp
  show "mset (ts[k := t']) = mset (t' # others k ts)"
    unfolding upd_conv_take_nth_drop [OF assms] by simp
qed

lemma sys_ok_at:
  assumes "sys_ok s" and "k < length (sys_threads s)"
  shows "threads_ok (sys_world s) (sys_log s) (sys_lost s) (sys_threads s ! k # others k (sys_threads s))"
  using assms(1) threads_ok_mset [OF others_mset(1) [OF assms(2)]] by (simp add: sys_ok_def)

lemma sys_step_ok:
  assumes heap: "\<And>n. length (heap n) = n" and step: "sys_step heap s s'" and ok: "sys_ok s"
  shows "sys_ok s'"
  using step
proof cases
  case (accepted net)
  then show ?thesis using ok thread_new_ok by (simp add: sys_ok_def threads_ok_def thread_new_def)
next
  case (stepped k t' w' new lost)
  from thread_step_ok [where heap = heap, OF heap stepped(3) sys_ok_at [OF ok stepped(2)]] show ?thesis
    using threads_ok_mset [OF others_mset(2) [OF stepped(2)]] stepped(1) by (simp add: sys_ok_def)
qed

lemma sys_steps_ok:
  assumes heap: "\<And>n. length (heap n) = n" and "sys_ok s" and "(sys_step heap)\<^sup>*\<^sup>* s s'"
  shows "sys_ok s'"
  using assms(3,2) by (induction rule: rtranclp_induct) (auto intro: sys_step_ok [where heap = heap, OF heap])

lemma reachable_ok:
  assumes "\<And>n. length (heap n) = n" and "reachable heap s"
  shows "sys_ok s"
  using sys_steps_ok [where heap = heap, OF assms(1) sys_ok_new] assms(2) by (simp add: reachable_def)

text \<open>What the invariant says of one playing client.\<close>

lemma reachable_plays:
  assumes "\<And>n. length (heap n) = n" and "reachable heap s" and "t \<in> set (sys_threads s)"
    and "th_phase t = Playing u c ms"
  shows "plays (sys_world s) (sys_log s) t u c ms"
  using reachable_ok [where heap = heap, OF assms(1,2)] assms(3,4) plays_thread
  by (auto simp: sys_ok_def threads_ok_def)

lemma reachable_world:
  assumes "\<And>n. length (heap n) = n" and "reachable heap s"
  shows "world_ok (concat (map (held_by \<circ> th_phase) (sys_threads s)) @ sys_lost s) (sys_world s)"
  using reachable_ok [where heap = heap, OF assms] by (simp add: sys_ok_def threads_ok_def)

text \<open>A thread with messages to send can always take a step.\<close>

lemma send_progress:
  assumes ok: "threads_ok w log lost (t # os)" and ph: "th_phase t = Playing u c (m # ms)"
  shows "\<exists>t' w' lost'. thread_step heap log (t, w) (t', w') [] lost'"
proof -
  obtain r p w1 where run: "play_send heap m (th_proto t, w) = (r, (p, w1))" by (metis prod_cases3)
  note st = send_step [OF ok ph run]
  from consumer_destroy_ok [OF st(4,3)] obtain w2 where "consumer_destroy c w1 = (Inr (), w2)" by blast
  then show ?thesis
    using st(6) run thread_step.sent [OF ph] thread_step.send_failed [OF ph]
    by (cases r) (fastforce simp: socket_failure_def)+
qed

section \<open>Delivery\<close>

text \<open>A kernel that takes all it is given.\<close>

abbreviation accepting :: "RssProtocol \<Rightarrow> bool" where
  "accepting p \<equiv> net_wr (stfd (skt p)) = []"

lemma writev_accepting:
  assumes "accepting s" and "hb \<noteq> []"
  shows "\<exists>n s'. with_skt (socket_writev [hb, part]) s = (Inr n, s') \<and> accepting s'"
proof -
  let ?net = "stfd (skt s)"
  have "st_writev True [hb, part] t ?net = (Some (length (hb @ part)), ?net\<lparr>net_sent := net_sent ?net @ hb @ part\<rparr>)" for t
    using assms by (simp add: st_writev_def st_writev_loop.simps [of True "[hb, part]"] sys_write.simps Let_def)
  then show ?thesis using assms by (simp add: with_skt_def socket_writev_def)
qed

lemma send_chunks_accepting:
  "accepting s \<Longrightarrow> send_chunks k msg off s = (r, s') \<Longrightarrow> \<not> socket_failure r \<and> accepting s'"
proof (induction k arbitrary: off s)
  case (Suc k)
  let ?hd = "if off = 0 then fmt0_header (imsg_get_perfer_cid msg) (imsg_header msg)
    else fmt3_header (imsg_get_perfer_cid msg) (imsg_header msg)"
  let ?n = "min (imsg_size msg - off) (out_chunk_size s)"
  have hd: "?hd \<noteq> []" by (simp add: fmt0_header_def fmt3_header_def)
  show ?case
  proof (cases "payload_slice (imsg_payload msg) off ?n")
    case (Inl e)
    then have "e = Undefined" by (auto simp: payload_slice_def split: if_splits option.splits)
    with Suc.prems Inl show ?thesis by (auto simp: Let_def socket_failure_def)
  next
    case (Inr part)
    from writev_accepting [OF Suc.prems(1) hd, of part] obtain n s1 where
      s1: "with_skt (socket_writev [?hd, part]) s = (Inr n, s1)" "accepting s1" by blast
    have "send_chunks (Suc k) msg off s =
        (let off' = (if imsg_payload msg \<noteq> None \<and> imsg_size msg > 0 then off + ?n else off) in
         if off' < imsg_size msg then send_chunks k msg off' s1 else (Inr (), s1))"
      using Inr s1(1) by (simp add: Let_def)
    with Suc.prems(2) Suc.IH [OF s1(2)] s1(2) show ?thesis
      by (auto simp: Let_def socket_failure_def simp del: send_chunks.simps split: if_splits)
  qed
qed (auto simp: socket_failure_def)

lemma send_shared_accepting:
  assumes "accepting p" and "playable i" and "session_ok p"
  shows "\<exists>p'. send_message heap i p = (Inr (), p') \<and> accepting p'"
proof -
  obtain r p' where run: "send_message heap i p = (r, p')" by fastforce
  from assms(2) obtain h sz arr cid where i: "i = SharedPtrMessage h sz (Some arr) cid"
    by (cases i rule: playable.cases) auto
  obtain r1 p1 where chunks: "send_chunks (nat sz + 1) i 0 p = (r1, p1)" by fastforce
  have "r = r1 \<and> p' = p1"
    using run chunks i by (auto simp: send_message_def bind_def on_send_message_def split: sum.splits simp del: send_chunks.simps)
  with send_chunks_accepting [OF assms(1) chunks] have "\<not> socket_failure r" "accepting p'" by simp_all
  moreover from assms(3) have "out_chunk_size p = int (nat (out_chunk_size p))" "0 < nat (out_chunk_size p)"
    by (simp_all add: session_ok_def)
  ultimately show ?thesis using send_playable [OF assms(2) _ _ run] run by blast
qed

text \<open>The state of a playing thread that stays the same while it sends.\<close>

definition same_session :: "client_thread \<Rightarrow> client_thread \<Rightarrow> bool" where
  "same_session t t' \<longleftrightarrow> th_base t' = th_base t \<and> th_start t' = th_start t \<and> th_join t' = th_join t"

lemma drain_steps:
  assumes heap: "\<And>n. length (heap n) = n"
  shows "sys_ok s \<Longrightarrow> k < length (sys_threads s) \<Longrightarrow> th_phase (sys_threads s ! k) = Playing u c ms \<Longrightarrow>
    accepting (th_proto (sys_threads s ! k)) \<Longrightarrow>
    \<exists>s'. (sys_step heap)\<^sup>*\<^sup>* s s' \<and> sys_log s' = sys_log s \<and> k < length (sys_threads s') \<and>
      queue (sys_world s') c = queue (sys_world s) c \<and> th_phase (sys_threads s' ! k) = Playing u c [] \<and>
      same_session (sys_threads s ! k) (sys_threads s' ! k)"
proof (induction ms arbitrary: s)
  case Nil
  then show ?case by (auto simp: same_session_def)
next
  case (Cons m ms)
  let ?t = "sys_threads s ! k" and ?w = "sys_world s"
  note at = sys_ok_at [OF Cons.prems(1,2)]
  obtain r p w' where run: "play_send heap m (th_proto ?t, ?w) = (r, (p, w'))" by (metis prod_cases3)
  have pl: "plays ?w (sys_log s) ?t u c (m # ms)" "session_ok (th_proto ?t)"
    and world: "world_ok (m # (ms @ concat (map (held_by \<circ> th_phase) (others k (sys_threads s))) @ sys_lost s)) ?w"
    using at Cons.prems(3) by (simp_all add: threads_ok_def thread_ok_def)
  from send_shared_accepting [OF Cons.prems(4) _ pl(2), of "to_imsg ?w m" heap] pl(1) obtain p1 where
    p1: "send_message heap (to_imsg ?w m) (th_proto ?t) = (Inr (), p1)" "accepting p1" by (auto simp: plays_def)
  from shared_destroy_quiet [OF world] obtain w1 where "shared_destroy m ?w = (Inr (), w1)" by blast
  with run p1(1) shared_as_imsg_ok [OF world] have res: "r = Inr ()" "p = p1"
    by (auto simp: play_send_def on_world_def on_proto_def bind_def lift_res_def)
  have q: "queue w' = queue ?w" using send_step(1) [OF at Cons.prems(3) run] by (simp add: quiet_def)
  let ?t' = "?t\<lparr>th_proto := p1, th_phase := Playing u c ms\<rparr>"
  let ?s = "s\<lparr>sys_world := w', sys_threads := (sys_threads s)[k := ?t']\<rparr>"
  have step: "sys_step heap s ?s"
    using sys_step.stepped [OF Cons.prems(2) thread_step.sent [OF Cons.prems(3)], of heap p1 w'] run res by simp
  from Cons.IH [of ?s] sys_step_ok [where heap = heap, OF heap step Cons.prems(1)] Cons.prems(2) p1(2) obtain s' where
    "(sys_step heap)\<^sup>*\<^sup>* ?s s'" "sys_log s' = sys_log s" "k < length (sys_threads s')"
    "queue (sys_world s') c = queue w' c" "th_phase (sys_threads s' ! k) = Playing u c []"
    "same_session ?t' (sys_threads s' ! k)" by auto
  with step q show ?case by (intro exI [of _ s']) (auto simp: same_session_def intro: converse_rtranclp_into_rtranclp)
qed

text \<open>
  A playing thread that is idle, whose peer has neither failed nor closed the connection and whose kernel accepts
  data, brings everything that has been published onto the wire by its own steps.
\<close>

lemma published_reaches_client:
  assumes heap: "\<And>n. length (heap n) = n" and ok: "sys_ok s"
    and k: "k < length (sys_threads s)" "th_phase (sys_threads s ! k) = Playing u c []"
    and len: "length (queue (sys_world s) c) < 2 ^ 31"
    and recv: "play_fetch c (th_proto (sys_threads s ! k), sys_world s) = (Inr ms, (p, w'))" and acc: "accepting p"
  shows "\<exists>s' t'. (sys_step heap)\<^sup>*\<^sup>* s s' \<and> sys_log s' = sys_log s \<and> k < length (sys_threads s') \<and>
    t' = sys_threads s' ! k \<and> same_session (sys_threads s ! k) t' \<and>
    protocol_sent (th_proto t') = th_base t' @ concat (map (shared_wire (nat (out_chunk_size (th_proto t'))))
      (th_start t' @ due u (drop (th_join t') (sys_log s))))"
proof -
  let ?t = "sys_threads s ! k"
  let ?t1 = "?t\<lparr>th_proto := p, th_phase := Playing u c ms\<rparr>"
  let ?s = "s\<lparr>sys_world := w', sys_threads := (sys_threads s)[k := ?t1]\<rparr>"
  have step: "sys_step heap s ?s"
    using sys_step.stepped [OF k(1) thread_step.fetched [OF k(2) len recv], of heap] by simp
  have ok1: "sys_ok ?s" using sys_step_ok [where heap = heap, OF heap step ok] .
  have pl: "plays (sys_world s) (sys_log s) ?t u c []" "session_ok (th_proto ?t)"
    and world: "world_ok (concat (map (held_by \<circ> th_phase) (others k (sys_threads s))) @ sys_lost s) (sys_world s)"
    using sys_ok_at [OF ok k(1)] k(2) by (simp_all add: threads_ok_def thread_ok_def)
  have "consumer_at (sys_world s) c \<noteq> None" using pl(1) member_consumer by (auto simp: plays_def)
  from play_fetch_ok [OF world this len pl(2) recv] have empty: "queue w' c = []" by auto
  from drain_steps [where heap = heap, OF heap ok1, of k u c ms] k acc empty obtain s' where
    s': "(sys_step heap)\<^sup>*\<^sup>* ?s s'" "sys_log s' = sys_log s" "k < length (sys_threads s')"
      "queue (sys_world s') c = []" "th_phase (sys_threads s' ! k) = Playing u c []"
      "same_session ?t1 (sys_threads s' ! k)" by auto
  have reach: "(sys_step heap)\<^sup>*\<^sup>* s s'" using step s'(1) by (rule converse_rtranclp_into_rtranclp)
  have "plays (sys_world s') (sys_log s') (sys_threads s' ! k) u c []"
    using sys_ok_at [OF sys_steps_ok [where heap = heap, OF heap ok reach] s'(3)] s'(5)
    by (simp add: threads_ok_def thread_ok_def)
  with s'(2,4)
  have "protocol_sent (th_proto (sys_threads s' ! k)) = th_base (sys_threads s' ! k) @
      concat (map (shared_wire (nat (out_chunk_size (th_proto (sys_threads s' ! k)))))
        (th_start (sys_threads s' ! k) @ due u (drop (th_join (sys_threads s' ! k)) (sys_log s))))"
    by (auto simp: plays_def)
  with reach s' show ?thesis by (auto simp: same_session_def)
qed

end
