(* ===== verification/Rss_Server.thy ===== *)
theory Rss_Server
  imports Rss_Client "HOL-Library.Multiset"
begin

text \<open>
  The server object and its connections (\<^verbatim>\<open>rss_core_server.cpp\<close>, \<^verbatim>\<open>rss_core_conn.cpp\<close>): start-up, the
  listening thread that accepts clients, the list of connections and the end of a
  connection's thread. Connections are identified by addresses that are not reused. The operating system's answers
  are arguments.
\<close>

section \<open>State\<close>

text \<open>A connection owns the client's descriptor; its thread runs when it could be created.\<close>

record RssConnection =
  conn_stfd :: int
  conn_running :: bool

record RssServer =
  srv_fd :: "int option"
  srv_stfd :: "int option"
  conns :: "nat list"
  rss_report_interval_ms :: int
  conn_at :: "nat \<rightharpoonup> RssConnection"
  conn_next :: nat
  closed_fds :: "int list"
  listening :: bool

type_synonym 'a server_comp = "(RssServer, 'a) comp"

abbreviation RSS_CONST_REPORT_INTERVAL_MS :: int where "RSS_CONST_REPORT_INTERVAL_MS \<equiv> 3000"

definition server_new :: RssServer where
  "server_new = \<lparr>srv_fd = None, srv_stfd = None, conns = [], rss_report_interval_ms = RSS_CONST_REPORT_INTERVAL_MS,
     conn_at = Map.empty, conn_next = 0, closed_fds = [], listening = False\<rparr>"

section \<open>Start-up\<close>

text \<open>The results of the calls made by \<^verbatim>\<open>initialize\<close> and \<^verbatim>\<open>listen\<close>: \<open>False\<close> and \<open>None\<close> are failures.\<close>

record os_answers =
  os_set_eventsys :: bool
  os_st_init :: bool
  os_socket :: "int option"
  os_setsockopt :: bool
  os_bind :: bool
  os_listen :: bool
  os_open_socket :: bool
  os_thread_create :: bool

definition check :: "bool \<Rightarrow> rss_code \<Rightarrow> 'a server_comp \<Rightarrow> 'a server_comp" where
  "check ok code m = (if ok then m else fail (Code code))"

definition server_initialize :: "os_answers \<Rightarrow> unit server_comp" where
  "server_initialize os =
     check (os_set_eventsys os) ERROR_ST_SET_EPOLL (
     check (os_st_init os) ERROR_ST_INITIALIZE (
     return ()))"

definition server_listen :: "os_answers \<Rightarrow> unit server_comp" where
  "server_listen os =
     (case os_socket os of
        None \<Rightarrow> fail (Code ERROR_SOCKET_CREATE)
      | Some fd \<Rightarrow>
          bind (modify (srv_fd_update (\<lambda>_. Some fd))) (\<lambda>_.
          check (os_setsockopt os) ERROR_SOCKET_SETREUSE (
          check (os_bind os) ERROR_SOCKET_BIND (
          check (os_listen os) ERROR_SOCKET_LISTEN (
          check (os_open_socket os) ERROR_ST_OPEN_SOCKET (
          bind (modify (srv_stfd_update (\<lambda>_. Some fd))) (\<lambda>_.
          check (os_thread_create os) ERROR_ST_CREATE_LISTEN_THREAD (
          modify (listening_update (\<lambda>_. True))))))))))"

section \<open>Connections\<close>

text \<open>\<^verbatim>\<open>RssConnection::start\<close>: the argument says whether the thread could be created.\<close>

definition conn_start :: "bool \<Rightarrow> nat \<Rightarrow> unit server_comp" where
  "conn_start created c =
     check created ERROR_ST_CREATE_CYCLE_THREAD (
       modify (\<lambda>s. s\<lparr>conn_at := (conn_at s)(c := map_option (conn_running_update (\<lambda>_. True)) (conn_at s c))\<rparr>))"

text \<open>
  \<^verbatim>\<open>accept_client\<close>. The product for the report interval is computed as an \<^verbatim>\<open>int\<close>; its overflow is
  undefined.
\<close>

definition accept_client :: "int \<Rightarrow> bool \<Rightarrow> unit server_comp" where
  "accept_client client_fd created =
     bind (get conn_next) (\<lambda>c.
     bind (modify (\<lambda>s. s\<lparr>conn_next := c + 1, conns := conns s @ [c],
       conn_at := (conn_at s)(c \<mapsto> \<lparr>conn_stfd = client_fd, conn_running = False\<rparr>)\<rparr>)) (\<lambda>_.
     bind (get (\<lambda>s. int (length (conns s)))) (\<lambda>n.
     if 2 ^ 31 \<le> RSS_CONST_REPORT_INTERVAL_MS * n then fail Undefined
     else
       bind (modify (rss_report_interval_ms_update (\<lambda>_. RSS_CONST_REPORT_INTERVAL_MS * n))) (\<lambda>_.
       conn_start created c))))"

text \<open>
  \<^verbatim>\<open>~RssConnection\<close> closes the descriptor; the object is freed. The result of \<^verbatim>\<open>st_netfd_close\<close> is ignored there and the call is
  taken to succeed: it is refused only when a thread waits for the descriptor, and the one thread that uses the descriptor is
  the one that closes it.
\<close>

definition conn_free :: "nat \<Rightarrow> unit server_comp" where
  "conn_free c =
     bind (get (\<lambda>s. conn_at s c)) (\<lambda>x.
     case x of
       None \<Rightarrow> fail Undefined
     | Some conn \<Rightarrow>
         modify (\<lambda>s. s\<lparr>conn_at := (conn_at s)(c := None), closed_fds := closed_fds s @ [conn_stfd conn]\<rparr>))"

definition server_remove :: "nat \<Rightarrow> unit server_comp" where
  "server_remove c =
     bind (modify (\<lambda>s. s\<lparr>conns := remove1 c (conns s)\<rparr>)) (\<lambda>_. conn_free c)"

text \<open>The code a connection's thread ends with (only used for the log), and the end of the thread.\<close>

definition cycle_code :: "unit res \<Rightarrow> unit res" where
  "cycle_code r =
     (if r = Inl (Code ERROR_SOCKET_READ) \<or> r = Inl (Code ERROR_SOCKET_READ_FULLY) \<or> r = Inl (Code ERROR_SOCKET_WRITE)
      then Inl (Code ERROR_SOCKET_CLOSED) else r)"

definition conn_cycle :: "unit res \<Rightarrow> nat \<Rightarrow> (unit res) server_comp" where
  "conn_cycle r c = bind (server_remove c) (\<lambda>_. return (cycle_code r))"

section \<open>The listening thread\<close>

text \<open>
  What \<^verbatim>\<open>st_accept\<close> returns: nothing, or a descriptor for which the thread can be created or not. Errors are
  ignored. The loop has no end; it is looked at for a list of answers.
\<close>

datatype accept_event = AcceptError | AcceptClient int bool

fun listen_round :: "accept_event \<Rightarrow> unit server_comp" where
  "listen_round AcceptError = return ()"
| "listen_round (AcceptClient fd created) =
     (\<lambda>s. case accept_client fd created s of
        (Inl (Code _), s') \<Rightarrow> (Inr (), s')
      | (r, s') \<Rightarrow> (r, s'))"

fun listen_cycle :: "accept_event list \<Rightarrow> unit server_comp" where
  "listen_cycle [] = return ()"
| "listen_cycle (e # es) = bind (listen_round e) (\<lambda>_. listen_cycle es)"

section \<open>Reporting\<close>

text \<open>\<^verbatim>\<open>can_report\<close>: the answer and the new value of \<^verbatim>\<open>reported\<close>.\<close>

definition can_report :: "RssServer \<Rightarrow> int \<Rightarrow> int \<Rightarrow> bool \<times> int" where
  "can_report s reported time =
     (if rss_report_interval_ms s \<le> 0 then (False, reported)
      else if time - reported < rss_report_interval_ms s then (False, reported)
      else (True, time))"

text \<open>The report counter of the play loop over \<open>n\<close> rounds: the number of reports and the state.\<close>

fun play_reports :: "nat \<Rightarrow> RssServer \<Rightarrow> nat \<times> int \<times> int" where
  "play_reports 0 s = (0, 0, 0)"
| "play_reports (Suc n) s =
     (case play_reports n s of
        (k, report_time, reported_time) \<Rightarrow>
          (case can_report s reported_time (report_time + RSS_PULSE_TIMEOUT_MS) of
             (rep, reported') \<Rightarrow> ((if rep then k + 1 else k), report_time + RSS_PULSE_TIMEOUT_MS, reported')))"

section \<open>The end of the server\<close>

text \<open>\<^verbatim>\<open>~RssServer\<close>.\<close>

fun free_all :: "nat list \<Rightarrow> unit server_comp" where
  "free_all [] = return ()"
| "free_all (c # cs) = bind (conn_free c) (\<lambda>_. free_all cs)"

definition server_destroy :: "unit server_comp" where
  "server_destroy = bind (get conns) (\<lambda>cs. bind (free_all cs) (\<lambda>_. modify (conns_update (\<lambda>_. []))))"

section \<open>Starting the program\<close>

definition server_main :: "os_answers \<Rightarrow> unit server_comp" where
  "server_main os = bind (server_initialize os) (\<lambda>_. server_listen os)"

section \<open>The connection table\<close>

text \<open>The list holds exactly the live connections, each once.\<close>

definition server_ok :: "RssServer \<Rightarrow> bool" where
  "server_ok s \<longleftrightarrow> distinct (conns s) \<and> set (conns s) = dom (conn_at s) \<and> (\<forall>c\<in>set (conns s). c < conn_next s)"

lemma server_ok_new: "server_ok server_new"
  by (simp add: server_ok_def server_new_def)

lemma accept_client_ok:
  assumes "server_ok s" and "3000 * int (length (conns s) + 1) < 2 ^ 31"
  shows "\<exists>s'. accept_client fd created s = ((if created then Inr () else Inl (Code ERROR_ST_CREATE_CYCLE_THREAD)), s') \<and>
    server_ok s' \<and> conns s' = conns s @ [conn_next s] \<and> conn_next s' = conn_next s + 1 \<and>
    conn_at s' = (conn_at s)(conn_next s \<mapsto> \<lparr>conn_stfd = fd, conn_running = created\<rparr>) \<and>
    rss_report_interval_ms s' = 3000 * int (length (conns s')) \<and> closed_fds s' = closed_fds s"
  using assms by (auto simp: accept_client_def conn_start_def check_def server_ok_def intro!: less_SucI)

lemma server_remove_ok:
  assumes "server_ok s" and "conn_at s c = Some conn"
  shows "\<exists>s'. server_remove c s = (Inr (), s') \<and> server_ok s' \<and> conns s' = remove1 c (conns s) \<and>
    conn_at s' = (conn_at s)(c := None) \<and> closed_fds s' = closed_fds s @ [conn_stfd conn] \<and>
    rss_report_interval_ms s' = rss_report_interval_ms s \<and> conn_next s' = conn_next s"
  using assms by (auto simp: server_remove_def conn_free_def server_ok_def set_remove1_eq)

section \<open>The life of connections\<close>

text \<open>
  The server at work, with the descriptors \<open>fds\<close> accepted in a step: the listening thread accepts a client, and the
  thread of a connection ends. Fewer than 715828 connections are open at a time.
\<close>

inductive server_step :: "RssServer \<Rightarrow> int list \<Rightarrow> RssServer \<Rightarrow> bool" where
  accepted:
    "RSS_CONST_REPORT_INTERVAL_MS * int (length (conns s) + 1) < 2 ^ 31 \<Longrightarrow>
     listen_round (AcceptClient fd created) s = (Inr (), s') \<Longrightarrow> server_step s [fd] s'"
| accept_failed: "listen_round AcceptError s = (Inr (), s') \<Longrightarrow> server_step s [] s'"
| finished:
    "conn_at s c = Some conn \<Longrightarrow> conn_running conn \<Longrightarrow> conn_cycle r c s = (Inr r', s') \<Longrightarrow> server_step s [] s'"

inductive server_run :: "RssServer \<Rightarrow> int list \<Rightarrow> RssServer \<Rightarrow> bool" where
  run_none: "server_run s [] s"
| run_more: "server_run s fds s' \<Longrightarrow> server_step s' new s'' \<Longrightarrow> server_run s (fds @ new) s''"

definition open_fds :: "RssServer \<Rightarrow> int list" where
  "open_fds s = map (\<lambda>c. conn_stfd (the (conn_at s c))) (conns s)"

lemma accepted_ok:
  assumes "server_ok s" and "RSS_CONST_REPORT_INTERVAL_MS * int (length (conns s) + 1) < 2 ^ 31"
    and "listen_round (AcceptClient fd created) s = (Inr (), s')"
  shows "server_ok s' \<and> conns s' = conns s @ [conn_next s] \<and>
    conn_at s' = (conn_at s)(conn_next s \<mapsto> \<lparr>conn_stfd = fd, conn_running = created\<rparr>) \<and> closed_fds s' = closed_fds s"
  using accept_client_ok [OF assms(1,2), of fd created] assms(3) by (auto split: if_splits)

lemma server_step_ok:
  assumes "server_step s fds s'" and "server_ok s"
  shows "server_ok s' \<and> mset (open_fds s') + mset (closed_fds s') = mset (open_fds s) + mset (closed_fds s) + mset fds"
  using assms
proof cases
  case (accepted fd created)
  note a = accepted_ok [OF assms(2) accepted(2,3)]
  have "\<forall>c\<in>set (conns s). c \<noteq> conn_next s" using assms(2) by (auto simp: server_ok_def)
  then have "open_fds s' = open_fds s @ [fd]" using a by (auto simp: open_fds_def)
  with a accepted(1) show ?thesis by simp
next
  case accept_failed
  then show ?thesis using assms(2) by simp
next
  case (finished c conn r r')
  from server_remove_ok [OF assms(2) finished(2)] finished(4) have
    r: "server_ok s'" "conns s' = remove1 c (conns s)" "conn_at s' = (conn_at s)(c := None)"
      "closed_fds s' = closed_fds s @ [conn_stfd conn]" by (auto simp: conn_cycle_def)
  have d: "distinct (conns s)" "c \<in> set (conns s)" using assms(2) finished(2) by (auto simp: server_ok_def dom_def)
  let ?f = "\<lambda>c. conn_stfd (the (conn_at s c))"
  have "open_fds s' = map ?f (remove1 c (conns s))"
    unfolding open_fds_def r(2,3) using d(1) by (auto simp: set_remove1_eq)
  moreover have "mset (conns s) = add_mset c (mset (remove1 c (conns s)))" using d(2) by simp
  ultimately have "mset (open_fds s) = add_mset (conn_stfd conn) (mset (open_fds s'))"
    unfolding open_fds_def using finished(2) by (simp del: mset_remove1)
  with r finished(1) show ?thesis by simp
qed

text \<open>
  Descriptors are neither leaked nor closed twice: those accepted are those of the open connections and those closed.
\<close>

lemma server_run_ok:
  "server_run s fds s' \<Longrightarrow> server_ok s \<Longrightarrow>
   server_ok s' \<and> mset (open_fds s') + mset (closed_fds s') = mset (open_fds s) + mset (closed_fds s) + mset fds"
  by (induction rule: server_run.induct) (auto dest: server_step_ok)

text \<open>
  A connection whose thread could not be created stays in the table for ever, and its descriptor stays open.
\<close>

lemma unstarted_stays:
  assumes "server_step s fds s'" and "server_ok s" and "conn_at s c = Some conn" and "\<not> conn_running conn"
  shows "conn_at s' c = Some conn"
  using assms(1)
proof cases
  case (accepted fd created)
  have "c \<noteq> conn_next s" using assms(2,3) by (auto simp: server_ok_def dom_def)
  with accepted_ok [OF assms(2) accepted(2,3)] assms(3) show ?thesis by simp
next
  case accept_failed
  then show ?thesis using assms(3) by simp
next
  case (finished d conn' r r')
  with assms(3,4) have "d \<noteq> c" by auto
  with server_remove_ok [OF assms(2) finished(2)] finished(4) assms(3) show ?thesis by (auto simp: conn_cycle_def)
qed

lemma unstarted_stays_run:
  "server_run s fds s' \<Longrightarrow> server_ok s \<Longrightarrow> conn_at s c = Some conn \<Longrightarrow> \<not> conn_running conn \<Longrightarrow>
   conn_at s' c = Some conn \<and> c \<in> set (conns s')"
proof (induction rule: server_run.induct)
  case (run_none s)
  then show ?case by (auto simp: server_ok_def)
next
  case (run_more s fds s' new s'')
  have "server_ok s'" "server_ok s''" using server_run_ok [OF run_more.hyps(1) run_more.prems(1)]
      server_step_ok [OF run_more.hyps(2)] by blast+
  then show ?case using unstarted_stays [OF run_more.hyps(2)] run_more by (auto simp: server_ok_def)
qed

text \<open>Reports of the play loop come at the first pulse after each interval.\<close>

lemma play_reports_count:
  assumes i: "0 < rss_report_interval_ms s"
  defines "q \<equiv> (nat (rss_report_interval_ms s) + 99) div 100"
  shows "play_reports n s = (n div q, 100 * int n, 100 * int (q * (n div q)))"
proof (induction n)
  case 0
  then show ?case by simp
next
  case (Suc n)
  let ?I = "nat (rss_report_interval_ms s)"
  have I: "rss_report_interval_ms s = int ?I" "0 < ?I" and q: "0 < q" using i by (simp_all add: q_def)
  have "m \<le> 100 * k \<longleftrightarrow> (m + 99) div 100 \<le> k" for m k :: nat
    using div_less_iff_less_mult [of 100 "m + 99" "Suc k"] by (auto simp: less_Suc_eq_le)
  then have qI: "?I \<le> 100 * k \<longleftrightarrow> q \<le> k" for k by (simp add: q_def)
  have shift: "x \<le> 100 * int k + 100 - 100 * int d \<longleftrightarrow> nat x \<le> 100 * (m + 1)" if "k = d + m" "0 < x" for x k d m
    using that by auto
  have mod: "n = q * (n div q) + n mod q" "n mod q < q" using q by simp_all
  have "rss_report_interval_ms s \<le> 100 * int n + 100 - 100 * int (q * (n div q)) \<longleftrightarrow> ?I \<le> 100 * (n mod q + 1)"
    by (rule shift [OF mod(1) i])
  also have "\<dots> \<longleftrightarrow> Suc n mod q = 0" unfolding qI using mod(2) by (simp add: mod_Suc Suc_le_eq)
  finally have rep: "\<not> 100 * int n + 100 - 100 * int (q * (n div q)) < rss_report_interval_ms s \<longleftrightarrow> Suc n mod q = 0"
    by linarith
  have dv: "Suc n div q = (if Suc n mod q = 0 then n div q + 1 else n div q)" by (simp add: div_Suc)
  show ?case
  proof (cases "Suc n mod q = 0")
    case True
    then have "Suc n = q * (n div q + 1)" using dv mult_div_mod_eq [of q "Suc n"] by simp
    then have "100 * int n + 100 = 100 * int (q * (n div q + 1))" by (simp del: of_nat_mult)
    with Suc rep i dv True show ?thesis by (simp add: can_report_def del: of_nat_mult mult_Suc_right)
  next
    case False
    with Suc rep i dv show ?thesis by (simp add: can_report_def del: of_nat_mult)
  qed
qed

end
