(* ===== verification/Rss_Protocol_Faults.thy ===== *)
theory Rss_Protocol_Faults
  imports Rss_Protocol_Safe
begin

text \<open>
  Two faults of the chunk layer: a receive that timed out behind the first byte of a chunk that starts a message cannot
  be taken up again, and a chunk of type 1 inside a message may announce a length for which the payload
  array is too short.
\<close>

section \<open>What a timeout leaves behind\<close>

abbreviation on_timeout :: "('s \<Rightarrow> bool) \<Rightarrow> rss_error \<Rightarrow> 's \<Rightarrow> bool" where
  "on_timeout P e s \<equiv> e = Code ERROR_SOCKET_TIMEOUT \<longrightarrow> P s"

lemma hoare_keeps: "keeps P m \<Longrightarrow> hoare P m (\<lambda>_. P) (on_timeout P)"
  by (rule hoareI) (auto dest: keepsD)

text \<open>The buffer only grows, and the first byte stays.\<close>

definition starts_with :: "byte list \<Rightarrow> rss_io \<Rightarrow> bool" where
  "starts_with bs s \<longleftrightarrow> (\<exists>more. buf_data (fst s) = bs @ more)"

lemma keeps_starts:
  "keeps (starts_with bs) (ensure_buffer_bytes n)" "keeps (starts_with bs) buffer_bytes"
  "keeps (starts_with bs) (buffer_deref q)" "keeps (starts_with bs) (buffer_copy q k)"
proof -
  have "\<exists>more. buf_data (fst s') = buf_data (fst s) @ more" if "ensure_buffer_bytes n s = (r, s')" for s r s'
    using that ensure_loop_stream [of n s r s'] by (auto simp: ensure_buffer_bytes_def split: if_splits)
  then show "keeps (starts_with bs) (ensure_buffer_bytes n)"
    unfolding keeps_def starts_with_def by (metis append.assoc prod.collapse)
qed (simp_all add: keeps_def buffer_bytes_def buffer_deref_def buffer_copy_def)

lemma keeps_starts_load: "keeps (starts_with bs) (load_bytes q n)"
  by (induction n arbitrary: q) (auto intro!: keeps_intro keeps_starts)

text \<open>A chunk stream inside a message, with the buffer at the chunk's first byte.\<close>

definition mid_message :: "byte list \<Rightarrow> chunk_io \<Rightarrow> bool" where
  "mid_message bs s \<longleftrightarrow> chunk_msg (fst s) \<noteq> None \<and> starts_with bs (snd s)"

lemma keeps_both: "keeps P m \<Longrightarrow> keeps Q m \<Longrightarrow> keeps (\<lambda>s. P s \<and> Q s) m"
  by (simp add: keeps_def)

lemma keeps_inside_snd: "keeps (starts_with bs) m \<Longrightarrow> keeps (mid_message bs) (on_snd m)"
  unfolding mid_message_def by (intro keeps_both keeps_on_snd_snd) (auto simp: keeps_def on_snd_def split: prod.split)

lemma keeps_inside_chunk:
  "(\<And>c. chunk_msg c \<noteq> None \<Longrightarrow> chunk_msg (f c) \<noteq> None) \<Longrightarrow> keeps (mid_message bs) (on_chunk f)"
  by (auto simp: keeps_def on_chunk_def mid_message_def)

lemma keeps_inside_header: "keeps (mid_message bs) (on_chunk (map_header f))"
  by (rule keeps_inside_chunk) (simp add: map_header_def)

lemmas keeps_inside = keeps_inside_header
  keeps_starts [THEN keeps_inside_snd] keeps_starts_load [THEN keeps_inside_snd]

lemma keeps_inside_parse: "keeps (mid_message bs) (parse_message_header fmt q)"
  unfolding parse_message_header_def
  by (intro keeps_intro keeps_inside keeps_inside_chunk) (simp_all add: map_header_def)

lemma header_timeout:
  "hoare (\<lambda>s. starts_with bs (snd s)) (read_message_header 0 bh_size) (\<lambda>_. mid_message bs) (on_timeout (mid_message bs))"
proof -
  have created: "hoare (\<lambda>s. starts_with bs (snd s))
      (on_chunk (\<lambda>c. if chunk_msg c = None then c\<lparr>chunk_msg := Some common_message_new\<rparr> else c))
      (\<lambda>_. mid_message bs) (on_timeout (mid_message bs))"
    by (auto simp: hoare_def on_chunk_def mid_message_def)
  have tail: "keeps (mid_message bs) (on_chunk (\<lambda>c. c\<lparr>chunk_msg := map_option (\<lambda>m. m\<lparr>msg_header := h\<rparr>) (chunk_msg c),
      chunk_msg_count := chunk_msg_count c + 1\<rparr>))" for h
    by (rule keeps_inside_chunk) simp
  show ?thesis
    unfolding read_message_header_def Let_def
    apply (rule hoare_bind [where R = "\<lambda>c s. starts_with bs (snd s)"])
     apply (simp add: hoare_def)
    apply (simp only: simp_thms if_False)
    apply (rule hoare_pre [OF hoare_if [where P = "\<lambda>s. True" and R = "\<lambda>s. starts_with bs (snd s)"]])
      apply (simp add: hoare_def)
     apply (rule hoare_bind [OF created])
     apply (rule hoare_keeps)
     apply (intro keeps_intro keeps_inside keeps_inside_chunk keeps_inside_parse tail)
      apply (simp_all add: map_header_def)
    done
qed

text \<open>Once the payload is there, nothing waits any more.\<close>

definition no_wait :: "('s, 'a) comp \<Rightarrow> bool" where
  "no_wait m \<longleftrightarrow> (\<forall>s t. m s \<noteq> (Inl (Code ERROR_SOCKET_TIMEOUT), t))"

named_theorems no_wait_intro \<open>operations that do not wait\<close>

lemma no_wait_bind [no_wait_intro]: "no_wait m \<Longrightarrow> (\<And>x. no_wait (f x)) \<Longrightarrow> no_wait (bind m f)"
  unfolding no_wait_def by (blast elim: bind_cases)

lemma no_wait_basic [no_wait_intro]:
  "no_wait (return x)" "e \<noteq> Code ERROR_SOCKET_TIMEOUT \<Longrightarrow> no_wait (fail e)" "no_wait (get f)" "no_wait (on_chunk g)"
  "no_wait (lift_res (store_payload src m))"
  by (auto simp: no_wait_def on_chunk_def store_payload_def split: option.split)

lemma no_wait_control [no_wait_intro]:
  "no_wait m \<Longrightarrow> no_wait n \<Longrightarrow> no_wait (if b then m else n)" "(\<And>x. no_wait (f x)) \<Longrightarrow> no_wait (Let y f)"
  by simp_all

lemma no_wait_buffer [no_wait_intro]:
  "no_wait (on_snd buffer_bytes)" "no_wait (on_snd (buffer_copy q n))" "no_wait (on_snd (buffer_erase k))"
  by (simp_all add: no_wait_def on_snd_def buffer_bytes_def buffer_copy_def buffer_erase_def)

lemma no_wait_take [no_wait_intro]: "no_wait take_message"
  unfolding take_message_def by (intro no_wait_intro)

lemma hoare_no_wait: "no_wait m \<Longrightarrow> hoare P m (\<lambda>_ _. True) (on_timeout Q)"
  by (rule hoareI) (auto simp: no_wait_def)

lemma payload_timeout:
  assumes "\<And>n. keeps P (on_snd (ensure_buffer_bytes n))"
    and "\<And>k. keeps P (on_chunk (\<lambda>c. c\<lparr>chunk_msg := map_option (\<lambda>m.
      if msg_payload m = None then m\<lparr>msg_payload := Some (replicate k 0)\<rparr> else m) (chunk_msg c)\<rparr>))"
  shows "hoare P (read_message_payload in_chunk bh_size mh_size) (\<lambda>_ _. True) (on_timeout P)"
proof -
  have get: "hoare P (get f) (\<lambda>_. P) (on_timeout P)" for f
    by (simp add: hoare_def)
  have if_same: "hoare P (if b then m else n) (\<lambda>_ _. True) (on_timeout P)"
    if "hoare P m (\<lambda>_ _. True) (on_timeout P)" "hoare P n (\<lambda>_ _. True) (on_timeout P)" for b m n using that by simp
  show ?thesis
    unfolding read_message_payload_def Let_def
    by (rule hoare_bind [OF get] if_same hoare_bind [OF hoare_keeps [OF assms(2)]] hoare_bind [OF hoare_keeps [OF assms(1)]]
        | (rule hoare_no_wait, intro no_wait_intro; simp))+
qed

lemma payload_timeout_inside:
  "hoare (mid_message bs) (read_message_payload in_chunk bh_size mh_size) (\<lambda>_ _. True) (on_timeout (mid_message bs))"
  by (intro payload_timeout keeps_inside keeps_inside_chunk) simp

lemma payload_timeout_starts:
  "hoare (\<lambda>s. starts_with bs (snd s)) (read_message_payload in_chunk bh_size mh_size) (\<lambda>_ _. True)
     (on_timeout (\<lambda>s. starts_with bs (snd s)))"
  by (intro payload_timeout keeps_on_snd_snd keeps_starts keeps_on_chunk_snd)

lemma keeps_header_starts: "keeps (\<lambda>s. starts_with bs (snd s)) (read_message_header fmt bh_size)"
  unfolding read_message_header_def parse_message_header_def
  by (intro keeps_intro keeps_starts [THEN keeps_on_snd_snd] keeps_starts_load [THEN keeps_on_snd_snd])

section \<open>A receive that timed out inside a chunk of type 0\<close>

lemma ensure_loop_short: "ensure_loop n s = (Inl e, s') \<Longrightarrow> e \<noteq> AssertFailed \<Longrightarrow> buffer_size (fst s') < n"
proof (induction n s arbitrary: s' rule: ensure_loop.induct)
  case (1 n b k)
  show ?case
  proof (cases "buffer_size b < n")
    case True
    obtain r k1 where rd: "socket_read SOCKET_READ_SIZE k = (r, k1)" by fastforce
    with True 1 show ?thesis
      by (cases r) (auto simp: ensure_loop.simps [of n b k] split: if_splits)
  next
    case False
    with 1(2) show ?thesis by (simp add: ensure_loop.simps)
  qed
qed

lemma ensure_timeout:
  "ensure_buffer_bytes n s = (Inl (Code ERROR_SOCKET_TIMEOUT), s') \<Longrightarrow> buffer_size (fst s') < n"
  using ensure_loop_short by (fastforce simp: ensure_buffer_bytes_def split: if_splits)

text \<open>What the basic header says is in the first byte of the buffer.\<close>

lemma basic_header_first:
  assumes "read_basic_header s = (Inr (fmt, cid, bh), s')"
  obtains b bs where "buf_data (fst s') = b # bs" "fmt = unat (drop_bit 6 b AND 0x03)"
    "1 < uint (b AND 0x3f) \<Longrightarrow> cid = uint (b AND 0x3f) \<and> bh = 1"
proof -
  obtain r1 s1 where e1: "ensure_buffer_bytes 1 s = (r1, s1)" by (rule prod.exhaust)
  with assms have r1: "r1 = Inr ()" by (cases r1) (auto simp: read_basic_header_def bind_def)
  with assms e1 obtain b more where b: "buf_data (fst s1) = b # more"
    by (cases "buf_data (fst s1)") (auto simp: read_basic_header_def bind_def buffer_bytes_def)
  define m where "m = (if 1 < uint (b AND 0x3f) then return (unat (drop_bit 6 b AND 0x03), uint (b AND 0x3f), 1 :: int)
    else if uint (b AND 0x3f) = 0 then
      bind (ensure_buffer_bytes 2) (\<lambda>_.
      bind (buffer_deref (buf_epoch (fst s1), 0 + 1)) (\<lambda>b1.
      return (unat (drop_bit 6 b AND 0x03), 64 + sint b1, 2)))
    else if uint (b AND 0x3f) = 1 then
      bind (ensure_buffer_bytes 3) (\<lambda>_.
      bind (buffer_deref (buf_epoch (fst s1), 0 + 1)) (\<lambda>b1.
      bind (buffer_deref (buf_epoch (fst s1), 0 + 2)) (\<lambda>b2.
      return (unat (drop_bit 6 b AND 0x03), 64 + sint b1 + sint b2 * 256, 3))))
    else fail AssertFailed)"
  have k: "keeps (starts_with [b]) m" unfolding m_def by (intro keeps_intro keeps_starts)
  have m: "m s1 = (Inr (fmt, cid, bh), s')"
    using assms e1 r1 b unfolding m_def
    by (simp add: read_basic_header_def bind_def buffer_bytes_def buffer_deref_def Let_def split: if_splits)
  have "starts_with [b] s1" using b by (simp add: starts_with_def)
  from keepsD [OF k this m] obtain bs where "buf_data (fst s') = b # bs" by (auto simp: starts_with_def)
  moreover have "fmt = unat (drop_bit 6 b AND 0x03)"
    using m unfolding m_def by (auto elim!: bind_cases split: if_splits)
  moreover have "cid = uint (b AND 0x3f) \<and> bh = 1" if "1 < uint (b AND 0x3f)"
    using m that unfolding m_def by simp
  ultimately show ?thesis by (rule that)
qed

lemma basic_header_timeout:
  assumes "read_basic_header s = (Inl (Code ERROR_SOCKET_TIMEOUT), s')" and "1 \<le> buffer_size (fst s')"
  obtains b bs where "buf_data (fst s') = b # bs" "uint (b AND 0x3f) \<le> 1"
proof -
  obtain r1 s1 where e1: "ensure_buffer_bytes 1 s = (r1, s1)" by (rule prod.exhaust)
  have r1: "r1 = Inr ()"
  proof (cases r1)
    case (Inl e)
    with assms(1) e1 have "e = Code ERROR_SOCKET_TIMEOUT" "s' = s1" by (auto simp: read_basic_header_def bind_def)
    with ensure_timeout [of 1 s s1] e1 Inl assms(2) show ?thesis by simp
  qed simp
  with assms e1 obtain b more where b: "buf_data (fst s1) = b # more"
    by (cases "buf_data (fst s1)") (auto simp: read_basic_header_def bind_def buffer_bytes_def)
  define m where "m n f = bind (ensure_buffer_bytes n) (\<lambda>_. bind (buffer_deref (buf_epoch (fst s1), 0 + 1)) f)"
    for n and f :: "byte \<Rightarrow> (rss_io, nat \<times> int \<times> int) comp"
  have small: "uint (b AND 0x3f) \<le> 1"
    using assms(1) e1 r1 b
    by (simp add: read_basic_header_def bind_def buffer_bytes_def buffer_deref_def Let_def split: if_splits)
  obtain n f where nf: "m n f s1 = (Inl (Code ERROR_SOCKET_TIMEOUT), s')" "\<And>x. keeps (starts_with [b]) (f x)"
  proof (cases "uint (b AND 0x3f) = 0")
    case True
    have "m 2 (\<lambda>b1. return (unat (drop_bit 6 b AND 0x03), 64 + sint b1, 2)) s1 = (Inl (Code ERROR_SOCKET_TIMEOUT), s')"
      using assms(1) e1 r1 b True
      by (simp add: m_def read_basic_header_def bind_def buffer_bytes_def buffer_deref_def Let_def split: if_splits)
    with that show ?thesis by (blast intro: keeps_basic)
  next
    case False
    with small have one: "uint (b AND 0x3f) = 1" using uint_ge_0 [of "b AND 0x3f"] by linarith
    have "m 3 (\<lambda>b1. bind (buffer_deref (buf_epoch (fst s1), 0 + 2)) (\<lambda>b2.
        return (unat (drop_bit 6 b AND 0x03), 64 + sint b1 + sint b2 * 256, 3))) s1 = (Inl (Code ERROR_SOCKET_TIMEOUT), s')"
      using assms(1) e1 r1 b one
      by (simp add: m_def read_basic_header_def bind_def buffer_bytes_def buffer_deref_def Let_def split: if_splits)
    with that show ?thesis by (blast intro: keeps_basic keeps_bind keeps_starts)
  qed
  have "keeps (starts_with [b]) (m n f)" unfolding m_def by (intro keeps_intro keeps_starts nf(2))
  moreover have "starts_with [b] s1" using b by (simp add: starts_with_def)
  ultimately have "starts_with [b] s'" using nf(1) by (rule keepsD)
  with small that show ?thesis by (auto simp: starts_with_def)
qed

text \<open>
  After the timeout the buffer still begins with the chunk's first byte, but the chunk stream already has a message.
\<close>

lemma recv_interlaced_timeout:
  assumes run: "recv_interlaced_message p = (Inl (Code ERROR_SOCKET_TIMEOUT), p1)"
    and buf: "buf_data (buffer p1) = b # bs" "length (b # bs) < 2 ^ 31"
    and fmt: "unat (drop_bit 6 b AND 0x03) = 0" "1 < uint (b AND 0x3f)"
  shows "chunk_msg (chunk_of p1 (uint (b AND 0x3f))) \<noteq> None"
proof -
  have one: "1 \<le> buffer_size (buffer p1)" using buf by (simp add: buffer_size_def int_of_size_small)
  obtain r s1 where hd: "read_basic_header (buffer p, skt p) = (r, s1)" by (rule prod.exhaust)
  show ?thesis
  proof (cases r)
    case (Inl e)
    then have "e = Code ERROR_SOCKET_TIMEOUT" "buffer p1 = fst s1"
      using run hd by (auto simp: recv_interlaced_message_def with_io_def bind_def split: prod.splits)
    with basic_header_timeout [of "(buffer p, skt p)" s1] hd Inl one buf(1) fmt(2) show ?thesis by auto
  next
    case (Inr h)
    obtain fmt0 cid bh where h: "h = (fmt0, cid, bh)" by (rule prod_cases3)
    obtain b0 more where b0: "buf_data (fst s1) = b0 # more" "fmt0 = unat (drop_bit 6 b0 AND 0x03)"
      "1 < uint (b0 AND 0x3f) \<Longrightarrow> cid = uint (b0 AND 0x3f) \<and> bh = 1"
      using basic_header_first [of "(buffer p, skt p)" fmt0 cid bh s1] hd Inr h by blast
    have st1: "starts_with [b0] s1" using b0(1) by (simp add: starts_with_def)
    obtain r2 c2 io2 where head: "read_message_header fmt0 bh (chunk_of p cid, s1) = (r2, (c2, io2))" by (rule prod_cases3)
    have st2: "starts_with [b0] io2" using keepsD [OF keeps_header_starts _ head, of "[b0]"] st1 by simp
    have co: "chunk_of (p\<lparr>buffer := x, skt := y\<rparr>) cid = chunk_of p cid" for x y by (simp add: chunk_of_def)
    show ?thesis
    proof (cases r2)
      case (Inl e)
      have p1: "p1 = p\<lparr>buffer := fst io2, skt := snd io2, chunk_streams := (chunk_streams p)(cid \<mapsto> c2)\<rparr>"
        and e: "e = Code ERROR_SOCKET_TIMEOUT"
        using run hd Inr h head Inl
        by (auto simp: recv_interlaced_message_def with_io_def with_chunk_def bind_def co split: prod.splits)
      have "b0 = b" using st2 buf(1) by (simp add: p1 starts_with_def)
      then have "fmt0 = 0" "cid = uint (b AND 0x3f)" using b0 fmt by simp_all
      moreover have "mid_message [b0] (c2, io2)"
        using hoareD_Inl [OF header_timeout, of "[b0]" "(chunk_of p cid, s1)"] st1 head Inl e \<open>fmt0 = 0\<close> by simp
      ultimately show ?thesis by (simp add: p1 chunk_of_def mid_message_def)
    next
      case (Inr mh)
      obtain r3 c3 io3 where pay: "read_message_payload (in_chunk_size p) bh mh (c2, io2) = (r3, (c3, io3))"
        by (rule prod_cases3)
      have p1: "p1 = p\<lparr>buffer := fst io3, skt := snd io3, chunk_streams := (chunk_streams p)(cid \<mapsto> c3)\<rparr>"
        and r3: "r3 = Inl (Code ERROR_SOCKET_TIMEOUT)"
        using run hd \<open>r = Inr h\<close> h head Inr pay
        by (auto simp: recv_interlaced_message_def with_io_def with_chunk_def bind_def co chunk_of_def split: prod.splits sum.splits)
      have "starts_with [b0] io3"
        using hoareD_Inl [OF payload_timeout_starts _ pay [unfolded r3], of "[b0]"] st2 by simp
      then have "b0 = b" using buf(1) by (simp add: p1 starts_with_def)
      then have f0: "fmt0 = 0" "cid = uint (b AND 0x3f)" using b0 fmt by simp_all
      then have "mid_message [b0] (c2, io2)"
        using hoareD_Inr [OF header_timeout, of "[b0]" "(chunk_of p cid, s1)"] st1 head Inr by simp
      then have "mid_message [b0] (c3, io3)"
        using hoareD_Inl [OF payload_timeout_inside _ pay [unfolded r3], of "[b0]"] by simp
      then show ?thesis using f0 by (simp add: p1 chunk_of_def mid_message_def)
    qed
  qed
qed

text \<open>Decoding a control message does not wait.\<close>

lemma no_wait_stream [no_wait_intro]:
  "c \<noteq> ERROR_SOCKET_TIMEOUT \<Longrightarrow> no_wait (ensure p c)" "no_wait (modify g)" "no_wait (assert b)" "no_wait load_byte"
  by (auto simp: no_wait_def ensure_def assert_def load_byte_def split: option.split)

lemma no_wait_read_4bytes [no_wait_intro]: "no_wait read_4bytes"
  unfolding read_4bytes_def assert_require_def by (intro no_wait_intro)

lemma no_wait_control_decode:
  assumes "\<not> not_control (msg_header m)"
  shows "no_wait (\<lambda>s :: RssStream. (fst (common_decode_packet m), s))"
proof -
  have "no_wait decode_SetChunkSizePacket" "no_wait decode_SetWindowAckSizePacket"
    unfolding decode_SetChunkSizePacket_def decode_SetWindowAckSizePacket_def by (intro no_wait_intro; simp)+
  then have "no_wait (decode_by_header (msg_header m))"
    using assms by (auto simp: decode_by_header_def header_is_defs not_control_def)
  then have "no_wait (bind (stream_initialize pl n) (\<lambda>_. decode_by_header (msg_header m)))" for pl n
    unfolding stream_initialize_def by (intro no_wait_intro; simp)
  then show ?thesis
    by (auto simp: no_wait_def common_decode_packet_def split: prod.split sum.split)
qed

lemma recv_message_fails: "fst (recv_interlaced_message s) = Inl e \<Longrightarrow> fst (recv_message s) = Inl e"
  by (cases "recv_interlaced_message s") (simp add: recv_message_def)

lemma no_wait_on_recv: "on_recv_message m s \<noteq> (Inl (Code ERROR_SOCKET_TIMEOUT), s')"
proof (cases "not_control (msg_header m)")
  case True
  then show ?thesis by (simp add: on_recv_not_control)
next
  case False
  obtain r m' where d: "common_decode_packet m = (r, m')" by (rule prod.exhaust)
  with no_wait_control_decode [OF False] have "r \<noteq> Inl (Code ERROR_SOCKET_TIMEOUT)" by (simp add: no_wait_def)
  with d show ?thesis
    by (auto simp: on_recv_message_def Let_def split: sum.splits option.splits RssPacket.splits)
qed

lemma recv_loop_timeout:
  "recv_message_loop n p = (Inl (Code ERROR_SOCKET_TIMEOUT), p1) \<Longrightarrow>
   \<exists>s. recv_interlaced_message s = (Inl (Code ERROR_SOCKET_TIMEOUT), p1)"
proof (induction n arbitrary: p)
  case (Suc n)
  obtain r s where rs: "recv_interlaced_message p = (r, s)" by (rule prod.exhaust)
  show ?case
  proof (cases r)
    case (Inl e)
    with Suc.prems rs show ?thesis by auto
  next
    case (Inr pmsg)
    with Suc.prems rs no_wait_on_recv have "recv_message_loop n s = (Inl (Code ERROR_SOCKET_TIMEOUT), p1)"
      by (auto split: option.splits if_splits)
    then show ?thesis by (rule Suc.IH)
  qed
qed simp

text \<open>
  Whatever arrives on the socket after the timeout, the next \<^verbatim>\<open>recv_message\<close> takes the chunk's first byte for the start
  of a second message.
\<close>

lemma retry_rejected:
  assumes "recv_message p = (Inl (Code ERROR_SOCKET_TIMEOUT), p1)"
    and buf: "buf_data (buffer p1) = b # bs" "length (b # bs) < 2 ^ 31"
    and fmt: "unat (drop_bit 6 b AND 0x03) = 0" "1 < uint (b AND 0x3f)"
  shows "fst (recv_message (p1\<lparr>skt := k\<rparr>)) = Inl (Code ERROR_RTMP_CHUNK_START)"
proof -
  let ?p = "p1\<lparr>skt := k\<rparr>" and ?cid = "uint (b AND 0x3f)"
  obtain s where "recv_interlaced_message s = (Inl (Code ERROR_SOCKET_TIMEOUT), p1)"
    using assms(1) recv_loop_timeout unfolding recv_message_def by blast
  from recv_interlaced_timeout [OF this buf fmt] obtain m where m: "chunk_msg (chunk_of p1 ?cid) = Some m" by blast
  have "buffer_size (buffer p1) = int (length (b # bs))" using buf by (simp add: buffer_size_def int_of_size_small)
  then have "ensure_buffer_bytes 1 (buffer p1, k) = (Inr (), (buffer p1, k))"
    by (simp add: ensure_buffer_bytes_def ensure_loop.simps)
  then have "read_basic_header (buffer p1, k) = (Inr (0, ?cid, 1), (buffer p1, k))"
    using buf(1) fmt by (simp add: read_basic_header_def bind_def buffer_bytes_def buffer_deref_def Let_def)
  moreover obtain c' b' k' where
    "read_message_header 0 1 (chunk_of p1 ?cid, (buffer p1, k)) = (Inl (Code ERROR_RTMP_CHUNK_START), (c', (b', k')))"
    using m by (simp add: read_message_header_def Let_def)
  moreover have "chunk_of (p1\<lparr>skt := x, buffer := y\<rparr>) ?cid = chunk_of p1 ?cid"
    "chunk_of (p1\<lparr>skt := x\<rparr>) ?cid = chunk_of p1 ?cid" for x y by (simp_all add: chunk_of_def)
  ultimately have "fst (recv_interlaced_message ?p) = Inl (Code ERROR_RTMP_CHUNK_START)"
    by (simp add: recv_interlaced_message_def with_io_def with_chunk_def bind_def)
  then show ?thesis by (rule recv_message_fails)
qed

section \<open>A longer message inside a message\<close>

definition type1_byte :: "int \<Rightarrow> byte" where
  "type1_byte cid = 0x40 OR (word_of_int cid AND 0x3F)"

lemma type1_byte_simps:
  assumes "2 \<le> cid" and "cid < 64"
  shows "uint (type1_byte cid AND 0x3f) = cid" and "unat (drop_bit 6 (type1_byte cid) AND 0x03) = 1"
proof -
  define n where "n = nat cid"
  have n: "cid = int n" "n \<in> {2..<64}" using assms by (auto simp: n_def)
  then have "uint (type1_byte (int n) AND 0x3f) = int n \<and> unat (drop_bit 6 (type1_byte (int n)) AND 0x03) = 1"
    unfolding type1_byte_def by (simp add: atLeastLessThan_nat_numeral) (elim disjE; simp)
  then show "uint (type1_byte cid AND 0x3f) = cid" and "unat (drop_bit 6 (type1_byte cid) AND 0x03) = 1"
    unfolding n(1) by blast+
qed

text \<open>The header of type 1 on a chunk stream inside a message: it replaces the length.\<close>

lemma read_message_header_fmt1:
  assumes ready: "io_ready s"
    and inp: "io_stream s = b # [t2, t1, t0] @ [byte_at 2 len, byte_at 1 len, byte_at 0 len, ty] @ tail"
    and ts: "u24 [t2, t1, t0] < 0xFFFFFF" and len: "len < 2 ^ 24"
    and busy: "chunk_msg c = Some m" and cnt: "chunk_msg_count c \<noteq> 0"
  shows "\<exists>s' c'. read_message_header 1 1 (c, s) = (Inr 7, (c', s')) \<and> payload_length (chunk_header c') = len \<and>
    chunk_msg c' = Some (m\<lparr>msg_header := chunk_header c'\<rparr>) \<and> io_ready s' \<and> io_stream s' = io_stream s"
proof -
  obtain s' where s': "ensure_buffer_bytes 8 s = (Inr (), s')" "io_ready s'" "io_stream s' = io_stream s" "buffered 8 s'"
    using ensure_ready [OF ready, of 8] inp by auto
  let ?e = "buf_epoch (fst s')"
  have q: "buffer_bytes s' = (Inr (?e, 0), s')" by (rule buffer_bytes_ready [OF s'(4)]) simp
  have loads: "load_bytes (?e, 1) 3 s' = (Inr [t2, t1, t0], s')"
    "load_bytes (?e, 4) 3 s' = (Inr [byte_at 2 len, byte_at 1 len, byte_at 0 len], s')"
    using load_bytes_ready [of 1 3 s'] load_bytes_ready [of 4 3 s'] s'(3,4) inp by (simp_all add: buffered_def)
  have t: "buffer_deref (?e, 7) s' = (Inr ty, s')"
    using buffer_deref_ready [of 7 s'] s'(3,4) inp by (simp add: buffered_def)
  have l: "u24 [byte_at 2 len, byte_at 1 len, byte_at 0 len] = len" using len by (rule u24_bytes)
  have "uint (u24 [t2, t1, t0]) < 0xFFFFFF" using ts by (simp only: word_less_def) simp
  then have ext: "\<not> sint RTMP_EXTENDED_TIMESTAMP \<le> sint (u24 [t2, t1, t0])"
    using sint_small [of "u24 [t2, t1, t0]"] by simp
  have "uint len < 2 ^ 24" using len by (simp add: word_less_def)
  then have pos: "\<not> sint len < 0" using sint_small [of len] by simp
  show ?thesis
    using s' busy cnt ext pos
    by (simp add: read_message_header_def mh_sizes_def q parse_message_header_def loads t l map_header_def
        del: u24.simps of_bytes.simps load_bytes.simps One_nat_def)
qed

lemma length_change_lemma:
  fixes len :: i32
  assumes "stage s cid h got" and "got \<noteq> []" and "2 \<le> cid" and "cid < 64"
    and ready: "protocol_ready s" and n: "in_chunk_size s = int n"
    and inp: "protocol_input s = type1_byte cid # [t2, t1, t0] @ [byte_at 2 len, byte_at 1 len, byte_at 0 len, ty] @ part @ rest"
    and ts: "u24 [t2, t1, t0] < 0xFFFFFF" and len: "len < 2 ^ 24"
    and part: "length part = min (unat len - length got) n" "unat (payload_length h) < length got + length part"
  shows "fst (recv_message s) = Inl Undefined"
proof -
  let ?c = "chunk_of s cid"
  from assms(1,2) obtain m where st: "0 < chunk_msg_count ?c" "chunk_msg ?c = Some m" "building (received_header h) got m"
    by (auto simp: stage_def Let_def)
  have arr: "msg_payload m = Some (got @ replicate (unat (payload_length h) - length got) 0)" "msg_size m = int (length got)"
    "length got \<le> unat (payload_length h)"
    using st(3) assms(2) by (auto simp: building_def received_header_def)
  obtain s1 where s1: "read_basic_header (buffer s, skt s) = (Inr (1, cid, 1), s1)" "io_ready s1"
    "io_stream s1 = io_stream (buffer s, skt s)"
    using read_basic_header_ready [of "(buffer s, skt s)" "type1_byte cid"] ready inp type1_byte_simps [OF assms(3,4)] assms(3)
    by (auto simp: protocol_ready_def protocol_input_def)
  obtain s2 c2 where s2: "read_message_header 1 1 (?c, s1) = (Inr 7, (c2, s2))" "payload_length (chunk_header c2) = len"
    "chunk_msg c2 = Some (m\<lparr>msg_header := chunk_header c2\<rparr>)" "io_ready s2" "io_stream s2 = io_stream s1"
    using read_message_header_fmt1 [OF s1(2) _ ts len st(2), of "type1_byte cid" ty "part @ rest"] s1(3) inp st(1)
    by (auto simp: protocol_input_def)
  have pl: "part \<noteq> []" "length got < unat len" using part arr(3) by auto
  have l: "sint len = int (unat len)"
    using len sint_small [of len] by (simp add: word_less_def)
  have "min (int (unat len) - int (length got)) (int n) = int (length part)" using part(1) pl(2) by linarith
  then have k: "min (sint len - msg_size m) (int n) = int (length part)" unfolding l arr(2) .
  have "0 < int (unat len)" using pl(2) by linarith
  then have pos: "0 < sint len" "sint len \<noteq> 0" unfolding l by simp_all
  obtain s3 where s3: "ensure_buffer_bytes (int (8 + length part)) s2 = (Inr (), s3)" "io_stream s3 = io_stream s2"
    "buffered (int (8 + length part)) s3"
    using ensure_ready [OF s2(4), of "int (8 + length part)"] s2(5) s1(3) inp by (auto simp: protocol_input_def)
  have q: "buffer_bytes s3 = (Inr (buf_epoch (fst s3), 0), s3)" by (rule buffer_bytes_ready [OF s3(3)]) simp
  have src: "buffer_copy (buf_epoch (fst s3), 8) (int (length part)) s3 = (Inr part, s3)"
    using buffer_copy_ready [of 8 "length part" s3] s3(2,3) s2(5) s1(3) inp by (simp add: protocol_input_def)
  have "store_payload part (m\<lparr>msg_header := chunk_header c2\<rparr>) = Inl Undefined"
    using arr part(2) by (simp add: store_payload_def)
  then obtain c3 b3 k3 where
    "read_message_payload (int n) 1 7 (c2, s2) = (Inl Undefined, (c3, (b3, k3)))"
    using s3(1) q src s2(2,3) arr(1) k pos
    by (cases s3) (simp add: read_message_payload_def Let_def chunk_partial_msg_def add.commute cong del: if_weak_cong)
  moreover have "chunk_of (s\<lparr>buffer := x, skt := y\<rparr>) cid = ?c" for x y by (simp add: chunk_of_def)
  ultimately have "fst (recv_interlaced_message s) = Inl Undefined"
    using s1(1) s2(1) n
    by (cases s1; cases s2) (simp add: recv_interlaced_message_def with_io_def with_chunk_def bind_def chunk_of_def)
  then show ?thesis by (rule recv_message_fails)
qed

end
