(* ===== verification/Spec2Isabelle.thy ===== *)
theory Spec2Isabelle
  imports St_Properties Rss_System Rss_Server Rss_Protocol_Faults
begin

text \<open>
A verification development for the RTMP live server: \<^verbatim>\<open>src/src\<close>, \<^verbatim>\<open>src/include\<close>, and the part of
\<^verbatim>\<open>src/objs/st-1.9\<close> (state-threads) that the server's input and output rest on.

\<^bold>\<open>The program.\<close> \<^verbatim>\<open>RssServer\<close> accepts connections and starts a cooperative thread for each. The thread of
\<^verbatim>\<open>RssClient\<close> shakes hands, answers \<^verbatim>\<open>connect\<close>, finds out whether the peer publishes or plays, and then
either reads messages and hands them to the \<^verbatim>\<open>RssSource\<close> of its stream, or takes the messages out of the
queue of its \<^verbatim>\<open>RssConsumer\<close> and sends them. \<^verbatim>\<open>RssProtocol\<close> turns messages into chunks and back,
\<^verbatim>\<open>RssPacket\<close> and its subclasses decode and encode the control messages, whose fields are AMF0 values,
over the cursor \<^verbatim>\<open>RssStream\<close>. \<^verbatim>\<open>RssSocket\<close> and \<^verbatim>\<open>RssBuffer\<close> stand between the chunks and the descriptor.

\<^bold>\<open>The theories,\<close> in the order in which they rest on each other; a definition has the name of the function
it models, with the name of its class in front where the bare name is ambiguous.

  \<^item> \<open>Rss_Prelude\<close>: outcomes and computations. A member function is a function of the state of
    its object to an outcome and a new state; the outcome is the result, an error code
    (\<open>Code\<close>), a failed assertion (\<open>AssertFailed\<close>), an escaped exception (\<open>CppException\<close>), behaviour that C++ leaves undefined
    (\<open>Undefined\<close>), or the model's own \<open>OutOfFuel\<close>. A small Hoare calculus for them.
  \<^item> \<open>Rss_Stream\<close>: \<^verbatim>\<open>rss_core_stream.cpp\<close>.
  \<^item> \<open>Rss_Amf0\<close>: \<^verbatim>\<open>rss_core_amf0.cpp\<close>. \<open>Rss_Amf0_Correct\<close>: the property table is a map (locale
    \<open>property_map\<close>); writers produce a reference encoding of the announced size (locale
    \<open>amf0_writer\<close>) that the readers invert (locale \<open>amf0_codec\<close>). \<open>Rss_Amf0_Safe\<close>: the readers on
    arbitrary bytes.
  \<^item> \<open>St_Io\<close>: the blocking calls of \<^verbatim>\<open>objs/st-1.9/io.c\<close>. The kernel is a script of answers to \<^verbatim>\<open>read\<close>,
    \<^verbatim>\<open>write\<close> and \<^verbatim>\<open>poll\<close>; any script is allowed, so any segmentation, any partial write and any failure.
  \<^item> \<open>Rss_Socket\<close>, \<open>Rss_Buffer\<close>: \<^verbatim>\<open>rss_core_socket.cpp\<close> and \<^verbatim>\<open>rss_core_buffer.cpp\<close>; the buffer is the front of
    the byte stream (locale \<open>buffered_input\<close>). The vector's reallocation is part of the state, so that
    a pointer kept across it is seen to dangle.
  \<^item> \<open>Rss_Packet\<close>, \<open>Rss_Message\<close>, \<open>Rss_Protocol\<close>: \<^verbatim>\<open>rss_core_protocol.cpp\<close>. The packet classes are one
    datatype \<open>RssPacket\<close>; a virtual function is a function by cases on it. \<open>Rss_Packet_Correct\<close>:
    encodings and the safety of decoding. \<open>Rss_Protocol_Recv\<close>: one chunk on the receiving side.
    \<open>Rss_Protocol_Mux\<close>: interleaved chunk streams, with the interleaving as the inductive relation
    \<open>merged\<close>. \<open>Rss_Protocol_Send\<close>: what is sent, byte by byte. \<open>Rss_Protocol_Safe\<close>: arbitrary input
    (locale \<open>message_input\<close>: what the upper layers use of \<^verbatim>\<open>recv_message\<close>). \<open>Rss_Protocol_Faults\<close>: what a timeout in the middle
    of a chunk leaves behind, and a chunk that changes the length of a message.
  \<^item> \<open>Rss_Source\<close>: \<^verbatim>\<open>rss_core_source.cpp\<close> and the shared messages, over an explicit store of objects
    \<open>rss_world\<close>: sources, consumers and payloads by address, \<open>None\<close> for memory that was freed.
    \<open>Rss_Source_Correct\<close>: the ownership invariant \<open>world_ok\<close> and the behaviour of every operation.
  \<^item> \<open>Rss_Rtmp\<close>, \<open>Rss_Rtmp_Correct\<close>: \<^verbatim>\<open>rss_core_rtmp.cpp\<close>: handshake, connection, identification, the answers.
  \<^item> \<open>Rss_Client\<close>, \<open>Rss_Client_Correct\<close>: \<^verbatim>\<open>rss_core_client.cpp\<close>: the two loops of a client's thread. Each round begins with
    \<^verbatim>\<open>st_usleep(0)\<close> (\<open>st_switch\<close>), where the other threads may change \<^verbatim>\<open>errno\<close> and the sources; what they do in the \<open>k\<close>-th of these
    switches is an argument of the loops. What they do to the sources while a round waits in \<^verbatim>\<open>recv_message\<close>, which does not look at the
    sources, counts to the switch before it.
  \<^item> \<open>Rss_System\<close>: all threads together. The threads switch only in blocking calls, so a step of a thread
    is what it does between two of them (\<open>thread_step\<close>), and \<open>sys_step\<close> lets any thread make a step.
    The log of what was published is a history variable.
  \<^item> \<open>Rss_Server\<close>: \<^verbatim>\<open>rss_core_server.cpp\<close>, \<^verbatim>\<open>rss_core_conn.cpp\<close> and \<^verbatim>\<open>rss_main_server.cpp\<close>: start-up, the list of
    connections and their descriptors.
  \<^item> \<open>St_Vp\<close>: the data of state-threads (\<^verbatim>\<open>common.h\<close>): threads, the virtual processor with its queues, poll requests.
    \<open>St_Heap\<close>, \<open>St_Sleepq\<close>, \<open>St_Sleepq_Correct\<close>: the timeout heap of \<^verbatim>\<open>sched.c\<close>, linked through the thread objects; its
    operations follow operations on binary trees, and the trees are heaps.
  \<^item> \<open>St_Threads\<close>: the invariant of the queues (\<open>vp_inv\<close>). \<open>St_Event\<close>, \<open>St_Event_Correct\<close>: the epoll system of \<^verbatim>\<open>event.c\<close>; what
    the kernel is registered for is part of the state (\<open>ev_inv\<close>). \<open>St_Event_Alt\<close>, \<open>St_Event_Alt_Correct\<close>: its \<^verbatim>\<open>select\<close> and \<^verbatim>\<open>poll\<close>
    systems, which the server does not choose; the contract of an event system is the locale \<open>event_system\<close>.
  \<^item> \<open>St_Sched\<close>: \<^verbatim>\<open>sched.c\<close>, \<^verbatim>\<open>sync.c\<close>, \<^verbatim>\<open>key.c\<close>, \<^verbatim>\<open>stk.c\<close>. A call ends with a result or gives the processor away; then the
    saved context of its thread says where it goes on (\<open>resume\<close>). \<open>St_Sched_Inv\<close>: the invariant of the whole library (\<open>st_inv\<close>);
    \<open>St_Sched_Ops\<close>, \<open>St_Thread_Ops\<close>, \<open>St_Clock\<close> (locale \<open>timeout_queue\<close>): every call and every continuation keeps it.
    \<open>St_Machine\<close>: a step of the library (\<open>st_step\<close>). \<open>St_Start\<close>: the state after \<^verbatim>\<open>st_init\<close>. \<open>St_Order\<close>: what every step does to the run
    queue and the mutexes. \<open>St_Locks\<close>: mutual exclusion, with a history variable.
  \<^item> \<open>St_Netfd\<close>: the descriptor objects of \<^verbatim>\<open>io.c\<close>.
  \<^item> \<open>St_Properties\<close>: the properties of state-threads; this theory: those of the server. Each has an instance at a concrete state.

\<^bold>\<open>What the properties show.\<close> Media goes through unchanged: chunks interleaved in any order are put
together to the messages that were sent, a publishing thread hands on exactly what it received, and in every
interleaving of threads a player gets what was cached and what was published since it joined, in order and
on the wire byte by byte. Memory is managed right: reference counts are exact in every reachable state, and
leaving consumers release what they held. Input is handled safely: on any bytes decoding ends with a value
or an error code, the receive loop ends and keeps its invariant. The threads underneath are scheduled right: in every reachable
state every queue holds just the threads it should, no call gets stuck, mutexes exclude, timeouts and
events wake exactly those they concern, the run queue is served in order. The last group are the
places where the code does not do what it is meant to, most of them as a theorem that says for which states and inputs it happens,
with an instance.

\<^bold>\<open>Integers, floats, bounds and fuel.\<close> A byte is an \<open>8 word\<close>, \<^verbatim>\<open>int16_t\<close> and \<^verbatim>\<open>int32_t\<close> are words read with \<open>sint\<close> where the
code compares them; an \<^verbatim>\<open>int\<close> that holds a size is an integer, and the places where it wraps are written
out (\<open>int_of_size\<close>). A \<^verbatim>\<open>double\<close> is its 64 bits: the code copies them and only compares with the encoding of
numbers. Statements about queues assume fewer than \<open>2 ^ 31\<close> messages, where \<^verbatim>\<open>get_packets\<close> counts
in an \<^verbatim>\<open>int\<close>. The receive loops have fuel: the length of the remaining input plus one. Every delivered message and every
received chunk consumes at least one byte, so the fuel is never used up; this is proved
for each loop (\<open>r \<noteq> Inl OutOfFuel\<close>). \<open>play_loop\<close>, which ends only with an error, takes the
number of rounds to look at as an argument; for it \<open>OutOfFuel\<close> means that it is still running then. \<^verbatim>\<open>new char[n]\<close> is a parameter \<open>heap\<close> that gives any \<open>n\<close> bytes.

\<^bold>\<open>The two levels of threads.\<close> The server's threads (\<open>Rss_System\<close>) switch only in blocking calls, and a step of a thread is what it
does between two of them. That this is the right granularity is what \<open>St_Machine\<close> models: only the calls that wait give the
processor away, and a thread that is runnable stays so until it gets it. The blocking calls themselves are used by the
server through \<open>St_Io\<close>, where other threads are seen only as an arbitrary \<^verbatim>\<open>errno\<close> after a wait.

\<^bold>\<open>Not modelled.\<close> Logging (\<^verbatim>\<open>rss_core_log\<close>), which only prints; the parsing of the command line; \<^verbatim>\<open>RssAutoFree\<close>,
whose effect is written out where it is used. Of state-threads: the saving and restoring of registers (\<^verbatim>\<open>md.h\<close> and the assembler
files), for which the saved contexts stand; the kqueue system, which Linux does not
have; random offsets of stacks, switch callbacks and debugging aids; a serialized \<^verbatim>\<open>accept\<close>, which Linux does not
need; its extensions and examples, which are not linked into the server. A reachable state of the thread library is one
without a fork in between (\<open>kernel_ok\<close>); the rebuilding of the epoll set after a fork is modelled (\<open>epoll_reinit\<close>) but not
covered by the invariant. Memory that is leaked on error paths of the decoders is not part of the state; the messages a
failing player leaks are (\<open>sys_lost\<close>).

\<^bold>\<open>Assumptions about the system.\<close> Closing the descriptor of a connection succeeds (\<open>conn_free\<close>): the event system refuses it only while
another thread waits for the descriptor. In a run of the thread library the same descriptors are refused by \<^verbatim>\<open>epoll_ctl\<close> and memory is or is not to be
had throughout, and changing or deleting what is registered does not fail (\<open>epoll_ctl\<close>). Descriptors are below \<open>2 ^ 30\<close>, so that doubling the
size of a table does not overflow (\<open>grow\<close>). The sizes of AMF0 values fit an \<^verbatim>\<open>int\<close>, and their nesting fits the stack of a
thread (\<open>rss_amf0_get_any_size\<close> and the readers and writers).
\<close>

section \<open>Concrete states for the witnesses\<close>

text \<open>A descriptor on which nothing has happened yet, and one that will deliver given segments.\<close>

definition quiet_net :: st_net where
  "quiet_net = \<lparr>net_rd = [], net_wr = [], net_poll = [], net_sent = [], net_errno = ENONE\<rparr>"

definition net_delivering :: "byte list list \<Rightarrow> st_net" where
  "net_delivering segs = quiet_net\<lparr>net_rd := map RdBytes segs\<rparr>"

definition zero_heap :: "nat \<Rightarrow> byte list" where
  "zero_heap n = replicate n 0"

definition video_header :: RssMessageHeader where
  "video_header = \<lparr>message_type = 9, payload_length = 3, timestamp_delta = 0, stream_id = 1, timestamp = 26\<rparr>"

definition audio_header :: RssMessageHeader where
  "audio_header = \<lparr>message_type = 8, payload_length = 2, timestamp_delta = 0, stream_id = 1, timestamp = 27\<rparr>"

lemma zero_heap_length: "length (zero_heap n) = n"
  by (simp add: zero_heap_def)

lemma carried_examples: "carried (video_header, [1, 2, 3])" "carried (audio_header, [4, 5])"
  "not_control video_header"
  by (simp_all add: carried_def plain_header_def video_header_def audio_header_def not_control_def)

lemmas example_simps = protocol_ready_def io_ready_def io_stream_def net_fair_def net_in_def
  protocol_new_def net_delivering_def quiet_net_def socket_new_def buffer_new_def

section \<open>The chunk layer\<close>

text \<open>
  C2: Let each of the chunk streams 2 to 63, on which no message is under construction, carry a list of
  messages with non-empty payloads shorter than \<open>2 ^ 24\<close> bytes and timestamps below \<open>0xFFFFFF\<close>, cut into chunks as this server
  cuts them, a chunk of type 0 and then chunks of type 3, and let the chunks of different streams be interleaved on the wire in any
  order. Reading the chunks one by one with \<^verbatim>\<open>recv_interlaced_message\<close> delivers on every chunk stream exactly its messages,
  complete and in order, and consumes exactly the bytes of the chunks, in whatever segments the bytes arrive on a connection
  whose reads do not fail. (Chunk stream ids of two bytes, extended timestamps and chunks of types 1 and 2 are not covered.)
\<close>

theorem chunk_streams_demultiplexed:
  assumes "merged (\<lambda>cid. messages_chunks n cid (M cid)) w"
    and "\<forall>cid. messages_chunks n cid (M cid) \<noteq> [] \<longrightarrow> 2 \<le> cid \<and> cid < 64"
    and "\<forall>cid. list_all carried (M cid)"
    and "\<forall>cid. stage s cid header_new []"
    and "protocol_ready s" and "in_chunk_size s = int n" and "0 < n"
    and "protocol_input s = concat (map snd w) @ rest"
  shows "\<exists>rs s'. recv_chunks (length w) s = (Inr rs, s') \<and> length rs = length w \<and>
    protocol_input s' = rest \<and>
    (\<forall>cid. delivered cid (map fst w) rs = map (\<lambda>(h, pl). complete_msg h pl) (M cid))"
  using assms by (intro recv_chunks_merged) (auto intro: flow_start)

definition example_messages :: "int \<Rightarrow> (RssMessageHeader \<times> byte list) list" where
  "example_messages cid =
     (if cid = 6 then [(video_header, [1, 2, 3])] else if cid = 7 then [(audio_header, [4, 5])] else [])"

definition example_wire :: "(int \<times> byte list) list" where
  "example_wire =
     [(6, [6, 0, 0, 26, 0, 0, 3, 9, 1, 0, 0, 0, 1, 2]), (7, [7, 0, 0, 27, 0, 0, 2, 8, 1, 0, 0, 0, 4, 5]),
      (6, [0xC6, 3])]"

lemma example_merged: "merged (\<lambda>cid. messages_chunks 2 cid (example_messages cid)) example_wire"
proof -
  have v: "messages_chunks 2 6 (example_messages 6) = [snd (example_wire ! 0), snd (example_wire ! 2)]"
    by code_simp
  have a: "messages_chunks 2 7 (example_messages 7) = [snd (example_wire ! 1)]" by code_simp
  have o: "messages_chunks 2 cid (example_messages cid) = []" if "cid \<noteq> 6" "cid \<noteq> 7" for cid
    using that by (simp add: example_messages_def messages_chunks_def)
  let ?G = "\<lambda>cid. messages_chunks 2 cid (example_messages cid)"
  let ?x = "snd (example_wire ! 0)" and ?y = "snd (example_wire ! 1)" and ?z = "snd (example_wire ! 2)"
  have "merged (?G(6 := [?z], 7 := [], 6 := [])) []"
    by (rule merged_Nil) (use o in simp)
  then have "merged (?G(6 := [?z], 7 := [])) [(6, ?z)]"
    by (rule merged_Cons [rotated]) simp
  then have "merged (?G(6 := [?z])) [(7, ?y), (6, ?z)]"
    by (rule merged_Cons [rotated]) (simp add: a)
  then have "merged ?G [(6, ?x), (7, ?y), (6, ?z)]"
    by (rule merged_Cons [rotated]) (simp add: v)
  then show ?thesis by (simp add: example_wire_def)
qed

definition example_receiver :: RssProtocol where
  "example_receiver =
     (protocol_new (net_delivering [[6, 0, 0, 26, 0], [0, 3, 9, 1, 0, 0, 0, 1, 2, 7, 0, 0, 27],
        [0, 0, 2, 8, 1, 0, 0, 0, 4, 5, 0xC6, 3, 99]]))\<lparr>in_chunk_size := 2\<rparr>"

lemma example_receiver_ready: "protocol_ready example_receiver" "stage example_receiver cid h []"
  "in_chunk_size example_receiver = int 2"
  "protocol_input example_receiver = concat (map snd example_wire) @ [99]"
proof -
  show "protocol_ready example_receiver" by (simp add: example_receiver_def example_simps)
  show "protocol_input example_receiver = concat (map snd example_wire) @ [99]" by code_simp
qed (simp_all add: example_receiver_def protocol_new_def stage_def chunk_of_def chunk_stream_new_def)

theorem chunk_streams_demultiplexed_witness:
  "\<exists>rs s'. recv_chunks 3 example_receiver = (Inr rs, s') \<and> length rs = 3 \<and> protocol_input s' = [99] \<and>
     delivered 6 [6, 7, 6] rs = [complete_msg video_header [1, 2, 3]] \<and>
     delivered 7 [6, 7, 6] rs = [complete_msg audio_header [4, 5]]"
proof -
  have "\<forall>cid. messages_chunks 2 cid (example_messages cid) \<noteq> [] \<longrightarrow> 2 \<le> cid \<and> cid < 64"
    "\<forall>cid. list_all carried (example_messages cid)"
    by (auto simp: example_messages_def messages_chunks_def carried_examples)
  moreover have "\<forall>cid. stage example_receiver cid header_new []" by (simp add: example_receiver_ready(2))
  ultimately obtain rs s' where r: "recv_chunks (length example_wire) example_receiver = (Inr rs, s')"
    "length rs = length example_wire" "protocol_input s' = [99]"
    "\<forall>cid. delivered cid (map fst example_wire) rs = map (\<lambda>(h, pl). complete_msg h pl) (example_messages cid)"
    using chunk_streams_demultiplexed [OF example_merged _ _ _ example_receiver_ready(1,3) _
      example_receiver_ready(4)] by fastforce
  have w: "length example_wire = 3" "map fst example_wire = [6, 7, 6]" by (simp_all add: example_wire_def)
  have "delivered 6 [6, 7, 6] rs = [complete_msg video_header [1, 2, 3]]"
    "delivered 7 [6, 7, 6] rs = [complete_msg audio_header [4, 5]]"
    using r(4) [THEN spec, of 6] r(4) [THEN spec, of 7] unfolding w
    by (simp_all add: example_messages_def del: delivered.simps)
  then show ?thesis using r(1-3) unfolding w by (intro exI [of _ rs] exI [of _ s'] conjI)
qed

text \<open>
  C7: What \<^verbatim>\<open>send_message\<close> puts on the wire for a media message on a chunk stream 2 to 63, with a timestamp
  below \<open>0xFFFFFF\<close> and a non-empty payload shorter than \<open>2 ^ 24\<close> bytes, is read back by \<^verbatim>\<open>recv_message\<close> at the peer as one message
  of the same type, stream id, timestamp and payload, provided the chunk sizes agree and the peer has no message under
  construction on that chunk stream. Nothing behind the message is consumed and no other chunk stream is touched.
\<close>

theorem chunk_roundtrip:
  assumes "send_message hp (SharedPtrMessage h (int (length pl)) (Some pl) cid) a = (Inr (), a')"
    and "out_chunk_size a = int n" and "0 < n"
    and "carried (h, pl)" and "not_control h" and "2 \<le> cid" and "cid < 64"
    and "protocol_ready b" and "in_chunk_size b = int n" and "stage b cid h []"
    and "protocol_input b = drop (length (protocol_sent a)) (protocol_sent a') @ rest"
  shows "\<exists>b'. recv_message b = (Inr (complete_msg h pl), b') \<and> protocol_ready b' \<and>
    protocol_input b' = rest \<and> stage b' cid h [] \<and> same_elsewhere cid b b'"
  using assms by (rule shared_message_roundtrip)

theorem chunk_roundtrip_witness:
  "\<exists>b'. recv_message (protocol_new (net_delivering [[6, 0, 0, 26, 0, 0], [3, 9, 1, 0, 0, 0, 1, 2, 3, 77]])) =
     (Inr (complete_msg video_header [1, 2, 3]), b') \<and> protocol_input b' = [77]"
proof -
  let ?msg = "SharedPtrMessage video_header (int (length [1, 2, 3 :: byte])) (Some [1, 2, 3]) 6"
  let ?a = "protocol_new quiet_net"
  let ?b = "protocol_new (net_delivering [[6, 0, 0, 26, 0, 0], [3, 9, 1, 0, 0, 0, 1, 2, 3, 77]])"
  let ?a' = "snd (send_message zero_heap ?msg ?a)"
  have "fst (send_message zero_heap ?msg ?a) = Inr ()" by code_simp
  then have sent: "send_message zero_heap ?msg ?a = (Inr (), ?a')" by (metis prod.collapse)
  have inp: "protocol_input ?b = drop (length (protocol_sent ?a)) (protocol_sent ?a') @ [77]" by code_simp
  have ready: "protocol_ready ?b" by (simp add: example_simps)
  have sizes: "out_chunk_size ?a = int 128" "in_chunk_size ?b = int 128"
    by (simp_all add: protocol_new_def)
  have idle: "stage ?b 6 video_header []"
    by (simp add: protocol_new_def stage_def chunk_of_def chunk_stream_new_def)
  show ?thesis
    using chunk_roundtrip [OF sent sizes(1) _ carried_examples(1,3) _ _ ready sizes(2) idle inp] by auto
qed


text \<open>
  C22: Sending a \<^verbatim>\<open>SetChunkSize\<close> packet changes the chunk size of both sides to the announced
  value, from \<^verbatim>\<open>RTMP_MIN_CHUNK_SIZE\<close>, which is 2, up: the sender's \<^verbatim>\<open>out_chunk_size\<close> and, once the peer has read the
  message, its \<^verbatim>\<open>in_chunk_size\<close>. So messages sent afterwards are cut and read with the same size. (The chunk sizes agreed before,
  and the peer has no message under construction on the control chunk stream.)
\<close>

theorem chunk_size_negotiated:
  assumes "send_message hp (CommonMessage (packet_message (RssSetChunkSizePacket v) sid)) a = (Inr (), a')"
    and "\<And>n. length (hp n) = n" and "out_chunk_size a = int n" and "0 < n"
    and "RTMP_MIN_CHUNK_SIZE \<le> sint v"
    and "protocol_ready b" and "in_chunk_size b = int n" and "stage b RTMP_CID_ProtocolControl h []"
    and "protocol_input b = drop (length (protocol_sent a)) (protocol_sent a') @ rest"
  shows "\<exists>m b'. recv_message b = (Inr m, b') \<and> msg_packet m = Some (RssSetChunkSizePacket v) \<and>
    out_chunk_size a' = sint v \<and> in_chunk_size b' = sint v \<and> protocol_input b' = rest"
  by (rule set_chunk_size_agreed [OF assms])

theorem chunk_size_negotiated_witness:
  "\<exists>m b'. recv_message (protocol_new (net_delivering [[2, 0, 0, 0, 0, 0, 4, 1, 0, 0, 0, 0, 0, 0, 16, 0, 5]])) =
     (Inr m, b') \<and> in_chunk_size b' = 4096 \<and> protocol_input b' = [5]"
proof -
  let ?msg = "CommonMessage (packet_message (RssSetChunkSizePacket 4096) 0)"
  let ?a = "protocol_new quiet_net"
  let ?b = "protocol_new (net_delivering [[2, 0, 0, 0, 0, 0, 4, 1, 0, 0, 0, 0, 0, 0, 16, 0, 5]])"
  let ?a' = "snd (send_message zero_heap ?msg ?a)"
  have "fst (send_message zero_heap ?msg ?a) = Inr ()" by code_simp
  then have sent: "send_message zero_heap ?msg ?a = (Inr (), ?a')" by (metis prod.collapse)
  have inp: "protocol_input ?b = drop (length (protocol_sent ?a)) (protocol_sent ?a') @ [5]" by code_simp
  have ready: "protocol_ready ?b" by (simp add: example_simps)
  have sizes: "out_chunk_size ?a = int 128" "in_chunk_size ?b = int 128"
    by (simp_all add: protocol_new_def)
  have idle: "stage ?b RTMP_CID_ProtocolControl header_new []"
    by (simp add: protocol_new_def stage_def chunk_of_def chunk_stream_new_def)
  have hp: "\<And>n. length (zero_heap n) = n" by (simp add: zero_heap_def)
  have v: "RTMP_MIN_CHUNK_SIZE \<le> sint (4096 :: i32)" "sint (4096 :: i32) = 4096" by code_simp+
  show ?thesis
    using chunk_size_negotiated [OF sent hp sizes(1) _ v(1) ready sizes(2) idle inp] v(2) by auto
qed

text \<open>
  C20: \<^verbatim>\<open>send_message\<close> of a packet puts exactly the chunks of its encoding on the wire: one chunk
  of type 0 with the full header, then chunks of type 3, each with at most \<^verbatim>\<open>out_chunk_size\<close>
  payload bytes. If the socket fails, the error is reported and what was sent is a prefix of these bytes.
\<close>

theorem packet_bytes_sent:
  assumes "sendable pkt" and "\<And>n. length (hp n) = n"
    and "out_chunk_size s = int n" and "0 < n"
    and "send_message hp (CommonMessage (packet_message pkt sid)) s = (r, s')"
  shows "protocol_sent s' = protocol_sent s @ concat (chunk_list n (packet_get_perfer_cid pkt)
        (msg_header (packet_message pkt sid)) [] (enc_packet pkt)) \<or>
    socket_failure r \<and> (\<exists>i. protocol_sent s' = protocol_sent s @ take i (concat (chunk_list n
        (packet_get_perfer_cid pkt) (msg_header (packet_message pkt sid)) [] (enc_packet pkt))))"
  using send_packet_out [OF assms] unfolding only_sent_def by (metis on_send_message_sent)

theorem packet_bytes_sent_witness:
  "\<exists>s'. send_message zero_heap (CommonMessage (packet_message new_OnBWDonePacket 0)) (protocol_new quiet_net) =
     (Inr (), s') \<and>
   protocol_sent s' = concat (chunk_list 128 3 (msg_header (packet_message new_OnBWDonePacket 0)) []
     (enc_packet new_OnBWDonePacket))"
proof -
  let ?m = "CommonMessage (packet_message new_OnBWDonePacket 0)" and ?s = "protocol_new quiet_net"
  let ?s' = "snd (send_message zero_heap ?m ?s)"
  have "fst (send_message zero_heap ?m ?s) = Inr ()" by code_simp
  then have run: "send_message zero_heap ?m ?s = (Inr (), ?s')" by (metis prod.collapse)
  have ok: "sendable new_OnBWDonePacket" "packet_get_perfer_cid new_OnBWDonePacket = 3"
    by (simp_all add: new_OnBWDonePacket_def)
  have hp: "\<And>n. length (zero_heap n) = n" by (simp add: zero_heap_def)
  have cs: "out_chunk_size ?s = int 128" "protocol_sent ?s = []"
    by (simp_all add: protocol_new_def socket_new_def quiet_net_def protocol_sent_def)
  show ?thesis
    using packet_bytes_sent [OF ok(1) hp cs(1) _ run] run cs(2) ok(2) by (auto simp: socket_failure_def)
qed

text \<open>
  C8: On every finite input \<^verbatim>\<open>recv_message\<close> returns, with a message or an error: its loop ends. The
  state invariant (chunk size at least 2, lengths of the messages under construction consistent
  with their buffers) is kept whatever the peer sends, also when the call fails, and a delivered message
  has consumed input.
\<close>

theorem recv_message_terminates:
  assumes "protocol_ok s" and "recv_message s = (r, s')"
  shows "r \<noteq> Inl OutOfFuel \<and> protocol_ok s' \<and> length (protocol_input s') \<le> length (protocol_input s) \<and>
   (\<forall>m. r = Inr m \<longrightarrow> length (protocol_input s') < length (protocol_input s))"
  using assms by (rule recv_message_safe)

theorem recv_message_terminates_witness:
  "\<exists>r s'. recv_message (protocol_new (net_delivering [[0x47, 1, 2, 3]])) = (r, s') \<and> r \<noteq> Inl OutOfFuel \<and> protocol_ok s'"
  using recv_message_terminates [OF protocol_ok_new] by (metis prod.collapse)

section \<open>Threads, sources and players\<close>

text \<open>A stream with one consumer; a thread that publishes on it and a thread that plays it.\<close>

abbreviation example_url :: string where "example_url \<equiv> ''/live/a''"

definition example_world :: rss_world where
  "example_world = snd (create_consumer example_url (snd (source_find example_url world_new)))"

definition example_publisher :: client_thread where
  "example_publisher = \<lparr>th_proto = protocol_new (net_delivering [[7, 0, 0, 27, 0, 0, 2, 8, 1, 0, 0, 0, 4, 5]]),
     th_phase = Publishing example_url, th_base = [], th_start = [], th_join = 0\<rparr>"

text \<open>The player's peer sends nothing for longer than the timeout.\<close>

definition silent_net :: st_net where
  "silent_net = quiet_net\<lparr>net_rd := [RdFail EAGAIN], net_poll := [PollTimeout]\<rparr>"

definition player_proto :: RssProtocol where
  "player_proto = (protocol_new silent_net)\<lparr>skt := (socket_new silent_net)\<lparr>recv_timeout := 100000\<rparr>\<rparr>"

definition example_player :: client_thread where
  "example_player = \<lparr>th_proto = player_proto, th_phase = Playing example_url 0 [], th_base = [],
     th_start = [], th_join = 0\<rparr>"

definition example_system :: rss_system where
  "example_system = \<lparr>sys_world = example_world, sys_threads = [example_publisher, example_player], sys_lost = [],
     sys_log = []\<rparr>"

lemma example_world_ok:
  "world_ok [] example_world" "queue example_world 0 = []" "0 \<in> members example_world example_url"
  "pool example_world example_url \<noteq> None" "cached_list example_world u = []"
proof -
  let ?w1 = "snd (source_find example_url world_new)"
  from source_find_ok [OF world_ok_new, of example_url] have
    w1: "world_ok [] ?w1" "pool ?w1 example_url \<noteq> None" "cached ?w1 = cached world_new" by auto
  have none: "cached world_new u = (None, None, None)" for u by (simp add: cached_def world_new_def)
  from create_consumer_ok [OF w1(1,2), of None None None] w1(3) none obtain c where
    c: "create_consumer example_url ?w1 = (Inr c, example_world)" "world_ok [] example_world" "queue example_world c = []"
      "c \<in> members example_world example_url" "cached example_world = cached world_new"
      "dom (pool example_world) = dom (pool ?w1)"
    by (fastforce simp: example_world_def opt_list_def)
  have "fst (create_consumer example_url ?w1) = Inr 0" by code_simp
  with c(1) have "c = 0" by simp
  with c none w1(2) show "world_ok [] example_world" "queue example_world 0 = []" "0 \<in> members example_world example_url"
    "pool example_world example_url \<noteq> None" "cached_list example_world u = []"
    by (auto simp: cached_list_def opt_list_def dom_def)
qed

lemma player_proto_ok: "session_ok player_proto" "protocol_sent player_proto = []" "out_chunk_size player_proto = 128"
  using session_ok_new [of silent_net]
  by (simp_all add: player_proto_def session_ok_def protocol_ok_def protocol_new_def protocol_sent_def silent_net_def
    quiet_net_def socket_new_def)

lemma example_system_ok: "sys_ok example_system"
  using example_world_ok player_proto_ok
  by (auto simp: sys_ok_def threads_ok_def example_system_def example_publisher_def example_player_def thread_ok_def
    plays_def session_ok_new due_def)

definition example_round :: "loop_next res \<times> client_io" where
  "example_round = publish_round zero_heap example_url 1 (th_proto example_publisher, example_world)"

definition example_audio :: IRssMessage where
  "example_audio = SharedPtrMessage \<lparr>message_type = 8, payload_length = 2, timestamp_delta = 27, stream_id = 1,
     timestamp = 27\<rparr> 2 (Some [4, 5]) 7"

definition example_after :: rss_system where
  "example_after = example_system\<lparr>sys_world := snd (snd example_round), sys_threads :=
     [example_publisher\<lparr>th_proto := fst (snd example_round), th_phase := Publishing example_url\<rparr>, example_player],
     sys_log := [(example_url, example_audio)]\<rparr>"

lemma example_round_result: "fst example_round = Inr Continue" by code_simp

lemma example_published: "next_published (th_proto example_publisher) = [example_audio]" by code_simp

lemma example_queue: "queue (sys_world example_after) 0 = [example_audio]" by code_simp

lemma example_step: "(sys_step zero_heap)\<^sup>*\<^sup>* example_system example_after"
proof -
  have "publish_round zero_heap example_url 1 (th_proto example_publisher, example_world) =
      (Inr Continue, (fst (snd example_round), snd (snd example_round)))"
    using example_round_result unfolding example_round_def by (metis prod.collapse)
  then have "publish_round zero_heap example_url RSS_DEFAULT_SID (th_proto example_publisher, example_world) =
      (Inr Continue, (fst (snd example_round), snd (snd example_round)))" by simp
  from thread_step.publish [where t = example_publisher and log = "[]", OF _ this] have
    "thread_step zero_heap (sys_log example_system) (sys_threads example_system ! 0, sys_world example_system)
      (example_publisher\<lparr>th_proto := fst (snd example_round), th_phase := Publishing example_url\<rparr>, snd (snd example_round))
      [(example_url, example_audio)] []"
    by (simp add: example_system_def example_published) (simp add: example_publisher_def)
  from sys_step.stepped [OF _ this] have "sys_step zero_heap example_system example_after"
    by (simp add: example_after_def example_system_def)
  then show ?thesis by (rule r_into_rtranclp)
qed

text \<open>
  C1: Threads publish and play in any interleaving. In every state that can be reached, what a playing client
  has been sent since it joined, the messages it is about to send and the messages in its queue are together, in this order, the
  messages that were cached when it joined followed by everything published on its stream since: nothing is lost,
  repeated, reordered or mixed up with another stream. The bytes on the wire are exactly the chunks of the sent messages.
\<close>

theorem players_receive_in_order:
  assumes "\<And>n. length (hp n) = n" and "sys_ok s0" and "(sys_step hp)\<^sup>*\<^sup>* s0 s"
    and "t \<in> set (sys_threads s)" and "th_phase t = Playing u c ms"
  shows "\<exists>done. protocol_sent (th_proto t) =
      th_base t @ concat (map (shared_wire (nat (out_chunk_size (th_proto t)))) done) \<and>
    done @ map (to_imsg (sys_world s)) ms @ queue (sys_world s) c = th_start t @ due u (drop (th_join t) (sys_log s))"
  using sys_steps_ok [where heap = hp, OF assms(1-3)] assms(4,5) plays_thread
  by (fastforce simp: sys_ok_def threads_ok_def plays_def)

theorem players_receive_in_order_witness:
  "\<exists>done. protocol_sent player_proto = concat (map (shared_wire 128) done) \<and>
     done @ queue (sys_world example_after) 0 = [example_audio]"
  using players_receive_in_order [OF zero_heap_length example_system_ok example_step, of example_player]
  by (simp add: example_after_def example_player_def due_def player_proto_ok(3))

text \<open>
  C3: In every state that can be reached, the reference count of every shared payload plus one is the number of
  message objects that refer to it, in the queues of consumers, in the caches of sources, in the hands of playing threads or lost
  by threads that failed; a payload that was freed is referred to by none. So no payload is used after it was freed, freed
  twice, or kept without an owner.
\<close>

theorem shared_payloads_counted:
  assumes "\<And>n. length (hp n) = n" and "sys_ok s0" and "(sys_step hp)\<^sup>*\<^sup>* s0 s"
  shows "int (holders a (concat (map (held_by \<circ> th_phase) (sys_threads s)) @ sys_lost s) (sys_world s)) =
    (case shared (sys_world s) a of None \<Rightarrow> 0 | Some sp \<Rightarrow> sp_shared_count sp + 1)"
  using sys_steps_ok [where heap = hp, OF assms] by (simp add: sys_ok_def threads_ok_def world_ok_def counted_def)

theorem shared_payloads_counted_witness:
  "int (holders 0 [] (sys_world example_after)) =
     (case shared (sys_world example_after) 0 of None \<Rightarrow> 0 | Some sp \<Rightarrow> sp_shared_count sp + 1)"
  using shared_payloads_counted [OF zero_heap_length example_system_ok example_step, of 0]
  by (simp add: example_after_def example_player_def example_publisher_def example_system_def)

text \<open>
  C4: What has been published reaches the players: from every state in which a playing thread is about to look after its
  queue, its peer has not gone (receiving times out or delivers a message) and its kernel accepts what it writes,
  the thread gets by steps of its own to a state in which everything that was cached when it joined and everything
  published since is on its connection.
\<close>

theorem published_reaches_players:
  assumes "\<And>n. length (hp n) = n" and "sys_ok s"
    and "k < length (sys_threads s)" and "th_phase (sys_threads s ! k) = Playing u c []"
    and "length (queue (sys_world s) c) < 2 ^ 31"
    and "play_fetch c (th_proto (sys_threads s ! k), sys_world s) = (Inr ms, (p, w'))" and "accepting p"
  shows "\<exists>s' t'. (sys_step hp)\<^sup>*\<^sup>* s s' \<and> sys_log s' = sys_log s \<and> k < length (sys_threads s') \<and>
    t' = sys_threads s' ! k \<and> same_session (sys_threads s ! k) t' \<and>
    protocol_sent (th_proto t') = th_base t' @ concat (map (shared_wire (nat (out_chunk_size (th_proto t'))))
      (th_start t' @ due u (drop (th_join t') (sys_log s))))"
  using assms by (rule published_reaches_client)

definition example_fetch :: "RssSharedPtrMessage list res \<times> client_io" where
  "example_fetch = play_fetch 0 (player_proto, sys_world example_after)"

theorem published_reaches_players_witness:
  "\<exists>s' t'. (sys_step zero_heap)\<^sup>*\<^sup>* example_after s' \<and> t' = sys_threads s' ! 1 \<and>
    protocol_sent (th_proto t') = shared_wire (nat (out_chunk_size (th_proto t'))) example_audio"
proof -
  have ok: "sys_ok example_after" by (rule sys_steps_ok [OF zero_heap_length example_system_ok example_step])
  have t: "1 < length (sys_threads example_after)" "sys_threads example_after ! 1 = example_player"
    "sys_log example_after = [(example_url, example_audio)]" by (simp_all add: example_after_def)
  have f: "case fst example_fetch of Inr _ \<Rightarrow> True | Inl _ \<Rightarrow> False" "accepting (fst (snd example_fetch))" by code_simp+
  then obtain ms where "fst example_fetch = Inr ms" by (auto split: sum.splits)
  then have fetch: "play_fetch 0 (th_proto (sys_threads example_after ! 1), sys_world example_after) =
      (Inr ms, (fst (snd example_fetch), snd (snd example_fetch)))"
    unfolding t(2) example_fetch_def by (simp add: example_player_def prod_eq_iff)
  have q: "length (queue (sys_world example_after) 0) < 2 ^ 31" by (simp add: example_queue)
  have ph: "th_phase (sys_threads example_after ! 1) = Playing example_url 0 []"
    unfolding t(2) by (simp add: example_player_def)
  from published_reaches_players [OF zero_heap_length ok t(1) ph q fetch f(2)] obtain s' where
    "(sys_step zero_heap)\<^sup>*\<^sup>* example_after s'" "same_session example_player (sys_threads s' ! 1)"
    "protocol_sent (th_proto (sys_threads s' ! 1)) = th_base (sys_threads s' ! 1) @
       concat (map (shared_wire (nat (out_chunk_size (th_proto (sys_threads s' ! 1)))))
        (th_start (sys_threads s' ! 1) @ due example_url (drop (th_join (sys_threads s' ! 1)) (sys_log example_after))))"
    unfolding t(2) by blast
  then show ?thesis unfolding t(3) by (auto simp: same_session_def example_player_def due_def)
qed

text \<open>
  C11: The publishing loop of a client returns on every finite input, whatever the other threads do to \<^verbatim>\<open>errno\<close>
  and the sources whenever the loop lets them run, as long as they keep the sources sound. It is a run over the messages that
  \<^verbatim>\<open>recv_message\<close> delivers one after the other: behind every switch the next message is received and the consumers of the stream get
  exactly what it stands for, an audio or video message itself, a metadata message re-encoded with the server's name. The run ends with the
  error of a failed receive, which is the result, or behind the first message that cannot be decoded or asks to unpublish.
  When the other threads leave the sources alone, every queue has grown by exactly what was received, in order.
\<close>

theorem publishing_ends_in_order:
  assumes "\<And>n. length (hp n) = n" and "world_ok E w" and "pool w u \<noteq> None" and "session_ok p" and "others_ok u oth"
    and "streaming_publish oth hp u sid (p, w) = (r, (p', w'))"
  shows "r \<noteq> Inl OutOfFuel \<and> session_ok p' \<and> (\<exists>ms. publishing_run oth u ms (p, w) r (p', w') \<and>
    ((\<forall>k x. snd (oth k x) = snd x) \<longrightarrow> world_ok E w' \<and>
      (\<forall>c. queue w' c = queue w c @ (if c \<in> members w u then concat (map published ms) else []))))"
proof -
  have "publish_loop (length (protocol_input p) + 1) oth hp u sid (p, w) = (r, (p', w'))"
    using assms(6) by (simp add: streaming_publish_def)
  from publish_loop_ok [where heap = hp, OF assms(1) _ assms(3-5) _ this] assms(2) obtain ms where
    ms: "r \<noteq> Inl OutOfFuel" "session_ok p'" "publishing_run oth u ms (p, w) r (p', w')" by auto
  with publishing_run_alone [of oth E "(p, w)" u ms r "(p', w')"] assms(2) show ?thesis
    unfolding publishes_def by auto
qed

theorem publishing_ends_in_order_witness:
  "\<exists>r p' w' ms. streaming_publish (\<lambda>_ x. x) zero_heap example_url 1 (th_proto example_publisher, example_world) = (r, (p', w')) \<and>
     r \<noteq> Inl OutOfFuel \<and> publishing_run (\<lambda>_ x. x) example_url ms (th_proto example_publisher, example_world) r (p', w') \<and>
     concat (map published ms) = [example_audio] \<and> queue w' 0 = [example_audio]"
proof -
  let ?run = "streaming_publish (\<lambda>_ x. x) zero_heap example_url 1 (th_proto example_publisher, example_world)"
  obtain r p' w' where run: "?run = (r, (p', w'))" by (rule prod_cases3)
  have "session_ok (th_proto example_publisher)" by (simp add: example_publisher_def session_ok_new)
  moreover have "others_ok example_url (\<lambda>_ x. x)" by (simp add: others_ok_def)
  moreover have "queue (snd (snd ?run)) 0 = [example_audio]" by code_simp
  ultimately show ?thesis
    using publishing_ends_in_order [OF zero_heap_length example_world_ok(1,4) _ _ run] run example_world_ok(2,3) by auto
qed

text \<open>
  C12: A round of the play loop that succeeds sends everything the consumer had queued, in order and byte for byte, and
  leaves the queue empty. Other consumers, the members and caches of the streams and the reference counts are not affected.
\<close>

theorem play_round_sends_queue:
  assumes "world_ok E w" and "consumer_at w c \<noteq> None" and "length (queue w c) < 2 ^ 31"
    and "list_all playable (queue w c)" and "session_ok p"
    and "play_round hp c (p, w) = (Inr (), (p', w'))"
  shows "world_ok E w' \<and> session_ok p' \<and> queue w' = (queue w)(c := []) \<and> members w' = members w \<and>
    cached w' = cached w \<and> (\<exists>d p1. recv_message p = (d, p1) \<and>
      only_sent p1 p' (concat (map (shared_wire (nat (out_chunk_size p))) (queue w c))))"
  using assms by (rule play_round_ok)

theorem play_round_sends_queue_witness:
  "\<exists>p' w'. play_round zero_heap 0 (player_proto, sys_world example_after) = (Inr (), (p', w')) \<and> queue w' 0 = []"
proof -
  let ?w = "sys_world example_after"
  have ok: "sys_ok example_after" by (rule sys_steps_ok [OF zero_heap_length example_system_ok example_step])
  have w: "world_ok [] ?w" "consumer_at ?w 0 \<noteq> None"
    using sys_ok_at [OF ok, of 1] member_consumer [of 0 ?w example_url]
    by (simp_all add: threads_ok_def example_after_def example_player_def example_publisher_def example_system_def
      thread_ok_def plays_def)
  have q: "length (queue ?w 0) < 2 ^ 31" "list_all playable (queue ?w 0)"
    by (simp_all add: example_queue example_audio_def)
  have "fst (play_round zero_heap 0 (player_proto, ?w)) = Inr ()" by code_simp
  then obtain p' w' where run: "play_round zero_heap 0 (player_proto, ?w) = (Inr (), (p', w'))" by (metis prod.collapse)
  from play_round_sends_queue [OF w q player_proto_ok(1) run] run show ?thesis by auto
qed

text \<open>
  C25: A video message a publisher sends is appended to the queue of every consumer of the stream and to no other; the first one is
  cached for consumers that come later. All consumers share the one payload, which the received message gives up. The reference counts are right
  afterwards.
\<close>

theorem video_broadcast:
  assumes "world_ok E w" and "pool w u \<noteq> None" and "cached w u = (md, vid, aud)"
  shows "\<exists>w'. on_video u msg w = (Inr (detach msg), w') \<and> world_ok E w' \<and>
    (\<forall>c. queue w' c = queue w c @ (if c \<in> members w u then [media_image msg] else [])) \<and>
    cached w' u = (md, case vid of None \<Rightarrow> Some (media_image msg) | Some x \<Rightarrow> Some x, aud) \<and>
    (\<forall>v. v \<noteq> u \<longrightarrow> cached w' v = cached w v)"
  using on_video_ok [OF assms, of msg] unfolding broadcasts_def by blast

theorem video_broadcast_witness:
  "\<exists>w'. on_video example_url common_message_new example_world = (Inr (detach common_message_new), w') \<and>
    queue w' 0 = [media_image common_message_new]"
proof -
  obtain md vid aud where "cached example_world example_url = (md, vid, aud)" by (metis prod_cases3)
  from video_broadcast [OF example_world_ok(1,4) this, of common_message_new] example_world_ok(2,3) show ?thesis by auto
qed

text \<open>
  Metadata is re-encoded with the server's name added, appended to the queues of the stream's consumers, and replaces the cached
  metadata, whose payload is released. It is sent as a message of the same header.
\<close>

theorem metadata_broadcast:
  assumes "world_ok E w" and "pool w u \<noteq> None" and "cached w u = (md, vid, aud)"
    and "sendable (metadata_packet name metadata)" and "\<And>n. length (hp n) = n"
    and "bs = enc_packet (metadata_packet name metadata)"
  shows "\<exists>w'. on_meta_data hp u h name metadata w = (Inr (), w') \<and> world_ok E w' \<and>
    (\<forall>c. queue w' c = queue w c @ (if c \<in> members w u then [shared_image h (Some bs) (int (length bs))] else [])) \<and>
    cached w' u = (Some (shared_image h (Some bs) (int (length bs))), vid, aud) \<and>
    (\<forall>v. v \<noteq> u \<longrightarrow> cached w' v = cached w v)"
  using on_meta_data_ok [where heap = hp, OF assms(1-5), of h] unfolding assms(6) broadcasts_def by blast

theorem metadata_broadcast_witness:
  "\<exists>w'. on_meta_data zero_heap example_url header_new ''onMetaData'' [(''width'', RssAmf0Number 0)] example_world = (Inr (), w') \<and>
    length (queue w' 0) = 1"
proof -
  obtain md vid aud where c: "cached example_world example_url = (md, vid, aud)" by (metis prod_cases3)
  have "sendable (metadata_packet ''onMetaData'' [(''width'', RssAmf0Number 0)])" by (simp add: ht_set_def)
  from metadata_broadcast [OF example_world_ok(1,4) c this zero_heap_length refl, of header_new] example_world_ok(2,3)
  show ?thesis by fastforce
qed

text \<open>
  A new consumer starts with the cached metadata, video and audio messages of its stream, in this order and as far as there are any; it
  is a member of this stream only, and nobody else's queue changes.
\<close>

theorem new_consumer_gets_caches:
  assumes "world_ok E w" and "pool w u \<noteq> None" and "cached w u = (md, vid, aud)"
  shows "\<exists>c w'. create_consumer u w = (Inr c, w') \<and> world_ok E w' \<and> consumer_at w c = None \<and>
    queue w' c = opt_list md @ opt_list vid @ opt_list aud \<and> (\<forall>d. d \<noteq> c \<longrightarrow> queue w' d = queue w d) \<and>
    members w' = (members w)(u := insert c (members w u)) \<and> cached w' = cached w"
  using create_consumer_ok [OF assms] by blast

theorem new_consumer_gets_caches_witness:
  "\<exists>c w'. create_consumer example_url example_world = (Inr c, w') \<and> queue w' c = [] \<and> c \<in> members w' example_url"
proof -
  obtain md vid aud where c: "cached example_world example_url = (md, vid, aud)" by (metis prod_cases3)
  then have "opt_list md @ opt_list vid @ opt_list aud = []"
    using example_world_ok(5) [of example_url] by (simp add: cached_list_def)
  with new_consumer_gets_caches [OF example_world_ok(1,4) c] show ?thesis by auto
qed

text \<open>
  \<^verbatim>\<open>get_packets\<close> hands over the front of the queue, at most \<^verbatim>\<open>max_count\<close> messages or all for 0, in order, and keeps the
  rest queued. The messages change hands without their payloads being copied or their counts touched.
\<close>

theorem fetched_in_order:
  assumes "world_ok E w" and "consumer_at w c \<noteq> None" and "0 \<le> max_count" and "length (queue w c) < 2 ^ 31"
    and "n = (if max_count = 0 then length (queue w c) else nat max_count)"
  shows "\<exists>ms w'. get_packets c max_count w = (Inr ms, w') \<and> world_ok (ms @ E) w' \<and>
    map (to_imsg w') ms = take n (queue w c) \<and> queue w' c = drop n (queue w c) \<and>
    (\<forall>d. d \<noteq> c \<longrightarrow> queue w' d = queue w d)"
  using get_packets_ok [OF assms(1-4)] unfolding assms(5) by blast

theorem fetched_in_order_witness:
  "\<exists>ms w'. get_packets 0 3 example_world = (Inr ms, w') \<and> map (to_imsg w') ms = []"
  using fetched_in_order [OF example_world_ok(1) member_consumer [OF example_world_ok(3)], of 3 3] example_world_ok(2)
  by auto

text \<open>
  C26: Destroying a consumer releases the messages it still had queued and removes it from its stream; the other queues,
  the caches and messages held elsewhere are as before.
\<close>

theorem leaving_consumer_releases:
  assumes "world_ok E w" and "consumer_at w c \<noteq> None"
  shows "\<exists>w'. consumer_destroy c w = (Inr (), w') \<and> world_ok E w' \<and> consumer_at w' c = None \<and>
    (\<forall>d. d \<noteq> c \<longrightarrow> queue w' d = queue w d) \<and> (\<forall>v. members w' v = members w v - {c}) \<and> cached w' = cached w \<and>
    map (to_imsg w') E = map (to_imsg w) E"
  using consumer_destroy_ok [OF assms] by blast

theorem leaving_consumer_releases_witness:
  "\<exists>w'. consumer_destroy 0 example_world = (Inr (), w') \<and> 0 \<notin> members w' example_url"
  using leaving_consumer_releases [OF example_world_ok(1) member_consumer [OF example_world_ok(3)]] by auto

text \<open>
  C37: When a player has closed its connection, with nothing left to read and nothing queued for it after any of the
  switches, the play loop notices only by \<^verbatim>\<open>errno\<close>, which a read at the end of the input does not set: as long as \<^verbatim>\<open>errno\<close> is
  \<^verbatim>\<open>ETIME\<close> from an earlier timeout after every switch to the other threads, however many rounds that are, the loop goes on; it ends,
  with \<^verbatim>\<open>ERROR_SOCKET_READ\<close>, in the first round in which another thread has left something else there.
\<close>

theorem closed_player_seen_by_errno:
  assumes "net_rd (stfd (skt p)) = []" and "buf_data (buffer p) = []"
    and "\<And>k. k < n \<Longrightarrow> \<exists>con. consumer_at (snd (after_switches oth (Suc k) (net_errno (stfd (skt p)), w))) c = Some con \<and>
      con_msgs con = []"
  shows "fst (play_loop n oth hp c (p, w)) =
    Inl (if \<forall>k < n. fst (after_switches oth (Suc k) (net_errno (stfd (skt p)), w)) = ETIME
         then OutOfFuel else Code ERROR_SOCKET_READ)"
  using assms by (rule play_loop_closed)

text \<open>Threads of which one makes a call that fails with \<^verbatim>\<open>EAGAIN\<close> in the switch of a given round.\<close>

definition errno_lost_in :: "nat \<Rightarrow> nat \<Rightarrow> st_others" where
  "errno_lost_in m k x = (if k = m then (EAGAIN, snd x) else x)"

lemma after_errno_lost:
  "k \<le> m \<Longrightarrow> after_switches (errno_lost_in m) k x = x"
  "m < k \<Longrightarrow> after_switches (errno_lost_in m) k x = (EAGAIN, snd x)"
proof -
  have same: "(\<And>j x. j < k \<Longrightarrow> f j x = x) \<Longrightarrow> after_switches f k x = x" for f and k :: nat and x
    by (induction k arbitrary: f) simp_all
  show "k \<le> m \<Longrightarrow> after_switches (errno_lost_in m) k x = x"
    by (rule same) (simp add: errno_lost_in_def)
  have later: "later (errno_lost_in (Suc m)) = errno_lost_in m" for m
    by (simp add: errno_lost_in_def fun_eq_iff)
  show "m < k \<Longrightarrow> after_switches (errno_lost_in m) k x = (EAGAIN, snd x)"
  proof (induction k arbitrary: m x)
    case (Suc k)
    show ?case
    proof (cases m)
      case 0
      have "after_switches (\<lambda>_ y. y) k y = y" for y by (rule same) simp
      with 0 show ?thesis by (simp add: errno_lost_in_def)
    next
      case (Suc m')
      then have "after_switches (errno_lost_in m) (Suc k) x = after_switches (errno_lost_in m') k x"
        by (simp add: later) (simp add: errno_lost_in_def)
      with Suc Suc.IH [of m' x] Suc.prems show ?thesis by simp
    qed
  qed simp
qed

theorem closed_player_seen_by_errno_witness:
  "fst (play_loop 1000 (errno_lost_in 1000) zero_heap 0 (protocol_new (quiet_net\<lparr>net_errno := ETIME\<rparr>), example_world)) =
     Inl OutOfFuel \<and>
   fst (play_loop 1001 (errno_lost_in 1000) zero_heap 0 (protocol_new (quiet_net\<lparr>net_errno := ETIME\<rparr>), example_world)) =
     Inl (Code ERROR_SOCKET_READ)"
proof -
  let ?p = "protocol_new (quiet_net\<lparr>net_errno := ETIME\<rparr>)" and ?o = "errno_lost_in 1000"
  have p: "net_rd (stfd (skt ?p)) = []" "buf_data (buffer ?p) = []" and e: "net_errno (stfd (skt ?p)) = ETIME"
    by (simp_all add: protocol_new_def quiet_net_def socket_new_def buffer_new_def)
  from member_consumer [OF example_world_ok(3)] obtain con where con: "consumer_at example_world 0 = Some con" by blast
  then have "con_msgs con = []" using example_world_ok(2) by (simp add: queue_def)
  with con have idle: "\<exists>con. consumer_at (snd (after_switches ?o (Suc k) (x, example_world))) 0 = Some con \<and> con_msgs con = []" for k x
    using after_errno_lost [of "Suc k" 1000 "(x, example_world)"] after_errno_lost(2) [of 1000 "Suc k" "(x, example_world)"]
    by (cases "Suc k \<le> 1000") simp_all
  have "\<forall>k < 1000. fst (after_switches ?o (Suc k) (ETIME, example_world)) = ETIME"
    by (simp add: after_errno_lost(1) del: after_switches.simps)
  moreover have "\<not> (\<forall>k < 1001. fst (after_switches ?o (Suc k) (ETIME, example_world)) = ETIME)"
    using after_errno_lost(2) [of 1000 "Suc 1000" "(ETIME, example_world)"] by (auto simp del: after_switches.simps intro!: exI [of _ 1000])
  ultimately show ?thesis
    using closed_player_seen_by_errno [OF p idle, of 1000 zero_heap] closed_player_seen_by_errno [OF p idle, of 1001 zero_heap]
    unfolding e by simp
qed

section \<open>Commands\<close>

text \<open>
  C27: The plain handshake with a client that sends at least 3073 bytes, in any segments, on a connection where reads and
  writes are only refused to be retried and waits end with the descriptor ready. When the first byte is version 3, the
  handshake succeeds: the server reads exactly 3073 bytes, answers with 3073 bytes that start with version 3, and leaves what follows for
  the protocol. With any other first byte it refuses with \<^verbatim>\<open>ERROR_RTMP_PLAIN_REQUIRED\<close> and answers nothing.
\<close>

theorem handshake_completes:
  assumes "net_fair (stfd (skt s))" and "net_takes (stfd (skt s))" and "3073 \<le> length (sock_in (skt s))"
    and "length (hp 3073) = 3073" and "handshake hp s = (r, s')"
  shows "if sock_in (skt s) ! 0 = 0x03
    then r = Inr () \<and> sock_in (skt s') = drop 3073 (sock_in (skt s)) \<and>
      sock_sent (skt s') = sock_sent (skt s) @ (hp 3073)[0 := 0x03] \<and> net_fair (stfd (skt s'))
    else r = Inl (Code ERROR_RTMP_PLAIN_REQUIRED) \<and> sock_sent (skt s') = sock_sent (skt s)"
  using handshake_ok [OF assms(1-3) _ assms(4,5)] handshake_refused [of s hp] assms(1,3,5) by auto

theorem handshake_completes_witness:
  "\<exists>s'. handshake zero_heap (protocol_new (net_delivering [3 # replicate 1000 7, replicate 2072 0, [1, 2]])) = (Inr (), s') \<and>
     sock_in (skt s') = [1, 2] \<and> sock_sent (skt s') = 3 # replicate 3072 0"
proof -
  let ?s = "protocol_new (net_delivering [3 # replicate 1000 7, replicate 2072 0, [1, 2]])"
  have i: "sock_in (skt ?s) = 3 # replicate 1000 7 @ replicate 2072 0 @ [1, 2]" "net_fair (stfd (skt ?s))"
    "net_takes (stfd (skt ?s))" "sock_sent (skt ?s) = []"
    by (simp_all add: protocol_new_def socket_new_def net_delivering_def quiet_net_def net_in_def net_fair_def net_takes_def)
  have "replicate 3073 (0 :: byte) = replicate (Suc 3072) 0" by simp
  then have z: "(zero_heap 3073)[0 := 3] = 3 # replicate 3072 (0 :: byte)"
    unfolding zero_heap_def by (simp only: replicate_Suc list_update.simps nat.case)
  obtain r s' where run: "handshake zero_heap ?s = (r, s')" by fastforce
  have "length (zero_heap 3073) = 3073" by (rule zero_heap_length)
  from handshake_completes [OF i(2,3) _ this run] i(1,4) run z show ?thesis by auto
qed

text \<open>
  The connect URL \<^verbatim>\<open>schema://host:port/app\<close> is taken apart into its four parts, whatever they are, as long as
  schema and host contain no colon and host and port no slash.
\<close>

theorem tcurl_parsed:
  assumes "CHR '':'' \<notin> set sch" and "CHR ''/'' \<notin> set host" and "CHR '':'' \<notin> set host" and "CHR ''/'' \<notin> set prt"
    and "sch \<noteq> []" and "host \<noteq> []" and "prt \<noteq> []" and "ap \<noteq> []"
  shows "discovery_app (req\<lparr>tcUrl := sch @ ''://'' @ host @ '':'' @ prt @ ''/'' @ ap\<rparr>) =
    (Inr (), req\<lparr>tcUrl := sch @ ''://'' @ host @ '':'' @ prt @ ''/'' @ ap, schema := sch, vhost := host,
       port := prt, app := ap\<rparr>)"
  using assms by (rule discovery_app_port)

theorem tcurl_parsed_witness:
  "fst (discovery_app (request_new\<lparr>tcUrl := ''rtmp://demo.org:1936/live''\<rparr>)) = Inr ()"
  using tcurl_parsed [of "''rtmp''" "''demo.org''" "''1936''" "''live''" request_new] by simp

text \<open>
  The answer to a play request is, byte for byte, the chunks of the five packets stream begin, reset, start, sample access and
  data start; if the socket fails, a prefix of them was sent and the error is reported.
\<close>

theorem play_answer_exact:
  assumes "\<And>n. length (hp n) = n" and "out_chunk_size s = int n" and "0 < n" and "start_play hp sid s = (r, s')"
  shows "r = Inr () \<and> only_sent s s' (concat (map (packet_wire n) (start_play_packets sid))) \<or>
    socket_failure r \<and> (\<exists>i. only_sent s s' (take i (concat (map (packet_wire n) (start_play_packets sid)))))"
  using send_packets_out [where heap = hp, OF assms(1,3) start_play_responses assms(2)] assms(4)
  by (simp add: start_play_def)

theorem play_answer_exact_witness:
  "\<exists>r s'. start_play zero_heap 1 (protocol_new quiet_net) = (r, s') \<and>
     (r = Inr () \<and> protocol_sent s' = concat (map (packet_wire 128) (start_play_packets 1)) \<or> socket_failure r)"
proof -
  obtain r s' where run: "start_play zero_heap 1 (protocol_new quiet_net) = (r, s')" by fastforce
  have s: "out_chunk_size (protocol_new quiet_net) = int 128" "protocol_sent (protocol_new quiet_net) = []"
    by (simp_all add: protocol_new_def protocol_sent_def socket_new_def quiet_net_def)
  from play_answer_exact [OF zero_heap_length s(1) _ run] run s(2) show ?thesis by (auto simp: only_sent_def)
qed

text \<open>
  Connecting a client, from the handshake through the connect command and the identification of what it wants to
  the change of the chunk size, comes to an end on every finite input, and the protocol is in a proper state afterwards.
\<close>

theorem connecting_ends:
  assumes "\<And>n. length (hp n) = n" and "session_ok s" and "connect_client hp peer s = (r, s')"
  shows "r \<noteq> Inl OutOfFuel \<and> session_ok s' \<and> length (protocol_input s') \<le> length (protocol_input s)"
  using exchange_connect_client [where heap = hp, OF assms(1)] assms(2,3) unfolding exchange_def by blast

theorem connecting_ends_witness:
  "\<exists>r s'. connect_client zero_heap (PeerIp ''10.0.0.1'') (protocol_new quiet_net) = (r, s') \<and> r \<noteq> Inl OutOfFuel"
  using connecting_ends [OF zero_heap_length session_ok_new] by (metis prod.collapse)

section \<open>Packets and messages\<close>

text \<open>
  C24: Decoding a received message of any type, with any payload, returns an error code or stores a packet in the message; it
  never aborts, reads outside the payload or fails to return.
\<close>

theorem decode_never_aborts:
  assumes "msg_payload msg = Some bs" and "0 < msg_size msg" and "msg_size msg \<le> int (length bs)"
    and "common_decode_packet msg = (r, msg')"
  shows "(\<exists>c. r = Inl (Code c)) \<and> msg' = msg \<or> (\<exists>pkt. r = Inr () \<and> msg' = msg\<lparr>msg_packet := Some pkt\<rparr>)"
  using assms by (rule common_decode_packet_safe)

theorem decode_never_aborts_witness:
  "\<exists>r msg'. common_decode_packet (common_message_new\<lparr>msg_header := header_new\<lparr>message_type := 20\<rparr>, msg_payload := Some [2, 0, 9, 99],
     msg_size := 4\<rparr>) = (r, msg') \<and> ((\<exists>c. r = Inl (Code c)) \<or> r = Inr ())"
proof -
  let ?m = "common_message_new\<lparr>msg_header := header_new\<lparr>message_type := 20\<rparr>, msg_payload := Some [2, 0, 9, 99], msg_size := 4\<rparr>"
  obtain r m where run: "common_decode_packet ?m = (r, m)" by fastforce
  from decode_never_aborts [OF _ _ _ run] run show ?thesis by auto
qed

text \<open>
  C31: Every message \<^verbatim>\<open>recv_message\<close> delivers has a payload array, a positive size, and at least as many bytes as
  its size says, and only control messages have been decoded.
\<close>

theorem received_messages_well_formed:
  assumes "session_ok s" and "recv_message s = (Inr m, s')"
  shows "has_payload m \<and> undecoded m \<and> session_ok s'"
  using rx.recv_good [OF assms] rx.recv_inv [OF assms] by blast

theorem received_messages_well_formed_witness:
  "\<exists>m s'. recv_message (th_proto example_publisher) = (Inr m, s') \<and> has_payload m"
proof -
  have ok: "session_ok (th_proto example_publisher)" by (simp add: example_publisher_def session_ok_new)
  have "case fst (recv_message (th_proto example_publisher)) of Inr _ \<Rightarrow> True | Inl _ \<Rightarrow> False" by code_simp
  then obtain m s' where run: "recv_message (th_proto example_publisher) = (Inr m, s')"
    by (metis prod.collapse sum.case_eq_if sum.collapse)
  from received_messages_well_formed [OF ok run] run show ?thesis by blast
qed

text \<open>
  C28: Encoding a packet allocates exactly the announced size and fills it with the reference encoding of its fields, for every
  packet the server sends. The packets that only clients send are refused with \<^verbatim>\<open>ERROR_SYSTEM_PACKET_INVALID\<close>.
\<close>

theorem packet_encoding_exact:
  assumes "\<And>n. length (hp n) = n"
  shows "(sendable pkt \<longrightarrow> packet_encode hp pkt = Inr (int (length (enc_packet pkt)), Some (enc_packet pkt)) \<and>
      packet_get_size pkt = int (length (enc_packet pkt))) \<and>
    (is_connect pkt \<or> is_create_stream pkt \<or> is_fmle_start pkt \<or> is_publish pkt \<or> is_play pkt \<longrightarrow>
      packet_encode hp pkt = Inl (Code ERROR_SYSTEM_PACKET_INVALID))"
proof -
  have "packet_encode hp pkt = Inl (Code ERROR_SYSTEM_PACKET_INVALID)"
    if "is_connect pkt \<or> is_create_stream pkt \<or> is_fmle_start pkt \<or> is_publish pkt \<or> is_play pkt"
    using packet_encode_refused [of pkt hp] that by (cases pkt) auto
  with packet_encode_enc [where heap = hp, OF _ assms] packet_size_enc show ?thesis by blast
qed

theorem packet_encoding_exact_witness:
  "packet_encode zero_heap (RssSetChunkSizePacket 4096) = Inr (4, Some [0, 0, 16, 0])"
proof -
  have "enc_packet (RssSetChunkSizePacket 4096) = [0, 0, 16, 0]" by code_simp
  then show ?thesis using packet_encoding_exact [OF zero_heap_length, of "RssSetChunkSizePacket 4096"] by simp
qed

text \<open>
  Metadata that was encoded is decoded to the same packet, with the cursor behind it.
\<close>

theorem metadata_roundtrip:
  assumes "length name < 2 ^ 15" and "name \<noteq> []" and "name \<noteq> RTMP_AMF0_DATA_SET_DATAFRAME"
    and "readable (RssAmf0Object metadata)" and "\<And>n. length (hp n) = n"
  shows "\<exists>bs. packet_encode hp (RssOnMetaDataPacket name metadata) = Inr (int (length bs), Some bs) \<and>
    decode_OnMetaDataPacket (strm [] (bs @ rest)) = (Inr (RssOnMetaDataPacket name metadata), strm bs rest)"
proof -
  have "sendable (RssOnMetaDataPacket name metadata)"
    using assms(1) readable_writable(1) [OF assms(4)] by (simp add: writable_object_iff)
  from packet_encode_enc [where heap = hp, OF this assms(5)] decode_OnMetaData_enc [OF assms(1-4), of "[]" rest]
  show ?thesis by auto
qed

theorem metadata_roundtrip_witness:
  "\<exists>bs. packet_encode zero_heap (RssOnMetaDataPacket ''onMetaData'' [(''stereo'', RssAmf0Boolean True)]) =
      Inr (int (length bs), Some bs) \<and>
    decode_OnMetaDataPacket (strm [] (bs @ [9])) =
      (Inr (RssOnMetaDataPacket ''onMetaData'' [(''stereo'', RssAmf0Boolean True)]), strm bs [9])"
  using metadata_roundtrip [OF _ _ _ _ zero_heap_length, of "''onMetaData''" "[(''stereo'', RssAmf0Boolean True)]" "[9]"]
  by (simp add: ht_ok_def)

section \<open>Sockets and buffers\<close>

text \<open>
  \<^verbatim>\<open>st_read_fully\<close> on a descriptor on which nothing goes wrong returns exactly the next \<open>n\<close> bytes of
  the stream, however the kernel cuts them up and however often it asks to retry.
\<close>

theorem read_fully_exact:
  assumes "net_fair net" and "0 < n" and "n \<le> length (net_in net)"
  shows "\<exists>net'. st_read_fully n t net = (Some (take n (net_in net)), net') \<and>
    net_in net' = drop n (net_in net) \<and> net_fair net'"
  using assms by (rule st_read_fully_exact)

theorem read_fully_exact_witness:
  "\<exists>net'. st_read_fully 3 (-1) (quiet_net\<lparr>net_rd := [RdFail EINTR, RdBytes [1], RdFail EAGAIN, RdBytes [2, 3, 4]]\<rparr>) =
     (Some [1, 2, 3], net') \<and> net_in net' = [4]"
  using read_fully_exact [of "quiet_net\<lparr>net_rd := [RdFail EINTR, RdBytes [1], RdFail EAGAIN, RdBytes [2, 3, 4]]\<rparr>" 3 "-1"]
  by (auto simp: net_fair_def net_in_def quiet_net_def numeral_3_eq_3)

text \<open>
  C32: \<^verbatim>\<open>st_writev\<close>, which resumes a partial write by recomputing its vector, has the effect of one write of the
  concatenated vectors: on success exactly these bytes were accepted, on failure a prefix of them, and the input is not touched.
\<close>

theorem writev_sends_all:
  assumes "st_writev alloc iov t net = (r, net')"
  shows "(case r of Some n \<Rightarrow> n = length (concat iov) \<and> net_sent net' = net_sent net @ concat iov
          | None \<Rightarrow> \<exists>k. net_sent net' = net_sent net @ take k (concat iov)) \<and> net_rd net' = net_rd net"
  using assms by (rule st_writev_sent)

theorem writev_sends_all_witness:
  "\<exists>net'. st_writev True [[1, 2], [], [3, 4, 5]] (-1) (quiet_net\<lparr>net_wr := [WrCount 3, WrFail EINTR]\<rparr>) = (Some 5, net') \<and>
     net_sent net' = [1, 2, 3, 4, 5]"
proof -
  let ?net = "quiet_net\<lparr>net_wr := [WrCount 3, WrFail EINTR]\<rparr>"
  have "fst (st_writev True [[1, 2], [], [3, 4, 5]] (-1) ?net) = Some 5" by code_simp
  then obtain net' where run: "st_writev True [[1, 2], [], [3, 4, 5]] (-1) ?net = (Some 5, net')" by (metis prod.collapse)
  from writev_sends_all [OF run] run show ?thesis by (simp add: quiet_net_def)
qed

text \<open>
  C30: The receive buffer is a view of the front of the byte stream: after \<^verbatim>\<open>ensure_buffer_bytes\<close> for \<open>n\<close> bytes has succeeded,
  the first \<open>n\<close> bytes in the buffer are the next \<open>n\<close> bytes of the stream, and erasing them advances the stream by
  exactly these; a failure leaves the stream as it was.
\<close>

theorem buffer_is_stream_front:
  assumes "ensure_buffer_bytes n s = (r, s')"
  shows "io_stream s' = io_stream s \<and>
    (r = Inr () \<longrightarrow> (\<exists>s''. buffer_erase n s' = (Inr (), s'') \<and>
       io_stream s = take (nat n) (buf_data (fst s')) @ io_stream s''))"
  using io.fill_view [OF assms] io.fill_erase [of n s "()" s'] assms by blast

theorem buffer_is_stream_front_witness:
  "\<exists>r s'. ensure_buffer_bytes 2 (buffer_new, socket_new (net_delivering [[1], [2, 3]])) = (r, s') \<and> io_stream s' = [1, 2, 3]"
proof -
  obtain r s' where run: "ensure_buffer_bytes 2 (buffer_new, socket_new (net_delivering [[1], [2, 3]])) = (r, s')"
    by (metis surj_pair)
  from buffer_is_stream_front [OF run] run show ?thesis
    by (auto simp: io_stream_def buffer_new_def socket_new_def net_delivering_def quiet_net_def net_in_def)
qed

section \<open>The server\<close>

text \<open>
  C33: While clients come and go, the server's list holds exactly the live connections, each once, and every descriptor it accepted belongs to a live
  connection or has been closed exactly once.
\<close>

theorem descriptors_accounted:
  assumes "server_run server_new fds s"
  shows "distinct (conns s) \<and> set (conns s) = dom (conn_at s) \<and> mset (open_fds s) + mset (closed_fds s) = mset fds"
  using server_run_ok [OF assms server_ok_new] by (simp add: server_ok_def open_fds_def server_new_def)

lemma example_server_run:
  "server_run server_new [5] (snd (listen_round (AcceptClient 5 created) server_new))"
proof -
  have "listen_round (AcceptClient 5 created) server_new =
      (Inr (), snd (listen_round (AcceptClient 5 created) server_new))"
    by (cases created) (simp_all add: accept_client_def server_new_def conn_start_def check_def)
  from run_more [OF run_none accepted [OF _ this]] show ?thesis by (simp add: server_new_def)
qed

theorem descriptors_accounted_witness:
  "mset (open_fds (snd (listen_round (AcceptClient 5 True) server_new))) +
   mset (closed_fds (snd (listen_round (AcceptClient 5 True) server_new))) = {#5#}"
  using descriptors_accounted [OF example_server_run [of True]] by simp

text \<open>
  C36: A connection whose thread could not be created stays in the server's list whatever happens later: its object is never freed and
  its descriptor never closed.
\<close>

theorem unstarted_connection_stays:
  assumes "server_run s fds s'" and "server_ok s" and "conn_at s c = Some conn" and "\<not> conn_running conn"
  shows "conn_at s' c = Some conn \<and> c \<in> set (conns s') \<and> conn_stfd conn \<in> set (open_fds s')"
  using unstarted_stays_run [OF assms] by (force simp: open_fds_def)

theorem unstarted_connection_stays_witness:
  "conn_at (snd (listen_round (AcceptClient 5 False) server_new)) 0 = Some \<lparr>conn_stfd = 5, conn_running = False\<rparr> \<and>
   5 \<in> set (open_fds (snd (listen_round (AcceptClient 5 False) server_new)))"
proof -
  let ?s = "snd (listen_round (AcceptClient 5 False) server_new)"
  have c: "conn_at ?s 0 = Some \<lparr>conn_stfd = 5, conn_running = False\<rparr>"
    by (simp add: accept_client_def server_new_def conn_start_def check_def)
  have ok: "server_ok ?s" using server_run_ok [OF example_server_run [of False] server_ok_new] by blast
  from unstarted_connection_stays [OF run_none ok c] c show ?thesis by simp
qed

text \<open>
  A play loop, which counts 100 ms per round, reports to the log exactly once in every \<open>q\<close> rounds, where \<open>q\<close> pulses are the
  server's report interval rounded up to whole pulses.
\<close>

theorem reports_are_periodic:
  assumes "0 < rss_report_interval_ms s" and "q = (nat (rss_report_interval_ms s) + 99) div 100"
  shows "play_reports n s = (n div q, 100 * int n, 100 * int (q * (n div q)))"
  using play_reports_count [OF assms(1)] assms(2) by simp

theorem reports_are_periodic_witness:
  "play_reports 75 server_new = (2, 7500, 6000)"
  using reports_are_periodic [of server_new 30 75] by (simp add: server_new_def)

section \<open>AMF0\<close>

text \<open>
  C21: Writing a readable AMF0 value and reading the bytes back gives the value and leaves the cursor
  behind it. Readable are strings shorter than 32768 bytes, booleans, numbers, and nested objects and ECMA arrays of readable
  values with distinct non-empty keys shorter than 32768 bytes; null and undefined are not, nor is anything that contains them.
\<close>

theorem amf0_roundtrip:
  assumes "readable v" and "length (enc_any v) \<le> length rest"
  shows "\<exists>pre' rest'. rss_amf0_write_any v (strm pre rest) = (Inr (), strm (pre @ pre') rest') \<and>
    rss_amf0_read_any (strm pre (pre' @ rest')) = (Inr v, strm (pre @ pre') rest')"
  using assms by (rule any.roundtrip)

definition example_object :: RssAmf0Any where
  "example_object = RssAmf0Object [(''app'', RssAmf0String ''live''), (''audio'', RssAmf0Boolean True),
     (''data'', RssARssAmf0EcmaArray 1 [(''n'', RssAmf0Number 0x3FF0000000000000)])]"

theorem amf0_roundtrip_witness:
  "\<exists>bs. rss_amf0_write_any example_object (strm [] (replicate 70 0)) = (Inr (), strm bs (replicate (70 - length bs) 0)) \<and>
     rss_amf0_read_any (strm [] (bs @ replicate (70 - length bs) 0)) = (Inr example_object, strm bs (replicate (70 - length bs) 0))"
proof -
  have ok: "readable example_object" "length (enc_any example_object) \<le> length (replicate 70 (0 :: byte))"
    by (simp add: example_object_def ht_ok_def, code_simp)
  have eq: "rss_amf0_write_any example_object (strm [] (replicate 70 0)) =
    (Inr (), strm (enc_any example_object) (replicate (70 - length (enc_any example_object)) 0))"
    by code_simp
  obtain pre' rest' where
    w: "rss_amf0_write_any example_object (strm [] (replicate 70 0)) = (Inr (), strm ([] @ pre') rest')" and
    r: "rss_amf0_read_any (strm [] (pre' @ rest')) = (Inr example_object, strm ([] @ pre') rest')"
    using amf0_roundtrip [OF ok, of "[]"] by blast
  from w eq have "pre' = enc_any example_object" "rest' = replicate (70 - length pre') 0"
    by auto
  with w r show ?thesis by (intro exI [of _ pre']) simp
qed

text \<open>
  A buffer of the size announced by \<^verbatim>\<open>rss_amf0_get_any_size\<close> is filled exactly by
  \<^verbatim>\<open>rss_amf0_write_any\<close>: no write runs over the end and no byte stays unwritten.
\<close>

theorem amf0_size_exact:
  assumes "writable v" and "int (length buf) = rss_amf0_get_any_size v"
  shows "rss_amf0_write_any v (strm [] buf) = (Inr (), strm (enc_any v) [])"
  using assms by (rule wr_any.fills_exactly)

theorem amf0_size_exact_witness:
  "rss_amf0_write_any RssAmf0Null (strm [] [77]) = (Inr (), strm [5] [])"
  using amf0_size_exact [of RssAmf0Null "[77]"] by (simp add: rss_amf0_get_null_size_def)

text \<open>
  C23: Reading an AMF0 value from arbitrary bytes, with at least two bytes of the buffer in front of the
  cursor, never aborts, never leaves the buffer and always returns: the result is a value or an error code, with the cursor
  still inside the buffer. (With fewer bytes in front the marker of an object's end fails the assertion of
  \<^verbatim>\<open>rss_amf0_read_object_eof\<close>, as the lemma below shows; the decoders of packets read AMF0 values only behind a
  command name.)
\<close>

theorem amf0_read_never_aborts:
  assumes "2 \<le> length pre" and "rss_amf0_read_any (strm pre rest) = (r, s')"
  shows "inside (pre @ rest) 0 s' \<and> (\<forall>e. r = Inl e \<longrightarrow> graceful e)"
proof -
  have "inside (pre @ rest) (length pre) (strm pre rest)" by simp
  from hoareD [OF read_any_safe [OF assms(1)] this] assms(2) show ?thesis
    by (auto simp: gives_up_def intro: inside_mono split: sum.splits)
qed

theorem amf0_read_never_aborts_witness:
  "\<exists>r s'. rss_amf0_read_any (strm [0, 0] [3, 0, 1, 65, 3, 0, 9]) = (r, s') \<and> (\<forall>e. r = Inl e \<longrightarrow> graceful e)"
  using amf0_read_never_aborts [of "[0, 0]" "[3, 0, 1, 65, 3, 0, 9]"]
  by (metis length_Cons numeral_2_eq_2 order_refl list.size(3) prod.collapse)

text \<open>The two bytes in front are needed: at the beginning of a buffer the marker of an object's end fails an assertion.\<close>

lemma eof_at_start_aborts: "fst (rss_amf0_read_any (strm [] [9])) = Inl AssertFailed"
  by code_simp

text \<open>
  An object with a null property cannot be read back: \<^verbatim>\<open>rss_amf0_read_any\<close> returns a null without
  consuming its marker, so the marker is taken for the length of the next key. Writing such an object
  succeeds, and reading the result fails with \<^verbatim>\<open>ERROR_RTMP_AMF0_DECODE\<close>.
\<close>

theorem amf0_null_property_unreadable:
  "\<exists>s. rss_amf0_write_any (RssAmf0Object [(''type'', RssAmf0Null)]) (strm [] (replicate 11 0)) =
     (Inr (), strm [3, 0, 4, 116, 121, 112, 101, 5, 0, 0, 9] []) \<and>
   rss_amf0_read_any (strm [] [3, 0, 4, 116, 121, 112, 101, 5, 0, 0, 9]) = (Inl (Code ERROR_RTMP_AMF0_DECODE), s)"
proof -
  have "rss_amf0_write_any (RssAmf0Object [(''type'', RssAmf0Null)]) (strm [] (replicate 11 0)) =
     (Inr (), strm [3, 0, 4, 116, 121, 112, 101, 5, 0, 0, 9] [])" by code_simp
  moreover have "fst (rss_amf0_read_any (strm [] [3, 0, 4, 116, 121, 112, 101, 5, 0, 0, 9])) =
     Inl (Code ERROR_RTMP_AMF0_DECODE)" by code_simp
  ultimately show ?thesis by (metis prod.collapse)
qed

text \<open>
  C29: The insertion-ordered property table: after any sequence of \<^verbatim>\<open>set\<close> calls a lookup returns the last value
  set for the name, else what was there before, and no name occurs twice.
\<close>

theorem property_table_last_write_wins:
  assumes "ht_ok ps"
  shows "ht_ok (fold (\<lambda>(k, v) t. ht_set t k v) kvs ps) \<and>
    ht_get_property (fold (\<lambda>(k, v) t. ht_set t k v) kvs ps) k =
      (case map_of (rev kvs) k of Some v \<Rightarrow> Some v | None \<Rightarrow> ht_get_property ps k)"
  using ht.inv_fold [OF assms] ht.look_fold [OF assms] by blast

theorem property_table_last_write_wins_witness:
  "ht_get_property (fold (\<lambda>(k, v) t. ht_set t k v)
     [(''a'', RssAmf0Null), (''b'', RssAmf0Undefined), (''a'', RssAmf0Boolean True)] []) ''a'' =
   Some (RssAmf0Boolean True)"
  using property_table_last_write_wins [OF ht.inv_emp,
    of "[(''a'', RssAmf0Null), (''b'', RssAmf0Undefined), (''a'', RssAmf0Boolean True)]" "''a''"] by simp

section \<open>Where the code goes wrong\<close>



text \<open>
  The second byte of a two-byte chunk stream id is added as a signed character: whenever it is 128 or more, the id is
  taken to be 256 less than it is, so that chunk streams 192 to 319 are taken for the chunk streams -64 to 63.
\<close>

theorem wide_chunk_id_signed:
  assumes "buf_data b = x # y # rest" and "length rest < 1000000" and "x AND 0x3F = 0" and "128 \<le> y"
  shows "read_basic_header (b, k) = (Inr (unat (drop_bit 6 x AND 0x03), uint y - 192, 2), (b, k))"
proof -
  have "buffer_size b = int (length rest) + 2"
    using int_of_size_small [of "length (buf_data b)"] assms(1,2) by (simp add: buffer_size_def)
  then have "ensure_buffer_bytes 1 (b, k) = (Inr (), (b, k))" "ensure_buffer_bytes 2 (b, k) = (Inr (), (b, k))"
    by (simp_all add: ensure_nop)
  then show ?thesis
    using assms(1,3) sint_byte_high [OF assms(4)]
    by (simp add: read_basic_header_def bind_def buffer_bytes_def buffer_deref_def Let_def)
qed

theorem wide_chunk_id_signed_witness:
  "fst (read_basic_header (buffer_new\<lparr>buf_data := [0, 200]\<rparr>, socket_new quiet_net)) = Inr (0, 8, 2)"
  using wide_chunk_id_signed [of "buffer_new\<lparr>buf_data := [0, 200]\<rparr>" 0 200 "[]" "socket_new quiet_net"]
  by (simp add: buffer_new_def)

text \<open>
  C40: A chunk of type 1 on a chunk stream 2 to 63 that is inside a message replaces the length of the message, but the payload array
  keeps the size it was allocated with. Whenever the length announced is longer, so that the bytes received before and those of this chunk
  are more than the array holds, the copy runs over its end; the peer chooses the length and the bytes.
\<close>

theorem length_change_overruns:
  fixes len :: i32
  assumes "stage s cid h got" and "got \<noteq> []" and "2 \<le> cid" and "cid < 64"
    and "protocol_ready s" and "in_chunk_size s = int n"
    and "protocol_input s = type1_byte cid # [t2, t1, t0] @ [byte_at 2 len, byte_at 1 len, byte_at 0 len, ty] @ part @ rest"
    and "u24 [t2, t1, t0] < 0xFFFFFF" and "len < 2 ^ 24"
    and "length part = min (unat len - length got) n" and "unat (payload_length h) < length got + length part"
  shows "fst (recv_message s) = Inl Undefined"
  using assms by (rule length_change_lemma)

text \<open>
  The receiver has read the first chunk of a message of three bytes and stored two of them; the peer goes on with a chunk of type 1 that
  announces nine.
\<close>

definition attacked_receiver :: RssProtocol where
  "attacked_receiver = snd (recv_interlaced_message ((protocol_new (net_delivering [[6, 0, 0, 26, 0, 0, 3, 9, 1, 0, 0, 0, 1, 2],
     [0x46, 0, 0, 0, 0, 0, 9, 9, 3, 4]]))\<lparr>in_chunk_size := 2\<rparr>))"

theorem length_change_overruns_witness:
  "fst (recv_message attacked_receiver) = Inl Undefined"
proof -
  have c: "chunk_of attacked_receiver 6 = \<lparr>chunk_cid = 6, chunk_header = received_header video_header,
      chunk_extended_timestamp = False, chunk_msg = Some \<lparr>msg_header = received_header video_header, msg_size = 2,
        msg_payload = Some [1, 2, 0], msg_packet = None\<rparr>, chunk_msg_count = 1\<rparr>" by code_simp
  have st: "stage attacked_receiver 6 video_header [1, 2]"
    by (simp add: stage_def c building_def video_header_def received_header_def)
  have bytes: "protocol_input attacked_receiver = [0x46, 0, 0, 0, 0, 0, 9, 9, 3, 4]" by code_simp
  have "type1_byte 6 = 0x46" "[byte_at 2 (9 :: i32), byte_at 1 (9 :: i32), byte_at 0 (9 :: i32)] = [0, 0, 9]"
    by (simp_all add: type1_byte_def byte_at_def)
  with bytes have inp: "protocol_input attacked_receiver =
      type1_byte 6 # [0, 0, 0] @ [byte_at 2 (9 :: i32), byte_at 1 (9 :: i32), byte_at 0 (9 :: i32), 9] @ [3, 4] @ []" by simp
  have "net_rd (stfd (skt attacked_receiver)) = [RdBytes [0x46, 0, 0, 0, 0, 0, 9, 9, 3, 4]]"
    "net_poll (stfd (skt attacked_receiver)) = []" by code_simp+
  with bytes have ready: "protocol_ready attacked_receiver"
    by (simp add: protocol_ready_def io_ready_def net_fair_def protocol_input_def)
  have n: "in_chunk_size attacked_receiver = int 2" by code_simp
  have len: "u24 [0, 0, 0] < 0xFFFFFF" "(9 :: i32) < 2 ^ 24"
    "length [3 :: byte, 4] = min (unat (9 :: i32) - length [1 :: byte, 2]) 2"
    "unat (payload_length video_header) < length [1 :: byte, 2] + length [3 :: byte, 4]" by code_simp+
  show ?thesis by (rule length_change_overruns [OF st _ _ _ ready n inp len]) simp_all
qed

text \<open>
  C38: A receive in the play loop that times out while the buffer begins with a chunk of type 0, of a chunk stream 2 to 63,
  cannot be taken up again: the timeout is no error of the loop, but the retry parses the chunk's header once more, finds the message
  it has begun itself, and ends with \<^verbatim>\<open>ERROR_RTMP_CHUNK_START\<close>, whatever has arrived on the socket by then.
\<close>

theorem retry_after_timeout_fails:
  assumes "recv_message p = (Inl (Code ERROR_SOCKET_TIMEOUT), p1)"
    and "buf_data (buffer p1) = b # bs" and "length (b # bs) < 2 ^ 31"
    and "unat (drop_bit 6 b AND 0x03) = 0" and "1 < uint (b AND 0x3f)"
  shows "play_recv p = (Inr (), p1) \<and> (\<forall>k. fst (play_recv (p1\<lparr>skt := k\<rparr>)) = Inl (Code ERROR_RTMP_CHUNK_START))"
proof -
  have "fst (play_recv q) = Inl (Code ERROR_RTMP_CHUNK_START)" if "fst (recv_message q) = Inl (Code ERROR_RTMP_CHUNK_START)" for q
    using that by (cases "recv_message q") (simp add: play_recv_def)
  from this [OF retry_rejected [OF assms]] have "fst (play_recv (p1\<lparr>skt := k\<rparr>)) = Inl (Code ERROR_RTMP_CHUNK_START)" for k .
  moreover have "play_recv p = (Inr (), p1)" using assms(1) by (simp add: play_recv_def)
  ultimately show ?thesis by blast
qed

text \<open>A peer whose first byte comes in time and the rest of whose message comes after the timeout.\<close>

definition slow_peer :: RssProtocol where
  "slow_peer = (protocol_new quiet_net)\<lparr>skt := (socket_new (quiet_net\<lparr>net_rd := [RdBytes [6], RdFail EAGAIN,
     RdBytes [0, 0, 26, 0, 0, 3, 9, 1, 0, 0, 0, 1, 2, 3]], net_poll := [PollTimeout]\<rparr>))\<lparr>recv_timeout := 100000\<rparr>\<rparr>"

theorem retry_after_timeout_fails_witness:
  "\<exists>p1. play_recv slow_peer = (Inr (), p1) \<and> sock_in (skt p1) = [0, 0, 26, 0, 0, 3, 9, 1, 0, 0, 0, 1, 2, 3] \<and>
     fst (play_recv p1) = Inl (Code ERROR_RTMP_CHUNK_START)"
proof -
  obtain r p1 where run: "recv_message slow_peer = (r, p1)" by (rule prod.exhaust)
  have "fst (recv_message slow_peer) = Inl (Code ERROR_SOCKET_TIMEOUT)" by code_simp
  moreover have "buf_data (buffer (snd (recv_message slow_peer))) = [6]" by code_simp
  moreover have "sock_in (skt (snd (recv_message slow_peer))) = [0, 0, 26, 0, 0, 3, 9, 1, 0, 0, 0, 1, 2, 3]" by code_simp
  ultimately have p1: "recv_message slow_peer = (Inl (Code ERROR_SOCKET_TIMEOUT), p1)" "buf_data (buffer p1) = [6]"
    "sock_in (skt p1) = [0, 0, 26, 0, 0, 3, 9, 1, 0, 0, 0, 1, 2, 3]" using run by simp_all
  have "play_recv slow_peer = (Inr (), p1) \<and> (\<forall>k. fst (play_recv (p1\<lparr>skt := k\<rparr>)) = Inl (Code ERROR_RTMP_CHUNK_START))"
    by (rule retry_after_timeout_fails [OF p1(1,2)]) simp_all
  moreover have "p1\<lparr>skt := skt p1\<rparr> = p1" by simp
  ultimately show ?thesis using p1(3) by metis
qed

text \<open>
  A string of 32768 to 65535 bytes is written with its proper length, but the length is read as a signed number: the reader takes the
  string for empty, returns the old content of the variable, and leaves the text in the stream for the next value.
\<close>

theorem long_string_lost:
  assumes "2 ^ 15 \<le> length v" and "length v < 2 ^ 16"
  shows "rss_amf0_read_string old (strm pre (enc_any (RssAmf0String v) @ rest)) =
    (Inr old, strm (pre @ take 3 (enc_any (RssAmf0String v))) (bytes_of_string v @ rest))"
proof -
  have "sint (word_of_nat (length v) :: i16) \<le> 0" by (rule sint_wrapped [OF assms])
  then show ?thesis
    by (simp add: rss_amf0_read_string_def rss_amf0_read_utf8_def enc_utf8_def)
qed

theorem long_string_lost_witness:
  "fst (rss_amf0_read_string ''old'' (strm [] (enc_any (RssAmf0String (replicate 40000 CHR ''x'')) @ []))) = Inr ''old''"
proof -
  have "(2 :: nat) ^ 15 \<le> length (replicate 40000 CHR ''x'')" "length (replicate 40000 CHR ''x'') < 2 ^ 16" by simp_all
  from long_string_lost [OF this] show ?thesis by (metis fst_conv)
qed

end
